(* ===== verification/Z80_Prelude.thy ===== *)
theory Z80_Prelude
  imports Main "HOL-Library.Word"
begin

text \<open>
  Shared vocabulary of the development: the machine integers of the sources
  (\<open>uint8_t\<close>, \<open>uint16_t\<close>, \<open>uint32_t\<close>, \<open>uint64_t\<close>) as words, the high/low byte
  views that \<open>z80_cpu_t\<close> gets from its unions, the flag bits of \<open>core/z80.h\<close>, and the
  generic lemmas on bytes, flag bits and 16-bit addresses that the component
  theories rely on.  The collection \<open>z80_flag\<close> gathers the rules that read one
  flag out of a flag byte built with \<open>f |= X\<close> chains.
\<close>

unbundle bit_operations_syntax

named_theorems z80_flag "rules that evaluate single flag bits of a computed F byte"

type_synonym u8 = "8 word"
type_synonym u16 = "16 word"
type_synonym u32 = "32 word"
type_synonym u64 = "64 word"

type_synonym memory = "u16 \<Rightarrow> u8"
type_synonym bytes = "u8 list"

section \<open>Flag bits (core/z80.h)\<close>

abbreviation (input) Z80_FLAG_S :: u8 where "Z80_FLAG_S \<equiv> 0x80"
abbreviation (input) Z80_FLAG_Z :: u8 where "Z80_FLAG_Z \<equiv> 0x40"
abbreviation (input) Z80_FLAG_5 :: u8 where "Z80_FLAG_5 \<equiv> 0x20"
abbreviation (input) Z80_FLAG_H :: u8 where "Z80_FLAG_H \<equiv> 0x10"
abbreviation (input) Z80_FLAG_3 :: u8 where "Z80_FLAG_3 \<equiv> 0x08"
abbreviation (input) Z80_FLAG_PV :: u8 where "Z80_FLAG_PV \<equiv> 0x04"
abbreviation (input) Z80_FLAG_N :: u8 where "Z80_FLAG_N \<equiv> 0x02"
abbreviation (input) Z80_FLAG_C :: u8 where "Z80_FLAG_C \<equiv> 0x01"

section \<open>Bytes of a 16-bit value\<close>

text \<open>\<open>lo | (hi << 8)\<close>, \<open>(uint8_t)(v >> 8)\<close> and \<open>(uint8_t)(v & 0xFF)\<close>.\<close>

definition mk16 :: "u8 \<Rightarrow> u8 \<Rightarrow> u16" where
  "mk16 hi lo = ucast lo OR push_bit 8 (ucast hi)"

definition hi8 :: "u16 \<Rightarrow> u8" where
  "hi8 v = ucast (drop_bit 8 v)"

definition lo8 :: "u16 \<Rightarrow> u8" where
  "lo8 v = ucast v"

text \<open>\<open>if (c) f |= m;\<close>\<close>

definition set_if :: "bool \<Rightarrow> u8 \<Rightarrow> u8 \<Rightarrow> u8" where
  "set_if c m f = (if c then f OR m else f)"

text \<open>A displacement byte (\<open>int8_t\<close>) sign-extended for 16-bit address arithmetic.\<close>

definition sext :: "u8 \<Rightarrow> u16" where
  "sext d = scast d"

section \<open>Lemmas\<close>

lemma bit_u8_ge [simp]: "8 \<le> n \<Longrightarrow> \<not> bit (w :: u8) n"
  using bit_imp_le_length [of w n] by auto

lemma bit_u16_ge [simp]: "16 \<le> n \<Longrightarrow> \<not> bit (w :: u16) n"
  using bit_imp_le_length [of w n] by auto

lemma hi8_mk16 [simp]: "hi8 (mk16 h l) = h"
proof (rule bit_word_eqI)
  fix n assume "n < LENGTH(8)"
  then show "bit (hi8 (mk16 h l)) n = bit h n"
    by (simp add: hi8_def mk16_def bit_simps)
qed

lemma lo8_mk16 [simp]: "lo8 (mk16 h l) = l"
proof (rule bit_word_eqI)
  fix n assume "n < LENGTH(8)"
  then show "bit (lo8 (mk16 h l)) n = bit l n"
    by (simp add: lo8_def mk16_def bit_simps)
qed

lemma mk16_hi_lo [simp]: "mk16 (hi8 v) (lo8 v) = v"
proof (rule bit_word_eqI)
  fix n assume n: "n < LENGTH(16)"
  show "bit (mk16 (hi8 v) (lo8 v)) n = bit v n"
  proof (cases "n < 8")
    case True
    then show ?thesis by (simp add: hi8_def lo8_def mk16_def bit_simps)
  next
    case False
    with n show ?thesis by (auto simp: hi8_def lo8_def mk16_def bit_simps)
  qed
qed

lemma mk16_eq_iff: "mk16 h l = v \<longleftrightarrow> h = hi8 v \<and> l = lo8 v"
  by (metis hi8_mk16 lo8_mk16 mk16_hi_lo)

lemma u16_byte_eqI: "hi8 v = hi8 w \<Longrightarrow> lo8 v = lo8 w \<Longrightarrow> v = w"
  by (metis mk16_hi_lo)

subsection \<open>Flag tests\<close>

lemma and_flag_iff [z80_flag]:
  fixes f :: u8
  shows "f AND 0x80 \<noteq> 0 \<longleftrightarrow> bit f 7" "f AND 0x40 \<noteq> 0 \<longleftrightarrow> bit f 6"
    "f AND 0x20 \<noteq> 0 \<longleftrightarrow> bit f 5" "f AND 0x10 \<noteq> 0 \<longleftrightarrow> bit f 4"
    "f AND 0x08 \<noteq> 0 \<longleftrightarrow> bit f 3" "f AND 0x04 \<noteq> 0 \<longleftrightarrow> bit f 2"
    "f AND 0x02 \<noteq> 0 \<longleftrightarrow> bit f 1" "f AND 0x01 \<noteq> 0 \<longleftrightarrow> bit f 0"
  using and_exp_eq_0_iff_not_bit [of f 7] and_exp_eq_0_iff_not_bit [of f 6]
    and_exp_eq_0_iff_not_bit [of f 5] and_exp_eq_0_iff_not_bit [of f 4]
    and_exp_eq_0_iff_not_bit [of f 3] and_exp_eq_0_iff_not_bit [of f 2]
    and_exp_eq_0_iff_not_bit [of f 1] and_exp_eq_0_iff_not_bit [of f 0]
  by simp_all

lemma and_flag_eq_0_iff [z80_flag]:
  fixes f :: u8
  shows "f AND 0x80 = 0 \<longleftrightarrow> \<not> bit f 7" "f AND 0x40 = 0 \<longleftrightarrow> \<not> bit f 6"
    "f AND 0x20 = 0 \<longleftrightarrow> \<not> bit f 5" "f AND 0x10 = 0 \<longleftrightarrow> \<not> bit f 4"
    "f AND 0x08 = 0 \<longleftrightarrow> \<not> bit f 3" "f AND 0x04 = 0 \<longleftrightarrow> \<not> bit f 2"
    "f AND 0x02 = 0 \<longleftrightarrow> \<not> bit f 1" "f AND 0x01 = 0 \<longleftrightarrow> \<not> bit f 0"
  using and_flag_iff [of f] by auto

lemma bit_set_if [z80_flag]: "bit (set_if c m f) n \<longleftrightarrow> bit f n \<or> c \<and> bit m n"
  by (simp add: set_if_def bit_or_iff)

lemma set_if_simps [simp]: "set_if True m f = f OR m" "set_if False m f = f"
  by (simp_all add: set_if_def)

text \<open>Two bytes are equal when their eight bits are.\<close>

lemma u8_eq_iff_bits:
  fixes v w :: u8
  shows "v = w \<longleftrightarrow> (bit v 0 \<longleftrightarrow> bit w 0) \<and> (bit v 1 \<longleftrightarrow> bit w 1) \<and> (bit v 2 \<longleftrightarrow> bit w 2) \<and>
    (bit v 3 \<longleftrightarrow> bit w 3) \<and> (bit v 4 \<longleftrightarrow> bit w 4) \<and> (bit v 5 \<longleftrightarrow> bit w 5) \<and>
    (bit v 6 \<longleftrightarrow> bit w 6) \<and> (bit v 7 \<longleftrightarrow> bit w 7)" (is "_ \<longleftrightarrow> ?B")
proof
  assume B: ?B
  show "v = w"
  proof (rule bit_word_eqI)
    fix n assume "n < LENGTH(8)"
    then have "n = 0 \<or> n = 1 \<or> n = 2 \<or> n = 3 \<or> n = 4 \<or> n = 5 \<or> n = 6 \<or> n = 7" by auto
    with B show "bit v n = bit w n" by auto
  qed
qed auto

subsection \<open>Exhausting the byte values\<close>

lemma all_u8_iff: "(\<forall>x :: u8. P x) \<longleftrightarrow> list_all (\<lambda>n. P (of_nat n)) [0..<256]"
proof
  assume L: "list_all (\<lambda>n. P (of_nat n)) [0..<256]"
  show "\<forall>x. P x"
  proof
    fix x :: u8
    have "unat x < 256" using unsigned_less [of x] by simp
    then have "unat x \<in> set [0..<256]" by simp
    with L have "P (of_nat (unat x))" unfolding list_all_iff by blast
    then show "P x" by simp
  qed
qed (simp add: list_all_iff)

subsection \<open>Arithmetic of bytes\<close>

lemma unat_u8_less [simp]: "unat (x :: u8) < 256"
  using unsigned_less [of x] by simp

lemma unat_u16_less [simp]: "unat (x :: u16) < 65536"
  using unsigned_less [of x] by simp

lemma unat_of_nat_u16: "k < 65536 \<Longrightarrow> unat (of_nat k :: u16) = k"
  by (simp add: unat_of_nat take_bit_nat_eq_self)

lemma u16_eq_of_nat_iff: "k < 65536 \<Longrightarrow> (x :: u16) = of_nat k \<longleftrightarrow> unat x = k"
  by (auto simp: unat_of_nat_u16)

lemma and_F_mod: "unat (x AND 0xF :: u8) = unat x mod 16"
proof -
  have "x AND 0xF = take_bit 4 x" by (simp add: take_bit_eq_mask mask_eq_exp_minus_1)
  then have "unat (x AND 0xF) = unat (take_bit 4 x)" by (rule arg_cong)
  also have "\<dots> = take_bit 4 (unat x)" by (rule unsigned_take_bit_eq)
  finally show ?thesis by (simp add: take_bit_eq_mod)
qed

lemma and_FFF_mod: "unat (x AND 0xFFF :: u16) = unat x mod 4096"
proof -
  have "x AND 0xFFF = take_bit 12 x" by (simp add: take_bit_eq_mask mask_eq_exp_minus_1)
  then have "unat (x AND 0xFFF) = unat (take_bit 12 x)" by (rule arg_cong)
  also have "\<dots> = take_bit 12 (unat x)" by (rule unsigned_take_bit_eq)
  finally show ?thesis by (simp add: take_bit_eq_mod)
qed

lemma bit7_iff: "bit (x :: u8) 7 \<longleftrightarrow> 128 \<le> unat x"
proof -
  have "bit x 7 \<longleftrightarrow> odd (unat x div 2 ^ 7)"
    unfolding bit_iff_odd [symmetric] by (simp add: bit_unsigned_iff)
  moreover have "unat x div 128 = (if 128 \<le> unat x then 1 else 0)"
    using unat_u8_less [of x] by (auto intro: div_nat_eqI)
  ultimately show ?thesis by (auto split: if_splits)
qed

lemma bit15_iff: "bit (x :: u16) 15 \<longleftrightarrow> 32768 \<le> unat x"
proof -
  have "bit x 15 \<longleftrightarrow> odd (unat x div 2 ^ 15)"
    unfolding bit_iff_odd [symmetric] by (simp add: bit_unsigned_iff)
  moreover have "unat x div 32768 = (if 32768 \<le> unat x then 1 else 0)"
    using unat_u16_less [of x] by (auto intro: div_nat_eqI)
  ultimately show ?thesis by (auto split: if_splits)
qed

lemma sint_u8: "sint (x :: u8) = (if bit x 7 then int (unat x) - 256 else int (unat x))"
  using unsigned_less [of x, where 'a = int]
  by (simp add: sint_uint signed_take_bit_eq_take_bit_minus bit_uint_iff take_bit_int_eq_self)

lemma sint_u16: "sint (x :: u16) = (if bit x 15 then int (unat x) - 65536 else int (unat x))"
  using unsigned_less [of x, where 'a = int]
  by (simp add: sint_uint signed_take_bit_eq_take_bit_minus bit_uint_iff take_bit_int_eq_self)

subsection \<open>Case analysis on the two nibbles of a byte\<close>

lemma less_16_cases: "(n::nat) < 16 \<Longrightarrow> n \<in> {0,1,2,3,4,5,6,7,8,9,10,11,12,13,14,15}"
  by (simp only: insert_iff empty_iff) presburger

lemma u8_nibbles:
  fixes x :: u8
  obtains h l :: nat where "x = of_nat (16 * h + l)"
    "h \<in> {0,1,2,3,4,5,6,7,8,9,10,11,12,13,14,15}" "l \<in> {0,1,2,3,4,5,6,7,8,9,10,11,12,13,14,15}"
proof -
  have h: "unat x div 16 < 16" using unat_u8_less [of x] by linarith
  have l: "unat x mod 16 < 16" by simp
  have "x = of_nat (16 * (unat x div 16) + unat x mod 16)"
    unfolding mult_div_mod_eq by simp
  then show thesis using less_16_cases [OF h] less_16_cases [OF l] by (rule that)
qed

end
