(* ===== verification/Z80_Types.thy ===== *)
theory Z80_Types
  imports Z80_Prelude
begin

text \<open>
  The vocabulary shared by the decoder, the interpreter and the translator
  (\<open>core/z80.h\<close>): the operation enumeration \<open>z80_op_type\<close> with the source's
  constructors in the source's order, and the decoded-instruction record
  \<open>z80_decoded\<close>.
\<close>

datatype (plugins only:) z80_op_type =
    Z80_OP_UNKNOWN | Z80_OP_NOP | Z80_OP_LD_R_N | Z80_OP_LD_R_R | Z80_OP_LD_RR_NN
  | Z80_OP_LD_HL_N | Z80_OP_LD_A_BC | Z80_OP_LD_A_DE | Z80_OP_LD_A_NN | Z80_OP_LD_BC_A
  | Z80_OP_LD_DE_A | Z80_OP_LD_NN_A | Z80_OP_LD_SP_HL | Z80_OP_PUSH_RR | Z80_OP_POP_RR
  | Z80_OP_ADD_A_R | Z80_OP_ADD_A_N | Z80_OP_SUB_A_R | Z80_OP_SUB_A_N | Z80_OP_AND_A_R
  | Z80_OP_AND_A_N | Z80_OP_OR_A_R | Z80_OP_OR_A_N | Z80_OP_XOR_A_R | Z80_OP_XOR_A_N
  | Z80_OP_CP_A_R | Z80_OP_CP_A_N | Z80_OP_INC_R | Z80_OP_DEC_R | Z80_OP_INC_RR
  | Z80_OP_DEC_RR | Z80_OP_JP_NN | Z80_OP_JP_CC_NN | Z80_OP_JR_E | Z80_OP_JR_CC_E
  | Z80_OP_CALL_NN | Z80_OP_CALL_CC_NN | Z80_OP_RET | Z80_OP_RET_CC | Z80_OP_RST
  | Z80_OP_OUT_N_A | Z80_OP_IN_A_N | Z80_OP_EX_DE_HL | Z80_OP_EX_AF_AF | Z80_OP_EXX
  | Z80_OP_DJNZ | Z80_OP_LDIR | Z80_OP_LDDR | Z80_OP_ADD_HL_RR | Z80_OP_LD_HL_indNN
  | Z80_OP_LD_NN_HL | Z80_OP_CPL | Z80_OP_SCF | Z80_OP_CCF | Z80_OP_DAA | Z80_OP_NEG
  | Z80_OP_LDI | Z80_OP_LDD | Z80_OP_CB | Z80_OP_RLCA | Z80_OP_RRCA | Z80_OP_RLA
  | Z80_OP_RRA | Z80_OP_JP_HL | Z80_OP_LD_A_HL_ind | Z80_OP_LD_HL_A_ind
  | Z80_OP_LD_R_HL_ind | Z80_OP_LD_HL_R_ind | Z80_OP_LD_HL_N_ind | Z80_OP_INC_HL_ind
  | Z80_OP_DEC_HL_ind | Z80_OP_ADD_A_HL_ind | Z80_OP_SUB_A_HL_ind | Z80_OP_AND_A_HL_ind
  | Z80_OP_XOR_A_HL_ind | Z80_OP_OR_A_HL_ind | Z80_OP_CP_A_HL_ind | Z80_OP_LD_A_IXH
  | Z80_OP_LD_A_IXL | Z80_OP_ADC_A_R | Z80_OP_ADC_A_N | Z80_OP_ADC_A_HL_ind
  | Z80_OP_SBC_A_R | Z80_OP_SBC_A_N | Z80_OP_SBC_A_HL_ind | Z80_OP_EX_SP_HL | Z80_OP_DI
  | Z80_OP_EI | Z80_OP_HALT | Z80_OP_ADC_HL_RR | Z80_OP_SBC_HL_RR | Z80_OP_LD_NN_RR
  | Z80_OP_LD_RR_NN_IND | Z80_OP_CPI | Z80_OP_CPD | Z80_OP_CPIR | Z80_OP_CPDR | Z80_OP_RRD
  | Z80_OP_RLD | Z80_OP_IN_R_C | Z80_OP_OUT_C_R | Z80_OP_INI | Z80_OP_IND | Z80_OP_INIR
  | Z80_OP_INDR | Z80_OP_OUTI | Z80_OP_OUTD | Z80_OP_OTIR | Z80_OP_OTDR | Z80_OP_IM
  | Z80_OP_RETN | Z80_OP_LD_I_A | Z80_OP_LD_R_A | Z80_OP_LD_A_I | Z80_OP_LD_A_R

text \<open>
  The \<open>disp\<close> field is an \<open>int8_t\<close> in the source; it is kept as the byte that was
  fetched and sign-extended (\<^const>\<open>sext\<close>) where the source uses it.
\<close>

record z80_decoded =
  dtype :: z80_op_type
  dprefix :: u8
  dopcode :: u8
  reg1 :: u8
  reg2 :: u8
  dcc :: u8
  imm16 :: u16
  imm8 :: u8
  ddisp :: u8
  dbytes :: u8

text \<open>\<open>memset(out, 0, sizeof(*out))\<close>: the enumerator with value 0 is \<open>Z80_OP_UNKNOWN\<close>.\<close>

definition zero_decoded :: z80_decoded where
  "zero_decoded = \<lparr>dtype = Z80_OP_UNKNOWN, dprefix = 0, dopcode = 0, reg1 = 0, reg2 = 0,
     dcc = 0, imm16 = 0, imm8 = 0, ddisp = 0, dbytes = 0\<rparr>"

end
