(* ===== verification/Z80_Decode.thy ===== *)
theory Z80_Decode
  imports Z80_Types
begin

text \<open>
  The instruction decoder \<open>z80_decode_one\<close> of \<open>core/z80_decode.c\<close>: the DD/FD prefix
  loop, the CB and ED pages, the DD/FD remapping with its displacement byte, the
  main switch and the half-index-register fix-up.  Each stage of the C function is
  one definition; \<open>z80_decode_one\<close> composes them in the order of the source.
\<close>

section \<open>Operand encodings\<close>

abbreviation (input) CC_NZ :: u8 where "CC_NZ \<equiv> 0"
abbreviation (input) CC_Z :: u8 where "CC_Z \<equiv> 1"
abbreviation (input) CC_NC :: u8 where "CC_NC \<equiv> 2"
abbreviation (input) CC_C :: u8 where "CC_C \<equiv> 3"
abbreviation (input) CC_PO :: u8 where "CC_PO \<equiv> 4"
abbreviation (input) CC_PE :: u8 where "CC_PE \<equiv> 5"
abbreviation (input) CC_P :: u8 where "CC_P \<equiv> 6"
abbreviation (input) CC_M :: u8 where "CC_M \<equiv> 7"

abbreviation (input) R_B :: u8 where "R_B \<equiv> 0"
abbreviation (input) R_C :: u8 where "R_C \<equiv> 1"
abbreviation (input) R_D :: u8 where "R_D \<equiv> 2"
abbreviation (input) R_E :: u8 where "R_E \<equiv> 3"
abbreviation (input) R_H :: u8 where "R_H \<equiv> 4"
abbreviation (input) R_L :: u8 where "R_L \<equiv> 5"
abbreviation (input) R_A :: u8 where "R_A \<equiv> 7"

abbreviation (input) RR_BC :: u8 where "RR_BC \<equiv> 0"
abbreviation (input) RR_DE :: u8 where "RR_DE \<equiv> 1"
abbreviation (input) RR_HL :: u8 where "RR_HL \<equiv> 2"
abbreviation (input) RR_AF :: u8 where "RR_AF \<equiv> 3"

text \<open>\<open>(op >> 3) & 7\<close> and \<open>op & 7\<close>.\<close>

definition op_y :: "u8 \<Rightarrow> u8" where
  "op_y op = drop_bit 3 op AND 7"

definition op_z :: "u8 \<Rightarrow> u8" where
  "op_z op = op AND 7"

text \<open>Operand fetches: \<open>mem[(pc+1)&0xFFFF]\<close> and friends, with the byte count they add.\<close>

definition fetch_imm8 :: "memory \<Rightarrow> u16 \<Rightarrow> z80_decoded \<Rightarrow> z80_decoded" where
  "fetch_imm8 mem pc out = out\<lparr>imm8 := mem (pc + 1), dbytes := dbytes out + 1\<rparr>"

definition fetch_imm16 :: "memory \<Rightarrow> u16 \<Rightarrow> z80_decoded \<Rightarrow> z80_decoded" where
  "fetch_imm16 mem pc out =
     out\<lparr>imm16 := mk16 (mem (pc + 2)) (mem (pc + 1)), dbytes := dbytes out + 2\<rparr>"

definition fetch_disp :: "memory \<Rightarrow> u16 \<Rightarrow> z80_decoded \<Rightarrow> z80_decoded" where
  "fetch_disp mem pc out = out\<lparr>ddisp := mem (pc + 1), dbytes := dbytes out + 1\<rparr>"

section \<open>The stages of the decoder\<close>

subsection \<open>Leading DD/FD prefixes: the last one wins, at most four are consumed\<close>

definition is_prefix :: "u8 \<Rightarrow> bool" where
  "is_prefix op \<longleftrightarrow> op = 0xDD \<or> op = 0xFD"

fun consume_prefixes ::
    "memory \<Rightarrow> nat \<Rightarrow> u16 \<Rightarrow> u8 \<Rightarrow> u8 \<Rightarrow> z80_decoded \<Rightarrow> u16 \<times> u8 \<times> u8 \<times> z80_decoded" where
  "consume_prefixes mem 0 pc op pfx out = (pc, op, pfx, out)"
| "consume_prefixes mem (Suc max_prefix) pc op pfx out =
     (if is_prefix op
      then consume_prefixes mem max_prefix (pc + 1) (mem (pc + 1)) op
             (out\<lparr>dprefix := op, dbytes := dbytes out + 1\<rparr>)
      else (pc, op, pfx, out))"

subsection \<open>The CB page\<close>

definition decode_cb :: "memory \<Rightarrow> u16 \<Rightarrow> u8 \<Rightarrow> z80_decoded \<Rightarrow> z80_decoded" where
  "decode_cb mem pc pfx out =
     (let out = out\<lparr>dprefix := (if pfx \<noteq> 0 then pfx else 0xCB)\<rparr>;
          out = (if pfx \<noteq> 0
                 then out\<lparr>ddisp := mem (pc + 1), imm8 := mem (pc + 2), dbytes := dbytes out + 2\<rparr>
                 else out\<lparr>imm8 := mem (pc + 1), dbytes := dbytes out + 1\<rparr>)
      in out\<lparr>dtype := Z80_OP_CB, dopcode := imm8 out\<rparr>)"

subsection \<open>The ED page\<close>

definition im_mode :: "u8 \<Rightarrow> u8" where
  "im_mode y = (if y = 2 then 1 else if y = 3 then 2 else 0)"

definition decode_ed_op :: "memory \<Rightarrow> u16 \<Rightarrow> u8 \<Rightarrow> z80_decoded \<Rightarrow> z80_decoded" where
  "decode_ed_op mem pc op out = (
     if op = 0x42 then out\<lparr>dtype := Z80_OP_SBC_HL_RR, reg1 := RR_BC\<rparr>
     else if op = 0x52 then out\<lparr>dtype := Z80_OP_SBC_HL_RR, reg1 := RR_DE\<rparr>
     else if op = 0x62 then out\<lparr>dtype := Z80_OP_SBC_HL_RR, reg1 := RR_HL\<rparr>
     else if op = 0x72 then out\<lparr>dtype := Z80_OP_SBC_HL_RR, reg1 := 3\<rparr>
     else if op = 0x4A then out\<lparr>dtype := Z80_OP_ADC_HL_RR, reg1 := RR_BC\<rparr>
     else if op = 0x5A then out\<lparr>dtype := Z80_OP_ADC_HL_RR, reg1 := RR_DE\<rparr>
     else if op = 0x6A then out\<lparr>dtype := Z80_OP_ADC_HL_RR, reg1 := RR_HL\<rparr>
     else if op = 0x7A then out\<lparr>dtype := Z80_OP_ADC_HL_RR, reg1 := 3\<rparr>
     else if op \<in> {0x43, 0x53, 0x63, 0x73} then
       fetch_imm16 mem pc (out\<lparr>dtype := Z80_OP_LD_NN_RR, reg1 := drop_bit 4 op - 4\<rparr>)
     else if op \<in> {0x4B, 0x5B, 0x6B, 0x7B} then
       fetch_imm16 mem pc (out\<lparr>dtype := Z80_OP_LD_RR_NN_IND, reg1 := drop_bit 4 op - 4\<rparr>)
     else if op \<in> {0x44, 0x4C, 0x54, 0x5C, 0x64, 0x6C, 0x74, 0x7C} then
       out\<lparr>dtype := Z80_OP_NEG\<rparr>
     else if op \<in> {0x45, 0x4D, 0x55, 0x5D, 0x65, 0x6D, 0x75, 0x7D} then
       out\<lparr>dtype := Z80_OP_RETN\<rparr>
     else if op \<in> {0x46, 0x4E, 0x56, 0x5E, 0x66, 0x6E, 0x76, 0x7E} then
       out\<lparr>dtype := Z80_OP_IM, imm8 := im_mode (drop_bit 3 op AND 3)\<rparr>
     else if op = 0x47 then out\<lparr>dtype := Z80_OP_LD_I_A\<rparr>
     else if op = 0x4F then out\<lparr>dtype := Z80_OP_LD_R_A\<rparr>
     else if op = 0x57 then out\<lparr>dtype := Z80_OP_LD_A_I\<rparr>
     else if op = 0x5F then out\<lparr>dtype := Z80_OP_LD_A_R\<rparr>
     else if op = 0x67 then out\<lparr>dtype := Z80_OP_RRD\<rparr>
     else if op = 0x6F then out\<lparr>dtype := Z80_OP_RLD\<rparr>
     else if op = 0xA0 then out\<lparr>dtype := Z80_OP_LDI\<rparr>
     else if op = 0xA1 then out\<lparr>dtype := Z80_OP_CPI\<rparr>
     else if op = 0xA8 then out\<lparr>dtype := Z80_OP_LDD\<rparr>
     else if op = 0xA9 then out\<lparr>dtype := Z80_OP_CPD\<rparr>
     else if op = 0xB0 then out\<lparr>dtype := Z80_OP_LDIR\<rparr>
     else if op = 0xB1 then out\<lparr>dtype := Z80_OP_CPIR\<rparr>
     else if op = 0xB8 then out\<lparr>dtype := Z80_OP_LDDR\<rparr>
     else if op = 0xB9 then out\<lparr>dtype := Z80_OP_CPDR\<rparr>
     else if op = 0xA2 then out\<lparr>dtype := Z80_OP_INI\<rparr>
     else if op = 0xAA then out\<lparr>dtype := Z80_OP_IND\<rparr>
     else if op = 0xB2 then out\<lparr>dtype := Z80_OP_INIR\<rparr>
     else if op = 0xBA then out\<lparr>dtype := Z80_OP_INDR\<rparr>
     else if op = 0xA3 then out\<lparr>dtype := Z80_OP_OUTI\<rparr>
     else if op = 0xAB then out\<lparr>dtype := Z80_OP_OUTD\<rparr>
     else if op = 0xB3 then out\<lparr>dtype := Z80_OP_OTIR\<rparr>
     else if op = 0xBB then out\<lparr>dtype := Z80_OP_OTDR\<rparr>
     else if op AND 0xC7 = 0x40 then out\<lparr>dtype := Z80_OP_IN_R_C, reg1 := op_y op\<rparr>
     else if op AND 0xC7 = 0x41 then out\<lparr>dtype := Z80_OP_OUT_C_R, reg1 := op_y op\<rparr>
     else out\<lparr>dtype := Z80_OP_NOP\<rparr>)"

definition decode_ed :: "memory \<Rightarrow> u16 \<Rightarrow> z80_decoded \<Rightarrow> z80_decoded" where
  "decode_ed mem pc out =
     (let out = out\<lparr>dprefix := 0xED\<rparr>;
          pc = pc + 1;
          out = out\<lparr>dbytes := dbytes out + 1\<rparr>;
          op = mem pc
      in decode_ed_op mem pc op (out\<lparr>dopcode := op\<rparr>))"

subsection \<open>DD/FD: displacement and remapping to the indexed operations\<close>

definition needs_disp :: "u8 \<Rightarrow> bool" where
  "needs_disp op \<longleftrightarrow> op \<in> {0x34, 0x35, 0x36,
     0x46, 0x4E, 0x56, 0x5E, 0x66, 0x6E, 0x7E,
     0x70, 0x71, 0x72, 0x73, 0x74, 0x75, 0x77,
     0x86, 0x8E, 0x96, 0x9E, 0xA6, 0xAE, 0xB6, 0xBE}"

text \<open>\<open>None\<close>: the opcode falls through to the main switch.\<close>

definition decode_indexed ::
    "memory \<Rightarrow> u16 \<Rightarrow> u8 \<Rightarrow> z80_decoded \<Rightarrow> z80_decoded option" where
  "decode_indexed mem pc op out = (
     if op = 0x7E then Some (out\<lparr>dtype := Z80_OP_LD_A_HL_ind, reg1 := 6\<rparr>)
     else if op = 0x77 then Some (out\<lparr>dtype := Z80_OP_LD_HL_A_ind, reg1 := 6\<rparr>)
     else if op \<in> {0x46, 0x4E, 0x56, 0x5E, 0x66, 0x6E} then
       Some (out\<lparr>dtype := Z80_OP_LD_R_HL_ind, reg1 := 6, reg2 := op_y op\<rparr>)
     else if op \<in> {0x70, 0x71, 0x72, 0x73, 0x74, 0x75} then
       Some (out\<lparr>dtype := Z80_OP_LD_HL_R_ind, reg1 := 6, reg2 := op_z op\<rparr>)
     else if op = 0x34 then Some (out\<lparr>dtype := Z80_OP_INC_HL_ind, reg1 := 6\<rparr>)
     else if op = 0x35 then Some (out\<lparr>dtype := Z80_OP_DEC_HL_ind, reg1 := 6\<rparr>)
     else if op = 0x36 then
       Some (out\<lparr>dtype := Z80_OP_LD_HL_N_ind, reg1 := 6, imm8 := mem pc,
                 dbytes := dbytes out + 1\<rparr>)
     else if op = 0x86 then Some (out\<lparr>dtype := Z80_OP_ADD_A_HL_ind, reg1 := 6\<rparr>)
     else if op = 0x8E then Some (out\<lparr>dtype := Z80_OP_ADC_A_HL_ind, reg1 := 6\<rparr>)
     else if op = 0x96 then Some (out\<lparr>dtype := Z80_OP_SUB_A_HL_ind, reg1 := 6\<rparr>)
     else if op = 0x9E then Some (out\<lparr>dtype := Z80_OP_SBC_A_HL_ind, reg1 := 6\<rparr>)
     else if op = 0xA6 then Some (out\<lparr>dtype := Z80_OP_AND_A_HL_ind, reg1 := 6\<rparr>)
     else if op = 0xAE then Some (out\<lparr>dtype := Z80_OP_XOR_A_HL_ind, reg1 := 6\<rparr>)
     else if op = 0xB6 then Some (out\<lparr>dtype := Z80_OP_OR_A_HL_ind, reg1 := 6\<rparr>)
     else if op = 0xBE then Some (out\<lparr>dtype := Z80_OP_CP_A_HL_ind, reg1 := 6\<rparr>)
     else if op = 0x7C then Some (out\<lparr>dtype := Z80_OP_LD_A_IXH\<rparr>)
     else if op = 0x7D then Some (out\<lparr>dtype := Z80_OP_LD_A_IXL\<rparr>)
     else if op = 0xE1 then Some (out\<lparr>dtype := Z80_OP_POP_RR, reg1 := 4\<rparr>)
     else if op = 0xE5 then Some (out\<lparr>dtype := Z80_OP_PUSH_RR, reg1 := 4\<rparr>)
     else None)"

subsection \<open>The main switch\<close>

text \<open>
  The \<open>default\<close> label: the regular 8-bit load and arithmetic columns.  The single
  opcodes it also tests (C6, CE, ...) have case labels of their own and never get
  here; CB, DD, ED and FD do, and leave the type \<open>Z80_OP_UNKNOWN\<close>.
\<close>

definition decode_default :: "memory \<Rightarrow> u16 \<Rightarrow> u8 \<Rightarrow> z80_decoded \<Rightarrow> z80_decoded" where
  "decode_default mem pc op out = (
     if 0x40 \<le> op \<and> op \<le> 0x7F then
       out\<lparr>dtype := Z80_OP_LD_R_R, reg1 := op_y op, reg2 := op_z op\<rparr>
     else if 0x80 \<le> op \<and> op \<le> 0x87 then out\<lparr>dtype := Z80_OP_ADD_A_R, reg1 := op_z op\<rparr>
     else if 0x88 \<le> op \<and> op \<le> 0x8F then out\<lparr>dtype := Z80_OP_ADC_A_R, reg1 := op_z op\<rparr>
     else if op = 0xC6 then fetch_imm8 mem pc (out\<lparr>dtype := Z80_OP_ADD_A_N\<rparr>)
     else if op = 0xCE then fetch_imm8 mem pc (out\<lparr>dtype := Z80_OP_ADC_A_N\<rparr>)
     else if 0x90 \<le> op \<and> op \<le> 0x97 then out\<lparr>dtype := Z80_OP_SUB_A_R, reg1 := op_z op\<rparr>
     else if 0x98 \<le> op \<and> op \<le> 0x9F then out\<lparr>dtype := Z80_OP_SBC_A_R, reg1 := op_z op\<rparr>
     else if op = 0xD6 then fetch_imm8 mem pc (out\<lparr>dtype := Z80_OP_SUB_A_N\<rparr>)
     else if op = 0xDE then fetch_imm8 mem pc (out\<lparr>dtype := Z80_OP_SBC_A_N\<rparr>)
     else if 0xA0 \<le> op \<and> op \<le> 0xA7 then out\<lparr>dtype := Z80_OP_AND_A_R, reg1 := op_z op\<rparr>
     else if op = 0xE6 then fetch_imm8 mem pc (out\<lparr>dtype := Z80_OP_AND_A_N\<rparr>)
     else if 0xB0 \<le> op \<and> op \<le> 0xB7 then out\<lparr>dtype := Z80_OP_OR_A_R, reg1 := op_z op\<rparr>
     else if op = 0xF6 then fetch_imm8 mem pc (out\<lparr>dtype := Z80_OP_OR_A_N\<rparr>)
     else if 0xA8 \<le> op \<and> op \<le> 0xAF then out\<lparr>dtype := Z80_OP_XOR_A_R, reg1 := op_z op\<rparr>
     else if op = 0xEE then fetch_imm8 mem pc (out\<lparr>dtype := Z80_OP_XOR_A_N\<rparr>)
     else if 0xB8 \<le> op \<and> op \<le> 0xBF then out\<lparr>dtype := Z80_OP_CP_A_R, reg1 := op_z op\<rparr>
     else if op = 0xFE then fetch_imm8 mem pc (out\<lparr>dtype := Z80_OP_CP_A_N\<rparr>)
     else out)"

definition decode_00_3F :: "memory \<Rightarrow> u16 \<Rightarrow> u8 \<Rightarrow> z80_decoded \<Rightarrow> z80_decoded" where
  "decode_00_3F mem pc op out = (
     if op = 0x00 then out\<lparr>dtype := Z80_OP_NOP\<rparr>
     else if op = 0x01 then fetch_imm16 mem pc (out\<lparr>dtype := Z80_OP_LD_RR_NN, reg1 := RR_BC\<rparr>)
     else if op = 0x02 then out\<lparr>dtype := Z80_OP_LD_BC_A\<rparr>
     else if op = 0x03 then out\<lparr>dtype := Z80_OP_INC_RR, reg1 := RR_BC\<rparr>
     else if op = 0x04 then out\<lparr>dtype := Z80_OP_INC_R, reg1 := R_B\<rparr>
     else if op = 0x05 then out\<lparr>dtype := Z80_OP_DEC_R, reg1 := R_B\<rparr>
     else if op = 0x06 then fetch_imm8 mem pc (out\<lparr>dtype := Z80_OP_LD_R_N, reg1 := R_B\<rparr>)
     else if op = 0x07 then out\<lparr>dtype := Z80_OP_RLCA\<rparr>
     else if op = 0x08 then out\<lparr>dtype := Z80_OP_EX_AF_AF\<rparr>
     else if op = 0x09 then out\<lparr>dtype := Z80_OP_ADD_HL_RR, reg1 := RR_BC\<rparr>
     else if op = 0x0A then out\<lparr>dtype := Z80_OP_LD_A_BC\<rparr>
     else if op = 0x0B then out\<lparr>dtype := Z80_OP_DEC_RR, reg1 := RR_BC\<rparr>
     else if op = 0x0C then out\<lparr>dtype := Z80_OP_INC_R, reg1 := R_C\<rparr>
     else if op = 0x0D then out\<lparr>dtype := Z80_OP_DEC_R, reg1 := R_C\<rparr>
     else if op = 0x0E then fetch_imm8 mem pc (out\<lparr>dtype := Z80_OP_LD_R_N, reg1 := R_C\<rparr>)
     else if op = 0x0F then out\<lparr>dtype := Z80_OP_RRCA\<rparr>
     else if op = 0x10 then fetch_disp mem pc (out\<lparr>dtype := Z80_OP_DJNZ\<rparr>)
     else if op = 0x11 then fetch_imm16 mem pc (out\<lparr>dtype := Z80_OP_LD_RR_NN, reg1 := RR_DE\<rparr>)
     else if op = 0x12 then out\<lparr>dtype := Z80_OP_LD_DE_A\<rparr>
     else if op = 0x13 then out\<lparr>dtype := Z80_OP_INC_RR, reg1 := RR_DE\<rparr>
     else if op = 0x14 then out\<lparr>dtype := Z80_OP_INC_R, reg1 := R_D\<rparr>
     else if op = 0x15 then out\<lparr>dtype := Z80_OP_DEC_R, reg1 := R_D\<rparr>
     else if op = 0x16 then fetch_imm8 mem pc (out\<lparr>dtype := Z80_OP_LD_R_N, reg1 := R_D\<rparr>)
     else if op = 0x17 then out\<lparr>dtype := Z80_OP_RLA\<rparr>
     else if op = 0x18 then fetch_disp mem pc (out\<lparr>dtype := Z80_OP_JR_E\<rparr>)
     else if op = 0x19 then out\<lparr>dtype := Z80_OP_ADD_HL_RR, reg1 := RR_DE\<rparr>
     else if op = 0x1A then out\<lparr>dtype := Z80_OP_LD_A_DE\<rparr>
     else if op = 0x1B then out\<lparr>dtype := Z80_OP_DEC_RR, reg1 := RR_DE\<rparr>
     else if op = 0x1C then out\<lparr>dtype := Z80_OP_INC_R, reg1 := R_E\<rparr>
     else if op = 0x1D then out\<lparr>dtype := Z80_OP_DEC_R, reg1 := R_E\<rparr>
     else if op = 0x1E then fetch_imm8 mem pc (out\<lparr>dtype := Z80_OP_LD_R_N, reg1 := R_E\<rparr>)
     else if op = 0x1F then out\<lparr>dtype := Z80_OP_RRA\<rparr>
     else if op = 0x20 then fetch_disp mem pc (out\<lparr>dtype := Z80_OP_JR_CC_E, dcc := CC_NZ\<rparr>)
     else if op = 0x21 then fetch_imm16 mem pc (out\<lparr>dtype := Z80_OP_LD_RR_NN, reg1 := RR_HL\<rparr>)
     else if op = 0x22 then fetch_imm16 mem pc (out\<lparr>dtype := Z80_OP_LD_NN_HL\<rparr>)
     else if op = 0x23 then out\<lparr>dtype := Z80_OP_INC_RR, reg1 := RR_HL\<rparr>
     else if op = 0x24 then out\<lparr>dtype := Z80_OP_INC_R, reg1 := R_H\<rparr>
     else if op = 0x25 then out\<lparr>dtype := Z80_OP_DEC_R, reg1 := R_H\<rparr>
     else if op = 0x26 then fetch_imm8 mem pc (out\<lparr>dtype := Z80_OP_LD_R_N, reg1 := R_H\<rparr>)
     else if op = 0x27 then out\<lparr>dtype := Z80_OP_DAA\<rparr>
     else if op = 0x28 then fetch_disp mem pc (out\<lparr>dtype := Z80_OP_JR_CC_E, dcc := CC_Z\<rparr>)
     else if op = 0x29 then out\<lparr>dtype := Z80_OP_ADD_HL_RR, reg1 := RR_HL\<rparr>
     else if op = 0x2A then fetch_imm16 mem pc (out\<lparr>dtype := Z80_OP_LD_HL_indNN\<rparr>)
     else if op = 0x2B then out\<lparr>dtype := Z80_OP_DEC_RR, reg1 := RR_HL\<rparr>
     else if op = 0x2C then out\<lparr>dtype := Z80_OP_INC_R, reg1 := R_L\<rparr>
     else if op = 0x2D then out\<lparr>dtype := Z80_OP_DEC_R, reg1 := R_L\<rparr>
     else if op = 0x2E then fetch_imm8 mem pc (out\<lparr>dtype := Z80_OP_LD_R_N, reg1 := R_L\<rparr>)
     else if op = 0x2F then out\<lparr>dtype := Z80_OP_CPL\<rparr>
     else if op = 0x30 then fetch_disp mem pc (out\<lparr>dtype := Z80_OP_JR_CC_E, dcc := CC_NC\<rparr>)
     else if op = 0x31 then fetch_imm16 mem pc (out\<lparr>dtype := Z80_OP_LD_RR_NN, reg1 := 3\<rparr>)
     else if op = 0x32 then fetch_imm16 mem pc (out\<lparr>dtype := Z80_OP_LD_NN_A\<rparr>)
     else if op = 0x33 then out\<lparr>dtype := Z80_OP_INC_RR, reg1 := 3\<rparr>
     else if op = 0x34 then out\<lparr>dtype := Z80_OP_INC_R, reg1 := 6\<rparr>
     else if op = 0x35 then out\<lparr>dtype := Z80_OP_DEC_R, reg1 := 6\<rparr>
     else if op = 0x36 then fetch_imm8 mem pc (out\<lparr>dtype := Z80_OP_LD_HL_N\<rparr>)
     else if op = 0x37 then out\<lparr>dtype := Z80_OP_SCF\<rparr>
     else if op = 0x38 then fetch_disp mem pc (out\<lparr>dtype := Z80_OP_JR_CC_E, dcc := CC_C\<rparr>)
     else if op = 0x39 then out\<lparr>dtype := Z80_OP_ADD_HL_RR, reg1 := 3\<rparr>
     else if op = 0x3A then fetch_imm16 mem pc (out\<lparr>dtype := Z80_OP_LD_A_NN\<rparr>)
     else if op = 0x3B then out\<lparr>dtype := Z80_OP_DEC_RR, reg1 := 3\<rparr>
     else if op = 0x3C then out\<lparr>dtype := Z80_OP_INC_R, reg1 := R_A\<rparr>
     else if op = 0x3D then out\<lparr>dtype := Z80_OP_DEC_R, reg1 := R_A\<rparr>
     else if op = 0x3E then fetch_imm8 mem pc (out\<lparr>dtype := Z80_OP_LD_R_N, reg1 := R_A\<rparr>)
     else if op = 0x3F then out\<lparr>dtype := Z80_OP_CCF\<rparr>
     else out)"

definition decode_C0_FF :: "memory \<Rightarrow> u16 \<Rightarrow> u8 \<Rightarrow> z80_decoded \<Rightarrow> z80_decoded" where
  "decode_C0_FF mem pc op out = (
     if op = 0xC0 then out\<lparr>dtype := Z80_OP_RET_CC, dcc := CC_NZ\<rparr>
     else if op = 0xC1 then out\<lparr>dtype := Z80_OP_POP_RR, reg1 := RR_BC\<rparr>
     else if op = 0xC2 then fetch_imm16 mem pc (out\<lparr>dtype := Z80_OP_JP_CC_NN, dcc := CC_NZ\<rparr>)
     else if op = 0xC3 then fetch_imm16 mem pc (out\<lparr>dtype := Z80_OP_JP_NN\<rparr>)
     else if op = 0xC4 then fetch_imm16 mem pc (out\<lparr>dtype := Z80_OP_CALL_CC_NN, dcc := CC_NZ\<rparr>)
     else if op = 0xC5 then out\<lparr>dtype := Z80_OP_PUSH_RR, reg1 := RR_BC\<rparr>
     else if op = 0xC6 then fetch_imm8 mem pc (out\<lparr>dtype := Z80_OP_ADD_A_N\<rparr>)
     else if op = 0xC7 then out\<lparr>dtype := Z80_OP_RST, imm8 := 0x00\<rparr>
     else if op = 0xC8 then out\<lparr>dtype := Z80_OP_RET_CC, dcc := CC_Z\<rparr>
     else if op = 0xC9 then out\<lparr>dtype := Z80_OP_RET\<rparr>
     else if op = 0xCA then fetch_imm16 mem pc (out\<lparr>dtype := Z80_OP_JP_CC_NN, dcc := CC_Z\<rparr>)
     else if op = 0xCC then fetch_imm16 mem pc (out\<lparr>dtype := Z80_OP_CALL_CC_NN, dcc := CC_Z\<rparr>)
     else if op = 0xCD then fetch_imm16 mem pc (out\<lparr>dtype := Z80_OP_CALL_NN\<rparr>)
     else if op = 0xCE then fetch_imm8 mem pc (out\<lparr>dtype := Z80_OP_ADC_A_N\<rparr>)
     else if op = 0xCF then out\<lparr>dtype := Z80_OP_RST, imm8 := 0x08\<rparr>
     else if op = 0xD0 then out\<lparr>dtype := Z80_OP_RET_CC, dcc := CC_NC\<rparr>
     else if op = 0xD1 then out\<lparr>dtype := Z80_OP_POP_RR, reg1 := RR_DE\<rparr>
     else if op = 0xD2 then fetch_imm16 mem pc (out\<lparr>dtype := Z80_OP_JP_CC_NN, dcc := CC_NC\<rparr>)
     else if op = 0xD3 then fetch_imm8 mem pc (out\<lparr>dtype := Z80_OP_OUT_N_A\<rparr>)
     else if op = 0xD4 then fetch_imm16 mem pc (out\<lparr>dtype := Z80_OP_CALL_CC_NN, dcc := CC_NC\<rparr>)
     else if op = 0xD5 then out\<lparr>dtype := Z80_OP_PUSH_RR, reg1 := RR_DE\<rparr>
     else if op = 0xD6 then fetch_imm8 mem pc (out\<lparr>dtype := Z80_OP_SUB_A_N\<rparr>)
     else if op = 0xD7 then out\<lparr>dtype := Z80_OP_RST, imm8 := 0x10\<rparr>
     else if op = 0xD8 then out\<lparr>dtype := Z80_OP_RET_CC, dcc := CC_C\<rparr>
     else if op = 0xD9 then out\<lparr>dtype := Z80_OP_EXX\<rparr>
     else if op = 0xDA then fetch_imm16 mem pc (out\<lparr>dtype := Z80_OP_JP_CC_NN, dcc := CC_C\<rparr>)
     else if op = 0xDB then fetch_imm8 mem pc (out\<lparr>dtype := Z80_OP_IN_A_N\<rparr>)
     else if op = 0xDC then fetch_imm16 mem pc (out\<lparr>dtype := Z80_OP_CALL_CC_NN, dcc := CC_C\<rparr>)
     else if op = 0xDE then fetch_imm8 mem pc (out\<lparr>dtype := Z80_OP_SBC_A_N\<rparr>)
     else if op = 0xDF then out\<lparr>dtype := Z80_OP_RST, imm8 := 0x18\<rparr>
     else if op = 0xE0 then out\<lparr>dtype := Z80_OP_RET_CC, dcc := CC_PO\<rparr>
     else if op = 0xE1 then out\<lparr>dtype := Z80_OP_POP_RR, reg1 := RR_HL\<rparr>
     else if op = 0xE2 then fetch_imm16 mem pc (out\<lparr>dtype := Z80_OP_JP_CC_NN, dcc := CC_PO\<rparr>)
     else if op = 0xE3 then out\<lparr>dtype := Z80_OP_EX_SP_HL\<rparr>
     else if op = 0xE4 then fetch_imm16 mem pc (out\<lparr>dtype := Z80_OP_CALL_CC_NN, dcc := CC_PO\<rparr>)
     else if op = 0xE5 then out\<lparr>dtype := Z80_OP_PUSH_RR, reg1 := RR_HL\<rparr>
     else if op = 0xE6 then fetch_imm8 mem pc (out\<lparr>dtype := Z80_OP_AND_A_N\<rparr>)
     else if op = 0xE7 then out\<lparr>dtype := Z80_OP_RST, imm8 := 0x20\<rparr>
     else if op = 0xE8 then out\<lparr>dtype := Z80_OP_RET_CC, dcc := CC_PE\<rparr>
     else if op = 0xE9 then out\<lparr>dtype := Z80_OP_JP_HL\<rparr>
     else if op = 0xEA then fetch_imm16 mem pc (out\<lparr>dtype := Z80_OP_JP_CC_NN, dcc := CC_PE\<rparr>)
     else if op = 0xEB then out\<lparr>dtype := Z80_OP_EX_DE_HL\<rparr>
     else if op = 0xEC then fetch_imm16 mem pc (out\<lparr>dtype := Z80_OP_CALL_CC_NN, dcc := CC_PE\<rparr>)
     else if op = 0xEE then fetch_imm8 mem pc (out\<lparr>dtype := Z80_OP_XOR_A_N\<rparr>)
     else if op = 0xEF then out\<lparr>dtype := Z80_OP_RST, imm8 := 0x28\<rparr>
     else if op = 0xF0 then out\<lparr>dtype := Z80_OP_RET_CC, dcc := CC_P\<rparr>
     else if op = 0xF1 then out\<lparr>dtype := Z80_OP_POP_RR, reg1 := RR_AF\<rparr>
     else if op = 0xF2 then fetch_imm16 mem pc (out\<lparr>dtype := Z80_OP_JP_CC_NN, dcc := CC_P\<rparr>)
     else if op = 0xF3 then out\<lparr>dtype := Z80_OP_DI\<rparr>
     else if op = 0xF4 then fetch_imm16 mem pc (out\<lparr>dtype := Z80_OP_CALL_CC_NN, dcc := CC_P\<rparr>)
     else if op = 0xF5 then out\<lparr>dtype := Z80_OP_PUSH_RR, reg1 := RR_AF\<rparr>
     else if op = 0xF6 then fetch_imm8 mem pc (out\<lparr>dtype := Z80_OP_OR_A_N\<rparr>)
     else if op = 0xF7 then out\<lparr>dtype := Z80_OP_RST, imm8 := 0x30\<rparr>
     else if op = 0xF8 then out\<lparr>dtype := Z80_OP_RET_CC, dcc := CC_M\<rparr>
     else if op = 0xF9 then out\<lparr>dtype := Z80_OP_LD_SP_HL\<rparr>
     else if op = 0xFA then fetch_imm16 mem pc (out\<lparr>dtype := Z80_OP_JP_CC_NN, dcc := CC_M\<rparr>)
     else if op = 0xFB then out\<lparr>dtype := Z80_OP_EI\<rparr>
     else if op = 0xFC then fetch_imm16 mem pc (out\<lparr>dtype := Z80_OP_CALL_CC_NN, dcc := CC_M\<rparr>)
     else if op = 0xFE then fetch_imm8 mem pc (out\<lparr>dtype := Z80_OP_CP_A_N\<rparr>)
     else if op = 0xFF then out\<lparr>dtype := Z80_OP_RST, imm8 := 0x38\<rparr>
     else decode_default mem pc op out)"

text \<open>The switch itself: the case labels 00-3F, 76 and C0-FF, then the default.\<close>

definition decode_main :: "memory \<Rightarrow> u16 \<Rightarrow> u8 \<Rightarrow> z80_decoded \<Rightarrow> z80_decoded" where
  "decode_main mem pc op out =
     (if op \<le> 0x3F then decode_00_3F mem pc op out
      else if op = 0x76 then out\<lparr>dtype := Z80_OP_HALT\<rparr>
      else if op \<le> 0xBF then decode_default mem pc op out
      else decode_C0_FF mem pc op out)"

subsection \<open>Half index registers\<close>

definition half_reg :: "u8 \<Rightarrow> u8" where
  "half_reg r = (if r = 4 then 8 else if r = 5 then 9 else r)"

definition remap_half_regs :: "u8 \<Rightarrow> z80_decoded \<Rightarrow> z80_decoded" where
  "remap_half_regs pfx out =
     (if is_prefix pfx \<and>
         dtype out \<in> {Z80_OP_LD_R_R, Z80_OP_LD_R_N, Z80_OP_INC_R, Z80_OP_DEC_R,
           Z80_OP_ADD_A_R, Z80_OP_ADC_A_R, Z80_OP_SUB_A_R, Z80_OP_SBC_A_R,
           Z80_OP_AND_A_R, Z80_OP_OR_A_R, Z80_OP_XOR_A_R, Z80_OP_CP_A_R}
      then out\<lparr>reg1 := half_reg (reg1 out), reg2 := half_reg (reg2 out)\<rparr>
      else out)"

section \<open>The decoder\<close>

text \<open>
  What follows the CB and ED pages.  The legacy clean-up at the end of the C function
  tests \<open>prefix == 0xCB\<close>, which the local \<open>prefix\<close> never is.
\<close>

definition decode_plain :: "memory \<Rightarrow> u16 \<Rightarrow> u8 \<Rightarrow> u8 \<Rightarrow> z80_decoded \<Rightarrow> z80_decoded" where
  "decode_plain mem pc op pfx out =
     (let out = out\<lparr>dopcode := op\<rparr>;
          disp = (is_prefix pfx \<and> needs_disp op);
          out = (if disp then out\<lparr>ddisp := mem (pc + 1), dbytes := dbytes out + 1\<rparr> else out);
          pc = (if disp then pc + 2 else pc)
      in case (if is_prefix pfx then decode_indexed mem pc op out else None) of
           Some out \<Rightarrow> out
         | None \<Rightarrow> remap_half_regs pfx (decode_main mem pc op out))"

definition z80_decode_one :: "memory \<Rightarrow> u16 \<Rightarrow> z80_decoded" where
  "z80_decode_one mem pc =
     (let out = zero_decoded\<lparr>dbytes := 1\<rparr>;
          (pc, op, pfx, out) = consume_prefixes mem 4 pc (mem pc) 0 out
      in if op = 0xCB then decode_cb mem pc pfx out
         else if op = 0xED then decode_ed mem pc out
         else decode_plain mem pc op pfx out)"

end
