(* ===== verification/Z80_Decode_Props.thy ===== *)
theory Z80_Decode_Props
  imports Z80_Decode
begin

text \<open>
  Properties of the decoder: how long an instruction can be, which byte sequences it
  rejects, that it reads no byte beyond the length it reports (the fact that
  self-modifying-code tracking rests on), and that the unprefixed page is Zilog's
  x/y/z opcode structure.
\<close>

lemmas fetch_defs = fetch_imm8_def fetch_imm16_def fetch_disp_def

section \<open>Shape of the prefix loop\<close>

fun prefix_count :: "memory \<Rightarrow> nat \<Rightarrow> u16 \<Rightarrow> nat" where
  "prefix_count mem 0 pc = 0"
| "prefix_count mem (Suc m) pc = (if is_prefix (mem pc) then Suc (prefix_count mem m (pc + 1)) else 0)"

lemma prefix_count_le: "prefix_count mem m pc \<le> m"
  by (induction m arbitrary: pc) auto

lemma prefix_count_none: "\<not> is_prefix (mem pc) \<Longrightarrow> prefix_count mem 4 pc = 0"
  by (simp add: numeral_eq_Suc)

lemma prefix_count_prefix: "k < prefix_count mem m pc \<Longrightarrow> is_prefix (mem (pc + of_nat k))"
  by (induction m arbitrary: pc k) (auto simp: less_Suc_eq_0_disj add.assoc [symmetric] split: if_splits)

lemma prefix_count_stop:
  "prefix_count mem m pc < m \<Longrightarrow> \<not> is_prefix (mem (pc + of_nat (prefix_count mem m pc)))"
  by (induction m arbitrary: pc) (auto simp: add.assoc [symmetric] split: if_splits)

lemma prefix_count_cong:
  "(\<And>k. k \<le> prefix_count mem m pc \<Longrightarrow> mem' (pc + of_nat k) = mem (pc + of_nat k)) \<Longrightarrow>
   prefix_count mem' m pc = prefix_count mem m pc"
proof (induction m arbitrary: pc)
  case (Suc m)
  have z: "mem' pc = mem pc" using Suc.prems [of 0] by simp
  show ?case
  proof (cases "is_prefix (mem pc)")
    case True
    have "prefix_count mem' m (pc + 1) = prefix_count mem m (pc + 1)"
    proof (rule Suc.IH)
      fix k assume "k \<le> prefix_count mem m (pc + 1)"
      with True Suc.prems [of "Suc k"]
      show "mem' (pc + 1 + of_nat k) = mem (pc + 1 + of_nat k)" by (simp add: ac_simps)
    qed
    with True z show ?thesis by simp
  qed (simp add: z)
qed simp

definition after_prefixes :: "memory \<Rightarrow> u16 \<Rightarrow> nat \<Rightarrow> z80_decoded \<Rightarrow> z80_decoded" where
  "after_prefixes mem pc n out =
     (if n = 0 then out
      else out\<lparr>dprefix := mem (pc + of_nat (n - 1)), dbytes := dbytes out + of_nat n\<rparr>)"

lemma consume_prefixes_eq:
  "consume_prefixes mem m pc (mem pc) pfx out =
     (let n = prefix_count mem m pc
      in (pc + of_nat n, mem (pc + of_nat n),
          if n = 0 then pfx else mem (pc + of_nat (n - 1)), after_prefixes mem pc n out))"
proof (induction m arbitrary: pc pfx out)
  case (Suc m)
  show ?case
  proof (cases "is_prefix (mem pc)")
    case True
    then show ?thesis
      using Suc.IH [of "pc + 1" "mem pc" "out\<lparr>dprefix := mem pc, dbytes := dbytes out + 1\<rparr>"]
      by (cases "prefix_count mem m (pc + 1)")
        (simp_all add: Let_def after_prefixes_def ac_simps)
  qed (simp add: Let_def after_prefixes_def)
qed (simp add: Let_def after_prefixes_def)

text \<open>Everything after the prefix loop, as a function of the position it stopped at.\<close>

definition decode_tail :: "memory \<Rightarrow> u16 \<Rightarrow> u8 \<Rightarrow> z80_decoded \<Rightarrow> z80_decoded" where
  "decode_tail mem pc pfx out =
     (if mem pc = 0xCB then decode_cb mem pc pfx out
      else if mem pc = 0xED then decode_ed mem pc out
      else decode_plain mem pc (mem pc) pfx out)"

lemma z80_decode_one_eq:
  "z80_decode_one mem pc =
     (let n = prefix_count mem 4 pc
      in decode_tail mem (pc + of_nat n) (if n = 0 then 0 else mem (pc + of_nat (n - 1)))
           (after_prefixes mem pc n (zero_decoded\<lparr>dbytes := 1\<rparr>)))"
  by (simp add: z80_decode_one_def consume_prefixes_eq decode_tail_def Let_def)

section \<open>Operands: every stage adds zero, one or two bytes\<close>

text \<open>
  A stage of the decoder, seen as a function of the memory, either ignores it or
  fetches one byte, one word or one displacement behind \<open>pc\<close>.  Instruction length and
  locality both follow from this shape.
\<close>

definition operand_shape :: "u16 \<Rightarrow> z80_decoded \<Rightarrow> (memory \<Rightarrow> z80_decoded) \<Rightarrow> bool" where
  "operand_shape pc out F \<longleftrightarrow>
     (\<exists>b. dbytes b = dbytes out \<and>
        (F = (\<lambda>mem. b) \<or> F = (\<lambda>mem. fetch_imm8 mem pc b) \<or>
         F = (\<lambda>mem. fetch_imm16 mem pc b) \<or> F = (\<lambda>mem. fetch_disp mem pc b)))"

lemma shape_if:
  "operand_shape pc out A \<Longrightarrow> operand_shape pc out B \<Longrightarrow>
   operand_shape pc out (\<lambda>mem. if c then A mem else B mem)"
  by (cases c) simp_all

lemma shape_base:
  assumes "dbytes b = dbytes out"
  shows "operand_shape pc out (\<lambda>mem. b)" "operand_shape pc out (\<lambda>mem. fetch_imm8 mem pc b)"
    "operand_shape pc out (\<lambda>mem. fetch_imm16 mem pc b)"
    "operand_shape pc out (\<lambda>mem. fetch_disp mem pc b)"
  using assms unfolding operand_shape_def by blast+

lemma shape_default: "operand_shape pc out (\<lambda>mem. decode_default mem pc op out)"
  unfolding decode_default_def by (intro shape_if shape_base) simp_all

lemma shape_00_3F: "operand_shape pc out (\<lambda>mem. decode_00_3F mem pc op out)"
  unfolding decode_00_3F_def by (intro shape_if shape_base) simp_all

lemma shape_C0_FF: "operand_shape pc out (\<lambda>mem. decode_C0_FF mem pc op out)"
  unfolding decode_C0_FF_def by (intro shape_if shape_default shape_base) simp_all

lemma shape_main: "operand_shape pc out (\<lambda>mem. decode_main mem pc op out)"
  unfolding decode_main_def
  by (intro shape_if shape_default shape_00_3F shape_C0_FF shape_base) simp_all

lemma shape_ed_op: "operand_shape pc out (\<lambda>mem. decode_ed_op mem pc op out)"
  unfolding decode_ed_op_def by (intro shape_if shape_base) simp_all

lemma shape_length:
  "operand_shape pc out F \<Longrightarrow> dbytes (F mem) \<in> {dbytes out, dbytes out + 1, dbytes out + 2}"
  by (auto simp: operand_shape_def fetch_defs)

lemma shape_local:
  assumes "operand_shape pc out F"
    and "dbytes (F mem) \<noteq> dbytes out \<Longrightarrow> mem' (pc + 1) = mem (pc + 1)"
    and "dbytes (F mem) = dbytes out + 2 \<Longrightarrow> mem' (pc + 2) = mem (pc + 2)"
  shows "F mem' = F mem"
  using assms by (auto simp: operand_shape_def fetch_defs)

lemma dbytes_indexed:
  "decode_indexed mem pc op out = Some d \<Longrightarrow>
     dbytes d = (if op = 0x36 then dbytes out + 1 else dbytes out)"
  unfolding decode_indexed_def by (auto split: if_splits)

lemma local_indexed:
  assumes "op = 0x36 \<Longrightarrow> mem' pc = mem pc"
  shows "decode_indexed mem' pc op out = decode_indexed mem pc op out"
  using assms unfolding decode_indexed_def by simp

lemma decode_indexed_disp: "needs_disp op \<Longrightarrow> \<exists>d. decode_indexed mem pc op out = Some d"
  unfolding needs_disp_def decode_indexed_def by auto

lemma remap_half_regs_simps [simp]:
  "dbytes (remap_half_regs pfx out) = dbytes out" "dtype (remap_half_regs pfx out) = dtype out"
  by (simp_all add: remap_half_regs_def)

section \<open>Instruction length and locality\<close>

text \<open>
  Offsets of the bytes that belong to the instruction: everything up to the length
  the decoder reports, counted from the opcode byte at \<open>pc\<close> (whose own length
  contribution is already in \<open>out\<close>).
\<close>

definition agree_upto :: "memory \<Rightarrow> memory \<Rightarrow> u16 \<Rightarrow> nat \<Rightarrow> bool" where
  "agree_upto mem mem' pc n \<longleftrightarrow> (\<forall>k < n. mem' (pc + of_nat k) = mem (pc + of_nat k))"

lemma agree_uptoD: "agree_upto mem mem' pc n \<Longrightarrow> k < n \<Longrightarrow> mem' (pc + of_nat k) = mem (pc + of_nat k)"
  by (simp add: agree_upto_def)

text \<open>The stages from the opcode byte on: length added, and which bytes it depends on.\<close>

lemma decode_plain_cases:
  obtains (disp) d where "is_prefix pfx" "needs_disp op"
      "decode_plain mem pc op pfx out = d"
      "decode_indexed mem (pc + 2) op
         (out\<lparr>dopcode := op, ddisp := mem (pc + 1), dbytes := dbytes out + 1\<rparr>) = Some d"
  | (indexed) d where "is_prefix pfx" "\<not> needs_disp op" "op \<noteq> 0x36"
      "decode_plain mem pc op pfx out = d"
      "decode_indexed mem pc op (out\<lparr>dopcode := op\<rparr>) = Some d"
  | (main) "\<not> (is_prefix pfx \<and> needs_disp op)"
      "is_prefix pfx \<Longrightarrow> decode_indexed mem pc op (out\<lparr>dopcode := op\<rparr>) = None"
      "decode_plain mem pc op pfx out =
         remap_half_regs pfx (decode_main mem pc op (out\<lparr>dopcode := op\<rparr>))"
proof -
  have n: "\<not> needs_disp op \<Longrightarrow> op \<noteq> 0x36" by (auto simp: needs_disp_def)
  consider "is_prefix pfx" "needs_disp op" | "is_prefix pfx" "\<not> needs_disp op" | "\<not> is_prefix pfx"
    by blast
  then show thesis
  proof cases
    case 1
    then obtain d where "decode_indexed mem (pc + 2) op
         (out\<lparr>dopcode := op, ddisp := mem (pc + 1), dbytes := dbytes out + 1\<rparr>) = Some d"
      using decode_indexed_disp by blast
    with 1 show thesis by (intro disp) (auto simp: decode_plain_def Let_def)
  next
    case 2
    show thesis
    proof (cases "decode_indexed mem pc op (out\<lparr>dopcode := op\<rparr>)")
      case None
      with 2 show thesis by (intro main) (auto simp: decode_plain_def Let_def)
    next
      case (Some d)
      with 2 n show thesis by (intro indexed) (auto simp: decode_plain_def Let_def)
    qed
  next
    case 3
    then show thesis by (intro main) (auto simp: decode_plain_def Let_def)
  qed
qed

lemma dbytes_plain:
  "dbytes (decode_plain mem pc op pfx out) \<in> {dbytes out, dbytes out + 1, dbytes out + 2}"
  using shape_length [OF shape_main, of mem pc op "out\<lparr>dopcode := op\<rparr>"]
  by (cases rule: decode_plain_cases [of pfx op mem pc out]) (auto dest!: dbytes_indexed)

lemma local_plain:
  assumes "dbytes (decode_plain mem pc op pfx out) \<noteq> dbytes out \<Longrightarrow> mem' (pc + 1) = mem (pc + 1)"
    and "dbytes (decode_plain mem pc op pfx out) = dbytes out + 2 \<Longrightarrow> mem' (pc + 2) = mem (pc + 2)"
  shows "decode_plain mem' pc op pfx out = decode_plain mem pc op pfx out"
proof (cases rule: decode_plain_cases [of pfx op mem pc out])
  case (disp d)
  have "dbytes d = dbytes out + (if op = 0x36 then 2 else 1)"
    using dbytes_indexed [OF disp(4)] by (auto simp: ac_simps)
  then have b1: "mem' (pc + 1) = mem (pc + 1)" and b2: "op = 0x36 \<Longrightarrow> mem' (pc + 2) = mem (pc + 2)"
    using assms disp(3) by (auto split: if_splits)
  with disp local_indexed [of op mem' "pc + 2" mem] show ?thesis
    by (simp add: decode_plain_def Let_def)
next
  case (indexed d)
  with local_indexed [of op mem' pc mem] show ?thesis by (simp add: decode_plain_def Let_def)
next
  case main
  have "decode_main mem' pc op (out\<lparr>dopcode := op\<rparr>) = decode_main mem pc op (out\<lparr>dopcode := op\<rparr>)"
    by (rule shape_local [OF shape_main]) (use assms main(3) in auto)
  moreover have "decode_indexed mem' pc op (out\<lparr>dopcode := op\<rparr>) = None" if "is_prefix pfx"
    using that main(1,2) local_indexed [of op mem' pc mem] by (auto simp: needs_disp_def)
  ultimately show ?thesis using main by (simp add: decode_plain_def Let_def)
qed

lemma dbytes_ed: "dbytes (decode_ed mem pc out) \<in> {dbytes out + 1, dbytes out + 2, dbytes out + 3}"
  using shape_length [OF shape_ed_op, of mem "pc + 1" "mem (pc + 1)"
      "out\<lparr>dprefix := 0xED, dbytes := dbytes out + 1, dopcode := mem (pc + 1)\<rparr>"]
  by (auto simp: decode_ed_def Let_def ac_simps)

lemma local_ed:
  assumes "mem' (pc + 1) = mem (pc + 1)"
    and "dbytes (decode_ed mem pc out) \<noteq> dbytes out + 1 \<Longrightarrow> mem' (pc + 2) = mem (pc + 2)"
    and "dbytes (decode_ed mem pc out) = dbytes out + 3 \<Longrightarrow> mem' (pc + 3) = mem (pc + 3)"
  shows "decode_ed mem' pc out = decode_ed mem pc out"
proof -
  have "decode_ed_op mem' (pc + 1) op o' = decode_ed_op mem (pc + 1) op o'"
    if "dbytes o' = dbytes out + 1" "decode_ed mem pc out = decode_ed_op mem (pc + 1) op o'" for op o'
    by (rule shape_local [OF shape_ed_op]) (use assms(2,3) that in \<open>auto simp: add.assoc\<close>)
  with assms(1) show ?thesis by (simp add: decode_ed_def Let_def)
qed

lemma dbytes_tail:
  "dbytes (decode_tail mem pc pfx out) \<in> {dbytes out, dbytes out + 1, dbytes out + 2, dbytes out + 3}"
  using dbytes_plain [of mem pc "mem pc" pfx out] dbytes_ed [of mem pc out]
  by (auto simp: decode_tail_def decode_cb_def Let_def)

lemma local_tail:
  assumes "mem' pc = mem pc"
    and "\<And>k. k \<in> {1, 2, 3} \<Longrightarrow> k \<le> dbytes (decode_tail mem pc pfx out) - dbytes out \<Longrightarrow>
      mem' (pc + ucast k) = mem (pc + ucast k)"
  shows "decode_tail mem' pc pfx out = decode_tail mem pc pfx out"
proof -
  consider "mem pc = 0xCB" | "mem pc = 0xED" | "mem pc \<noteq> 0xCB" "mem pc \<noteq> 0xED" by blast
  then show ?thesis
  proof cases
    case 1
    with assms(1) assms(2) [of 1] assms(2) [of 2] show ?thesis
      by (auto simp: decode_tail_def decode_cb_def Let_def)
  next
    case 2
    with dbytes_ed [of mem pc out] assms(1) assms(2) [of 1] assms(2) [of 2] assms(2) [of 3]
    show ?thesis
      by (auto simp: decode_tail_def intro!: local_ed)
  next
    case 3
    with dbytes_plain [of mem pc "mem pc" pfx out] assms(1) assms(2) [of 1] assms(2) [of 2]
    show ?thesis
      by (auto simp: decode_tail_def intro!: local_plain)
  qed
qed

lemma prefix_count_cases:
  obtains "prefix_count mem 4 pc = 0" | "prefix_count mem 4 pc = 1" | "prefix_count mem 4 pc = 2"
    | "prefix_count mem 4 pc = 3" | "prefix_count mem 4 pc = 4"
proof -
  have "prefix_count mem 4 pc \<le> 4" by (rule prefix_count_le)
  then have "prefix_count mem 4 pc \<in> {0, 1, 2, 3, 4}" by auto
  then show thesis using that by blast
qed

lemma decode_length_split:
  assumes "n = prefix_count mem 4 pc"
  shows "Suc n \<le> unat (dbytes (z80_decode_one mem pc))"
    "unat (dbytes (z80_decode_one mem pc)) \<le> n + 4"
  using dbytes_tail [of mem "pc + of_nat n" "if n = 0 then 0 else mem (pc + of_nat (n - 1))"
      "after_prefixes mem pc n (zero_decoded\<lparr>dbytes := 1\<rparr>)"] assms
  by (cases rule: prefix_count_cases [of mem pc];
      auto simp: z80_decode_one_eq Let_def after_prefixes_def zero_decoded_def)+

lemma decode_length_bounds:
  "1 \<le> unat (dbytes (z80_decode_one mem pc)) \<and> unat (dbytes (z80_decode_one mem pc)) \<le> 8"
  using decode_length_split [OF refl, of mem pc] prefix_count_le [of mem 4 pc] by linarith

section \<open>Which byte sequences have no decoding\<close>

lemma unknown_00_3F: "op \<le> 0x3F \<Longrightarrow> dtype (decode_00_3F mem pc op out) \<noteq> Z80_OP_UNKNOWN"
  by (cases op rule: u8_nibbles, simp only: insert_iff empty_iff simp_thms, elim disjE)
    (simp_all add: decode_00_3F_def fetch_defs word_le_nat_alt)

lemma unknown_default_mid:
  "0x40 \<le> op \<Longrightarrow> op \<le> 0xBF \<Longrightarrow> dtype (decode_default mem pc op out) \<noteq> Z80_OP_UNKNOWN"
  unfolding decode_default_def fetch_defs by (auto simp: word_le_nat_alt)

lemma unknown_C0_FF:
  assumes "dtype out = Z80_OP_UNKNOWN" "0xC0 \<le> op"
  shows "dtype (decode_C0_FF mem pc op out) = Z80_OP_UNKNOWN \<longleftrightarrow>
    op \<in> {0xCB, 0xDD, 0xED, 0xFD}"
  using assms
  by (cases op rule: u8_nibbles, simp only: insert_iff empty_iff simp_thms, elim disjE)
    (simp_all add: decode_C0_FF_def decode_default_def fetch_defs word_le_nat_alt)

lemma unknown_main:
  assumes "dtype out = Z80_OP_UNKNOWN"
  shows "dtype (decode_main mem pc op out) = Z80_OP_UNKNOWN \<longleftrightarrow>
    op \<in> {0xCB, 0xDD, 0xED, 0xFD}"
proof -
  consider "op \<le> 0x3F" | "0x40 \<le> op" "op \<le> 0xBF" | "0xC0 \<le> op"
    by (force simp: word_le_nat_alt)
  then show ?thesis
  proof cases
    case 1
    then show ?thesis using unknown_00_3F [of op mem pc out]
      by (auto simp: decode_main_def word_le_nat_alt)
  next
    case 2
    then show ?thesis using unknown_default_mid [of op mem pc out]
      by (auto simp: decode_main_def word_le_nat_alt)
  next
    case 3
    then show ?thesis using unknown_C0_FF [OF assms 3, of mem pc]
      by (auto simp: decode_main_def word_le_nat_alt)
  qed
qed

lemma known_indexed: "decode_indexed mem pc op out = Some d \<Longrightarrow> dtype d \<noteq> Z80_OP_UNKNOWN"
  unfolding decode_indexed_def by (auto split: if_splits)

lemma known_ed: "dtype (decode_ed mem pc out) \<noteq> Z80_OP_UNKNOWN"
  unfolding decode_ed_def decode_ed_op_def fetch_defs Let_def by simp

lemma unknown_plain:
  assumes "dtype out = Z80_OP_UNKNOWN" "op \<noteq> 0xCB" "op \<noteq> 0xED"
  shows "dtype (decode_plain mem pc op pfx out) = Z80_OP_UNKNOWN \<longleftrightarrow> is_prefix op"
proof -
  have m: "dtype (decode_main mem pc' op (out\<lparr>dopcode := op\<rparr>)) = Z80_OP_UNKNOWN \<longleftrightarrow> is_prefix op" for pc'
    using unknown_main [of "out\<lparr>dopcode := op\<rparr>" mem pc' op] assms by (auto simp: is_prefix_def)
  have i: "\<not> is_prefix op" if "decode_indexed mem pc' op out' = Some d" for pc' out' d
    using that by (auto simp: decode_indexed_def is_prefix_def)
  show ?thesis
  proof (cases "is_prefix pfx \<and> needs_disp op")
    case True
    then obtain d where
      "decode_indexed mem (pc + 2) op
         (out\<lparr>dopcode := op, ddisp := mem (pc + 1), dbytes := dbytes out + 1\<rparr>) = Some d"
      using decode_indexed_disp by blast
    with True i known_indexed show ?thesis by (auto simp: decode_plain_def Let_def)
  next
    case False
    with m i known_indexed show ?thesis
      by (cases "decode_indexed mem pc op (out\<lparr>dopcode := op\<rparr>)") (auto simp: decode_plain_def Let_def)
  qed
qed

lemma decode_unknown_iff:
  "dtype (z80_decode_one mem pc) = Z80_OP_UNKNOWN \<longleftrightarrow>
     is_prefix (mem pc) \<and> is_prefix (mem (pc + 1)) \<and> is_prefix (mem (pc + 2)) \<and>
     is_prefix (mem (pc + 3)) \<and> is_prefix (mem (pc + 4))" (is "_ \<longleftrightarrow> ?five")
proof -
  define n where "n = prefix_count mem 4 pc"
  have t: "dtype (after_prefixes mem pc n (zero_decoded\<lparr>dbytes := 1\<rparr>)) = Z80_OP_UNKNOWN"
    by (simp add: after_prefixes_def zero_decoded_def)
  have "dtype (z80_decode_one mem pc) = Z80_OP_UNKNOWN \<longleftrightarrow> is_prefix (mem (pc + of_nat n))"
    using unknown_plain [OF t] known_ed
    by (auto simp: z80_decode_one_eq Let_def n_def decode_tail_def decode_cb_def is_prefix_def)
  also have "\<dots> \<longleftrightarrow> ?five"
  proof (cases "n = 4")
    case True
    have "is_prefix (mem (pc + of_nat k))" if "k < 4" for k
      using prefix_count_prefix [of k mem 4 pc] that True by (simp add: n_def)
    from this [of 0] this [of 1] this [of 2] this [of 3] True show ?thesis by simp
  next
    case False
    with prefix_count_le [of mem 4 pc] have "n < 4" by (simp add: n_def)
    moreover from this have "(of_nat n :: u16) \<in> {0, 1, 2, 3, 4}"
      by (auto simp: numeral_eq_Suc less_Suc_eq)
    ultimately show ?thesis using prefix_count_stop [of mem 4 pc] by (auto simp: n_def)
  qed
  finally show ?thesis .
qed


section \<open>Locality of the whole decoder\<close>

lemma decode_local_aux:
  assumes agree: "agree_upto mem mem' pc (unat (dbytes (z80_decode_one mem pc)))"
  shows "z80_decode_one mem' pc = z80_decode_one mem pc"
proof -
  define n where "n = prefix_count mem 4 pc"
  define out where "out = after_prefixes mem pc n (zero_decoded\<lparr>dbytes := 1\<rparr>)"
  define pfx where "pfx = (if n = 0 then 0 else mem (pc + of_nat (n - 1)))"
  have one: "z80_decode_one mem pc = decode_tail mem (pc + of_nat n) pfx out"
    by (simp add: z80_decode_one_eq Let_def n_def out_def pfx_def)
  have le: "n \<le> 4" unfolding n_def by (rule prefix_count_le)
  have len: "Suc n \<le> unat (dbytes (z80_decode_one mem pc))"
    using decode_length_split(1) [OF n_def] .
  have eq: "mem' (pc + of_nat k) = mem (pc + of_nat k)" if "k \<le> n" for k
    using agree_uptoD [OF agree] len that by simp
  have n': "prefix_count mem' 4 pc = n"
    unfolding n_def by (rule prefix_count_cong) (use eq in \<open>simp add: n_def\<close>)
  have out_b: "dbytes out = of_nat (Suc n)" by (simp add: out_def after_prefixes_def zero_decoded_def)
  have "decode_tail mem' (pc + of_nat n) pfx out = decode_tail mem (pc + of_nat n) pfx out"
  proof (rule local_tail)
    fix k :: u8
    assume k: "k \<in> {1, 2, 3}" "k \<le> dbytes (decode_tail mem (pc + of_nat n) pfx out) - dbytes out"
    have "unat (dbytes (decode_tail mem (pc + of_nat n) pfx out)) \<ge> Suc n + unat k"
      using k dbytes_tail [of mem "pc + of_nat n" pfx out] le
      unfolding out_b
      by (auto simp: word_le_nat_alt unat_word_ariths unat_of_nat)
    then have "n + unat k < unat (dbytes (z80_decode_one mem pc))" by (simp add: one)
    from agree_uptoD [OF agree this]
    show "mem' (pc + of_nat n + ucast k) = mem (pc + of_nat n + ucast k)"
      by (simp add: add.assoc)
  qed (use eq [of n] in simp)
  moreover have "after_prefixes mem' pc n (zero_decoded\<lparr>dbytes := 1\<rparr>) = out"
    using eq [of "n - 1"] by (cases n) (simp_all add: out_def after_prefixes_def)
  moreover have "(if n = 0 then 0 else mem' (pc + of_nat (n - 1))) = pfx"
    using eq [of "n - 1"] by (cases n) (simp_all add: pfx_def)
  ultimately show ?thesis
    by (simp add: one z80_decode_one_eq [of mem'] Let_def n')
qed

section \<open>A reference decoding of the unprefixed page\<close>

text \<open>
  The Z80's own opcode structure: the byte splits into \<open>x = op[7:6]\<close>, \<open>y = op[5:3]\<close>,
  \<open>z = op[2:0]\<close>, with \<open>p = y[2:1]\<close> and \<open>q = y[0]\<close>; registers, register pairs,
  conditions and arithmetic operations are read off these fields.
\<close>

datatype operand_kind = NoOperand | Byte | Word | Disp

definition alu_r_op :: "nat \<Rightarrow> z80_op_type" where
  "alu_r_op y = [Z80_OP_ADD_A_R, Z80_OP_ADC_A_R, Z80_OP_SUB_A_R, Z80_OP_SBC_A_R,
                 Z80_OP_AND_A_R, Z80_OP_XOR_A_R, Z80_OP_OR_A_R, Z80_OP_CP_A_R] ! y"

definition alu_n_op :: "nat \<Rightarrow> z80_op_type" where
  "alu_n_op y = [Z80_OP_ADD_A_N, Z80_OP_ADC_A_N, Z80_OP_SUB_A_N, Z80_OP_SBC_A_N,
                 Z80_OP_AND_A_N, Z80_OP_XOR_A_N, Z80_OP_OR_A_N, Z80_OP_CP_A_N] ! y"

definition zilog_x0 :: "nat \<Rightarrow> nat \<Rightarrow> z80_decoded \<Rightarrow> z80_decoded \<times> operand_kind" where
  "zilog_x0 y z out =
     (let p = y div 2; q = y mod 2; r = of_nat y; rp = of_nat p in
      [if y = 0 then (out\<lparr>dtype := Z80_OP_NOP\<rparr>, NoOperand)
       else if y = 1 then (out\<lparr>dtype := Z80_OP_EX_AF_AF\<rparr>, NoOperand)
       else if y = 2 then (out\<lparr>dtype := Z80_OP_DJNZ\<rparr>, Disp)
       else if y = 3 then (out\<lparr>dtype := Z80_OP_JR_E\<rparr>, Disp)
       else (out\<lparr>dtype := Z80_OP_JR_CC_E, dcc := of_nat (y - 4)\<rparr>, Disp),
       if q = 0 then (out\<lparr>dtype := Z80_OP_LD_RR_NN, reg1 := rp\<rparr>, Word)
       else (out\<lparr>dtype := Z80_OP_ADD_HL_RR, reg1 := rp\<rparr>, NoOperand),
       [(out\<lparr>dtype := Z80_OP_LD_BC_A\<rparr>, NoOperand), (out\<lparr>dtype := Z80_OP_LD_A_BC\<rparr>, NoOperand),
        (out\<lparr>dtype := Z80_OP_LD_DE_A\<rparr>, NoOperand), (out\<lparr>dtype := Z80_OP_LD_A_DE\<rparr>, NoOperand),
        (out\<lparr>dtype := Z80_OP_LD_NN_HL\<rparr>, Word), (out\<lparr>dtype := Z80_OP_LD_HL_indNN\<rparr>, Word),
        (out\<lparr>dtype := Z80_OP_LD_NN_A\<rparr>, Word), (out\<lparr>dtype := Z80_OP_LD_A_NN\<rparr>, Word)] ! y,
       (out\<lparr>dtype := (if q = 0 then Z80_OP_INC_RR else Z80_OP_DEC_RR), reg1 := rp\<rparr>, NoOperand),
       (out\<lparr>dtype := Z80_OP_INC_R, reg1 := r\<rparr>, NoOperand),
       (out\<lparr>dtype := Z80_OP_DEC_R, reg1 := r\<rparr>, NoOperand),
       if y = 6 then (out\<lparr>dtype := Z80_OP_LD_HL_N\<rparr>, Byte)
       else (out\<lparr>dtype := Z80_OP_LD_R_N, reg1 := r\<rparr>, Byte),
       (out\<lparr>dtype := [Z80_OP_RLCA, Z80_OP_RRCA, Z80_OP_RLA, Z80_OP_RRA,
                      Z80_OP_DAA, Z80_OP_CPL, Z80_OP_SCF, Z80_OP_CCF] ! y\<rparr>, NoOperand)] ! z)"

definition zilog_x3 :: "nat \<Rightarrow> nat \<Rightarrow> z80_decoded \<Rightarrow> z80_decoded \<times> operand_kind" where
  "zilog_x3 y z out =
     (let p = y div 2; q = y mod 2; r = of_nat y; rp = of_nat p in
      [(out\<lparr>dtype := Z80_OP_RET_CC, dcc := r\<rparr>, NoOperand),
       if q = 0 then (out\<lparr>dtype := Z80_OP_POP_RR, reg1 := rp\<rparr>, NoOperand)
       else (out\<lparr>dtype := [Z80_OP_RET, Z80_OP_EXX, Z80_OP_JP_HL, Z80_OP_LD_SP_HL] ! p\<rparr>, NoOperand),
       (out\<lparr>dtype := Z80_OP_JP_CC_NN, dcc := r\<rparr>, Word),
       [(out\<lparr>dtype := Z80_OP_JP_NN\<rparr>, Word), (out, NoOperand),
        (out\<lparr>dtype := Z80_OP_OUT_N_A\<rparr>, Byte), (out\<lparr>dtype := Z80_OP_IN_A_N\<rparr>, Byte),
        (out\<lparr>dtype := Z80_OP_EX_SP_HL\<rparr>, NoOperand), (out\<lparr>dtype := Z80_OP_EX_DE_HL\<rparr>, NoOperand),
        (out\<lparr>dtype := Z80_OP_DI\<rparr>, NoOperand), (out\<lparr>dtype := Z80_OP_EI\<rparr>, NoOperand)] ! y,
       (out\<lparr>dtype := Z80_OP_CALL_CC_NN, dcc := r\<rparr>, Word),
       if q = 0 then (out\<lparr>dtype := Z80_OP_PUSH_RR, reg1 := rp\<rparr>, NoOperand)
       else (out\<lparr>dtype := Z80_OP_CALL_NN\<rparr>, Word),
       (out\<lparr>dtype := alu_n_op y\<rparr>, Byte),
       (out\<lparr>dtype := Z80_OP_RST, imm8 := 8 * r\<rparr>, NoOperand)] ! z)"

definition zilog_op :: "u8 \<Rightarrow> z80_decoded \<Rightarrow> z80_decoded \<times> operand_kind" where
  "zilog_op op out =
     (let x = unat op div 64; y = unat op div 8 mod 8; z = unat op mod 8 in
      if x = 0 then zilog_x0 y z out
      else if x = 1 then
        (if y = 6 \<and> z = 6 then (out\<lparr>dtype := Z80_OP_HALT\<rparr>, NoOperand)
         else (out\<lparr>dtype := Z80_OP_LD_R_R, reg1 := of_nat y, reg2 := of_nat z\<rparr>, NoOperand))
      else if x = 2 then (out\<lparr>dtype := alu_r_op y, reg1 := of_nat z\<rparr>, NoOperand)
      else zilog_x3 y z out)"

definition with_operand :: "memory \<Rightarrow> u16 \<Rightarrow> z80_decoded \<times> operand_kind \<Rightarrow> z80_decoded" where
  "with_operand mem pc dk =
     (case snd dk of NoOperand \<Rightarrow> fst dk | Byte \<Rightarrow> fetch_imm8 mem pc (fst dk)
      | Word \<Rightarrow> fetch_imm16 mem pc (fst dk) | Disp \<Rightarrow> fetch_disp mem pc (fst dk))"

lemmas zilog_defs = zilog_op_def zilog_x0_def zilog_x3_def alu_r_op_def alu_n_op_def
  with_operand_def Let_def

lemma zilog_00_3F: 
  assumes "op \<le> 0x3F" "reg1 out = 0" "dcc out = 0"
  shows "decode_00_3F mem pc op out = with_operand mem pc (zilog_op op out)"
  using assms
  by (cases op rule: u8_nibbles, simp only: insert_iff empty_iff simp_thms, elim disjE)
    (simp_all add: decode_00_3F_def zilog_defs word_le_nat_alt)

lemma zilog_40_BF: 
  assumes "0x40 \<le> op" "op \<le> 0xBF" "op \<noteq> 0x76"
  shows "decode_default mem pc op out = with_operand mem pc (zilog_op op out)"
  using assms
  by (cases op rule: u8_nibbles, simp only: insert_iff empty_iff simp_thms, elim disjE)
    (simp_all add: decode_default_def zilog_defs word_le_nat_alt op_y_def op_z_def)

lemma zilog_C0_FF: 
  assumes "0xC0 \<le> op" "op \<notin> {0xCB, 0xDD, 0xED, 0xFD}" "reg1 out = 0" "dcc out = 0" "imm8 out = 0"
  shows "decode_C0_FF mem pc op out = with_operand mem pc (zilog_op op out)"
  using assms
  by (cases op rule: u8_nibbles, simp only: insert_iff empty_iff simp_thms, elim disjE)
    (simp_all add: decode_C0_FF_def zilog_defs word_le_nat_alt)

lemma zilog_plain:
  assumes "op \<notin> {0xCB, 0xDD, 0xED, 0xFD}" "reg1 out = 0" "dcc out = 0" "imm8 out = 0"
  shows "decode_main mem pc op out = with_operand mem pc (zilog_op op out)"
proof -
  consider "op \<le> 0x3F" | "op = 0x76" | "0x40 \<le> op" "op \<le> 0xBF" "op \<noteq> 0x76" | "0xC0 \<le> op"
    by (force simp: word_le_nat_alt)
  then show ?thesis
  proof cases
    case 1
    with assms show ?thesis by (simp add: decode_main_def zilog_00_3F)
  next
    case 2
    then show ?thesis by (simp add: decode_main_def zilog_defs)
  next
    case 3
    with assms show ?thesis by (auto simp: decode_main_def zilog_40_BF word_le_nat_alt)
  next
    case 4
    with assms show ?thesis by (auto simp: decode_main_def zilog_C0_FF word_le_nat_alt)
  qed
qed

section \<open>Interrupt modes\<close>

lemma im_mode_le: "im_mode y \<le> 2"
  by (simp add: im_mode_def word_le_nat_alt)

definition im_ok :: "z80_decoded \<Rightarrow> bool" where
  "im_ok d \<longleftrightarrow> (dtype d = Z80_OP_IM \<longrightarrow> imm8 d \<le> 2)"

lemma im_ok_if: "im_ok a \<Longrightarrow> im_ok b \<Longrightarrow> im_ok (if c then a else b)"
  by simp

lemma im_default: "dtype out \<noteq> Z80_OP_IM \<Longrightarrow> im_ok (decode_default mem pc op out)"
  unfolding decode_default_def by (intro im_ok_if) (simp_all add: im_ok_def fetch_defs)

lemma im_00_3F: "dtype out \<noteq> Z80_OP_IM \<Longrightarrow> im_ok (decode_00_3F mem pc op out)"
  unfolding decode_00_3F_def by (intro im_ok_if) (simp_all add: im_ok_def fetch_defs)

lemma im_C0_FF: "dtype out \<noteq> Z80_OP_IM \<Longrightarrow> im_ok (decode_C0_FF mem pc op out)"
  unfolding decode_C0_FF_def by (intro im_ok_if im_default) (simp_all add: im_ok_def fetch_defs)

lemma im_main: "dtype out \<noteq> Z80_OP_IM \<Longrightarrow> im_ok (decode_main mem pc op out)"
  unfolding decode_main_def by (intro im_ok_if im_default im_00_3F im_C0_FF) (simp_all add: im_ok_def)

lemma im_remap: "im_ok d \<Longrightarrow> im_ok (remap_half_regs pfx d)"
  by (simp add: remap_half_regs_def im_ok_def)

lemma im_indexed: "decode_indexed mem pc op out = Some d \<Longrightarrow> im_ok d"
  unfolding decode_indexed_def by (auto simp: im_ok_def split: if_splits)

lemma im_plain: "dtype out \<noteq> Z80_OP_IM \<Longrightarrow> im_ok (decode_plain mem pc op pfx out)"
  by (cases rule: decode_plain_cases [of pfx op mem pc out])
    (auto intro: im_indexed intro!: im_remap im_main)

lemma im_ed_op: "dtype out \<noteq> Z80_OP_IM \<Longrightarrow> im_ok (decode_ed_op mem pc op out)"
  unfolding decode_ed_op_def by (intro im_ok_if) (simp_all add: im_ok_def fetch_defs im_mode_le)

lemma decode_im_ok: "im_ok (z80_decode_one mem pc)"
proof -
  have "dtype (after_prefixes mem pc n (zero_decoded\<lparr>dbytes := 1\<rparr>)) \<noteq> Z80_OP_IM" for n
    by (simp add: after_prefixes_def zero_decoded_def)
  then show ?thesis
    unfolding z80_decode_one_eq Let_def decode_tail_def decode_ed_def
    by (intro im_ok_if im_plain im_ed_op) (simp_all add: im_ok_def decode_cb_def Let_def)
qed

section \<open>Properties of the decoder\<close>

text \<open>Whatever the memory holds, an instruction is at least one and at most eight bytes
  long: at most four consumed DD/FD prefixes, then at most four further bytes.\<close>

theorem decode_length:
  "1 \<le> unat (dbytes (z80_decode_one mem pc)) \<and> unat (dbytes (z80_decode_one mem pc)) \<le> 8"
  by (rule decode_length_bounds)

text \<open>C38: The decoder has no decoding (\<open>Z80_OP_UNKNOWN\<close>, the only cause of a failing
  step) for exactly one kind of input: five DD/FD bytes in a row, one more than the
  prefix loop consumes.  Every other byte sequence is decoded.\<close>

theorem decode_rejects_iff:
  "dtype (z80_decode_one mem pc) = Z80_OP_UNKNOWN \<longleftrightarrow>
     is_prefix (mem pc) \<and> is_prefix (mem (pc + 1)) \<and> is_prefix (mem (pc + 2)) \<and>
     is_prefix (mem (pc + 3)) \<and> is_prefix (mem (pc + 4))"
  by (rule decode_unknown_iff)

text \<open>The decoder reads only the bytes it reports in \<open>bytes\<close>: two memories that agree
  on them give the same decoding.  Invalidating translated blocks by the bytes they
  cover is sound because of this.\<close>

theorem decode_locality:
  assumes "agree_upto mem mem' pc (unat (dbytes (z80_decode_one mem pc)))"
  shows "z80_decode_one mem' pc = z80_decode_one mem pc"
  using assms by (rule decode_local_aux)

theorem decode_locality_witness:
  "z80_decode_one ((\<lambda>_. 0) (5 := 7)) 0 = z80_decode_one (\<lambda>_. 0) 0"
proof (rule decode_locality)
  have "unat (dbytes (z80_decode_one (\<lambda>_. 0) 0)) = 1"
    by (simp add: z80_decode_one_eq prefix_count_none is_prefix_def decode_tail_def
        after_prefixes_def decode_plain_def decode_main_def decode_00_3F_def
        remap_half_regs_def zero_decoded_def)
  then show "agree_upto (\<lambda>_. 0) ((\<lambda>_. 0) (5 := 7)) 0
      (unat (dbytes (z80_decode_one (\<lambda>_. 0) 0)))"
    by (simp add: agree_upto_def)
qed

text \<open>C25: On every unprefixed opcode the 250-odd case labels of the switch agree with the
  Z80's regular opcode structure, the x/y/z fields of the byte, operand fetch included.\<close>

theorem decode_unprefixed_zilog:
  assumes "mem pc \<notin> {0xCB, 0xDD, 0xED, 0xFD}"
  shows "z80_decode_one mem pc =
    with_operand mem pc (zilog_op (mem pc) (zero_decoded\<lparr>dopcode := mem pc, dbytes := 1\<rparr>))"
proof -
  have n: "prefix_count mem 4 pc = 0"
    using assms by (simp add: prefix_count_none is_prefix_def)
  have "z80_decode_one mem pc = decode_tail mem pc 0 (zero_decoded\<lparr>dbytes := 1\<rparr>)"
    by (simp add: z80_decode_one_eq n after_prefixes_def)
  also have "\<dots> = decode_main mem pc (mem pc) (zero_decoded\<lparr>dopcode := mem pc, dbytes := 1\<rparr>)"
    using assms by (simp add: decode_tail_def decode_plain_def is_prefix_def
        remap_half_regs_def zero_decoded_def)
  finally show ?thesis
    using assms by (simp add: zilog_plain zero_decoded_def)
qed

theorem decode_unprefixed_zilog_witness:
  "z80_decode_one (\<lambda>_. 0xC3) 0 =
    with_operand (\<lambda>_. 0xC3) 0 (zilog_op 0xC3 (zero_decoded\<lparr>dopcode := 0xC3, dbytes := 1\<rparr>))"
  using decode_unprefixed_zilog [of "\<lambda>_. 0xC3" 0] by simp

end
