(* ===== verification/Block_Cache.thy ===== *)
theory Block_Cache
  imports Z80_Prelude
begin

text \<open>
  The translated-block cache (\<open>dbt/block_cache.c\<close>, types and constants of \<open>dbt/dbt.h\<close>):
  the direct-mapped cache of blocks, the bitmap of guest bytes that translated blocks
  cover, the registry of direct links between blocks, and the invalidation that a
  store into translated code triggers.  The machine code buffer is a byte store; a
  pointer into it is its offset, \<open>NULL\<close> is \<open>None\<close>.  \<open>dbt_arch_patch_link\<close> and the link
  units of \<open>emit_edge\<close> and \<open>emit_call_edge\<close> are the x86-64 back end's (\<open>dbt/dbt_x64.c\<close>).
\<close>

section \<open>Data\<close>

abbreviation (input) BLOCK_CACHE_MASK :: u16 where "BLOCK_CACHE_MASK \<equiv> 0xFFFF"
abbreviation (input) BLOCK_EMPTY_PC :: u32 where "BLOCK_EMPTY_PC \<equiv> 0xFFFFFFFF"
abbreviation (input) BLOCK_REFUSED_BIT :: u32 where "BLOCK_REFUSED_BIT \<equiv> 0x40000000"
abbreviation (input) LINK_NONE :: u32 where "LINK_NONE \<equiv> 0xFFFFFFFF"

definition LINK_POOL_SIZE :: nat where
  "LINK_POOL_SIZE = 512 * 1024"

record z80_block_entry =
  guest_pc :: u32
  span :: u32
  native_code :: "u32 option"

record z80_link =
  site_off :: u32
  lnext :: u32

type_synonym code_buffer = "u32 \<Rightarrow> u8"

text \<open>The fields of \<open>z80_dbt_t\<close> that \<open>block_cache.c\<close> works on.  \<open>dbt_smc_hist\<close> is a global
  pointer of that file; it is kept here with the counters.\<close>

record z80_dbt =
  code_bitmap :: "u16 \<Rightarrow> u8"
  cache :: "u16 \<Rightarrow> z80_block_entry"
  link_head :: "u16 \<Rightarrow> u32"
  link_pool :: "u32 \<Rightarrow> z80_link"
  link_used :: u32
  link_free :: u32
  code_buf :: code_buffer
  cache_hits :: u64
  cache_misses :: u64
  smc_invalidations :: u64
  links_created :: u64
  links_patched :: u64
  links_unpatched :: u64
  max_block_bytes :: u32
  last_block_bytes :: u32
  dbt_smc_hist :: "(u16 \<Rightarrow> u32) option"

section \<open>Patchable branches of the x86-64 back end\<close>

definition read32 :: "code_buffer \<Rightarrow> u32 \<Rightarrow> u32" where
  "read32 b a = ucast (b a) OR push_bit 8 (ucast (b (a + 1))) OR push_bit 16 (ucast (b (a + 2)))
     OR push_bit 24 (ucast (b (a + 3)))"

definition write32 :: "code_buffer \<Rightarrow> u32 \<Rightarrow> u32 \<Rightarrow> code_buffer" where
  "write32 b a v = b (a := ucast v, a + 1 := ucast (drop_bit 8 v),
     a + 2 := ucast (drop_bit 16 v), a + 3 := ucast (drop_bit 24 v))"

definition CALL_LANDING_BYTES :: u32 where
  "CALL_LANDING_BYTES = 4 + (5 + 5 + 28)"

definition link_fallback :: "code_buffer \<Rightarrow> u32 \<Rightarrow> u32" where
  "link_fallback b site = site + 5 + (if b site = 0xE8 then CALL_LANDING_BYTES else 0)"

definition patch_site :: "code_buffer \<Rightarrow> u32 \<Rightarrow> u32 option \<Rightarrow> code_buffer" where
  "patch_site b site target =
     (let dst = (case target of Some t \<Rightarrow> t | None \<Rightarrow> link_fallback b site);
          disp = dst - (site + 5)
      in if read32 b (site + 1) = disp then b else write32 b (site + 1) disp)"

definition dbt_arch_patch_link :: "z80_dbt \<Rightarrow> u32 \<Rightarrow> u32 option \<Rightarrow> z80_dbt" where
  "dbt_arch_patch_link dbt site target = dbt\<lparr>code_buf := patch_site (code_buf dbt) site target\<rparr>"

text \<open>Where the patchable jump or call at \<open>site\<close> goes.\<close>

definition branch_target :: "code_buffer \<Rightarrow> u32 \<Rightarrow> u32" where
  "branch_target b site = site + 5 + read32 b (site + 1)"

section \<open>Operations\<close>

definition cache_index :: "u16 \<Rightarrow> u16" where
  "cache_index pc = pc AND BLOCK_CACHE_MASK"

definition dbt_cache_lookup :: "z80_dbt \<Rightarrow> u16 \<Rightarrow> z80_block_entry option \<times> z80_dbt" where
  "dbt_cache_lookup dbt pc =
     (let e = cache dbt (cache_index pc)
      in if guest_pc e = ucast pc \<or> guest_pc e = ucast pc OR BLOCK_REFUSED_BIT
         then (Some e, dbt\<lparr>cache_hits := cache_hits dbt + 1\<rparr>)
         else (None, dbt\<lparr>cache_misses := cache_misses dbt + 1\<rparr>))"

text \<open>
  The two loops of \<open>dbt_links_repatch\<close>.  The first argument bounds the number of
  records visited; a chain holds each record of the pool at most once, so
  \<open>LINK_POOL_SIZE\<close> visits reach its end (\<open>repatch_reaches_end\<close> below).  The record the
  walk stopped at is returned with the state.
\<close>

fun repatch_walk :: "nat \<Rightarrow> u32 \<Rightarrow> u32 \<Rightarrow> z80_dbt \<Rightarrow> u32 \<times> z80_dbt" where
  "repatch_walk 0 code i dbt = (i, dbt)"
| "repatch_walk (Suc n) code i dbt =
     (if i = LINK_NONE then (i, dbt)
      else let dbt = dbt_arch_patch_link dbt (site_off (link_pool dbt i)) (Some code);
               dbt = dbt\<lparr>links_patched := links_patched dbt + 1\<rparr>
           in repatch_walk n code (lnext (link_pool dbt i)) dbt)"

fun unlink_walk :: "nat \<Rightarrow> u32 \<Rightarrow> z80_dbt \<Rightarrow> u32 \<times> z80_dbt" where
  "unlink_walk 0 i dbt = (i, dbt)"
| "unlink_walk (Suc n) i dbt =
     (if i = LINK_NONE then (i, dbt)
      else let nxt = lnext (link_pool dbt i);
               dbt = dbt_arch_patch_link dbt (site_off (link_pool dbt i)) None;
               dbt = dbt\<lparr>link_pool := (link_pool dbt) (i := (link_pool dbt i)\<lparr>lnext := link_free dbt\<rparr>)\<rparr>;
               dbt = dbt\<lparr>link_free := i\<rparr>;
               dbt = dbt\<lparr>links_unpatched := links_unpatched dbt + 1\<rparr>
           in unlink_walk n nxt dbt)"

definition dbt_links_repatch :: "z80_dbt \<Rightarrow> u16 \<Rightarrow> u32 option \<Rightarrow> z80_dbt" where
  "dbt_links_repatch dbt pc code =
     (let i = link_head dbt pc
      in if i = LINK_NONE then dbt
         else case code of
           Some c \<Rightarrow> snd (repatch_walk LINK_POOL_SIZE c i dbt)
         | None \<Rightarrow> (let dbt = snd (unlink_walk LINK_POOL_SIZE i dbt)
                   in dbt\<lparr>link_head := (link_head dbt) (pc := LINK_NONE)\<rparr>))"

definition dbt_cache_insert :: "z80_dbt \<Rightarrow> u16 \<Rightarrow> u32 option \<Rightarrow> z80_dbt" where
  "dbt_cache_insert dbt pc code =
     (let e = \<lparr>guest_pc = (if code \<noteq> None then ucast pc else ucast pc OR BLOCK_REFUSED_BIT),
               span = (if code \<noteq> None then last_block_bytes dbt else 0xFFFFFFFF),
               native_code = code\<rparr>;
          dbt = dbt\<lparr>cache := (cache dbt) (cache_index pc := e)\<rparr>
      in dbt_links_repatch dbt pc code)"

definition dbt_cache_invalidate_all :: "z80_dbt \<Rightarrow> z80_dbt" where
  "dbt_cache_invalidate_all dbt =
     dbt\<lparr>cache := (\<lambda>i. (cache dbt i)\<lparr>guest_pc := BLOCK_EMPTY_PC, native_code := None\<rparr>),
         link_head := (\<lambda>i. LINK_NONE), link_used := 0, link_free := LINK_NONE,
         code_bitmap := (\<lambda>a. 0), max_block_bytes := 0\<rparr>"

definition dbt_link_record :: "z80_dbt \<Rightarrow> u16 \<Rightarrow> u32 \<Rightarrow> bool \<times> z80_dbt" where
  "dbt_link_record dbt pc site =
     (let finish = (\<lambda>i dbt.
            (True, dbt\<lparr>link_pool := (link_pool dbt) (i := \<lparr>site_off = site, lnext = link_head dbt pc\<rparr>),
                       link_head := (link_head dbt) (pc := i),
                       links_created := links_created dbt + 1\<rparr>))
      in if link_free dbt \<noteq> LINK_NONE then
           (let i = link_free dbt
            in finish i (dbt\<lparr>link_free := lnext (link_pool dbt i)\<rparr>))
         else if unat (link_used dbt) < LINK_POOL_SIZE then
           (let i = link_used dbt
            in finish i (dbt\<lparr>link_used := link_used dbt + 1\<rparr>))
         else (False, dbt))"

text \<open>\<open>for (a = start; a < end; a++) code_bitmap[a & 0xFFFF] = 1;\<close>\<close>

definition dbt_mark_block_bytes :: "z80_dbt \<Rightarrow> u16 \<Rightarrow> u32 \<Rightarrow> z80_dbt" where
  "dbt_mark_block_bytes dbt start end' =
     (let bytes = (end' - ucast start) AND 0xFFFF;
          dbt = (if bytes > max_block_bytes dbt then dbt\<lparr>max_block_bytes := bytes\<rparr> else dbt);
          dbt = dbt\<lparr>last_block_bytes := bytes\<rparr>
      in dbt\<lparr>code_bitmap := fold (\<lambda>a m. m (of_nat a := 1)) [unat start ..< unat end'] (code_bitmap dbt)\<rparr>)"

text \<open>One iteration of the sweep in \<open>dbt_invalidate_for_store\<close>, and the sweep itself.\<close>

definition invalidate_probe :: "u16 \<Rightarrow> nat \<Rightarrow> z80_dbt \<Rightarrow> z80_dbt" where
  "invalidate_probe addr k dbt =
     (let p = addr - of_nat k;
          e = cache dbt (cache_index p)
      in if guest_pc e = BLOCK_EMPTY_PC \<or> unat (span e) \<le> k then dbt
         else dbt_links_repatch
           (dbt\<lparr>cache := (cache dbt) (cache_index p := e\<lparr>guest_pc := BLOCK_EMPTY_PC, native_code := None\<rparr>)\<rparr>)
           p None)"

definition dbt_invalidate_for_store :: "z80_dbt \<Rightarrow> u16 \<Rightarrow> z80_dbt" where
  "dbt_invalidate_for_store dbt addr =
     (let dbt = dbt\<lparr>dbt_smc_hist := map_option (\<lambda>h. h (addr := h addr + 1)) (dbt_smc_hist dbt)\<rparr>;
          window = unat (max_block_bytes dbt);
          dbt = fold (invalidate_probe addr) [0..<window] dbt;
          dbt = dbt\<lparr>smc_invalidations := smc_invalidations dbt + 1\<rparr>
      in dbt\<lparr>code_bitmap := (code_bitmap dbt) (addr := 0)\<rparr>)"

text \<open>What \<open>z80_mem_w\<close> does to the translator's state after the byte is stored.\<close>

definition dbt_note_store :: "z80_dbt \<Rightarrow> u16 \<Rightarrow> z80_dbt" where
  "dbt_note_store dbt addr =
     (if code_bitmap dbt addr \<noteq> 0 then dbt_invalidate_for_store dbt addr else dbt)"

text \<open>
  The sweep over a range of stored bytes (\<open>smc_sweep_forward\<close> and the end of
  \<open>ldir_lddr_common\<close> in \<open>dbt/dbt_flags.c\<close>): one iteration, and the loop over the \<open>len\<close> bytes
  from \<open>lo\<close> and the window before them.
\<close>

definition sweep_probe :: "u16 \<Rightarrow> u32 \<Rightarrow> u32 \<Rightarrow> z80_dbt \<Rightarrow> z80_dbt" where
  "sweep_probe lo window k dbt =
     (let p = (ucast (ucast lo + k - window + 1) :: u16);
          e = cache dbt (cache_index p);
          gap = (if window - 1 > k then window - 1 - k else 0)
      in if guest_pc e = BLOCK_EMPTY_PC \<or> gap \<ge> span e then dbt
         else dbt_links_repatch
           (dbt\<lparr>cache := (cache dbt) (cache_index p := e\<lparr>guest_pc := BLOCK_EMPTY_PC, native_code := None\<rparr>)\<rparr>)
           p None)"

definition sweep_range :: "z80_dbt \<Rightarrow> u16 \<Rightarrow> u32 \<Rightarrow> z80_dbt" where
  "sweep_range dbt lo len =
     (let window = max_block_bytes dbt;
          total = len + window;
          dbt = fold (\<lambda>k. sweep_probe lo window (of_nat k)) [0..<unat total] dbt
      in dbt\<lparr>smc_invalidations := smc_invalidations dbt + 1\<rparr>)"

definition smc_sweep_forward :: "z80_dbt \<Rightarrow> u16 \<Rightarrow> u32 \<Rightarrow> z80_dbt" where
  "smc_sweep_forward dbt lo len =
     (if len = 0 then dbt
      else if \<not> list_ex (\<lambda>i. code_bitmap dbt (lo + of_nat i) \<noteq> 0) [0..<unat len] then dbt
      else sweep_range dbt lo len)"

text \<open>
  The patchable branches the x86-64 back end emits.  A direct edge is \<open>jmp rel32\<close> at its link site,
  followed by its probe; the edge of a \<open>CALL\<close> under the return-address stack is \<open>call rel32\<close>, followed
  by the landing (\<open>add rsp, 8\<close> and the edge to the instruction after the \<open>CALL\<close>) and then its
  probe.  A site is registered first; the branch goes to the block of its target when the site
  is registered and that block is cached, otherwise to the probe.  Only what concerns the link sites is
  modelled: the bytes around them (\<open>mov eax, pc\<close>, the probe) are any other emitted code.
\<close>

definition emit_jmp_rel32_to :: "code_buffer \<Rightarrow> u32 \<Rightarrow> u32 \<Rightarrow> code_buffer" where
  "emit_jmp_rel32_to b off target = write32 (b (off := 0xE9)) (off + 1) (target - (off + 5))"

definition emit_call_rel32_to :: "code_buffer \<Rightarrow> u32 \<Rightarrow> u32 \<Rightarrow> code_buffer" where
  "emit_call_rel32_to b off target = write32 (b (off := 0xE8)) (off + 1) (target - (off + 5))"

text \<open>\<open>strict\<close> is \<open>s_strict_exit > 0\<close>, under which no edge is linked; \<open>use_ras\<close> is \<open>s_use_ras\<close>.\<close>

definition emit_edge_link :: "bool \<Rightarrow> z80_dbt \<Rightarrow> u16 \<Rightarrow> u32 \<Rightarrow> z80_dbt" where
  "emit_edge_link strict dbt pc site =
     (if strict then dbt
      else let (ok, dbt) = dbt_link_record dbt pc site;
          be = cache dbt pc;
          target = (if ok \<and> guest_pc be = ucast pc \<and> native_code be \<noteq> None
                    then the (native_code be) else site + 5)
      in dbt\<lparr>code_buf := emit_jmp_rel32_to (code_buf dbt) site target\<rparr>)"

text \<open>The jump of the landing's edge stands behind the \<open>call\<close> (5 bytes), \<open>add rsp, 8\<close> (4) and
  \<open>mov eax, pc\<close> (5).\<close>

definition emit_call_edge_link :: "bool \<Rightarrow> bool \<Rightarrow> z80_dbt \<Rightarrow> u16 \<Rightarrow> u16 \<Rightarrow> u32 \<Rightarrow> z80_dbt" where
  "emit_call_edge_link use_ras strict dbt target pc_after site =
     (if \<not> use_ras \<or> strict then emit_edge_link strict dbt target site
      else let probe_stub = site + 5 + CALL_LANDING_BYTES;
          (ok, dbt) = dbt_link_record dbt target site;
          be = cache dbt target;
          dst = (if ok \<and> guest_pc be = ucast target \<and> native_code be \<noteq> None
                 then the (native_code be) else probe_stub);
          dbt = dbt\<lparr>code_buf := emit_call_rel32_to (code_buf dbt) site dst\<rparr>
      in emit_edge_link strict dbt pc_after (site + 5 + 4 + 5))"

end
