(* ===== verification/Z80_State.thy ===== *)
theory Z80_State
  imports Z80_Types Block_Cache
begin

text \<open>
  The CPU state \<open>z80_cpu_t\<close> (\<open>core/z80.h\<close>), its initialisation and reset
  (\<open>core/z80_state.c\<close>) and the one way guest memory is written, \<open>z80_mem_w\<close>
  (\<open>dbt/block_cache.c\<close>).  The unions of the C struct are the 8-bit fields here, with the
  16-bit views \<open>reg_bc\<close>, \<open>set_bc\<close>, ... over them.  What lies behind the function
  pointers and the CP/M shim is a parameter: the record \<open>z80_env\<close> holds the port hooks
  and the shim's entry points, the field \<open>host\<close> of the CPU their state.
\<close>

section \<open>State\<close>

record 'h z80_cpu =
  reg_f :: u8
  reg_a :: u8
  reg_c :: u8
  reg_b :: u8
  reg_e :: u8
  reg_d :: u8
  reg_l :: u8
  reg_h :: u8
  alt_f :: u8
  alt_a :: u8
  alt_c :: u8
  alt_b :: u8
  alt_e :: u8
  alt_d :: u8
  alt_l :: u8
  alt_h :: u8
  reg_ix :: u16
  reg_iy :: u16
  reg_sp :: u16
  reg_pc :: u16
  reg_i :: u8
  reg_r :: u8
  iff1 :: u8
  iff2 :: u8
  reg_im :: u8
  cmem :: memory
  defer_traps :: u8
  cdbt :: "z80_dbt option"
  insn_count :: u64
  r_epoch :: u64
  memptr :: u16
  reg_q :: u8
  profile_counts :: "(u16 \<Rightarrow> u32) option"
  host :: 'h

text \<open>The hooks (\<open>None\<close> is \<open>NULL\<close>: an unconnected bus) and the CP/M shim.\<close>

record 'h z80_env =
  port_in :: "('h z80_cpu \<Rightarrow> u8 \<Rightarrow> u8 \<Rightarrow> u8 \<times> 'h z80_cpu) option"
  port_out :: "('h z80_cpu \<Rightarrow> u8 \<Rightarrow> u8 \<Rightarrow> u8 \<Rightarrow> 'h z80_cpu) option"
  cpm_bdos_dispatch :: "'h z80_cpu \<Rightarrow> bool \<times> 'h z80_cpu"
  cpm_bios_dispatch :: "'h z80_cpu \<Rightarrow> bool \<times> 'h z80_cpu"
  cpm_console_wait :: "'h z80_cpu \<Rightarrow> 'h z80_cpu"
  cpm_traps_enabled :: bool

abbreviation (input) CPM_BDOS_ENTRY :: u16 where "CPM_BDOS_ENTRY \<equiv> 0x0005"
abbreviation (input) CPM_WBOOT_ENTRY :: u16 where "CPM_WBOOT_ENTRY \<equiv> 0x0000"
abbreviation (input) CPM_BIOS_BASE :: u16 where "CPM_BIOS_BASE \<equiv> 0xF200"

section \<open>16-bit views of the register pairs\<close>

definition reg_af :: "'h z80_cpu \<Rightarrow> u16" where "reg_af cpu = mk16 (reg_a cpu) (reg_f cpu)"
definition reg_bc :: "'h z80_cpu \<Rightarrow> u16" where "reg_bc cpu = mk16 (reg_b cpu) (reg_c cpu)"
definition reg_de :: "'h z80_cpu \<Rightarrow> u16" where "reg_de cpu = mk16 (reg_d cpu) (reg_e cpu)"
definition reg_hl :: "'h z80_cpu \<Rightarrow> u16" where "reg_hl cpu = mk16 (reg_h cpu) (reg_l cpu)"

definition set_af :: "u16 \<Rightarrow> 'h z80_cpu \<Rightarrow> 'h z80_cpu" where
  "set_af v cpu = cpu\<lparr>reg_a := hi8 v, reg_f := lo8 v\<rparr>"
definition set_bc :: "u16 \<Rightarrow> 'h z80_cpu \<Rightarrow> 'h z80_cpu" where
  "set_bc v cpu = cpu\<lparr>reg_b := hi8 v, reg_c := lo8 v\<rparr>"
definition set_de :: "u16 \<Rightarrow> 'h z80_cpu \<Rightarrow> 'h z80_cpu" where
  "set_de v cpu = cpu\<lparr>reg_d := hi8 v, reg_e := lo8 v\<rparr>"
definition set_hl :: "u16 \<Rightarrow> 'h z80_cpu \<Rightarrow> 'h z80_cpu" where
  "set_hl v cpu = cpu\<lparr>reg_h := hi8 v, reg_l := lo8 v\<rparr>"

lemmas reg16_defs = reg_af_def reg_bc_def reg_de_def reg_hl_def
  set_af_def set_bc_def set_de_def set_hl_def

lemma reg16_set [simp]:
  "reg_af (set_af v cpu) = v" "reg_bc (set_bc v cpu) = v" "reg_de (set_de v cpu) = v"
  "reg_hl (set_hl v cpu) = v"
  by (simp_all add: reg16_defs)

lemma reg16_other [simp]:
  "reg_bc (set_de v cpu) = reg_bc cpu" "reg_bc (set_hl v cpu) = reg_bc cpu" "reg_bc (set_af v cpu) = reg_bc cpu"
  "reg_de (set_bc v cpu) = reg_de cpu" "reg_de (set_hl v cpu) = reg_de cpu" "reg_de (set_af v cpu) = reg_de cpu"
  "reg_hl (set_bc v cpu) = reg_hl cpu" "reg_hl (set_de v cpu) = reg_hl cpu" "reg_hl (set_af v cpu) = reg_hl cpu"
  "cmem (set_bc v cpu) = cmem cpu" "cmem (set_de v cpu) = cmem cpu" "cmem (set_hl v cpu) = cmem cpu"
  "cdbt (set_bc v cpu) = cdbt cpu" "cdbt (set_de v cpu) = cdbt cpu" "cdbt (set_hl v cpu) = cdbt cpu"
  by (simp_all add: reg16_defs)

section \<open>Initialisation and reset\<close>

text \<open>\<open>memset(cpu, 0, sizeof(*cpu))\<close>, with the memory kept apart.  \<open>profile_counts\<close> and the
  host's state are not part of the C struct and survive.\<close>

definition zero_cpu :: "memory \<Rightarrow> (u16 \<Rightarrow> u32) option \<Rightarrow> 'h \<Rightarrow> 'h z80_cpu" where
  "zero_cpu m prof h = \<lparr>reg_f = 0, reg_a = 0, reg_c = 0, reg_b = 0, reg_e = 0, reg_d = 0, reg_l = 0, reg_h = 0,
     alt_f = 0, alt_a = 0, alt_c = 0, alt_b = 0, alt_e = 0, alt_d = 0, alt_l = 0, alt_h = 0,
     reg_ix = 0, reg_iy = 0, reg_sp = 0, reg_pc = 0, reg_i = 0, reg_r = 0, iff1 = 0, iff2 = 0, reg_im = 0,
     cmem = m, defer_traps = 0, cdbt = None, insn_count = 0, r_epoch = 0, memptr = 0, reg_q = 0,
     profile_counts = prof, host = h\<rparr>"

text \<open>The allocator returns cleared memory; a failed allocation (\<open>mem == NULL\<close>) is not modelled.\<close>

definition z80_cpu_init :: "(u16 \<Rightarrow> u32) option \<Rightarrow> 'h \<Rightarrow> 'h z80_cpu" where
  "z80_cpu_init prof h =
     (let cpu = zero_cpu (\<lambda>_. 0) prof h in cpu\<lparr>reg_sp := 0xFFFF, reg_im := 1, iff1 := 0, iff2 := 0\<rparr>)"

definition z80_cpu_reset :: "'h z80_cpu \<Rightarrow> 'h z80_cpu" where
  "z80_cpu_reset cpu =
     (let cpu = zero_cpu (cmem cpu) (profile_counts cpu) (host cpu) in cpu\<lparr>reg_sp := 0xFFFF, reg_im := 1\<rparr>)"

definition z80_materialize_flags :: "'h z80_cpu \<Rightarrow> u8" where
  "z80_materialize_flags cpu = reg_f cpu"

section \<open>Memory writes\<close>

definition z80_mem_w :: "'h z80_cpu \<Rightarrow> u16 \<Rightarrow> u8 \<Rightarrow> 'h z80_cpu" where
  "z80_mem_w cpu addr val =
     (let cpu = cpu\<lparr>cmem := (cmem cpu) (addr := val)\<rparr>
      in case cdbt cpu of
           None \<Rightarrow> cpu
         | Some dbt \<Rightarrow> cpu\<lparr>cdbt := Some (dbt_note_store dbt addr)\<rparr>)"

text \<open>The host has written \<open>len\<close> bytes at \<open>addr\<close> behind the translator's back.\<close>

definition z80_mem_host_wrote :: "'h z80_cpu \<Rightarrow> u16 \<Rightarrow> u32 \<Rightarrow> 'h z80_cpu" where
  "z80_mem_host_wrote cpu addr len =
     (if cdbt cpu = None then cpu
      else fold (\<lambda>i cpu. let a = addr + of_nat i in z80_mem_w cpu a (cmem cpu a)) [0..<unat len] cpu)"

lemma mem_w_alt:
  "z80_mem_w cpu a v =
     cpu\<lparr>cmem := (cmem cpu) (a := v), cdbt := map_option (\<lambda>d. dbt_note_store d a) (cdbt cpu)\<rparr>"
  by (simp add: z80_mem_w_def Let_def split: option.split)

lemma mem_w_simps [simp]:
  "reg_f (z80_mem_w cpu a v) = reg_f cpu" "reg_a (z80_mem_w cpu a v) = reg_a cpu"
  "reg_c (z80_mem_w cpu a v) = reg_c cpu" "reg_b (z80_mem_w cpu a v) = reg_b cpu"
  "reg_e (z80_mem_w cpu a v) = reg_e cpu" "reg_d (z80_mem_w cpu a v) = reg_d cpu"
  "reg_l (z80_mem_w cpu a v) = reg_l cpu" "reg_h (z80_mem_w cpu a v) = reg_h cpu"
  "alt_f (z80_mem_w cpu a v) = alt_f cpu" "alt_a (z80_mem_w cpu a v) = alt_a cpu"
  "alt_c (z80_mem_w cpu a v) = alt_c cpu" "alt_b (z80_mem_w cpu a v) = alt_b cpu"
  "alt_e (z80_mem_w cpu a v) = alt_e cpu" "alt_d (z80_mem_w cpu a v) = alt_d cpu"
  "alt_l (z80_mem_w cpu a v) = alt_l cpu" "alt_h (z80_mem_w cpu a v) = alt_h cpu"
  "reg_ix (z80_mem_w cpu a v) = reg_ix cpu" "reg_iy (z80_mem_w cpu a v) = reg_iy cpu"
  "reg_sp (z80_mem_w cpu a v) = reg_sp cpu" "reg_pc (z80_mem_w cpu a v) = reg_pc cpu"
  "reg_i (z80_mem_w cpu a v) = reg_i cpu" "reg_r (z80_mem_w cpu a v) = reg_r cpu"
  "iff1 (z80_mem_w cpu a v) = iff1 cpu" "iff2 (z80_mem_w cpu a v) = iff2 cpu"
  "reg_im (z80_mem_w cpu a v) = reg_im cpu" "defer_traps (z80_mem_w cpu a v) = defer_traps cpu"
  "insn_count (z80_mem_w cpu a v) = insn_count cpu" "r_epoch (z80_mem_w cpu a v) = r_epoch cpu"
  "memptr (z80_mem_w cpu a v) = memptr cpu" "reg_q (z80_mem_w cpu a v) = reg_q cpu"
  "profile_counts (z80_mem_w cpu a v) = profile_counts cpu" "host (z80_mem_w cpu a v) = host cpu"
  "cmem (z80_mem_w cpu a v) = (cmem cpu) (a := v)"
  "reg_af (z80_mem_w cpu a v) = reg_af cpu" "reg_bc (z80_mem_w cpu a v) = reg_bc cpu"
  "reg_de (z80_mem_w cpu a v) = reg_de cpu" "reg_hl (z80_mem_w cpu a v) = reg_hl cpu"
  by (simp_all add: mem_w_alt reg_af_def reg_bc_def reg_de_def reg_hl_def)

end
