(* ===== verification/Z80_Interp.thy ===== *)
theory Z80_Interp
  imports Z80_Decode Z80_State
begin

text \<open>
  The reference interpreter (\<open>core/z80_interp.c\<close>): operand access, flag helpers, port
  I/O, one definition per operation (or per group of case labels that share a body),
  the dispatch \<open>exec_op\<close> over \<open>z80_op_type\<close> and \<open>z80_step\<close>.  The arithmetic that C does
  in \<open>int\<close> is done on natural numbers, integers or 32-bit words, whichever the C
  expression needs; stores into 8- and 16-bit variables truncate.
\<close>

section \<open>Registers and operands\<close>

text \<open>\<open>reg8_ptr_p\<close>: the byte a register code names, \<open>None\<close> for the null pointer, and the store
  through that pointer (which the callers skip when it is null).\<close>

definition reg8_ptr_p :: "'h z80_cpu \<Rightarrow> u8 \<Rightarrow> u8 \<Rightarrow> u8 option" where
  "reg8_ptr_p cpu r pfx =
     (if r = 0 then Some (reg_b cpu) else if r = 1 then Some (reg_c cpu)
      else if r = 2 then Some (reg_d cpu) else if r = 3 then Some (reg_e cpu)
      else if r = 4 then Some (reg_h cpu) else if r = 5 then Some (reg_l cpu)
      else if r = 7 then Some (reg_a cpu)
      else if r = 8 then Some (hi8 (if pfx = 0xFD then reg_iy cpu else reg_ix cpu))
      else if r = 9 then Some (lo8 (if pfx = 0xFD then reg_iy cpu else reg_ix cpu))
      else None)"

definition reg8_put_p :: "'h z80_cpu \<Rightarrow> u8 \<Rightarrow> u8 \<Rightarrow> u8 \<Rightarrow> 'h z80_cpu" where
  "reg8_put_p cpu r pfx v =
     (if r = 0 then cpu\<lparr>reg_b := v\<rparr> else if r = 1 then cpu\<lparr>reg_c := v\<rparr>
      else if r = 2 then cpu\<lparr>reg_d := v\<rparr> else if r = 3 then cpu\<lparr>reg_e := v\<rparr>
      else if r = 4 then cpu\<lparr>reg_h := v\<rparr> else if r = 5 then cpu\<lparr>reg_l := v\<rparr>
      else if r = 7 then cpu\<lparr>reg_a := v\<rparr>
      else if r = 8 then
        (if pfx = 0xFD then cpu\<lparr>reg_iy := mk16 v (lo8 (reg_iy cpu))\<rparr>
         else cpu\<lparr>reg_ix := mk16 v (lo8 (reg_ix cpu))\<rparr>)
      else if r = 9 then
        (if pfx = 0xFD then cpu\<lparr>reg_iy := mk16 (hi8 (reg_iy cpu)) v\<rparr>
         else cpu\<lparr>reg_ix := mk16 (hi8 (reg_ix cpu)) v\<rparr>)
      else cpu)"

definition effective_addr :: "'h z80_cpu \<Rightarrow> z80_decoded \<Rightarrow> u16 \<Rightarrow> u16" where
  "effective_addr cpu dec hl_fallback =
     (if dprefix dec = 0xDD then reg_ix cpu + sext (ddisp dec)
      else if dprefix dec = 0xFD then reg_iy cpu + sext (ddisp dec)
      else hl_fallback)"

definition read_reg8 :: "'h z80_cpu \<Rightarrow> u8 \<Rightarrow> z80_decoded \<Rightarrow> u8" where
  "read_reg8 cpu r dec =
     (if r = 6 then cmem cpu (effective_addr cpu dec (reg_hl cpu))
      else case reg8_ptr_p cpu r (dprefix dec) of Some v \<Rightarrow> v | None \<Rightarrow> 0)"

definition write_reg8 :: "'h z80_cpu \<Rightarrow> u8 \<Rightarrow> u8 \<Rightarrow> z80_decoded \<Rightarrow> 'h z80_cpu" where
  "write_reg8 cpu r val dec =
     (if r = 6 then z80_mem_w cpu (effective_addr cpu dec (reg_hl cpu)) val
      else reg8_put_p cpu r (dprefix dec) val)"

definition read_rr :: "'h z80_cpu \<Rightarrow> u8 \<Rightarrow> u16" where
  "read_rr cpu rr =
     (if rr = 0 then reg_bc cpu else if rr = 1 then reg_de cpu else if rr = 2 then reg_hl cpu
      else if rr = 3 then reg_sp cpu else 0)"

definition write_rr :: "'h z80_cpu \<Rightarrow> u8 \<Rightarrow> u16 \<Rightarrow> 'h z80_cpu" where
  "write_rr cpu rr val =
     (if rr = 0 then set_bc val cpu else if rr = 1 then set_de val cpu
      else if rr = 2 then set_hl val cpu else if rr = 3 then cpu\<lparr>reg_sp := val\<rparr> else cpu)"

section \<open>Flags\<close>

definition xy_from :: "u8 \<Rightarrow> u8" where
  "xy_from b = b AND (Z80_FLAG_5 OR Z80_FLAG_3)"

definition parity8 :: "u8 \<Rightarrow> u8" where
  "parity8 v =
     (let v = v XOR drop_bit 4 v; v = v XOR drop_bit 2 v; v = v XOR drop_bit 1 v
      in if v AND 1 \<noteq> 0 then 0 else Z80_FLAG_PV)"

definition flags_add :: "u8 \<Rightarrow> u8 \<Rightarrow> u8 \<Rightarrow> u8" where
  "flags_add a b res =
     (let f = xy_from res;
          f = set_if (res = 0) Z80_FLAG_Z f;
          f = set_if (res AND 0x80 \<noteq> 0) Z80_FLAG_S f;
          f = set_if (unat (a AND 0xF) + unat (b AND 0xF) > 0xF) Z80_FLAG_H f;
          f = set_if (unat a + unat b > 0xFF) Z80_FLAG_C f
      in set_if ((a XOR b) AND 0x80 = 0 \<and> (res XOR a) AND 0x80 \<noteq> 0) Z80_FLAG_PV f)"

definition set_flags_add :: "'h z80_cpu \<Rightarrow> u8 \<Rightarrow> u8 \<Rightarrow> u8 \<Rightarrow> 'h z80_cpu" where
  "set_flags_add cpu a b res = cpu\<lparr>reg_f := flags_add a b res, reg_q := 1\<rparr>"

text \<open>\<open>set_flags_sub\<close> and \<open>set_flags_cp\<close> differ in the byte that bits 5 and 3 come from.\<close>

definition flags_subtract :: "u8 \<Rightarrow> u8 \<Rightarrow> u8 \<Rightarrow> u8 \<Rightarrow> u8" where
  "flags_subtract xy a b res =
     (let f = Z80_FLAG_N OR xy_from xy;
          f = set_if (res = 0) Z80_FLAG_Z f;
          f = set_if (res AND 0x80 \<noteq> 0) Z80_FLAG_S f;
          f = set_if (unat (a AND 0xF) < unat (b AND 0xF)) Z80_FLAG_H f;
          f = set_if (unat a < unat b) Z80_FLAG_C f
      in set_if ((a XOR b) AND 0x80 \<noteq> 0 \<and> (res XOR a) AND 0x80 \<noteq> 0) Z80_FLAG_PV f)"

definition set_flags_sub :: "'h z80_cpu \<Rightarrow> u8 \<Rightarrow> u8 \<Rightarrow> u8 \<Rightarrow> 'h z80_cpu" where
  "set_flags_sub cpu a b res = cpu\<lparr>reg_f := flags_subtract res a b res, reg_q := 1\<rparr>"

definition set_flags_cp :: "'h z80_cpu \<Rightarrow> u8 \<Rightarrow> u8 \<Rightarrow> u8 \<Rightarrow> 'h z80_cpu" where
  "set_flags_cp cpu a b res = cpu\<lparr>reg_f := flags_subtract b a b res, reg_q := 1\<rparr>"

definition flags_logic :: "u8 \<Rightarrow> u8" where
  "flags_logic res =
     (let f = xy_from res;
          f = set_if (res = 0) Z80_FLAG_Z f;
          f = set_if (res AND 0x80 \<noteq> 0) Z80_FLAG_S f
      in f OR parity8 res)"

definition set_flags_logic :: "'h z80_cpu \<Rightarrow> u8 \<Rightarrow> 'h z80_cpu" where
  "set_flags_logic cpu res = cpu\<lparr>reg_f := flags_logic res, reg_q := 1\<rparr>"

definition cond_true :: "'h z80_cpu \<Rightarrow> u8 \<Rightarrow> bool" where
  "cond_true cpu cc =
     (if cc = 0 then reg_f cpu AND Z80_FLAG_Z = 0 else if cc = 1 then reg_f cpu AND Z80_FLAG_Z \<noteq> 0
      else if cc = 2 then reg_f cpu AND Z80_FLAG_C = 0 else if cc = 3 then reg_f cpu AND Z80_FLAG_C \<noteq> 0
      else if cc = 4 then reg_f cpu AND Z80_FLAG_PV = 0 else if cc = 5 then reg_f cpu AND Z80_FLAG_PV \<noteq> 0
      else if cc = 6 then reg_f cpu AND Z80_FLAG_S = 0 else if cc = 7 then reg_f cpu AND Z80_FLAG_S \<noteq> 0
      else False)"

section \<open>Port I/O\<close>

definition io_in :: "'h z80_env \<Rightarrow> 'h z80_cpu \<Rightarrow> u8 \<Rightarrow> u8 \<Rightarrow> u8 \<times> 'h z80_cpu" where
  "io_in env cpu port high = (case port_in env of Some h \<Rightarrow> h cpu port high | None \<Rightarrow> (0xFF, cpu))"

definition io_out :: "'h z80_env \<Rightarrow> 'h z80_cpu \<Rightarrow> u8 \<Rightarrow> u8 \<Rightarrow> u8 \<Rightarrow> 'h z80_cpu" where
  "io_out env cpu port high val = (case port_out env of Some h \<Rightarrow> h cpu port high val | None \<Rightarrow> cpu)"

definition io_read_r8 :: "'h z80_cpu \<Rightarrow> u8 \<Rightarrow> u8" where
  "io_read_r8 cpu r =
     (if r = 0 then reg_b cpu else if r = 1 then reg_c cpu else if r = 2 then reg_d cpu
      else if r = 3 then reg_e cpu else if r = 4 then reg_h cpu else if r = 5 then reg_l cpu
      else reg_a cpu)"

definition io_write_r8 :: "'h z80_cpu \<Rightarrow> u8 \<Rightarrow> u8 \<Rightarrow> 'h z80_cpu" where
  "io_write_r8 cpu r v =
     (if r = 0 then cpu\<lparr>reg_b := v\<rparr> else if r = 1 then cpu\<lparr>reg_c := v\<rparr> else if r = 2 then cpu\<lparr>reg_d := v\<rparr>
      else if r = 3 then cpu\<lparr>reg_e := v\<rparr> else if r = 4 then cpu\<lparr>reg_h := v\<rparr> else if r = 5 then cpu\<lparr>reg_l := v\<rparr>
      else cpu\<lparr>reg_a := v\<rparr>)"

text \<open>One pass of the \<open>do\<close> body of \<open>io_block\<close>, for the input and the output forms; the
  transferred byte \<open>v\<close> and the sum \<open>k\<close> are what the flags are computed from.\<close>

definition io_block_in :: "'h z80_env \<Rightarrow> bool \<Rightarrow> 'h z80_cpu \<Rightarrow> 'h z80_cpu \<times> u8 \<times> nat" where
  "io_block_in env down cpu =
     (let (v, cpu) = io_in env cpu (reg_c cpu) (reg_b cpu);
          cpu = cpu\<lparr>memptr := reg_bc cpu + (if down then -1 else 1)\<rparr>;
          cpu = z80_mem_w cpu (reg_hl cpu) v;
          cpu = cpu\<lparr>reg_b := reg_b cpu - 1\<rparr>;
          cpu = set_hl (reg_hl cpu + (if down then -1 else 1)) cpu
      in (cpu, v, unat v + unat (reg_c cpu + (if down then -1 else 1))))"

definition io_block_out :: "'h z80_env \<Rightarrow> bool \<Rightarrow> 'h z80_cpu \<Rightarrow> 'h z80_cpu \<times> u8 \<times> nat" where
  "io_block_out env down cpu =
     (let v = cmem cpu (reg_hl cpu);
          cpu = cpu\<lparr>reg_b := reg_b cpu - 1\<rparr>;
          cpu = io_out env cpu (reg_c cpu) (reg_b cpu) v;
          cpu = set_hl (reg_hl cpu + (if down then -1 else 1)) cpu;
          cpu = cpu\<lparr>memptr := reg_bc cpu + (if down then -1 else 1)\<rparr>
      in (cpu, v, unat v + unat (reg_l cpu)))"

text \<open>The \<open>do ... while (rep && cpu->b != 0)\<close> loop.  The port hooks get the CPU and could change B,
  so the number of passes is bounded by the first argument; 256 passes reach \<open>B = 0\<close>
  when the hooks leave B alone.\<close>

fun io_block_loop ::
    "nat \<Rightarrow> ('h z80_cpu \<Rightarrow> 'h z80_cpu \<times> u8 \<times> nat) \<Rightarrow> bool \<Rightarrow> 'h z80_cpu \<Rightarrow> 'h z80_cpu \<times> u8 \<times> nat" where
  "io_block_loop 0 pass rep cpu = (cpu, 0, 0)"
| "io_block_loop (Suc n) pass rep cpu =
     (let (cpu, v, k) = pass cpu
      in if rep \<and> reg_b cpu \<noteq> 0 \<and> n \<noteq> 0 then io_block_loop n pass rep cpu else (cpu, v, k))"

definition io_block :: "'h z80_env \<Rightarrow> 'h z80_cpu \<Rightarrow> z80_op_type \<Rightarrow> 'h z80_cpu" where
  "io_block env cpu type =
     (let inp = (type \<in> {Z80_OP_INI, Z80_OP_IND, Z80_OP_INIR, Z80_OP_INDR});
          down = (type \<in> {Z80_OP_IND, Z80_OP_INDR, Z80_OP_OUTD, Z80_OP_OTDR});
          rep = (type \<in> {Z80_OP_INIR, Z80_OP_INDR, Z80_OP_OTIR, Z80_OP_OTDR});
          (cpu, v, k) = io_block_loop 256 (if inp then io_block_in env down else io_block_out env down) rep cpu;
          f = xy_from (reg_b cpu);
          f = set_if (reg_b cpu = 0) Z80_FLAG_Z f;
          f = set_if (reg_b cpu AND 0x80 \<noteq> 0) Z80_FLAG_S f;
          f = set_if (v AND 0x80 \<noteq> 0) Z80_FLAG_N f;
          f = set_if (k > 255) (Z80_FLAG_H OR Z80_FLAG_C) f;
          f = f OR parity8 ((of_nat k AND 7) XOR reg_b cpu)
      in cpu\<lparr>reg_f := f, reg_q := 1\<rparr>)"

section \<open>8-bit arithmetic and logic\<close>

text \<open>The body of the \<open>INC\<close> cases on a byte, register or memory, and of the \<open>DEC\<close> cases.\<close>

definition flags_inc :: "u8 \<Rightarrow> u8 \<Rightarrow> u8" where
  "flags_inc f v =
     (let f = (f AND Z80_FLAG_C) OR xy_from v;
          f = set_if (v = 0) Z80_FLAG_Z f;
          f = set_if (v AND 0x80 \<noteq> 0) Z80_FLAG_S f;
          f = set_if (v AND 0xF = 0) Z80_FLAG_H f
      in set_if (v = 0x80) Z80_FLAG_PV f)"

definition flags_dec :: "u8 \<Rightarrow> u8 \<Rightarrow> u8" where
  "flags_dec f v =
     (let f = (f AND Z80_FLAG_C) OR Z80_FLAG_N OR xy_from v;
          f = set_if (v = 0) Z80_FLAG_Z f;
          f = set_if (v AND 0x80 \<noteq> 0) Z80_FLAG_S f;
          f = set_if (v AND 0xF = 0xF) Z80_FLAG_H f
      in set_if (v = 0x7F) Z80_FLAG_PV f)"

definition op_inc_mem :: "'h z80_cpu \<Rightarrow> z80_decoded \<Rightarrow> 'h z80_cpu" where
  "op_inc_mem cpu dec =
     (let a = effective_addr cpu dec (reg_hl cpu);
          v = cmem cpu a + 1;
          cpu = z80_mem_w cpu a v
      in cpu\<lparr>reg_f := flags_inc (reg_f cpu) v, reg_q := 1\<rparr>)"

definition op_dec_mem :: "'h z80_cpu \<Rightarrow> z80_decoded \<Rightarrow> 'h z80_cpu" where
  "op_dec_mem cpu dec =
     (let a = effective_addr cpu dec (reg_hl cpu);
          v = cmem cpu a - 1;
          cpu = z80_mem_w cpu a v
      in cpu\<lparr>reg_f := flags_dec (reg_f cpu) v, reg_q := 1\<rparr>)"

definition op_inc_r :: "'h z80_cpu \<Rightarrow> z80_decoded \<Rightarrow> 'h z80_cpu" where
  "op_inc_r cpu dec =
     (if reg1 dec = 6 then op_inc_mem cpu dec
      else case reg8_ptr_p cpu (reg1 dec) (dprefix dec) of
        None \<Rightarrow> cpu
      | Some p \<Rightarrow> (let v = p + 1;
                      cpu = reg8_put_p cpu (reg1 dec) (dprefix dec) v
                  in cpu\<lparr>reg_f := flags_inc (reg_f cpu) v, reg_q := 1\<rparr>))"

definition op_dec_r :: "'h z80_cpu \<Rightarrow> z80_decoded \<Rightarrow> 'h z80_cpu" where
  "op_dec_r cpu dec =
     (if reg1 dec = 6 then op_dec_mem cpu dec
      else case reg8_ptr_p cpu (reg1 dec) (dprefix dec) of
        None \<Rightarrow> cpu
      | Some p \<Rightarrow> (let v = p - 1;
                      cpu = reg8_put_p cpu (reg1 dec) (dprefix dec) v
                  in cpu\<lparr>reg_f := flags_dec (reg_f cpu) v, reg_q := 1\<rparr>))"

definition alu_add :: "'h z80_cpu \<Rightarrow> u8 \<Rightarrow> 'h z80_cpu" where
  "alu_add cpu b = (let res = reg_a cpu + b in (set_flags_add cpu (reg_a cpu) b res)\<lparr>reg_a := res\<rparr>)"

definition alu_sub :: "'h z80_cpu \<Rightarrow> u8 \<Rightarrow> 'h z80_cpu" where
  "alu_sub cpu b = (let res = reg_a cpu - b in (set_flags_sub cpu (reg_a cpu) b res)\<lparr>reg_a := res\<rparr>)"

definition alu_cp :: "'h z80_cpu \<Rightarrow> u8 \<Rightarrow> 'h z80_cpu" where
  "alu_cp cpu b = (let res = reg_a cpu - b in set_flags_cp cpu (reg_a cpu) b res)"

definition alu_adc :: "'h z80_cpu \<Rightarrow> u8 \<Rightarrow> 'h z80_cpu" where
  "alu_adc cpu b =
     (let cin = (if reg_f cpu AND Z80_FLAG_C \<noteq> 0 then 1 else 0 :: nat);
          wide = unat (reg_a cpu) + unat b + cin;
          res = of_nat wide;
          f = xy_from res;
          f = set_if (res = 0) Z80_FLAG_Z f;
          f = set_if (res AND 0x80 \<noteq> 0) Z80_FLAG_S f;
          f = set_if (unat (reg_a cpu AND 0xF) + unat (b AND 0xF) + cin > 0xF) Z80_FLAG_H f;
          f = set_if (wide > 0xFF) Z80_FLAG_C f;
          f = set_if ((reg_a cpu XOR b) AND 0x80 = 0 \<and> (res XOR reg_a cpu) AND 0x80 \<noteq> 0) Z80_FLAG_PV f
      in cpu\<lparr>reg_f := f, reg_q := 1, reg_a := res\<rparr>)"

definition alu_sbc :: "'h z80_cpu \<Rightarrow> u8 \<Rightarrow> 'h z80_cpu" where
  "alu_sbc cpu b =
     (let cin = (if reg_f cpu AND Z80_FLAG_C \<noteq> 0 then 1 else 0 :: int);
          wide = uint (reg_a cpu) - uint b - cin;
          res = word_of_int wide;
          f = Z80_FLAG_N OR xy_from res;
          f = set_if (res = 0) Z80_FLAG_Z f;
          f = set_if (res AND 0x80 \<noteq> 0) Z80_FLAG_S f;
          f = set_if ((uint (reg_a cpu AND 0xF) - uint (b AND 0xF) - cin) AND 0x10 \<noteq> 0) Z80_FLAG_H f;
          f = set_if (wide < 0) Z80_FLAG_C f;
          f = set_if ((reg_a cpu XOR b) AND 0x80 \<noteq> 0 \<and> (res XOR reg_a cpu) AND 0x80 \<noteq> 0) Z80_FLAG_PV f
      in cpu\<lparr>reg_f := f, reg_q := 1, reg_a := res\<rparr>)"

text \<open>\<open>cpu->f &= ~FLAG_N; &= ~FLAG_C; |= FLAG_H\<close> after AND, \<open>&= ~FLAG_H\<close> after OR and XOR.\<close>

definition alu_and :: "'h z80_cpu \<Rightarrow> u8 \<Rightarrow> 'h z80_cpu" where
  "alu_and cpu b =
     (let a = reg_a cpu AND b;
          cpu = set_flags_logic (cpu\<lparr>reg_a := a\<rparr>) a
      in cpu\<lparr>reg_f := reg_f cpu AND NOT Z80_FLAG_N AND NOT Z80_FLAG_C OR Z80_FLAG_H\<rparr>)"

definition alu_or :: "'h z80_cpu \<Rightarrow> u8 \<Rightarrow> 'h z80_cpu" where
  "alu_or cpu b =
     (let a = reg_a cpu OR b;
          cpu = set_flags_logic (cpu\<lparr>reg_a := a\<rparr>) a
      in cpu\<lparr>reg_f := reg_f cpu AND NOT Z80_FLAG_N AND NOT Z80_FLAG_C AND NOT Z80_FLAG_H\<rparr>)"

definition alu_xor :: "'h z80_cpu \<Rightarrow> u8 \<Rightarrow> 'h z80_cpu" where
  "alu_xor cpu b =
     (let a = reg_a cpu XOR b;
          cpu = set_flags_logic (cpu\<lparr>reg_a := a\<rparr>) a
      in cpu\<lparr>reg_f := reg_f cpu AND NOT Z80_FLAG_N AND NOT Z80_FLAG_C AND NOT Z80_FLAG_H\<rparr>)"

definition op_neg :: "'h z80_cpu \<Rightarrow> 'h z80_cpu" where
  "op_neg cpu =
     (let a = reg_a cpu; res = 0 - a in (set_flags_sub cpu 0 a res)\<lparr>reg_a := res\<rparr>)"

definition op_cpl :: "'h z80_cpu \<Rightarrow> 'h z80_cpu" where
  "op_cpl cpu =
     (let a = NOT (reg_a cpu)
      in cpu\<lparr>reg_a := a,
            reg_f := (reg_f cpu AND NOT (Z80_FLAG_5 OR Z80_FLAG_3)) OR Z80_FLAG_H OR Z80_FLAG_N OR xy_from a,
            reg_q := 1\<rparr>)"

definition op_scf :: "'h z80_cpu \<Rightarrow> u8 \<Rightarrow> 'h z80_cpu" where
  "op_scf cpu prev_q =
     (let xy_src = (if prev_q \<noteq> 0 then reg_a cpu else reg_a cpu OR reg_f cpu)
      in cpu\<lparr>reg_f := (reg_f cpu AND (Z80_FLAG_S OR Z80_FLAG_Z OR Z80_FLAG_PV)) OR Z80_FLAG_C OR xy_from xy_src,
            reg_q := 1\<rparr>)"

definition op_ccf :: "'h z80_cpu \<Rightarrow> u8 \<Rightarrow> 'h z80_cpu" where
  "op_ccf cpu prev_q =
     (let old_c = reg_f cpu AND Z80_FLAG_C;
          xy_src = (if prev_q \<noteq> 0 then reg_a cpu else reg_a cpu OR reg_f cpu)
      in cpu\<lparr>reg_f := (reg_f cpu AND (Z80_FLAG_S OR Z80_FLAG_Z OR Z80_FLAG_PV))
                OR (if old_c \<noteq> 0 then Z80_FLAG_H else 0) OR (if old_c \<noteq> 0 then 0 else Z80_FLAG_C)
                OR xy_from xy_src,
            reg_q := 1\<rparr>)"

definition op_daa :: "'h z80_cpu \<Rightarrow> 'h z80_cpu" where
  "op_daa cpu =
     (let a = reg_a cpu;
          fcin = reg_f cpu AND Z80_FLAG_C;
          fhin = reg_f cpu AND Z80_FLAG_H;
          fnin = reg_f cpu AND Z80_FLAG_N;
          corr = (if a AND 0x0F > 9 \<or> fhin \<noteq> 0 then 0x06 else 0);
          high = (a > 0x99 \<or> fcin \<noteq> 0);
          corr = (if high then corr OR 0x60 else corr);
          new_c = (if high then Z80_FLAG_C else 0);
          new_a = (if fnin \<noteq> 0 then a - corr else a + corr);
          new_h = (if fnin \<noteq> 0 then (if fhin \<noteq> 0 \<and> a AND 0x0F < 6 then Z80_FLAG_H else 0)
                   else (if a AND 0x0F > 9 then Z80_FLAG_H else 0));
          f = fnin OR new_c OR new_h OR xy_from new_a;
          f = set_if (new_a = 0) Z80_FLAG_Z f;
          f = set_if (new_a AND 0x80 \<noteq> 0) Z80_FLAG_S f;
          f = f OR parity8 new_a
      in cpu\<lparr>reg_a := new_a, reg_f := f, reg_q := 1\<rparr>)"

section \<open>Accumulator rotates\<close>

text \<open>The common tail of RLCA, RRCA, RLA and RRA: F keeps S, Z and PV.  (The cases do not set
  \<open>cpu->q\<close>.)\<close>

definition rot_a_flags :: "'h z80_cpu \<Rightarrow> u8 \<Rightarrow> bool \<Rightarrow> 'h z80_cpu" where
  "rot_a_flags cpu a c =
     cpu\<lparr>reg_a := a,
         reg_f := (reg_f cpu AND (Z80_FLAG_S OR Z80_FLAG_Z OR Z80_FLAG_PV)) OR
           (if c then Z80_FLAG_C else 0) OR (a AND (Z80_FLAG_3 OR Z80_FLAG_5))\<rparr>"

definition op_rlca :: "'h z80_cpu \<Rightarrow> 'h z80_cpu" where
  "op_rlca cpu =
     (let c = (if reg_a cpu AND 0x80 \<noteq> 0 then 1 else 0);
          a = push_bit 1 (reg_a cpu) OR c
      in rot_a_flags cpu a (c \<noteq> 0))"

definition op_rrca :: "'h z80_cpu \<Rightarrow> 'h z80_cpu" where
  "op_rrca cpu =
     (let c = reg_a cpu AND 1;
          a = drop_bit 1 (reg_a cpu) OR push_bit 7 c
      in rot_a_flags cpu a (c \<noteq> 0))"

definition op_rla :: "'h z80_cpu \<Rightarrow> 'h z80_cpu" where
  "op_rla cpu =
     (let c = (reg_a cpu AND 0x80 \<noteq> 0);
          a = push_bit 1 (reg_a cpu) OR (if reg_f cpu AND Z80_FLAG_C \<noteq> 0 then 1 else 0)
      in rot_a_flags cpu a c)"

definition op_rra :: "'h z80_cpu \<Rightarrow> 'h z80_cpu" where
  "op_rra cpu =
     (let c = (reg_a cpu AND 1 \<noteq> 0);
          a = drop_bit 1 (reg_a cpu) OR (if reg_f cpu AND Z80_FLAG_C \<noteq> 0 then 0x80 else 0)
      in rot_a_flags cpu a c)"

section \<open>Loads and exchanges\<close>

text \<open>\<open>mem[sp] | mem[(sp+1) & 0xFFFF] << 8\<close> and the 16-bit store, low byte first.\<close>

definition read16 :: "'h z80_cpu \<Rightarrow> u16 \<Rightarrow> u16" where
  "read16 cpu a = mk16 (cmem cpu (a + 1)) (cmem cpu a)"

definition write16 :: "'h z80_cpu \<Rightarrow> u16 \<Rightarrow> u16 \<Rightarrow> 'h z80_cpu" where
  "write16 cpu a v = z80_mem_w (z80_mem_w cpu a (lo8 v)) (a + 1) (hi8 v)"

text \<open>The register that the DD/FD prefix puts in the place of HL.\<close>

definition get_xhl :: "'h z80_cpu \<Rightarrow> z80_decoded \<Rightarrow> u16" where
  "get_xhl cpu dec = (if dprefix dec = 0xDD then reg_ix cpu else if dprefix dec = 0xFD then reg_iy cpu else reg_hl cpu)"

definition put_xhl :: "'h z80_cpu \<Rightarrow> z80_decoded \<Rightarrow> u16 \<Rightarrow> 'h z80_cpu" where
  "put_xhl cpu dec v =
     (if dprefix dec = 0xDD then cpu\<lparr>reg_ix := v\<rparr> else if dprefix dec = 0xFD then cpu\<lparr>reg_iy := v\<rparr>
      else set_hl v cpu)"

definition op_ld_rr_nn :: "'h z80_cpu \<Rightarrow> z80_decoded \<Rightarrow> 'h z80_cpu" where
  "op_ld_rr_nn cpu dec =
     (if reg1 dec = 3 then cpu\<lparr>reg_sp := imm16 dec\<rparr>
      else if reg1 dec = 2 \<and> dprefix dec = 0xDD then cpu\<lparr>reg_ix := imm16 dec\<rparr>
      else if reg1 dec = 2 \<and> dprefix dec = 0xFD then cpu\<lparr>reg_iy := imm16 dec\<rparr>
      else write_rr cpu (reg1 dec) (imm16 dec))"

text \<open>\<open>LD (nn),A\<close>, \<open>LD (BC),A\<close>, \<open>LD (DE),A\<close> and \<open>LD A,(nn)\<close>, \<open>LD A,(BC)\<close>, \<open>LD A,(DE)\<close>.\<close>

definition op_store_a :: "'h z80_cpu \<Rightarrow> u16 \<Rightarrow> 'h z80_cpu" where
  "op_store_a cpu addr = (z80_mem_w cpu addr (reg_a cpu))\<lparr>memptr := mk16 (reg_a cpu) (lo8 (addr + 1))\<rparr>"

definition op_load_a :: "'h z80_cpu \<Rightarrow> u16 \<Rightarrow> 'h z80_cpu" where
  "op_load_a cpu addr = cpu\<lparr>reg_a := cmem cpu addr, memptr := addr + 1\<rparr>"

definition op_ld_nn_rr :: "'h z80_cpu \<Rightarrow> z80_decoded \<Rightarrow> 'h z80_cpu" where
  "op_ld_nn_rr cpu dec =
     (let v = (if reg1 dec = 3 then reg_sp cpu else read_rr cpu (reg1 dec))
      in (write16 cpu (imm16 dec) v)\<lparr>memptr := imm16 dec + 1\<rparr>)"

definition op_ld_rr_nn_ind :: "'h z80_cpu \<Rightarrow> z80_decoded \<Rightarrow> 'h z80_cpu" where
  "op_ld_rr_nn_ind cpu dec =
     (let v = read16 cpu (imm16 dec);
          cpu = (if reg1 dec = 3 then cpu\<lparr>reg_sp := v\<rparr> else write_rr cpu (reg1 dec) v)
      in cpu\<lparr>memptr := imm16 dec + 1\<rparr>)"

definition op_ld_nn_hl :: "'h z80_cpu \<Rightarrow> z80_decoded \<Rightarrow> 'h z80_cpu" where
  "op_ld_nn_hl cpu dec = (write16 cpu (imm16 dec) (get_xhl cpu dec))\<lparr>memptr := imm16 dec + 1\<rparr>"

definition op_ld_hl_ind_nn :: "'h z80_cpu \<Rightarrow> z80_decoded \<Rightarrow> 'h z80_cpu" where
  "op_ld_hl_ind_nn cpu dec = (put_xhl cpu dec (read16 cpu (imm16 dec)))\<lparr>memptr := imm16 dec + 1\<rparr>"

definition push16 :: "'h z80_cpu \<Rightarrow> u16 \<Rightarrow> 'h z80_cpu" where
  "push16 cpu v = (let cpu = cpu\<lparr>reg_sp := reg_sp cpu - 2\<rparr> in write16 cpu (reg_sp cpu) v)"

definition pop_pc :: "'h z80_cpu \<Rightarrow> 'h z80_cpu" where
  "pop_pc cpu = cpu\<lparr>reg_pc := read16 cpu (reg_sp cpu), reg_sp := reg_sp cpu + 2\<rparr>"

definition op_push_rr :: "'h z80_cpu \<Rightarrow> z80_decoded \<Rightarrow> 'h z80_cpu" where
  "op_push_rr cpu dec =
     (let v = (if reg1 dec = 4 then (if dprefix dec = 0xFD then reg_iy cpu else reg_ix cpu)
               else if reg1 dec = 3 then reg_af cpu else read_rr cpu (reg1 dec))
      in push16 cpu v)"

definition op_pop_rr :: "'h z80_cpu \<Rightarrow> z80_decoded \<Rightarrow> 'h z80_cpu" where
  "op_pop_rr cpu dec =
     (let v = read16 cpu (reg_sp cpu);
          cpu = cpu\<lparr>reg_sp := reg_sp cpu + 2\<rparr>
      in if reg1 dec = 4 then (if dprefix dec = 0xFD then cpu\<lparr>reg_iy := v\<rparr> else cpu\<lparr>reg_ix := v\<rparr>)
         else if reg1 dec = 3 then set_af v cpu else write_rr cpu (reg1 dec) v)"

definition op_ex_de_hl :: "'h z80_cpu \<Rightarrow> 'h z80_cpu" where
  "op_ex_de_hl cpu = (let t = reg_de cpu; cpu = set_de (reg_hl cpu) cpu in set_hl t cpu)"

definition op_ex_af_af :: "'h z80_cpu \<Rightarrow> 'h z80_cpu" where
  "op_ex_af_af cpu = cpu\<lparr>reg_a := alt_a cpu, reg_f := alt_f cpu, alt_a := reg_a cpu, alt_f := reg_f cpu\<rparr>"

definition op_exx :: "'h z80_cpu \<Rightarrow> 'h z80_cpu" where
  "op_exx cpu =
     cpu\<lparr>reg_b := alt_b cpu, reg_c := alt_c cpu, alt_b := reg_b cpu, alt_c := reg_c cpu,
         reg_d := alt_d cpu, reg_e := alt_e cpu, alt_d := reg_d cpu, alt_e := reg_e cpu,
         reg_h := alt_h cpu, reg_l := alt_l cpu, alt_h := reg_h cpu, alt_l := reg_l cpu\<rparr>"

definition op_ex_sp_hl :: "'h z80_cpu \<Rightarrow> z80_decoded \<Rightarrow> 'h z80_cpu" where
  "op_ex_sp_hl cpu dec =
     (let lo = cmem cpu (reg_sp cpu);
          hi = cmem cpu (reg_sp cpu + 1);
          cpu = write16 cpu (reg_sp cpu) (get_xhl cpu dec);
          cpu = put_xhl cpu dec (mk16 hi lo)
      in cpu\<lparr>memptr := get_xhl cpu dec\<rparr>)"

definition op_ld_sp_hl :: "'h z80_cpu \<Rightarrow> z80_decoded \<Rightarrow> 'h z80_cpu" where
  "op_ld_sp_hl cpu dec = cpu\<lparr>reg_sp := get_xhl cpu dec\<rparr>"

section \<open>16-bit arithmetic\<close>

definition op_inc_rr :: "'h z80_cpu \<Rightarrow> z80_decoded \<Rightarrow> 'h z80_cpu" where
  "op_inc_rr cpu dec =
     (if reg1 dec = 3 then cpu\<lparr>reg_sp := reg_sp cpu + 1\<rparr>
      else if reg1 dec = 2 \<and> dprefix dec = 0xDD then cpu\<lparr>reg_ix := reg_ix cpu + 1\<rparr>
      else if reg1 dec = 2 \<and> dprefix dec = 0xFD then cpu\<lparr>reg_iy := reg_iy cpu + 1\<rparr>
      else write_rr cpu (reg1 dec) (read_rr cpu (reg1 dec) + 1))"

definition op_dec_rr :: "'h z80_cpu \<Rightarrow> z80_decoded \<Rightarrow> 'h z80_cpu" where
  "op_dec_rr cpu dec =
     (if reg1 dec = 3 then cpu\<lparr>reg_sp := reg_sp cpu - 1\<rparr>
      else if reg1 dec = 2 \<and> dprefix dec = 0xDD then cpu\<lparr>reg_ix := reg_ix cpu - 1\<rparr>
      else if reg1 dec = 2 \<and> dprefix dec = 0xFD then cpu\<lparr>reg_iy := reg_iy cpu - 1\<rparr>
      else write_rr cpu (reg1 dec) (read_rr cpu (reg1 dec) - 1))"

definition op_add_hl_rr :: "'h z80_cpu \<Rightarrow> z80_decoded \<Rightarrow> 'h z80_cpu" where
  "op_add_hl_rr cpu dec =
     (let dst = get_xhl cpu dec;
          src = (if reg1 dec = 3 then reg_sp cpu else if reg1 dec = 2 then dst else read_rr cpu (reg1 dec));
          res = (ucast dst + ucast src :: u32);
          r16 = (ucast res :: u16);
          f = reg_f cpu AND (Z80_FLAG_S OR Z80_FLAG_Z OR Z80_FLAG_PV);
          f = set_if (res AND 0x10000 \<noteq> 0) Z80_FLAG_C f;
          f = set_if ((ucast (dst AND 0x0FFF) + ucast (src AND 0x0FFF) :: u32) AND 0x1000 \<noteq> 0) Z80_FLAG_H f;
          f = f AND NOT Z80_FLAG_N;
          f = f AND NOT (Z80_FLAG_5 OR Z80_FLAG_3);
          f = f OR xy_from (hi8 r16);
          cpu = cpu\<lparr>memptr := dst + 1, reg_f := f, reg_q := 1\<rparr>
      in put_xhl cpu dec r16)"

definition op_adc_hl_rr :: "'h z80_cpu \<Rightarrow> z80_decoded \<Rightarrow> 'h z80_cpu" where
  "op_adc_hl_rr cpu dec =
     (let a = reg_hl cpu;
          b = (if reg1 dec = 3 then reg_sp cpu else read_rr cpu (reg1 dec));
          cin = (if reg_f cpu AND Z80_FLAG_C \<noteq> 0 then 1 else 0 :: u32);
          res = ucast a + ucast b + cin;
          r = (ucast res :: u16);
          f = xy_from (hi8 r);
          f = set_if (r = 0) Z80_FLAG_Z f;
          f = set_if (r AND 0x8000 \<noteq> 0) Z80_FLAG_S f;
          f = set_if ((ucast (a AND 0x0FFF) + ucast (b AND 0x0FFF) + cin) AND 0x1000 \<noteq> 0) Z80_FLAG_H f;
          f = set_if (res AND 0x10000 \<noteq> 0) Z80_FLAG_C f;
          f = set_if ((a XOR b) AND 0x8000 = 0 \<and> (r XOR a) AND 0x8000 \<noteq> 0) Z80_FLAG_PV f
      in set_hl r (cpu\<lparr>memptr := a + 1, reg_f := f, reg_q := 1\<rparr>))"

definition op_sbc_hl_rr :: "'h z80_cpu \<Rightarrow> z80_decoded \<Rightarrow> 'h z80_cpu" where
  "op_sbc_hl_rr cpu dec =
     (let a = reg_hl cpu;
          b = (if reg1 dec = 3 then reg_sp cpu else read_rr cpu (reg1 dec));
          cin = (if reg_f cpu AND Z80_FLAG_C \<noteq> 0 then 1 else 0 :: u32);
          res = ucast a - ucast b - cin;
          r = (ucast res :: u16);
          f = Z80_FLAG_N OR xy_from (hi8 r);
          f = set_if (r = 0) Z80_FLAG_Z f;
          f = set_if (r AND 0x8000 \<noteq> 0) Z80_FLAG_S f;
          f = set_if ((ucast (a AND 0x0FFF) - ucast (b AND 0x0FFF) - cin) AND 0x1000 \<noteq> 0) Z80_FLAG_H f;
          f = set_if (res AND 0x10000 \<noteq> 0) Z80_FLAG_C f;
          f = set_if ((a XOR b) AND 0x8000 \<noteq> 0 \<and> (r XOR a) AND 0x8000 \<noteq> 0) Z80_FLAG_PV f
      in set_hl r (cpu\<lparr>memptr := a + 1, reg_f := f, reg_q := 1\<rparr>))"

section \<open>Block transfers and compares\<close>

definition ldi_step :: "u16 \<Rightarrow> 'h z80_cpu \<Rightarrow> u8 \<Rightarrow> 'h z80_cpu" where
  "ldi_step incr cpu v =
     (let cpu = z80_mem_w cpu (reg_de cpu) v;
          cpu = set_hl (reg_hl cpu + incr) cpu;
          cpu = set_de (reg_de cpu + incr) cpu
      in set_bc (reg_bc cpu - 1) cpu)"

lemma ldi_step_bc [simp]: "reg_bc (ldi_step incr cpu v) = reg_bc cpu - 1"
  by (simp add: ldi_step_def Let_def)

text \<open>\<open>while (cpu->bc != 0) { ... }\<close>: BC falls by one in each pass.\<close>

function ldir_loop :: "u16 \<Rightarrow> 'h z80_cpu \<Rightarrow> u8 \<Rightarrow> 'h z80_cpu \<times> u8" where
  "ldir_loop incr cpu last_byte =
     (if reg_bc cpu = 0 then (cpu, last_byte)
      else let last_byte = cmem cpu (reg_hl cpu) in ldir_loop incr (ldi_step incr cpu last_byte) last_byte)"
  by auto
termination
proof (relation "measure (\<lambda>(incr, cpu, last_byte). unat (reg_bc cpu))")
  fix incr :: u16 and cpu :: "'h z80_cpu" and last_byte x :: u8
  assume "reg_bc cpu \<noteq> 0"
  then have "unat (reg_bc cpu - 1) < unat (reg_bc cpu)"
    by (simp add: unat_sub word_le_nat_alt unat_gt_0 Suc_le_eq)
  then show "((incr, ldi_step incr cpu x, x), incr, cpu, last_byte)
      \<in> measure (\<lambda>(incr, cpu, last_byte). unat (reg_bc cpu))" by simp
qed simp

declare ldir_loop.simps [simp del]

definition op_ldir :: "u16 \<Rightarrow> 'h z80_cpu \<Rightarrow> 'h z80_cpu" where
  "op_ldir incr cpu =
     (let (cpu, last_byte) = ldir_loop incr cpu 0;
          n = reg_a cpu + last_byte;
          f = reg_f cpu AND (Z80_FLAG_S OR Z80_FLAG_Z OR Z80_FLAG_C);
          f = f OR (n AND Z80_FLAG_3);
          f = set_if (n AND 0x02 \<noteq> 0) Z80_FLAG_5 f
      in cpu\<lparr>reg_f := f, reg_q := 1\<rparr>)"

definition op_ldi :: "u16 \<Rightarrow> 'h z80_cpu \<Rightarrow> 'h z80_cpu" where
  "op_ldi incr cpu =
     (let v = cmem cpu (reg_hl cpu);
          cpu = ldi_step incr cpu v;
          n = reg_a cpu + v;
          f = reg_f cpu AND (Z80_FLAG_S OR Z80_FLAG_Z OR Z80_FLAG_C);
          f = set_if (reg_bc cpu \<noteq> 0) Z80_FLAG_PV f;
          f = f OR (n AND Z80_FLAG_3);
          f = set_if (n AND 0x02 \<noteq> 0) Z80_FLAG_5 f
      in cpu\<lparr>reg_f := f, reg_q := 1\<rparr>)"

definition op_cpi :: "u16 \<Rightarrow> bool \<Rightarrow> u16 \<Rightarrow> 'h z80_cpu \<Rightarrow> 'h z80_cpu" where
  "op_cpi incr rep old_pc cpu =
     (let v = cmem cpu (reg_hl cpu);
          res = reg_a cpu - v;
          f = (reg_f cpu AND Z80_FLAG_C) OR Z80_FLAG_N;
          f = set_if (res = 0) Z80_FLAG_Z f;
          f = set_if (res AND 0x80 \<noteq> 0) Z80_FLAG_S f;
          h = (if unat (reg_a cpu AND 0xF) < unat (v AND 0xF) then Z80_FLAG_H else 0);
          f = f OR h;
          n = res - (if h \<noteq> 0 then 1 else 0);
          f = f OR (n AND Z80_FLAG_3);
          f = set_if (n AND 0x02 \<noteq> 0) Z80_FLAG_5 f;
          cpu = set_hl (reg_hl cpu + incr) cpu;
          cpu = set_bc (reg_bc cpu - 1) cpu;
          f = set_if (reg_bc cpu \<noteq> 0) Z80_FLAG_PV f;
          cpu = cpu\<lparr>reg_f := f, reg_q := 1\<rparr>
      in if rep \<and> reg_bc cpu \<noteq> 0 \<and> res \<noteq> 0 then cpu\<lparr>reg_pc := old_pc\<rparr> else cpu)"

text \<open>RRD (\<open>right\<close>) and RLD: the nibbles of A and (HL).\<close>

definition op_rrd_rld :: "bool \<Rightarrow> 'h z80_cpu \<Rightarrow> 'h z80_cpu" where
  "op_rrd_rld right cpu =
     (let m = cmem cpu (reg_hl cpu);
          a_lo = reg_a cpu AND 0x0F;
          a_hi = reg_a cpu AND 0xF0;
          m_lo = m AND 0x0F;
          m_hi = drop_bit 4 (m AND 0xF0);
          new_a = (if right then a_hi OR m_lo else a_hi OR m_hi);
          new_m = (if right then push_bit 4 a_lo OR m_hi else push_bit 4 m_lo OR a_lo);
          cpu = cpu\<lparr>reg_a := new_a\<rparr>;
          cpu = z80_mem_w cpu (reg_hl cpu) new_m;
          f = (reg_f cpu AND Z80_FLAG_C) OR xy_from new_a;
          f = set_if (new_a = 0) Z80_FLAG_Z f;
          f = set_if (new_a AND 0x80 \<noteq> 0) Z80_FLAG_S f;
          f = f OR parity8 new_a
      in cpu\<lparr>reg_f := f, reg_q := 1\<rparr>)"

section \<open>The CB page\<close>

text \<open>The rotate and shift group: new carry and result.\<close>

definition cb_rot :: "u8 \<Rightarrow> u8 \<Rightarrow> bool \<Rightarrow> bool \<times> u8" where
  "cb_rot grp val c =
     (if grp = 0 then (let n = (val AND 0x80 \<noteq> 0) in (n, push_bit 1 val OR (if n then 1 else 0)))
      else if grp = 1 then (let n = (val AND 0x01 \<noteq> 0) in (n, drop_bit 1 val OR (if n then 0x80 else 0)))
      else if grp = 2 then (val AND 0x80 \<noteq> 0, push_bit 1 val OR (if c then 1 else 0))
      else if grp = 3 then (val AND 0x01 \<noteq> 0, drop_bit 1 val OR (if c then 0x80 else 0))
      else if grp = 4 then (val AND 0x80 \<noteq> 0, push_bit 1 val)
      else if grp = 5 then (val AND 0x01 \<noteq> 0, drop_bit 1 val OR (val AND 0x80))
      else if grp = 6 then (val AND 0x80 \<noteq> 0, push_bit 1 val OR 1)
      else (val AND 0x01 \<noteq> 0, drop_bit 1 val))"

definition cb_bit_flags :: "u8 \<Rightarrow> u8 \<Rightarrow> nat \<Rightarrow> u8 \<Rightarrow> u8" where
  "cb_bit_flags f val n xy_byte =
     (let b = (val AND push_bit n 1 \<noteq> 0);
          f = f AND Z80_FLAG_C;
          f = set_if (\<not> b) (Z80_FLAG_Z OR Z80_FLAG_PV) f;
          f = f OR Z80_FLAG_H;
          f = set_if (b \<and> n = 7) Z80_FLAG_S f
      in f OR xy_from xy_byte)"

definition cb_rot_flags :: "bool \<Rightarrow> u8 \<Rightarrow> u8" where
  "cb_rot_flags new_c result =
     (let f = (if new_c then Z80_FLAG_C else 0);
          f = set_if (result = 0) Z80_FLAG_Z f;
          f = set_if (result AND 0x80 \<noteq> 0) Z80_FLAG_S f
      in f OR parity8 result OR xy_from result)"

definition op_cb :: "'h z80_cpu \<Rightarrow> z80_decoded \<Rightarrow> 'h z80_cpu" where
  "op_cb cpu dec =
     (let sub = imm8 dec;
          r = sub AND 7;
          grp = drop_bit 3 sub AND 7;
          is_bit = (sub \<ge> 0x40 \<and> sub < 0x80);
          is_res = (sub \<ge> 0x80 \<and> sub < 0xC0);
          is_set = (sub \<ge> 0xC0);
          indexed = (dprefix dec = 0xDD \<or> dprefix dec = 0xFD);
          ismem = (indexed \<or> r = 6);
          addr = (if ismem then
                    (if indexed then (if dprefix dec = 0xDD then reg_ix cpu else reg_iy cpu) + sext (ddisp dec)
                     else reg_hl cpu)
                  else 0);
          val = (if ismem then cmem cpu addr
                 else case reg8_ptr_p cpu r 0 of Some v \<Rightarrow> v | None \<Rightarrow> 0);
          c = (reg_f cpu AND Z80_FLAG_C \<noteq> 0);
          n = unat grp;
          xy_byte = (if indexed then hi8 addr else if r = 6 then hi8 (memptr cpu) else val);
          (new_c, rot) = cb_rot grp val c;
          result = (if is_bit then val else if is_res then val AND NOT (push_bit n 1)
                    else if is_set then val OR push_bit n 1 else rot);
          new_f = (if is_bit then cb_bit_flags (reg_f cpu) val n xy_byte
                   else if is_res \<or> is_set then reg_f cpu else cb_rot_flags new_c result);
          cpu = (if is_bit then cpu
                 else if ismem then
                   (let cpu = z80_mem_w cpu addr result
                    in if indexed \<and> r \<noteq> 6 then reg8_put_p cpu r 0 result else cpu)
                 else reg8_put_p cpu r 0 result)
      in if \<not> is_res \<and> \<not> is_set then cpu\<lparr>reg_f := new_f, reg_q := 1\<rparr> else cpu)"

section \<open>Control flow, interrupts and ports\<close>

text \<open>How a step ends: it runs on to \<open>insn_count++; return 0\<close>, it returns 1 (the guest has
  left), or it returns -1 (no such instruction).\<close>

datatype 'h outcome = Next "'h z80_cpu" | Exit "'h z80_cpu" | Fail "'h z80_cpu"

text \<open>A call of the BDOS or BIOS shim, then the simulated RET.\<close>

definition shim_call :: "('h z80_cpu \<Rightarrow> bool \<times> 'h z80_cpu) \<Rightarrow> 'h z80_cpu \<Rightarrow> 'h outcome" where
  "shim_call dispatch cpu =
     (let (cont, cpu) = dispatch cpu in if \<not> cont then Exit cpu else Next (pop_pc cpu))"

definition traps_on :: "'h z80_env \<Rightarrow> 'h z80_cpu \<Rightarrow> bool" where
  "traps_on env cpu \<longleftrightarrow> defer_traps cpu = 0 \<and> cpm_traps_enabled env"

definition in_bios :: "u16 \<Rightarrow> bool" where
  "in_bios pc \<longleftrightarrow> pc \<ge> CPM_BIOS_BASE \<and> pc < CPM_BIOS_BASE + 0x80"

text \<open>The trap check that \<open>JP nn\<close>, \<open>JP cc,nn\<close> and \<open>JP (HL)\<close> share.\<close>

definition jump_traps :: "'h z80_env \<Rightarrow> 'h z80_cpu \<Rightarrow> 'h outcome" where
  "jump_traps env cpu =
     (if traps_on env cpu \<and> reg_pc cpu = CPM_BDOS_ENTRY then shim_call (cpm_bdos_dispatch env) cpu
      else if traps_on env cpu \<and> in_bios (reg_pc cpu) then shim_call (cpm_bios_dispatch env) cpu
      else Next cpu)"

definition op_jp_nn :: "'h z80_env \<Rightarrow> 'h z80_cpu \<Rightarrow> z80_decoded \<Rightarrow> 'h outcome" where
  "op_jp_nn env cpu dec = jump_traps env (cpu\<lparr>reg_pc := imm16 dec, memptr := imm16 dec\<rparr>)"

definition op_jp_cc_nn :: "'h z80_env \<Rightarrow> 'h z80_cpu \<Rightarrow> z80_decoded \<Rightarrow> 'h outcome" where
  "op_jp_cc_nn env cpu dec =
     (let cpu = cpu\<lparr>memptr := imm16 dec\<rparr>
      in if cond_true cpu (dcc dec) then jump_traps env (cpu\<lparr>reg_pc := imm16 dec\<rparr>) else Next cpu)"

definition op_jp_hl :: "'h z80_env \<Rightarrow> 'h z80_cpu \<Rightarrow> 'h outcome" where
  "op_jp_hl env cpu = jump_traps env (cpu\<lparr>reg_pc := reg_hl cpu\<rparr>)"

definition jump_rel :: "'h z80_cpu \<Rightarrow> z80_decoded \<Rightarrow> u16 \<Rightarrow> 'h z80_cpu" where
  "jump_rel cpu dec old_pc =
     (let pc = old_pc + ucast (dbytes dec) + sext (ddisp dec) in cpu\<lparr>reg_pc := pc, memptr := pc\<rparr>)"

definition op_jr_cc :: "'h z80_cpu \<Rightarrow> z80_decoded \<Rightarrow> u16 \<Rightarrow> 'h z80_cpu" where
  "op_jr_cc cpu dec old_pc = (if cond_true cpu (dcc dec) then jump_rel cpu dec old_pc else cpu)"

definition op_djnz :: "'h z80_cpu \<Rightarrow> z80_decoded \<Rightarrow> u16 \<Rightarrow> 'h z80_cpu" where
  "op_djnz cpu dec old_pc =
     (let cpu = cpu\<lparr>reg_b := reg_b cpu - 1\<rparr> in if reg_b cpu \<noteq> 0 then jump_rel cpu dec old_pc else cpu)"

text \<open>\<open>CALL nn\<close>: the two trap checks follow each other, so the second sees the state the first
  one left.\<close>

definition op_call_nn :: "'h z80_env \<Rightarrow> 'h z80_cpu \<Rightarrow> z80_decoded \<Rightarrow> 'h outcome" where
  "op_call_nn env cpu dec =
     (let cpu = push16 cpu (reg_pc cpu);
          cpu = cpu\<lparr>reg_pc := imm16 dec, memptr := imm16 dec\<rparr>;
          bios = (\<lambda>cpu. if traps_on env cpu \<and> in_bios (reg_pc cpu)
                        then shim_call (cpm_bios_dispatch env) cpu else Next cpu)
      in if traps_on env cpu \<and> (reg_pc cpu = CPM_BDOS_ENTRY \<or> reg_pc cpu = CPM_WBOOT_ENTRY)
         then (case shim_call (cpm_bdos_dispatch env) cpu of Next cpu \<Rightarrow> bios cpu | r \<Rightarrow> r)
         else bios cpu)"

definition op_call_cc_nn :: "'h z80_cpu \<Rightarrow> z80_decoded \<Rightarrow> 'h z80_cpu" where
  "op_call_cc_nn cpu dec =
     (let cpu = cpu\<lparr>memptr := imm16 dec\<rparr>
      in if cond_true cpu (dcc dec) then (push16 cpu (reg_pc cpu))\<lparr>reg_pc := imm16 dec\<rparr> else cpu)"

definition op_ret :: "'h z80_cpu \<Rightarrow> 'h outcome" where
  "op_ret cpu =
     (let cpu = pop_pc cpu;
          cpu = cpu\<lparr>memptr := reg_pc cpu\<rparr>
      in if reg_pc cpu = 0 then Exit cpu else Next cpu)"

definition op_ret_cc :: "'h z80_cpu \<Rightarrow> z80_decoded \<Rightarrow> 'h z80_cpu" where
  "op_ret_cc cpu dec =
     (if cond_true cpu (dcc dec) then (let cpu = pop_pc cpu in cpu\<lparr>memptr := reg_pc cpu\<rparr>) else cpu)"

definition op_retn :: "'h z80_cpu \<Rightarrow> 'h z80_cpu" where
  "op_retn cpu = (let cpu = pop_pc cpu in cpu\<lparr>memptr := reg_pc cpu, iff1 := iff2 cpu\<rparr>)"

definition op_rst :: "'h z80_cpu \<Rightarrow> z80_decoded \<Rightarrow> 'h z80_cpu" where
  "op_rst cpu dec =
     (let cpu = push16 cpu (reg_pc cpu) in cpu\<lparr>reg_pc := ucast (imm8 dec), memptr := ucast (imm8 dec)\<rparr>)"

text \<open>\<open>LD A,I\<close> and \<open>LD A,R\<close>; R counts instructions in its low seven bits.\<close>

definition read_r :: "'h z80_cpu \<Rightarrow> u8" where
  "read_r cpu = (reg_r cpu AND 0x80) OR ucast ((ucast (reg_r cpu) + (insn_count cpu - r_epoch cpu)) AND (0x7F :: u64))"

definition op_ld_a_ir :: "'h z80_cpu \<Rightarrow> u8 \<Rightarrow> 'h z80_cpu" where
  "op_ld_a_ir cpu v =
     (let f = (reg_f cpu AND Z80_FLAG_C) OR (v AND (Z80_FLAG_S OR Z80_FLAG_5 OR Z80_FLAG_3));
          f = set_if (v = 0) Z80_FLAG_Z f;
          f = set_if (iff2 cpu \<noteq> 0) Z80_FLAG_PV f
      in cpu\<lparr>reg_a := v, reg_f := f, reg_q := 1\<rparr>)"

definition op_out_n_a :: "'h z80_env \<Rightarrow> 'h z80_cpu \<Rightarrow> z80_decoded \<Rightarrow> 'h z80_cpu" where
  "op_out_n_a env cpu dec =
     (let cpu = io_out env cpu (imm8 dec) (reg_a cpu) (reg_a cpu)
      in cpu\<lparr>memptr := mk16 (reg_a cpu) (imm8 dec + 1)\<rparr>)"

definition op_in_a_n :: "'h z80_env \<Rightarrow> 'h z80_cpu \<Rightarrow> z80_decoded \<Rightarrow> 'h z80_cpu" where
  "op_in_a_n env cpu dec =
     (let addr = mk16 (reg_a cpu) (imm8 dec);
          (v, cpu) = io_in env cpu (imm8 dec) (reg_a cpu)
      in cpu\<lparr>reg_a := v, memptr := addr + 1\<rparr>)"

definition op_in_r_c :: "'h z80_env \<Rightarrow> 'h z80_cpu \<Rightarrow> z80_decoded \<Rightarrow> 'h z80_cpu" where
  "op_in_r_c env cpu dec =
     (let (v, cpu) = io_in env cpu (reg_c cpu) (reg_b cpu);
          cpu = cpu\<lparr>memptr := reg_bc cpu + 1\<rparr>;
          cpu = (if reg1 dec \<noteq> 6 then io_write_r8 cpu (reg1 dec) v else cpu);
          cpu = set_flags_logic cpu v
      in cpu\<lparr>reg_f := reg_f cpu AND NOT Z80_FLAG_H, reg_q := 1\<rparr>)"

definition op_out_c_r :: "'h z80_env \<Rightarrow> 'h z80_cpu \<Rightarrow> z80_decoded \<Rightarrow> 'h z80_cpu" where
  "op_out_c_r env cpu dec =
     (let cpu = io_out env cpu (reg_c cpu) (reg_b cpu) (if reg1 dec = 6 then 0 else io_read_r8 cpu (reg1 dec))
      in cpu\<lparr>memptr := reg_bc cpu + 1\<rparr>)"

section \<open>Dispatch and step\<close>

text \<open>The switch of \<open>z80_step\<close>; \<open>default\<close> is reached by \<open>Z80_OP_UNKNOWN\<close> only.\<close>

primrec exec_op ::
    "z80_op_type \<Rightarrow> 'h z80_env \<Rightarrow> z80_decoded \<Rightarrow> u16 \<Rightarrow> u8 \<Rightarrow> 'h z80_cpu \<Rightarrow> 'h outcome" where
  "exec_op Z80_OP_UNKNOWN env dec old_pc prev_q cpu = Fail cpu"
| "exec_op Z80_OP_NOP env dec old_pc prev_q cpu = Next cpu"
| "exec_op Z80_OP_LD_R_N env dec old_pc prev_q cpu = Next (write_reg8 cpu (reg1 dec) (imm8 dec) dec)"
| "exec_op Z80_OP_LD_R_R env dec old_pc prev_q cpu = Next (write_reg8 cpu (reg1 dec) (read_reg8 cpu (reg2 dec) dec) dec)"
| "exec_op Z80_OP_LD_RR_NN env dec old_pc prev_q cpu = Next (op_ld_rr_nn cpu dec)"
| "exec_op Z80_OP_LD_HL_N env dec old_pc prev_q cpu = Next (write_reg8 cpu 6 (imm8 dec) dec)"
| "exec_op Z80_OP_LD_A_BC env dec old_pc prev_q cpu = Next (op_load_a cpu (reg_bc cpu))"
| "exec_op Z80_OP_LD_A_DE env dec old_pc prev_q cpu = Next (op_load_a cpu (reg_de cpu))"
| "exec_op Z80_OP_LD_A_NN env dec old_pc prev_q cpu = Next (op_load_a cpu (imm16 dec))"
| "exec_op Z80_OP_LD_BC_A env dec old_pc prev_q cpu = Next (op_store_a cpu (reg_bc cpu))"
| "exec_op Z80_OP_LD_DE_A env dec old_pc prev_q cpu = Next (op_store_a cpu (reg_de cpu))"
| "exec_op Z80_OP_LD_NN_A env dec old_pc prev_q cpu = Next (op_store_a cpu (imm16 dec))"
| "exec_op Z80_OP_LD_SP_HL env dec old_pc prev_q cpu = Next (op_ld_sp_hl cpu dec)"
| "exec_op Z80_OP_PUSH_RR env dec old_pc prev_q cpu = Next (op_push_rr cpu dec)"
| "exec_op Z80_OP_POP_RR env dec old_pc prev_q cpu = Next (op_pop_rr cpu dec)"
| "exec_op Z80_OP_ADD_A_R env dec old_pc prev_q cpu = Next (alu_add cpu (read_reg8 cpu (reg1 dec) dec))"
| "exec_op Z80_OP_ADD_A_N env dec old_pc prev_q cpu = Next (alu_add cpu (imm8 dec))"
| "exec_op Z80_OP_SUB_A_R env dec old_pc prev_q cpu = Next (alu_sub cpu (read_reg8 cpu (reg1 dec) dec))"
| "exec_op Z80_OP_SUB_A_N env dec old_pc prev_q cpu = Next (alu_sub cpu (imm8 dec))"
| "exec_op Z80_OP_AND_A_R env dec old_pc prev_q cpu = Next (alu_and cpu (read_reg8 cpu (reg1 dec) dec))"
| "exec_op Z80_OP_AND_A_N env dec old_pc prev_q cpu = Next (alu_and cpu (imm8 dec))"
| "exec_op Z80_OP_OR_A_R env dec old_pc prev_q cpu = Next (alu_or cpu (read_reg8 cpu (reg1 dec) dec))"
| "exec_op Z80_OP_OR_A_N env dec old_pc prev_q cpu = Next (alu_or cpu (imm8 dec))"
| "exec_op Z80_OP_XOR_A_R env dec old_pc prev_q cpu = Next (alu_xor cpu (read_reg8 cpu (reg1 dec) dec))"
| "exec_op Z80_OP_XOR_A_N env dec old_pc prev_q cpu = Next (alu_xor cpu (imm8 dec))"
| "exec_op Z80_OP_CP_A_R env dec old_pc prev_q cpu = Next (alu_cp cpu (read_reg8 cpu (reg1 dec) dec))"
| "exec_op Z80_OP_CP_A_N env dec old_pc prev_q cpu = Next (alu_cp cpu (imm8 dec))"
| "exec_op Z80_OP_INC_R env dec old_pc prev_q cpu = Next (op_inc_r cpu dec)"
| "exec_op Z80_OP_DEC_R env dec old_pc prev_q cpu = Next (op_dec_r cpu dec)"
| "exec_op Z80_OP_INC_RR env dec old_pc prev_q cpu = Next (op_inc_rr cpu dec)"
| "exec_op Z80_OP_DEC_RR env dec old_pc prev_q cpu = Next (op_dec_rr cpu dec)"
| "exec_op Z80_OP_JP_NN env dec old_pc prev_q cpu = op_jp_nn env cpu dec"
| "exec_op Z80_OP_JP_CC_NN env dec old_pc prev_q cpu = op_jp_cc_nn env cpu dec"
| "exec_op Z80_OP_JR_E env dec old_pc prev_q cpu = Next (jump_rel cpu dec old_pc)"
| "exec_op Z80_OP_JR_CC_E env dec old_pc prev_q cpu = Next (op_jr_cc cpu dec old_pc)"
| "exec_op Z80_OP_CALL_NN env dec old_pc prev_q cpu = op_call_nn env cpu dec"
| "exec_op Z80_OP_CALL_CC_NN env dec old_pc prev_q cpu = Next (op_call_cc_nn cpu dec)"
| "exec_op Z80_OP_RET env dec old_pc prev_q cpu = op_ret cpu"
| "exec_op Z80_OP_RET_CC env dec old_pc prev_q cpu = Next (op_ret_cc cpu dec)"
| "exec_op Z80_OP_RST env dec old_pc prev_q cpu = Next (op_rst cpu dec)"
| "exec_op Z80_OP_OUT_N_A env dec old_pc prev_q cpu = Next (op_out_n_a env cpu dec)"
| "exec_op Z80_OP_IN_A_N env dec old_pc prev_q cpu = Next (op_in_a_n env cpu dec)"
| "exec_op Z80_OP_EX_DE_HL env dec old_pc prev_q cpu = Next (op_ex_de_hl cpu)"
| "exec_op Z80_OP_EX_AF_AF env dec old_pc prev_q cpu = Next (op_ex_af_af cpu)"
| "exec_op Z80_OP_EXX env dec old_pc prev_q cpu = Next (op_exx cpu)"
| "exec_op Z80_OP_DJNZ env dec old_pc prev_q cpu = Next (op_djnz cpu dec old_pc)"
| "exec_op Z80_OP_LDIR env dec old_pc prev_q cpu = Next (op_ldir 1 cpu)"
| "exec_op Z80_OP_LDDR env dec old_pc prev_q cpu = Next (op_ldir (-1) cpu)"
| "exec_op Z80_OP_ADD_HL_RR env dec old_pc prev_q cpu = Next (op_add_hl_rr cpu dec)"
| "exec_op Z80_OP_LD_HL_indNN env dec old_pc prev_q cpu = Next (op_ld_hl_ind_nn cpu dec)"
| "exec_op Z80_OP_LD_NN_HL env dec old_pc prev_q cpu = Next (op_ld_nn_hl cpu dec)"
| "exec_op Z80_OP_CPL env dec old_pc prev_q cpu = Next (op_cpl cpu)"
| "exec_op Z80_OP_SCF env dec old_pc prev_q cpu = Next (op_scf cpu prev_q)"
| "exec_op Z80_OP_CCF env dec old_pc prev_q cpu = Next (op_ccf cpu prev_q)"
| "exec_op Z80_OP_DAA env dec old_pc prev_q cpu = Next (op_daa cpu)"
| "exec_op Z80_OP_NEG env dec old_pc prev_q cpu = Next (op_neg cpu)"
| "exec_op Z80_OP_LDI env dec old_pc prev_q cpu = Next (op_ldi 1 cpu)"
| "exec_op Z80_OP_LDD env dec old_pc prev_q cpu = Next (op_ldi (-1) cpu)"
| "exec_op Z80_OP_CB env dec old_pc prev_q cpu = Next (op_cb cpu dec)"
| "exec_op Z80_OP_RLCA env dec old_pc prev_q cpu = Next (op_rlca cpu)"
| "exec_op Z80_OP_RRCA env dec old_pc prev_q cpu = Next (op_rrca cpu)"
| "exec_op Z80_OP_RLA env dec old_pc prev_q cpu = Next (op_rla cpu)"
| "exec_op Z80_OP_RRA env dec old_pc prev_q cpu = Next (op_rra cpu)"
| "exec_op Z80_OP_JP_HL env dec old_pc prev_q cpu = op_jp_hl env cpu"
| "exec_op Z80_OP_LD_A_HL_ind env dec old_pc prev_q cpu = Next (cpu\<lparr>reg_a := read_reg8 cpu 6 dec\<rparr>)"
| "exec_op Z80_OP_LD_HL_A_ind env dec old_pc prev_q cpu = Next (write_reg8 cpu 6 (reg_a cpu) dec)"
| "exec_op Z80_OP_LD_R_HL_ind env dec old_pc prev_q cpu = Next (write_reg8 cpu (reg2 dec) (read_reg8 cpu 6 dec) dec)"
| "exec_op Z80_OP_LD_HL_R_ind env dec old_pc prev_q cpu = Next (write_reg8 cpu 6 (read_reg8 cpu (reg2 dec) dec) dec)"
| "exec_op Z80_OP_LD_HL_N_ind env dec old_pc prev_q cpu = Next (write_reg8 cpu 6 (imm8 dec) dec)"
| "exec_op Z80_OP_INC_HL_ind env dec old_pc prev_q cpu = Next (op_inc_mem cpu dec)"
| "exec_op Z80_OP_DEC_HL_ind env dec old_pc prev_q cpu = Next (op_dec_mem cpu dec)"
| "exec_op Z80_OP_ADD_A_HL_ind env dec old_pc prev_q cpu = Next (alu_add cpu (read_reg8 cpu 6 dec))"
| "exec_op Z80_OP_SUB_A_HL_ind env dec old_pc prev_q cpu = Next (alu_sub cpu (read_reg8 cpu 6 dec))"
| "exec_op Z80_OP_AND_A_HL_ind env dec old_pc prev_q cpu = Next (alu_and cpu (read_reg8 cpu 6 dec))"
| "exec_op Z80_OP_XOR_A_HL_ind env dec old_pc prev_q cpu = Next (alu_xor cpu (read_reg8 cpu 6 dec))"
| "exec_op Z80_OP_OR_A_HL_ind env dec old_pc prev_q cpu = Next (alu_or cpu (read_reg8 cpu 6 dec))"
| "exec_op Z80_OP_CP_A_HL_ind env dec old_pc prev_q cpu = Next (alu_cp cpu (read_reg8 cpu 6 dec))"
| "exec_op Z80_OP_LD_A_IXH env dec old_pc prev_q cpu = Next (cpu\<lparr>reg_a := hi8 (reg_ix cpu)\<rparr>)"
| "exec_op Z80_OP_LD_A_IXL env dec old_pc prev_q cpu = Next (cpu\<lparr>reg_a := lo8 (reg_ix cpu)\<rparr>)"
| "exec_op Z80_OP_ADC_A_R env dec old_pc prev_q cpu = Next (alu_adc cpu (read_reg8 cpu (reg1 dec) dec))"
| "exec_op Z80_OP_ADC_A_N env dec old_pc prev_q cpu = Next (alu_adc cpu (imm8 dec))"
| "exec_op Z80_OP_ADC_A_HL_ind env dec old_pc prev_q cpu = Next (alu_adc cpu (read_reg8 cpu 6 dec))"
| "exec_op Z80_OP_SBC_A_R env dec old_pc prev_q cpu = Next (alu_sbc cpu (read_reg8 cpu (reg1 dec) dec))"
| "exec_op Z80_OP_SBC_A_N env dec old_pc prev_q cpu = Next (alu_sbc cpu (imm8 dec))"
| "exec_op Z80_OP_SBC_A_HL_ind env dec old_pc prev_q cpu = Next (alu_sbc cpu (read_reg8 cpu 6 dec))"
| "exec_op Z80_OP_EX_SP_HL env dec old_pc prev_q cpu = Next (op_ex_sp_hl cpu dec)"
| "exec_op Z80_OP_DI env dec old_pc prev_q cpu = Next (cpu\<lparr>iff1 := 0, iff2 := 0\<rparr>)"
| "exec_op Z80_OP_EI env dec old_pc prev_q cpu = Next (cpu\<lparr>iff1 := 1, iff2 := 1\<rparr>)"
| "exec_op Z80_OP_HALT env dec old_pc prev_q cpu = Next (cpm_console_wait env cpu)"
| "exec_op Z80_OP_ADC_HL_RR env dec old_pc prev_q cpu = Next (op_adc_hl_rr cpu dec)"
| "exec_op Z80_OP_SBC_HL_RR env dec old_pc prev_q cpu = Next (op_sbc_hl_rr cpu dec)"
| "exec_op Z80_OP_LD_NN_RR env dec old_pc prev_q cpu = Next (op_ld_nn_rr cpu dec)"
| "exec_op Z80_OP_LD_RR_NN_IND env dec old_pc prev_q cpu = Next (op_ld_rr_nn_ind cpu dec)"
| "exec_op Z80_OP_CPI env dec old_pc prev_q cpu = Next (op_cpi 1 False old_pc cpu)"
| "exec_op Z80_OP_CPD env dec old_pc prev_q cpu = Next (op_cpi (-1) False old_pc cpu)"
| "exec_op Z80_OP_CPIR env dec old_pc prev_q cpu = Next (op_cpi 1 True old_pc cpu)"
| "exec_op Z80_OP_CPDR env dec old_pc prev_q cpu = Next (op_cpi (-1) True old_pc cpu)"
| "exec_op Z80_OP_RRD env dec old_pc prev_q cpu = Next (op_rrd_rld True cpu)"
| "exec_op Z80_OP_RLD env dec old_pc prev_q cpu = Next (op_rrd_rld False cpu)"
| "exec_op Z80_OP_IN_R_C env dec old_pc prev_q cpu = Next (op_in_r_c env cpu dec)"
| "exec_op Z80_OP_OUT_C_R env dec old_pc prev_q cpu = Next (op_out_c_r env cpu dec)"
| "exec_op Z80_OP_INI env dec old_pc prev_q cpu = Next (io_block env cpu Z80_OP_INI)"
| "exec_op Z80_OP_IND env dec old_pc prev_q cpu = Next (io_block env cpu Z80_OP_IND)"
| "exec_op Z80_OP_INIR env dec old_pc prev_q cpu = Next (io_block env cpu Z80_OP_INIR)"
| "exec_op Z80_OP_INDR env dec old_pc prev_q cpu = Next (io_block env cpu Z80_OP_INDR)"
| "exec_op Z80_OP_OUTI env dec old_pc prev_q cpu = Next (io_block env cpu Z80_OP_OUTI)"
| "exec_op Z80_OP_OUTD env dec old_pc prev_q cpu = Next (io_block env cpu Z80_OP_OUTD)"
| "exec_op Z80_OP_OTIR env dec old_pc prev_q cpu = Next (io_block env cpu Z80_OP_OTIR)"
| "exec_op Z80_OP_OTDR env dec old_pc prev_q cpu = Next (io_block env cpu Z80_OP_OTDR)"
| "exec_op Z80_OP_IM env dec old_pc prev_q cpu = Next (cpu\<lparr>reg_im := imm8 dec\<rparr>)"
| "exec_op Z80_OP_RETN env dec old_pc prev_q cpu = Next (op_retn cpu)"
| "exec_op Z80_OP_LD_I_A env dec old_pc prev_q cpu = Next (cpu\<lparr>reg_i := reg_a cpu\<rparr>)"
| "exec_op Z80_OP_LD_R_A env dec old_pc prev_q cpu = Next (cpu\<lparr>reg_r := reg_a cpu, r_epoch := insn_count cpu\<rparr>)"
| "exec_op Z80_OP_LD_A_I env dec old_pc prev_q cpu = Next (op_ld_a_ir cpu (reg_i cpu))"
| "exec_op Z80_OP_LD_A_R env dec old_pc prev_q cpu = Next (op_ld_a_ir cpu (read_r cpu))"

definition z80_step :: "'h z80_env \<Rightarrow> 'h z80_cpu \<Rightarrow> int \<times> 'h z80_cpu" where
  "z80_step env cpu =
     (let cpu = cpu\<lparr>profile_counts := map_option (\<lambda>p. p (reg_pc cpu := p (reg_pc cpu) + 1)) (profile_counts cpu)\<rparr>;
          dec = z80_decode_one (cmem cpu) (reg_pc cpu)
      in if dbytes dec = 0 then (-1, cpu)
         else
           (let old_pc = reg_pc cpu;
                cpu = cpu\<lparr>reg_pc := reg_pc cpu + ucast (dbytes dec)\<rparr>;
                prev_q = reg_q cpu;
                cpu = cpu\<lparr>reg_q := 0\<rparr>
            in case exec_op (dtype dec) env dec old_pc prev_q cpu of
                 Next cpu \<Rightarrow> (0, cpu\<lparr>insn_count := insn_count cpu + 1\<rparr>)
               | Exit cpu \<Rightarrow> (1, cpu)
               | Fail cpu \<Rightarrow> (-1, cpu)))"

end
