(* ===== verification/Block_Cache_Props.thy ===== *)
theory Block_Cache_Props
  imports Block_Cache
begin

text \<open>
  Correctness of the block cache: the byte-level link patching, the shape of the link
  registry, and the two invariants the translator relies on.  \<open>cache_wf\<close>: the bytes of
  every cached block are marked and within the sweep window, so that a store finds
  every block it hits.  \<open>links_ok\<close>: every registered branch goes to the current
  translation of its target or to its own probe, never to a stale one.
\<close>

lemma cache_index_id [simp]: "cache_index pc = pc"
proof -
  have "(0xFFFF :: u16) = - 1" by simp
  then show ?thesis unfolding cache_index_def by (simp only: and.right_neutral)
qed

section \<open>Patching a branch\<close>

lemma write32_other:
  "x \<notin> {a, a + 1, a + 2, a + 3} \<Longrightarrow> write32 b a v x = b x"
  by (simp add: write32_def)

lemma read32_write32 [simp]: "read32 (write32 b a v) a = v"
proof (rule bit_word_eqI)
  fix n assume "n < LENGTH(32)"
  then show "bit (read32 (write32 b a v) a) n = bit v n"
    by (cases "n < 8"; cases "n < 16"; cases "n < 24")
      (auto simp: read32_def write32_def bit_simps)
qed

lemma read32_cong:
  "\<lbrakk>b a = b' a; b (a + 1) = b' (a + 1); b (a + 2) = b' (a + 2); b (a + 3) = b' (a + 3)\<rbrakk> \<Longrightarrow>
   read32 b a = read32 b' a"
  by (simp add: read32_def)

text \<open>Two five-byte branches that do not overlap.\<close>

definition sites_apart :: "u32 \<Rightarrow> u32 \<Rightarrow> bool" where
  "sites_apart s s' \<longleftrightarrow> 5 \<le> s - s' \<and> 5 \<le> s' - s"

lemma sites_apart_sym: "sites_apart s s' \<Longrightarrow> sites_apart s' s"
  by (simp add: sites_apart_def)

lemma sites_apart_bytes:
  assumes "sites_apart s s'" "i \<le> 4" "j \<le> 4"
  shows "s' + i \<noteq> s + j"
proof
  assume eq: "s' + i = s + j"
  show False
  proof (cases "j \<le> i")
    case True
    have "s - s' = i - j" using eq by (simp add: algebra_simps)
    moreover have "i - j \<le> i" using True by (simp add: word_le_nat_alt unat_sub)
    ultimately have "s - s' \<le> 4" using assms(2) by simp
    then show False using assms(1) by (auto simp: sites_apart_def word_le_nat_alt)
  next
    case False
    have "s' - s = j - i" using eq by (simp add: algebra_simps)
    moreover have "j - i \<le> j" using False by (simp add: word_le_nat_alt unat_sub)
    ultimately have "s' - s \<le> 4" using assms(3) by simp
    then show False using assms(1) by (auto simp: sites_apart_def word_le_nat_alt)
  qed
qed

lemma write32_apart:
  assumes "sites_apart s s'" "i \<le> 4"
  shows "write32 b (s + 1) v (s' + i) = b (s' + i)"
proof (rule write32_other)
  show "s' + i \<notin> {s + 1, s + 1 + 1, s + 1 + 2, s + 1 + 3}"
    using sites_apart_bytes [OF assms, of 1] sites_apart_bytes [OF assms, of 2]
      sites_apart_bytes [OF assms, of 3] sites_apart_bytes [OF assms, of 4]
    by (simp add: add.assoc)
qed

text \<open>
  What a back end promises about its patchable branches: patching makes the branch go
  where it is told, \<open>None\<close> sends it to its own fallback, which its opcode determines, and
  branches that do not overlap do not notice.
\<close>

locale link_backend =
  fixes patch :: "'b \<Rightarrow> 's \<Rightarrow> 't option \<Rightarrow> 'b"
    and goes_to :: "'b \<Rightarrow> 's \<Rightarrow> 't"
    and fallback :: "'b \<Rightarrow> 's \<Rightarrow> 't"
    and opcode :: "'b \<Rightarrow> 's \<Rightarrow> 'o"
    and apart :: "'s \<Rightarrow> 's \<Rightarrow> bool"
  assumes patch_goes: "goes_to (patch b s t) s = (case t of Some c \<Rightarrow> c | None \<Rightarrow> fallback b s)"
    and patch_other: "apart s s' \<Longrightarrow> goes_to (patch b s t) s' = goes_to b s'"
    and patch_opcode: "s = s' \<or> apart s s' \<Longrightarrow> opcode (patch b s t) s' = opcode b s'"
    and fallback_opcode: "opcode b s = opcode b' s \<Longrightarrow> fallback b s = fallback b' s"
begin

lemma patch_fallback: "s = s' \<or> apart s s' \<Longrightarrow> fallback (patch b s t) s' = fallback b s'"
  by (rule fallback_opcode) (rule patch_opcode)

definition patch_all :: "'t option \<Rightarrow> 's list \<Rightarrow> 'b \<Rightarrow> 'b" where
  "patch_all t ss b = fold (\<lambda>s b. patch b s t) ss b"

lemma patch_all_simps [simp]:
  "patch_all t [] b = b" "patch_all t (s # ss) b = patch_all t ss (patch b s t)"
  by (simp_all add: patch_all_def)

lemma patch_all_opcode:
  "(\<And>s'. s' \<in> set ss \<Longrightarrow> s' = s \<or> apart s' s) \<Longrightarrow> opcode (patch_all t ss b) s = opcode b s"
proof (induction ss arbitrary: b)
  case (Cons s' ss)
  then show ?case by (simp add: patch_opcode)
qed simp

lemma patch_all_other:
  "(\<And>s'. s' \<in> set ss \<Longrightarrow> apart s' s) \<Longrightarrow>
   goes_to (patch_all t ss b) s = goes_to b s \<and> fallback (patch_all t ss b) s = fallback b s"
  by (induction ss arbitrary: b) (auto simp: patch_other patch_fallback)

lemma patch_all_fallback:
  "(\<And>s'. s' \<in> set ss \<Longrightarrow> s' = s \<or> apart s' s) \<Longrightarrow> fallback (patch_all t ss b) s = fallback b s"
  by (rule fallback_opcode) (rule patch_all_opcode)

lemma patch_all_goes:
  assumes "s \<in> set ss" "\<And>s'. s' \<in> set ss \<Longrightarrow> s' = s \<or> apart s' s"
  shows "goes_to (patch_all t ss b) s = (case t of Some c \<Rightarrow> c | None \<Rightarrow> fallback b s)"
  using assms
proof (induction ss arbitrary: b)
  case (Cons s' ss)
  show ?case
  proof (cases "s \<in> set ss")
    case True
    then have "goes_to (patch_all t ss (patch b s' t)) s =
      (case t of Some c \<Rightarrow> c | None \<Rightarrow> fallback (patch b s' t) s)"
      using Cons by simp
    with Cons.prems(2) [of s'] show ?thesis by (auto simp: patch_fallback split: option.split)
  next
    case False
    with Cons.prems have s: "s' = s" and "\<And>u. u \<in> set ss \<Longrightarrow> apart u s" by auto
    then show ?thesis using patch_all_other [of ss s] by (simp add: patch_goes)
  qed
qed simp

end

interpretation x64_link: link_backend patch_site branch_target link_fallback "\<lambda>b s. b s" sites_apart
proof
  fix b b' :: code_buffer and s s' :: u32 and t
  show "branch_target (patch_site b s t) s =
      (case t of Some c \<Rightarrow> c | None \<Rightarrow> link_fallback b s)"
    by (auto simp: branch_target_def patch_site_def Let_def split: option.split)
  have c: "write32 b (s + 1) v (s' + i) = b (s' + i)" if "sites_apart s s'" "i \<le> 4" for v i
    using that by (rule write32_apart)
  have r: "read32 (write32 b (s + 1) v) (s' + 1) = read32 b (s' + 1)" if "sites_apart s s'" for v
    using c [OF that, of 1 v] c [OF that, of 2 v] c [OF that, of 3 v] c [OF that, of 4 v]
    by (intro read32_cong) (simp_all add: add.assoc)
  show "branch_target (patch_site b s t) s' = branch_target b s'" if "sites_apart s s'"
    using r [OF that] by (simp add: branch_target_def patch_site_def Let_def)
  have "write32 b (s + 1) v s = b s" for v by (rule write32_other) simp
  moreover have "write32 b (s + 1) v s' = b s'" if "sites_apart s s'" for v
    using c [OF that, of 0 v] by simp
  ultimately show "patch_site b s t s' = b s'" if "s = s' \<or> sites_apart s s'"
    using that by (auto simp: patch_site_def Let_def)
  show "link_fallback b s = link_fallback b' s" if "b s = b' s"
    using that by (simp add: link_fallback_def)
qed

section \<open>Chains of link records\<close>

text \<open>\<open>chain pool i xs\<close>: following \<open>next\<close> from record \<open>i\<close> visits exactly \<open>xs\<close>.\<close>

primrec chain :: "(u32 \<Rightarrow> z80_link) \<Rightarrow> u32 \<Rightarrow> u32 list \<Rightarrow> bool" where
  "chain pool i [] \<longleftrightarrow> i = LINK_NONE"
| "chain pool i (x # xs) \<longleftrightarrow> i = x \<and> x \<noteq> LINK_NONE \<and> chain pool (lnext (pool x)) xs"

lemma chain_cong:
  "(\<And>x. x \<in> set xs \<Longrightarrow> lnext (pool' x) = lnext (pool x)) \<Longrightarrow> chain pool' i xs = chain pool i xs"
  by (induction xs arbitrary: i) auto

lemma chain_upd [simp]: "x \<notin> set xs \<Longrightarrow> chain (pool (x := l)) i xs = chain pool i xs"
  by (rule chain_cong) auto

lemma chain_none: "chain pool LINK_NONE xs \<longleftrightarrow> xs = []"
  by (cases xs) auto

lemma repatch_walk_chain:
  "chain (link_pool dbt) i xs \<Longrightarrow> length xs \<le> n \<Longrightarrow>
   repatch_walk n c i dbt =
     (LINK_NONE, dbt\<lparr>code_buf := x64_link.patch_all (Some c) (map (\<lambda>x. site_off (link_pool dbt x)) xs) (code_buf dbt),
                     links_patched := links_patched dbt + of_nat (length xs)\<rparr>)"
proof (induction xs arbitrary: n i dbt)
  case Nil
  then show ?case by (cases n) simp_all
next
  case (Cons x xs)
  then obtain m where n: "n = Suc m" by (cases n) auto
  define dbt' where "dbt' = (dbt_arch_patch_link dbt (site_off (link_pool dbt x)) (Some c))
      \<lparr>links_patched := links_patched dbt + 1\<rparr>"
  have "chain (link_pool dbt') (lnext (link_pool dbt' x)) xs" "length xs \<le> m"
    using Cons.prems n by (simp_all add: dbt'_def dbt_arch_patch_link_def)
  from Cons.IH [OF this] Cons.prems n show ?case
    by (simp add: Let_def dbt'_def dbt_arch_patch_link_def ac_simps)
qed

text \<open>The state after the unlinking walk over the records \<open>xs\<close>.\<close>

primrec unlink_pool :: "u32 list \<Rightarrow> u32 \<Rightarrow> (u32 \<Rightarrow> z80_link) \<Rightarrow> u32 \<Rightarrow> z80_link" where
  "unlink_pool [] fr pool = pool"
| "unlink_pool (x # xs) fr pool = unlink_pool xs x (pool (x := (pool x)\<lparr>lnext := fr\<rparr>))"

lemma unlink_walk_chain:
  "chain (link_pool dbt) i xs \<Longrightarrow> length xs \<le> n \<Longrightarrow> distinct xs \<Longrightarrow>
   unlink_walk n i dbt =
     (LINK_NONE, dbt\<lparr>code_buf := x64_link.patch_all None (map (\<lambda>x. site_off (link_pool dbt x)) xs) (code_buf dbt),
                     link_pool := unlink_pool xs (link_free dbt) (link_pool dbt),
                     link_free := last (link_free dbt # xs),
                     links_unpatched := links_unpatched dbt + of_nat (length xs)\<rparr>)"
proof (induction xs arbitrary: n i dbt)
  case Nil
  then show ?case by (cases n) simp_all
next
  case (Cons x xs)
  then obtain m where n: "n = Suc m" by (cases n) auto
  define dbt' where "dbt' = (dbt_arch_patch_link dbt (site_off (link_pool dbt x)) None)
      \<lparr>link_pool := (link_pool dbt) (x := (link_pool dbt x)\<lparr>lnext := link_free dbt\<rparr>), link_free := x,
       links_unpatched := links_unpatched dbt + 1\<rparr>"
  have "chain (link_pool dbt') (lnext (link_pool dbt x)) xs" "length xs \<le> m" "distinct xs"
    using Cons.prems n by (simp_all add: dbt'_def dbt_arch_patch_link_def)
  note IH = Cons.IH [OF this]
  have s: "map (\<lambda>y. site_off (link_pool dbt' y)) xs = map (\<lambda>y. site_off (link_pool dbt y)) xs"
    by (rule map_cong) (simp_all add: dbt'_def dbt_arch_patch_link_def)
  have "unlink_walk n i dbt = unlink_walk m (lnext (link_pool dbt x)) dbt'"
    using Cons.prems n by (simp add: Let_def dbt'_def dbt_arch_patch_link_def)
  also note IH
  finally show ?case
    by (simp only: s) (simp add: dbt'_def dbt_arch_patch_link_def ac_simps fun_upd_def)
qed

lemma unlink_pool_site [simp]: "site_off (unlink_pool xs fr pool x) = site_off (pool x)"
  by (induction xs arbitrary: fr pool) auto

lemma unlink_pool_other: "x \<notin> set xs \<Longrightarrow> unlink_pool xs fr pool x = pool x"
  by (induction xs arbitrary: fr pool) auto

lemma unlink_pool_chain:
  "\<lbrakk>chain pool fr F; distinct xs; set xs \<inter> set F = {}; LINK_NONE \<notin> set xs\<rbrakk> \<Longrightarrow>
   chain (unlink_pool xs fr pool) (last (fr # xs)) (rev xs @ F)"
proof (induction xs arbitrary: fr pool F)
  case (Cons x xs)
  have "chain (pool (x := (pool x)\<lparr>lnext := fr\<rparr>)) x (x # F)"
    using Cons.prems by simp
  from Cons.IH [OF this] Cons.prems show ?case by (simp add: fun_upd_def)
qed simp


section \<open>The link registry\<close>

text \<open>
  \<open>H pc\<close> lists the records of the sites that want to reach \<open>pc\<close>, \<open>F\<close> the recycled ones.
  The lists are disjoint and together they are the records handed out so far: no
  record is ever lost.
\<close>

definition link_chains :: "z80_dbt \<Rightarrow> (u16 \<Rightarrow> u32 list) \<Rightarrow> u32 list \<Rightarrow> bool" where
  "link_chains dbt H F \<longleftrightarrow>
     (\<forall>pc. chain (link_pool dbt) (link_head dbt pc) (H pc)) \<and> chain (link_pool dbt) (link_free dbt) F \<and>
     (\<forall>pc. distinct (H pc)) \<and> distinct F \<and>
     (\<forall>pc pc'. pc \<noteq> pc' \<longrightarrow> set (H pc) \<inter> set (H pc') = {}) \<and> (\<forall>pc. set (H pc) \<inter> set F = {}) \<and>
     (\<Union>pc. set (H pc)) \<union> set F = {i. i < link_used dbt} \<and> unat (link_used dbt) \<le> LINK_POOL_SIZE"

lemma link_chainsD:
  assumes "link_chains dbt H F"
  shows "chain (link_pool dbt) (link_head dbt pc) (H pc)" "chain (link_pool dbt) (link_free dbt) F"
    "distinct (H pc)" "distinct F" "pc \<noteq> pc' \<Longrightarrow> set (H pc) \<inter> set (H pc') = {}"
    "set (H pc) \<inter> set F = {}" "(\<Union>pc. set (H pc)) \<union> set F = {i. i < link_used dbt}"
    "unat (link_used dbt) \<le> LINK_POOL_SIZE"
  using assms by (simp_all add: link_chains_def)

lemma card_below: "card {i :: u32. i < u} \<le> unat u"
proof -
  have "{i :: u32. i < u} \<subseteq> of_nat ` {..<unat u}"
  proof
    fix i :: u32 assume "i \<in> {i. i < u}"
    then have "unat i < unat u" "i = of_nat (unat i)" by (simp_all add: word_less_nat_alt)
    then show "i \<in> of_nat ` {..<unat u}" by blast
  qed
  then have "card {i :: u32. i < u} \<le> card (of_nat ` {..<unat u} :: u32 set)"
    by (rule card_mono [rotated]) simp
  also have "\<dots> \<le> unat u" using card_image_le [of "{..<unat u}"] by simp
  finally show ?thesis .
qed

lemma link_chain_length:
  assumes "link_chains dbt H F"
  shows "length (H pc) \<le> LINK_POOL_SIZE"
proof -
  have "set (H pc) \<subseteq> {i. i < link_used dbt}" using link_chainsD(7) [OF assms] by blast
  then have "card (set (H pc)) \<le> card {i. i < link_used dbt}" by (rule card_mono [rotated]) simp
  with card_below [of "link_used dbt"] link_chainsD(8) [OF assms] link_chainsD(3) [OF assms, of pc]
  show ?thesis by (simp add: distinct_card)
qed

lemma link_chain_nonnull:
  assumes "link_chains dbt H F"
  shows "LINK_NONE \<notin> set (H pc)" "LINK_NONE \<notin> set F"
proof -
  have "\<not> LINK_NONE < link_used dbt"
    using link_chainsD(8) [OF assms] by (simp add: word_less_nat_alt LINK_POOL_SIZE_def)
  with link_chainsD(7) [OF assms] show "LINK_NONE \<notin> set (H pc)" "LINK_NONE \<notin> set F" by blast+
qed

abbreviation sites :: "z80_dbt \<Rightarrow> u32 list \<Rightarrow> u32 list" where
  "sites dbt xs \<equiv> map (\<lambda>x. site_off (link_pool dbt x)) xs"

text \<open>Both loops of \<open>dbt_links_repatch\<close> visit exactly the chain and end at \<open>LINK_NONE\<close>.\<close>

lemma repatch_walk_ends:
  assumes "link_chains dbt H F"
  shows "fst (repatch_walk LINK_POOL_SIZE c (link_head dbt pc) dbt) = LINK_NONE"
    "fst (unlink_walk LINK_POOL_SIZE (link_head dbt pc) dbt) = LINK_NONE"
  using repatch_walk_chain [OF link_chainsD(1) [OF assms] link_chain_length [OF assms]]
    unlink_walk_chain [OF link_chainsD(1) [OF assms] link_chain_length [OF assms] link_chainsD(3) [OF assms]]
  by simp_all

lemma links_repatch_Some:
  assumes "link_chains dbt H F"
  shows "dbt_links_repatch dbt pc (Some c) =
    dbt\<lparr>code_buf := x64_link.patch_all (Some c) (sites dbt (H pc)) (code_buf dbt),
        links_patched := links_patched dbt + of_nat (length (H pc))\<rparr>"
proof (cases "H pc")
  case Nil
  with link_chainsD(1) [OF assms, of pc] show ?thesis by (simp add: dbt_links_repatch_def)
next
  case (Cons x xs)
  then have "link_head dbt pc \<noteq> LINK_NONE" using link_chainsD(1) [OF assms, of pc] by simp
  with repatch_walk_chain [OF link_chainsD(1) [OF assms, of pc] link_chain_length [OF assms]]
  show ?thesis by (simp add: dbt_links_repatch_def Let_def)
qed

lemma links_repatch_None:
  assumes "link_chains dbt H F"
  shows "dbt_links_repatch dbt pc None =
    dbt\<lparr>code_buf := x64_link.patch_all None (sites dbt (H pc)) (code_buf dbt),
        link_pool := unlink_pool (H pc) (link_free dbt) (link_pool dbt),
        link_free := last (link_free dbt # H pc),
        link_head := (link_head dbt) (pc := LINK_NONE),
        links_unpatched := links_unpatched dbt + of_nat (length (H pc))\<rparr>"
proof (cases "H pc")
  case Nil
  with link_chainsD(1) [OF assms, of pc] have h: "link_head dbt pc = LINK_NONE" by simp
  then have "(link_head dbt) (pc := LINK_NONE) = link_head dbt" by (simp add: fun_upd_idem)
  with Nil h show ?thesis by (simp add: dbt_links_repatch_def)
next
  case (Cons x xs)
  then have "link_head dbt pc \<noteq> LINK_NONE" using link_chainsD(1) [OF assms, of pc] by simp
  with unlink_walk_chain [OF link_chainsD(1) [OF assms, of pc] link_chain_length [OF assms]
      link_chainsD(3) [OF assms]]
  show ?thesis by (simp add: dbt_links_repatch_def Let_def)
qed

lemma link_chains_None:
  assumes c: "link_chains dbt H F"
  shows "link_chains (dbt_links_repatch dbt pc None) (H (pc := [])) (rev (H pc) @ F)"
proof -
  note D = link_chainsD [OF c]
  let ?p = "unlink_pool (H pc) (link_free dbt) (link_pool dbt)"
  have other: "chain ?p (link_head dbt pc') (H pc')" if "pc' \<noteq> pc" for pc'
  proof -
    have "set (H pc) \<inter> set (H pc') = {}" using that D(5) [of pc pc'] by blast
    then have "chain ?p (link_head dbt pc') (H pc') = chain (link_pool dbt) (link_head dbt pc') (H pc')"
      by (intro chain_cong) (metis unlink_pool_other disjoint_iff)
    with D(1) show ?thesis by blast
  qed
  have free: "chain ?p (last (link_free dbt # H pc)) (rev (H pc) @ F)"
    by (rule unlink_pool_chain) (use D link_chain_nonnull [OF c] in auto)
  have all: "(\<Union>q. set ((H (pc := [])) q)) \<union> set (rev (H pc) @ F) = {i. i < link_used dbt}"
  proof -
    have "(\<Union>q. set ((H (pc := [])) q)) \<union> set (H pc) = (\<Union>q. set (H q))"
      by (auto split: if_splits)
    with D(7) show ?thesis by (simp only: set_append set_rev Un_assoc [symmetric])
  qed
  have d1: "set ((H (pc := [])) q) \<inter> set (rev (H pc) @ F) = {}" for q
    using D(5) [of q pc] D(6) [of q] by auto
  have d2: "set ((H (pc := [])) q) \<inter> set ((H (pc := [])) q') = {}" if "q \<noteq> q'" for q q'
    using D(5) [OF that] by auto
  have ch: "chain ?p (((link_head dbt) (pc := LINK_NONE)) q) ((H (pc := [])) q)" for q
    using other by simp
  have di: "distinct ((H (pc := [])) q)" "distinct (rev (H pc) @ F)" for q
    using D(3,4,6) by auto
  show ?thesis
    unfolding link_chains_def links_repatch_None [OF c]
    using ch free di d1 d2 all D(8) by (simp del: fun_upd_apply)
qed

lemma link_chains_cong:
  assumes "link_pool dbt' = link_pool dbt" "link_head dbt' = link_head dbt"
    "link_free dbt' = link_free dbt" "link_used dbt' = link_used dbt"
  shows "link_chains dbt' H F = link_chains dbt H F"
  by (simp add: link_chains_def assms)

lemma link_chains_Some:
  "link_chains dbt H F \<Longrightarrow> link_chains (dbt_links_repatch dbt pc (Some c)) H F"
  by (subst link_chains_cong [of _ dbt]) (simp_all add: links_repatch_Some)


lemma link_record_free:
  assumes c: "link_chains dbt H F" and F: "F = i # F'"
    and dbt': "dbt' = dbt\<lparr>link_free := lnext (link_pool dbt i),
      link_pool := (link_pool dbt) (i := \<lparr>site_off = site, lnext = link_head dbt pc\<rparr>),
      link_head := (link_head dbt) (pc := i), links_created := links_created dbt + 1\<rparr>"
  shows "link_chains dbt' (H (pc := i # H pc)) F'"
proof -
  note D = link_chainsD [OF c]
  let ?p = "(link_pool dbt) (i := \<lparr>site_off = site, lnext = link_head dbt pc\<rparr>)"
  have i: "i \<notin> set (H q)" for q using D(6) [of q] F by auto
  have iF: "i \<noteq> LINK_NONE" "i \<notin> set F'" using link_chain_nonnull [OF c] D(4) F by auto
  have ch: "chain ?p (((link_head dbt) (pc := i)) q) ((H (pc := i # H pc)) q)" for q
    using D(1) [of q] i iF by (auto simp: chain_upd)
  have fr: "chain ?p (lnext (link_pool dbt i)) F'" using D(2) F iF by simp
  have di: "distinct ((H (pc := i # H pc)) q)" "distinct F'" for q using D(3) [of q] D(4) F i by auto
  have d1: "set ((H (pc := i # H pc)) q) \<inter> set F' = {}" for q using D(6) [of q] F iF by auto
  have d2: "set ((H (pc := i # H pc)) q) \<inter> set ((H (pc := i # H pc)) q') = {}" if "q \<noteq> q'" for q q'
    using D(5) [OF that] i that by auto
  have "(\<Union>q. set ((H (pc := i # H pc)) q)) = insert i (\<Union>q. set (H q))"
    by (auto split: if_splits)
  then have all: "(\<Union>q. set ((H (pc := i # H pc)) q)) \<union> set F' = {j. j < link_used dbt}"
    using D(7) F by simp
  show ?thesis
    unfolding link_chains_def dbt'
    using ch fr di d1 d2 all D(8) by (simp del: fun_upd_apply)
qed

lemma below_Suc: "unat (u :: u32) < LINK_POOL_SIZE \<Longrightarrow> {j. j < u + 1} = insert u {j. j < u}"
  by (auto simp: word_less_nat_alt unat_word_ariths LINK_POOL_SIZE_def word_unat_eq_iff)

lemma link_record_new:
  assumes c: "link_chains dbt H []" and room: "unat (link_used dbt) < LINK_POOL_SIZE"
    and i: "i = link_used dbt"
    and dbt': "dbt' = dbt\<lparr>link_used := link_used dbt + 1,
      link_pool := (link_pool dbt) (i := \<lparr>site_off = site, lnext = link_head dbt pc\<rparr>),
      link_head := (link_head dbt) (pc := i), links_created := links_created dbt + 1\<rparr>"
  shows "link_chains dbt' (H (pc := i # H pc)) []"
proof -
  note D = link_chainsD [OF c]
  let ?p = "(link_pool dbt) (i := \<lparr>site_off = site, lnext = link_head dbt pc\<rparr>)"
  have iH: "i \<notin> set (H q)" for q using D(7) i by auto
  have iN: "i \<noteq> LINK_NONE" using room i by (auto simp: LINK_POOL_SIZE_def)
  have ch: "chain ?p (((link_head dbt) (pc := i)) q) ((H (pc := i # H pc)) q)" for q
    using D(1) [of q] iH iN by auto
  have di: "distinct ((H (pc := i # H pc)) q)" for q using D(3) [of q] iH by auto
  have d2: "set ((H (pc := i # H pc)) q) \<inter> set ((H (pc := i # H pc)) q') = {}" if "q \<noteq> q'" for q q'
    using D(5) [OF that] iH that by auto
  have "(\<Union>q. set ((H (pc := i # H pc)) q)) = insert i (\<Union>q. set (H q))"
    by (auto split: if_splits)
  then have all: "(\<Union>q. set ((H (pc := i # H pc)) q)) \<union> set [] = {j. j < link_used dbt + 1}"
    using D(7) i below_Suc [OF room] by simp
  have "unat (link_used dbt + 1) \<le> LINK_POOL_SIZE"
    using room by (simp add: unat_word_ariths LINK_POOL_SIZE_def)
  then show ?thesis
    unfolding link_chains_def dbt'
    using ch di d2 all D(2) by (simp del: fun_upd_apply)
qed

text \<open>The registry hands out a record that is in no list, or is full.\<close>

lemma link_record_cases:
  assumes c: "link_chains dbt H F"
  obtains (recorded) i F' dbt' where "dbt_link_record dbt pc site = (True, dbt')"
      "link_chains dbt' (H (pc := i # H pc)) F'" "\<And>q. i \<notin> set (H q)"
      "link_pool dbt' = (link_pool dbt) (i := \<lparr>site_off = site, lnext = link_head dbt pc\<rparr>)"
      "cache dbt' = cache dbt" "code_buf dbt' = code_buf dbt" "code_bitmap dbt' = code_bitmap dbt"
      "max_block_bytes dbt' = max_block_bytes dbt"
  | (full) "dbt_link_record dbt pc site = (False, dbt)" "F = []" "unat (link_used dbt) = LINK_POOL_SIZE"
proof (cases F)
  case (Cons i F')
  then have lf: "link_free dbt = i" "i \<noteq> LINK_NONE" using link_chainsD(2) [OF c] by auto
  have "i \<notin> set (H q)" for q using link_chainsD(6) [OF c, of q] Cons by auto
  with recorded [OF _ link_record_free [OF c Cons refl]] lf show thesis
    by (simp add: dbt_link_record_def Let_def)
next
  case Nil
  then have lf: "link_free dbt = LINK_NONE" using link_chainsD(2) [OF c] by simp
  have c': "link_chains dbt H []" using c Nil by simp
  show thesis
  proof (cases "unat (link_used dbt) < LINK_POOL_SIZE")
    case True
    have "link_used dbt \<notin> set (H q)" for q using link_chainsD(7) [OF c] by auto
    with recorded [OF _ link_record_new [OF c' True refl refl]] lf True show thesis
      by (simp add: dbt_link_record_def Let_def)
  next
    case False
    then have "unat (link_used dbt) = LINK_POOL_SIZE" using link_chainsD(8) [OF c] by simp
    with full Nil lf show thesis by (simp add: dbt_link_record_def Let_def)
  qed
qed

section \<open>The cache invariant\<close>

text \<open>What a lookup of \<open>pc\<close> would run, and whether that block covers byte \<open>addr\<close>.\<close>

definition translation :: "z80_dbt \<Rightarrow> u16 \<Rightarrow> u32 option" where
  "translation dbt pc = (if guest_pc (cache dbt pc) = ucast pc then native_code (cache dbt pc) else None)"

definition covers :: "z80_dbt \<Rightarrow> u16 \<Rightarrow> u16 \<Rightarrow> bool" where
  "covers dbt pc addr \<longleftrightarrow> translation dbt pc \<noteq> None \<and> unat (addr - pc) < unat (span (cache dbt pc))"

text \<open>Whether the block at \<open>pc\<close> ends below the top of memory.  A block that runs to \<open>0xFFFF\<close> or past
  it has a 16-bit end below its start, and \<open>dbt_mark_block_bytes\<close> marks none of its bytes.\<close>

definition fits :: "z80_dbt \<Rightarrow> u16 \<Rightarrow> bool" where
  "fits dbt pc \<longleftrightarrow> unat pc + unat (span (cache dbt pc)) \<le> 0xFFFF"

text \<open>A slot is empty, holds the refusal mark of its own address, or holds a block that starts
  there, is no longer than the sweep window, and whose bytes are all marked if it fits.\<close>

definition entry_ok :: "z80_dbt \<Rightarrow> u16 \<Rightarrow> bool" where
  "entry_ok dbt pc \<longleftrightarrow> (let e = cache dbt pc in
     guest_pc e = BLOCK_EMPTY_PC \<and> native_code e = None \<or>
     guest_pc e = ucast pc OR BLOCK_REFUSED_BIT \<and> native_code e = None \<or>
     guest_pc e = ucast pc \<and> native_code e \<noteq> None \<and> span e \<le> max_block_bytes dbt \<and>
       (fits dbt pc \<longrightarrow> (\<forall>k < unat (span e). code_bitmap dbt (pc + of_nat k) \<noteq> 0)))"

definition cache_wf :: "z80_dbt \<Rightarrow> bool" where
  "cache_wf dbt \<longleftrightarrow> (\<forall>pc. entry_ok dbt pc) \<and> max_block_bytes dbt \<le> 0xFFFF"

lemma unat_ucast_u16 [simp]: "unat (ucast (pc :: u16) :: u32) = unat pc"
proof -
  have "unat pc < 2 ^ 32" by (rule less_trans [OF unat_u16_less]) simp
  then show ?thesis unfolding unsigned_ucast_eq by (simp add: take_bit_nat_eq_self)
qed

lemma ucast_pc_less: "(ucast (pc :: u16) :: u32) \<le> 0xFFFF"
  using less_Suc_eq_le [of "unat pc" 65535] by (simp add: word_le_nat_alt)

lemma guest_pc_tags [simp]:
  "(ucast (pc :: u16) :: u32) \<noteq> BLOCK_EMPTY_PC" "BLOCK_EMPTY_PC \<noteq> (ucast (pc :: u16) :: u32)"
  "(ucast (pc :: u16) OR BLOCK_REFUSED_BIT :: u32) \<noteq> ucast pc"
  "(ucast (pc :: u16) OR BLOCK_REFUSED_BIT :: u32) \<noteq> BLOCK_EMPTY_PC"
proof -
  show a: "(ucast (pc :: u16) :: u32) \<noteq> BLOCK_EMPTY_PC"
  proof
    assume "(ucast pc :: u32) = BLOCK_EMPTY_PC"
    then have "unat (ucast pc :: u32) = unat (BLOCK_EMPTY_PC :: u32)" by (rule arg_cong)
    then have "unat pc = 4294967295" by simp
    with unat_u16_less [of pc] show False by linarith
  qed
  then show "BLOCK_EMPTY_PC \<noteq> (ucast (pc :: u16) :: u32)" by metis
  have "bit (ucast pc OR BLOCK_REFUSED_BIT :: u32) 30" "\<not> bit (ucast pc OR BLOCK_REFUSED_BIT :: u32) 31"
    "\<not> bit (ucast pc :: u32) 30"
    by (simp_all add: bit_simps)
  moreover have "bit (BLOCK_EMPTY_PC :: u32) 31" by simp
  ultimately show "(ucast (pc :: u16) OR BLOCK_REFUSED_BIT :: u32) \<noteq> ucast pc"
    "(ucast (pc :: u16) OR BLOCK_REFUSED_BIT :: u32) \<noteq> BLOCK_EMPTY_PC"
    by metis+
qed

subsection \<open>Link maintenance leaves the cache alone\<close>

lemma patch_link_frame [simp]:
  "cache (dbt_arch_patch_link dbt s t) = cache dbt"
  "code_bitmap (dbt_arch_patch_link dbt s t) = code_bitmap dbt"
  "max_block_bytes (dbt_arch_patch_link dbt s t) = max_block_bytes dbt"
  "last_block_bytes (dbt_arch_patch_link dbt s t) = last_block_bytes dbt"
  by (simp_all add: dbt_arch_patch_link_def)

definition same_cache :: "z80_dbt \<Rightarrow> z80_dbt \<Rightarrow> bool" where
  "same_cache dbt' dbt \<longleftrightarrow> cache dbt' = cache dbt \<and> code_bitmap dbt' = code_bitmap dbt \<and>
     max_block_bytes dbt' = max_block_bytes dbt \<and> last_block_bytes dbt' = last_block_bytes dbt"

lemma repatch_walk_same: "same_cache (snd (repatch_walk n c i dbt)) dbt"
  by (induction n c i dbt rule: repatch_walk.induct) (auto simp: same_cache_def Let_def)

lemma unlink_walk_same: "same_cache (snd (unlink_walk n i dbt)) dbt"
  by (induction n i dbt rule: unlink_walk.induct) (auto simp: same_cache_def Let_def)

lemma links_repatch_same: "same_cache (dbt_links_repatch dbt pc c) dbt"
  using repatch_walk_same [of LINK_POOL_SIZE _ "link_head dbt pc" dbt]
    unlink_walk_same [of LINK_POOL_SIZE "link_head dbt pc" dbt]
  by (auto simp: dbt_links_repatch_def Let_def same_cache_def split: option.split)

lemma links_repatch_frame [simp]:
  "cache (dbt_links_repatch dbt pc c) = cache dbt"
  "code_bitmap (dbt_links_repatch dbt pc c) = code_bitmap dbt"
  "max_block_bytes (dbt_links_repatch dbt pc c) = max_block_bytes dbt"
  "last_block_bytes (dbt_links_repatch dbt pc c) = last_block_bytes dbt"
  using links_repatch_same [of dbt pc c] by (simp_all add: same_cache_def)


subsection \<open>The sweep\<close>

definition cleared :: "z80_block_entry \<Rightarrow> z80_block_entry" where
  "cleared e = e\<lparr>guest_pc := BLOCK_EMPTY_PC, native_code := None\<rparr>"

definition swept :: "u16 \<Rightarrow> nat \<Rightarrow> u16 \<Rightarrow> z80_block_entry \<Rightarrow> bool" where
  "swept addr n p e \<longleftrightarrow> unat (addr - p) < n \<and> guest_pc e \<noteq> BLOCK_EMPTY_PC \<and> unat (addr - p) < unat (span e)"

lemma probe_frame [simp]:
  "code_bitmap (invalidate_probe addr k dbt) = code_bitmap dbt"
  "max_block_bytes (invalidate_probe addr k dbt) = max_block_bytes dbt"
  by (simp_all add: invalidate_probe_def Let_def)

lemma probe_cache:
  assumes "k < 65536"
  shows "cache (invalidate_probe addr k dbt) p =
    (if unat (addr - p) = k \<and> guest_pc (cache dbt p) \<noteq> BLOCK_EMPTY_PC \<and> k < unat (span (cache dbt p))
     then cleared (cache dbt p) else cache dbt p)"
proof -
  have "unat (addr - p) = k \<longleftrightarrow> p = addr - of_nat k"
    using u16_eq_of_nat_iff [OF assms, of "addr - p"] by (auto simp: algebra_simps)
  then show ?thesis by (auto simp: invalidate_probe_def Let_def cleared_def)
qed

lemma sweep_frame [simp]:
  "code_bitmap (fold (invalidate_probe addr) ks dbt) = code_bitmap dbt"
  "max_block_bytes (fold (invalidate_probe addr) ks dbt) = max_block_bytes dbt"
  by (induction ks arbitrary: dbt) simp_all

lemma sweep_cache:
  "n \<le> 65536 \<Longrightarrow> cache (fold (invalidate_probe addr) [0..<n] dbt) p =
    (if swept addr n p (cache dbt p) then cleared (cache dbt p) else cache dbt p)"
proof (induction n)
  case (Suc n)
  then show ?case
    by (auto simp: probe_cache swept_def less_Suc_eq cleared_def)
qed (simp add: swept_def)

lemma invalidate_cache:
  assumes "max_block_bytes dbt \<le> 0xFFFF"
  shows "cache (dbt_invalidate_for_store dbt addr) p =
    (if swept addr (unat (max_block_bytes dbt)) p (cache dbt p) then cleared (cache dbt p) else cache dbt p)"
  using assms sweep_cache [of "unat (max_block_bytes dbt)" addr
      "dbt\<lparr>dbt_smc_hist := map_option (\<lambda>h. h (addr := h addr + 1)) (dbt_smc_hist dbt)\<rparr>" p]
  by (simp add: dbt_invalidate_for_store_def Let_def word_le_nat_alt)

lemma invalidate_frame [simp]:
  "max_block_bytes (dbt_invalidate_for_store dbt addr) = max_block_bytes dbt"
  "code_bitmap (dbt_invalidate_for_store dbt addr) = (code_bitmap dbt) (addr := 0)"
  by (simp_all add: dbt_invalidate_for_store_def Let_def)

lemma entry_swept:
  assumes "entry_ok dbt pc" "translation dbt pc \<noteq> None"
  shows "swept addr (unat (max_block_bytes dbt)) pc (cache dbt pc) \<longleftrightarrow> covers dbt pc addr"
  using assms by (auto simp: entry_ok_def translation_def covers_def swept_def Let_def word_le_nat_alt
      split: if_splits)

lemma covers_marked:
  assumes "entry_ok dbt pc" "covers dbt pc addr" "fits dbt pc"
  shows "code_bitmap dbt addr \<noteq> 0"
proof -
  have "code_bitmap dbt (pc + of_nat (unat (addr - pc))) \<noteq> 0"
    using assms by (auto simp: entry_ok_def covers_def translation_def Let_def split: if_splits)
  then show ?thesis by simp
qed

lemma note_store_translation:
  assumes "cache_wf dbt"
  shows "translation (dbt_note_store dbt addr) pc =
    (if covers dbt pc addr \<and> code_bitmap dbt addr \<noteq> 0 then None else translation dbt pc)"
proof (cases "code_bitmap dbt addr = 0")
  case True
  then show ?thesis by (simp add: dbt_note_store_def)
next
  case False
  have w: "max_block_bytes dbt \<le> 0xFFFF" and e: "entry_ok dbt pc" using assms by (auto simp: cache_wf_def)
  have "translation (dbt_note_store dbt addr) pc =
    (if swept addr (unat (max_block_bytes dbt)) pc (cache dbt pc) then None else translation dbt pc)"
    using False invalidate_cache [OF w, of addr pc]
    by (simp add: dbt_note_store_def translation_def cleared_def)
  with False entry_swept [OF e, of addr] show ?thesis
    by (cases "translation dbt pc") (auto simp: covers_def)
qed

lemma note_store_span:
  assumes "cache_wf dbt"
  shows "span (cache (dbt_note_store dbt addr) pc) = span (cache dbt pc)"
  using assms by (simp add: dbt_note_store_def invalidate_cache cache_wf_def cleared_def)

lemma entry_ok_iff:
  "entry_ok dbt pc \<longleftrightarrow> (let e = cache dbt pc in
     guest_pc e \<in> {BLOCK_EMPTY_PC, ucast pc OR BLOCK_REFUSED_BIT} \<and> native_code e = None \<or>
     guest_pc e = ucast pc \<and> translation dbt pc \<noteq> None \<and> span e \<le> max_block_bytes dbt \<and>
       (fits dbt pc \<longrightarrow> (\<forall>k < unat (span e). code_bitmap dbt (pc + of_nat k) \<noteq> 0)))"
  by (auto simp: entry_ok_def translation_def Let_def)

lemma fits_cong: "span (cache dbt' pc) = span (cache dbt pc) \<Longrightarrow> fits dbt' pc = fits dbt pc"
  by (simp add: fits_def)

lemma note_store_wf:
  assumes wf: "cache_wf dbt"
  shows "cache_wf (dbt_note_store dbt addr)"
proof (cases "code_bitmap dbt addr = 0")
  case True
  with wf show ?thesis by (simp add: dbt_note_store_def)
next
  case False
  have w: "max_block_bytes dbt \<le> 0xFFFF" and e: "entry_ok dbt pc" for pc
    using wf by (auto simp: cache_wf_def)
  have "entry_ok (dbt_invalidate_for_store dbt addr) pc" for pc
  proof (cases "swept addr (unat (max_block_bytes dbt)) pc (cache dbt pc)")
    case True
    then show ?thesis using invalidate_cache [OF w] by (simp add: entry_ok_def cleared_def Let_def)
  next
    case False
    then have c: "cache (dbt_invalidate_for_store dbt addr) pc = cache dbt pc"
      using invalidate_cache [OF w] by simp
    show ?thesis
    proof (cases "translation dbt pc")
      case None
      with c e [of pc] show ?thesis by (auto simp: entry_ok_def translation_def fits_def Let_def split: if_splits)
    next
      case (Some code)
      with False entry_swept [OF e, of pc addr] have "\<not> covers dbt pc addr" by simp
      with Some have "unat (span (cache dbt pc)) \<le> unat (addr - pc)" by (simp add: covers_def)
      then have "pc + of_nat k \<noteq> addr" if "k < unat (span (cache dbt pc))" for k
        using that take_bit_nat_less_eq_self [of 16 k] by (auto simp: unat_of_nat)
      moreover have "fits (dbt_invalidate_for_store dbt addr) pc = fits dbt pc" by (simp add: fits_def c)
      ultimately show ?thesis using c e [of pc] Some by (auto simp: entry_ok_def translation_def Let_def)
    qed
  qed
  with False w show ?thesis by (simp add: cache_wf_def dbt_note_store_def)
qed

subsection \<open>The sweep over a range of bytes\<close>

text \<open>Some iteration \<open>k < n\<close> of the loop looks at slot \<open>q\<close> with a gap smaller than \<open>s\<close>.\<close>

definition range_hit :: "u16 \<Rightarrow> u32 \<Rightarrow> nat \<Rightarrow> u16 \<Rightarrow> u32 \<Rightarrow> bool" where
  "range_hit lo window n q s \<longleftrightarrow>
     (\<exists>k < n. q = ucast (ucast lo + of_nat k - window + 1 :: u32) \<and>
        (if window - 1 > of_nat k then window - 1 - of_nat k else 0) < s)"

lemma range_probe_frame [simp]:
  "code_bitmap (sweep_probe lo w k dbt) = code_bitmap dbt"
  "max_block_bytes (sweep_probe lo w k dbt) = max_block_bytes dbt"
  by (simp_all add: sweep_probe_def Let_def)

lemma range_fold_frame [simp]:
  "code_bitmap (fold (\<lambda>k. sweep_probe lo w (of_nat k)) ks dbt) = code_bitmap dbt"
  "max_block_bytes (fold (\<lambda>k. sweep_probe lo w (of_nat k)) ks dbt) = max_block_bytes dbt"
  by (induction ks arbitrary: dbt) simp_all

lemma range_probe_cache:
  "cache (sweep_probe lo w k dbt) q =
    (if guest_pc (cache dbt q) \<noteq> BLOCK_EMPTY_PC \<and> q = ucast (ucast lo + k - w + 1) \<and>
        (if w - 1 > k then w - 1 - k else 0) < span (cache dbt q)
     then cleared (cache dbt q) else cache dbt q)"
  unfolding sweep_probe_def Let_def cache_index_id cleared_def by (auto simp: not_le)

lemma range_fold_cache:
  "cache (fold (\<lambda>k. sweep_probe lo w (of_nat k)) [0..<n] dbt) q =
    (if guest_pc (cache dbt q) \<noteq> BLOCK_EMPTY_PC \<and> range_hit lo w n q (span (cache dbt q))
     then cleared (cache dbt q) else cache dbt q)"
proof (induction n)
  case 0
  then show ?case by (simp add: range_hit_def)
next
  case (Suc n)
  have "range_hit lo w (Suc n) q s \<longleftrightarrow> range_hit lo w n q s \<or>
      q = ucast (ucast lo + of_nat n - w + 1 :: u32) \<and> (if w - 1 > of_nat n then w - 1 - of_nat n else 0) < s" for s
    unfolding range_hit_def less_Suc_eq by blast
  with Suc show ?case by (simp add: range_probe_cache) (auto simp: cleared_def)
qed

lemma take_bit_down:
  fixes x y :: int
  shows "take_bit 16 (take_bit 32 x + take_bit 32 y) = take_bit 16 (x + y)"
    "take_bit 16 (take_bit 32 x - take_bit 32 y) = take_bit 16 (x - y)"
  using take_bit_add [of 16 "take_bit 32 x" "take_bit 32 y"] take_bit_diff [of 16 "take_bit 32 x" "take_bit 32 y"]
  by (simp_all add: take_bit_add take_bit_diff)

lemma ucast_down:
  fixes x y :: u32
  shows "(ucast (x + y) :: u16) = ucast x + ucast y" "(ucast (x - y) :: u16) = ucast x - ucast y"
    "(ucast (of_nat k :: u32) :: u16) = of_nat k" "(ucast (ucast (lo :: u16) :: u32) :: u16) = lo"
    "(ucast x :: u16) = of_nat (unat x)"
  by (transfer, simp add: take_bit_down)+

lemma range_slot:
  "(ucast (ucast lo + of_nat k - w + 1 :: u32) :: u16) = lo + of_nat k - of_nat (unat w) + 1"
proof -
  have "(ucast (1 :: u32) :: u16) = 1" by simp
  then show ?thesis unfolding ucast_down(1-4) ucast_down(5) [of w] by simp
qed

text \<open>The loop visits the slot of every block that reaches into the range.\<close>

lemma range_hits:
  assumes w: "s \<le> window" "window \<le> 0xFFFF" and i: "i < n" "n \<le> 65536"
    and c: "unat (lo + of_nat i - q) < unat s"
  shows "range_hit lo window (n + unat window) q s"
proof -
  define d where "d = unat (lo + of_nat i - q)"
  define k where "k = i + (unat window - 1) - d"
  have ds: "d < unat s" "unat s \<le> unat window" "unat window \<le> 65535"
    using w c by (simp_all add: d_def word_le_nat_alt)
  have k: "k < n + unat window" "k < 2 ^ 32" and ki: "k + d + 1 = i + unat window"
    using ds i by (simp_all add: k_def)
  have uk: "unat (of_nat k :: u32) = k" using k(2) by (simp add: unat_of_nat take_bit_nat_eq_self)
  have "(1 :: u32) \<le> window" using ds by (simp add: word_le_nat_alt)
  then have uw: "unat (window - 1) = unat window - 1" by (simp add: unat_sub)
  have "q = lo + of_nat i - of_nat d" by (simp add: d_def)
  also have "\<dots> = lo + of_nat k - of_nat (unat window) + 1"
  proof -
    have "(of_nat (k + d + 1) :: u16) = of_nat (i + unat window)" by (simp only: ki)
    then show ?thesis by (simp add: algebra_simps)
  qed
  also have "\<dots> = ucast (ucast lo + of_nat k - window + 1 :: u32)"
    by (simp only: range_slot)
  finally have q: "q = ucast (ucast lo + of_nat k - window + 1 :: u32)" .
  have g: "(if window - 1 > of_nat k then window - 1 - of_nat k else 0) < s"
  proof (cases "window - 1 > of_nat k")
    case True
    then have "unat (window - 1 - of_nat k) = unat window - 1 - k"
      by (simp add: unat_sub uw uk)
    then show ?thesis using True ds by (simp add: word_less_nat_alt k_def)
  next
    case False
    then show ?thesis using ds by (simp add: word_less_nat_alt)
  qed
  show ?thesis unfolding range_hit_def using k(1) q g by blast
qed

subsection \<open>Installing a block\<close>

lemma mark_fold:
  "e \<le> 65536 \<Longrightarrow> fold (\<lambda>a m. m (of_nat a := 1)) [s..<e] m (x :: u16) =
    (if s \<le> unat x \<and> unat x < e then 1 else m x)"
proof (induction e)
  case (Suc e)
  have "x = of_nat e \<longleftrightarrow> unat x = e" using Suc.prems by (simp add: u16_eq_of_nat_iff)
  with Suc show ?case by (cases "s \<le> e") (auto simp: less_Suc_eq)
qed simp

lemma mark_bitmap:
  "end' \<le> 0xFFFF \<Longrightarrow> code_bitmap (dbt_mark_block_bytes dbt start end') x =
    (if unat start \<le> unat x \<and> unat x < unat end' then 1 else code_bitmap dbt x)"
  by (simp add: dbt_mark_block_bytes_def Let_def mark_fold word_le_nat_alt)


lemma mark_bytes_length:
  assumes "end' \<le> 0xFFFF"
  shows "unat ((end' - ucast pc) AND 0xFFFF :: u32) =
    (if unat pc \<le> unat end' then unat end' - unat (pc :: u16) else 0x10000 + unat end' - unat pc)"
proof -
  have e: "unat end' < 65536" using assms by (simp add: word_le_nat_alt)
  have p: "unat pc < 65536" by (rule unat_u16_less)
  have "(end' - ucast pc) AND 0xFFFF = take_bit 16 (end' - ucast pc)"
    by (simp add: take_bit_eq_mask mask_eq_exp_minus_1)
  then have "unat ((end' - ucast pc) AND 0xFFFF) = unat (take_bit 16 (end' - ucast pc))" by (rule arg_cong)
  also have "\<dots> = take_bit 16 (unat (end' - ucast pc))" by (rule unsigned_take_bit_eq)
  also have "\<dots> = unat (end' - ucast pc) mod 65536" by (simp only: take_bit_nat_def) simp
  also have "unat (end' - ucast pc) = (if unat pc \<le> unat end' then unat end' - unat pc else unat end' + 2 ^ 32 - unat pc)"
    by (simp add: unat_sub_if_size word_size)
  also have "\<dots> mod 65536 = (if unat pc \<le> unat end' then unat end' - unat pc else 0x10000 + unat end' - unat pc)"
  proof (cases "unat pc \<le> unat end'")
    case False
    have "x + 2 ^ 32 - y = (65536 + x - y) + 65535 * 65536" if "y < 65536" for x y :: nat using that by simp
    then have "unat end' + 2 ^ 32 - unat pc = (65536 + unat end' - unat pc) + 65535 * 65536" using p by blast
    then have "(unat end' + 2 ^ 32 - unat pc) mod 65536 = (65536 + unat end' - unat pc) mod 65536"
      by (simp only: mod_mult_self1)
    also have "\<dots> = 65536 + unat end' - unat pc" using False e by (intro mod_less) linarith
    finally show ?thesis using False by simp
  qed (use e in simp)
  finally show ?thesis .
qed

lemma mark_bytes_le: "end' \<le> 0xFFFF \<Longrightarrow> unat ((end' - ucast (pc :: u16)) AND 0xFFFF :: u32) \<le> 65535"
  using mark_bytes_length [of end' pc] by (simp add: word_le_nat_alt not_le) linarith

lemma mark_frame [simp]:
  "cache (dbt_mark_block_bytes dbt pc end') = cache dbt"
  "max_block_bytes (dbt_mark_block_bytes dbt pc end') =
     max (max_block_bytes dbt) ((end' - ucast pc) AND 0xFFFF)"
  "last_block_bytes (dbt_mark_block_bytes dbt pc end') = (end' - ucast pc) AND 0xFFFF"
  by (simp_all add: dbt_mark_block_bytes_def Let_def max_def order_less_imp_le)

text \<open>The translator's commit of a block: \<open>dbt_mark_block_bytes\<close> at the end of
  \<open>dbt_translate_block\<close>, then \<open>dbt_cache_insert\<close> in \<open>dbt_run\<close>.\<close>

definition dbt_commit_block :: "z80_dbt \<Rightarrow> u16 \<Rightarrow> u32 \<Rightarrow> u32 \<Rightarrow> z80_dbt" where
  "dbt_commit_block dbt pc end' code =
     dbt_cache_insert (dbt_mark_block_bytes dbt pc end') pc (Some code)"

lemma insert_cache:
  "cache (dbt_cache_insert dbt pc code) q =
     (if q = pc then \<lparr>guest_pc = (if code \<noteq> None then ucast pc else ucast pc OR BLOCK_REFUSED_BIT),
        span = (if code \<noteq> None then last_block_bytes dbt else 0xFFFFFFFF), native_code = code\<rparr>
      else cache dbt q)"
  by (simp add: dbt_cache_insert_def Let_def)

lemma insert_frame [simp]:
  "code_bitmap (dbt_cache_insert dbt pc code) = code_bitmap dbt"
  "max_block_bytes (dbt_cache_insert dbt pc code) = max_block_bytes dbt"
  by (simp_all add: dbt_cache_insert_def Let_def)

lemma insert_translation:
  "translation (dbt_cache_insert dbt pc code) q = (if q = pc then code else translation dbt q)"
  by (auto simp: translation_def insert_cache)

lemma entry_ok_mono:
  assumes "entry_ok dbt pc" "cache dbt' pc = cache dbt pc" "max_block_bytes dbt \<le> max_block_bytes dbt'"
    "\<And>a. code_bitmap dbt a \<noteq> 0 \<Longrightarrow> code_bitmap dbt' a \<noteq> 0"
  shows "entry_ok dbt' pc"
  using assms by (auto simp: entry_ok_def fits_def Let_def)

text \<open>What is left after the sweep was there before and does not reach into the range.\<close>

lemma sweep_cache_cases:
  obtains "cache (smc_sweep_forward dbt lo len) q = cache dbt q"
  | "cache (smc_sweep_forward dbt lo len) q = cleared (cache dbt q)"
proof -
  have "cache (sweep_range dbt lo len) q \<in> {cache dbt q, cleared (cache dbt q)}"
    by (simp add: sweep_range_def Let_def range_fold_cache)
  with that show thesis by (cases "smc_sweep_forward dbt lo len = dbt") (auto simp: smc_sweep_forward_def split: if_splits)
qed

lemma sweep_forward_frame [simp]:
  "code_bitmap (smc_sweep_forward dbt lo len) = code_bitmap dbt"
  "max_block_bytes (smc_sweep_forward dbt lo len) = max_block_bytes dbt"
  by (simp_all add: smc_sweep_forward_def sweep_range_def Let_def)

lemma sweep_wf:
  assumes "cache_wf dbt"
  shows "cache_wf (smc_sweep_forward dbt lo len)"
proof -
  have "entry_ok (smc_sweep_forward dbt lo len) q" for q
  proof (rule sweep_cache_cases [of dbt lo len q])
    assume "cache (smc_sweep_forward dbt lo len) q = cache dbt q"
    then show ?thesis using assms by (auto simp: cache_wf_def intro: entry_ok_mono [of dbt])
  next
    assume "cache (smc_sweep_forward dbt lo len) q = cleared (cache dbt q)"
    then show ?thesis by (simp add: entry_ok_def cleared_def Let_def)
  qed
  then show ?thesis using assms by (simp add: cache_wf_def)
qed

lemma sweep_span: "span (cache (smc_sweep_forward dbt lo len) q) = span (cache dbt q)"
  by (cases rule: sweep_cache_cases [of dbt lo len q]) (simp_all add: cleared_def)

lemma sweep_covers:
  assumes wf: "cache_wf dbt" and len: "len \<le> 0x10000"
    and c: "covers (smc_sweep_forward dbt lo len) q a"
  shows "covers dbt q a" "\<And>i. fits dbt q \<Longrightarrow> i < unat len \<Longrightarrow> a \<noteq> lo + of_nat i"
proof -
  have same: "cache (smc_sweep_forward dbt lo len) q = cache dbt q"
    using c by (cases rule: sweep_cache_cases [of dbt lo len q])
      (auto simp: covers_def translation_def cleared_def split: if_splits)
  have "covers (smc_sweep_forward dbt lo len) q a = covers dbt q a"
    unfolding covers_def translation_def same ..
  with c show cd: "covers dbt q a" by blast
  fix i assume fit: "fits dbt q" and i: "i < unat len"
  show "a \<noteq> lo + of_nat i"
  proof
    assume a: "a = lo + of_nat i"
    have e: "entry_ok dbt q" and w: "max_block_bytes dbt \<le> 0xFFFF" using wf by (auto simp: cache_wf_def)
    have "code_bitmap dbt (lo + of_nat i) \<noteq> 0" using covers_marked [OF e cd fit] a by simp
    with i have f: "smc_sweep_forward dbt lo len = sweep_range dbt lo len"
      by (auto simp: smc_sweep_forward_def list_ex_iff)
    have s: "span (cache dbt q) \<le> max_block_bytes dbt" and ne: "guest_pc (cache dbt q) \<noteq> BLOCK_EMPTY_PC"
      using e cd by (auto simp: entry_ok_def covers_def translation_def Let_def split: if_splits)
    have t: "unat (len + max_block_bytes dbt) = unat len + unat (max_block_bytes dbt)"
      using len w by (simp add: unat_word_ariths word_le_nat_alt)
    have "unat (lo + of_nat i - q) < unat (span (cache dbt q))" using cd a by (simp add: covers_def)
    then have "range_hit lo (max_block_bytes dbt) (unat len + unat (max_block_bytes dbt)) q (span (cache dbt q))"
      using s w i len by (intro range_hits) (auto simp: word_le_nat_alt)
    then have "cache (sweep_range dbt lo len) q = cleared (cache dbt q)"
      using ne t by (simp add: sweep_range_def Let_def range_fold_cache)
    then have "guest_pc (cache (sweep_range dbt lo len) q) = BLOCK_EMPTY_PC" by (simp add: cleared_def)
    with ne show False unfolding f [symmetric] same by blast
  qed
qed

lemma commit_wf:
  assumes wf: "cache_wf dbt" and e: "end' \<le> 0xFFFF"
  shows "cache_wf (dbt_commit_block dbt pc end' code)"
proof -
  let ?m = "dbt_mark_block_bytes dbt pc end'" and ?d = "dbt_commit_block dbt pc end' code"
  note len = mark_bytes_length [OF e, of pc]
  have "entry_ok ?d q" for q
  proof (cases "q = pc")
    case True
    have "code_bitmap ?m (pc + of_nat k) \<noteq> 0" if "fits ?d pc" "k < unat ((end' - ucast pc) AND 0xFFFF)" for k
    proof -
      have b: "unat pc \<le> unat end'"
        using that(1) by (simp add: fits_def dbt_commit_block_def insert_cache len split: if_splits)
      with that(2) have k: "k < unat end' - unat pc" by (simp only: len if_True)
      have "unat (pc + of_nat k) = unat pc + k"
        using k e by (simp add: unat_word_ariths unat_of_nat_u16 word_le_nat_alt)
      moreover from k have "unat pc + k < unat end'" by simp
      ultimately show ?thesis using e by (simp add: mark_bitmap)
    qed
    with True show ?thesis
      by (simp add: entry_ok_def) (simp add: dbt_commit_block_def insert_cache)
  next
    case False
    have "entry_ok dbt q" using wf by (simp add: cache_wf_def)
    then show ?thesis
      by (rule entry_ok_mono) (use False e in \<open>simp_all add: dbt_commit_block_def insert_cache mark_bitmap\<close>)
  qed
  moreover have "max_block_bytes ?d \<le> 0xFFFF"
    using wf mark_bytes_le [OF e, of pc] by (simp add: cache_wf_def dbt_commit_block_def word_le_nat_alt max_def)
  ultimately show ?thesis by (simp add: cache_wf_def)
qed

lemma commit_translation:
  "translation (dbt_commit_block dbt pc end' code) q = (if q = pc then Some code else translation dbt q)"
  by (simp add: dbt_commit_block_def insert_translation) (simp add: translation_def)

lemma refuse_wf: "cache_wf dbt \<Longrightarrow> cache_wf (dbt_cache_insert dbt pc None)"
  by (auto simp: cache_wf_def entry_ok_def fits_def insert_cache)

lemma invalidate_all_wf: "cache_wf (dbt_cache_invalidate_all dbt)"
  by (simp add: cache_wf_def entry_ok_def dbt_cache_invalidate_all_def Let_def)

lemma cache_wf_cong:
  "same_cache dbt' dbt \<Longrightarrow> cache_wf dbt' = cache_wf dbt"
  by (simp add: cache_wf_def entry_ok_def fits_def same_cache_def)

section \<open>Links never go to a stale translation\<close>

definition live_target :: "z80_dbt \<Rightarrow> u16 \<Rightarrow> u32 \<Rightarrow> bool" where
  "live_target dbt pc site \<longleftrightarrow> code_buf dbt site \<in> {0xE8, 0xE9} \<and>
     branch_target (code_buf dbt) site =
       (case translation dbt pc of Some code \<Rightarrow> code | None \<Rightarrow> link_fallback (code_buf dbt) site)"

definition sites_sep :: "z80_dbt \<Rightarrow> (u16 \<Rightarrow> u32 list) \<Rightarrow> bool" where
  "sites_sep dbt H \<longleftrightarrow> (\<forall>pc pc' x y. x \<in> set (H pc) \<longrightarrow> y \<in> set (H pc') \<longrightarrow> x \<noteq> y \<longrightarrow>
     sites_apart (site_off (link_pool dbt x)) (site_off (link_pool dbt y)))"

definition links_live :: "z80_dbt \<Rightarrow> (u16 \<Rightarrow> u32 list) \<Rightarrow> u16 \<Rightarrow> bool" where
  "links_live dbt H pc \<longleftrightarrow> (\<forall>x \<in> set (H pc). live_target dbt pc (site_off (link_pool dbt x)))"

definition links_ok :: "z80_dbt \<Rightarrow> bool" where
  "links_ok dbt \<longleftrightarrow> (\<exists>H F. link_chains dbt H F \<and> sites_sep dbt H \<and> (\<forall>pc. links_live dbt H pc))"

lemma repatch_code_buf:
  assumes "link_chains dbt H F"
  shows "code_buf (dbt_links_repatch dbt pc t) = x64_link.patch_all t (sites dbt (H pc)) (code_buf dbt)"
    "site_off (link_pool (dbt_links_repatch dbt pc t) x) = site_off (link_pool dbt x)"
  using assms by (cases t; simp add: links_repatch_Some links_repatch_None)+

lemma repatch_live:
  assumes c: "link_chains dbt H F" and sep: "sites_sep dbt H"
    and live: "\<And>q. q \<noteq> pc \<Longrightarrow> links_live dbt H q"
    and opc: "\<And>q x. x \<in> set (H q) \<Longrightarrow> code_buf dbt (site_off (link_pool dbt x)) \<in> {0xE8, 0xE9}"
  shows "links_ok (dbt_links_repatch dbt pc (translation dbt pc))" (is "links_ok ?d")
proof -
  note cb = repatch_code_buf [OF c]
  have tr: "translation ?d q = translation dbt q" for q by (simp add: translation_def)
  have apart: "s = site_off (link_pool dbt x) \<or> sites_apart s (site_off (link_pool dbt x))"
    if "s \<in> set (sites dbt (H pc))" "x \<in> set (H q)" for s x q
    using that sep by (auto simp: sites_sep_def)
  have oc: "code_buf ?d (site_off (link_pool dbt x)) = code_buf dbt (site_off (link_pool dbt x))"
    if "x \<in> set (H q)" for q x
    using x64_link.patch_all_opcode [of "sites dbt (H pc)", OF apart, OF _ that] by (simp add: cb)
  have op: "code_buf dbt (site_off (link_pool dbt x)) \<in> {0xE8, 0xE9}" if "x \<in> set (H q)" for q x
    using opc [OF that] .
  have here: "live_target ?d pc (site_off (link_pool dbt x))" if "x \<in> set (H pc)" for x
  proof -
    have m: "site_off (link_pool dbt x) \<in> set (sites dbt (H pc))" using that by simp
    show ?thesis
      using x64_link.patch_all_goes [OF m apart, OF _ that]
        x64_link.patch_all_fallback [of "sites dbt (H pc)", OF apart, OF _ that]
        oc [OF that] op [OF that]
      by (simp add: live_target_def tr cb split: option.split)
  qed
  have there: "live_target ?d q (site_off (link_pool dbt x))" if "x \<in> set (H q)" "q \<noteq> pc" for q x
  proof -
    have "sites_apart s (site_off (link_pool dbt x))" if "s \<in> set (sites dbt (H pc))" for s
      using that \<open>x \<in> set (H q)\<close> \<open>q \<noteq> pc\<close> sep link_chainsD(5) [OF c, of q pc]
      by (auto simp: sites_sep_def) (metis disjoint_iff)
    from x64_link.patch_all_other [of "sites dbt (H pc)", OF this] live [OF that(2)] that(1) oc [OF that(1)]
    show ?thesis by (simp add: live_target_def links_live_def tr cb split: option.splits)
  qed
  define H' where "H' = (if translation dbt pc = None then H (pc := []) else H)"
  have "\<exists>F'. link_chains ?d H' F'"
    using link_chains_None [OF c, of pc] link_chains_Some [OF c, of pc]
    by (cases "translation dbt pc") (auto simp: H'_def)
  moreover have "sites_sep ?d H'" using sep by (auto simp: sites_sep_def cb H'_def split: if_splits)
  moreover have "links_live ?d H' q" for q
    using here there by (auto simp: links_live_def H'_def cb split: if_splits)
  ultimately show ?thesis unfolding links_ok_def by blast
qed

lemma cache_update_links:
  assumes ok: "links_ok dbt" and t: "translation (dbt\<lparr>cache := (cache dbt) (pc := e)\<rparr>) pc = t"
  shows "links_ok (dbt_links_repatch (dbt\<lparr>cache := (cache dbt) (pc := e)\<rparr>) pc t)"
proof -
  let ?d = "dbt\<lparr>cache := (cache dbt) (pc := e)\<rparr>"
  obtain H F where "link_chains dbt H F" "sites_sep dbt H" and l: "\<And>q. links_live dbt H q"
    using ok by (auto simp: links_ok_def)
  then have "link_chains ?d H F" "sites_sep ?d H"
    by (simp_all add: link_chains_def sites_sep_def)
  moreover have "links_live ?d H q" if "q \<noteq> pc" for q
    using l [of q] that
    by (simp add: links_live_def live_target_def translation_def cong: option.case_cong)
  moreover have "code_buf ?d (site_off (link_pool ?d x)) \<in> {0xE8, 0xE9}" if "x \<in> set (H q)" for q x
    using l [of q] that by (simp add: links_live_def live_target_def)
  ultimately show ?thesis using repatch_live [of ?d H F pc] t by simp
qed

lemma insert_links: "links_ok dbt \<Longrightarrow> links_ok (dbt_cache_insert dbt pc code)"
  unfolding dbt_cache_insert_def Let_def cache_index_id
  by (rule cache_update_links) (auto simp: translation_def)

lemma probe_links: "links_ok dbt \<Longrightarrow> links_ok (invalidate_probe addr k dbt)"
  unfolding invalidate_probe_def Let_def cache_index_id
  by (auto intro!: cache_update_links simp: translation_def)

lemma links_ok_cong:
  assumes "link_pool dbt' = link_pool dbt" "link_head dbt' = link_head dbt"
    "link_free dbt' = link_free dbt" "link_used dbt' = link_used dbt"
    "cache dbt' = cache dbt" "code_buf dbt' = code_buf dbt"
  shows "links_ok dbt' = links_ok dbt"
proof -
  have "translation dbt' = translation dbt" by (simp add: fun_eq_iff translation_def assms)
  then show ?thesis
    by (simp add: links_ok_def link_chains_cong [OF assms(1-4)] sites_sep_def links_live_def
        live_target_def assms(1,6) cong: option.case_cong)
qed

lemma sweep_links: "links_ok dbt \<Longrightarrow> links_ok (fold (invalidate_probe addr) ks dbt)"
  by (induction ks arbitrary: dbt) (simp_all add: probe_links)

lemma invalidate_links:
  assumes "links_ok dbt"
  shows "links_ok (dbt_invalidate_for_store dbt addr)"
proof -
  define d where "d = dbt\<lparr>dbt_smc_hist := map_option (\<lambda>h. h (addr := h addr + 1)) (dbt_smc_hist dbt)\<rparr>"
  have "links_ok d" using assms by (subst links_ok_cong [of _ dbt]) (simp_all add: d_def)
  then have "links_ok (fold (invalidate_probe addr) [0..<unat (max_block_bytes d)] d)" by (rule sweep_links)
  then show ?thesis
    unfolding dbt_invalidate_for_store_def Let_def d_def [symmetric]
    by (subst links_ok_cong) simp_all
qed

lemma range_probe_links: "links_ok dbt \<Longrightarrow> links_ok (sweep_probe lo w k dbt)"
  unfolding sweep_probe_def Let_def cache_index_id
  by (auto intro!: cache_update_links simp: translation_def)

lemma range_fold_links: "links_ok dbt \<Longrightarrow> links_ok (fold (\<lambda>k. sweep_probe lo w (of_nat k)) ks dbt)"
  by (induction ks arbitrary: dbt) (simp_all add: range_probe_links)

lemma sweep_forward_links:
  assumes "links_ok dbt"
  shows "links_ok (smc_sweep_forward dbt lo len)"
proof -
  have "links_ok (sweep_range dbt lo len)"
    unfolding sweep_range_def Let_def
    using range_fold_links [OF assms] by (subst links_ok_cong) simp_all
  with assms show ?thesis by (simp add: smc_sweep_forward_def)
qed

lemma note_store_links: "links_ok dbt \<Longrightarrow> links_ok (dbt_note_store dbt addr)"
  by (simp add: dbt_note_store_def invalidate_links)

lemma invalidate_all_links: "links_ok (dbt_cache_invalidate_all dbt)"
  unfolding links_ok_def
  by (rule exI [of _ "\<lambda>_. []"], rule exI [of _ "[]"], intro conjI allI)
    (simp_all add: link_chains_def sites_sep_def links_live_def dbt_cache_invalidate_all_def)


text \<open>A site that overlaps no registered one, as every freshly emitted one does.\<close>

definition fresh_site :: "z80_dbt \<Rightarrow> u32 \<Rightarrow> bool" where
  "fresh_site dbt site \<longleftrightarrow> (\<forall>i. i < link_used dbt \<longrightarrow> sites_apart site (site_off (link_pool dbt i)))"

text \<open>The five bytes of every registered site are as before.\<close>

definition keeps_sites :: "z80_dbt \<Rightarrow> code_buffer \<Rightarrow> bool" where
  "keeps_sites dbt b \<longleftrightarrow> (\<forall>i k. i < link_used dbt \<longrightarrow> k \<le> 4 \<longrightarrow>
     b (site_off (link_pool dbt i) + k) = code_buf dbt (site_off (link_pool dbt i) + k))"

lemma same_bytes_target:
  assumes "\<And>k. k \<le> 4 \<Longrightarrow> b (s + k) = b' (s + k)"
  shows "branch_target b s = branch_target b' s" "b s = b' s" "link_fallback b s = link_fallback b' s"
proof -
  show o: "b s = b' s" using assms [of 0] by simp
  show "branch_target b s = branch_target b' s"
    unfolding branch_target_def
    using assms [of 1] assms [of 2] assms [of 3] assms [of 4]
    by (intro arg_cong2 [where f = "(+)"] read32_cong) (simp_all add: add.assoc)
  show "link_fallback b s = link_fallback b' s"
    using o by (simp add: link_fallback_def)
qed

lemma chain_used: "link_chains dbt H F \<Longrightarrow> x \<in> set (H pc) \<Longrightarrow> x < link_used dbt"
  using link_chainsD(7) [of dbt H F] by blast

lemma code_emitted_links:
  assumes ok: "links_ok dbt" and keep: "keeps_sites dbt b"
  shows "links_ok (dbt\<lparr>code_buf := b\<rparr>)"
proof -
  obtain H F where c: "link_chains dbt H F" and sep: "sites_sep dbt H" and l: "\<And>q. links_live dbt H q"
    using ok by (auto simp: links_ok_def)
  have same: "branch_target b (site_off (link_pool dbt x)) = branch_target (code_buf dbt) (site_off (link_pool dbt x))"
      "b (site_off (link_pool dbt x)) = code_buf dbt (site_off (link_pool dbt x))"
      "link_fallback b (site_off (link_pool dbt x)) = link_fallback (code_buf dbt) (site_off (link_pool dbt x))"
    if "x \<in> set (H q)" for x q
    by (rule same_bytes_target, use keep chain_used [OF c that] in \<open>simp add: keeps_sites_def\<close>)+
  have "links_live (dbt\<lparr>code_buf := b\<rparr>) H q" for q
    using l [of q] same by (simp add: links_live_def live_target_def translation_def cong: option.case_cong)
  with c sep have "link_chains (dbt\<lparr>code_buf := b\<rparr>) H F \<and> sites_sep (dbt\<lparr>code_buf := b\<rparr>) H \<and>
      (\<forall>q. links_live (dbt\<lparr>code_buf := b\<rparr>) H q)"
    by (simp add: link_chains_def sites_sep_def)
  then show ?thesis unfolding links_ok_def by blast
qed

text \<open>Where an unlinked site goes: the probe behind a jump, or the one behind a call and its landing.\<close>

lemma link_fallback_eq: "link_fallback b s = (if b s = 0xE8 then s + 47 else s + 5)"
  by (simp add: link_fallback_def CALL_LANDING_BYTES_def)

text \<open>What both link units do: register the site, then emit a branch with opcode \<open>opc\<close> to the
  block of \<open>pc\<close> or to \<open>probe\<close>.\<close>

definition emit_branch :: "u8 \<Rightarrow> code_buffer \<Rightarrow> u32 \<Rightarrow> u32 \<Rightarrow> code_buffer" where
  "emit_branch opc b off target = write32 (b (off := opc)) (off + 1) (target - (off + 5))"

definition emit_link :: "u8 \<Rightarrow> u32 \<Rightarrow> z80_dbt \<Rightarrow> u16 \<Rightarrow> u32 \<Rightarrow> z80_dbt" where
  "emit_link opc probe dbt pc site =
     (let (ok, d) = dbt_link_record dbt pc site
      in d\<lparr>code_buf := emit_branch opc (code_buf d) site
             (if ok \<and> translation d pc \<noteq> None then the (translation d pc) else probe)\<rparr>)"

lemma emit_edge_eq: "emit_edge_link strict dbt pc site = (if strict then dbt else emit_link 0xE9 (site + 5) dbt pc site)"
  by (auto simp: emit_edge_link_def emit_link_def emit_branch_def emit_jmp_rel32_to_def translation_def
      Let_def split: prod.split)

lemma emit_call_edge_eq:
  "emit_call_edge_link use_ras strict dbt target pc_after site =
     (if \<not> use_ras \<or> strict then emit_edge_link strict dbt target site
      else emit_link 0xE9 (site + 19) (emit_link 0xE8 (site + 47) dbt target site) pc_after (site + 14))"
proof -
  have n: "site + 5 + 4 + 5 = site + 14" "site + 14 + 5 = site + 19" "site + 5 + CALL_LANDING_BYTES = site + 47"
    by (simp_all add: CALL_LANDING_BYTES_def)
  obtain ok d where d: "dbt_link_record dbt target site = (ok, d)" by fastforce
  have "(if ok \<and> guest_pc (cache d target) = ucast target \<and> native_code (cache d target) \<noteq> None
      then the (native_code (cache d target)) else site + 47) =
    (if ok \<and> translation d target \<noteq> None then the (translation d target) else site + 47)"
    by (auto simp: translation_def)
  then have "emit_call_edge_link True False dbt target pc_after site =
      emit_link 0xE9 (site + 19) (emit_link 0xE8 (site + 47) dbt target site) pc_after (site + 14)"
    unfolding emit_call_edge_link_def emit_edge_eq emit_link_def [of "0xE8"] emit_branch_def
      emit_call_rel32_to_def Let_def n d prod.case
    by (simp only: simp_thms if_False)
  then show ?thesis by (cases use_ras; cases strict) (simp_all add: emit_call_edge_link_def [of False] emit_call_edge_link_def [of _ True])
qed

lemma emit_branch_target [simp]:
  "branch_target (emit_branch opc b s t) s = t" "emit_branch opc b s t s = opc"
  by (simp_all add: branch_target_def emit_branch_def write32_other)

lemma emit_branch_apart:
  assumes "sites_apart s s'" "k \<le> 4"
  shows "emit_branch opc b s t (s' + k) = b (s' + k)"
  using write32_apart [OF assms, of "b (s := opc)"] sites_apart_bytes [OF assms, of 0]
  by (simp add: emit_branch_def)

lemma emit_link_links:
  assumes ok: "links_ok dbt" and fresh: "fresh_site dbt site"
    and opc: "opc = 0xE8 \<and> probe = site + 47 \<or> opc = 0xE9 \<and> probe = site + 5"
  shows "links_ok (emit_link opc probe dbt pc site)"
proof -
  obtain H F where c: "link_chains dbt H F" and sep: "sites_sep dbt H" and l: "\<And>q. links_live dbt H q"
    using ok by (auto simp: links_ok_def)
  have ap: "sites_apart site (site_off (link_pool dbt x))" if "x \<in> set (H q)" for x q
    using fresh chain_used [OF c that] by (simp add: fresh_site_def)
  have keep: "branch_target (emit_branch opc (code_buf dbt) site t) (site_off (link_pool dbt x)) =
        branch_target (code_buf dbt) (site_off (link_pool dbt x))"
      "emit_branch opc (code_buf dbt) site t (site_off (link_pool dbt x)) = code_buf dbt (site_off (link_pool dbt x))"
      "link_fallback (emit_branch opc (code_buf dbt) site t) (site_off (link_pool dbt x)) =
        link_fallback (code_buf dbt) (site_off (link_pool dbt x))"
    if "x \<in> set (H q)" for x q t
    by (rule same_bytes_target, rule emit_branch_apart [OF ap [OF that]], assumption)+
  show ?thesis
  proof (rule link_record_cases [OF c, of pc site], goal_cases)
    case (1 i F' dbt')
    note recorded = 1
    let ?H = "H (pc := i # H pc)" and ?d = "emit_link opc probe dbt pc site"
    have t': "translation dbt' = translation dbt" by (simp add: fun_eq_iff translation_def recorded)
    have d: "link_pool ?d = link_pool dbt'" "cache ?d = cache dbt" "link_head ?d = link_head dbt'"
      "link_free ?d = link_free dbt'" "link_used ?d = link_used dbt'"
      "code_buf ?d = emit_branch opc (code_buf dbt) site
        (case translation dbt pc of Some code \<Rightarrow> code | None \<Rightarrow> probe)"
      using recorded t' by (auto simp: emit_link_def Let_def)
    have so: "site_off (link_pool dbt' x) = (if x = i then site else site_off (link_pool dbt x))" for x
      by (simp add: recorded)
    have tr: "translation ?d = translation dbt" by (simp add: fun_eq_iff translation_def d)
    have new: "live_target ?d pc site"
      using opc by (auto simp: live_target_def tr d link_fallback_eq split: option.split)
    have old: "live_target ?d q (site_off (link_pool dbt x))" if "x \<in> set (H q)" for q x
      using l [of q] that keep [OF that] by (auto simp: links_live_def live_target_def tr d split: option.splits)
    have "link_chains ?d ?H F'" using recorded(2) by (subst link_chains_cong [of _ dbt']) (simp_all add: d)
    moreover have "sites_sep ?d ?H"
      using sep ap sites_apart_sym [OF ap] recorded(3)
      by (auto simp: sites_sep_def d so split: if_splits)
    moreover have "links_live ?d ?H q" for q
      using new old recorded(3) by (auto simp: links_live_def d so)
    ultimately show ?thesis unfolding links_ok_def by blast
  next
    case 2
    then have d: "emit_link opc probe dbt pc site = dbt\<lparr>code_buf := emit_branch opc (code_buf dbt) site probe\<rparr>"
      by (simp add: emit_link_def Let_def)
    have "keeps_sites dbt (emit_branch opc (code_buf dbt) site probe)"
      using fresh by (auto simp: keeps_sites_def fresh_site_def emit_branch_apart)
    with ok d show ?thesis by (simp add: code_emitted_links)
  qed
qed

text \<open>A site apart from the new one is still fresh.\<close>

lemma emit_link_fresh:
  assumes "links_ok dbt" "fresh_site dbt s'" "sites_apart s' site"
  shows "fresh_site (emit_link opc probe dbt pc site) s'"
proof -
  have used: "j < link_used dbt \<or> j = link_used dbt"
    if "unat (link_used dbt) < LINK_POOL_SIZE" "j < link_used dbt + 1" for j
    using below_Suc [OF that(1)] that(2) by blast
  show ?thesis
    using assms(2,3) used
    by (auto simp: fresh_site_def emit_link_def dbt_link_record_def Let_def split: if_splits)
qed

lemma emit_edge_links:
  "links_ok dbt \<Longrightarrow> fresh_site dbt site \<Longrightarrow> links_ok (emit_edge_link strict dbt pc site)"
  by (simp add: emit_edge_eq emit_link_links)

lemma landing_apart: "sites_apart ((site :: u32) + 14) site"
  by (simp add: sites_apart_def)

lemma emit_call_edge_links:
  assumes "links_ok dbt" "fresh_site dbt site" "fresh_site dbt (site + 14)"
  shows "links_ok (emit_call_edge_link use_ras strict dbt target pc_after site)"
proof -
  have "links_ok (emit_link 0xE8 (site + 47) dbt target site)"
    using assms(1,2) by (simp add: emit_link_links)
  moreover have "fresh_site (emit_link 0xE8 (site + 47) dbt target site) (site + 14)"
    using assms landing_apart by (intro emit_link_fresh)
  ultimately have "links_ok (emit_link 0xE9 (site + 19) (emit_link 0xE8 (site + 47) dbt target site) pc_after (site + 14))"
    by (simp add: emit_link_links)
  with assms show ?thesis by (simp add: emit_call_edge_eq emit_edge_links)
qed

section \<open>Reachable states\<close>

text \<open>
  Guest memory, translator state and, as a ghost, the memory each cached block was
  translated from.  The steps are what \<open>dbt_run\<close>, \<open>dbt_translate_block\<close> and the stores
  of the guest do: wiping the cache, looking a block up, emitting code and links,
  committing or refusing a block, storing a byte, and storing a range of bytes with
  one sweep.  The end of a committed block is the translator's 16-bit program counter, so
  it lies below the start when the block runs to the top of memory or past it.
\<close>

inductive dbt_reach :: "memory \<Rightarrow> z80_dbt \<Rightarrow> (u16 \<Rightarrow> memory) \<Rightarrow> bool" where
  wipe: "dbt_reach mem (dbt_cache_invalidate_all dbt) snap"
| find: "dbt_reach mem dbt snap \<Longrightarrow> dbt_reach mem (snd (dbt_cache_lookup dbt pc)) snap"
| emit: "dbt_reach mem dbt snap \<Longrightarrow> keeps_sites dbt b \<Longrightarrow> dbt_reach mem (dbt\<lparr>code_buf := b\<rparr>) snap"
| edge: "dbt_reach mem dbt snap \<Longrightarrow> fresh_site dbt site \<Longrightarrow>
    dbt_reach mem (emit_edge_link strict dbt pc site) snap"
| call: "dbt_reach mem dbt snap \<Longrightarrow> fresh_site dbt site \<Longrightarrow> fresh_site dbt (site + 14) \<Longrightarrow>
    dbt_reach mem (emit_call_edge_link use_ras strict dbt target pc_after site) snap"
| commit: "dbt_reach mem dbt snap \<Longrightarrow> end' \<le> 0xFFFF \<Longrightarrow>
    dbt_reach mem (dbt_commit_block dbt pc end' code) (snap (pc := mem))"
| refuse: "dbt_reach mem dbt snap \<Longrightarrow> dbt_reach mem (dbt_cache_insert dbt pc None) snap"
| store: "dbt_reach mem dbt snap \<Longrightarrow> dbt_reach (mem (addr := v)) (dbt_note_store dbt addr) snap"
| sweep: "dbt_reach mem dbt snap \<Longrightarrow> len \<le> 0x10000 \<Longrightarrow>
    (\<forall>a. (\<forall>i < unat len. a \<noteq> lo + of_nat i) \<longrightarrow> mem' a = mem a) \<Longrightarrow>
    dbt_reach mem' (smc_sweep_forward dbt lo len) snap"

lemma lookup_same: "same_cache (snd (dbt_cache_lookup dbt pc)) dbt"
  by (simp add: dbt_cache_lookup_def same_cache_def Let_def)

lemma lookup_links: "links_ok (snd (dbt_cache_lookup dbt pc)) = links_ok dbt"
  by (rule links_ok_cong) (simp_all add: dbt_cache_lookup_def Let_def)

lemma emit_link_same: "same_cache (emit_link opc probe dbt pc site) dbt"
  by (simp add: emit_link_def dbt_link_record_def same_cache_def Let_def)

lemma edge_same: "same_cache (emit_edge_link strict dbt pc site) dbt"
  using emit_link_same by (simp add: emit_edge_eq) (simp add: same_cache_def)

lemma call_edge_same: "same_cache (emit_call_edge_link use_ras strict dbt target pc_after site) dbt"
  using edge_same [of strict dbt target site] emit_link_same [of "0xE8" "site + 47" dbt target site]
    emit_link_same [of "0xE9" "site + 19" "emit_link 0xE8 (site + 47) dbt target site" pc_after "site + 14"]
  by (auto simp: emit_call_edge_eq same_cache_def)

lemma reach_wf: "dbt_reach mem dbt snap \<Longrightarrow> cache_wf dbt"
proof (induction rule: dbt_reach.induct)
  case (emit mem dbt snap b)
  then show ?case by (subst cache_wf_cong [of _ dbt]) (simp_all add: same_cache_def)
qed (simp_all add: invalidate_all_wf commit_wf refuse_wf note_store_wf sweep_wf
    cache_wf_cong [OF lookup_same] cache_wf_cong [OF edge_same] cache_wf_cong [OF call_edge_same])

lemma mark_links: "links_ok (dbt_mark_block_bytes dbt pc end') = links_ok dbt"
  by (rule links_ok_cong) (simp_all add: dbt_mark_block_bytes_def Let_def)

lemma reach_links: "dbt_reach mem dbt snap \<Longrightarrow> links_ok dbt"
  by (induction rule: dbt_reach.induct)
    (simp_all add: invalidate_all_links lookup_links code_emitted_links emit_edge_links emit_call_edge_links
      dbt_commit_block_def insert_links mark_links note_store_links sweep_forward_links)

text \<open>Every cached block that ends below the top of memory was translated from the bytes that
  memory holds now.\<close>

definition coherent :: "memory \<Rightarrow> z80_dbt \<Rightarrow> (u16 \<Rightarrow> memory) \<Rightarrow> bool" where
  "coherent mem dbt snap \<longleftrightarrow> (\<forall>pc a. covers dbt pc a \<and> fits dbt pc \<longrightarrow> mem a = snap pc a)"

lemma coherentD: "coherent mem dbt snap \<Longrightarrow> covers dbt pc a \<Longrightarrow> fits dbt pc \<Longrightarrow> mem a = snap pc a"
  by (simp add: coherent_def)

lemma covers_cong: "same_cache dbt' dbt \<Longrightarrow> covers dbt' pc a = covers dbt pc a"
  by (simp add: covers_def translation_def same_cache_def)

lemma same_cache_fits: "same_cache dbt' dbt \<Longrightarrow> fits dbt' pc = fits dbt pc"
  by (simp add: fits_def same_cache_def)

lemma coherent_cong: "same_cache dbt' dbt \<Longrightarrow> coherent mem dbt' snap = coherent mem dbt snap"
  by (simp add: coherent_def covers_cong same_cache_fits)

lemma covers_commit:
  "q \<noteq> pc \<Longrightarrow> covers (dbt_commit_block dbt pc end' code) q a = covers dbt q a"
  "q \<noteq> pc \<Longrightarrow> fits (dbt_commit_block dbt pc end' code) q = fits dbt q"
  by (simp add: covers_def commit_translation)
    (simp_all add: dbt_commit_block_def insert_cache fits_def)

lemma covers_store:
  assumes "cache_wf dbt" "covers (dbt_note_store dbt addr) pc a" "fits (dbt_note_store dbt addr) pc"
  shows "covers dbt pc a \<and> fits dbt pc \<and> a \<noteq> addr"
proof -
  have c: "covers dbt pc a" and n: "\<not> (covers dbt pc addr \<and> code_bitmap dbt addr \<noteq> 0)"
    using assms(1,2) by (auto simp: covers_def note_store_translation note_store_span split: if_splits)
  have f: "fits dbt pc" using assms(1,3) by (simp add: fits_def note_store_span)
  with c n covers_marked [of dbt pc addr] assms(1) show ?thesis by (auto simp: cache_wf_def)
qed

lemma store_coherent:
  "cache_wf dbt \<Longrightarrow> coherent mem dbt snap \<Longrightarrow> coherent (mem (addr := v)) (dbt_note_store dbt addr) snap"
  using covers_store [of dbt addr] by (auto simp: coherent_def)

lemma sweep_coherent:
  assumes wf: "cache_wf dbt" and coh: "coherent mem dbt snap" and len: "len \<le> 0x10000"
    and out: "\<And>a. (\<And>i. i < unat len \<Longrightarrow> a \<noteq> lo + of_nat i) \<Longrightarrow> mem' a = mem a"
  shows "coherent mem' (smc_sweep_forward dbt lo len) snap"
  unfolding coherent_def
proof (intro allI impI)
  fix pc a
  assume *: "covers (smc_sweep_forward dbt lo len) pc a \<and> fits (smc_sweep_forward dbt lo len) pc"
  then have f: "fits dbt pc" by (simp add: fits_def sweep_span)
  note cov = sweep_covers [OF wf len, of lo pc a, OF conjunct1 [OF *]]
  have "mem' a = mem a" using cov(2) [OF f] by (rule out)
  with coherentD [OF coh cov(1) f] show "mem' a = snap pc a" by simp
qed

lemma reach_coherent: "dbt_reach mem dbt snap \<Longrightarrow> coherent mem dbt snap"
proof (induction rule: dbt_reach.induct)
  case (wipe mem dbt snap)
  then show ?case by (simp add: coherent_def covers_def translation_def dbt_cache_invalidate_all_def)
next
  case (emit mem dbt snap b)
  then show ?case by (simp add: coherent_def covers_def fits_def translation_def)
next
  case (commit mem dbt snap end' pc code)
  then show ?case by (auto simp: coherent_def covers_commit)
next
  case (refuse mem dbt snap pc)
  then show ?case by (auto simp: coherent_def covers_def fits_def insert_translation insert_cache split: if_splits)
next
  case (store mem dbt snap addr v)
  then show ?case using store_coherent [OF reach_wf] by blast
next
  case (sweep mem dbt snap len lo mem')
  then show ?case by (intro sweep_coherent [OF reach_wf [OF sweep.hyps(1)] sweep.IH]) auto
qed (simp_all add: coherent_cong [OF lookup_same] coherent_cong [OF edge_same] coherent_cong [OF call_edge_same])

section \<open>Properties of the block cache\<close>

text \<open>C1: Self-modifying code.  In every reachable state, each byte covered by a cached block that
  ends below the top of memory still holds the value the block was translated from: such a
  block that could run never reflects overwritten code.  (A block that runs to \<open>0xFFFF\<close> or past it is
  the exception, see \<open>wrapping_block_stale\<close>.)\<close>

theorem smc_coherence:
  assumes "dbt_reach mem dbt snap" "covers dbt pc a" "fits dbt pc"
  shows "mem a = snap pc a"
  using reach_coherent [OF assms(1)] assms(2,3) by (rule coherentD)

text \<open>A concrete run for the witnesses: a three-byte block at \<open>0x100\<close> is committed, then bytes
  outside and inside it are stored.\<close>

definition demo_dbt :: z80_dbt where
  "demo_dbt = \<lparr>code_bitmap = \<lambda>_. 0, cache = \<lambda>_. \<lparr>guest_pc = 0, span = 0, native_code = None\<rparr>,
     link_head = \<lambda>_. 0, link_pool = \<lambda>_. \<lparr>site_off = 0, lnext = 0\<rparr>, link_used = 0, link_free = 0,
     code_buf = \<lambda>_. 0, cache_hits = 0, cache_misses = 0, smc_invalidations = 0, links_created = 0,
     links_patched = 0, links_unpatched = 0, max_block_bytes = 0, last_block_bytes = 0,
     dbt_smc_hist = None\<rparr>"

definition demo_snap :: "u16 \<Rightarrow> memory" where
  "demo_snap = (\<lambda>_ _. 7) (0x100 := \<lambda>_. 0)"

definition demo_block :: z80_dbt where
  "demo_block = dbt_commit_block (dbt_cache_invalidate_all demo_dbt) 0x100 0x103 0x400"

lemma demo_reach: "dbt_reach (\<lambda>_. 0) demo_block demo_snap"
  unfolding demo_block_def demo_snap_def by (intro dbt_reach.intros) simp_all

lemma demo_covers: "covers demo_block 0x100 a \<longleftrightarrow> unat (a - 0x100) < 3"
  unfolding covers_def demo_block_def commit_translation
  by (simp add: dbt_commit_block_def insert_cache)

lemma demo_fits: "fits demo_block 0x100"
  unfolding fits_def demo_block_def by (simp add: dbt_commit_block_def insert_cache)

theorem smc_coherence_witness: "((\<lambda>_. 0) (0x200 := 5)) (0x101 :: u16) = demo_snap 0x100 0x101"
proof (rule smc_coherence [where mem = "(\<lambda>_. 0) (0x200 := 5)" and a = "0x101" and snap = demo_snap and pc = "0x100"])
  show "dbt_reach ((\<lambda>_. 0) (0x200 := 5)) (dbt_note_store demo_block 0x200) demo_snap"
    by (rule dbt_reach.store [OF demo_reach])
  have "\<not> covers demo_block 0x100 0x200" "covers demo_block 0x100 0x101"
    by (simp_all add: demo_covers)
  then show "covers (dbt_note_store demo_block 0x200) 0x100 0x101"
    using reach_wf [OF demo_reach]
    by (auto simp: covers_def note_store_translation note_store_span split: if_splits)
  show "fits (dbt_note_store demo_block 0x200) 0x100"
    using demo_fits reach_wf [OF demo_reach] by (simp add: fits_def note_store_span)
qed

text \<open>C9: A store removes exactly the blocks that cover the stored byte: those are no longer
  found, every other translation stays.  A block that runs to \<open>0xFFFF\<close> or past it is removed only when
  the stored byte is marked, which then is the mark of another block.\<close>

theorem store_invalidates_exactly:
  assumes "dbt_reach mem dbt snap"
  shows "translation (dbt_note_store dbt addr) pc =
    (if covers dbt pc addr \<and> (fits dbt pc \<or> code_bitmap dbt addr \<noteq> 0) then None else translation dbt pc)"
  using note_store_translation [OF reach_wf [OF assms], of addr pc] covers_marked [of dbt pc addr]
    reach_wf [OF assms] by (auto simp: cache_wf_def)

theorem store_invalidates_exactly_witness:
  "translation (dbt_note_store demo_block 0x101) 0x100 = None"
  by (subst store_invalidates_exactly [OF demo_reach]) (simp add: demo_covers demo_fits)

text \<open>C3: Direct links.  In every reachable state the records of the link registry form disjoint
  chains that exhaust the records handed out, and every registered branch is a \<open>jmp\<close> (\<open>E9\<close>) or a
  \<open>call\<close> (\<open>E8\<close>) that goes to the current translation of its target, or, when there is none, to its
  own probe: the byte after the jump, or the one after the call and its 42-byte landing.\<close>

theorem links_never_stale:
  assumes "dbt_reach mem dbt snap"
  shows "\<exists>H F. link_chains dbt H F \<and>
    (\<forall>pc. \<forall>x \<in> set (H pc). let site = site_off (link_pool dbt x); b = code_buf dbt in
       b site \<in> {0xE8, 0xE9} \<and>
       branch_target b site =
         (case translation dbt pc of Some code \<Rightarrow> code
          | None \<Rightarrow> if b site = 0xE8 then site + 5 + 42 else site + 5))"
proof -
  obtain H F where "link_chains dbt H F" and l: "\<And>pc. links_live dbt H pc"
    using reach_links [OF assms] unfolding links_ok_def by blast
  moreover have "let site = site_off (link_pool dbt x); b = code_buf dbt in
       b site \<in> {0xE8, 0xE9} \<and>
       branch_target b site =
         (case translation dbt pc of Some code \<Rightarrow> code
          | None \<Rightarrow> if b site = 0xE8 then site + 5 + 42 else site + 5)" if "x \<in> set (H pc)" for x pc
    using l [of pc] that
    by (simp add: links_live_def live_target_def link_fallback_eq Let_def split: option.splits)
  ultimately show ?thesis by blast
qed

text \<open>A \<open>CALL\<close> to the cached block with its landing edge, after which a store removes the block.\<close>

definition demo_call :: z80_dbt where
  "demo_call = dbt_note_store (emit_call_edge_link True False demo_block 0x100 0x300 0x50) 0x101"

lemma demo_call_reach: "dbt_reach ((\<lambda>_. 0) (0x101 := 1)) demo_call demo_snap"
proof -
  have "link_used demo_block = 0"
    by (simp add: demo_block_def dbt_commit_block_def dbt_cache_insert_def dbt_links_repatch_def
        dbt_mark_block_bytes_def dbt_cache_invalidate_all_def Let_def)
  then have "dbt_reach (\<lambda>_. 0) (emit_call_edge_link True False demo_block 0x100 0x300 0x50) demo_snap"
    by (intro dbt_reach.call [OF demo_reach]) (simp_all add: fresh_site_def)
  then show ?thesis unfolding demo_call_def by (rule dbt_reach.store)
qed

theorem links_never_stale_witness:
  "\<exists>H F. link_chains demo_call H F \<and>
    (\<forall>pc. \<forall>x \<in> set (H pc). let site = site_off (link_pool demo_call x); b = code_buf demo_call in
       b site \<in> {0xE8, 0xE9} \<and>
       branch_target b site =
         (case translation demo_call pc of Some code \<Rightarrow> code
          | None \<Rightarrow> if b site = 0xE8 then site + 5 + 42 else site + 5))"
  by (rule links_never_stale [OF demo_call_reach])

text \<open>The two loops of \<open>dbt_links_repatch\<close> terminate in every reachable state: the walk
  along a chain ends at \<open>LINK_NONE\<close> within \<open>LINK_POOL_SIZE\<close> records.\<close>

theorem repatch_reaches_end:
  assumes "dbt_reach mem dbt snap"
  shows "fst (repatch_walk LINK_POOL_SIZE code (link_head dbt pc) dbt) = LINK_NONE \<and>
    fst (unlink_walk LINK_POOL_SIZE (link_head dbt pc) dbt) = LINK_NONE"
  using reach_links [OF assms] repatch_walk_ends unfolding links_ok_def by blast

theorem repatch_reaches_end_witness:
  "fst (repatch_walk LINK_POOL_SIZE 7 (link_head demo_block 5) demo_block) = LINK_NONE \<and>
    fst (unlink_walk LINK_POOL_SIZE (link_head demo_block 5) demo_block) = LINK_NONE"
  by (rule repatch_reaches_end [OF demo_reach])

text \<open>Registering a link fails only when all \<open>LINK_POOL_SIZE\<close> records are in use, each by
  exactly one registered site: recycling loses none.\<close>

theorem link_record_fails_iff_full:
  assumes "dbt_reach mem dbt snap"
  shows "\<not> fst (dbt_link_record dbt pc site) \<longleftrightarrow>
    (\<exists>H. link_chains dbt H [] \<and> (\<Union>q. set (H q)) = {i. unat i < LINK_POOL_SIZE})"
    (is "_ \<longleftrightarrow> ?full")
proof -
  obtain H F where c: "link_chains dbt H F"
    using reach_links [OF assms] unfolding links_ok_def by blast
  show ?thesis
  proof
    assume fails: "\<not> fst (dbt_link_record dbt pc site)"
    show ?full
    proof (rule link_record_cases [OF c, of pc site])
      assume "F = []" "unat (link_used dbt) = LINK_POOL_SIZE"
      with c link_chainsD(7) [OF c] show ?thesis by (auto simp: word_less_nat_alt)
    qed (use fails in auto)
  next
    assume ?full
    then obtain H where c: "link_chains dbt H []" and "(\<Union>q. set (H q)) = {i. unat i < LINK_POOL_SIZE}"
      by blast
    then have "{i. i < link_used dbt} = {i :: u32. unat i < LINK_POOL_SIZE}"
      using link_chainsD(7) [OF c] by simp
    then have "link_used dbt \<notin> {i :: u32. unat i < LINK_POOL_SIZE}" by blast
    then show "\<not> fst (dbt_link_record dbt pc site)"
      using link_chainsD(2) [OF c] by (simp add: dbt_link_record_def)
  qed
qed

theorem link_record_fails_iff_full_witness:
  "\<not> fst (dbt_link_record demo_block 5 77) \<longleftrightarrow>
    (\<exists>H. link_chains demo_block H [] \<and> (\<Union>q. set (H q)) = {i. unat i < LINK_POOL_SIZE})"
  by (rule link_record_fails_iff_full [OF demo_reach])

text \<open>A block whose bytes wrap past \<open>0xFFFF\<close> has a 16-bit end below its start, so
  \<open>dbt_mark_block_bytes\<close> marks none of its bytes although it records their number: a
  later store into the block is not noticed.\<close>

theorem wrapping_block_unmarked:
  assumes "unat end' \<le> unat pc" "end' \<le> 0xFFFF" "code_bitmap dbt addr = 0"
  shows "dbt_note_store (dbt_commit_block dbt pc end' code) addr = dbt_commit_block dbt pc end' code"
proof -
  have "\<not> (unat pc \<le> unat addr \<and> unat addr < unat end')" using assms(1) by linarith
  with assms(2,3) show ?thesis by (auto simp: dbt_note_store_def dbt_commit_block_def mark_bitmap)
qed

theorem wrapping_block_unmarked_witness:
  "dbt_note_store (dbt_commit_block demo_block 0xFFFE 2 0x800) 0xFFFF =
     dbt_commit_block demo_block 0xFFFE 2 0x800"
  by (rule wrapping_block_unmarked)
    (simp_all add: demo_block_def dbt_commit_block_def mark_bitmap,
     simp add: dbt_cache_invalidate_all_def)

text \<open>So a reachable state can hold a stale block at the top of memory: the bytes of the block at
  \<open>0xFFFE\<close> are overwritten and its translation stays.\<close>

lemma wrapping_block_stale:
  "\<exists>mem dbt snap. dbt_reach mem dbt snap \<and> covers dbt 0xFFFE 0xFFFF \<and> mem 0xFFFF \<noteq> snap 0xFFFE 0xFFFF"
proof -
  let ?d = "dbt_commit_block demo_block 0xFFFE 2 0x800"
  have r: "dbt_reach (\<lambda>_. 0) ?d (demo_snap (0xFFFE := \<lambda>_. 0))"
    by (rule dbt_reach.commit [OF demo_reach]) simp
  have "dbt_note_store ?d 0xFFFF = ?d"
    by (rule wrapping_block_unmarked)
      (simp_all add: demo_block_def dbt_commit_block_def mark_bitmap, simp add: dbt_cache_invalidate_all_def)
  with dbt_reach.store [OF r, of "0xFFFF" 1]
  have "dbt_reach ((\<lambda>_. 0) (0xFFFF := 1)) ?d (demo_snap (0xFFFE := \<lambda>_. 0))" by simp
  moreover have "covers ?d 0xFFFE 0xFFFF"
    by (simp add: covers_def commit_translation) (simp add: dbt_commit_block_def insert_cache)
  moreover have "((\<lambda>_. 0) (0xFFFF := 1) :: memory) 0xFFFF \<noteq> (demo_snap (0xFFFE := \<lambda>_. 0)) 0xFFFE 0xFFFF" by simp
  ultimately show ?thesis by blast
qed

end
