(* ===== verification/Z80_Interp_Inv.thy ===== *)
theory Z80_Interp_Inv
  imports Z80_Interp Z80_Decode_Props Block_Cache_Props
begin

text \<open>
  What every step of the interpreter keeps.  The locale \<open>step_contract\<close> collects
  the few ways in which an instruction touches the machine; a property that survives
  them survives \<open>z80_step\<close>.  \<open>memory_contract\<close> is its instance for properties of guest
  memory and translator: whatever survives \<open>z80_mem_w\<close> survives every instruction, because
  no instruction writes memory in any other way.  It is interpreted on the block
  cache's reachable states (running the interpreter leaves no stale translation
  behind), \<open>step_contract\<close> on the ranges of the system registers.
\<close>

lemmas set16_defs = set_af_def set_bc_def set_de_def set_hl_def

section \<open>What a step can do to the machine\<close>

text \<open>Same guest memory, same translator; and no change to the system registers.\<close>

definition same_mem :: "'h z80_cpu \<Rightarrow> 'h z80_cpu \<Rightarrow> bool" where
  "same_mem cpu' cpu \<longleftrightarrow> cmem cpu' = cmem cpu \<and> cdbt cpu' = cdbt cpu"

definition same_sys :: "'h z80_cpu \<Rightarrow> 'h z80_cpu \<Rightarrow> bool" where
  "same_sys cpu' cpu \<longleftrightarrow> iff1 cpu' = iff1 cpu \<and> iff2 cpu' = iff2 cpu \<and> reg_im cpu' = reg_im cpu"

primrec outcome_cpu :: "'h outcome \<Rightarrow> 'h z80_cpu" where
  "outcome_cpu (Next cpu) = cpu"
| "outcome_cpu (Exit cpu) = cpu"
| "outcome_cpu (Fail cpu) = cpu"

text \<open>The hooks and the CP/M shim keep a property of the CPU.\<close>

definition env_keeps :: "('h z80_cpu \<Rightarrow> bool) \<Rightarrow> 'h z80_env \<Rightarrow> bool" where
  "env_keeps P env \<longleftrightarrow>
     (\<forall>h cpu p hi. port_in env = Some h \<longrightarrow> P cpu \<longrightarrow> P (snd (h cpu p hi))) \<and>
     (\<forall>h cpu p hi v. port_out env = Some h \<longrightarrow> P cpu \<longrightarrow> P (h cpu p hi v)) \<and>
     (\<forall>cpu. P cpu \<longrightarrow> P (snd (cpm_bdos_dispatch env cpu))) \<and>
     (\<forall>cpu. P cpu \<longrightarrow> P (snd (cpm_bios_dispatch env cpu))) \<and>
     (\<forall>cpu. P cpu \<longrightarrow> P (cpm_console_wait env cpu))"

text \<open>The instruction at PC and the state it is executed in: fetch counted, PC advanced, Q cleared.\<close>

definition fetched :: "'h z80_cpu \<Rightarrow> z80_decoded" where
  "fetched cpu = z80_decode_one (cmem cpu) (reg_pc cpu)"

definition advanced :: "'h z80_cpu \<Rightarrow> 'h z80_cpu" where
  "advanced cpu =
     cpu\<lparr>profile_counts := map_option (\<lambda>p. p (reg_pc cpu := p (reg_pc cpu) + 1)) (profile_counts cpu),
         reg_pc := reg_pc cpu + ucast (dbytes (fetched cpu)), reg_q := 0\<rparr>"

lemma decode_nonzero: "dbytes (z80_decode_one mem pc) \<noteq> 0"
  using decode_length_bounds [of mem pc] by auto

lemma z80_step_eq:
  "z80_step env cpu =
     (case exec_op (dtype (fetched cpu)) env (fetched cpu) (reg_pc cpu) (reg_q cpu) (advanced cpu) of
        Next c \<Rightarrow> (0, c\<lparr>insn_count := insn_count c + 1\<rparr>) | Exit c \<Rightarrow> (1, c) | Fail c \<Rightarrow> (-1, c))"
  by (simp add: z80_step_def Let_def fetched_def advanced_def decode_nonzero)

locale step_contract =
  fixes P :: "'h z80_cpu \<Rightarrow> bool"
  assumes P_mem_w [simp]: "P cpu \<Longrightarrow> P (z80_mem_w cpu a v)"
    and P_user: "P cpu \<Longrightarrow> same_mem cpu' cpu \<Longrightarrow> same_sys cpu' cpu \<Longrightarrow>
      reg_q cpu' \<in> {0, 1, reg_q cpu} \<Longrightarrow> P cpu'"
    and P_ei: "P cpu \<Longrightarrow> v \<le> 1 \<Longrightarrow> P (cpu\<lparr>iff1 := v, iff2 := v\<rparr>)"
    and P_retn: "P cpu \<Longrightarrow> P (cpu\<lparr>iff1 := iff2 cpu\<rparr>)"
    and P_im: "P cpu \<Longrightarrow> v \<le> 2 \<Longrightarrow> P (cpu\<lparr>reg_im := v\<rparr>)"
begin

lemma P_same: "same_mem cpu' cpu \<Longrightarrow> same_sys cpu' cpu \<Longrightarrow> reg_q cpu' = reg_q cpu \<Longrightarrow> P cpu' = P cpu"
  using P_user [of cpu cpu'] P_user [of cpu' cpu] by (auto simp: same_mem_def same_sys_def)

lemma P_q [simp]: "P cpu \<Longrightarrow> P (cpu\<lparr>reg_q := 1\<rparr>)" "P cpu \<Longrightarrow> P (cpu\<lparr>reg_q := 0\<rparr>)"
  by (erule P_user; simp add: same_mem_def same_sys_def)+

lemma P_fields [simp]:
  "P (cpu\<lparr>reg_f := x_reg_f\<rparr>) = P cpu" "P (cpu\<lparr>reg_a := x_reg_a\<rparr>) = P cpu" "P (cpu\<lparr>reg_c := x_reg_c\<rparr>) = P cpu"
  "P (cpu\<lparr>reg_b := x_reg_b\<rparr>) = P cpu" "P (cpu\<lparr>reg_e := x_reg_e\<rparr>) = P cpu" "P (cpu\<lparr>reg_d := x_reg_d\<rparr>) = P cpu"
  "P (cpu\<lparr>reg_l := x_reg_l\<rparr>) = P cpu" "P (cpu\<lparr>reg_h := x_reg_h\<rparr>) = P cpu" "P (cpu\<lparr>alt_f := x_alt_f\<rparr>) = P cpu"
  "P (cpu\<lparr>alt_a := x_alt_a\<rparr>) = P cpu" "P (cpu\<lparr>alt_c := x_alt_c\<rparr>) = P cpu" "P (cpu\<lparr>alt_b := x_alt_b\<rparr>) = P cpu"
  "P (cpu\<lparr>alt_e := x_alt_e\<rparr>) = P cpu" "P (cpu\<lparr>alt_d := x_alt_d\<rparr>) = P cpu" "P (cpu\<lparr>alt_l := x_alt_l\<rparr>) = P cpu"
  "P (cpu\<lparr>alt_h := x_alt_h\<rparr>) = P cpu" "P (cpu\<lparr>reg_ix := x_reg_ix\<rparr>) = P cpu" "P (cpu\<lparr>reg_iy := x_reg_iy\<rparr>) = P cpu"
  "P (cpu\<lparr>reg_sp := x_reg_sp\<rparr>) = P cpu" "P (cpu\<lparr>reg_pc := x_reg_pc\<rparr>) = P cpu" "P (cpu\<lparr>reg_i := x_reg_i\<rparr>) = P cpu"
  "P (cpu\<lparr>reg_r := x_reg_r\<rparr>) = P cpu" "P (cpu\<lparr>insn_count := x_insn_count\<rparr>) = P cpu" "P (cpu\<lparr>r_epoch := x_r_epoch\<rparr>) = P cpu"
  "P (cpu\<lparr>memptr := x_memptr\<rparr>) = P cpu" "P (cpu\<lparr>profile_counts := x_profile_counts\<rparr>) = P cpu"
  by (rule P_same; simp add: same_mem_def same_sys_def)+

lemma P_basic [simp]: "P (set_af w cpu) = P cpu"
  "P (set_bc w cpu) = P cpu" "P (set_de w cpu) = P cpu" "P (set_hl w cpu) = P cpu"
  "P (reg8_put_p cpu r pfx v) = P cpu" "P (write_rr cpu rr w) = P cpu"
  "P (put_xhl cpu dec w) = P cpu" "P (io_write_r8 cpu r v) = P cpu"
  "P (pop_pc cpu) = P cpu" "P (jump_rel cpu dec opc) = P cpu"
  "P cpu \<Longrightarrow> P (write_reg8 cpu r v dec)" "P cpu \<Longrightarrow> P (write16 cpu a w)"
  "P cpu \<Longrightarrow> P (push16 cpu w)" "P cpu \<Longrightarrow> P (ldi_step incr cpu v)"
  by (simp_all add: set16_defs reg8_put_p_def write_rr_def put_xhl_def io_write_r8_def
      write_reg8_def write16_def push16_def pop_pc_def ldi_step_def jump_rel_def Let_def)

lemma P_alu [simp]:
  assumes "P cpu"
  shows "P (alu_add cpu b)" "P (alu_sub cpu b)" "P (alu_cp cpu b)" "P (alu_adc cpu b)"
    "P (alu_sbc cpu b)" "P (alu_and cpu b)" "P (alu_or cpu b)" "P (alu_xor cpu b)"
    "P (op_neg cpu)" "P (op_cpl cpu)" "P (op_scf cpu q)" "P (op_ccf cpu q)" "P (op_daa cpu)"
    "P (op_rlca cpu)" "P (op_rrca cpu)" "P (op_rla cpu)" "P (op_rra cpu)"
    "P (op_ld_a_ir cpu v)" "P (op_inc_mem cpu dec)" "P (op_dec_mem cpu dec)"
    "P (op_inc_r cpu dec)" "P (op_dec_r cpu dec)" "P (set_flags_logic cpu v)"
  using assms
  by (simp_all add: alu_add_def alu_sub_def alu_cp_def alu_adc_def alu_sbc_def alu_and_def alu_or_def
      alu_xor_def set_flags_add_def set_flags_sub_def set_flags_cp_def set_flags_logic_def
      op_neg_def op_cpl_def op_scf_def op_ccf_def op_daa_def op_rlca_def op_rrca_def op_rla_def op_rra_def
      rot_a_flags_def op_ld_a_ir_def op_inc_mem_def op_dec_mem_def op_inc_r_def op_dec_r_def Let_def
      split: option.split)

lemma P_16 [simp]:
  assumes "P cpu"
  shows "P (op_ld_rr_nn cpu dec)" "P (op_ld_rr_nn_ind cpu dec)" "P (op_ld_hl_ind_nn cpu dec)"
    "P (op_pop_rr cpu dec)" "P (op_ex_de_hl cpu)" "P (op_ex_af_af cpu)" "P (op_exx cpu)"
    "P (op_ld_sp_hl cpu dec)" "P (op_inc_rr cpu dec)" "P (op_dec_rr cpu dec)"
    "P (op_add_hl_rr cpu dec)" "P (op_adc_hl_rr cpu dec)" "P (op_sbc_hl_rr cpu dec)"
    "P (op_cpi incr rep opc cpu)" "P (op_push_rr cpu dec)" "P (op_ld_nn_rr cpu dec)"
    "P (op_ld_nn_hl cpu dec)" "P (op_ex_sp_hl cpu dec)" "P (op_rrd_rld right cpu)"
    "P (op_ldi incr cpu)" "P (op_store_a cpu a)" "P (op_load_a cpu a)"
  using assms
  by (simp_all add: op_ld_rr_nn_def op_ld_rr_nn_ind_def op_ld_hl_ind_nn_def op_pop_rr_def op_ex_de_hl_def
      op_ex_af_af_def op_exx_def op_ld_sp_hl_def op_inc_rr_def op_dec_rr_def op_add_hl_rr_def
      op_adc_hl_rr_def op_sbc_hl_rr_def op_cpi_def op_push_rr_def op_ld_nn_rr_def op_ld_nn_hl_def
      op_ex_sp_hl_def op_rrd_rld_def op_ldi_def op_store_a_def op_load_a_def Let_def)

lemma P_jumps [simp]:
  assumes "P cpu"
  shows "P (op_jr_cc cpu dec opc)" "P (op_djnz cpu dec opc)" "P (op_call_cc_nn cpu dec)"
    "P (op_ret_cc cpu dec)" "P (op_rst cpu dec)"
  using assms
  by (simp_all add: op_jr_cc_def op_djnz_def op_call_cc_nn_def op_ret_cc_def op_rst_def Let_def)

lemma P_retn_op [simp]: "P cpu \<Longrightarrow> P (op_retn cpu)"
  using P_retn [of "(pop_pc cpu)\<lparr>memptr := reg_pc (pop_pc cpu)\<rparr>"]
  by (simp add: op_retn_def Let_def pop_pc_def)

lemma P_cb [simp]: "P cpu \<Longrightarrow> P (op_cb cpu dec)"
  by (simp add: op_cb_def Let_def split: prod.split)

lemma P_ldir_loop: "P cpu \<Longrightarrow> P (fst (ldir_loop incr cpu b))"
proof (induction incr cpu b rule: ldir_loop.induct)
  case (1 incr cpu b)
  then show ?case by (subst ldir_loop.simps) (simp add: Let_def)
qed

lemma P_ldir [simp]: "P cpu \<Longrightarrow> P (op_ldir incr cpu)"
  using P_ldir_loop [of cpu incr 0] by (cases "ldir_loop incr cpu 0") (simp add: op_ldir_def Let_def)

text \<open>With an environment that keeps the property.\<close>

lemma P_io: "env_keeps P env \<Longrightarrow> P cpu \<Longrightarrow> P (snd (io_in env cpu p h))"
  "env_keeps P env \<Longrightarrow> P cpu \<Longrightarrow> P (io_out env cpu p h v)"
  by (auto simp: env_keeps_def io_in_def io_out_def split: option.split)

lemma P_io_pass: "env_keeps P env \<Longrightarrow> P cpu \<Longrightarrow> P (fst (io_block_in env down cpu))"
  "env_keeps P env \<Longrightarrow> P cpu \<Longrightarrow> P (fst (io_block_out env down cpu))"
  using P_io(1) [of env cpu "reg_c cpu" "reg_b cpu"]
  by (cases "io_in env cpu (reg_c cpu) (reg_b cpu)",
      simp_all add: io_block_in_def io_block_out_def Let_def P_io)

lemma P_io_loop:
  "(\<And>cpu. P cpu \<Longrightarrow> P (fst (pass cpu))) \<Longrightarrow> P cpu \<Longrightarrow> P (fst (io_block_loop n pass rep cpu))"
proof (induction n arbitrary: cpu)
  case (Suc n)
  obtain c v k where p: "pass cpu = (c, v, k)" by (rule prod_cases3)
  have "P c" using Suc.prems(1) [OF Suc.prems(2)] p by simp
  with Suc.IH [OF Suc.prems(1), of c] show ?case by (cases rep) (simp_all add: p)
qed simp

lemma P_io_block:
  assumes "env_keeps P env" "P cpu"
  shows "P (io_block env cpu t)"
proof -
  let ?inp = "t \<in> {Z80_OP_INI, Z80_OP_IND, Z80_OP_INIR, Z80_OP_INDR}"
    and ?down = "t \<in> {Z80_OP_IND, Z80_OP_INDR, Z80_OP_OUTD, Z80_OP_OTDR}"
    and ?rep = "t \<in> {Z80_OP_INIR, Z80_OP_INDR, Z80_OP_OTIR, Z80_OP_OTDR}"
  let ?pass = "if ?inp then io_block_in env ?down else io_block_out env ?down"
  obtain c v k where l: "io_block_loop 256 ?pass ?rep cpu = (c, v, k)" by (rule prod_cases3)
  have "P (fst (io_block_loop 256 ?pass ?rep cpu))"
    by (rule P_io_loop [OF _ assms(2)]) (simp add: P_io_pass [OF assms(1)])
  then show ?thesis unfolding io_block_def Let_def l by simp
qed

lemma P_shim:
  assumes "\<And>cpu. P cpu \<Longrightarrow> P (snd (dispatch cpu))" "P cpu"
  shows "P (outcome_cpu (shim_call dispatch cpu))"
  using assms(1) [OF assms(2)] by (cases "dispatch cpu") (simp add: shim_call_def)

lemma P_jump_traps: "env_keeps P env \<Longrightarrow> P cpu \<Longrightarrow> P (outcome_cpu (jump_traps env cpu))"
  by (auto simp: jump_traps_def env_keeps_def intro!: P_shim)

lemma P_call: "env_keeps P env \<Longrightarrow> P cpu \<Longrightarrow> P (outcome_cpu (op_call_nn env cpu dec))"
proof -
  assume e: "env_keeps P env" "P cpu"
  have bios: "P (outcome_cpu (if traps_on env c \<and> in_bios (reg_pc c)
      then shim_call (cpm_bios_dispatch env) c else Next c))" if "P c" for c
    using e(1) that by (auto simp: env_keeps_def intro!: P_shim)
  have bdos: "P (outcome_cpu (shim_call (cpm_bdos_dispatch env) c))" if "P c" for c
    using e(1) that by (auto simp: env_keeps_def intro!: P_shim)
  let ?c = "(push16 cpu (reg_pc cpu))\<lparr>reg_pc := imm16 dec, memptr := imm16 dec\<rparr>"
  have "P ?c" using e(2) by simp
  with bios [of ?c] bdos [of ?c] bios show ?thesis
    unfolding op_call_nn_def Let_def
    by (cases "shim_call (cpm_bdos_dispatch env) ?c") simp_all
qed

lemma P_exec:
  assumes "env_keeps P env" "P cpu" "im_ok dec"
  shows "P (outcome_cpu (exec_op (dtype dec) env dec opc pq cpu))"
proof -
  note io = P_io [OF assms(1)] P_io_block [OF assms(1,2)] P_jump_traps [OF assms(1)] P_call [OF assms(1,2)]
  have ports: "P (op_out_n_a env cpu dec)" "P (op_in_a_n env cpu dec)" "P (op_in_r_c env cpu dec)"
    "P (op_out_c_r env cpu dec)"
    using assms(2) io(1) [OF assms(2), of "imm8 dec" "reg_a cpu"] io(1) [OF assms(2), of "reg_c cpu" "reg_b cpu"]
    by (cases "io_in env cpu (imm8 dec) (reg_a cpu)"; cases "io_in env cpu (reg_c cpu) (reg_b cpu)";
        simp add: op_out_n_a_def op_in_a_n_def op_in_r_c_def op_out_c_r_def Let_def io
        set_flags_logic_def)+
  have wait: "P (cpm_console_wait env cpu)" using assms by (simp add: env_keeps_def)
  show ?thesis
    using assms(2,3) io ports wait
    by (cases "dtype dec") (simp_all add: op_jp_nn_def op_jp_cc_nn_def op_jp_hl_def op_ret_def im_ok_def P_ei P_im Let_def)
qed

lemma P_step:
  assumes "env_keeps P env" "P cpu"
  shows "P (snd (z80_step env cpu))"
proof -
  have "P (outcome_cpu (exec_op (dtype (fetched cpu)) env (fetched cpu) (reg_pc cpu) (reg_q cpu) (advanced cpu)))"
    by (rule P_exec [OF assms(1)]) (simp_all add: advanced_def assms(2) fetched_def decode_im_ok)
  then show ?thesis unfolding z80_step_eq by (auto split: outcome.split)
qed

end

text \<open>A property of memory and translator alone.\<close>

locale memory_contract =
  fixes P :: "'h z80_cpu \<Rightarrow> bool"
  assumes P_store: "P cpu \<Longrightarrow> P (z80_mem_w cpu a v)"
    and P_regs: "P cpu \<Longrightarrow> same_mem cpu' cpu \<Longrightarrow> P cpu'"

sublocale memory_contract \<subseteq> step_contract P
  by unfold_locales (auto intro: P_store P_regs simp: same_mem_def)

section \<open>Runs of the interpreter\<close>

text \<open>\<open>n\<close> steps in a row, whatever their return codes.\<close>

primrec z80_steps :: "'h z80_env \<Rightarrow> nat \<Rightarrow> 'h z80_cpu \<Rightarrow> 'h z80_cpu" where
  "z80_steps env 0 cpu = cpu"
| "z80_steps env (Suc n) cpu = z80_steps env n (snd (z80_step env cpu))"

context step_contract
begin

lemma P_steps: "env_keeps P env \<Longrightarrow> P cpu \<Longrightarrow> P (z80_steps env n cpu)"
  by (induction n arbitrary: cpu) (simp_all add: P_step)

end

text \<open>The translator attached to the CPU, if any, is in a state that the steps of
  \<^const>\<open>dbt_reach\<close> lead to from the memory the CPU sees; \<open>snap\<close> is the memory each block was
  translated from.\<close>

definition smc_ok :: "(u16 \<Rightarrow> memory) \<Rightarrow> 'h z80_cpu \<Rightarrow> bool" where
  "smc_ok snap cpu \<longleftrightarrow> (case cdbt cpu of None \<Rightarrow> True | Some dbt \<Rightarrow> dbt_reach (cmem cpu) dbt snap)"

interpretation smc: memory_contract "smc_ok snap" for snap :: "u16 \<Rightarrow> memory"
proof
  fix cpu cpu' :: "'h z80_cpu" and a v
  show "smc_ok snap (z80_mem_w cpu a v)" if "smc_ok snap cpu"
    using that by (auto simp: smc_ok_def mem_w_alt intro: dbt_reach.store split: option.splits)
  show "smc_ok snap cpu'" if "smc_ok snap cpu" "same_mem cpu' cpu"
    using that by (simp add: smc_ok_def same_mem_def cong: option.case_cong)
qed

text \<open>No cached block that ends below the top of memory was translated from bytes that have changed since.\<close>

definition no_stale :: "(u16 \<Rightarrow> memory) \<Rightarrow> 'h z80_cpu \<Rightarrow> bool" where
  "no_stale snap cpu \<longleftrightarrow>
     (\<forall>dbt pc a. cdbt cpu = Some dbt \<and> covers dbt pc a \<and> fits dbt pc \<longrightarrow> cmem cpu a = snap pc a)"

lemma smc_no_stale: "smc_ok snap cpu \<Longrightarrow> no_stale snap cpu"
  by (auto simp: smc_ok_def no_stale_def intro: coherentD [OF reach_coherent])

definition sys_ok :: "'h z80_cpu \<Rightarrow> bool" where
  "sys_ok cpu \<longleftrightarrow> iff1 cpu \<le> 1 \<and> iff2 cpu \<le> 1 \<and> reg_im cpu \<le> 2 \<and> reg_q cpu \<le> 1"

interpretation sys: step_contract sys_ok
  by unfold_locales (auto simp: sys_ok_def same_sys_def)

section \<open>How a step ends\<close>

lemma not_Fail: "shim_call d cpu \<noteq> Fail c" "jump_traps env cpu \<noteq> Fail c"
  by (simp_all add: shim_call_def jump_traps_def split: prod.split)

lemma call_not_Fail: "op_call_nn env cpu dec \<noteq> Fail c"
proof -
  let ?c = "(push16 cpu (reg_pc cpu))\<lparr>reg_pc := imm16 dec, memptr := imm16 dec\<rparr>"
  show ?thesis unfolding op_call_nn_def Let_def
    using not_Fail(1) [of "cpm_bdos_dispatch env" ?c]
    by (cases "shim_call (cpm_bdos_dispatch env) ?c") (simp_all add: not_Fail)
qed

lemma exec_fail_iff: "(\<exists>c. exec_op t env dec opc pq cpu = Fail c) \<longleftrightarrow> t = Z80_OP_UNKNOWN"
  by (cases t) (simp_all add: not_Fail call_not_Fail op_jp_nn_def op_jp_cc_nn_def op_jp_hl_def op_ret_def Let_def)

section \<open>Properties\<close>

text \<open>A machine with an unconnected bus and a shim that ends the program.\<close>

definition bare_env :: "unit z80_env" where
  "bare_env = \<lparr>port_in = None, port_out = None, cpm_bdos_dispatch = \<lambda>cpu. (False, cpu),
     cpm_bios_dispatch = \<lambda>cpu. (False, cpu), cpm_console_wait = \<lambda>cpu. cpu, cpm_traps_enabled = True\<rparr>"

lemma bare_keeps: "env_keeps P bare_env"
  by (simp add: env_keeps_def bare_env_def)

text \<open>C2: Running the interpreter with the translator attached, for any number of steps and
  whatever the program stores where, leaves no cached block whose bytes have changed
  since it was translated, among the blocks that end below the top of memory.  The hooks the
  interpreter calls (port devices, BDOS and BIOS) are assumed to report their own stores to guest memory to the
  translator, as \<open>z80_mem_host_wrote\<close> is there for.\<close>

theorem interp_no_stale_block:
  assumes "env_keeps (smc_ok snap) env" "cdbt cpu = Some dbt" "dbt_reach (cmem cpu) dbt snap"
    and "cdbt (z80_steps env n cpu) = Some dbt'" "covers dbt' pc a" "fits dbt' pc"
  shows "cmem (z80_steps env n cpu) a = snap pc a"
proof -
  have "smc_ok snap (z80_steps env n cpu)"
    using assms(1-3) by (intro smc.P_steps) (simp_all add: smc_ok_def)
  then show ?thesis using smc_no_stale assms(4-6) unfolding no_stale_def by blast
qed

definition demo_cpu :: "unit z80_cpu" where
  "demo_cpu = (z80_cpu_init None ())\<lparr>cdbt := Some demo_block\<rparr>"

text \<open>For the witness, the program \<open>LD (0x200),A\<close> at 0, with a block cached at \<open>0x100\<close> and \<open>A = 5\<close>; it runs one
  step, which stores outside the block.\<close>

definition store_mem :: memory where
  "store_mem = (\<lambda>_. 0) (0 := 0x32, 2 := 0x02)"

definition store_cpu :: "unit z80_cpu" where
  "store_cpu = (z80_cpu_init None ())\<lparr>cmem := store_mem, reg_a := 5, cdbt := Some (dbt_note_store (dbt_note_store demo_block 0) 2)\<rparr>"

lemma store_reach: "dbt_reach store_mem (dbt_note_store (dbt_note_store demo_block 0) 2) demo_snap"
  unfolding store_mem_def by (intro dbt_reach.store demo_reach)

lemma store_step:
  assumes "cmem cpu = store_mem" "profile_counts cpu = None" "reg_pc cpu = 0"
  shows "cmem (snd (z80_step env cpu)) = (cmem cpu) (0x200 := reg_a cpu)"
    "cdbt (snd (z80_step env cpu)) = map_option (\<lambda>d. dbt_note_store d 0x200) (cdbt cpu)"
  using assms
  by (simp_all add: store_mem_def z80_step_def z80_decode_one_eq prefix_count_none is_prefix_def decode_tail_def
      after_prefixes_def decode_plain_def decode_main_def decode_00_3F_def remap_half_regs_def zero_decoded_def
      fetch_imm16_def op_store_a_def mem_w_alt mk16_def Let_def split: option.split)

lemma block_kept:
  assumes "cache_wf dbt" "\<not> covers dbt pc addr"
  shows "covers (dbt_note_store dbt addr) pc a = covers dbt pc a" "fits (dbt_note_store dbt addr) pc = fits dbt pc"
proof -
  have "translation (dbt_note_store dbt addr) pc = translation dbt pc"
    using assms by (simp add: note_store_translation)
  then show "covers (dbt_note_store dbt addr) pc a = covers dbt pc a"
    using assms(1) by (simp add: covers_def note_store_span)
  show "fits (dbt_note_store dbt addr) pc = fits dbt pc" using assms(1) by (simp add: fits_def note_store_span)
qed

theorem interp_no_stale_block_witness:
  "cmem (z80_steps bare_env 1 store_cpu) 0x200 = 5 \<and>
   cmem (z80_steps bare_env 1 store_cpu) 0x101 = demo_snap 0x100 0x101"
proof
  have cpu: "cmem store_cpu = store_mem" "profile_counts store_cpu = None" "reg_pc store_cpu = 0" "reg_a store_cpu = 5"
    "cdbt store_cpu = Some (dbt_note_store (dbt_note_store demo_block 0) 2)"
    by (simp_all add: store_cpu_def z80_cpu_init_def zero_cpu_def)
  note st = store_step [OF cpu(1-3), of bare_env]
  show "cmem (z80_steps bare_env 1 store_cpu) 0x200 = 5" using st cpu by simp
  let ?d1 = "dbt_note_store demo_block 0" and ?d2 = "dbt_note_store (dbt_note_store demo_block 0) 2"
  note k1 = block_kept [OF reach_wf [OF demo_reach], of "0x100" 0]
  note k2 = block_kept [OF note_store_wf [OF reach_wf [OF demo_reach]], of 0 "0x100" 2]
  note k3 = block_kept [OF reach_wf [OF store_reach], of "0x100" "0x200"]
  have c: "covers (dbt_note_store ?d2 0x200) 0x100 0x101" "fits (dbt_note_store ?d2 0x200) 0x100"
    using k1 k2 k3 demo_fits by (simp_all add: demo_covers)
  have d: "cdbt (z80_steps bare_env 1 store_cpu) = Some (dbt_note_store ?d2 0x200)" using st(2) cpu by simp
  have r: "dbt_reach (cmem store_cpu) ?d2 demo_snap" using store_reach cpu(1) by simp
  show "cmem (z80_steps bare_env 1 store_cpu) 0x101 = demo_snap 0x100 0x101"
    by (rule interp_no_stale_block [OF bare_keeps cpu(5) r d c])
qed

text \<open>The interrupt flip-flops stay bits, the interrupt mode stays 0, 1 or 2 and Q stays a
  bit, for any number of steps.\<close>

theorem system_registers_in_range:
  assumes "env_keeps sys_ok env" "sys_ok cpu"
  shows "sys_ok (z80_steps env n cpu)"
  using assms by (rule sys.P_steps)

theorem system_registers_in_range_witness:
  "sys_ok (z80_steps bare_env 7 (z80_cpu_init None ()))"
  by (rule system_registers_in_range [OF bare_keeps])
    (simp add: sys_ok_def z80_cpu_init_def zero_cpu_def)

text \<open>A step fails (returns -1) exactly when five prefix bytes in a row are at PC; every
  other byte sequence is executed.\<close>

theorem step_fails_iff:
  "fst (z80_step env cpu) = -1 \<longleftrightarrow>
     is_prefix (cmem cpu (reg_pc cpu)) \<and> is_prefix (cmem cpu (reg_pc cpu + 1)) \<and>
     is_prefix (cmem cpu (reg_pc cpu + 2)) \<and> is_prefix (cmem cpu (reg_pc cpu + 3)) \<and>
     is_prefix (cmem cpu (reg_pc cpu + 4))"
proof -
  define r where "r = exec_op (dtype (fetched cpu)) env (fetched cpu) (reg_pc cpu) (reg_q cpu) (advanced cpu)"
  have "fst (z80_step env cpu) = -1 \<longleftrightarrow> (\<exists>c. r = Fail c)"
    by (cases r) (simp_all add: z80_step_eq r_def [symmetric])
  then show ?thesis
    unfolding r_def exec_fail_iff by (simp add: fetched_def decode_unknown_iff)
qed

end
