(* ===== verification/Z80_Alu_Props.thy ===== *)
theory Z80_Alu_Props
  imports Z80_Interp
begin

text \<open>
  The arithmetic of the interpreter against arithmetic on numbers: what the result and
  each flag of ADD, ADC, SUB, SBC, CP, INC, DEC, NEG and the 16-bit forms mean, decimal
  arithmetic with DAA, the parity flag, and the rotates.
\<close>

section \<open>What the flags mean\<close>

lemma bit_flag_masks [z80_flag]:
  "bit (0x80 :: u8) n \<longleftrightarrow> n = 7" "bit (0x40 :: u8) n \<longleftrightarrow> n = 6" "bit (0x20 :: u8) n \<longleftrightarrow> n = 5"
  "bit (0x10 :: u8) n \<longleftrightarrow> n = 4" "bit (0x08 :: u8) n \<longleftrightarrow> n = 3" "bit (0x04 :: u8) n \<longleftrightarrow> n = 2"
  "bit (0x02 :: u8) n \<longleftrightarrow> n = 1" "bit (0x01 :: u8) n \<longleftrightarrow> n = 0"
proof -
  have e: "bit (2 ^ k :: u8) n \<longleftrightarrow> n = k" if "k < 8" for k
    using that by (auto simp: bit_exp_iff possible_bit_def)
  show "bit (0x80 :: u8) n \<longleftrightarrow> n = 7" "bit (0x40 :: u8) n \<longleftrightarrow> n = 6" "bit (0x20 :: u8) n \<longleftrightarrow> n = 5"
    "bit (0x10 :: u8) n \<longleftrightarrow> n = 4" "bit (0x08 :: u8) n \<longleftrightarrow> n = 3" "bit (0x04 :: u8) n \<longleftrightarrow> n = 2"
    "bit (0x02 :: u8) n \<longleftrightarrow> n = 1" "bit (0x01 :: u8) n \<longleftrightarrow> n = 0"
    using e [of 7] e [of 6] e [of 5] e [of 4] e [of 3] e [of 2] e [of 1] e [of 0] by simp_all
qed

lemma bit_xy_from [z80_flag]: "bit (xy_from v) n \<longleftrightarrow> bit v n \<and> (n = 5 \<or> n = 3)"
proof -
  have "bit (0x20 OR 0x08 :: u8) n \<longleftrightarrow> n = 5 \<or> n = 3"
    by (simp only: bit_or_iff z80_flag)
  then show ?thesis unfolding xy_from_def by (simp add: bit_and_iff)
qed

lemma bit_parity8 [z80_flag]: "bit (parity8 v) n \<longleftrightarrow> n = 2 \<and> parity8 v \<noteq> 0"
proof -
  have "parity8 v = 0 \<or> parity8 v = 0x04" by (simp add: parity8_def Let_def)
  then show ?thesis using bit_flag_masks(6) [of n] by auto
qed

lemma bit_not_u8 [z80_flag]: "bit (NOT (w :: u8)) n \<longleftrightarrow> n < 8 \<and> \<not> bit w n"
  by (auto simp: bit_not_iff_eq)

lemmas flag_bits = z80_flag bit_or_iff bit_and_iff bit_xor_iff

text \<open>The two's complement reading of a number below \<open>2 * h\<close>, and the range of its values.\<close>

definition tc :: "nat \<Rightarrow> nat \<Rightarrow> int" where
  "tc h x = (if h \<le> x then int x - 2 * int h else int x)"

definition fits :: "nat \<Rightarrow> int \<Rightarrow> bool" where
  "fits h n \<longleftrightarrow> - int h \<le> n \<and> n < int h"

text \<open>Addition with carry-in \<open>c\<close>: the result and every flag.\<close>

definition add8_ok :: "u8 \<Rightarrow> u8 \<Rightarrow> nat \<Rightarrow> u8 \<Rightarrow> u8 \<Rightarrow> bool" where
  "add8_ok a b c res f \<longleftrightarrow>
     unat res = (unat a + unat b + c) mod 256 \<and>
     (bit f 0 \<longleftrightarrow> 256 \<le> unat a + unat b + c) \<and>
     (bit f 4 \<longleftrightarrow> 16 \<le> unat a mod 16 + unat b mod 16 + c) \<and>
     (bit f 2 \<longleftrightarrow> \<not> fits 128 (sint a + sint b + int c)) \<and>
     (bit f 7 \<longleftrightarrow> sint res < 0) \<and> (bit f 6 \<longleftrightarrow> res = 0) \<and> \<not> bit f 1 \<and>
     (bit f 5 \<longleftrightarrow> bit res 5) \<and> (bit f 3 \<longleftrightarrow> bit res 3)"

text \<open>Subtraction with borrow-in \<open>c\<close>; \<open>xy\<close> is the byte that bits 5 and 3 are copied from.\<close>

definition sub8_ok :: "u8 \<Rightarrow> u8 \<Rightarrow> u8 \<Rightarrow> nat \<Rightarrow> u8 \<Rightarrow> u8 \<Rightarrow> bool" where
  "sub8_ok xy a b c res f \<longleftrightarrow>
     int (unat res) = (int (unat a) - int (unat b) - int c) mod 256 \<and>
     (bit f 0 \<longleftrightarrow> unat a < unat b + c) \<and>
     (bit f 4 \<longleftrightarrow> unat a mod 16 < unat b mod 16 + c) \<and>
     (bit f 2 \<longleftrightarrow> \<not> fits 128 (sint a - sint b - int c)) \<and>
     (bit f 7 \<longleftrightarrow> sint res < 0) \<and> (bit f 6 \<longleftrightarrow> res = 0) \<and> bit f 1 \<and>
     (bit f 5 \<longleftrightarrow> bit xy 5) \<and> (bit f 3 \<longleftrightarrow> bit xy 3)"

lemma sint_u8_neg_iff: "sint (x :: u8) < 0 \<longleftrightarrow> bit x 7"
proof -
  have "int (unat x) < int 256" using unat_u8_less [of x] by (simp only: of_nat_less_iff)
  then show ?thesis unfolding sint_u8 by auto
qed

text \<open>The overflow rule of the C code on plain numbers below \<open>2 * h\<close>.\<close>

lemma add_overflow_nat:
  assumes "x < 2 * h" "y < 2 * h" "c \<le> 1" "r = (x + y + c) mod (2 * h)"
  shows "((h \<le> x) = (h \<le> y) \<and> (h \<le> r) \<noteq> (h \<le> x)) \<longleftrightarrow> \<not> fits h (tc h x + tc h y + int c)"
proof -
  have "r = (if x + y + c < 2 * h then x + y + c else x + y + c - 2 * h)"
    using assms by (simp add: mod_if)
  with assms(1-3) show ?thesis
    unfolding fits_def tc_def by (cases "h \<le> x"; cases "h \<le> y"; simp split: if_splits; linarith)
qed

lemma sub_mod_nat:
  assumes "x < m" "y < m" "c \<le> 1" "int r = (int x - int y - int c) mod int m"
  shows "r = (if x < y + c then m + x - (y + c) else x - (y + c))"
proof (cases "x < y + c")
  case True
  have "int r = (int x - int y - int c + int m) mod int m" using assms(4) by simp
  also have "\<dots> = int x - int y - int c + int m"
    using True assms(1-3) by (intro mod_pos_pos_trivial) linarith+
  finally show ?thesis using True assms(1-3) by (simp add: of_nat_diff)
next
  case False
  have "int r = int x - int y - int c"
    unfolding assms(4) using False assms(1-3) by (intro mod_pos_pos_trivial) linarith+
  with False show ?thesis by simp
qed

lemma sub_overflow_nat:
  assumes "x < 2 * h" "y < 2 * h" "c \<le> 1" "int r = (int x - int y - int c) mod int (2 * h)"
  shows "((h \<le> x) \<noteq> (h \<le> y) \<and> (h \<le> r) \<noteq> (h \<le> x)) \<longleftrightarrow> \<not> fits h (tc h x - tc h y - int c)"
  using sub_mod_nat [OF assms] assms(1-3) unfolding fits_def tc_def
  by (cases "h \<le> x"; cases "h \<le> y"; cases "x < y + c"; simp; linarith)

lemma sint_tc: "sint (x :: u8) = tc 128 (unat x)" "sint (y :: u16) = tc 32768 (unat y)"
  unfolding sint_u8 sint_u16 bit7_iff bit15_iff tc_def by (simp_all only: of_nat_numeral) simp_all

lemma add_overflow:
  assumes "unat (res :: u8) = (unat a + unat b + c) mod 256" "c \<le> 1"
  shows "(a XOR b) AND 0x80 = 0 \<and> (res XOR a) AND 0x80 \<noteq> 0 \<longleftrightarrow> \<not> fits 128 (sint a + sint b + int c)"
  using add_overflow_nat [of "unat a" 128 "unat b" c "unat res"] assms
  unfolding sint_tc and_flag_iff and_flag_eq_0_iff unfolding bit_xor_iff unfolding bit7_iff by simp

lemma sub_overflow:
  assumes "int (unat (res :: u8)) = (int (unat a) - int (unat b) - int c) mod 256" "c \<le> 1"
  shows "(a XOR b) AND 0x80 \<noteq> 0 \<and> (res XOR a) AND 0x80 \<noteq> 0 \<longleftrightarrow> \<not> fits 128 (sint a - sint b - int c)"
  using sub_overflow_nat [of "unat a" 128 "unat b" c "unat res"] assms
  unfolding sint_tc and_flag_iff unfolding bit_xor_iff unfolding bit7_iff by simp

text \<open>A flag byte assembled by the C code, read one bit at a time.\<close>

definition flags8 :: "u8 \<Rightarrow> u8 \<Rightarrow> bool \<Rightarrow> bool \<Rightarrow> bool \<Rightarrow> bool \<Rightarrow> u8 \<Rightarrow> u8" where
  "flags8 base xy h c v z res =
     set_if v Z80_FLAG_PV (set_if c Z80_FLAG_C (set_if h Z80_FLAG_H
       (set_if (res AND 0x80 \<noteq> 0) Z80_FLAG_S (set_if z Z80_FLAG_Z (base OR xy_from xy)))))"

lemma flags8_bits:
  "bit (flags8 base xy h c v z res) n \<longleftrightarrow>
     bit base n \<or> bit xy n \<and> (n = 5 \<or> n = 3) \<or> z \<and> n = 6 \<or> bit res 7 \<and> n = 7 \<or> h \<and> n = 4 \<or> c \<and> n = 0 \<or> v \<and> n = 2"
  unfolding flags8_def by (auto simp only: bit_set_if bit_flag_masks bit_or_iff bit_xy_from and_flag_iff)

lemma flags_add_alt:
  "flags_add a b res = flags8 0 res (unat (a AND 0xF) + unat (b AND 0xF) > 0xF) (unat a + unat b > 0xFF)
     ((a XOR b) AND 0x80 = 0 \<and> (res XOR a) AND 0x80 \<noteq> 0) (res = 0) res"
  by (simp add: flags_add_def flags8_def Let_def)

lemma flags_subtract_alt:
  "flags_subtract xy a b res = flags8 Z80_FLAG_N xy (unat (a AND 0xF) < unat (b AND 0xF)) (unat a < unat b)
     ((a XOR b) AND 0x80 \<noteq> 0 \<and> (res XOR a) AND 0x80 \<noteq> 0) (res = 0) res"
  by (simp add: flags_subtract_def flags8_def Let_def)

lemma add8_okI:
  assumes res: "unat res = (unat a + unat b + c) mod 256" and c: "c \<le> 1"
  shows "add8_ok a b c res (flags8 0 res (unat (a AND 0xF) + unat (b AND 0xF) + c > 0xF)
    (unat a + unat b + c > 0xFF) ((a XOR b) AND 0x80 = 0 \<and> (res XOR a) AND 0x80 \<noteq> 0) (res = 0) res)"
  unfolding add8_ok_def flags8_bits add_overflow [OF assms] and_F_mod sint_u8_neg_iff
  using res by auto

lemma sub8_okI:
  assumes res: "int (unat res) = (int (unat a) - int (unat b) - int c) mod 256" and c: "c \<le> 1"
  shows "sub8_ok xy a b c res (flags8 Z80_FLAG_N xy (unat (a AND 0xF) < unat (b AND 0xF) + c)
    (unat a < unat b + c) ((a XOR b) AND 0x80 \<noteq> 0 \<and> (res XOR a) AND 0x80 \<noteq> 0) (res = 0) res)"
  unfolding sub8_ok_def flags8_bits sub_overflow [OF assms] and_F_mod sint_u8_neg_iff bit_flag_masks
  using res by auto

section \<open>8-bit operations\<close>

definition carry_in :: "'h z80_cpu \<Rightarrow> nat" where
  "carry_in cpu = (if bit (reg_f cpu) 0 then 1 else 0)"

lemma carry_in_le: "carry_in cpu \<le> 1"
  by (simp add: carry_in_def)

lemma unat_of_nat_u8: "unat (of_nat n :: u8) = n mod 256"
  by (simp add: unat_of_nat take_bit_eq_mod)

lemma alu_add_ok:
  "add8_ok (reg_a cpu) b 0 (reg_a (alu_add cpu b)) (reg_f (alu_add cpu b))"
  using add8_okI [of "reg_a cpu + b" "reg_a cpu" b 0]
  by (simp add: alu_add_def set_flags_add_def flags_add_alt Let_def unat_word_ariths)

lemma alu_adc_ok:
  "add8_ok (reg_a cpu) b (carry_in cpu) (reg_a (alu_adc cpu b)) (reg_f (alu_adc cpu b))"
proof -
  define c where "c = carry_in cpu"
  have cin: "(if reg_f cpu AND 0x01 \<noteq> 0 then 1 else 0) = c" by (simp only: c_def carry_in_def and_flag_iff)
  show ?thesis
    using add8_okI [of "of_nat (unat (reg_a cpu) + unat b + c)" "reg_a cpu" b c] carry_in_le [of cpu]
    unfolding alu_adc_def cin c_def [symmetric]
    by (simp add: Let_def flags8_def unat_of_nat_u8 del: of_nat_add)
qed

lemma sub_result: "int (unat (a - b :: u8)) = (int (unat a) - int (unat b)) mod 256"
  by (simp add: uint_word_ariths)

lemma alu_sub_ok:
  "sub8_ok (reg_a (alu_sub cpu b)) (reg_a cpu) b 0 (reg_a (alu_sub cpu b)) (reg_f (alu_sub cpu b))"
  using sub8_okI [of "reg_a cpu - b" "reg_a cpu" b 0 "reg_a cpu - b"] sub_result [of "reg_a cpu" b]
  by (simp add: alu_sub_def set_flags_sub_def flags_subtract_alt Let_def)

lemma alu_cp_ok:
  "sub8_ok b (reg_a cpu) b 0 (reg_a cpu - b) (reg_f (alu_cp cpu b)) \<and> reg_a (alu_cp cpu b) = reg_a cpu"
  using sub8_okI [of "reg_a cpu - b" "reg_a cpu" b 0 b] sub_result [of "reg_a cpu" b]
  by (simp add: alu_cp_def set_flags_cp_def flags_subtract_alt Let_def)

lemma op_neg_ok:
  "sub8_ok (reg_a (op_neg cpu)) 0 (reg_a cpu) 0 (reg_a (op_neg cpu)) (reg_f (op_neg cpu))"
  using sub8_okI [of "0 - reg_a cpu" 0 "reg_a cpu" 0 "0 - reg_a cpu"] sub_result [of 0 "reg_a cpu"]
  by (simp add: op_neg_def set_flags_sub_def flags_subtract_alt Let_def)

text \<open>\<open>((a & 0xF) - (b & 0xF) - cin) & 0x10\<close> is the borrow out of bit 3.\<close>

lemma bit_borrow:
  fixes n :: int
  assumes "- (2 ^ k) \<le> n" "n < 2 ^ k"
  shows "bit n k \<longleftrightarrow> n < 0"
proof -
  have "n div 2 ^ k = (if n < 0 then -1 else 0)"
    using assms by (auto intro: div_pos_pos_trivial int_div_pos_eq [where r = "n + 2 ^ k"])
  then show ?thesis by (simp add: bit_iff_odd)
qed

lemma bit_carry:
  fixes n :: nat
  assumes "n < 2 * 2 ^ k"
  shows "bit n k \<longleftrightarrow> 2 ^ k \<le> n"
proof -
  have "n div 2 ^ k = (if 2 ^ k \<le> n then 1 else 0)"
    using assms by (auto intro: div_nat_eqI)
  then show ?thesis by (simp add: bit_iff_odd)
qed

lemma and_16_neg:
  assumes "-17 < (n :: int)" "n < 16"
  shows "n AND 16 \<noteq> 0 \<longleftrightarrow> n < 0"
  using bit_borrow [of 4 n] and_exp_eq_0_iff_not_bit [of n 4] assms by simp

lemma alu_sbc_ok:
  "sub8_ok (reg_a (alu_sbc cpu b)) (reg_a cpu) b (carry_in cpu) (reg_a (alu_sbc cpu b)) (reg_f (alu_sbc cpu b))"
proof -
  define c where "c = carry_in cpu"
  have cin: "(if reg_f cpu AND 0x01 \<noteq> 0 then 1 else 0) = int c" by (simp only: c_def carry_in_def and_flag_iff) simp
  have c: "c \<le> 1" unfolding c_def by (rule carry_in_le)
  define a where "a = reg_a cpu"
  define res where "res = (word_of_int (int (unat a) - int (unat b) - int c) :: u8)"
  have r: "int (unat res) = (int (unat a) - int (unat b) - int c) mod 256"
    by (simp only: of_nat_unat res_def uint_word_of_int) simp
  have h: "(uint (a AND 0xF) - uint (b AND 0xF) - int c) AND 0x10 \<noteq> 0 \<longleftrightarrow>
      unat (a AND 0xF) < unat (b AND 0xF) + c"
  proof -
    have e: "uint (a AND 0xF) = int (unat a mod 16)" "uint (b AND 0xF) = int (unat b mod 16)"
      by (simp_all only: uint_nat and_F_mod)
    have m: "unat a mod 16 < 16" "unat b mod 16 < 16" by simp_all
    have "(int (unat a mod 16) - int (unat b mod 16) - int c) AND 16 \<noteq> 0 \<longleftrightarrow>
        int (unat a mod 16) - int (unat b mod 16) - int c < 0"
      by (rule and_16_neg) (use m c in linarith)+
    then show ?thesis unfolding e and_F_mod by linarith
  qed
  have w: "uint a - uint b - int c < 0 \<longleftrightarrow> unat a < unat b + c"
    by (simp only: uint_nat) linarith
  have res': "word_of_int (uint a - uint b - int c) = res" by (simp add: res_def)
  show ?thesis
    using sub8_okI [OF r c, of res]
    unfolding alu_sbc_def cin a_def [symmetric] Let_def res' h w c_def [symmetric]
    by (simp add: flags8_def a_def)
qed

section \<open>16-bit operations\<close>

definition add16_ok :: "u16 \<Rightarrow> u16 \<Rightarrow> nat \<Rightarrow> u16 \<Rightarrow> u8 \<Rightarrow> bool" where
  "add16_ok a b c res f \<longleftrightarrow>
     unat res = (unat a + unat b + c) mod 65536 \<and>
     (bit f 0 \<longleftrightarrow> 65536 \<le> unat a + unat b + c) \<and>
     (bit f 4 \<longleftrightarrow> 4096 \<le> unat a mod 4096 + unat b mod 4096 + c) \<and>
     (bit f 2 \<longleftrightarrow> \<not> fits 32768 (sint a + sint b + int c)) \<and>
     (bit f 7 \<longleftrightarrow> sint res < 0) \<and> (bit f 6 \<longleftrightarrow> res = 0) \<and> \<not> bit f 1 \<and>
     (bit f 5 \<longleftrightarrow> bit res 13) \<and> (bit f 3 \<longleftrightarrow> bit res 11)"

definition sub16_ok :: "u16 \<Rightarrow> u16 \<Rightarrow> nat \<Rightarrow> u16 \<Rightarrow> u8 \<Rightarrow> bool" where
  "sub16_ok a b c res f \<longleftrightarrow>
     int (unat res) = (int (unat a) - int (unat b) - int c) mod 65536 \<and>
     (bit f 0 \<longleftrightarrow> unat a < unat b + c) \<and>
     (bit f 4 \<longleftrightarrow> unat a mod 4096 < unat b mod 4096 + c) \<and>
     (bit f 2 \<longleftrightarrow> \<not> fits 32768 (sint a - sint b - int c)) \<and>
     (bit f 7 \<longleftrightarrow> sint res < 0) \<and> (bit f 6 \<longleftrightarrow> res = 0) \<and> bit f 1 \<and>
     (bit f 5 \<longleftrightarrow> bit res 13) \<and> (bit f 3 \<longleftrightarrow> bit res 11)"

lemma sint_u16_neg_iff: "sint (x :: u16) < 0 \<longleftrightarrow> bit x 15"
proof -
  have "int (unat x) < int 65536" using unat_u16_less [of x] by (simp only: of_nat_less_iff)
  then show ?thesis unfolding sint_u16 by auto
qed

lemma bit_hi8: "bit (hi8 w) n \<longleftrightarrow> n < 8 \<and> bit w (n + 8)"
  by (auto simp: hi8_def bit_simps add.commute)

lemma and_8000_iff: "(x :: u16) AND 0x8000 \<noteq> 0 \<longleftrightarrow> bit x 15" "(x :: u16) AND 0x8000 = 0 \<longleftrightarrow> \<not> bit x 15"
  using and_exp_eq_0_iff_not_bit [of x 15] by simp_all

lemma and_u32_iff: "(x :: u32) AND 0x10000 \<noteq> 0 \<longleftrightarrow> bit x 16" "(x :: u32) AND 0x1000 \<noteq> 0 \<longleftrightarrow> bit x 12"
  using and_exp_eq_0_iff_not_bit [of x 16] and_exp_eq_0_iff_not_bit [of x 12] by simp_all

lemma bit_u32_of_nat: "k < 32 \<Longrightarrow> bit (of_nat n :: u32) k \<longleftrightarrow> bit n k"
  by (simp add: bit_of_nat_iff_bit possible_bit_def bit_of_nat_iff)

lemma bit_u32_of_int: "k < 32 \<Longrightarrow> bit (word_of_int n :: u32) k \<longleftrightarrow> bit n k"
  by (simp add: bit_word_of_int_iff)

lemma ucast_u16_u32: "(ucast (x :: u16) :: u32) = of_nat (unat x)" "(ucast (x :: u16) :: u32) = word_of_int (int (unat x))"
  by (simp_all)

text \<open>The 32-bit sums and differences of the C code, and the two bits read off them.\<close>

lemma sum32:
  assumes "c \<le> 1"
  shows "(ucast (a :: u16) + ucast (b :: u16) + of_nat c :: u32) AND 0x10000 \<noteq> 0 \<longleftrightarrow> 65536 \<le> unat a + unat b + c"
    "(ucast (a AND 0x0FFF :: u16) + ucast (b AND 0x0FFF) + of_nat c :: u32) AND 0x1000 \<noteq> 0 \<longleftrightarrow>
       4096 \<le> unat a mod 4096 + unat b mod 4096 + c"
    "unat (ucast (ucast a + ucast b + of_nat c :: u32) :: u16) = (unat a + unat b + c) mod 65536"
proof -
  have s: "(ucast x + ucast y + of_nat c :: u32) = of_nat (unat x + unat y + c)" for x y :: u16
    by (simp only: ucast_u16_u32(1) of_nat_add)
  show "(ucast a + ucast b + of_nat c :: u32) AND 0x10000 \<noteq> 0 \<longleftrightarrow> 65536 \<le> unat a + unat b + c"
    using bit_carry [of "unat a + unat b + c" 16] assms unat_u16_less [of a] unat_u16_less [of b]
    unfolding s and_u32_iff by (simp add: bit_u32_of_nat del: of_nat_add unat_u16_less)
  have m: "unat a mod 4096 < 4096" "unat b mod 4096 < 4096" by simp_all
  show "(ucast (a AND 0x0FFF :: u16) + ucast (b AND 0x0FFF) + of_nat c :: u32) AND 0x1000 \<noteq> 0 \<longleftrightarrow>
       4096 \<le> unat a mod 4096 + unat b mod 4096 + c"
    using bit_carry [of "unat a mod 4096 + unat b mod 4096 + c" 12] assms m
    unfolding s and_u32_iff and_FFF_mod by (simp add: bit_u32_of_nat del: of_nat_add)
  have "(ucast (of_nat (unat a + unat b + c) :: u32) :: u16) = of_nat (unat a + unat b + c)"
    by (rule bit_word_eqI) (simp add: bit_ucast_iff bit_of_nat_iff_bit possible_bit_def bit_of_nat_iff del: of_nat_add)
  then show "unat (ucast (ucast a + ucast b + of_nat c :: u32) :: u16) = (unat a + unat b + c) mod 65536"
    unfolding s by (simp add: unat_of_nat take_bit_eq_mod del: of_nat_add)
qed

lemma diff32:
  assumes "c \<le> 1"
  shows "(ucast (a :: u16) - ucast (b :: u16) - of_nat c :: u32) AND 0x10000 \<noteq> 0 \<longleftrightarrow> unat a < unat b + c"
    "(ucast (a AND 0x0FFF :: u16) - ucast (b AND 0x0FFF) - of_nat c :: u32) AND 0x1000 \<noteq> 0 \<longleftrightarrow>
       unat a mod 4096 < unat b mod 4096 + c"
    "int (unat (ucast (ucast a - ucast b - of_nat c :: u32) :: u16)) =
       (int (unat a) - int (unat b) - int c) mod 65536"
proof -
  have s: "(ucast x - ucast y - of_nat c :: u32) = word_of_int (int (unat x) - int (unat y) - int c)" for x y :: u16
    by (simp)
  have m: "unat a mod 4096 < 4096" "unat b mod 4096 < 4096" by simp_all
  have "int (unat a) - int (unat b) - int c < 0 \<longleftrightarrow> unat a < unat b + c" by linarith
  then show "(ucast a - ucast b - of_nat c :: u32) AND 0x10000 \<noteq> 0 \<longleftrightarrow> unat a < unat b + c"
    using bit_borrow [of 16 "int (unat a) - int (unat b) - int c"] assms unat_u16_less [of a] unat_u16_less [of b]
    unfolding s and_u32_iff by (simp add: bit_u32_of_int del: of_nat_unat of_int_diff unat_u16_less)
  have "int (unat a mod 4096) - int (unat b mod 4096) - int c < 0 \<longleftrightarrow> unat a mod 4096 < unat b mod 4096 + c"
    by linarith
  then show "(ucast (a AND 0x0FFF :: u16) - ucast (b AND 0x0FFF) - of_nat c :: u32) AND 0x1000 \<noteq> 0 \<longleftrightarrow>
       unat a mod 4096 < unat b mod 4096 + c"
    using bit_borrow [of 12 "int (unat a mod 4096) - int (unat b mod 4096) - int c"] assms m
    unfolding s and_u32_iff and_FFF_mod
    by (simp add: bit_u32_of_int del: of_nat_unat of_int_diff)
  have "(ucast (word_of_int n :: u32) :: u16) = word_of_int n" for n
    by (rule bit_word_eqI) (simp add: bit_ucast_iff bit_word_of_int_iff)
  then show "int (unat (ucast (ucast a - ucast b - of_nat c :: u32) :: u16)) =
       (int (unat a) - int (unat b) - int c) mod 65536"
    unfolding s of_nat_unat [of "ucast _"] by (simp only: uint_word_of_int) simp
qed


lemma add16_overflow:
  assumes "unat (res :: u16) = (unat a + unat b + c) mod 65536" "c \<le> 1"
  shows "(a XOR b) AND 0x8000 = 0 \<and> (res XOR a) AND 0x8000 \<noteq> 0 \<longleftrightarrow> \<not> fits 32768 (sint a + sint b + int c)"
  using add_overflow_nat [of "unat a" 32768 "unat b" c "unat res"] assms
  unfolding sint_tc and_8000_iff unfolding bit_xor_iff unfolding bit15_iff by simp

lemma sub16_overflow:
  assumes "int (unat (res :: u16)) = (int (unat a) - int (unat b) - int c) mod 65536" "c \<le> 1"
  shows "(a XOR b) AND 0x8000 \<noteq> 0 \<and> (res XOR a) AND 0x8000 \<noteq> 0 \<longleftrightarrow> \<not> fits 32768 (sint a - sint b - int c)"
  using sub_overflow_nat [of "unat a" 32768 "unat b" c "unat res"] assms
  unfolding sint_tc and_8000_iff unfolding bit_xor_iff unfolding bit15_iff by simp

definition flags16 :: "u8 \<Rightarrow> bool \<Rightarrow> bool \<Rightarrow> bool \<Rightarrow> u16 \<Rightarrow> u8" where
  "flags16 base h c v res =
     set_if v Z80_FLAG_PV (set_if c Z80_FLAG_C (set_if h Z80_FLAG_H
       (set_if (res AND 0x8000 \<noteq> 0) Z80_FLAG_S (set_if (res = 0) Z80_FLAG_Z (base OR xy_from (hi8 res))))))"

lemma flags16_bits:
  "bit (flags16 base h c v res) n \<longleftrightarrow>
     bit base n \<or> bit (hi8 res) n \<and> (n = 5 \<or> n = 3) \<or> res = 0 \<and> n = 6 \<or> bit res 15 \<and> n = 7 \<or> h \<and> n = 4 \<or>
     c \<and> n = 0 \<or> v \<and> n = 2"
  unfolding flags16_def
  by (auto simp only: bit_set_if bit_flag_masks bit_or_iff bit_xy_from and_8000_iff)

text \<open>The second operand of the 16-bit additions.\<close>

definition hl_operand :: "'h z80_cpu \<Rightarrow> z80_decoded \<Rightarrow> u16" where
  "hl_operand cpu dec = (if reg1 dec = 3 then reg_sp cpu else read_rr cpu (reg1 dec))"

lemma carry_in_u32: "(if reg_f cpu AND 0x01 \<noteq> 0 then 1 else 0 :: u32) = of_nat (carry_in cpu)"
  by (simp only: carry_in_def and_flag_iff) simp

lemma set_hl_simps [simp]: "reg_hl (set_hl v cpu) = v" "reg_f (set_hl v cpu) = reg_f cpu" "memptr (set_hl v cpu) = memptr cpu"
  by (simp_all add: reg16_defs)

lemma op_adc_hl_ok:
  "add16_ok (reg_hl cpu) (hl_operand cpu dec) (carry_in cpu)
     (reg_hl (op_adc_hl_rr cpu dec)) (reg_f (op_adc_hl_rr cpu dec))"
proof -
  define c where "c = carry_in cpu"
  have c: "c \<le> 1" unfolding c_def by (rule carry_in_le)
  define a b where "a = reg_hl cpu" and "b = hl_operand cpu dec"
  define r where "r = (ucast (ucast a + ucast b + of_nat c :: u32) :: u16)"
  have r: "unat r = (unat a + unat b + c) mod 65536" unfolding r_def by (rule sum32(3) [OF c])
  have f: "reg_f (op_adc_hl_rr cpu dec) =
      flags16 0 (4096 \<le> unat a mod 4096 + unat b mod 4096 + c) (65536 \<le> unat a + unat b + c)
        (\<not> fits 32768 (sint a + sint b + int c)) r"
    unfolding op_adc_hl_rr_def Let_def hl_operand_def [symmetric] carry_in_u32 c_def [symmetric]
      a_def [symmetric] b_def [symmetric] sum32 [OF c] r_def [symmetric] add16_overflow [OF r c]
    by (simp add: flags16_def)
  have h: "reg_hl (op_adc_hl_rr cpu dec) = r"
    unfolding op_adc_hl_rr_def Let_def hl_operand_def [symmetric] carry_in_u32 c_def [symmetric]
      a_def [symmetric] b_def [symmetric] r_def [symmetric] by simp
  show ?thesis
    unfolding add16_ok_def f h a_def [symmetric] b_def [symmetric] c_def [symmetric] flags16_bits
      sint_u16_neg_iff bit_hi8
    using r by auto
qed

lemma op_sbc_hl_ok:
  "sub16_ok (reg_hl cpu) (hl_operand cpu dec) (carry_in cpu)
     (reg_hl (op_sbc_hl_rr cpu dec)) (reg_f (op_sbc_hl_rr cpu dec))"
proof -
  define c where "c = carry_in cpu"
  have c: "c \<le> 1" unfolding c_def by (rule carry_in_le)
  define a b where "a = reg_hl cpu" and "b = hl_operand cpu dec"
  define r where "r = (ucast (ucast a - ucast b - of_nat c :: u32) :: u16)"
  have r: "int (unat r) = (int (unat a) - int (unat b) - int c) mod 65536" unfolding r_def by (rule diff32(3) [OF c])
  have f: "reg_f (op_sbc_hl_rr cpu dec) =
      flags16 Z80_FLAG_N (unat a mod 4096 < unat b mod 4096 + c) (unat a < unat b + c)
        (\<not> fits 32768 (sint a - sint b - int c)) r"
    unfolding op_sbc_hl_rr_def Let_def hl_operand_def [symmetric] carry_in_u32 c_def [symmetric]
      a_def [symmetric] b_def [symmetric] diff32 [OF c] r_def [symmetric] sub16_overflow [OF r c]
    by (simp add: flags16_def)
  have h: "reg_hl (op_sbc_hl_rr cpu dec) = r"
    unfolding op_sbc_hl_rr_def Let_def hl_operand_def [symmetric] carry_in_u32 c_def [symmetric]
      a_def [symmetric] b_def [symmetric] r_def [symmetric] by simp
  show ?thesis
    unfolding sub16_ok_def f h a_def [symmetric] b_def [symmetric] c_def [symmetric] flags16_bits
      sint_u16_neg_iff bit_hi8 bit_flag_masks
    using r by auto
qed

text \<open>\<open>ADD HL,rr\<close> (and ADD IX,rr, ADD IY,rr) sets only C, H, N and bits 5 and 3.\<close>

definition add_hl_src :: "'h z80_cpu \<Rightarrow> z80_decoded \<Rightarrow> u16" where
  "add_hl_src cpu dec =
     (if reg1 dec = 3 then reg_sp cpu else if reg1 dec = 2 then get_xhl cpu dec else read_rr cpu (reg1 dec))"

lemma get_put_xhl [simp]: "get_xhl (put_xhl cpu dec v) dec = v" "reg_f (put_xhl cpu dec v) = reg_f cpu"
  by (simp_all add: get_xhl_def put_xhl_def reg16_defs)

lemma op_add_hl_ok:
  fixes cpu :: "'h z80_cpu" and dec :: z80_decoded
  defines "a \<equiv> get_xhl cpu dec" and "b \<equiv> add_hl_src cpu dec" and "cpu' \<equiv> op_add_hl_rr cpu dec"
  shows "unat (get_xhl cpu' dec) = (unat a + unat b) mod 65536 \<and>
    (bit (reg_f cpu') 0 \<longleftrightarrow> 65536 \<le> unat a + unat b) \<and>
    (bit (reg_f cpu') 4 \<longleftrightarrow> 4096 \<le> unat a mod 4096 + unat b mod 4096) \<and> \<not> bit (reg_f cpu') 1 \<and>
    (bit (reg_f cpu') 5 \<longleftrightarrow> bit (get_xhl cpu' dec) 13) \<and> (bit (reg_f cpu') 3 \<longleftrightarrow> bit (get_xhl cpu' dec) 11) \<and>
    (bit (reg_f cpu') 7 \<longleftrightarrow> bit (reg_f cpu) 7) \<and> (bit (reg_f cpu') 6 \<longleftrightarrow> bit (reg_f cpu) 6) \<and>
    (bit (reg_f cpu') 2 \<longleftrightarrow> bit (reg_f cpu) 2)"
proof -
  note z = sum32 [of 0 a b, simplified]
  have src: "(if reg1 dec = 3 then reg_sp cpu else if reg1 dec = 2 then a else read_rr cpu (reg1 dec)) = b"
    by (simp add: a_def b_def add_hl_src_def)
  define r where "r = (ucast (ucast a + ucast b :: u32) :: u16)"
  have g: "get_xhl cpu' dec = r"
    unfolding cpu'_def op_add_hl_rr_def Let_def a_def [symmetric] src r_def [symmetric] by simp
  have f: "reg_f cpu' = (set_if (4096 \<le> unat a mod 4096 + unat b mod 4096) 0x10
      (set_if (65536 \<le> unat a + unat b) 0x01 (reg_f cpu AND (0x80 OR 0x40 OR 0x04)))
        AND NOT 0x02 AND NOT (0x20 OR 0x08)) OR xy_from (hi8 r)"
    unfolding cpu'_def op_add_hl_rr_def Let_def a_def [symmetric] src r_def [symmetric] z by (simp add: and.assoc)
  have b: "bit (reg_f cpu') n \<longleftrightarrow> n = 4 \<and> 4096 \<le> unat a mod 4096 + unat b mod 4096 \<or>
      n = 0 \<and> 65536 \<le> unat a + unat b \<or> bit (reg_f cpu) n \<and> (n = 7 \<or> n = 6 \<or> n = 2) \<or>
      bit (hi8 r) n \<and> (n = 5 \<or> n = 3)" if "n < 8" for n
    unfolding f using that by (auto simp only: flag_bits)
  show ?thesis
    using b [of 0] b [of 1] b [of 2] b [of 3] b [of 4] b [of 5] b [of 6] b [of 7] z(3)
    unfolding g by (simp add: r_def bit_hi8)
qed

section \<open>Decimal arithmetic\<close>

text \<open>The low correction and whether the high one applies, on numbers.\<close>

definition daa_low :: "nat \<Rightarrow> bool \<Rightarrow> nat" where
  "daa_low a h = (if a mod 16 > 9 \<or> h then 6 else 0)"
definition daa_high :: "nat \<Rightarrow> bool \<Rightarrow> bool" where
  "daa_high a c \<longleftrightarrow> a > 153 \<or> c"

lemma daa_add_core:
  assumes "h \<le> 18" "l \<le> 19" "s = 16 * h + l" "a = s mod 256" "c \<longleftrightarrow> 256 \<le> s" "hc \<longleftrightarrow> 16 \<le> l"
    "r = (a + (daa_low a hc + (if daa_high a c then 96 else 0))) mod 256"
  shows "r mod 16 \<le> 9 \<and> r div 16 \<le> 9 \<and>
    10 * (r div 16) + r mod 16 + (if daa_high a c then 100 else 0) = 10 * h + (l :: nat)"
proof -
  define q t where "q = h + (if 10 \<le> l then 1 else 0)" and "t = (if 10 \<le> l then l - 10 else l)"
  have m: "a mod 16 = l mod 16" unfolding assms(3,4) by (simp add: mod_mod_cancel)
  have low: "daa_low a hc = (if 10 \<le> l then 6 else 0)"
  proof -
    have "a mod 16 > 9 \<or> hc \<longleftrightarrow> 10 \<le> l" unfolding m assms(6) using assms(2) by (auto simp: mod_if split: if_splits)
    then show ?thesis by (simp add: daa_low_def)
  qed
  have "daa_high a c \<longleftrightarrow> 153 < s"
    using assms(1-5) by (auto simp: daa_high_def mod_if split: if_splits)
  then have high: "daa_high a c \<longleftrightarrow> 10 \<le> q" unfolding q_def using assms(1-3) by (simp split: if_splits; linarith)
  have t: "t \<le> 9" "q \<le> 19" "s + daa_low a hc = 16 * q + t"
    using assms(1-3) low by (auto simp: t_def q_def)
  have n: "r = (s + daa_low a hc + (if 10 \<le> q then 96 else 0)) mod 256"
    unfolding assms(7) high by (simp add: assms(4) mod_add_left_eq add.assoc)
  have r: "r = 16 * (if 10 \<le> q then q - 10 else q) + t"
  proof (cases "10 \<le> q")
    case True
    then have "16 * q + t + 96 = 16 * (q - 10) + t + 256" by simp
    with n True t show ?thesis by simp
  qed (use n t in simp)
  have "r mod 16 = t" "r div 16 = (if 10 \<le> q then q - 10 else q)" using t(1) unfolding r by simp_all
  then show ?thesis using t high by (auto simp: t_def q_def split: if_splits)
qed

lemma daa_sub_core:
  fixes dh dl :: int
  assumes "-9 \<le> dh" "dh \<le> 9" "-10 \<le> dl" "dl \<le> 9" "s = 16 * dh + dl" "int a = s mod 256" "c \<longleftrightarrow> s < 0" "hc \<longleftrightarrow> dl < 0"
    "int r = (int a - int (daa_low a hc + (if daa_high a c then 96 else 0))) mod 256"
  shows "r mod 16 \<le> 9 \<and> r div 16 \<le> 9 \<and>
    10 * int (r div 16) + int (r mod 16) = 10 * dh + dl + (if daa_high a c then 100 else 0)"
proof -
  define q t where "q = dh - (if dl < 0 then 1 else 0)" and "t = nat (if dl < 0 then dl + 10 else dl)"
  have "int a mod 16 = dl mod 16" unfolding assms(5,6) by (simp add: mod_mod_cancel)
  then have m: "int (a mod 16) = dl mod 16" by (simp add: zmod_int)
  have low: "daa_low a hc = (if dl < 0 then 6 else 0)"
    using m assms(4,8) by (auto simp: daa_low_def)
  have high: "daa_high a c \<longleftrightarrow> q < 0"
  proof -
    have "a \<le> 153" if "0 \<le> s" using that assms(2,4,5,6) by simp
    then have "daa_high a c \<longleftrightarrow> s < 0" using assms(7) by (auto simp: daa_high_def)
    then show ?thesis unfolding q_def assms(5) using assms(3,4) by (simp split: if_splits; linarith)
  qed
  have t: "t \<le> 9" "-10 \<le> q" "q \<le> 9" "s - int (daa_low a hc) = 16 * q + int t"
    using assms(1-5) low by (auto simp: t_def q_def)
  have "int r = (s - int (daa_low a hc) - (if q < 0 then 96 else 0)) mod 256"
    unfolding assms(9) high by (simp add: assms(6) mod_diff_left_eq algebra_simps)
  also have "\<dots> = 16 * (if q < 0 then q + 10 else q) + int t"
  proof (cases "q < 0")
    case True
    have e: "16 * (q + 10) + int t = 16 * q + int t - 96 + 256" by simp
    have "(s - int (daa_low a hc) - 96) mod 256 = (16 * (q + 10) + int t) mod 256"
      unfolding t(4) e by (simp only: mod_add_self2)
    also have "\<dots> = 16 * (q + 10) + int t" using True t by (intro mod_pos_pos_trivial) simp_all
    finally show ?thesis using True by simp
  next
    case False
    then have "(16 * q + int t) mod 256 = 16 * q + int t" using t by (intro mod_pos_pos_trivial) simp_all
    with False t show ?thesis by simp
  qed
  finally have r: "r = 16 * nat (if q < 0 then q + 10 else q) + t"
    using t by (auto split: if_splits)
  have "r mod 16 = t" "r div 16 = nat (if q < 0 then q + 10 else q)" using t(1) unfolding r by simp_all
  then show ?thesis using t high assms(3) by (auto simp: t_def q_def split: if_splits)
qed

text \<open>\<open>op_daa\<close> in these terms.\<close>

lemma daa_tests:
  "(a :: u8) AND 0x0F > 9 \<longleftrightarrow> unat a mod 16 > 9" "(a :: u8) > 0x99 \<longleftrightarrow> unat a > 153"
  by (simp_all add: word_less_nat_alt and_F_mod)

lemma daa_corr:
  "unat ((if hi then (if lo then 0x06 else 0) OR 0x60 else if lo then 0x06 else 0) :: u8) =
     (if lo then 6 else 0) + (if hi then 96 else 0)"
  by simp

lemma op_daa_a:
  fixes cpu :: "'h z80_cpu"
  defines "corr \<equiv> daa_low (unat (reg_a cpu)) (bit (reg_f cpu) 4) +
    (if daa_high (unat (reg_a cpu)) (bit (reg_f cpu) 0) then 96 else 0)"
  shows "\<not> bit (reg_f cpu) 1 \<Longrightarrow> unat (reg_a (op_daa cpu)) = (unat (reg_a cpu) + corr) mod 256"
    "bit (reg_f cpu) 1 \<Longrightarrow> int (unat (reg_a (op_daa cpu))) = (int (unat (reg_a cpu)) - int corr) mod 256"
proof -
  define k :: u8 where "k = (if reg_a cpu > 0x99 \<or> reg_f cpu AND 0x01 \<noteq> 0
      then (if reg_a cpu AND 0x0F > 9 \<or> reg_f cpu AND 0x10 \<noteq> 0 then 0x06 else 0) OR 0x60
      else if reg_a cpu AND 0x0F > 9 \<or> reg_f cpu AND 0x10 \<noteq> 0 then 0x06 else 0)"
  have k: "unat k = corr"
    unfolding k_def daa_corr corr_def daa_low_def daa_high_def daa_tests and_flag_iff by simp
  have a: "reg_a (op_daa cpu) = (if bit (reg_f cpu) 1 then reg_a cpu - k else reg_a cpu + k)"
    unfolding op_daa_def Let_def k_def and_flag_iff by simp
  show "unat (reg_a (op_daa cpu)) = (unat (reg_a cpu) + corr) mod 256" if "\<not> bit (reg_f cpu) 1"
    using that unfolding a k [symmetric] by (simp add: unat_word_ariths)
  show "int (unat (reg_a (op_daa cpu))) = (int (unat (reg_a cpu)) - int corr) mod 256" if "bit (reg_f cpu) 1"
    using that sub_result [of "reg_a cpu" k] unfolding a k [symmetric] by simp
qed

lemma op_daa_carry:
  "bit (reg_f (op_daa cpu)) 0 \<longleftrightarrow> daa_high (unat (reg_a cpu)) (bit (reg_f cpu) 0)"
proof -
  have "reg_f (op_daa cpu) = (set_if (reg_a (op_daa cpu) AND 0x80 \<noteq> 0) 0x80 (set_if (reg_a (op_daa cpu) = 0) 0x40
     ((reg_f cpu AND 0x02) OR (if reg_a cpu > 0x99 \<or> reg_f cpu AND 0x01 \<noteq> 0 then 0x01 else 0) OR
      (if reg_f cpu AND 0x02 \<noteq> 0 then (if reg_f cpu AND 0x10 \<noteq> 0 \<and> reg_a cpu AND 0x0F < 6 then 0x10 else 0)
       else (if reg_a cpu AND 0x0F > 9 then 0x10 else 0)) OR xy_from (reg_a (op_daa cpu))))) OR
     parity8 (reg_a (op_daa cpu))"
    unfolding op_daa_def Let_def by simp
  also have "bit \<dots> 0 \<longleftrightarrow> reg_a cpu > 0x99 \<or> reg_f cpu AND 0x01 \<noteq> 0"
    by (simp add: flag_bits del: bit_0)
  finally show ?thesis unfolding daa_high_def daa_tests and_flag_iff .
qed

definition is_bcd :: "u8 \<Rightarrow> bool" where
  "is_bcd a \<longleftrightarrow> unat a mod 16 \<le> 9 \<and> unat a div 16 \<le> 9"

definition bcd :: "u8 \<Rightarrow> nat" where
  "bcd a = 10 * (unat a div 16) + unat a mod 16"

lemma bcd_balance:
  "int d = 10 * (int xh - int yh) + (int xl - int yl - int c) + int k \<Longrightarrow>
   d + (10 * yh + yl) + c = 10 * xh + xl + k"
  by presburger

lemma daa_after_adc:
  fixes cpu :: "'h z80_cpu" and b :: u8
  defines "cpu' \<equiv> op_daa (alu_adc cpu b)"
  assumes "is_bcd (reg_a cpu)" "is_bcd b"
  shows "is_bcd (reg_a cpu') \<and>
    bcd (reg_a cpu') + (if bit (reg_f cpu') 0 then 100 else 0) = bcd (reg_a cpu) + bcd b + carry_in cpu"
proof -
  define x y c where "x = unat (reg_a cpu)" and "y = unat b" and "c = carry_in cpu"
  note ok = alu_adc_ok [of cpu b, unfolded add8_ok_def, folded x_def y_def c_def]
  let ?m = "alu_adc cpu b"
  have c: "c \<le> 1" unfolding c_def by (rule carry_in_le)
  have s: "x + y + c = 16 * (x div 16 + y div 16) + (x mod 16 + y mod 16 + c)" by simp
  have "unat (reg_a cpu') = (unat (reg_a ?m) + (daa_low (unat (reg_a ?m)) (bit (reg_f ?m) 4) +
      (if daa_high (unat (reg_a ?m)) (bit (reg_f ?m) 0) then 96 else 0))) mod 256"
    unfolding cpu'_def using ok by (intro op_daa_a(1)) blast
  then have "unat (reg_a cpu') mod 16 \<le> 9 \<and> unat (reg_a cpu') div 16 \<le> 9 \<and>
      10 * (unat (reg_a cpu') div 16) + unat (reg_a cpu') mod 16 +
        (if daa_high (unat (reg_a ?m)) (bit (reg_f ?m) 0) then 100 else 0) =
      10 * (x div 16 + y div 16) + (x mod 16 + y mod 16 + c)"
    using assms(2,3) c ok
    by (intro daa_add_core [where s = "x + y + c"]) (auto simp: is_bcd_def x_def y_def)
  then show ?thesis
    unfolding cpu'_def op_daa_carry is_bcd_def bcd_def x_def y_def c_def by (simp add: algebra_simps)
qed

lemma daa_after_sbc:
  fixes cpu :: "'h z80_cpu" and b :: u8
  defines "cpu' \<equiv> op_daa (alu_sbc cpu b)"
  assumes "is_bcd (reg_a cpu)" "is_bcd b"
  shows "is_bcd (reg_a cpu') \<and>
    bcd (reg_a cpu') + bcd b + carry_in cpu = bcd (reg_a cpu) + (if bit (reg_f cpu') 0 then 100 else 0)"
proof -
  define x y c where "x = unat (reg_a cpu)" and "y = unat b" and "c = carry_in cpu"
  note ok = alu_sbc_ok [of cpu b, unfolded sub8_ok_def, folded x_def y_def c_def]
  let ?m = "alu_sbc cpu b"
  have c: "c \<le> 1" unfolding c_def by (rule carry_in_le)
  let ?dh = "int (x div 16) - int (y div 16)" and ?dl = "int (x mod 16) - int (y mod 16) - int c"
  have s: "int x - int y - int c = 16 * ?dh + ?dl" by (simp add: zmod_int zdiv_int) presburger
  have bx: "x mod 16 \<le> 9" "x div 16 \<le> 9" "y mod 16 \<le> 9" "y div 16 \<le> 9"
    using assms(2,3) by (simp_all add: is_bcd_def x_def y_def)
  have r: "int (unat (reg_a cpu')) = (int (unat (reg_a ?m)) - int (daa_low (unat (reg_a ?m)) (bit (reg_f ?m) 4) +
      (if daa_high (unat (reg_a ?m)) (bit (reg_f ?m) 0) then 96 else 0))) mod 256"
    unfolding cpu'_def using ok by (intro op_daa_a(2)) blast
  have a: "int (unat (reg_a ?m)) = (int x - int y - int c) mod 256" using ok by blast
  have cy: "bit (reg_f ?m) 0 \<longleftrightarrow> int x - int y - int c < 0"
  proof -
    have "bit (reg_f ?m) 0 \<longleftrightarrow> x < y + c" using ok by blast
    then show ?thesis by linarith
  qed
  have hc: "bit (reg_f ?m) 4 \<longleftrightarrow> ?dl < 0"
  proof -
    have "bit (reg_f ?m) 4 \<longleftrightarrow> x mod 16 < y mod 16 + c" using ok by blast
    then show ?thesis by linarith
  qed
  have "-9 \<le> ?dh" "?dh \<le> 9" "-10 \<le> ?dl" "?dl \<le> 9" using bx c by linarith+
  note core = daa_sub_core [OF this s a cy hc r]
  show ?thesis
  proof
    show "is_bcd (reg_a cpu')" using core by (simp only: is_bcd_def)
    have "int (bcd (reg_a cpu')) =
        10 * ?dh + ?dl + int (if daa_high (unat (reg_a ?m)) (bit (reg_f ?m) 0) then 100 else 0)"
      using core unfolding bcd_def
      by (cases "daa_high (unat (reg_a ?m)) (bit (reg_f ?m) 0)") simp_all
    from bcd_balance [OF this]
    show "bcd (reg_a cpu') + bcd b + carry_in cpu = bcd (reg_a cpu) + (if bit (reg_f cpu') 0 then 100 else 0)"
      by (simp only: bcd_def x_def y_def c_def cpu'_def op_daa_carry)
  qed
qed

section \<open>Parity\<close>

lemma parity8_bits:
  "parity8 v \<noteq> 0 \<longleftrightarrow> even (\<Sum>n < 8. of_bool (bit v n) :: nat)"
proof -
  have s: "(\<Sum>n < 8. of_bool (bit v n) :: nat) = of_bool (bit v 0) + of_bool (bit v 1) + of_bool (bit v 2) +
      of_bool (bit v 3) + of_bool (bit v 4) + of_bool (bit v 5) + of_bool (bit v 6) + of_bool (bit v 7)"
    by (simp add: eval_nat_numeral)
  have "parity8 v \<noteq> 0 \<longleftrightarrow> \<not> (((bit v 0 \<noteq> bit v 4) \<noteq> (bit v 2 \<noteq> bit v 6)) \<noteq> ((bit v 1 \<noteq> bit v 5) \<noteq> (bit v 3 \<noteq> bit v 7)))"
    by (simp add: parity8_def Let_def and_flag_iff bit_xor_iff bit_drop_bit_eq del: bit_0)
  then show ?thesis unfolding s even_add by auto
qed

section \<open>Rotates\<close>

text \<open>A and the carry as the nine bits that RLA and RRA rotate.\<close>

lemma rot_a_simps [simp]:
  "reg_a (rot_a_flags cpu a c) = a" "bit (reg_f (rot_a_flags cpu a c)) 0 \<longleftrightarrow> c"
  by (simp_all add: rot_a_flags_def flag_bits del: bit_0)

lemma bit_rol: "bit (push_bit 1 (a :: u8) OR (if c then 1 else 0)) n \<longleftrightarrow> n < 8 \<and> (if n = 0 then c else bit a (n - 1))"
proof -
  have "bit (push_bit 1 a) n \<longleftrightarrow> 0 < n \<and> n < 8 \<and> bit a (n - 1)"
    unfolding bit_push_bit_iff possible_bit_def by (auto simp: Suc_le_eq not_le)
  moreover have "bit (if c then 1 else 0 :: u8) n \<longleftrightarrow> c \<and> n = 0"
    by (simp only: bit_flag_masks bit_0_eq bot_apply if_distribR split: if_split) simp
  ultimately show ?thesis unfolding bit_or_iff by auto
qed

lemma bit_ror: "bit (drop_bit 1 (a :: u8) OR (if c then 0x80 else 0)) n \<longleftrightarrow> n < 8 \<and> (if n = 7 then c else bit a (n + 1))"
proof -
  have "bit (drop_bit 1 a) n \<longleftrightarrow> n < 7 \<and> bit a (n + 1)"
    unfolding bit_drop_bit_eq o_def using bit_u8_ge [of "n + 1" a] by (cases "n < 7") (auto simp: add.commute)
  moreover have "bit (if c then 0x80 else 0 :: u8) n \<longleftrightarrow> c \<and> n = 7"
    by (simp only: bit_flag_masks bit_0_eq bot_apply if_distribR split: if_split) simp
  ultimately show ?thesis unfolding bit_or_iff by auto
qed

lemma op_rlca_a: "reg_a (op_rlca cpu) = push_bit 1 (reg_a cpu) OR (if bit (reg_a cpu) 7 then 1 else 0)"
  unfolding op_rlca_def Let_def rot_a_simps and_flag_iff ..

lemma push7: "push_bit 7 (a AND 1 :: u8) = (if bit a 0 then 0x80 else 0)"
proof -
  have "a AND 1 = (if bit a 0 then 1 else 0)"
    by (simp only: u8_eq_iff_bits bit_and_iff bit_flag_masks if_distrib [of bit] if_distribR) (simp del: bit_0)
  then show ?thesis by (simp del: bit_0)
qed

lemma op_rrca_a: "reg_a (op_rrca cpu) = drop_bit 1 (reg_a cpu) OR (if bit (reg_a cpu) 0 then 0x80 else 0)"
  unfolding op_rrca_def Let_def rot_a_simps push7 ..

lemma op_rla_af: "reg_a (op_rla cpu) = push_bit 1 (reg_a cpu) OR (if bit (reg_f cpu) 0 then 1 else 0)"
    "bit (reg_f (op_rla cpu)) 0 \<longleftrightarrow> bit (reg_a cpu) 7"
  unfolding op_rla_def Let_def rot_a_simps and_flag_iff by (rule refl)+

lemma op_rra_af: "reg_a (op_rra cpu) = drop_bit 1 (reg_a cpu) OR (if bit (reg_f cpu) 0 then 0x80 else 0)"
    "bit (reg_f (op_rra cpu)) 0 \<longleftrightarrow> bit (reg_a cpu) 0"
  unfolding op_rra_def Let_def rot_a_simps and_flag_iff by (rule refl)+

lemmas rot_bits = op_rrca_a op_rlca_a op_rla_af op_rra_af bit_rol bit_ror

lemma rotates_inverse:
  "reg_a (op_rrca (op_rlca cpu)) = reg_a cpu" "reg_a (op_rlca (op_rrca cpu)) = reg_a cpu"
  "reg_a (op_rra (op_rla cpu)) = reg_a cpu" "bit (reg_f (op_rra (op_rla cpu))) 0 = bit (reg_f cpu) 0"
  "reg_a (op_rla (op_rra cpu)) = reg_a cpu" "bit (reg_f (op_rla (op_rra cpu))) 0 = bit (reg_f cpu) 0"
proof -
  show "reg_a (op_rrca (op_rlca cpu)) = reg_a cpu" "reg_a (op_rlca (op_rrca cpu)) = reg_a cpu"
    "reg_a (op_rra (op_rla cpu)) = reg_a cpu" "reg_a (op_rla (op_rra cpu)) = reg_a cpu"
    by (rule bit_word_eqI; simp only: rot_bits; auto simp del: bit_0)+
  show "bit (reg_f (op_rra (op_rla cpu))) 0 = bit (reg_f cpu) 0" "bit (reg_f (op_rla (op_rra cpu))) 0 = bit (reg_f cpu) 0"
    by (simp_all only: rot_bits) simp_all
qed

section \<open>Properties of the arithmetic\<close>

text \<open>C26: ADD and ADC compute the sum modulo 256, and every flag means what the processor
  manual says: carry out of bit 7, carry out of bit 3, signed overflow, sign, zero, N
  clear, bits 5 and 3 copied from the result.\<close>

theorem add_adc_correct:
  "add8_ok (reg_a cpu) b 0 (reg_a (alu_add cpu b)) (reg_f (alu_add cpu b)) \<and>
   add8_ok (reg_a cpu) b (carry_in cpu) (reg_a (alu_adc cpu b)) (reg_f (alu_adc cpu b))"
  using alu_add_ok alu_adc_ok by blast

text \<open>C27: SUB, SBC and NEG compute the difference modulo 256 with borrow, half-borrow and signed
  overflow in C, H and PV and N set; CP sets the same flags, leaves A alone and takes
  bits 5 and 3 from its operand.\<close>

theorem sub_sbc_cp_neg_correct:
  "sub8_ok (reg_a (alu_sub cpu b)) (reg_a cpu) b 0 (reg_a (alu_sub cpu b)) (reg_f (alu_sub cpu b)) \<and>
   sub8_ok (reg_a (alu_sbc cpu b)) (reg_a cpu) b (carry_in cpu) (reg_a (alu_sbc cpu b)) (reg_f (alu_sbc cpu b)) \<and>
   sub8_ok b (reg_a cpu) b 0 (reg_a cpu - b) (reg_f (alu_cp cpu b)) \<and> reg_a (alu_cp cpu b) = reg_a cpu \<and>
   sub8_ok (reg_a (op_neg cpu)) 0 (reg_a cpu) 0 (reg_a (op_neg cpu)) (reg_f (op_neg cpu))"
  using alu_sub_ok alu_sbc_ok alu_cp_ok op_neg_ok by blast

text \<open>ADC HL,rr and SBC HL,rr: 16-bit sum and difference with carry, half-carry out of bit 11,
  signed overflow, sign and zero of the whole result.\<close>

theorem adc_sbc_hl_correct:
  "add16_ok (reg_hl cpu) (hl_operand cpu dec) (carry_in cpu)
     (reg_hl (op_adc_hl_rr cpu dec)) (reg_f (op_adc_hl_rr cpu dec)) \<and>
   sub16_ok (reg_hl cpu) (hl_operand cpu dec) (carry_in cpu)
     (reg_hl (op_sbc_hl_rr cpu dec)) (reg_f (op_sbc_hl_rr cpu dec))"
  using op_adc_hl_ok op_sbc_hl_ok by blast

text \<open>C28: Decimal addition: after ADC of two packed decimal bytes, DAA leaves the packed decimal
  sum modulo 100 in A and the hundred in the carry.\<close>

theorem daa_decimal_add:
  assumes "is_bcd (reg_a cpu)" "is_bcd b"
  shows "is_bcd (reg_a (op_daa (alu_adc cpu b))) \<and>
    bcd (reg_a (op_daa (alu_adc cpu b))) + (if bit (reg_f (op_daa (alu_adc cpu b))) 0 then 100 else 0) =
      bcd (reg_a cpu) + bcd b + carry_in cpu"
  using assms by (rule daa_after_adc)

definition decimal_cpu :: "unit z80_cpu" where
  "decimal_cpu = (z80_cpu_init None ())\<lparr>reg_a := 0x58\<rparr>"

lemma decimal_bcd: "is_bcd (reg_a decimal_cpu)" "is_bcd 0x67"
  by (simp_all add: is_bcd_def decimal_cpu_def)

theorem daa_decimal_add_witness:
  "bcd (reg_a (op_daa (alu_adc decimal_cpu 0x67))) +
     (if bit (reg_f (op_daa (alu_adc decimal_cpu 0x67))) 0 then 100 else 0) = 125"
proof -
  have "bcd (reg_a decimal_cpu) + bcd 0x67 + carry_in decimal_cpu = 125"
    by (simp add: bcd_def carry_in_def decimal_cpu_def z80_cpu_init_def zero_cpu_def)
  with daa_decimal_add [OF decimal_bcd] show ?thesis by simp
qed

text \<open>Decimal subtraction: after SBC of two packed decimal bytes, DAA leaves the packed decimal
  difference modulo 100 in A and the borrowed hundred in the carry.\<close>

theorem daa_decimal_sub:
  assumes "is_bcd (reg_a cpu)" "is_bcd b"
  shows "is_bcd (reg_a (op_daa (alu_sbc cpu b))) \<and>
    bcd (reg_a (op_daa (alu_sbc cpu b))) + bcd b + carry_in cpu =
      bcd (reg_a cpu) + (if bit (reg_f (op_daa (alu_sbc cpu b))) 0 then 100 else 0)"
  using assms by (rule daa_after_sbc)

theorem daa_decimal_sub_witness:
  "bcd (reg_a (op_daa (alu_sbc decimal_cpu 0x67))) + 67 =
     58 + (if bit (reg_f (op_daa (alu_sbc decimal_cpu 0x67))) 0 then 100 else 0)"
proof -
  have "bcd (reg_a decimal_cpu) = 58" "bcd 0x67 + carry_in decimal_cpu = 67"
    by (simp_all add: bcd_def carry_in_def decimal_cpu_def z80_cpu_init_def zero_cpu_def)
  with daa_decimal_sub [OF decimal_bcd] show ?thesis by (simp add: add.assoc)
qed

text \<open>The parity flag of the logic and rotate instructions is set exactly when the byte has an
  even number of one bits.\<close>

theorem parity8_correct:
  "parity8 v = (if even (\<Sum>n < 8. of_bool (bit v n) :: nat) then Z80_FLAG_PV else 0)"
  using parity8_bits [of v] by (auto simp: parity8_def Let_def split: if_splits)

text \<open>RLCA and RRCA undo each other on A; RLA and RRA undo each other on A and carry.\<close>

theorem accumulator_rotates_inverse:
  "reg_a (op_rrca (op_rlca cpu)) = reg_a cpu \<and> reg_a (op_rlca (op_rrca cpu)) = reg_a cpu \<and>
   reg_a (op_rra (op_rla cpu)) = reg_a cpu \<and> bit (reg_f (op_rra (op_rla cpu))) 0 = bit (reg_f cpu) 0 \<and>
   reg_a (op_rla (op_rra cpu)) = reg_a cpu \<and> bit (reg_f (op_rla (op_rra cpu))) 0 = bit (reg_f cpu) 0"
  using rotates_inverse by blast

end
