(* ===== verification/Dbt_Flags.thy ===== *)
theory Dbt_Flags
  imports Z80_Interp
begin

text \<open>
  The helpers that translated blocks call (\<open>dbt/dbt_flags.c\<close>, \<open>dbt/dbt_flags.h\<close>): the 8-bit
  arithmetic, the CB page, DAA, the lookup tables behind the inline flag code, the block
  transfers, the port helpers and the loops that the translator folds into one call.
  The file's own \<open>xy_from\<close> and \<open>parity8\<close> have the bodies of the interpreter's and share their
  definitions.  A helper that would dereference a null pointer returns \<open>None\<close>.
\<close>

section \<open>8-bit arithmetic and logic\<close>

definition z80_jit_add :: "'h z80_cpu \<Rightarrow> u8 \<Rightarrow> 'h z80_cpu" where
  "z80_jit_add cpu b =
     (let a = reg_a cpu;
          res = a + b;
          f = xy_from res;
          f = set_if (res = 0) Z80_FLAG_Z f;
          f = set_if (res AND 0x80 \<noteq> 0) Z80_FLAG_S f;
          f = set_if (unat (a AND 0xF) + unat (b AND 0xF) > 0xF) Z80_FLAG_H f;
          f = set_if (unat a + unat b > 0xFF) Z80_FLAG_C f;
          f = set_if ((a XOR b) AND 0x80 = 0 \<and> (res XOR a) AND 0x80 \<noteq> 0) Z80_FLAG_PV f
      in cpu\<lparr>reg_f := f, reg_a := res, reg_q := 1\<rparr>)"

definition z80_jit_adc :: "'h z80_cpu \<Rightarrow> u8 \<Rightarrow> 'h z80_cpu" where
  "z80_jit_adc cpu b =
     (let a = reg_a cpu;
          c_in = reg_f cpu AND Z80_FLAG_C;
          sum = (ucast a + ucast b + ucast c_in :: u16);
          res = (ucast sum :: u8);
          f = xy_from res;
          f = set_if (res = 0) Z80_FLAG_Z f;
          f = set_if (res AND 0x80 \<noteq> 0) Z80_FLAG_S f;
          f = set_if (unat (a AND 0xF) + unat (b AND 0xF) + unat c_in > 0xF) Z80_FLAG_H f;
          f = set_if (sum > 0xFF) Z80_FLAG_C f;
          f = set_if ((a XOR b) AND 0x80 = 0 \<and> (res XOR a) AND 0x80 \<noteq> 0) Z80_FLAG_PV f
      in cpu\<lparr>reg_f := f, reg_a := res, reg_q := 1\<rparr>)"

definition z80_jit_sub :: "'h z80_cpu \<Rightarrow> u8 \<Rightarrow> 'h z80_cpu" where
  "z80_jit_sub cpu b =
     (let a = reg_a cpu;
          res = a - b;
          f = Z80_FLAG_N OR xy_from res;
          f = set_if (res = 0) Z80_FLAG_Z f;
          f = set_if (res AND 0x80 \<noteq> 0) Z80_FLAG_S f;
          f = set_if (a AND 0xF < b AND 0xF) Z80_FLAG_H f;
          f = set_if (a < b) Z80_FLAG_C f;
          f = set_if ((a XOR b) AND 0x80 \<noteq> 0 \<and> (res XOR a) AND 0x80 \<noteq> 0) Z80_FLAG_PV f
      in cpu\<lparr>reg_f := f, reg_a := res, reg_q := 1\<rparr>)"

definition z80_jit_sbc :: "'h z80_cpu \<Rightarrow> u8 \<Rightarrow> 'h z80_cpu" where
  "z80_jit_sbc cpu b =
     (let a = reg_a cpu;
          c_in = reg_f cpu AND Z80_FLAG_C;
          diff = uint a - uint b - uint c_in;
          res = (word_of_int diff :: u8);
          f = Z80_FLAG_N OR xy_from res;
          f = set_if (res = 0) Z80_FLAG_Z f;
          f = set_if (res AND 0x80 \<noteq> 0) Z80_FLAG_S f;
          f = set_if (uint (a AND 0xF) - uint (b AND 0xF) - uint c_in < 0) Z80_FLAG_H f;
          f = set_if (diff < 0) Z80_FLAG_C f;
          f = set_if ((a XOR b) AND 0x80 \<noteq> 0 \<and> (res XOR a) AND 0x80 \<noteq> 0) Z80_FLAG_PV f
      in cpu\<lparr>reg_f := f, reg_a := res, reg_q := 1\<rparr>)"

definition z80_jit_and :: "'h z80_cpu \<Rightarrow> u8 \<Rightarrow> 'h z80_cpu" where
  "z80_jit_and cpu b =
     (let res = reg_a cpu AND b;
          f = Z80_FLAG_H OR xy_from res OR parity8 res;
          f = set_if (res = 0) Z80_FLAG_Z f;
          f = set_if (res AND 0x80 \<noteq> 0) Z80_FLAG_S f
      in cpu\<lparr>reg_f := f, reg_a := res, reg_q := 1\<rparr>)"

definition z80_jit_or :: "'h z80_cpu \<Rightarrow> u8 \<Rightarrow> 'h z80_cpu" where
  "z80_jit_or cpu b =
     (let res = reg_a cpu OR b;
          f = xy_from res OR parity8 res;
          f = set_if (res = 0) Z80_FLAG_Z f;
          f = set_if (res AND 0x80 \<noteq> 0) Z80_FLAG_S f
      in cpu\<lparr>reg_f := f, reg_a := res, reg_q := 1\<rparr>)"

definition z80_jit_xor :: "'h z80_cpu \<Rightarrow> u8 \<Rightarrow> 'h z80_cpu" where
  "z80_jit_xor cpu b =
     (let res = reg_a cpu XOR b;
          f = xy_from res OR parity8 res;
          f = set_if (res = 0) Z80_FLAG_Z f;
          f = set_if (res AND 0x80 \<noteq> 0) Z80_FLAG_S f
      in cpu\<lparr>reg_f := f, reg_a := res, reg_q := 1\<rparr>)"

definition z80_jit_cp :: "'h z80_cpu \<Rightarrow> u8 \<Rightarrow> 'h z80_cpu" where
  "z80_jit_cp cpu b =
     (let a = reg_a cpu;
          res = a - b;
          f = Z80_FLAG_N OR xy_from b;
          f = set_if (res = 0) Z80_FLAG_Z f;
          f = set_if (res AND 0x80 \<noteq> 0) Z80_FLAG_S f;
          f = set_if (a AND 0xF < b AND 0xF) Z80_FLAG_H f;
          f = set_if (a < b) Z80_FLAG_C f;
          f = set_if ((a XOR b) AND 0x80 \<noteq> 0 \<and> (res XOR a) AND 0x80 \<noteq> 0) Z80_FLAG_PV f
      in cpu\<lparr>reg_f := f, reg_q := 1\<rparr>)"

text \<open>\<open>daa_compute\<close>: new A and F.\<close>

definition daa_compute :: "u8 \<Rightarrow> u8 \<Rightarrow> u8 \<times> u8" where
  "daa_compute a fin =
     (let fcin = fin AND Z80_FLAG_C;
          fhin = fin AND Z80_FLAG_H;
          fnin = fin AND Z80_FLAG_N;
          corr = (if a AND 0x0F > 9 \<or> fhin \<noteq> 0 then 0x06 else 0);
          (corr, new_c) = (if a > 0x99 \<or> fcin \<noteq> 0 then (corr OR 0x60, Z80_FLAG_C) else (corr, 0));
          (new_a, new_h) =
            (if fnin \<noteq> 0 then (a - corr, if fhin \<noteq> 0 \<and> a AND 0x0F < 6 then Z80_FLAG_H else 0)
             else (a + corr, if a AND 0x0F > 9 then Z80_FLAG_H else 0));
          f = fnin OR new_c OR new_h OR xy_from new_a;
          f = set_if (new_a = 0) Z80_FLAG_Z f;
          f = set_if (new_a AND 0x80 \<noteq> 0) Z80_FLAG_S f;
          f = f OR parity8 new_a
      in (new_a, f))"

definition z80_jit_daa :: "'h z80_cpu \<Rightarrow> 'h z80_cpu" where
  "z80_jit_daa cpu =
     (let (a, f) = daa_compute (reg_a cpu) (reg_f cpu) in cpu\<lparr>reg_a := a, reg_f := f, reg_q := 1\<rparr>)"

text \<open>The helpers that return the new byte return it with the state.\<close>

definition z80_jit_inc8 :: "'h z80_cpu \<Rightarrow> u8 \<Rightarrow> u8 \<times> 'h z80_cpu" where
  "z80_jit_inc8 cpu v =
     (let res = v + 1;
          f = (reg_f cpu AND Z80_FLAG_C) OR xy_from res;
          f = set_if (res = 0) Z80_FLAG_Z f;
          f = set_if (res AND 0x80 \<noteq> 0) Z80_FLAG_S f;
          f = set_if (v AND 0xF = 0xF) Z80_FLAG_H f;
          f = set_if (v = 0x7F) Z80_FLAG_PV f
      in (res, cpu\<lparr>reg_f := f, reg_q := 1\<rparr>))"

definition z80_jit_dec8 :: "'h z80_cpu \<Rightarrow> u8 \<Rightarrow> u8 \<times> 'h z80_cpu" where
  "z80_jit_dec8 cpu v =
     (let res = v - 1;
          f = Z80_FLAG_N OR (reg_f cpu AND Z80_FLAG_C) OR xy_from res;
          f = set_if (res = 0) Z80_FLAG_Z f;
          f = set_if (res AND 0x80 \<noteq> 0) Z80_FLAG_S f;
          f = set_if (v AND 0xF = 0) Z80_FLAG_H f;
          f = set_if (v = 0x80) Z80_FLAG_PV f
      in (res, cpu\<lparr>reg_f := f, reg_q := 1\<rparr>))"

section \<open>The CB page\<close>

definition rotshift_flags :: "u8 \<Rightarrow> u8 \<Rightarrow> u8" where
  "rotshift_flags result new_c =
     (let f = xy_from result OR parity8 result;
          f = set_if (new_c \<noteq> 0) Z80_FLAG_C f;
          f = set_if (result = 0) Z80_FLAG_Z f
      in set_if (result AND 0x80 \<noteq> 0) Z80_FLAG_S f)"

definition z80_jit_rlc :: "'h z80_cpu \<Rightarrow> u8 \<Rightarrow> u8 \<times> 'h z80_cpu" where
  "z80_jit_rlc cpu val =
     (let new_c = drop_bit 7 val AND 1; res = push_bit 1 val OR new_c
      in (res, cpu\<lparr>reg_f := rotshift_flags res new_c, reg_q := 1\<rparr>))"

definition z80_jit_rrc :: "'h z80_cpu \<Rightarrow> u8 \<Rightarrow> u8 \<times> 'h z80_cpu" where
  "z80_jit_rrc cpu val =
     (let new_c = val AND 1; res = drop_bit 1 val OR (if new_c \<noteq> 0 then 0x80 else 0)
      in (res, cpu\<lparr>reg_f := rotshift_flags res new_c, reg_q := 1\<rparr>))"

definition z80_jit_rl :: "'h z80_cpu \<Rightarrow> u8 \<Rightarrow> u8 \<times> 'h z80_cpu" where
  "z80_jit_rl cpu val =
     (let c_in = (if reg_f cpu AND Z80_FLAG_C \<noteq> 0 then 1 else 0);
          new_c = drop_bit 7 val AND 1; res = push_bit 1 val OR c_in
      in (res, cpu\<lparr>reg_f := rotshift_flags res new_c, reg_q := 1\<rparr>))"

definition z80_jit_rr :: "'h z80_cpu \<Rightarrow> u8 \<Rightarrow> u8 \<times> 'h z80_cpu" where
  "z80_jit_rr cpu val =
     (let c_in = (if reg_f cpu AND Z80_FLAG_C \<noteq> 0 then 1 else 0 :: u8);
          new_c = val AND 1; res = drop_bit 1 val OR (if c_in \<noteq> 0 then 0x80 else 0)
      in (res, cpu\<lparr>reg_f := rotshift_flags res new_c, reg_q := 1\<rparr>))"

definition z80_jit_sla :: "'h z80_cpu \<Rightarrow> u8 \<Rightarrow> u8 \<times> 'h z80_cpu" where
  "z80_jit_sla cpu val =
     (let new_c = drop_bit 7 val AND 1; res = push_bit 1 val
      in (res, cpu\<lparr>reg_f := rotshift_flags res new_c, reg_q := 1\<rparr>))"

definition z80_jit_sra :: "'h z80_cpu \<Rightarrow> u8 \<Rightarrow> u8 \<times> 'h z80_cpu" where
  "z80_jit_sra cpu val =
     (let new_c = val AND 1; res = drop_bit 1 val OR (val AND 0x80)
      in (res, cpu\<lparr>reg_f := rotshift_flags res new_c, reg_q := 1\<rparr>))"

definition z80_jit_sll :: "'h z80_cpu \<Rightarrow> u8 \<Rightarrow> u8 \<times> 'h z80_cpu" where
  "z80_jit_sll cpu val =
     (let new_c = drop_bit 7 val AND 1; res = push_bit 1 val OR 1
      in (res, cpu\<lparr>reg_f := rotshift_flags res new_c, reg_q := 1\<rparr>))"

definition z80_jit_srl :: "'h z80_cpu \<Rightarrow> u8 \<Rightarrow> u8 \<times> 'h z80_cpu" where
  "z80_jit_srl cpu val =
     (let new_c = val AND 1; res = drop_bit 1 val
      in (res, cpu\<lparr>reg_f := rotshift_flags res new_c, reg_q := 1\<rparr>))"

definition z80_jit_bit :: "'h z80_cpu \<Rightarrow> u8 \<Rightarrow> u8 \<Rightarrow> u8 \<Rightarrow> 'h z80_cpu" where
  "z80_jit_bit cpu val bit_n xy_byte =
     (let mask = (push_bit (unat (bit_n AND 7)) 1 :: u8);
          b = (val AND mask \<noteq> 0);
          f = (reg_f cpu AND Z80_FLAG_C) OR Z80_FLAG_H OR xy_from xy_byte;
          f = set_if (\<not> b) (Z80_FLAG_Z OR Z80_FLAG_PV) f;
          f = set_if (b \<and> bit_n AND 7 = 7) Z80_FLAG_S f
      in cpu\<lparr>reg_f := f, reg_q := 1\<rparr>)"

section \<open>Lookup tables\<close>

abbreviation (input) FT_LOGIC :: nat where "FT_LOGIC \<equiv> 0"
abbreviation (input) FT_SZXY :: nat where "FT_SZXY \<equiv> 256"
abbreviation (input) FT_INC :: nat where "FT_INC \<equiv> 512"
abbreviation (input) FT_DEC :: nat where "FT_DEC \<equiv> 768"
abbreviation (input) DAA_TABLE_LEN :: nat where "DAA_TABLE_LEN \<equiv> 0x1400"
abbreviation (input) ADD16_TABLE_LEN :: nat where "ADD16_TABLE_LEN \<equiv> 512"

record flag_tables =
  z80_f_tables :: "nat \<Rightarrow> u8"
  z80_daa_table :: "nat \<Rightarrow> u16"
  z80_add16_table :: "nat \<Rightarrow> u8"

text \<open>The bodies of the three loops of \<open>z80_flag_tables_init\<close>.\<close>

definition add16_entry :: "nat \<Rightarrow> flag_tables \<Rightarrow> flag_tables" where
  "add16_entry v t =
     t\<lparr>z80_add16_table := (z80_add16_table t) (v := of_nat v AND (Z80_FLAG_H OR Z80_FLAG_5 OR Z80_FLAG_3)
         OR of_nat (v div 256))\<rparr>"

definition daa_entry :: "nat \<Rightarrow> flag_tables \<Rightarrow> flag_tables" where
  "daa_entry i t =
     (let a = of_nat i;
          f = of_nat (i div 256) AND (Z80_FLAG_C OR Z80_FLAG_N OR Z80_FLAG_H);
          (na, nf) = daa_compute a f
      in t\<lparr>z80_daa_table := (z80_daa_table t) (i := mk16 nf na)\<rparr>)"

definition result_entry :: "nat \<Rightarrow> flag_tables \<Rightarrow> flag_tables" where
  "result_entry r t =
     (let b = (of_nat r :: u8);
          szxy = xy_from b;
          szxy = set_if (r = 0) Z80_FLAG_Z szxy;
          szxy = set_if (b AND 0x80 \<noteq> 0) Z80_FLAG_S szxy
      in t\<lparr>z80_f_tables := (z80_f_tables t)
           (FT_LOGIC + r := szxy OR parity8 b,
            FT_SZXY + r := szxy,
            FT_INC + r := szxy OR (if b AND 0xF = 0 then Z80_FLAG_H else 0) OR (if r = 0x80 then Z80_FLAG_PV else 0),
            FT_DEC + r := szxy OR Z80_FLAG_N OR (if b AND 0xF = 0xF then Z80_FLAG_H else 0)
              OR (if r = 0x7F then Z80_FLAG_PV else 0))\<rparr>)"

definition z80_flag_tables_init :: "flag_tables \<Rightarrow> flag_tables" where
  "z80_flag_tables_init t =
     (let t = fold add16_entry [0..<ADD16_TABLE_LEN] t;
          t = fold daa_entry [0..<DAA_TABLE_LEN] t
      in fold result_entry [0..<256] t)"

section \<open>Block transfers\<close>

text \<open>The byte-at-a-time copy loop: memory and the last byte moved.  \<open>step i\<close> is \<open>incr * i\<close>.\<close>

definition copy_loop :: "(nat \<Rightarrow> u16) \<Rightarrow> u16 \<Rightarrow> u16 \<Rightarrow> nat \<Rightarrow> memory \<Rightarrow> u8 \<Rightarrow> memory \<times> u8" where
  "copy_loop step src dst n mem last_byte =
     fold (\<lambda>i (mem, last_byte). let b = mem (src + step i) in (mem (dst + step i := b), b)) [0..<n] (mem, last_byte)"

definition ldir_lddr_common :: "int \<Rightarrow> 'h z80_cpu \<Rightarrow> 'h z80_cpu" where
  "ldir_lddr_common incr cpu =
     (let bc = reg_bc cpu; hl = reg_hl cpu; de = reg_de cpu;
          step = (\<lambda>i. word_of_int (incr * int i));
          (mem, last_byte) = copy_loop step hl de (unat bc) (cmem cpu) 0;
          cpu = cpu\<lparr>cmem := mem\<rparr>;
          cpu = set_hl (hl + word_of_int (incr * uint bc)) cpu;
          cpu = set_de (de + word_of_int (incr * uint bc)) cpu;
          cpu = set_bc 0 cpu;
          n = reg_a cpu + last_byte;
          f = reg_f cpu AND (Z80_FLAG_S OR Z80_FLAG_Z OR Z80_FLAG_C);
          f = f OR (n AND Z80_FLAG_3);
          f = set_if (n AND 0x02 \<noteq> 0) Z80_FLAG_5 f;
          cpu = cpu\<lparr>reg_f := f, reg_q := 1\<rparr>
      in case cdbt cpu of
           None \<Rightarrow> cpu
         | Some dbt \<Rightarrow>
             (let any_code = list_ex (\<lambda>i. code_bitmap dbt (de + step i) \<noteq> 0) [0..<unat bc];
                  dst_lo = (if incr > 0 then de else de - (bc - 1))
              in if bc = 0 \<or> \<not> any_code then cpu
                 else cpu\<lparr>cdbt := Some (sweep_range dbt dst_lo (ucast bc))\<rparr>))"

definition z80_jit_ldir :: "'h z80_cpu \<Rightarrow> 'h z80_cpu" where
  "z80_jit_ldir cpu = ldir_lddr_common 1 cpu"

definition z80_jit_lddr :: "'h z80_cpu \<Rightarrow> 'h z80_cpu" where
  "z80_jit_lddr cpu = ldir_lddr_common (-1) cpu"

section \<open>Stores and ports\<close>

definition z80_jit_post_store :: "'h z80_cpu \<Rightarrow> u16 \<Rightarrow> 'h z80_cpu" where
  "z80_jit_post_store cpu addr = z80_mem_w cpu addr (cmem cpu addr)"

definition z80_jit_port_in :: "'h z80_env \<Rightarrow> 'h z80_cpu \<Rightarrow> u8 \<Rightarrow> u8 \<Rightarrow> u8 \<times> 'h z80_cpu" where
  "z80_jit_port_in env cpu port high = (case port_in env of Some h \<Rightarrow> h cpu port high | None \<Rightarrow> (0xFF, cpu))"

definition z80_jit_port_out :: "'h z80_env \<Rightarrow> 'h z80_cpu \<Rightarrow> u8 \<Rightarrow> u8 \<Rightarrow> u8 \<Rightarrow> 'h z80_cpu" where
  "z80_jit_port_out env cpu port high val = (case port_out env of Some h \<Rightarrow> h cpu port high val | None \<Rightarrow> cpu)"

section \<open>Folded loops\<close>

text \<open>\<open>smc_sweep_forward\<close> on the translator attached to the CPU.\<close>

definition cpu_sweep :: "'h z80_cpu \<Rightarrow> u16 \<Rightarrow> u32 \<Rightarrow> 'h z80_cpu" where
  "cpu_sweep cpu lo len = cpu\<lparr>cdbt := map_option (\<lambda>dbt. smc_sweep_forward dbt lo len) (cdbt cpu)\<rparr>"

text \<open>\<open>counter_reg\<close>: the counter a code names, and the store through the pointer.\<close>

definition counter_reg :: "'h z80_cpu \<Rightarrow> u32 \<Rightarrow> u8 option" where
  "counter_reg cpu code =
     (if code = 0 then Some (reg_b cpu) else if code = 1 then Some (reg_c cpu)
      else if code = 2 then Some (reg_d cpu) else if code = 3 then Some (reg_e cpu) else None)"

definition counter_put :: "'h z80_cpu \<Rightarrow> u32 \<Rightarrow> u8 \<Rightarrow> 'h z80_cpu" where
  "counter_put cpu code v =
     (if code = 0 then cpu\<lparr>reg_b := v\<rparr> else if code = 1 then cpu\<lparr>reg_c := v\<rparr>
      else if code = 2 then cpu\<lparr>reg_d := v\<rparr> else if code = 3 then cpu\<lparr>reg_e := v\<rparr> else cpu)"

text \<open>\<open>z80_f_tables[FT_DEC + 0]\<close> once the tables are initialised.\<close>

definition ft_dec_0 :: u8 where
  "ft_dec_0 = z80_f_tables (z80_flag_tables_init
     \<lparr>z80_f_tables = \<lambda>_. 0, z80_daa_table = \<lambda>_. 0, z80_add16_table = \<lambda>_. 0\<rparr>) (FT_DEC + 0)"

definition loop_epilogue :: "'h z80_cpu \<Rightarrow> u32 \<Rightarrow> 'h z80_cpu" where
  "loop_epilogue cpu cnt =
     (let cpu = counter_put cpu cnt 0
      in cpu\<lparr>reg_f := (reg_f cpu AND Z80_FLAG_C) OR ft_dec_0, reg_q := 0\<rparr>)"

definition z80_jit_loop_copy :: "'h z80_cpu \<Rightarrow> u32 \<Rightarrow> u16 \<Rightarrow> 'h z80_cpu option" where
  "z80_jit_loop_copy cpu spec pc =
     (case counter_reg cpu (spec AND 7) of
        None \<Rightarrow> None
      | Some cnt \<Rightarrow>
          (let n = (if cnt \<noteq> 0 then unat cnt else 256);
               dir = (drop_bit 8 spec AND 1 \<noteq> 0);
               src = (if dir then reg_de cpu else reg_hl cpu);
               dst = (if dir then reg_hl cpu else reg_de cpu);
               (mem, last_byte) = copy_loop of_nat src dst n (cmem cpu) (reg_a cpu);
               cpu = cpu\<lparr>cmem := mem\<rparr>;
               de_last = reg_de cpu + of_nat n - 1;
               cpu = set_hl (reg_hl cpu + of_nat n) cpu;
               cpu = set_de (reg_de cpu + of_nat n) cpu;
               cpu = cpu\<lparr>reg_a := last_byte\<rparr>;
               cpu = cpu\<lparr>insn_count := insn_count cpu + 6 * (of_nat n - 1)\<rparr>;
               cpu = loop_epilogue cpu (spec AND 7);
               cpu = cpu\<lparr>memptr := (if spec AND 0x200 = 0 then pc
                                    else if dir then de_last + 1
                                    else mk16 last_byte (lo8 (de_last + 1)))\<rparr>
           in Some (cpu_sweep cpu dst (of_nat n))))"

definition fill_loop :: "u16 \<Rightarrow> nat \<Rightarrow> u8 \<Rightarrow> memory \<Rightarrow> memory" where
  "fill_loop dst n v mem = fold (\<lambda>i mem. mem (dst + of_nat i := v)) [0..<n] mem"

definition z80_jit_loop_fill :: "'h z80_cpu \<Rightarrow> u32 \<Rightarrow> u16 \<Rightarrow> 'h z80_cpu option" where
  "z80_jit_loop_fill cpu spec pc =
     (case counter_reg cpu (spec AND 7) of
        None \<Rightarrow> None
      | Some cnt \<Rightarrow>
          (let n = (if cnt \<noteq> 0 then unat cnt else 256);
               dst = reg_hl cpu;
               cpu = cpu\<lparr>cmem := fill_loop dst n (reg_a cpu) (cmem cpu)\<rparr>;
               cpu = set_hl (reg_hl cpu + of_nat n) cpu;
               cpu = cpu\<lparr>insn_count := insn_count cpu + 4 * (of_nat n - 1)\<rparr>;
               cpu = loop_epilogue cpu (spec AND 7);
               cpu = (if spec AND 0x200 = 0 \<or> n \<ge> 2 then cpu\<lparr>memptr := pc\<rparr> else cpu)
           in Some (cpu_sweep cpu dst (of_nat n))))"

text \<open>The variables of the filtered copy and its loop; \<open>exit_kind\<close> is 0, 1 or 2.\<close>

record filter_vars =
  fv_mem :: memory
  fv_hl :: u16
  fv_de :: u16
  fv_b :: u8
  fv_c :: u8
  fv_a :: u8
  executed :: int
  exit_kind :: nat

lemma unat_pred_less: "x \<noteq> 0 \<Longrightarrow> unat (x - 1) < unat x" for x :: u8
  by (simp add: unat_sub word_le_nat_alt unat_gt_0 Suc_le_eq)

function filter_loop :: "u8 \<Rightarrow> u8 \<Rightarrow> u8 \<Rightarrow> filter_vars \<Rightarrow> filter_vars" where
  "filter_loop m lo sen v =
     (let a = fv_mem v (fv_de v) AND m; v = v\<lparr>fv_a := a\<rparr>
      in if a < lo then v\<lparr>exit_kind := 0, executed := executed v + 4\<rparr>
         else if a = sen then v\<lparr>exit_kind := 1, executed := executed v + 6\<rparr>
         else (let v = v\<lparr>fv_mem := (fv_mem v) (fv_hl v := a), fv_hl := fv_hl v + 1, fv_de := fv_de v + 1,
                         fv_b := fv_b v + 1, fv_c := fv_c v - 1, executed := executed v + 12\<rparr>
               in if fv_c v = 0 then v\<lparr>exit_kind := 2\<rparr> else filter_loop m lo sen v))"
  by auto
termination
proof (relation "measure (\<lambda>(m, lo, sen, v). unat (fv_c v - 1))", goal_cases)
  case (2 m lo sen v a v1 v2)
  then have "fv_c v - 1 \<noteq> 0" by simp
  from unat_pred_less [OF this] 2 show ?case by simp
qed simp

declare filter_loop.simps [simp del]

definition z80_jit_loop_filtercopy :: "'h z80_cpu \<Rightarrow> u32 \<Rightarrow> u16 \<Rightarrow> u16 \<Rightarrow> 'h z80_cpu" where
  "z80_jit_loop_filtercopy cpu spec pc_head pc_exit =
     (let m = ucast spec; lo = ucast (drop_bit 8 spec); sen = ucast (drop_bit 16 spec);
          dst0 = reg_hl cpu;
          v = filter_loop m lo sen
            \<lparr>fv_mem = cmem cpu, fv_hl = reg_hl cpu, fv_de = reg_de cpu, fv_b = reg_b cpu, fv_c = reg_c cpu,
             fv_a = 0, executed = 0, exit_kind = 0\<rparr>;
          a = fv_a v;
          cpu = cpu\<lparr>cmem := fv_mem v\<rparr>;
          cpu = set_hl (fv_hl v) cpu;
          cpu = set_de (fv_de v) cpu;
          cpu = cpu\<lparr>reg_b := fv_b v, reg_c := fv_c v, reg_a := a\<rparr>;
          cpu = (if exit_kind v = 0 then (z80_jit_cp cpu lo)\<lparr>memptr := pc_exit\<rparr>
                 else if exit_kind v = 1 then (z80_jit_cp cpu sen)\<lparr>memptr := pc_exit\<rparr>
                 else cpu\<lparr>reg_f := (if a < sen then Z80_FLAG_C else 0) OR ft_dec_0, memptr := pc_head\<rparr>);
          cpu = cpu\<lparr>reg_q := 0\<rparr>;
          cpu = cpu\<lparr>insn_count := insn_count cpu + of_int (executed v - 12)\<rparr>
      in cpu_sweep cpu dst0 (ucast (fv_hl v - dst0)))"

end
