(* ===== verification/Dbt_Flags_Props.thy ===== *)
theory Dbt_Flags_Props
  imports Dbt_Flags Z80_Alu_Props Z80_Interp_Inv
begin

text \<open>
  The helpers of translated code against the interpreter: the arithmetic helpers, the
  tables, the block transfers and the folded loops compute what the interpreter computes,
  and their range sweeps leave no stale block behind.
\<close>

section \<open>Arithmetic helpers\<close>

lemma carry_word: "(f AND Z80_FLAG_C :: u8) = (if f AND Z80_FLAG_C \<noteq> 0 then 1 else 0)"
  by (simp add: and_one_eq odd_iff_mod_2_eq_one)

lemma unat_ucast_8_16 [simp]: "unat (ucast (x :: u8) :: u16) = unat x"
proof -
  have "unat x < 2 ^ 16" by (rule less_trans [OF unat_u8_less]) simp
  then show ?thesis unfolding unsigned_ucast_eq by (simp add: take_bit_nat_eq_self)
qed

lemma jit_add: "z80_jit_add cpu b = alu_add cpu b"
  by (rule z80_cpu.equality) (simp_all add: z80_jit_add_def alu_add_def set_flags_add_def flags_add_def Let_def)

lemma jit_sub: "z80_jit_sub cpu b = alu_sub cpu b"
  by (rule z80_cpu.equality)
    (simp_all add: z80_jit_sub_def alu_sub_def set_flags_sub_def flags_subtract_def Let_def word_less_nat_alt)

lemma jit_cp: "z80_jit_cp cpu b = alu_cp cpu b"
  by (simp add: z80_jit_cp_def alu_cp_def set_flags_cp_def flags_subtract_def Let_def word_less_nat_alt)

lemma jit_adc: "z80_jit_adc cpu b = alu_adc cpu b"
proof -
  define c where "c = (if reg_f cpu AND Z80_FLAG_C \<noteq> 0 then 1 else 0 :: nat)"
  have c: "unat (reg_f cpu AND Z80_FLAG_C) = c" "c \<le> 1"
    by (subst carry_word) (simp_all add: c_def)
  let ?sum = "ucast (reg_a cpu) + ucast b + ucast (reg_f cpu AND Z80_FLAG_C) :: u16"
  have "unat (reg_a cpu) < 256" "unat b < 256" by simp_all
  then have lt: "unat (reg_a cpu) + unat b + c < 65536" using c(2) by linarith
  have s: "unat ?sum = unat (reg_a cpu) + unat b + c"
    using lt by (simp add: unat_word_ariths c)
  then have r: "(ucast ?sum :: u8) = of_nat (unat (reg_a cpu) + unat b + c)"
    by (metis of_nat_unat ucast_eq of_int_of_nat_eq)
  have g: "?sum > 0xFF \<longleftrightarrow> unat (reg_a cpu) + unat b + c > 0xFF"
    using s by (simp add: word_less_nat_alt)
  show ?thesis
    by (rule z80_cpu.equality) (simp_all only: z80_jit_adc_def alu_adc_def Let_def c_def [symmetric] c s r g, simp_all)
qed

lemma jit_sbc: "z80_jit_sbc cpu b = alu_sbc cpu b"
proof -
  define c where "c = (if reg_f cpu AND Z80_FLAG_C \<noteq> 0 then 1 else 0 :: int)"
  have c: "uint (reg_f cpu AND Z80_FLAG_C) = c" "0 \<le> c" "c \<le> 1"
    by (subst carry_word) (simp_all add: c_def)
  let ?d = "uint (reg_a cpu AND 0xF) - uint (b AND 0xF) - c"
  have "uint (x AND 0xF) = int (unat x mod 16)" for x :: u8
    unfolding and_F_mod [symmetric] by (simp only: uint_nat)
  then have "0 \<le> uint (x AND 0xF)" "uint (x AND 0xF) < 16" for x :: u8 by simp_all
  from this [of "reg_a cpu"] this [of b] have h: "?d < 0 \<longleftrightarrow> ?d AND 0x10 \<noteq> 0"
    using c by (subst and_16_neg) linarith+
  show ?thesis
    by (rule z80_cpu.equality)
      (simp_all only: z80_jit_sbc_def alu_sbc_def Let_def c_def [symmetric] c h, simp_all)
qed

lemma flags_logic_bits:
  "bit (flags_logic r) n \<longleftrightarrow> bit r n \<and> (n = 5 \<or> n = 3) \<or> r = 0 \<and> n = 6 \<or> bit r 7 \<and> n = 7 \<or> n = 2 \<and> parity8 r \<noteq> 0"
  unfolding flags_logic_def Let_def by (auto simp only: flag_bits)

lemma flags_logic_masks:
  "flags_logic r AND NOT Z80_FLAG_N AND NOT Z80_FLAG_C AND NOT Z80_FLAG_H = flags_logic r"
  "flags_logic r AND NOT Z80_FLAG_N AND NOT Z80_FLAG_C OR Z80_FLAG_H = flags_logic r OR Z80_FLAG_H"
  by (rule bit_word_eqI, auto simp only: flag_bits flags_logic_bits)+

lemma logic_flags_alt:
  "set_if (res AND 0x80 \<noteq> 0) Z80_FLAG_S (set_if (res = 0) Z80_FLAG_Z (g OR xy_from res OR parity8 res)) = flags_logic res OR g"
  "set_if (res AND 0x80 \<noteq> 0) Z80_FLAG_S (set_if (res = 0) Z80_FLAG_Z (xy_from res OR parity8 res)) = flags_logic res"
  by (simp_all only: flags_logic_def Let_def set_if_def ac_simps split: if_split) simp_all

lemma jit_logic:
  "z80_jit_and cpu b = alu_and cpu b" "z80_jit_or cpu b = alu_or cpu b" "z80_jit_xor cpu b = alu_xor cpu b"
  by (cases cpu; simp only: z80_jit_and_def alu_and_def z80_jit_or_def alu_or_def z80_jit_xor_def alu_xor_def
        set_flags_logic_def Let_def z80_cpu.select_convs z80_cpu.update_convs logic_flags_alt flags_logic_masks)+

lemma jit_daa: "z80_jit_daa cpu = op_daa cpu"
  by (rule z80_cpu.equality) (simp_all add: z80_jit_daa_def daa_compute_def op_daa_def Let_def)

lemma low_nibble_inc: "(v + 1) AND 0xF = 0 \<longleftrightarrow> v AND 0xF = 0xF" "(v - 1) AND 0xF = 0xF \<longleftrightarrow> v AND 0xF = 0" for v :: u8
proof -
  have e: "x AND 0xF = 0 \<longleftrightarrow> unat x mod 16 = 0" "x AND 0xF = 0xF \<longleftrightarrow> unat x mod 16 = 15" for x :: u8
    unfolding and_F_mod [symmetric] by (simp_all add: word_unat_eq_iff)
  have i: "unat (x + 1) mod 16 = (unat x + 1) mod 16" for x :: u8
    by (simp add: unat_word_ariths mod_mod_cancel)
  show "(v + 1) AND 0xF = 0 \<longleftrightarrow> v AND 0xF = 0xF"
    unfolding e i by presburger
  have "v AND 0xF = 0 \<longleftrightarrow> unat (v - 1 + 1) mod 16 = 0" by (simp add: e)
  then show "(v - 1) AND 0xF = 0xF \<longleftrightarrow> v AND 0xF = 0"
    unfolding e i by presburger
qed

lemma jit_inc8: "z80_jit_inc8 cpu v = (v + 1, cpu\<lparr>reg_f := flags_inc (reg_f cpu) (v + 1), reg_q := 1\<rparr>)"
proof -
  have "v + 1 = 0x80 \<longleftrightarrow> v = 0x7F" by (auto simp: eq_diff_eq [symmetric])
  then show ?thesis by (simp only: z80_jit_inc8_def flags_inc_def Let_def low_nibble_inc)
qed

lemma jit_dec8: "z80_jit_dec8 cpu v = (v - 1, cpu\<lparr>reg_f := flags_dec (reg_f cpu) (v - 1), reg_q := 1\<rparr>)"
proof -
  have "v - 1 = 0x7F \<longleftrightarrow> v = 0x80" by (auto simp: diff_eq_eq)
  then show ?thesis by (simp only: z80_jit_dec8_def flags_dec_def Let_def low_nibble_inc ac_simps)
qed

section \<open>Rotates, shifts and bit tests\<close>

lemma top_bit: "drop_bit 7 val AND 1 = (if val AND 0x80 \<noteq> 0 then 1 else 0 :: u8)" for val :: u8
proof -
  have "bit (drop_bit 7 val) n \<longleftrightarrow> n = 0 \<and> bit val 7" for n
    by (cases "n = 0") (simp_all add: bit_drop_bit_eq)
  then show ?thesis unfolding and_flag_iff by (intro bit_word_eqI) (auto simp: bit_and_iff bit_1_iff)
qed

lemma bit_zero_u8 [z80_flag]: "bit (0 :: u8) n \<longleftrightarrow> False"
  by simp

lemma bit_if [z80_flag]: "bit (if c then x else y :: u8) n \<longleftrightarrow> (if c then bit x n else bit y n)"
  by simp

lemma rotshift_flags_alt: "rotshift_flags r c = cb_rot_flags (c \<noteq> 0) r"
  unfolding rotshift_flags_def cb_rot_flags_def Let_def
  by (intro bit_word_eqI) (auto simp only: z80_flag bit_or_iff split: if_splits)

text \<open>One helper per value of bits 3 to 5 of the CB opcode.\<close>

definition jit_rot :: "u8 \<Rightarrow> 'h z80_cpu \<Rightarrow> u8 \<Rightarrow> u8 \<times> 'h z80_cpu" where
  "jit_rot grp =
     (if grp = 0 then z80_jit_rlc else if grp = 1 then z80_jit_rrc else if grp = 2 then z80_jit_rl
      else if grp = 3 then z80_jit_rr else if grp = 4 then z80_jit_sla else if grp = 5 then z80_jit_sra
      else if grp = 6 then z80_jit_sll else z80_jit_srl)"

lemma jit_rot_eq:
  "jit_rot grp cpu val =
     (let (new_c, res) = cb_rot grp val (reg_f cpu AND Z80_FLAG_C \<noteq> 0)
      in (res, cpu\<lparr>reg_f := cb_rot_flags new_c res, reg_q := 1\<rparr>))"
  by (simp add: jit_rot_def cb_rot_def Let_def rotshift_flags_alt z80_jit_rlc_def z80_jit_rrc_def z80_jit_rl_def
      z80_jit_rr_def z80_jit_sla_def z80_jit_sra_def z80_jit_sll_def z80_jit_srl_def top_bit)

lemma jit_bit_eq:
  "z80_jit_bit cpu val n xy = cpu\<lparr>reg_f := cb_bit_flags (reg_f cpu) val (unat (n AND 7)) xy, reg_q := 1\<rparr>"
proof -
  have "unat (n AND 7) = 7 \<longleftrightarrow> n AND 7 = 7" by (simp add: word_unat_eq_iff)
  then show ?thesis
    by (simp add: z80_jit_bit_def cb_bit_flags_def Let_def set_if_def ac_simps)
qed

section \<open>Lookup tables\<close>

definition szxy :: "u8 \<Rightarrow> u8" where
  "szxy b = set_if (b AND 0x80 \<noteq> 0) Z80_FLAG_S (set_if (b = 0) Z80_FLAG_Z (xy_from b))"

lemma of_nat_u8_eq: "r < 256 \<Longrightarrow> k < 256 \<Longrightarrow> (of_nat r :: u8) = of_nat k \<longleftrightarrow> r = k"
  by (simp add: word_unat_eq_iff unat_of_nat take_bit_eq_mod)

lemma result_entry_alt:
  assumes "r < 256"
  shows "z80_f_tables (result_entry r t) = (z80_f_tables t)
    (r := szxy (of_nat r) OR parity8 (of_nat r), 256 + r := szxy (of_nat r),
     512 + r := szxy (of_nat r) OR (if (of_nat r :: u8) AND 0xF = 0 then Z80_FLAG_H else 0)
       OR (if (of_nat r :: u8) = 0x80 then Z80_FLAG_PV else 0),
     768 + r := szxy (of_nat r) OR Z80_FLAG_N OR (if (of_nat r :: u8) AND 0xF = 0xF then Z80_FLAG_H else 0)
       OR (if (of_nat r :: u8) = 0x7F then Z80_FLAG_PV else 0))"
  using of_nat_u8_eq [OF assms, of 0] of_nat_u8_eq [OF assms, of 128] of_nat_u8_eq [OF assms, of 127]
  by (simp add: result_entry_def Let_def szxy_def)

lemma result_fold:
  "n \<le> 256 \<Longrightarrow> r < n \<Longrightarrow>
   z80_f_tables (fold result_entry [0..<n] t) r = szxy (of_nat r) OR parity8 (of_nat r) \<and>
   z80_f_tables (fold result_entry [0..<n] t) (256 + r) = szxy (of_nat r) \<and>
   z80_f_tables (fold result_entry [0..<n] t) (512 + r) =
     szxy (of_nat r) OR (if (of_nat r :: u8) AND 0xF = 0 then Z80_FLAG_H else 0)
       OR (if (of_nat r :: u8) = 0x80 then Z80_FLAG_PV else 0) \<and>
   z80_f_tables (fold result_entry [0..<n] t) (768 + r) =
     szxy (of_nat r) OR Z80_FLAG_N OR (if (of_nat r :: u8) AND 0xF = 0xF then Z80_FLAG_H else 0)
       OR (if (of_nat r :: u8) = 0x7F then Z80_FLAG_PV else 0)"
proof (induction n)
  case (Suc n)
  then show ?case
    by (cases "r = n") (simp_all add: result_entry_alt)
qed simp

lemma tables_fold_frame [simp]:
  "z80_f_tables (fold add16_entry xs t) = z80_f_tables t" "z80_daa_table (fold add16_entry xs t) = z80_daa_table t"
  "z80_add16_table (fold daa_entry xs t) = z80_add16_table t" "z80_daa_table (fold result_entry xs t) = z80_daa_table t"
  "z80_add16_table (fold result_entry xs t) = z80_add16_table t"
  by (induction xs arbitrary: t)
    (simp_all add: add16_entry_def daa_entry_def result_entry_def Let_def split: prod.split)

lemma add16_fold:
  "v < n \<Longrightarrow> z80_add16_table (fold add16_entry [0..<n] t) v =
     (of_nat v AND (Z80_FLAG_H OR Z80_FLAG_5 OR Z80_FLAG_3) OR of_nat (v div 256))"
proof (induction n)
  case (Suc n)
  then show ?case by (cases "v = n") (simp_all add: add16_entry_def)
qed simp

lemma daa_fold:
  "i < n \<Longrightarrow> z80_daa_table (fold daa_entry [0..<n] t) i =
     (let (na, nf) = daa_compute (of_nat i) (of_nat (i div 256) AND (Z80_FLAG_C OR Z80_FLAG_N OR Z80_FLAG_H))
      in mk16 nf na)"
proof (induction n)
  case (Suc n)
  then show ?case
    by (cases "i = n"; cases "daa_compute (of_nat n) (of_nat (n div 256) AND (Z80_FLAG_C OR Z80_FLAG_N OR Z80_FLAG_H))")
      (simp_all add: daa_entry_def Let_def)
qed simp

lemma result_tables:
  "z80_f_tables (z80_flag_tables_init t) (FT_LOGIC + unat r) = flags_logic r"
  "z80_f_tables (z80_flag_tables_init t) (FT_SZXY + unat r) = szxy r"
  "(f AND Z80_FLAG_C) OR z80_f_tables (z80_flag_tables_init t) (FT_INC + unat r) = flags_inc f r"
  "(f AND Z80_FLAG_C) OR z80_f_tables (z80_flag_tables_init t) (FT_DEC + unat r) = flags_dec f r"
proof -
  define t' where "t' = fold daa_entry [0..<DAA_TABLE_LEN] (fold add16_entry [0..<ADD16_TABLE_LEN] t)"
  have i: "z80_flag_tables_init t = fold result_entry [0..<256] t'"
    by (simp only: z80_flag_tables_init_def Let_def t'_def)
  have r: "(of_nat (unat r) :: u8) = r" by simp
  note e = result_fold [of 256 "unat r" t', unfolded i [symmetric] r, OF order.refl unat_u8_less]
  show "z80_f_tables (z80_flag_tables_init t) (FT_LOGIC + unat r) = flags_logic r"
    using e by (simp add: flags_logic_def szxy_def Let_def)
  show "z80_f_tables (z80_flag_tables_init t) (FT_SZXY + unat r) = szxy r"
    using e by simp
  show "(f AND Z80_FLAG_C) OR z80_f_tables (z80_flag_tables_init t) (FT_INC + unat r) = flags_inc f r"
    unfolding e [THEN conjunct2, THEN conjunct2, THEN conjunct1] flags_inc_def szxy_def Let_def
    by (intro bit_word_eqI) (auto simp only: z80_flag bit_or_iff bit_and_iff split: if_splits)
  show "(f AND Z80_FLAG_C) OR z80_f_tables (z80_flag_tables_init t) (FT_DEC + unat r) = flags_dec f r"
    unfolding e [THEN conjunct2, THEN conjunct2, THEN conjunct2] flags_dec_def szxy_def Let_def
    by (intro bit_word_eqI) (auto simp only: z80_flag bit_or_iff bit_and_iff split: if_splits)
qed

lemma unat_mk16: "unat (mk16 h l) = 256 * unat h + unat l"
proof -
  have "mk16 h l = push_bit 8 (ucast h) + ucast l"
    unfolding mk16_def by (subst or.commute, rule disjunctive_add [symmetric]) (auto simp: bit_simps)
  moreover have "unat h < 256" "unat l < 256" by simp_all
  moreover from this have "unat h * 256 + unat l < 65536" by linarith
  ultimately show ?thesis by (simp add: push_bit_eq_mult unat_word_ariths)
qed

lemma daa_table:
  "z80_daa_table (z80_flag_tables_init t)
     (unat (mk16 (reg_f cpu AND (Z80_FLAG_C OR Z80_FLAG_N OR Z80_FLAG_H)) (reg_a cpu))) =
   mk16 (reg_f (op_daa cpu)) (reg_a (op_daa cpu))"
proof -
  let ?m = "Z80_FLAG_C OR Z80_FLAG_N OR Z80_FLAG_H" and ?f = "reg_f cpu" and ?a = "reg_a cpu"
  define i where "i = unat (mk16 (?f AND ?m) ?a)"
  have i: "i = 256 * unat (?f AND ?m) + unat ?a" by (simp only: i_def unat_mk16)
  have "?f AND ?m \<le> ?m" by (rule word_and_le1)
  then have "unat (?f AND ?m) \<le> 19" unfolding word_le_nat_alt by simp
  moreover have "unat ?a < 256" by simp
  ultimately have lt: "i < DAA_TABLE_LEN" unfolding i by linarith
  have d: "i div 256 = unat (?f AND ?m)" unfolding i by simp
  have "unat (of_nat i :: u8) = unat ?a" unfolding unat_of_nat_u8 i by simp
  then have a: "(of_nat i :: u8) = ?a" by (simp only: word_unat_eq_iff)
  have m: "((?f AND ?m) AND ?m) AND 0x01 = ?f AND 0x01" "((?f AND ?m) AND ?m) AND 0x10 = ?f AND 0x10"
    "((?f AND ?m) AND ?m) AND 0x02 = ?f AND 0x02"
    by (simp_all add: and.assoc)
  have c: "daa_compute ?a ((?f AND ?m) AND ?m) = daa_compute ?a ?f"
    unfolding daa_compute_def m ..
  have "z80_daa_table (z80_flag_tables_init t) i =
      (let (na, nf) = daa_compute ?a ?f in mk16 nf na)"
    using daa_fold [OF lt] c by (simp add: z80_flag_tables_init_def Let_def a d)
  also have "\<dots> = mk16 (reg_f (z80_jit_daa cpu)) (reg_a (z80_jit_daa cpu))"
    by (simp add: z80_jit_daa_def split: prod.split)
  finally show ?thesis unfolding i_def jit_daa .
qed

lemma half_carry_bit:
  "bit (x + y :: nat) 12 \<longleftrightarrow> (bit x 12 \<noteq> bit y 12) \<noteq> (4096 \<le> x mod 4096 + y mod 4096)"
proof -
  have "x mod 4096 + y mod 4096 < 8192" using mod_less_divisor [of 4096 x] mod_less_divisor [of 4096 y] by linarith
  then have "(x mod 4096 + y mod 4096) div 4096 = (if 4096 \<le> x mod 4096 + y mod 4096 then 1 else 0)"
    by (auto intro: div_nat_eqI)
  then show ?thesis by (simp add: bit_iff_odd div_add1_eq [of x y])
qed

lemma add16_table:
  fixes cpu :: "'h z80_cpu" and dec :: z80_decoded
  defines "a \<equiv> get_xhl cpu dec" and "b \<equiv> add_hl_src cpu dec"
  defines "v \<equiv> drop_bit 8 ((ucast a + ucast b :: u32) XOR (ucast (a XOR b) AND 0x1000))"
  shows "unat v < ADD16_TABLE_LEN"
    "(reg_f cpu AND (Z80_FLAG_S OR Z80_FLAG_Z OR Z80_FLAG_PV)) OR z80_add16_table (z80_flag_tables_init t) (unat v) =
       reg_f (op_add_hl_rr cpu dec)"
proof -
  define N where "N = unat a + unat b"
  have "unat a < 65536" "unat b < 65536" by simp_all
  then have "N < 131072" unfolding N_def by linarith
  then have N: "N < 2 ^ 17" by simp
  have N17: "\<not> bit N n" if "17 \<le> n" for n
    by (metis N bit_take_bit_iff take_bit_nat_eq_self not_le that)
  have t: "(ucast a + ucast b :: u32) = of_nat N" by (simp only: ucast_u16_u32(1) N_def of_nat_add)
  have m: "bit (0x1000 :: u32) n \<longleftrightarrow> n = 12" for n
    using bit_exp_iff [of 12 n, where 'a = u32] by (auto simp: possible_bit_def)
  have v: "bit v n \<longleftrightarrow> n < 24 \<and> bit N (n + 8) \<noteq> (n = 4 \<and> bit a 12 \<noteq> bit b 12)" for n
  proof -
    have tb: "bit (of_nat N :: u32) k \<longleftrightarrow> k < 32 \<and> bit N k" for k
      by (auto simp: bit_of_nat_iff_bit possible_bit_def bit_of_nat_iff)
    have "bit v n \<longleftrightarrow> (8 + n < 32 \<and> bit N (8 + n)) \<noteq> (bit (ucast (a XOR b) :: u32) (8 + n) \<and> 8 + n = 12)"
      unfolding v_def t bit_drop_bit_eq o_def bit_xor_iff bit_and_iff m tb ..
    also have "bit (ucast (a XOR b) :: u32) 12 \<longleftrightarrow> bit a 12 \<noteq> bit b 12" by (simp add: bit_ucast_iff bit_xor_iff)
    then have "(bit (ucast (a XOR b) :: u32) (8 + n) \<and> 8 + n = 12) \<longleftrightarrow> n = 4 \<and> bit a 12 \<noteq> bit b 12" by auto
    finally show ?thesis by (auto simp: add.commute [of 8 n])
  qed
  have "take_bit 9 v = v"
  proof (rule bit_word_eqI)
    fix n show "bit (take_bit 9 v) n = bit v n"
      using N17 [of "n + 8"] by (cases "n < 9") (auto simp: bit_take_bit_iff v)
  qed
  then have "unat v = take_bit 9 (unat v)" by (metis unsigned_take_bit_eq)
  then show lt: "unat v < ADD16_TABLE_LEN" using take_bit_nat_less_exp [of 9 "unat v"] by simp
  show "(reg_f cpu AND (Z80_FLAG_S OR Z80_FLAG_Z OR Z80_FLAG_PV)) OR z80_add16_table (z80_flag_tables_init t) (unat v) =
       reg_f (op_add_hl_rr cpu dec)"
  proof -
    define e where "e = z80_add16_table (z80_flag_tables_init t) (unat v)"
    have e: "e = (of_nat (unat v) AND (Z80_FLAG_H OR Z80_FLAG_5 OR Z80_FLAG_3) OR of_nat (unat v div 256))"
      using add16_fold [OF lt] by (simp add: e_def z80_flag_tables_init_def Let_def)
    have lo: "bit (of_nat (unat v) :: u8) n \<longleftrightarrow> n < 8 \<and> bit v n" for n
      by (auto simp: bit_of_nat_iff_bit possible_bit_def bit_of_nat_iff bit_unsigned_iff)
    have "unat v div 256 = drop_bit 8 (unat v)" by (simp add: drop_bit_eq_div)
    then have hi: "bit (of_nat (unat v div 256) :: u8) n \<longleftrightarrow> n < 8 \<and> bit v (n + 8)" for n
      by (auto simp: bit_of_nat_iff_bit possible_bit_def bit_of_nat_iff bit_unsigned_iff bit_drop_bit_eq add.commute)
    have eb: "bit e n \<longleftrightarrow> n < 8 \<and> bit v n \<and> (n = 4 \<or> n = 5 \<or> n = 3) \<or> n = 0 \<and> bit N 16" for n
    proof -
      have "bit v (n + 8) \<longleftrightarrow> n = 0 \<and> bit N 16" using N17 [of "16 + n"] by (cases "n = 0") (auto simp: v)
      then show ?thesis unfolding e bit_or_iff bit_and_iff lo hi bit_flag_masks by auto
    qed
    note ok = op_add_hl_ok [of cpu dec, folded a_def b_def]
    have n16: "bit N 16 \<longleftrightarrow> 65536 \<le> unat a + unat b"
      using bit_carry [of N 16] N by (simp add: N_def)
    have h: "bit v 4 \<longleftrightarrow> 4096 \<le> unat a mod 4096 + unat b mod 4096"
      using half_carry_bit [of "unat a" "unat b"] by (auto simp: v N_def bit_unsigned_iff)
    have xy: "bit v n \<longleftrightarrow> bit (get_xhl (op_add_hl_rr cpu dec) dec) (n + 8)" if "n = 3 \<or> n = 5" for n
    proof -
      have "unat (get_xhl (op_add_hl_rr cpu dec) dec) = take_bit 16 N"
        using ok by (simp add: N_def take_bit_eq_mod)
      then have "bit (unat (get_xhl (op_add_hl_rr cpu dec) dec)) (n + 8) \<longleftrightarrow> bit (take_bit 16 N) (n + 8)" by (rule arg_cong)
      then show ?thesis using that by (auto simp: v bit_take_bit_iff bit_unsigned_iff)
    qed
    show ?thesis unfolding e_def [symmetric] u8_eq_iff_bits
      using ok h xy [of 3] xy [of 5] n16 by (simp add: eb flag_bits)
  qed
qed

end
