(* ===== verification/Dbt_Ldir_Props.thy ===== *)
theory Dbt_Ldir_Props
  imports Dbt_Flags_Props
begin

text \<open>
  The block transfers: LDIR and LDDR of the interpreter move bytes one at a time through
  \<open>z80_mem_w\<close>; the helpers of translated code copy without it and sweep the block cache once.
\<close>

section \<open>The copy loop\<close>

lemma copy_loop_0 [simp]: "copy_loop step src dst 0 mem l = (mem, l)"
  by (simp add: copy_loop_def)

lemma copy_loop_last:
  "copy_loop step src dst (Suc n) mem l =
     (let (m, b) = copy_loop step src dst n mem l in (m (dst + step n := m (src + step n)), m (src + step n)))"
  by (simp add: copy_loop_def Let_def case_prod_beta)

text \<open>The first iteration apart; \<open>step\<close> is a multiple of \<open>incr\<close>.\<close>

lemma copy_loop_first:
  assumes "\<And>i. step i = of_nat i * incr"
  shows "copy_loop step src dst (Suc n) mem l =
    copy_loop step (src + incr) (dst + incr) n (mem (dst := mem src)) (mem src)"
proof (induction n)
  case 0
  then show ?case by (simp add: copy_loop_last assms fun_upd_def)
next
  case (Suc n)
  have "x + step (Suc n) = x + incr + step n" for x by (simp add: assms algebra_simps)
  then show ?case
    by (subst copy_loop_last, subst Suc) (simp only: copy_loop_last [of _ "src + incr"])
qed

lemma set_get16 [simp]:
  "set_bc (reg_bc cpu) cpu = cpu" "set_de (reg_de cpu) cpu = cpu" "set_hl (reg_hl cpu) cpu = cpu"
  by (simp_all add: reg16_defs)

text \<open>\<open>cpu\<close> with the memory, translator and pointers that a transfer leaves; BC is 0.\<close>

definition moved :: "u16 \<Rightarrow> u16 \<Rightarrow> memory \<Rightarrow> z80_dbt option \<Rightarrow> 'h z80_cpu \<Rightarrow> 'h z80_cpu" where
  "moved hl de mem d cpu = set_bc 0 (set_de de (set_hl hl (cpu\<lparr>cmem := mem, cdbt := d\<rparr>)))"

lemma moved_0: "reg_bc cpu = 0 \<Longrightarrow> moved (reg_hl cpu) (reg_de cpu) (cmem cpu) (cdbt cpu) cpu = cpu"
  using set_get16(1) [of cpu] by (simp add: moved_def del: set_get16(1))

lemma moved_step: "moved hl de mem d (ldi_step incr cpu v) = moved hl de mem d cpu"
  unfolding moved_def by (intro z80_cpu.equality) (simp_all add: ldi_step_def Let_def set16_defs)

lemma ldi_step_simps [simp]:
  "reg_hl (ldi_step incr cpu v) = reg_hl cpu + incr" "reg_de (ldi_step incr cpu v) = reg_de cpu + incr"
  "cmem (ldi_step incr cpu v) = (cmem cpu) (reg_de cpu := v)"
  by (simp_all add: ldi_step_def Let_def)

lemma unat_pred_Suc: "x \<noteq> 0 \<Longrightarrow> unat x = Suc (unat (x - 1))" for x :: u16
  by (simp add: unat_sub word_le_nat_alt unat_gt_0 Suc_le_eq)

lemma ldir_loop_moved:
  assumes "\<And>i. step i = of_nat i * incr"
  shows "\<exists>d. ldir_loop incr cpu l =
    (let (mem, b) = copy_loop step (reg_hl cpu) (reg_de cpu) (unat (reg_bc cpu)) (cmem cpu) l
     in (moved (reg_hl cpu + reg_bc cpu * incr) (reg_de cpu + reg_bc cpu * incr) mem d cpu, b))"
  using assms
proof (induction incr cpu l rule: ldir_loop.induct)
  case (1 incr cpu l)
  show ?case
  proof (cases "reg_bc cpu = 0")
    case True
    then have "ldir_loop incr cpu l = (moved (reg_hl cpu) (reg_de cpu) (cmem cpu) (cdbt cpu) cpu, l)"
      by (subst ldir_loop.simps) (simp add: moved_0)
    with True show ?thesis by auto
  next
    case False
    define b where "b = cmem cpu (reg_hl cpu)"
    define cpu' where "cpu' = ldi_step incr cpu b"
    have c: "copy_loop step (reg_hl cpu) (reg_de cpu) (unat (reg_bc cpu)) (cmem cpu) l =
        copy_loop step (reg_hl cpu') (reg_de cpu') (unat (reg_bc cpu')) (cmem cpu') b"
      unfolding unat_pred_Suc [OF False] copy_loop_first [OF "1.prems"] by (simp add: cpu'_def b_def)
    have e: "reg_hl cpu' + reg_bc cpu' * incr = reg_hl cpu + reg_bc cpu * incr"
      "reg_de cpu' + reg_bc cpu' * incr = reg_de cpu + reg_bc cpu * incr"
      by (simp_all add: cpu'_def algebra_simps)
    have "ldir_loop incr cpu l = ldir_loop incr cpu' b"
      using False by (subst ldir_loop.simps) (simp add: cpu'_def b_def Let_def)
    moreover have m: "moved hl de mem d cpu' = moved hl de mem d cpu" for hl de mem d
      by (simp add: cpu'_def moved_step)
    ultimately show ?thesis
      using "1.IH" [OF False b_def "1.prems"] unfolding cpu'_def [symmetric] c e m by simp
  qed
qed

section \<open>LDIR and LDDR\<close>

lemma ldir_step_word:
  "word_of_int (incr * int i) = (of_nat i * word_of_int incr :: u16)"
  "word_of_int (incr * uint n) = (n * word_of_int incr :: u16)"
  by (simp_all add: mult.commute)

text \<open>The lowest address written, and the two ways of scanning the destination.\<close>

definition dst_low :: "int \<Rightarrow> 'h z80_cpu \<Rightarrow> u16" where
  "dst_low incr cpu = (if incr > 0 then reg_de cpu else reg_de cpu - (reg_bc cpu - 1))"

lemma down_address:
  "i < unat n \<Longrightarrow> lo - (n - 1) + of_nat (unat n - 1 - i) = lo - of_nat i" for lo n :: u16
  by (simp add: of_nat_diff)

lemma scan_down:
  "(\<exists>i < unat n. P (de - of_nat i)) \<longleftrightarrow> (\<exists>i < unat n. P (de - (n - 1) + of_nat i))" for de n :: u16
proof
  assume "\<exists>i < unat n. P (de - of_nat i)"
  then obtain i where i: "i < unat n" "P (de - of_nat i)" by blast
  then have "P (de - (n - 1) + of_nat (unat n - 1 - i))" by (simp only: down_address)
  moreover have "unat n - 1 - i < unat n" using i(1) by linarith
  ultimately show "\<exists>i < unat n. P (de - (n - 1) + of_nat i)" by blast
next
  assume "\<exists>i < unat n. P (de - (n - 1) + of_nat i)"
  then obtain i where i: "i < unat n" "P (de - (n - 1) + of_nat i)" by blast
  define k where "k = unat n - 1 - i"
  have k: "k < unat n" "i = unat n - 1 - k" using i(1) by (simp_all add: k_def)
  then have "P (de - of_nat k)" using i(2) down_address [OF k(1), of de] by simp
  with k(1) show "\<exists>i < unat n. P (de - of_nat i)" by blast
qed

lemma sweep_none [simp]: "smc_sweep_forward dbt lo 0 = dbt"
  by (simp add: smc_sweep_forward_def)

lemma sweep_dst:
  assumes "incr = 1 \<or> incr = -1"
  shows "(if reg_bc cpu = 0 \<or> \<not> list_ex (\<lambda>i. code_bitmap dbt (reg_de cpu + word_of_int (incr * int i)) \<noteq> 0) [0..<unat (reg_bc cpu)]
      then dbt else sweep_range dbt (dst_low incr cpu) (ucast (reg_bc cpu))) =
    smc_sweep_forward dbt (dst_low incr cpu) (ucast (reg_bc cpu))"
proof -
  have z: "(ucast (reg_bc cpu) :: u32) = 0 \<longleftrightarrow> reg_bc cpu = 0" by (simp add: word_unat_eq_iff)
  have "(\<exists>i < unat (reg_bc cpu). code_bitmap dbt (reg_de cpu + word_of_int (incr * int i)) \<noteq> 0) \<longleftrightarrow>
      (\<exists>i < unat (reg_bc cpu). code_bitmap dbt (dst_low incr cpu + of_nat i) \<noteq> 0)"
    using assms scan_down [of "reg_bc cpu" "\<lambda>a. code_bitmap dbt a \<noteq> 0" "reg_de cpu"]
    by (auto simp: dst_low_def)
  then show ?thesis by (simp add: smc_sweep_forward_def z list_ex_iff Bex_def)
qed

definition ldir_flags :: "u8 \<Rightarrow> u8 \<Rightarrow> u8" where
  "ldir_flags f n = set_if (n AND 0x02 \<noteq> 0) Z80_FLAG_5 ((f AND (Z80_FLAG_S OR Z80_FLAG_Z OR Z80_FLAG_C)) OR (n AND Z80_FLAG_3))"

lemma moved_simps [simp]:
  "reg_a (moved hl de mem d cpu) = reg_a cpu" "reg_f (moved hl de mem d cpu) = reg_f cpu"
  "cmem (moved hl de mem d cpu) = mem" "cdbt (moved hl de mem d cpu) = d"
  by (simp_all add: moved_def set16_defs)

text \<open>Both operations leave the same registers, flags and memory.\<close>

lemma ldir_alt:
  fixes cpu :: "'h z80_cpu" and incr :: int
  assumes "incr = 1 \<or> incr = -1"
  obtains mem b d where
    "copy_loop (\<lambda>i. of_nat i * word_of_int incr) (reg_hl cpu) (reg_de cpu) (unat (reg_bc cpu)) (cmem cpu) 0 = (mem, b)"
    "op_ldir (word_of_int incr) cpu =
      (moved (reg_hl cpu + reg_bc cpu * word_of_int incr) (reg_de cpu + reg_bc cpu * word_of_int incr) mem d cpu)
        \<lparr>reg_f := ldir_flags (reg_f cpu) (reg_a cpu + b), reg_q := 1\<rparr>"
    "ldir_lddr_common incr cpu =
      (moved (reg_hl cpu + reg_bc cpu * word_of_int incr) (reg_de cpu + reg_bc cpu * word_of_int incr) mem
         (map_option (\<lambda>dbt. smc_sweep_forward dbt (dst_low incr cpu) (ucast (reg_bc cpu))) (cdbt cpu)) cpu)
        \<lparr>reg_f := ldir_flags (reg_f cpu) (reg_a cpu + b), reg_q := 1\<rparr>"
proof -
  let ?step = "\<lambda>i. of_nat i * word_of_int incr :: u16"
  obtain mem b where c: "copy_loop ?step (reg_hl cpu) (reg_de cpu) (unat (reg_bc cpu)) (cmem cpu) 0 = (mem, b)"
    by fastforce
  obtain d where l: "ldir_loop (word_of_int incr) cpu 0 =
      (moved (reg_hl cpu + reg_bc cpu * word_of_int incr) (reg_de cpu + reg_bc cpu * word_of_int incr) mem d cpu, b)"
    using ldir_loop_moved [of ?step "word_of_int incr" cpu 0] c by auto
  show thesis
  proof (rule that [OF c])
    show "op_ldir (word_of_int incr) cpu =
      (moved (reg_hl cpu + reg_bc cpu * word_of_int incr) (reg_de cpu + reg_bc cpu * word_of_int incr) mem d cpu)
        \<lparr>reg_f := ldir_flags (reg_f cpu) (reg_a cpu + b), reg_q := 1\<rparr>"
      by (simp add: op_ldir_def l ldir_flags_def Let_def)
    show "ldir_lddr_common incr cpu =
      (moved (reg_hl cpu + reg_bc cpu * word_of_int incr) (reg_de cpu + reg_bc cpu * word_of_int incr) mem
         (map_option (\<lambda>dbt. smc_sweep_forward dbt (dst_low incr cpu) (ucast (reg_bc cpu))) (cdbt cpu)) cpu)
        \<lparr>reg_f := ldir_flags (reg_f cpu) (reg_a cpu + b), reg_q := 1\<rparr>"
    proof (cases "cdbt cpu")
      case None
      then show ?thesis
        unfolding ldir_lddr_common_def Let_def ldir_step_word c prod.case
        by (intro z80_cpu.equality) (simp_all add: moved_def set16_defs ldir_flags_def)
    next
      case (Some dbt)
      note sw = sweep_dst [OF assms, of cpu dbt, unfolded ldir_step_word dst_low_def]
      have d: "cdbt (set_bc 0 (set_de x (set_hl y (cpu\<lparr>cmem := mem\<rparr>)))) = Some dbt" for x y by (simp add: Some)
      show ?thesis
        unfolding ldir_lddr_common_def Let_def ldir_step_word c prod.case dst_low_def
        using sw d Some
        by (intro z80_cpu.equality) (simp_all add: moved_def set16_defs ldir_flags_def split: if_splits, auto)
    qed
  qed
qed


section \<open>Stores of translated code leave no stale block\<close>

text \<open>\<open>cpu'\<close> differs from \<open>cpu\<close> in at most the \<open>len\<close> bytes from \<open>lo\<close>, which were swept.\<close>

definition range_stored :: "u16 \<Rightarrow> u32 \<Rightarrow> 'h z80_cpu \<Rightarrow> 'h z80_cpu \<Rightarrow> bool" where
  "range_stored lo len cpu cpu' \<longleftrightarrow> len \<le> 0x10000 \<and>
     (\<forall>a. (\<forall>i < unat len. a \<noteq> lo + of_nat i) \<longrightarrow> cmem cpu' a = cmem cpu a) \<and>
     cdbt cpu' = map_option (\<lambda>dbt. smc_sweep_forward dbt lo len) (cdbt cpu)"

lemma range_stored_smc: "range_stored lo len cpu cpu' \<Longrightarrow> smc_ok snap cpu \<Longrightarrow> smc_ok snap cpu'"
  by (auto simp: range_stored_def smc_ok_def intro: dbt_reach.sweep split: option.splits)

lemma copy_loop_frame:
  "(\<And>i. i < n \<Longrightarrow> a \<noteq> dst + step i) \<Longrightarrow> fst (copy_loop step src dst n mem l) a = mem a"
  by (induction n) (simp_all add: copy_loop_last Let_def case_prod_beta)

lemma ldir_range_stored:
  assumes "incr = 1 \<or> incr = -1"
  shows "range_stored (dst_low incr cpu) (ucast (reg_bc cpu)) cpu (ldir_lddr_common incr cpu)"
proof (rule ldir_alt [OF assms, of cpu])
  fix mem b d
  assume c: "copy_loop (\<lambda>i. of_nat i * word_of_int incr) (reg_hl cpu) (reg_de cpu) (unat (reg_bc cpu)) (cmem cpu) 0 = (mem, b)"
  assume l: "ldir_lddr_common incr cpu =
      (moved (reg_hl cpu + reg_bc cpu * word_of_int incr) (reg_de cpu + reg_bc cpu * word_of_int incr) mem
         (map_option (\<lambda>dbt. smc_sweep_forward dbt (dst_low incr cpu) (ucast (reg_bc cpu))) (cdbt cpu)) cpu)
        \<lparr>reg_f := ldir_flags (reg_f cpu) (reg_a cpu + b), reg_q := 1\<rparr>"
  have "mem a = cmem cpu a" if out: "\<forall>i < unat (reg_bc cpu). a \<noteq> dst_low incr cpu + of_nat i" for a
  proof -
    have "\<forall>i < unat (reg_bc cpu). a \<noteq> reg_de cpu + of_nat i * word_of_int incr"
      using out assms scan_down [of "reg_bc cpu" "\<lambda>x. a = x" "reg_de cpu"] by (auto simp: dst_low_def)
    with copy_loop_frame [of "unat (reg_bc cpu)" a "reg_de cpu" "\<lambda>i. of_nat i * word_of_int incr" "reg_hl cpu" "cmem cpu" 0] c
    show ?thesis by simp
  qed
  moreover have "(ucast (reg_bc cpu) :: u32) \<le> 0x10000"
    using ucast_pc_less [of "reg_bc cpu"] by (simp add: word_le_nat_alt)
  ultimately show ?thesis by (simp add: range_stored_def l)
qed

lemma smc_ok_range:
  fixes cpu cpu' :: "'h z80_cpu"
  assumes "smc_ok snap cpu" "cdbt cpu' = cdbt cpu" "len \<le> 0x10000"
    and "\<And>a. (\<And>i. i < unat len \<Longrightarrow> a \<noteq> lo + of_nat i) \<Longrightarrow> cmem cpu' a = cmem cpu a"
  shows "smc_ok snap (cpu_sweep cpu' lo len)"
  by (rule range_stored_smc [of lo len cpu, OF _ assms(1)]) (auto simp: range_stored_def cpu_sweep_def assms)

lemma counter_put_frame [simp]:
  "cmem (counter_put cpu code v) = cmem cpu" "cdbt (counter_put cpu code v) = cdbt cpu"
  by (simp_all add: counter_put_def)

lemma loop_epilogue_frame [simp]:
  "cmem (loop_epilogue cpu code) = cmem cpu" "cdbt (loop_epilogue cpu code) = cdbt cpu"
  by (simp_all add: loop_epilogue_def Let_def)

lemma fill_loop_frame: "(\<And>i. i < n \<Longrightarrow> a \<noteq> dst + of_nat i) \<Longrightarrow> fill_loop dst n v mem a = mem a"
  unfolding fill_loop_def by (induction n) simp_all

lemma iterations_le: "(if cnt \<noteq> 0 then unat (cnt :: u8) else 256) \<le> 256"
  using unat_u8_less [of cnt] by (simp add: less_imp_le)

lemma unat_iterations: "n \<le> 256 \<Longrightarrow> unat (of_nat n :: u32) = n" "n \<le> 256 \<Longrightarrow> (of_nat n :: u32) \<le> 0x10000"
  by (simp_all add: unat_of_nat take_bit_nat_eq_self word_le_nat_alt)

lemma smc_ok_iterations:
  fixes cpu cpu' :: "'h z80_cpu"
  assumes "smc_ok snap cpu" "cdbt cpu' = cdbt cpu" "n \<le> 256"
    and "\<And>a. (\<And>i. i < n \<Longrightarrow> a \<noteq> lo + of_nat i) \<Longrightarrow> cmem cpu' a = cmem cpu a"
  shows "smc_ok snap (cpu_sweep cpu' lo (of_nat n))"
  using assms by (intro smc_ok_range) (simp_all add: unat_iterations)

lemma loop_copy_smc:
  assumes "z80_jit_loop_copy cpu spec pc = Some cpu'" "smc_ok snap cpu"
  shows "smc_ok snap cpu'"
proof -
  obtain cnt where cnt: "counter_reg cpu (spec AND 7) = Some cnt"
    using assms(1) by (auto simp: z80_jit_loop_copy_def split: option.splits)
  let ?n = "if cnt \<noteq> 0 then unat cnt else 256" and ?dir = "drop_bit 8 spec AND 1 \<noteq> 0"
  let ?src = "if ?dir then reg_de cpu else reg_hl cpu" and ?dst = "if ?dir then reg_hl cpu else reg_de cpu"
  obtain mem b where c: "copy_loop of_nat ?src ?dst ?n (cmem cpu) (reg_a cpu) = (mem, b)" by fastforce
  have f: "mem a = cmem cpu a" if "\<And>i. i < ?n \<Longrightarrow> a \<noteq> ?dst + of_nat i" for a
    using copy_loop_frame [of ?n a ?dst of_nat ?src "cmem cpu" "reg_a cpu"] that c by simp
  from assms(1) cnt c have "\<exists>c'. cpu' = cpu_sweep c' ?dst (of_nat ?n) \<and> cdbt c' = cdbt cpu \<and> cmem c' = mem"
    by (simp only: z80_jit_loop_copy_def option.case Let_def c prod.case option.inject) (auto simp: set16_defs)
  then obtain c' where "cpu' = cpu_sweep c' ?dst (of_nat ?n)" "cdbt c' = cdbt cpu" "cmem c' = mem" by blast
  then show ?thesis using smc_ok_iterations [OF assms(2) _ iterations_le [of cnt], of c'] f by simp
qed

lemma loop_fill_smc:
  assumes "z80_jit_loop_fill cpu spec pc = Some cpu'" "smc_ok snap cpu"
  shows "smc_ok snap cpu'"
proof -
  obtain cnt where cnt: "counter_reg cpu (spec AND 7) = Some cnt"
    using assms(1) by (auto simp: z80_jit_loop_fill_def split: option.splits)
  let ?n = "if cnt \<noteq> 0 then unat cnt else 256"
  from assms(1) cnt have "\<exists>c'. cpu' = cpu_sweep c' (reg_hl cpu) (of_nat ?n) \<and> cdbt c' = cdbt cpu \<and>
      cmem c' = fill_loop (reg_hl cpu) ?n (reg_a cpu) (cmem cpu)"
    by (simp only: z80_jit_loop_fill_def option.case Let_def option.inject) (auto simp: set16_defs)
  then obtain c' where "cpu' = cpu_sweep c' (reg_hl cpu) (of_nat ?n)" "cdbt c' = cdbt cpu"
    "cmem c' = fill_loop (reg_hl cpu) ?n (reg_a cpu) (cmem cpu)" by blast
  then show ?thesis
    using smc_ok_iterations [OF assms(2) _ iterations_le [of cnt], of c'] fill_loop_frame [of ?n _ "reg_hl cpu"] by simp
qed

text \<open>The filtered copy stores only the bytes between the old and the new HL.\<close>

lemma filter_loop_stores:
  "\<exists>k \<le> unat (fv_c v - 1) + 1. fv_hl (filter_loop m lo sen v) = fv_hl v + of_nat k \<and>
    (\<forall>a. (\<forall>i < k. a \<noteq> fv_hl v + of_nat i) \<longrightarrow> fv_mem (filter_loop m lo sen v) a = fv_mem v a)"
proof (induction m lo sen v rule: filter_loop.induct)
  case (1 m lo sen v)
  let ?a = "fv_mem v (fv_de v) AND m"
  let ?v = "v\<lparr>fv_a := ?a, fv_mem := (fv_mem v) (fv_hl v := ?a), fv_hl := fv_hl v + 1, fv_de := fv_de v + 1,
      fv_b := fv_b v + 1, fv_c := fv_c v - 1, executed := executed v + 12\<rparr>"
  consider "?a < lo" | "\<not> ?a < lo" "?a = sen" | "\<not> ?a < lo" "?a \<noteq> sen" "fv_c v - 1 = 0"
    | "\<not> ?a < lo" "?a \<noteq> sen" "fv_c v - 1 \<noteq> 0" by blast
  then show ?case
  proof cases
    case 4
    have e: "filter_loop m lo sen v = filter_loop m lo sen ?v"
      using 4 by (subst filter_loop.simps) (simp add: Let_def)
    obtain k where k: "k \<le> unat (fv_c ?v - 1) + 1" "fv_hl (filter_loop m lo sen ?v) = fv_hl ?v + of_nat k"
      "\<forall>a. (\<forall>i < k. a \<noteq> fv_hl ?v + of_nat i) \<longrightarrow> fv_mem (filter_loop m lo sen ?v) a = fv_mem ?v a"
      using "1.IH" [OF refl refl 4(1,2) refl] 4(3) by auto
    have "unat (fv_c v - 1 - 1) < unat (fv_c v - 1)" by (rule unat_pred_less [OF 4(3)])
    then have "Suc k \<le> unat (fv_c v - 1) + 1" using k(1) by simp
    moreover have "fv_mem (filter_loop m lo sen ?v) a = fv_mem v a"
      if "\<forall>i < Suc k. a \<noteq> fv_hl v + of_nat i" for a
    proof -
      have "\<forall>i < k. a \<noteq> fv_hl ?v + of_nat i" using that by (force simp: add.assoc dest: spec [of _ "Suc i" for i])
      moreover have "a \<noteq> fv_hl v" using that [rule_format, of 0] by simp
      ultimately show ?thesis using k(3) by simp
    qed
    ultimately show ?thesis unfolding e using k(2) by (intro exI [of _ "Suc k"]) (simp add: add.assoc)
  next
    case 3
    then have "filter_loop m lo sen v = ?v\<lparr>exit_kind := 2\<rparr>" by (subst filter_loop.simps) (simp add: Let_def)
    then show ?thesis by (intro exI [of _ 1]) simp
  qed (intro exI [of _ 0], subst filter_loop.simps, subst filter_loop.simps, simp add: Let_def)+
qed

lemma filtercopy_smc:
  fixes cpu :: "'h z80_cpu"
  assumes "smc_ok snap cpu"
  shows "smc_ok snap (z80_jit_loop_filtercopy cpu spec pc_head pc_exit)"
proof -
  let ?v0 = "\<lparr>fv_mem = cmem cpu, fv_hl = reg_hl cpu, fv_de = reg_de cpu, fv_b = reg_b cpu, fv_c = reg_c cpu,
    fv_a = 0, executed = 0, exit_kind = 0\<rparr>"
  define w where "w = filter_loop (ucast spec) (ucast (drop_bit 8 spec)) (ucast (drop_bit 16 spec)) ?v0"
  obtain k where k: "k \<le> unat (reg_c cpu - 1) + 1" "fv_hl w = reg_hl cpu + of_nat k"
    "\<forall>a. (\<forall>i < k. a \<noteq> reg_hl cpu + of_nat i) \<longrightarrow> fv_mem w a = cmem cpu a"
    using filter_loop_stores [of ?v0 "ucast spec" "ucast (drop_bit 8 spec)" "ucast (drop_bit 16 spec)"]
    by (auto simp: w_def [symmetric])
  have k256: "k \<le> 256" using k(1) unat_u8_less [of "reg_c cpu - 1"] by linarith
  have len: "(ucast (fv_hl w - reg_hl cpu) :: u32) = of_nat k"
  proof -
    have "unat (of_nat k :: u16) = k" using k256 by (intro unat_of_nat_u16) simp
    then have "unat (ucast (of_nat k :: u16) :: u32) = unat (of_nat k :: u32)"
      using unat_iterations(1) [OF k256] by simp
    then have "(ucast (of_nat k :: u16) :: u32) = of_nat k" by (simp only: word_unat_eq_iff)
    then show ?thesis using k(2) by simp
  qed
  have "\<exists>c' :: 'h z80_cpu. z80_jit_loop_filtercopy cpu spec pc_head pc_exit = cpu_sweep c' (reg_hl cpu) (of_nat k) \<and>
      cdbt c' = cdbt cpu \<and> cmem c' = fv_mem w"
    by (simp only: z80_jit_loop_filtercopy_def Let_def w_def [symmetric] len)
      (auto simp: set16_defs z80_jit_cp_def Let_def)
  then show ?thesis using smc_ok_iterations [OF assms _ k256] k(3) by metis
qed

section \<open>What LDIR copies\<close>

lemma copy_loop_disjoint:
  fixes src dst :: u16
  assumes "n \<le> unat (dst - src)" "i < n"
  shows "fst (copy_loop of_nat src dst n mem l) (dst + of_nat i) = mem (src + of_nat i)"
  using assms
proof (induction n)
  case (Suc n)
  obtain m b where c: "copy_loop of_nat src dst n mem l = (m, b)" by fastforce
  have d: "unat (dst - src) < 65536" by simp
  have src: "m (src + of_nat n) = mem (src + of_nat n)"
  proof -
    have "src + of_nat n \<noteq> dst + of_nat j" if "j < n" for j
    proof
      assume "src + of_nat n = dst + of_nat j"
      then have "dst - src = of_nat (n - j)" using that by (simp add: of_nat_diff algebra_simps)
      moreover have "n - j < 65536" using Suc.prems(1) d by linarith
      ultimately have "unat (dst - src) = n - j" by (simp add: unat_of_nat_u16)
      then show False using Suc.prems(1) that by linarith
    qed
    then show ?thesis
      using copy_loop_frame [of n "src + of_nat n" dst of_nat src mem l] c by simp
  qed
  show ?case
  proof (cases "i = n")
    case True
    then show ?thesis by (simp add: copy_loop_last c src)
  next
    case False
    have "n < 65536" "i < 65536" using Suc.prems d by linarith+
    then have "(of_nat i :: u16) = of_nat n \<longleftrightarrow> i = n" by (simp add: u16_eq_of_nat_iff unat_of_nat_u16)
    with False Suc show ?thesis by (simp add: copy_loop_last c)
  qed
qed simp

section \<open>Properties\<close>

text \<open>C29: The arithmetic helpers that translated code calls are the interpreter's operations:
  the same accumulator, the same flags, bit for bit, for every operand and every state.\<close>

theorem jit_alu_matches_interp:
  "z80_jit_add cpu b = alu_add cpu b \<and> z80_jit_adc cpu b = alu_adc cpu b \<and>
   z80_jit_sub cpu b = alu_sub cpu b \<and> z80_jit_sbc cpu b = alu_sbc cpu b \<and>
   z80_jit_and cpu b = alu_and cpu b \<and> z80_jit_or cpu b = alu_or cpu b \<and>
   z80_jit_xor cpu b = alu_xor cpu b \<and> z80_jit_cp cpu b = alu_cp cpu b \<and> z80_jit_daa cpu = op_daa cpu"
  by (intro conjI jit_add jit_adc jit_sub jit_sbc jit_logic jit_cp jit_daa)

text \<open>The rotate and shift helpers, selected by bits 3 to 5 of the CB opcode, return the byte
  and the flags of the interpreter's CB page; the \<open>BIT\<close>, \<open>INC\<close> and \<open>DEC\<close> helpers leave its flags.\<close>

theorem jit_shift_bit_match_interp:
  "jit_rot grp cpu val =
     (let (new_c, res) = cb_rot grp val (reg_f cpu AND Z80_FLAG_C \<noteq> 0)
      in (res, cpu\<lparr>reg_f := cb_rot_flags new_c res, reg_q := 1\<rparr>)) \<and>
   z80_jit_bit cpu val n xy = cpu\<lparr>reg_f := cb_bit_flags (reg_f cpu) val (unat (n AND 7)) xy, reg_q := 1\<rparr> \<and>
   z80_jit_inc8 cpu val = (val + 1, cpu\<lparr>reg_f := flags_inc (reg_f cpu) (val + 1), reg_q := 1\<rparr>) \<and>
   z80_jit_dec8 cpu val = (val - 1, cpu\<lparr>reg_f := flags_dec (reg_f cpu) (val - 1), reg_q := 1\<rparr>)"
  by (intro conjI jit_rot_eq jit_bit_eq jit_inc8 jit_dec8)

text \<open>After initialisation, whatever the tables held before, the entry for a result byte
  gives the flags of the interpreter: the logic table for AND, OR and XOR, the INC and DEC tables
  with the old carry.\<close>

theorem result_tables_correct:
  "z80_f_tables (z80_flag_tables_init t) (FT_LOGIC + unat r) = flags_logic r \<and>
   (f AND Z80_FLAG_C) OR z80_f_tables (z80_flag_tables_init t) (FT_INC + unat r) = flags_inc f r \<and>
   (f AND Z80_FLAG_C) OR z80_f_tables (z80_flag_tables_init t) (FT_DEC + unat r) = flags_dec f r"
  by (intro conjI result_tables)

text \<open>The DAA table, indexed by the carry, negative and half-carry flags and A, holds the
  interpreter's DAA result for every state; the 16-bit table, indexed by the high bits of the
  32-bit sum with the half carry recovered into bit 12, gives every flag of \<open>ADD HL,rr\<close>, and the
  index is in range.\<close>

theorem daa_add16_tables_correct:
  fixes cpu :: "'h z80_cpu" and dec :: z80_decoded
  defines "a \<equiv> get_xhl cpu dec" and "b \<equiv> add_hl_src cpu dec"
  defines "v \<equiv> drop_bit 8 ((ucast a + ucast b :: u32) XOR (ucast (a XOR b) AND 0x1000))"
  shows "z80_daa_table (z80_flag_tables_init t)
       (unat (mk16 (reg_f cpu AND (Z80_FLAG_C OR Z80_FLAG_N OR Z80_FLAG_H)) (reg_a cpu))) =
       mk16 (reg_f (op_daa cpu)) (reg_a (op_daa cpu)) \<and>
     unat v < ADD16_TABLE_LEN \<and>
     (reg_f cpu AND (Z80_FLAG_S OR Z80_FLAG_Z OR Z80_FLAG_PV)) OR z80_add16_table (z80_flag_tables_init t) (unat v) =
       reg_f (op_add_hl_rr cpu dec)"
  unfolding v_def a_def b_def by (intro conjI daa_table add16_table)

text \<open>C6: LDIR and LDDR of translated code leave every register, flag and byte of memory as the
  interpreter's do, whatever the length and however source and destination overlap; only the
  translator's own state (counters, recycled links) may differ.\<close>

theorem jit_ldir_matches_interp:
  "(z80_jit_ldir cpu)\<lparr>cdbt := d\<rparr> = (op_ldir 1 cpu)\<lparr>cdbt := d\<rparr> \<and>
   (z80_jit_lddr cpu)\<lparr>cdbt := d\<rparr> = (op_ldir (-1) cpu)\<lparr>cdbt := d\<rparr>"
proof -
  have "(ldir_lddr_common incr cpu)\<lparr>cdbt := d\<rparr> = (op_ldir (word_of_int incr) cpu)\<lparr>cdbt := d\<rparr>"
    if i: "incr = 1 \<or> incr = -1" for incr
    by (rule ldir_alt [OF i, of cpu], rule z80_cpu.equality) (simp_all add: moved_def set16_defs)
  from this [of 1] this [of "-1"] show ?thesis by (simp add: z80_jit_ldir_def z80_jit_lddr_def)
qed

text \<open>C23: The stores that translated code makes in bulk, through LDIR, LDDR and the folded copy,
  fill and filter loops, leave no cached block whose bytes have changed, among the blocks that end below the top of
  memory: every byte of such a block that is still cached after the helper is the one it was translated from.  A
  single store followed by \<open>z80_jit_post_store\<close> leaves none either.\<close>

theorem jit_stores_no_stale_block:
  assumes "cdbt cpu = Some dbt" "dbt_reach (cmem cpu) dbt snap"
    and "cpu' \<in> {z80_jit_ldir cpu, z80_jit_lddr cpu, z80_jit_loop_filtercopy cpu spec pc pc_exit,
        z80_jit_post_store (cpu\<lparr>cmem := (cmem cpu) (addr := v)\<rparr>) addr} \<union>
      set_option (z80_jit_loop_copy cpu spec pc) \<union> set_option (z80_jit_loop_fill cpu spec pc)"
    and "cdbt cpu' = Some dbt'" "covers dbt' q a" "fits dbt' q"
  shows "cmem cpu' a = snap q a"
proof -
  have ok: "smc_ok snap cpu" using assms(1,2) by (simp add: smc_ok_def)
  have "smc_ok snap (z80_jit_ldir cpu)" "smc_ok snap (z80_jit_lddr cpu)"
    using range_stored_smc [OF ldir_range_stored [of 1 cpu] ok] range_stored_smc [OF ldir_range_stored [of "-1" cpu] ok]
    by (simp_all add: z80_jit_ldir_def z80_jit_lddr_def)
  moreover have "smc_ok snap (z80_jit_post_store (cpu\<lparr>cmem := (cmem cpu) (addr := v)\<rparr>) addr)"
    using smc.P_store [OF ok, of addr v] by (simp add: z80_jit_post_store_def mem_w_alt)
  ultimately have "smc_ok snap cpu'"
    using assms(3) loop_copy_smc [OF _ ok] loop_fill_smc [OF _ ok] filtercopy_smc [OF ok] by auto
  then show ?thesis using smc_no_stale assms(4-6) unfolding no_stale_def by blast
qed

text \<open>LDIR of one byte to \<open>0x200\<close>, with the block at \<open>0x100\<close> cached.\<close>

definition ldir_demo :: "unit z80_cpu" where
  "ldir_demo = demo_cpu\<lparr>reg_d := 2, reg_c := 1\<rparr>"

theorem jit_stores_no_stale_block_witness:
  "cmem (z80_jit_ldir ldir_demo) 0x101 = demo_snap 0x100 0x101"
proof (rule jit_stores_no_stale_block [where cpu = ldir_demo and dbt = demo_block and dbt' = demo_block])
  show "cdbt ldir_demo = Some demo_block" by (simp add: ldir_demo_def demo_cpu_def)
  show "dbt_reach (cmem ldir_demo) demo_block demo_snap"
    using demo_reach by (simp add: ldir_demo_def demo_cpu_def z80_cpu_init_def zero_cpu_def)
  show "z80_jit_ldir ldir_demo \<in> {z80_jit_ldir ldir_demo, z80_jit_lddr ldir_demo,
      z80_jit_loop_filtercopy ldir_demo 0 0 0, z80_jit_post_store (ldir_demo\<lparr>cmem := (cmem ldir_demo) (0 := 0)\<rparr>) 0} \<union>
      set_option (z80_jit_loop_copy ldir_demo 0 0) \<union> set_option (z80_jit_loop_fill ldir_demo 0 0)"
    by simp
  have r: "reg_de ldir_demo = 0x200" "reg_bc ldir_demo = 1" "cdbt ldir_demo = Some demo_block"
    by (simp_all add: ldir_demo_def demo_cpu_def z80_cpu_init_def zero_cpu_def reg_de_def reg_bc_def mk16_def)
  have "code_bitmap demo_block 0x200 = 0"
    by (simp add: demo_block_def dbt_commit_block_def mark_bitmap) (simp add: dbt_cache_invalidate_all_def)
  then show "cdbt (z80_jit_ldir ldir_demo) = Some demo_block"
    using ldir_range_stored [of 1 ldir_demo] r
    by (simp add: range_stored_def z80_jit_ldir_def dst_low_def smc_sweep_forward_def)
  show "covers demo_block 0x100 0x101" "fits demo_block 0x100" by (simp_all add: demo_covers demo_fits)
qed

text \<open>C30: LDIR copies: when the destination does not start inside the rest of the source, every byte
  of the destination gets the byte the source held before, HL and DE end past the last byte
  and BC is zero.\<close>

theorem ldir_copies:
  assumes "unat (reg_bc cpu) \<le> unat (reg_de cpu - reg_hl cpu)" "i < unat (reg_bc cpu)"
  shows "cmem (op_ldir 1 cpu) (reg_de cpu + of_nat i) = cmem cpu (reg_hl cpu + of_nat i) \<and>
    reg_hl (op_ldir 1 cpu) = reg_hl cpu + reg_bc cpu \<and> reg_de (op_ldir 1 cpu) = reg_de cpu + reg_bc cpu \<and>
    reg_bc (op_ldir 1 cpu) = 0"
proof (rule ldir_alt [of 1 cpu])
  fix mem b d
  assume c: "copy_loop (\<lambda>i. of_nat i * word_of_int 1) (reg_hl cpu) (reg_de cpu) (unat (reg_bc cpu)) (cmem cpu) 0 = (mem, b)"
    and l: "op_ldir (word_of_int 1) cpu =
      (moved (reg_hl cpu + reg_bc cpu * word_of_int 1) (reg_de cpu + reg_bc cpu * word_of_int 1) mem d cpu)
        \<lparr>reg_f := ldir_flags (reg_f cpu) (reg_a cpu + b), reg_q := 1\<rparr>"
  have "mem (reg_de cpu + of_nat i) = cmem cpu (reg_hl cpu + of_nat i)"
    using copy_loop_disjoint [OF assms, of "cmem cpu" 0] c by simp
  with l show ?thesis by (simp add: moved_def reg16_defs)
qed simp

definition ldir_cpu :: "unit z80_cpu" where
  "ldir_cpu = (z80_cpu_init None ())\<lparr>cmem := \<lambda>a. lo8 a, reg_h := 0x10, reg_d := 0x20, reg_c := 3\<rparr>"

theorem ldir_copies_witness:
  "cmem (op_ldir 1 ldir_cpu) (0x2000 + of_nat 2) = 2 \<and> reg_hl (op_ldir 1 ldir_cpu) = 0x1003"
proof -
  have r: "reg_bc ldir_cpu = 3" "reg_de ldir_cpu = 0x2000" "reg_hl ldir_cpu = 0x1000"
    by (simp_all add: ldir_cpu_def reg16_defs z80_cpu_init_def zero_cpu_def mk16_def push_bit_eq_mult)
  then show ?thesis using ldir_copies [of ldir_cpu 2] by (simp add: ldir_cpu_def lo8_def)
qed

end
