(* ===== verification/Dbt_Translate.thy ===== *)
theory Dbt_Translate
  imports Dbt_Flags
begin

text \<open>
  What \<open>dbt_translate_block\<close> (\<open>dbt/dbt_x64.c\<close>) decides before it emits code: which
  instructions it translates and where a block ends (phase 1), which flags and which MEMPTR
  stores are dead (phase 2), and which loops it folds into one helper call.  The AArch64 back
  end (\<open>dbt/dbt_a64.c\<close>) has these functions verbatim.  The \<open>int\<close> flags of the file that
  \<open>dbt_translate_block\<close> sets up once are arguments: \<open>traps\<close> is \<open>cpm_traps_enabled\<close>, \<open>ports\<close> is
  \<open>s_inline_ports > 0\<close>.
\<close>

section \<open>Translatable instructions\<close>

text \<open>The context slot an 8-bit register code names; \<open>None\<close> is the offset -1.\<close>

datatype cpu_slot = OFF_B | OFF_C | OFF_D | OFF_E | OFF_H | OFF_L | OFF_A | OFF_IXH | OFF_IXL | OFF_IYH | OFF_IYL

definition reg8_offset_p :: "u8 \<Rightarrow> u8 \<Rightarrow> cpu_slot option" where
  "reg8_offset_p r pfx =
     (if r = 0 then Some OFF_B else if r = 1 then Some OFF_C else if r = 2 then Some OFF_D
      else if r = 3 then Some OFF_E else if r = 4 then Some OFF_H else if r = 5 then Some OFF_L
      else if r = 7 then Some OFF_A
      else if r = 8 then Some (if pfx = 0xFD then OFF_IYH else OFF_IXH)
      else if r = 9 then Some (if pfx = 0xFD then OFF_IYL else OFF_IXL) else None)"

definition reg8_offset :: "u8 \<Rightarrow> cpu_slot option" where
  "reg8_offset r = reg8_offset_p r 0"

definition is_jp_trap_target :: "bool \<Rightarrow> u16 \<Rightarrow> bool" where
  "is_jp_trap_target traps pc \<longleftrightarrow>
     traps \<and> (pc = CPM_BDOS_ENTRY \<or> pc \<ge> CPM_BIOS_BASE \<and> pc < CPM_BIOS_BASE + 0x80)"

definition is_call_trap_target :: "bool \<Rightarrow> u16 \<Rightarrow> bool" where
  "is_call_trap_target traps pc \<longleftrightarrow> pc = CPM_WBOOT_ENTRY \<or> is_jp_trap_target traps pc"

definition is_indexed :: "z80_decoded \<Rightarrow> bool" where
  "is_indexed dec \<longleftrightarrow> dprefix dec = 0xDD \<or> dprefix dec = 0xFD"

definition can_translate :: "bool \<Rightarrow> bool \<Rightarrow> z80_decoded \<Rightarrow> u16 \<Rightarrow> bool" where
  "can_translate traps ports dec pc_after =
     (let idx = is_indexed dec;
          slot = (\<lambda>r. reg8_offset_p r (dprefix dec) \<noteq> None);
          plain = (\<lambda>r. reg8_offset r \<noteq> None)
      in case dtype dec of
            Z80_OP_NOP \<Rightarrow> \<not> idx
          | Z80_OP_LD_R_N \<Rightarrow> slot (reg1 dec)
          | Z80_OP_LD_R_R \<Rightarrow> (if reg1 dec = 6 then \<not> idx \<and> plain (reg2 dec) else if reg2 dec = 6 then \<not> idx \<and> plain (reg1 dec) else slot (reg1 dec) \<and> slot (reg2 dec))
          | Z80_OP_LD_RR_NN \<Rightarrow> reg1 dec \<le> 3
          | Z80_OP_LD_HL_N \<Rightarrow> \<not> idx
          | Z80_OP_LD_A_BC \<Rightarrow> \<not> idx
          | Z80_OP_LD_A_DE \<Rightarrow> \<not> idx
          | Z80_OP_LD_BC_A \<Rightarrow> \<not> idx
          | Z80_OP_LD_DE_A \<Rightarrow> \<not> idx
          | Z80_OP_LD_A_NN \<Rightarrow> \<not> idx
          | Z80_OP_LD_NN_A \<Rightarrow> \<not> idx
          | Z80_OP_LD_HL_indNN \<Rightarrow> True
          | Z80_OP_LD_NN_HL \<Rightarrow> True
          | Z80_OP_LD_SP_HL \<Rightarrow> True
          | Z80_OP_EX_DE_HL \<Rightarrow> \<not> idx
          | Z80_OP_INC_RR \<Rightarrow> reg1 dec \<le> 3
          | Z80_OP_DEC_RR \<Rightarrow> reg1 dec \<le> 3
          | Z80_OP_ADD_HL_RR \<Rightarrow> reg1 dec \<le> 3
          | Z80_OP_RLCA \<Rightarrow> \<not> idx
          | Z80_OP_RRCA \<Rightarrow> \<not> idx
          | Z80_OP_RLA \<Rightarrow> \<not> idx
          | Z80_OP_RRA \<Rightarrow> \<not> idx
          | Z80_OP_DAA \<Rightarrow> \<not> idx
          | Z80_OP_CPL \<Rightarrow> \<not> idx
          | Z80_OP_SCF \<Rightarrow> \<not> idx
          | Z80_OP_CCF \<Rightarrow> \<not> idx
          | Z80_OP_EX_SP_HL \<Rightarrow> True
          | Z80_OP_ADD_A_R \<Rightarrow> (if reg1 dec = 6 then \<not> idx else slot (reg1 dec))
          | Z80_OP_ADC_A_R \<Rightarrow> (if reg1 dec = 6 then \<not> idx else slot (reg1 dec))
          | Z80_OP_SUB_A_R \<Rightarrow> (if reg1 dec = 6 then \<not> idx else slot (reg1 dec))
          | Z80_OP_SBC_A_R \<Rightarrow> (if reg1 dec = 6 then \<not> idx else slot (reg1 dec))
          | Z80_OP_AND_A_R \<Rightarrow> (if reg1 dec = 6 then \<not> idx else slot (reg1 dec))
          | Z80_OP_OR_A_R \<Rightarrow> (if reg1 dec = 6 then \<not> idx else slot (reg1 dec))
          | Z80_OP_XOR_A_R \<Rightarrow> (if reg1 dec = 6 then \<not> idx else slot (reg1 dec))
          | Z80_OP_CP_A_R \<Rightarrow> (if reg1 dec = 6 then \<not> idx else slot (reg1 dec))
          | Z80_OP_ADD_A_N \<Rightarrow> \<not> idx
          | Z80_OP_ADC_A_N \<Rightarrow> \<not> idx
          | Z80_OP_SUB_A_N \<Rightarrow> \<not> idx
          | Z80_OP_SBC_A_N \<Rightarrow> \<not> idx
          | Z80_OP_AND_A_N \<Rightarrow> \<not> idx
          | Z80_OP_OR_A_N \<Rightarrow> \<not> idx
          | Z80_OP_XOR_A_N \<Rightarrow> \<not> idx
          | Z80_OP_CP_A_N \<Rightarrow> \<not> idx
          | Z80_OP_INC_R \<Rightarrow> (if reg1 dec = 6 then \<not> idx else slot (reg1 dec))
          | Z80_OP_DEC_R \<Rightarrow> (if reg1 dec = 6 then \<not> idx else slot (reg1 dec))
          | Z80_OP_LD_A_HL_ind \<Rightarrow> idx
          | Z80_OP_LD_HL_A_ind \<Rightarrow> idx
          | Z80_OP_LD_HL_N_ind \<Rightarrow> idx
          | Z80_OP_LD_R_HL_ind \<Rightarrow> idx \<and> plain (reg2 dec)
          | Z80_OP_LD_HL_R_ind \<Rightarrow> idx \<and> plain (reg2 dec)
          | Z80_OP_INC_HL_ind \<Rightarrow> True
          | Z80_OP_DEC_HL_ind \<Rightarrow> True
          | Z80_OP_ADD_A_HL_ind \<Rightarrow> idx
          | Z80_OP_ADC_A_HL_ind \<Rightarrow> idx
          | Z80_OP_SUB_A_HL_ind \<Rightarrow> idx
          | Z80_OP_SBC_A_HL_ind \<Rightarrow> idx
          | Z80_OP_AND_A_HL_ind \<Rightarrow> idx
          | Z80_OP_OR_A_HL_ind \<Rightarrow> idx
          | Z80_OP_XOR_A_HL_ind \<Rightarrow> idx
          | Z80_OP_CP_A_HL_ind \<Rightarrow> idx
          | Z80_OP_JP_HL \<Rightarrow> \<not> idx
          | Z80_OP_JP_NN \<Rightarrow> \<not> is_jp_trap_target traps (imm16 dec)
          | Z80_OP_JR_E \<Rightarrow> \<not> is_jp_trap_target traps (pc_after + sext (ddisp dec))
          | Z80_OP_JP_CC_NN \<Rightarrow> \<not> is_jp_trap_target traps (imm16 dec)
          | Z80_OP_JR_CC_E \<Rightarrow> \<not> is_jp_trap_target traps (pc_after + sext (ddisp dec))
          | Z80_OP_CALL_NN \<Rightarrow> \<not> is_call_trap_target traps (imm16 dec)
          | Z80_OP_CALL_CC_NN \<Rightarrow> \<not> is_call_trap_target traps (imm16 dec)
          | Z80_OP_RET \<Rightarrow> True
          | Z80_OP_RET_CC \<Rightarrow> True
          | Z80_OP_DJNZ \<Rightarrow> True
          | Z80_OP_CB \<Rightarrow> dprefix dec = 0xCB \<or> dprefix dec = 0xDD \<or> dprefix dec = 0xFD
          | Z80_OP_LDIR \<Rightarrow> True
          | Z80_OP_LDDR \<Rightarrow> True
          | Z80_OP_IN_A_N \<Rightarrow> \<not> idx \<and> ports
          | Z80_OP_OUT_N_A \<Rightarrow> \<not> idx \<and> ports
          | Z80_OP_PUSH_RR \<Rightarrow> (if reg1 dec \<le> 2 then True else if reg1 dec = 3 then \<not> idx else if reg1 dec = 4 then idx else False)
          | Z80_OP_POP_RR \<Rightarrow> (if reg1 dec \<le> 2 then True else if reg1 dec = 3 then \<not> idx else if reg1 dec = 4 then idx else False)
          | _ \<Rightarrow> False)"

section \<open>Phase 1: the instructions of a block\<close>

definition is_uncond_ender :: "z80_op_type \<Rightarrow> bool" where
  "is_uncond_ender t \<longleftrightarrow> t \<in> {Z80_OP_JP_NN, Z80_OP_JP_HL, Z80_OP_JR_E, Z80_OP_CALL_NN, Z80_OP_RET}"

definition is_cond_ender :: "z80_op_type \<Rightarrow> bool" where
  "is_cond_ender t \<longleftrightarrow> t \<in> {Z80_OP_JP_CC_NN, Z80_OP_JR_CC_E, Z80_OP_DJNZ, Z80_OP_CALL_CC_NN, Z80_OP_RET_CC}"

abbreviation (input) MAX_BLOCK_INSNS :: nat where "MAX_BLOCK_INSNS \<equiv> 64"
abbreviation (input) SUPERBLOCK_BYTE_CAP :: u16 where "SUPERBLOCK_BYTE_CAP \<equiv> 48"

text \<open>The decode loop with room for \<open>n\<close> more instructions: each instruction with its \<open>pc_after\<close>.\<close>

fun scan_block :: "bool \<Rightarrow> bool \<Rightarrow> memory \<Rightarrow> u16 \<Rightarrow> nat \<Rightarrow> u16 \<Rightarrow> (z80_decoded \<times> u16) list" where
  "scan_block traps ports mem start 0 pc = []"
| "scan_block traps ports mem start (Suc n) pc =
     (let dec = z80_decode_one mem pc
      in if dbytes dec = 0 then []
         else
           (let pc_after = pc + ucast (dbytes dec)
            in if \<not> can_translate traps ports dec pc_after then []
               else if is_uncond_ender (dtype dec) then [(dec, pc_after)]
               else if is_cond_ender (dtype dec) \<and> pc_after - start \<ge> SUPERBLOCK_BYTE_CAP then [(dec, pc_after)]
               else (dec, pc_after) # scan_block traps ports mem start n pc_after))"

text \<open>\<open>None\<close> is the refusal (\<open>return NULL\<close>) of an address whose first instruction is not
  translatable.\<close>

definition translate_scan :: "bool \<Rightarrow> bool \<Rightarrow> memory \<Rightarrow> u16 \<Rightarrow> (z80_decoded \<times> u16) list option" where
  "translate_scan traps ports mem start =
     (let ops = scan_block traps ports mem start MAX_BLOCK_INSNS start
      in if ops = [] then None else Some ops)"

section \<open>Phase 2: dead flags and dead MEMPTR stores\<close>

text \<open>\<open>op_flag_effects\<close>: the flags an instruction reads and those it defines.\<close>

definition op_flag_effects :: "z80_decoded \<Rightarrow> u8 \<times> u8" where
  "op_flag_effects dec =
     (let XY = Z80_FLAG_5 OR Z80_FLAG_3;
          SZP = Z80_FLAG_S OR Z80_FLAG_Z OR Z80_FLAG_PV
      in case dtype dec of
            Z80_OP_ADD_A_R \<Rightarrow> (0, 0xFF)
          | Z80_OP_ADD_A_N \<Rightarrow> (0, 0xFF)
          | Z80_OP_ADD_A_HL_ind \<Rightarrow> (0, 0xFF)
          | Z80_OP_SUB_A_R \<Rightarrow> (0, 0xFF)
          | Z80_OP_SUB_A_N \<Rightarrow> (0, 0xFF)
          | Z80_OP_SUB_A_HL_ind \<Rightarrow> (0, 0xFF)
          | Z80_OP_AND_A_R \<Rightarrow> (0, 0xFF)
          | Z80_OP_AND_A_N \<Rightarrow> (0, 0xFF)
          | Z80_OP_AND_A_HL_ind \<Rightarrow> (0, 0xFF)
          | Z80_OP_OR_A_R \<Rightarrow> (0, 0xFF)
          | Z80_OP_OR_A_N \<Rightarrow> (0, 0xFF)
          | Z80_OP_OR_A_HL_ind \<Rightarrow> (0, 0xFF)
          | Z80_OP_XOR_A_R \<Rightarrow> (0, 0xFF)
          | Z80_OP_XOR_A_N \<Rightarrow> (0, 0xFF)
          | Z80_OP_XOR_A_HL_ind \<Rightarrow> (0, 0xFF)
          | Z80_OP_CP_A_R \<Rightarrow> (0, 0xFF)
          | Z80_OP_CP_A_N \<Rightarrow> (0, 0xFF)
          | Z80_OP_CP_A_HL_ind \<Rightarrow> (0, 0xFF)
          | Z80_OP_ADC_A_R \<Rightarrow> (Z80_FLAG_C, 0xFF)
          | Z80_OP_ADC_A_N \<Rightarrow> (Z80_FLAG_C, 0xFF)
          | Z80_OP_ADC_A_HL_ind \<Rightarrow> (Z80_FLAG_C, 0xFF)
          | Z80_OP_SBC_A_R \<Rightarrow> (Z80_FLAG_C, 0xFF)
          | Z80_OP_SBC_A_N \<Rightarrow> (Z80_FLAG_C, 0xFF)
          | Z80_OP_SBC_A_HL_ind \<Rightarrow> (Z80_FLAG_C, 0xFF)
          | Z80_OP_INC_R \<Rightarrow> (Z80_FLAG_C, 0xFF AND NOT Z80_FLAG_C)
          | Z80_OP_DEC_R \<Rightarrow> (Z80_FLAG_C, 0xFF AND NOT Z80_FLAG_C)
          | Z80_OP_INC_HL_ind \<Rightarrow> (Z80_FLAG_C, 0xFF AND NOT Z80_FLAG_C)
          | Z80_OP_DEC_HL_ind \<Rightarrow> (Z80_FLAG_C, 0xFF AND NOT Z80_FLAG_C)
          | Z80_OP_ADD_HL_RR \<Rightarrow> (SZP, Z80_FLAG_C OR Z80_FLAG_H OR Z80_FLAG_N OR XY)
          | Z80_OP_RLCA \<Rightarrow> (SZP, Z80_FLAG_C OR Z80_FLAG_H OR Z80_FLAG_N OR XY)
          | Z80_OP_RRCA \<Rightarrow> (SZP, Z80_FLAG_C OR Z80_FLAG_H OR Z80_FLAG_N OR XY)
          | Z80_OP_RLA \<Rightarrow> (SZP OR Z80_FLAG_C, Z80_FLAG_C OR Z80_FLAG_H OR Z80_FLAG_N OR XY)
          | Z80_OP_RRA \<Rightarrow> (SZP OR Z80_FLAG_C, Z80_FLAG_C OR Z80_FLAG_H OR Z80_FLAG_N OR XY)
          | Z80_OP_DAA \<Rightarrow> (Z80_FLAG_C OR Z80_FLAG_H OR Z80_FLAG_N, 0xFF)
          | Z80_OP_CPL \<Rightarrow> (SZP OR Z80_FLAG_C, Z80_FLAG_H OR Z80_FLAG_N OR XY)
          | Z80_OP_SCF \<Rightarrow> (0xFF, Z80_FLAG_C OR Z80_FLAG_H OR Z80_FLAG_N OR XY)
          | Z80_OP_CCF \<Rightarrow> (0xFF, Z80_FLAG_C OR Z80_FLAG_H OR Z80_FLAG_N OR XY)
          | Z80_OP_CB \<Rightarrow> (let family = drop_bit 6 (imm8 dec); grp = drop_bit 3 (imm8 dec) AND 7
              in if family = 0 then (if grp = 2 \<or> grp = 3 then Z80_FLAG_C else 0, 0xFF)
                 else if family = 1 then (Z80_FLAG_C, 0xFF AND NOT Z80_FLAG_C) else (0, 0))
          | Z80_OP_LDIR \<Rightarrow> (0xFF, Z80_FLAG_H OR Z80_FLAG_PV OR Z80_FLAG_N OR XY)
          | Z80_OP_LDDR \<Rightarrow> (0xFF, Z80_FLAG_H OR Z80_FLAG_PV OR Z80_FLAG_N OR XY)
          | Z80_OP_PUSH_RR \<Rightarrow> (if reg1 dec = 3 then 0xFF else 0, 0)
          | Z80_OP_POP_RR \<Rightarrow> (0, if reg1 dec = 3 then 0xFF else 0)
          | Z80_OP_JP_CC_NN \<Rightarrow> (0xFF, 0)
          | Z80_OP_JR_CC_E \<Rightarrow> (0xFF, 0)
          | Z80_OP_DJNZ \<Rightarrow> (0xFF, 0)
          | Z80_OP_CALL_CC_NN \<Rightarrow> (0xFF, 0)
          | Z80_OP_RET_CC \<Rightarrow> (0xFF, 0)
          | _ \<Rightarrow> (0, 0))"

datatype memptr_effect = MPTR_NONE | MPTR_WRITE | MPTR_WRITE_FIXED | MPTR_READ

definition op_memptr_effect :: "z80_decoded \<Rightarrow> memptr_effect" where
  "op_memptr_effect dec =
     (case dtype dec of
            Z80_OP_IN_A_N \<Rightarrow> MPTR_WRITE
          | Z80_OP_OUT_N_A \<Rightarrow> MPTR_WRITE
          | Z80_OP_LD_A_BC \<Rightarrow> MPTR_WRITE
          | Z80_OP_LD_A_DE \<Rightarrow> MPTR_WRITE
          | Z80_OP_LD_BC_A \<Rightarrow> MPTR_WRITE
          | Z80_OP_LD_DE_A \<Rightarrow> MPTR_WRITE
          | Z80_OP_LD_A_NN \<Rightarrow> MPTR_WRITE
          | Z80_OP_LD_NN_A \<Rightarrow> MPTR_WRITE
          | Z80_OP_LD_HL_indNN \<Rightarrow> MPTR_WRITE
          | Z80_OP_LD_NN_HL \<Rightarrow> MPTR_WRITE
          | Z80_OP_ADD_HL_RR \<Rightarrow> MPTR_WRITE
          | Z80_OP_EX_SP_HL \<Rightarrow> MPTR_WRITE
          | Z80_OP_JP_CC_NN \<Rightarrow> MPTR_WRITE_FIXED
          | Z80_OP_CALL_CC_NN \<Rightarrow> MPTR_WRITE_FIXED
          | Z80_OP_CB \<Rightarrow> (if dprefix dec = 0xCB \<and> drop_bit 6 (imm8 dec) = 1 \<and> imm8 dec AND 7 = 6 then MPTR_READ else MPTR_NONE)
          | _ \<Rightarrow> MPTR_NONE)"

text \<open>The backward pass: \<open>fmask\<close> and \<open>mstore\<close> of every instruction, and what is live before the
  first one.\<close>

fun block_liveness :: "z80_decoded list \<Rightarrow> (u8 \<times> bool) list \<times> u8 \<times> bool" where
  "block_liveness [] = ([], 0xFF, True)"
| "block_liveness (dec # decs) =
     (let (masks, live, mlive) = block_liveness decs;
          (rd, wr) = op_flag_effects dec;
          fmask = live;
          live = (live AND NOT wr) OR rd;
          (mstore, mlive) = (case op_memptr_effect dec of
              MPTR_WRITE \<Rightarrow> (mlive, False)
            | MPTR_WRITE_FIXED \<Rightarrow> (True, False)
            | MPTR_READ \<Rightarrow> (False, True)
            | MPTR_NONE \<Rightarrow> (True, mlive))
      in ((fmask, mstore) # masks, live, mlive))"

section \<open>Loops folded into one helper call\<close>

datatype fuse = FUSE_NONE | FUSE_DEC_JP | FUSE_DEC_JR | FUSE_DJNZ

text \<open>The recognisers look at the decoded instructions \<open>decs\<close>, their \<open>pc_after\<close>s \<open>afters\<close> and an
  index below \<open>length decs\<close>.\<close>

definition countdown_kind :: "z80_decoded list \<Rightarrow> u16 list \<Rightarrow> nat \<Rightarrow> fuse" where
  "countdown_kind decs afters i =
     (let d = decs ! i; pc_i = afters ! i - ucast (dbytes d)
      in if is_indexed d then FUSE_NONE
         else if dtype d = Z80_OP_DJNZ then
           (if afters ! i + sext (ddisp d) = pc_i then FUSE_DJNZ else FUSE_NONE)
         else if dtype d \<noteq> Z80_OP_DEC_R \<or> reg1 d = 6 \<or> i + 1 \<ge> length decs then FUSE_NONE
         else
           (let j = decs ! (i + 1)
            in if is_indexed j \<or> dcc j \<noteq> 0 then FUSE_NONE
               else if dtype j = Z80_OP_JP_CC_NN \<and> imm16 j = pc_i then FUSE_DEC_JP
               else if dtype j = Z80_OP_JR_CC_E \<and> afters ! (i + 1) + sext (ddisp j) = pc_i then FUSE_DEC_JR
               else FUSE_NONE))"

text \<open>Length, \<open>spec\<close> and \<open>is_fill\<close> of a copy or fill loop; the first test of \<open>copyfill_kind\<close> picks
  the shape (\<open>dir\<close> and length).\<close>

definition copyfill_shape :: "z80_decoded list \<Rightarrow> nat \<Rightarrow> (bool \<times> nat) option" where
  "copyfill_shape decs i =
     (let d = decs ! i
      in if dtype d = Z80_OP_LD_R_R \<and> reg1 d = 7 \<and> reg2 d = 6 \<and> i + 5 < length decs \<and>
            dtype (decs ! (i + 1)) = Z80_OP_LD_DE_A then Some (False, 6)
         else if dtype d = Z80_OP_LD_A_DE \<and> i + 5 < length decs \<and> dtype (decs ! (i + 1)) = Z80_OP_LD_R_R \<and>
            reg1 (decs ! (i + 1)) = 6 \<and> reg2 (decs ! (i + 1)) = 7 then Some (True, 6)
         else if dtype d = Z80_OP_LD_R_R \<and> reg1 d = 6 \<and> reg2 d = 7 \<and> i + 3 < length decs then Some (False, 4)
         else None)"

definition is_inc_rr :: "z80_decoded \<Rightarrow> u8 \<Rightarrow> bool" where
  "is_inc_rr d rr \<longleftrightarrow> dtype d = Z80_OP_INC_RR \<and> reg1 d = rr"

definition copyfill_kind :: "z80_decoded list \<Rightarrow> u16 list \<Rightarrow> nat \<Rightarrow> (nat \<times> u32 \<times> bool) option" where
  "copyfill_kind decs afters i =
     (let pc_i = afters ! i - ucast (dbytes (decs ! i))
      in if list_ex is_indexed (take 6 (drop i decs)) then None
         else case copyfill_shape decs i of
           None \<Rightarrow> None
         | Some (dir, len) \<Rightarrow>
             (let j = i + (if len = 6 then 2 else 1);
                  a = decs ! j; b = decs ! (j + 1);
                  incs = (if len = 6 then is_inc_rr a 2 \<and> is_inc_rr b 1 \<or> is_inc_rr a 1 \<and> is_inc_rr b 2
                          else is_inc_rr a 2);
                  j = j + (if len = 6 then 2 else 1);
                  dec = decs ! j; br = decs ! (j + 1);
                  jp = (dtype br = Z80_OP_JP_CC_NN \<and> imm16 br = pc_i);
                  jr = (dtype br = Z80_OP_JR_CC_E \<and> afters ! (j + 1) + sext (ddisp br) = pc_i)
              in if \<not> incs \<or> dtype dec \<noteq> Z80_OP_DEC_R \<or> (if len = 6 then reg1 dec > 1 else reg1 dec > 3) \<or> dcc br \<noteq> 0
                 then None
                 else if jp \<or> jr then
                   Some (len, ucast (reg1 dec) OR (if dir then 0x100 else 0) OR (if jp then 0 else 0x200), len = 4)
                 else None))"

definition filtercopy_kind :: "z80_decoded list \<Rightarrow> u16 list \<Rightarrow> nat \<Rightarrow> u32 option" where
  "filtercopy_kind decs afters i =
     (if i + 12 > length decs then None
      else
        (let d = (\<lambda>k. decs ! (i + k));
             head = afters ! i - ucast (dbytes (d 0));
             exit' = afters ! (i + 11)
         in if list_ex is_indexed (take 12 (drop i decs)) then None
            else if dtype (d 0) = Z80_OP_LD_A_DE \<and> dtype (d 1) = Z80_OP_AND_A_N \<and> dtype (d 2) = Z80_OP_CP_A_N \<and>
              dtype (d 3) = Z80_OP_JP_CC_NN \<and> dcc (d 3) = 3 \<and> imm16 (d 3) = exit' \<and>
              dtype (d 4) = Z80_OP_CP_A_N \<and>
              dtype (d 5) = Z80_OP_JP_CC_NN \<and> dcc (d 5) = 1 \<and> imm16 (d 5) = exit' \<and>
              dtype (d 6) = Z80_OP_LD_R_R \<and> reg1 (d 6) = 6 \<and> reg2 (d 6) = 7 \<and>
              is_inc_rr (d 7) 2 \<and> is_inc_rr (d 8) 1 \<and>
              dtype (d 9) = Z80_OP_INC_R \<and> reg1 (d 9) = 0 \<and> dtype (d 10) = Z80_OP_DEC_R \<and> reg1 (d 10) = 1 \<and>
              dtype (d 11) = Z80_OP_JP_CC_NN \<and> dcc (d 11) = 0 \<and> imm16 (d 11) = head
            then Some (ucast (imm8 (d 1)) OR push_bit 8 (ucast (imm8 (d 2))) OR push_bit 16 (ucast (imm8 (d 4))))
            else None))"

end
