(* ===== verification/Dbt_Liveness.thy ===== *)
theory Dbt_Liveness
  imports Dbt_Translate Dbt_Flags_Props
begin

text \<open>
  What the operations of translatable instructions do with the flags and with MEMPTR, for the
  soundness of the backward analysis of \<open>dbt_translate_block\<close> (theory \<open>Dbt_Elision\<close>): two
  states that agree but for dead flags and a dead MEMPTR are taken to states that agree again.
\<close>

section \<open>Agreement up to dead flags and a dead MEMPTR\<close>

definition scr :: "u8 \<Rightarrow> u16 \<Rightarrow> 'h z80_cpu \<Rightarrow> 'h z80_cpu" where
  "scr f p cpu = cpu\<lparr>reg_f := f, memptr := p\<rparr>"

definition agree :: "u8 \<Rightarrow> bool \<Rightarrow> 'h z80_cpu \<Rightarrow> 'h z80_cpu \<Rightarrow> bool" where
  "agree m ml c c' \<longleftrightarrow> (\<exists>f p. c' = scr f p c \<and> f AND m = reg_f c AND m \<and> (ml \<longrightarrow> p = memptr c))"

lemma scr_simps [simp]:
  "scr f p (scr f' p' c) = scr f p c" "reg_f (scr f p c) = f" "memptr (scr f p c) = p"
  "scr (reg_f c) (memptr c) c = c"
  by (simp_all add: scr_def)

lemma agree_full: "agree 0xFF True c c' \<longleftrightarrow> c' = c"
proof -
  have "(0xFF :: u8) = - 1" by simp
  then have "f AND 0xFF = f" for f :: u8 by (simp only: and.right_neutral)
  then show ?thesis by (auto simp: agree_def)
qed

lemma and_mask_mono: "x AND m = y AND m \<Longrightarrow> m AND k = k \<Longrightarrow> x AND k = y AND k" for x y m k :: u8
  by (metis and.assoc)

lemma agree_mono:
  "agree m ml c c' \<Longrightarrow> m AND m' = m' \<Longrightarrow> ml' \<longrightarrow> ml \<Longrightarrow> agree m' ml' c c'"
  unfolding agree_def by (metis and_mask_mono)

text \<open>How an operation treats F and MEMPTR: it leaves both alone, it computes F from the bits
  \<open>k\<close> of the old one, it overwrites MEMPTR, or both.\<close>

definition keeps_fp :: "('h z80_cpu \<Rightarrow> 'h z80_cpu) \<Rightarrow> bool" where
  "keeps_fp g \<longleftrightarrow> (\<forall>c f p. g (scr f p c) = scr f p (g c))"

definition sets_f :: "u8 \<Rightarrow> ('h z80_cpu \<Rightarrow> 'h z80_cpu) \<Rightarrow> bool" where
  "sets_f k g \<longleftrightarrow> (\<forall>c f p. f AND k = reg_f c AND k \<longrightarrow> g (scr f p c) = scr (reg_f (g c)) p (g c))"

definition sets_p :: "('h z80_cpu \<Rightarrow> 'h z80_cpu) \<Rightarrow> bool" where
  "sets_p g \<longleftrightarrow> (\<forall>c f p. g (scr f p c) = scr f (memptr (g c)) (g c))"

definition sets_fp :: "u8 \<Rightarrow> ('h z80_cpu \<Rightarrow> 'h z80_cpu) \<Rightarrow> bool" where
  "sets_fp k g \<longleftrightarrow> (\<forall>c f p. f AND k = reg_f c AND k \<longrightarrow> g (scr f p c) = g c)"

lemma keeps_fp_agree:
  assumes "keeps_fp g" "agree m ml c c'"
  shows "agree m ml (g c) (g c')"
proof -
  from assms obtain f p where c': "c' = scr f p c" "f AND m = reg_f c AND m" "ml \<longrightarrow> p = memptr c"
    by (auto simp: agree_def)
  have "g c = scr (reg_f c) (memptr c) (g c)" using assms(1) by (metis keeps_fp_def scr_simps(4))
  then have "reg_f (g c) = reg_f c" "memptr (g c) = memptr c" by (metis scr_simps(2,3))+
  with assms(1) c' show ?thesis by (auto simp: agree_def keeps_fp_def)
qed

lemma sets_f_agree:
  assumes "sets_f k g" "agree m ml c c'" "m AND k = k"
  shows "agree m' ml (g c) (g c')"
proof -
  from assms obtain f p where c': "c' = scr f p c" "f AND k = reg_f c AND k" "ml \<longrightarrow> p = memptr c"
    by (auto simp: agree_def dest: and_mask_mono)
  have "g (scr (reg_f c) (memptr c) c) = scr (reg_f (g c)) (memptr c) (g c)"
    using assms(1) by (simp add: sets_f_def del: scr_simps(4))
  then have "memptr (g c) = memptr c" by (metis scr_simps(3,4))
  with assms(1) c' show ?thesis unfolding agree_def by (auto simp: sets_f_def intro!: exI [of _ "reg_f (g c)"])
qed

lemma sets_p_agree:
  assumes "sets_p g" "agree m ml c c'"
  shows "agree m True (g c) (g c')"
proof -
  from assms obtain f p where c': "c' = scr f p c" "f AND m = reg_f c AND m" by (auto simp: agree_def)
  have "g c = scr (reg_f c) (memptr (g c)) (g c)" using assms(1) by (metis sets_p_def scr_simps(4))
  then have "reg_f (g c) = reg_f c" by (metis scr_simps(2))
  with assms(1) c' show ?thesis by (auto simp: agree_def sets_p_def)
qed

lemma sets_fp_agree:
  assumes "sets_fp k g" "agree m ml c c'" "m AND k = k"
  shows "g c' = g c"
  using assms unfolding agree_def sets_fp_def by (metis and_mask_mono)

section \<open>The operations of translatable instructions\<close>

lemma scr_fields [simp]:
  "reg_a (scr f p c) = reg_a c" "reg_b (scr f p c) = reg_b c" "reg_c (scr f p c) = reg_c c"
  "reg_d (scr f p c) = reg_d c" "reg_e (scr f p c) = reg_e c" "reg_h (scr f p c) = reg_h c"
  "reg_l (scr f p c) = reg_l c" "reg_ix (scr f p c) = reg_ix c" "reg_iy (scr f p c) = reg_iy c"
  "reg_sp (scr f p c) = reg_sp c" "reg_pc (scr f p c) = reg_pc c" "reg_q (scr f p c) = reg_q c"
  "cmem (scr f p c) = cmem c" "cdbt (scr f p c) = cdbt c" "insn_count (scr f p c) = insn_count c"
  "defer_traps (scr f p c) = defer_traps c"
  "reg_bc (scr f p c) = reg_bc c" "reg_de (scr f p c) = reg_de c" "reg_hl (scr f p c) = reg_hl c"
  by (simp_all add: scr_def reg16_defs)

lemma scr_reads [simp]:
  "reg8_ptr_p (scr f p c) r pfx = reg8_ptr_p c r pfx" "effective_addr (scr f p c) dec a = effective_addr c dec a"
  "read_reg8 (scr f p c) r dec = read_reg8 c r dec" "read_rr (scr f p c) rr = read_rr c rr"
  "read16 (scr f p c) a = read16 c a" "get_xhl (scr f p c) dec = get_xhl c dec"
  by (simp_all add: reg8_ptr_p_def effective_addr_def read_reg8_def read_rr_def read16_def get_xhl_def)

lemma scr_updates [simp]:
  "scr f p c\<lparr>reg_a := x8\<rparr> = scr f p (c\<lparr>reg_a := x8\<rparr>)" "scr f p c\<lparr>reg_b := x8\<rparr> = scr f p (c\<lparr>reg_b := x8\<rparr>)"
  "scr f p c\<lparr>reg_c := x8\<rparr> = scr f p (c\<lparr>reg_c := x8\<rparr>)" "scr f p c\<lparr>reg_d := x8\<rparr> = scr f p (c\<lparr>reg_d := x8\<rparr>)"
  "scr f p c\<lparr>reg_e := x8\<rparr> = scr f p (c\<lparr>reg_e := x8\<rparr>)" "scr f p c\<lparr>reg_h := x8\<rparr> = scr f p (c\<lparr>reg_h := x8\<rparr>)"
  "scr f p c\<lparr>reg_l := x8\<rparr> = scr f p (c\<lparr>reg_l := x8\<rparr>)" "scr f p c\<lparr>reg_q := x8\<rparr> = scr f p (c\<lparr>reg_q := x8\<rparr>)"
  "scr f p c\<lparr>reg_ix := x\<rparr> = scr f p (c\<lparr>reg_ix := x\<rparr>)" "scr f p c\<lparr>reg_iy := x\<rparr> = scr f p (c\<lparr>reg_iy := x\<rparr>)"
  "scr f p c\<lparr>reg_sp := x\<rparr> = scr f p (c\<lparr>reg_sp := x\<rparr>)" "scr f p c\<lparr>reg_pc := x\<rparr> = scr f p (c\<lparr>reg_pc := x\<rparr>)"
  "scr f p c\<lparr>cmem := mem\<rparr> = scr f p (c\<lparr>cmem := mem\<rparr>)" "scr f p c\<lparr>cdbt := d\<rparr> = scr f p (c\<lparr>cdbt := d\<rparr>)"
  "scr f p c\<lparr>insn_count := n\<rparr> = scr f p (c\<lparr>insn_count := n\<rparr>)"
  "scr f p c\<lparr>reg_f := x8\<rparr> = scr x8 p c" "scr f p c\<lparr>memptr := x\<rparr> = scr f x c"
  by (simp_all add: scr_def)

lemma scr_writes [simp]:
  "set_bc w (scr f p c) = scr f p (set_bc w c)" "set_de w (scr f p c) = scr f p (set_de w c)"
  "set_hl w (scr f p c) = scr f p (set_hl w c)" "z80_mem_w (scr f p c) a v = scr f p (z80_mem_w c a v)"
  "reg8_put_p (scr f p c) r pfx v = scr f p (reg8_put_p c r pfx v)"
  "write_reg8 (scr f p c) r v dec = scr f p (write_reg8 c r v dec)"
  "write_rr (scr f p c) rr w = scr f p (write_rr c rr w)" "put_xhl (scr f p c) dec w = scr f p (put_xhl c dec w)"
  "write16 (scr f p c) a w = scr f p (write16 c a w)" "push16 (scr f p c) w = scr f p (push16 c w)"
  by (simp_all add: set16_defs mem_w_alt reg8_put_p_def write_reg8_def write_rr_def put_xhl_def write16_def push16_def Let_def)

lemma scr_fields_keep [simp]:
  "reg_f (set_hl w c) = reg_f c" "reg_f (put_xhl c dec w) = reg_f c"
  "memptr (write16 c a w) = memptr c"
  by (simp_all add: set16_defs put_xhl_def write16_def)

lemma keeps_fp_ops:
  "keeps_fp (\<lambda>c. write_reg8 c r (h c) dec)" if "\<And>f p c. h (scr f p c) = h c"
  using that by (simp add: keeps_fp_def)

lemma keeps_fp_16:
  "keeps_fp (\<lambda>c. op_ld_rr_nn c dec)" "keeps_fp (\<lambda>c. op_ld_sp_hl c dec)" "keeps_fp op_ex_de_hl"
  "keeps_fp (\<lambda>c. op_inc_rr c dec)" "keeps_fp (\<lambda>c. op_dec_rr c dec)"
  "reg1 dec \<noteq> 3 \<Longrightarrow> keeps_fp (\<lambda>c. op_push_rr c dec)" "reg1 dec \<noteq> 3 \<Longrightarrow> keeps_fp (\<lambda>c. op_pop_rr c dec)"
  by (simp_all add: keeps_fp_def op_ld_rr_nn_def op_ld_sp_hl_def op_ex_de_hl_def op_inc_rr_def op_dec_rr_def
      op_push_rr_def op_pop_rr_def Let_def)

lemma sets_p_ops:
  "sets_p (\<lambda>c. op_store_a c (h c))" "sets_p (\<lambda>c. op_load_a c (h c))" if "\<And>f p c. h (scr f p c) = h c"
  using that by (simp_all add: sets_p_def op_store_a_def op_load_a_def) (simp_all add: scr_def mem_w_alt)

lemma sets_p_16:
  "sets_p (\<lambda>c. op_ld_hl_ind_nn c dec)" "sets_p (\<lambda>c. op_ld_nn_hl c dec)" "sets_p (\<lambda>c. op_ex_sp_hl c dec)"
  by (simp_all add: sets_p_def op_ld_hl_ind_nn_def op_ld_nn_hl_def op_ex_sp_hl_def Let_def) (simp_all add: scr_def)

lemma sets_f_alu:
  fixes h :: "'h z80_cpu \<Rightarrow> u8"
  assumes "\<And>f p c. h (scr f p c) = h c"
  shows "sets_f 0 (\<lambda>c. alu_add c (h c))" "sets_f 0 (\<lambda>c. alu_sub c (h c))" "sets_f 0 (\<lambda>c. alu_cp c (h c))"
    "sets_f 0 (\<lambda>c. alu_and c (h c))" "sets_f 0 (\<lambda>c. alu_or c (h c))" "sets_f 0 (\<lambda>c. alu_xor c (h c))"
    "sets_f Z80_FLAG_C (\<lambda>c. alu_adc c (h c))" "sets_f Z80_FLAG_C (\<lambda>c. alu_sbc c (h c))"
  using assms
  by (simp_all add: sets_f_def alu_add_def alu_sub_def alu_cp_def alu_and_def alu_or_def alu_xor_def alu_adc_def alu_sbc_def
      set_flags_add_def set_flags_sub_def set_flags_cp_def set_flags_logic_def Let_def) (simp_all add: scr_def)

lemma and_FF [simp]: "f AND 0xFF = f" for f :: u8
proof -
  have "(0xFF :: u8) = - 1" by simp
  then show ?thesis by (simp only: and.right_neutral)
qed

lemma sets_f_incdec: "sets_f Z80_FLAG_C (\<lambda>c. op_inc_mem c dec)" "sets_f Z80_FLAG_C (\<lambda>c. op_dec_mem c dec)"
  by (simp_all add: sets_f_def op_inc_mem_def op_dec_mem_def flags_inc_def flags_dec_def Let_def) (simp_all add: scr_def mem_w_alt)

lemma reg8_put_f [simp]: "reg_f (reg8_put_p c r pfx v) = reg_f c"
  by (simp add: reg8_put_p_def)

lemma sets_f_incdec_r:
  assumes "reg1 dec = 6 \<or> reg8_offset_p (reg1 dec) (dprefix dec) \<noteq> None"
  shows "sets_f Z80_FLAG_C (\<lambda>c :: 'h z80_cpu. op_inc_r c dec) \<and> sets_f Z80_FLAG_C (\<lambda>c :: 'h z80_cpu. op_dec_r c dec)"
proof (cases "reg1 dec = 6")
  case True
  then show ?thesis by (simp add: op_inc_r_def op_dec_r_def sets_f_incdec)
next
  case False
  define h where "h c = the (reg8_ptr_p c (reg1 dec) (dprefix dec))" for c :: "'h z80_cpu"
  have "reg8_ptr_p c (reg1 dec) (dprefix dec) = Some (h c)" for c :: "'h z80_cpu"
    using assms False by (auto simp: h_def reg8_offset_p_def reg8_ptr_p_def split: if_splits)
  moreover have "h (scr f p c) = h c" for f p c by (simp add: h_def)
  ultimately show ?thesis
    using False by (simp add: sets_f_def op_inc_r_def op_dec_r_def flags_inc_def flags_dec_def Let_def)
      (simp add: scr_def)
qed

lemma sets_f_rot:
  "sets_f (Z80_FLAG_S OR Z80_FLAG_Z OR Z80_FLAG_PV) op_rlca" "sets_f (Z80_FLAG_S OR Z80_FLAG_Z OR Z80_FLAG_PV) op_rrca"
  "sets_f ((Z80_FLAG_S OR Z80_FLAG_Z OR Z80_FLAG_PV) OR Z80_FLAG_C) op_rla"
  "sets_f ((Z80_FLAG_S OR Z80_FLAG_Z OR Z80_FLAG_PV) OR Z80_FLAG_C) op_rra"
proof -
  have m: "((Z80_FLAG_S OR Z80_FLAG_Z OR Z80_FLAG_PV) OR Z80_FLAG_C) AND Z80_FLAG_C = Z80_FLAG_C"
    "((Z80_FLAG_S OR Z80_FLAG_Z OR Z80_FLAG_PV) OR Z80_FLAG_C) AND (Z80_FLAG_S OR Z80_FLAG_Z OR Z80_FLAG_PV) = (Z80_FLAG_S OR Z80_FLAG_Z OR Z80_FLAG_PV)"
    by simp_all
  show "sets_f (Z80_FLAG_S OR Z80_FLAG_Z OR Z80_FLAG_PV) (op_rlca :: 'h z80_cpu \<Rightarrow> _)"
    "sets_f (Z80_FLAG_S OR Z80_FLAG_Z OR Z80_FLAG_PV) (op_rrca :: 'h z80_cpu \<Rightarrow> _)"
    by (simp_all add: sets_f_def op_rlca_def op_rrca_def rot_a_flags_def Let_def) (simp_all add: scr_def)
  show "sets_f ((Z80_FLAG_S OR Z80_FLAG_Z OR Z80_FLAG_PV) OR Z80_FLAG_C) (op_rla :: 'h z80_cpu \<Rightarrow> _)"
    "sets_f ((Z80_FLAG_S OR Z80_FLAG_Z OR Z80_FLAG_PV) OR Z80_FLAG_C) (op_rra :: 'h z80_cpu \<Rightarrow> _)"
    unfolding sets_f_def op_rla_def op_rra_def rot_a_flags_def Let_def
    by (intro allI impI, frule and_mask_mono [OF _ m(1)], drule and_mask_mono [OF _ m(2)], simp, simp add: scr_def)+
qed

lemma daa_compute_cong:
  assumes "f AND (Z80_FLAG_C OR Z80_FLAG_H OR Z80_FLAG_N) = f' AND (Z80_FLAG_C OR Z80_FLAG_H OR Z80_FLAG_N)"
  shows "daa_compute a f = daa_compute a f'"
proof -
  have "f AND k = f' AND k" if "(Z80_FLAG_C OR Z80_FLAG_H OR Z80_FLAG_N) AND k = k" for k
    using assms that by (rule and_mask_mono)
  from this [of 1] this [of 16] this [of 2]
  have "f AND 0x01 = f' AND 0x01" "f AND 0x10 = f' AND 0x10" "f AND 0x02 = f' AND 0x02" by simp_all
  then show ?thesis unfolding daa_compute_def by (simp only:)
qed

lemma sets_f_daa_cpl:
  "sets_f (Z80_FLAG_C OR Z80_FLAG_H OR Z80_FLAG_N) op_daa"
  "sets_f ((Z80_FLAG_S OR Z80_FLAG_Z OR Z80_FLAG_PV) OR Z80_FLAG_C) op_cpl"
proof -
  show "sets_f (Z80_FLAG_C OR Z80_FLAG_H OR Z80_FLAG_N) (op_daa :: 'h z80_cpu \<Rightarrow> _)"
    unfolding sets_f_def
  proof (intro allI impI)
    fix c :: "'h z80_cpu" and f p
    assume "f AND (Z80_FLAG_C OR Z80_FLAG_H OR Z80_FLAG_N) = reg_f c AND (Z80_FLAG_C OR Z80_FLAG_H OR Z80_FLAG_N)"
    from daa_compute_cong [OF this] show "op_daa (scr f p c) = scr (reg_f (op_daa c)) p (op_daa c)"
      by (simp add: jit_daa [symmetric] z80_jit_daa_def split: prod.split) (simp add: scr_def)
  qed
  let ?k = "(Z80_FLAG_S OR Z80_FLAG_Z OR Z80_FLAG_PV) OR Z80_FLAG_C"
  have e: "(f AND NOT (Z80_FLAG_5 OR Z80_FLAG_3)) OR Z80_FLAG_H OR Z80_FLAG_N OR xy_from a =
      (f AND ?k) OR Z80_FLAG_H OR Z80_FLAG_N OR xy_from a" for f a :: u8
    unfolding u8_eq_iff_bits by (simp only: flag_bits) simp
  show "sets_f ?k (op_cpl :: 'h z80_cpu \<Rightarrow> _)"
    unfolding sets_f_def op_cpl_def Let_def e by (simp) (simp add: scr_def)
qed

lemma sets_f_all:
  "sets_f 0xFF (\<lambda>c. op_scf c q)" "sets_f 0xFF (\<lambda>c. op_ccf c q)"
  by (simp_all add: sets_f_def op_scf_def op_ccf_def Let_def) (simp_all add: scr_def)

lemma sets_f_pop: "reg1 dec = 3 \<Longrightarrow> sets_f 0 (\<lambda>c. op_pop_rr c dec)"
  by (simp add: sets_f_def op_pop_rr_def Let_def) (simp add: scr_def set16_defs)

lemma sets_fp_add_hl: "sets_fp (Z80_FLAG_S OR Z80_FLAG_Z OR Z80_FLAG_PV) (\<lambda>c. op_add_hl_rr c dec)"
  by (simp add: sets_fp_def op_add_hl_rr_def Let_def) (simp add: scr_def put_xhl_def set16_defs)

subsection \<open>The CB page\<close>

lemma cb_family:
  fixes sub :: u8
  shows "drop_bit 6 sub = 0 \<Longrightarrow> \<not> 0x40 \<le> sub \<and> \<not> 0x80 \<le> sub \<and> \<not> 0xC0 \<le> sub"
    "drop_bit 6 sub = 1 \<Longrightarrow> 0x40 \<le> sub \<and> sub < 0x80 \<and> \<not> 0x80 \<le> sub \<and> \<not> 0xC0 \<le> sub"
    "drop_bit 6 sub \<noteq> 0 \<Longrightarrow> drop_bit 6 sub \<noteq> 1 \<Longrightarrow> 0x80 \<le> sub \<and> \<not> sub < 0x80 \<and> (sub < 0xC0 \<or> 0xC0 \<le> sub)"
proof -
  have d: "unat (drop_bit 6 sub) = unat sub div 64"
    by (simp add: drop_bit_eq_div unat_div)
  have "drop_bit 6 sub = 0 \<longleftrightarrow> unat sub div 64 = 0" "drop_bit 6 sub = 1 \<longleftrightarrow> unat sub div 64 = 1"
    unfolding d [symmetric] by (simp_all add: word_unat_eq_iff)
  moreover have "unat sub < 256" by simp
  ultimately show "drop_bit 6 sub = 0 \<Longrightarrow> \<not> 0x40 \<le> sub \<and> \<not> 0x80 \<le> sub \<and> \<not> 0xC0 \<le> sub"
    "drop_bit 6 sub = 1 \<Longrightarrow> 0x40 \<le> sub \<and> sub < 0x80 \<and> \<not> 0x80 \<le> sub \<and> \<not> 0xC0 \<le> sub"
    "drop_bit 6 sub \<noteq> 0 \<Longrightarrow> drop_bit 6 sub \<noteq> 1 \<Longrightarrow> 0x80 \<le> sub \<and> \<not> sub < 0x80 \<and> (sub < 0xC0 \<or> 0xC0 \<le> sub)"
    unfolding word_le_nat_alt word_less_nat_alt by simp_all linarith+
qed

lemma cb_rot_carry: "grp \<noteq> 2 \<Longrightarrow> grp \<noteq> 3 \<Longrightarrow> cb_rot grp val c = cb_rot grp val c'"
  by (simp add: cb_rot_def)

definition cb_addr :: "'h z80_cpu \<Rightarrow> z80_decoded \<Rightarrow> u16" where
  "cb_addr c dec = (if is_indexed dec then (if dprefix dec = 0xDD then reg_ix c else reg_iy c) + sext (ddisp dec) else reg_hl c)"

definition cb_val :: "'h z80_cpu \<Rightarrow> z80_decoded \<Rightarrow> u8" where
  "cb_val c dec = (if is_indexed dec \<or> imm8 dec AND 7 = 6 then cmem c (cb_addr c dec)
     else case reg8_ptr_p c (imm8 dec AND 7) 0 of Some v \<Rightarrow> v | None \<Rightarrow> 0)"

definition cb_store :: "'h z80_cpu \<Rightarrow> z80_decoded \<Rightarrow> u8 \<Rightarrow> 'h z80_cpu" where
  "cb_store c dec v =
     (let r = imm8 dec AND 7
      in if is_indexed dec then
           (if r \<noteq> 6 then reg8_put_p (z80_mem_w c (cb_addr c dec) v) r 0 v else z80_mem_w c (cb_addr c dec) v)
         else if r = 6 then z80_mem_w c (cb_addr c dec) v else reg8_put_p c r 0 v)"

lemma scr_cb [simp]:
  "cb_addr (scr f p c) dec = cb_addr c dec" "cb_val (scr f p c) dec = cb_val c dec"
  "cb_store (scr f p c) dec v = scr f p (cb_store c dec v)"
  by (simp_all add: cb_addr_def cb_val_def cb_store_def Let_def)

lemma op_cb_rot_eq:
  assumes "drop_bit 6 (imm8 dec) = 0"
  shows "op_cb c dec =
    (let (new_c, res) = cb_rot (drop_bit 3 (imm8 dec) AND 7) (cb_val c dec) (reg_f c AND Z80_FLAG_C \<noteq> 0)
     in (cb_store c dec res)\<lparr>reg_f := cb_rot_flags new_c res, reg_q := 1\<rparr>)"
proof -
  obtain new_c res where "cb_rot (drop_bit 3 (imm8 dec) AND 7) (cb_val c dec) (reg_f c AND Z80_FLAG_C \<noteq> 0) = (new_c, res)"
    by fastforce
  then show ?thesis
    using cb_family(1) [OF assms] unfolding op_cb_def Let_def cb_store_def cb_val_def cb_addr_def is_indexed_def [symmetric]
    by (cases "is_indexed dec"; cases "imm8 dec AND 7 = 6"; simp)
qed

lemma op_cb_res_set_eq:
  assumes "drop_bit 6 (imm8 dec) \<noteq> 0" "drop_bit 6 (imm8 dec) \<noteq> 1"
  shows "op_cb c dec = cb_store c dec
    (let n = unat (drop_bit 3 (imm8 dec) AND 7)
     in if imm8 dec < 0xC0 then cb_val c dec AND NOT (push_bit n 1) else cb_val c dec OR push_bit n 1)"
proof -
  obtain new_c res where r: "cb_rot (drop_bit 3 (imm8 dec) AND 7) (cb_val c dec) (reg_f c AND Z80_FLAG_C \<noteq> 0) = (new_c, res)"
    by fastforce
  have "imm8 dec < 0xC0 \<or> \<not> imm8 dec < 0xC0 \<and> 0xC0 \<le> imm8 dec"
    using cb_family(3) [OF assms] by auto
  then show ?thesis
    using r cb_family(3) [OF assms] unfolding op_cb_def Let_def cb_store_def cb_val_def cb_addr_def is_indexed_def [symmetric]
    by (cases "is_indexed dec"; cases "imm8 dec AND 7 = 6"; elim disjE; simp)
qed

lemma op_cb_res_set:
  assumes "drop_bit 6 (imm8 dec) \<noteq> 0" "drop_bit 6 (imm8 dec) \<noteq> 1"
  shows "keeps_fp (\<lambda>c. op_cb c dec)"
  by (simp add: keeps_fp_def op_cb_res_set_eq [OF assms] Let_def)

lemma op_cb_rot:
  assumes "drop_bit 6 (imm8 dec) = 0"
  shows "sets_f (if drop_bit 3 (imm8 dec) AND 7 = 2 \<or> drop_bit 3 (imm8 dec) AND 7 = 3 then Z80_FLAG_C else 0) (\<lambda>c. op_cb c dec)"
    (is "sets_f ?k _")
  unfolding sets_f_def
proof (intro allI impI)
  fix c :: "'h z80_cpu" and f p
  assume k: "f AND ?k = reg_f c AND ?k"
  have "cb_rot (drop_bit 3 (imm8 dec) AND 7) v (f AND Z80_FLAG_C \<noteq> 0) =
      cb_rot (drop_bit 3 (imm8 dec) AND 7) v (reg_f c AND Z80_FLAG_C \<noteq> 0)" for v
    using k by (cases "drop_bit 3 (imm8 dec) AND 7 = 2 \<or> drop_bit 3 (imm8 dec) AND 7 = 3") (auto intro: cb_rot_carry)
  then show "op_cb (scr f p c) dec = scr (reg_f (op_cb c dec)) p (op_cb c dec)"
    by (simp add: op_cb_rot_eq [OF assms] split: prod.split) (simp add: scr_def)
qed

text \<open>\<open>BIT\<close>; only the (HL) form reads MEMPTR.\<close>

lemma op_cb_bit_eq:
  assumes "drop_bit 6 (imm8 dec) = 1"
  shows "op_cb c dec = c\<lparr>reg_f := cb_bit_flags (reg_f c) (cb_val c dec) (unat (drop_bit 3 (imm8 dec) AND 7))
    (if is_indexed dec then hi8 (cb_addr c dec) else if imm8 dec AND 7 = 6 then hi8 (memptr c) else cb_val c dec), reg_q := 1\<rparr>"
  using cb_family(2) [OF assms] unfolding op_cb_def Let_def cb_val_def cb_addr_def is_indexed_def [symmetric]
  by (simp only: case_prod_beta simp_thms if_True if_False not_False_eq_True)
    (cases "is_indexed dec"; cases "imm8 dec AND 7 = 6"; simp)

lemma op_cb_bit:
  assumes "drop_bit 6 (imm8 dec) = 1" "f AND Z80_FLAG_C = reg_f c AND Z80_FLAG_C"
    "is_indexed dec \<or> imm8 dec AND 7 \<noteq> 6 \<or> p = memptr c"
  shows "op_cb (scr f p c) dec = scr (reg_f (op_cb c dec)) p (op_cb c dec)"
  using assms(2,3) by (simp add: op_cb_bit_eq [OF assms(1)] cb_bit_flags_def Let_def) (auto simp: scr_def)

section \<open>One instruction\<close>

text \<open>The port hooks neither look at nor change F and MEMPTR.\<close>

definition ports_blind :: "'h z80_env \<Rightarrow> bool" where
  "ports_blind env \<longleftrightarrow>
     (\<forall>h f p c port hi. port_in env = Some h \<longrightarrow>
        h (scr f p c) port hi = (fst (h c port hi), scr f p (snd (h c port hi)))) \<and>
     (\<forall>h f p c port hi v. port_out env = Some h \<longrightarrow> h (scr f p c) port hi v = scr f p (h c port hi v))"

lemma sets_p_ports:
  assumes "ports_blind env"
  shows "sets_p (\<lambda>c. op_in_a_n env c dec) \<and> sets_p (\<lambda>c. op_out_n_a env c dec)"
proof -
  have i: "io_in env (scr f p c) port hi = (fst (io_in env c port hi), scr f p (snd (io_in env c port hi)))" for f p c port hi
    using assms by (auto simp: ports_blind_def io_in_def split: option.split)
  have o: "io_out env (scr f p c) port hi v = scr f p (io_out env c port hi v)" for f p c port hi v
    using assms by (auto simp: ports_blind_def io_out_def split: option.split)
  show ?thesis
    by (simp add: sets_p_def op_in_a_n_def op_out_n_a_def Let_def i o case_prod_beta) (simp add: scr_def)
qed

end
