(* ===== verification/Dbt_Elision.thy ===== *)
theory Dbt_Elision
  imports Dbt_Liveness
begin

text \<open>
  The backward analysis of \<open>dbt_translate_block\<close> is sound: translated code may leave any
  value in a flag bit, or in MEMPTR, that the analysis calls dead, and still ends every block
  in the state the interpreter's instructions lead to.
\<close>

section \<open>Executing the instructions of a block\<close>

text \<open>One instruction without its fetch, as \<open>z80_step\<close> runs it, and the instructions of a block
  up to the first branch that is taken.\<close>

definition block_step :: "'h z80_env \<Rightarrow> z80_decoded \<Rightarrow> 'h z80_cpu \<Rightarrow> 'h outcome" where
  "block_step env d cpu =
     exec_op (dtype d) env d (reg_pc cpu) (reg_q cpu) (cpu\<lparr>reg_pc := reg_pc cpu + ucast (dbytes d), reg_q := 0\<rparr>)"

definition leaves_block :: "z80_decoded \<Rightarrow> u16 \<Rightarrow> 'h z80_cpu \<Rightarrow> bool" where
  "leaves_block d pc cpu \<longleftrightarrow>
     is_uncond_ender (dtype d) \<or> is_cond_ender (dtype d) \<and> reg_pc cpu \<noteq> pc + ucast (dbytes d)"

fun exec_block :: "'h z80_env \<Rightarrow> z80_decoded list \<Rightarrow> 'h z80_cpu \<Rightarrow> 'h outcome" where
  "exec_block env [] cpu = Next cpu"
| "exec_block env (d # decs) cpu =
     (case block_step env d cpu of
        Next c \<Rightarrow> (let c = c\<lparr>insn_count := insn_count c + 1\<rparr>
                  in if leaves_block d (reg_pc cpu) c then Next c else exec_block env decs c)
      | r \<Rightarrow> r)"

text \<open>Code that computes only the live flags and makes only the live MEMPTR stores leaves
  arbitrary values (\<open>jf\<close>, \<open>jp\<close>) in the dead ones.\<close>

definition elide :: "z80_decoded \<Rightarrow> u8 \<times> bool \<Rightarrow> u8 \<times> u16 \<Rightarrow> 'h z80_cpu \<Rightarrow> 'h z80_cpu" where
  "elide d = (\<lambda>(fmask, mstore) (jf, jp) cpu.
     let dead = snd (op_flag_effects d) AND NOT fmask
     in cpu\<lparr>reg_f := (reg_f cpu AND NOT dead) OR (jf AND dead),
            memptr := (if op_memptr_effect d = MPTR_WRITE \<and> \<not> mstore then jp else memptr cpu)\<rparr>)"

fun exec_elided ::
    "'h z80_env \<Rightarrow> z80_decoded list \<Rightarrow> (u8 \<times> bool) list \<Rightarrow> (u8 \<times> u16) list \<Rightarrow> 'h z80_cpu \<Rightarrow> 'h outcome" where
  "exec_elided env (d # decs) (k # masks) (j # junk) cpu =
     (case block_step env d cpu of
        Next c \<Rightarrow> (let c = elide d k j (c\<lparr>insn_count := insn_count c + 1\<rparr>)
                  in if leaves_block d (reg_pc cpu) c then Next c else exec_elided env decs masks junk c)
      | r \<Rightarrow> r)"
| "exec_elided env _ _ _ cpu = Next cpu"

text \<open>\<open>z80_step\<close> runs exactly such an instruction on the bytes at PC.\<close>

lemma z80_step_block_step:
  assumes "profile_counts cpu = None" "d = z80_decode_one (cmem cpu) (reg_pc cpu)" "dbytes d \<noteq> 0"
  shows "z80_step env cpu =
    (case block_step env d cpu of Next c \<Rightarrow> (0, c\<lparr>insn_count := insn_count c + 1\<rparr>) | Exit c \<Rightarrow> (1, c) | Fail c \<Rightarrow> (-1, c))"
  using assms by (cases cpu) (simp add: z80_step_def block_step_def Let_def)

section \<open>Straight-line instructions fit their declared effects\<close>

definition straight :: "z80_decoded \<Rightarrow> bool" where
  "straight d \<longleftrightarrow> \<not> is_uncond_ender (dtype d) \<and> \<not> is_cond_ender (dtype d)"

definition step_of :: "'h z80_env \<Rightarrow> z80_decoded \<Rightarrow> u16 \<Rightarrow> u8 \<Rightarrow> 'h z80_cpu \<Rightarrow> 'h z80_cpu" where
  "step_of env d opc q x = (case exec_op (dtype d) env d opc q x of Next c \<Rightarrow> c | Exit c \<Rightarrow> c | Fail c \<Rightarrow> c)"

lemma straight_next:
  assumes "can_translate traps ports d pa" "straight d"
  shows "exec_op (dtype d) env d opc q x = Next (step_of env d opc q x)"
proof -
  have "dtype d \<noteq> Z80_OP_UNKNOWN" using assms(1) by (auto simp: can_translate_def)
  with assms(2) show ?thesis
    by (cases "dtype d") (simp_all add: step_of_def straight_def is_uncond_ender_def is_cond_ender_def)
qed

text \<open>An operation is an update of the state that fits its declared effects.\<close>

definition fits_effects :: "z80_decoded \<Rightarrow> ('h z80_cpu \<Rightarrow> 'h z80_cpu) \<Rightarrow> bool" where
  "fits_effects d g \<longleftrightarrow>
     (let (rd, wr) = op_flag_effects d; me = op_memptr_effect d
      in me = MPTR_NONE \<and> (wr = 0 \<and> keeps_fp g \<or> sets_f rd g) \<or>
         me = MPTR_WRITE \<and> (wr = 0 \<and> sets_p g \<or> sets_fp rd g) \<or>
         me = MPTR_READ \<and> (\<forall>c f. f AND rd = reg_f c AND rd \<longrightarrow> g (scr f (memptr c) c) = g c \<and> memptr (g c) = memptr c))"

lemma keeps_fp_push:
  "keeps_fp (\<lambda>c. c\<lparr>reg_a := h c\<rparr>)" if "\<And>f p c. h (scr f p c) = h c"
  using that by (simp add: keeps_fp_def)

lemma keeps_fp_id: "keeps_fp (\<lambda>c. c)" by (simp add: keeps_fp_def)

lemma fits_loads:
  assumes "dtype d \<in> {Z80_OP_NOP, Z80_OP_LD_R_N, Z80_OP_LD_R_R, Z80_OP_LD_RR_NN, Z80_OP_LD_HL_N, Z80_OP_LD_SP_HL,
     Z80_OP_EX_DE_HL, Z80_OP_INC_RR, Z80_OP_DEC_RR, Z80_OP_LD_A_HL_ind, Z80_OP_LD_HL_A_ind, Z80_OP_LD_HL_N_ind,
     Z80_OP_LD_R_HL_ind, Z80_OP_LD_HL_R_ind}"
  shows "fits_effects d (step_of env d opc q)"
proof -
  have e: "op_flag_effects d = (0, 0)" "op_memptr_effect d = MPTR_NONE"
    using assms by (auto simp: op_flag_effects_def op_memptr_effect_def)
  have "keeps_fp (step_of env d opc q)"
    using assms by (elim insertE emptyE) (simp_all add: step_of_def [abs_def] keeps_fp_ops keeps_fp_16 keeps_fp_push keeps_fp_id)
  then show ?thesis by (simp add: fits_effects_def e)
qed

lemma fits_memptr:
  assumes "dtype d \<in> {Z80_OP_LD_A_BC, Z80_OP_LD_A_DE, Z80_OP_LD_BC_A, Z80_OP_LD_DE_A, Z80_OP_LD_A_NN, Z80_OP_LD_NN_A,
     Z80_OP_LD_HL_indNN, Z80_OP_LD_NN_HL, Z80_OP_EX_SP_HL, Z80_OP_IN_A_N, Z80_OP_OUT_N_A}" "ports_blind env"
  shows "fits_effects d (step_of env d opc q)"
proof -
  have e: "op_flag_effects d = (0, 0)" "op_memptr_effect d = MPTR_WRITE"
    using assms by (auto simp: op_flag_effects_def op_memptr_effect_def)
  have "sets_p (step_of env d opc q)"
    using assms(1) sets_p_ports [OF assms(2)]
    by (elim insertE emptyE) (simp_all add: step_of_def [abs_def] sets_p_ops sets_p_16)
  then show ?thesis by (simp add: fits_effects_def e)
qed

lemma fits_alu:
  assumes "dtype d \<in> {Z80_OP_ADD_A_R, Z80_OP_ADD_A_N, Z80_OP_ADD_A_HL_ind, Z80_OP_SUB_A_R, Z80_OP_SUB_A_N, Z80_OP_SUB_A_HL_ind,
     Z80_OP_AND_A_R, Z80_OP_AND_A_N, Z80_OP_AND_A_HL_ind, Z80_OP_OR_A_R, Z80_OP_OR_A_N, Z80_OP_OR_A_HL_ind,
     Z80_OP_XOR_A_R, Z80_OP_XOR_A_N, Z80_OP_XOR_A_HL_ind, Z80_OP_CP_A_R, Z80_OP_CP_A_N, Z80_OP_CP_A_HL_ind}"
  shows "fits_effects d (step_of env d opc q)"
proof -
  have e: "op_flag_effects d = (0, 0xFF)" "op_memptr_effect d = MPTR_NONE"
    using assms by (auto simp: op_flag_effects_def op_memptr_effect_def)
  have "sets_f 0 (step_of env d opc q)"
    using assms by (elim insertE emptyE) (simp_all add: step_of_def [abs_def] sets_f_alu)
  then show ?thesis by (simp add: fits_effects_def e)
qed

lemma fits_carry:
  assumes "dtype d \<in> {Z80_OP_ADC_A_R, Z80_OP_ADC_A_N, Z80_OP_ADC_A_HL_ind, Z80_OP_SBC_A_R, Z80_OP_SBC_A_N, Z80_OP_SBC_A_HL_ind,
     Z80_OP_INC_HL_ind, Z80_OP_DEC_HL_ind, Z80_OP_INC_R, Z80_OP_DEC_R}"
    "dtype d \<in> {Z80_OP_INC_R, Z80_OP_DEC_R} \<longrightarrow> reg1 d = 6 \<or> reg8_offset_p (reg1 d) (dprefix d) \<noteq> None"
  shows "fits_effects d (step_of env d opc q)"
proof -
  have e: "fst (op_flag_effects d) = Z80_FLAG_C" "op_memptr_effect d = MPTR_NONE"
    using assms(1) by (auto simp: op_flag_effects_def op_memptr_effect_def)
  have "sets_f Z80_FLAG_C (step_of env d opc q)"
    using assms
    by (elim insertE emptyE) (simp_all add: step_of_def [abs_def] sets_f_alu sets_f_incdec sets_f_incdec_r)
  then show ?thesis using e by (cases "op_flag_effects d") (simp add: fits_effects_def)
qed

lemma fits_acc:
  assumes "dtype d \<in> {Z80_OP_RLCA, Z80_OP_RRCA, Z80_OP_RLA, Z80_OP_RRA, Z80_OP_DAA, Z80_OP_CPL, Z80_OP_SCF, Z80_OP_CCF}"
  shows "fits_effects d (step_of env d opc q)"
proof -
  have e: "op_memptr_effect d = MPTR_NONE"
    using assms by (auto simp: op_memptr_effect_def)
  have "sets_f (fst (op_flag_effects d)) (step_of env d opc q)"
    using assms by (elim insertE emptyE; simp only: step_of_def [abs_def] exec_op.simps op_flag_effects_def Let_def
        z80_op_type.case outcome.case fst_conv sets_f_rot sets_f_daa_cpl sets_f_all)
  then show ?thesis using e by (cases "op_flag_effects d") (simp add: fits_effects_def)
qed

lemma ldir_loop_scr:
  "ldir_loop incr (scr f p c) v = (scr f p (fst (ldir_loop incr c v)), snd (ldir_loop incr c v))"
proof (induction incr c v rule: ldir_loop.induct)
  case (1 incr c v)
  have "ldi_step incr (scr f p c) x = scr f p (ldi_step incr c x)" for x
    by (simp add: ldi_step_def Let_def)
  with 1 show ?case
    by (subst ldir_loop.simps, subst (2 3) ldir_loop.simps) (simp add: Let_def)
qed

lemma sets_f_ldir: "sets_f 0xFF (\<lambda>c :: 'h z80_cpu. op_ldir incr c)"
proof -
  have "reg_f (fst (ldir_loop incr c v)) = reg_f c" for c :: "'h z80_cpu" and v
    using ldir_loop_scr [of incr "reg_f c" "memptr c" c v] by (metis fst_conv scr_simps(2,4))
  then show ?thesis
    by (simp add: sets_f_def op_ldir_def ldir_loop_scr Let_def case_prod_beta) (simp add: scr_def)
qed

lemma sets_f_push: "reg1 d = 3 \<Longrightarrow> sets_f 0xFF (\<lambda>c. op_push_rr c d)"
  by (simp add: sets_f_def op_push_rr_def reg16_defs Let_def push16_def) (simp add: scr_def write16_def mem_w_alt)

lemma fits_block_stack:
  assumes "dtype d \<in> {Z80_OP_LDIR, Z80_OP_LDDR, Z80_OP_PUSH_RR, Z80_OP_POP_RR}"
  shows "fits_effects d (step_of env d opc q)"
proof -
  have e: "op_memptr_effect d = MPTR_NONE"
    using assms by (auto simp: op_memptr_effect_def)
  have "sets_f (fst (op_flag_effects d)) (step_of env d opc q) \<or> snd (op_flag_effects d) = 0 \<and> keeps_fp (step_of env d opc q)"
    using assms by (cases "reg1 d = 3"; elim insertE emptyE;
        simp add: step_of_def [abs_def] op_flag_effects_def sets_f_ldir sets_f_push sets_f_pop keeps_fp_16)
  then show ?thesis using e by (cases "op_flag_effects d") (auto simp: fits_effects_def)
qed

lemma fits_add_hl:
  assumes "dtype d = Z80_OP_ADD_HL_RR"
  shows "fits_effects d (step_of env d opc q)"
  using assms sets_fp_add_hl [of d]
  by (simp add: fits_effects_def step_of_def [abs_def] op_flag_effects_def op_memptr_effect_def)

lemma fits_cb:
  fixes env :: "'h z80_env"
  assumes "dtype d = Z80_OP_CB" "dprefix d = 0xCB \<or> is_indexed d"
  shows "fits_effects d (step_of env d opc q)"
proof -
  let ?fam = "drop_bit 6 (imm8 d)"
  have g: "step_of env d opc q = (\<lambda>c. op_cb c d)" using assms(1) by (simp add: step_of_def [abs_def])
  consider "?fam = 0" | "?fam = 1" "is_indexed d \<or> imm8 d AND 7 \<noteq> 6" | "?fam = 1" "\<not> is_indexed d" "imm8 d AND 7 = 6"
    | "?fam \<noteq> 0" "?fam \<noteq> 1" by blast
  then show ?thesis
  proof cases
    case 1
    with op_cb_rot [OF 1] show ?thesis using assms(1)
      by (simp add: g fits_effects_def op_flag_effects_def op_memptr_effect_def Let_def)
  next
    case 2
    then have "op_memptr_effect d = MPTR_NONE" "op_flag_effects d = (Z80_FLAG_C, 0xFF AND NOT Z80_FLAG_C)"
      using assms(1) by (auto simp: op_memptr_effect_def op_flag_effects_def is_indexed_def Let_def)
    moreover have "sets_f Z80_FLAG_C (\<lambda>c. op_cb c d)"
      unfolding sets_f_def using 2 by (auto intro: op_cb_bit)
    ultimately show ?thesis by (simp add: fits_effects_def g)
  next
    case 3
    then have "op_memptr_effect d = MPTR_READ" "op_flag_effects d = (Z80_FLAG_C, 0xFF AND NOT Z80_FLAG_C)"
      using assms by (auto simp: op_memptr_effect_def op_flag_effects_def is_indexed_def Let_def)
    moreover have "op_cb (scr f (memptr c) c) d = op_cb c d \<and> memptr (op_cb c d) = memptr c"
      if "f AND Z80_FLAG_C = reg_f c AND Z80_FLAG_C" for f and c :: "'h z80_cpu"
      using op_cb_bit [OF 3(1) that, of "memptr c"] by (simp add: op_cb_bit_eq [OF 3(1)] scr_def)
    ultimately show ?thesis by (simp add: fits_effects_def g)
  next
    case 4
    then have "op_memptr_effect d = MPTR_NONE" "op_flag_effects d = (0, 0)"
      using assms(1) by (auto simp: op_memptr_effect_def op_flag_effects_def Let_def)
    moreover have "keeps_fp (\<lambda>c :: 'h z80_cpu. op_cb c d)" by (rule op_cb_res_set [OF 4])
    ultimately show ?thesis by (simp add: fits_effects_def g)
  qed
qed

lemma straight_fits:
  assumes "can_translate traps ports d pa" "straight d" "ports_blind env"
  shows "fits_effects d (step_of env d opc q)"
proof -
  have r: "dtype d \<in> {Z80_OP_INC_R, Z80_OP_DEC_R} \<longrightarrow> reg1 d = 6 \<or> reg8_offset_p (reg1 d) (dprefix d) \<noteq> None"
    using assms(1) by (auto simp: can_translate_def Let_def split: if_splits)
  have cb: "dprefix d = 0xCB \<or> is_indexed d" if "dtype d = Z80_OP_CB"
    using that assms(1) by (auto simp: can_translate_def is_indexed_def Let_def)
  show ?thesis
  proof (cases "dtype d = Z80_OP_CB")
    case True
    then show ?thesis using fits_cb cb by blast
  next
    case False
    then show ?thesis
      using assms(1,2)
      by (cases "dtype d")
        (simp_all add: fits_loads fits_memptr [OF _ assms(3)] fits_alu fits_carry [OF _ r] fits_acc fits_block_stack
          fits_add_hl straight_def is_uncond_ender_def is_cond_ender_def can_translate_def)
  qed
qed

section \<open>One instruction\<close>

lemma agree_refl: "agree m ml c c"
  by (auto simp: agree_def intro!: exI [of _ "reg_f c"] exI [of _ "memptr c"])

lemma elide_agree:
  assumes "agree m ml c c'" "m AND live = live" "mlive \<longrightarrow> ml"
    "op_memptr_effect d = MPTR_WRITE \<and> mlive \<longrightarrow> mstore"
  shows "agree live mlive c (elide d (live, mstore) j c')"
proof -
  obtain f p where c': "c' = scr f p c" "f AND live = reg_f c AND live" "mlive \<longrightarrow> p = memptr c"
    using agree_mono [OF assms(1,2,3)] by (auto simp: agree_def)
  obtain jf jp where j: "j = (jf, jp)" by fastforce
  let ?dead = "snd (op_flag_effects d) AND NOT live"
  have "((f AND NOT ?dead) OR (jf AND ?dead)) AND live = f AND live"
    by (intro bit_word_eqI) (auto simp: bit_simps)
  with c' assms(4) show ?thesis
    unfolding agree_def
    by (intro exI [of _ "(f AND NOT ?dead) OR (jf AND ?dead)"]
        exI [of _ "if op_memptr_effect d = MPTR_WRITE \<and> \<not> mstore then jp else p"])
      (auto simp: elide_def j Let_def)
qed

definition before :: "z80_decoded \<Rightarrow> u8 \<times> bool \<Rightarrow> u8 \<times> bool" where
  "before d = (\<lambda>(live, mlive).
     ((live AND NOT (snd (op_flag_effects d))) OR fst (op_flag_effects d),
      case op_memptr_effect d of MPTR_WRITE \<Rightarrow> False | MPTR_WRITE_FIXED \<Rightarrow> False | MPTR_READ \<Rightarrow> True | MPTR_NONE \<Rightarrow> mlive))"

lemma or_absorb [simp]: "((a AND b) OR c) AND c = c" for a b c :: u8
  by (intro bit_word_eqI) (auto simp: bit_simps)

lemma fits_agree:
  assumes "fits_effects d g" "before d (live, mlive) = (m, ml)" "agree m ml c c'"
  shows "\<exists>m1 ml1. agree m1 ml1 (g c) (g c') \<and> m1 AND live = live \<and> (mlive \<longrightarrow> ml1)"
proof -
  obtain rd wr where rw: "op_flag_effects d = (rd, wr)" by fastforce
  have m: "m = (live AND NOT wr) OR rd" "m AND rd = rd" using assms(2) rw by (auto simp: before_def)
  have k: "m AND live = live" if "wr = 0"
    using that unfolding m by (intro bit_word_eqI) (auto simp: bit_simps)
  have FF: "0xFF AND live = live" by (metis and.commute and_FF)
  consider (keep) "op_memptr_effect d = MPTR_NONE" "wr = 0" "keeps_fp g" | (f) "op_memptr_effect d = MPTR_NONE" "sets_f rd g"
    | (p) "op_memptr_effect d = MPTR_WRITE" "wr = 0" "sets_p g" | (fp) "op_memptr_effect d = MPTR_WRITE" "sets_fp rd g"
    | (read) "op_memptr_effect d = MPTR_READ"
      "\<forall>c f. f AND rd = reg_f c AND rd \<longrightarrow> g (scr f (memptr c) c) = g c \<and> memptr (g c) = memptr c"
    using assms(1) rw by (auto simp: fits_effects_def Let_def)
  then show ?thesis
  proof cases
    case keep
    then show ?thesis using keeps_fp_agree [OF keep(3) assms(3)] k assms(2) by (auto simp: before_def)
  next
    case f
    then show ?thesis using sets_f_agree [OF f(2) assms(3) m(2), where m' = "0xFF"] FF assms(2) by (auto simp: before_def)
  next
    case p
    then show ?thesis using sets_p_agree [OF p(3) assms(3)] k by blast
  next
    case fp
    then show ?thesis using sets_fp_agree [OF fp(2) assms(3) m(2)] FF agree_full by metis
  next
    case read
    then have "ml" using assms(2) by (auto simp: before_def)
    with assms(3) obtain f where c': "c' = scr f (memptr c) c" "f AND m = reg_f c AND m"
      by (auto simp: agree_def)
    have "f AND rd = reg_f c AND rd" using and_mask_mono [OF c'(2) m(2)] .
    with c'(1) read(2) have "g c' = g c" by blast
    then show ?thesis using FF agree_full by metis
  qed
qed

lemma agree_iff_pc: "agree m ml c c' \<Longrightarrow> reg_pc c' = reg_pc c \<and> reg_q c' = reg_q c"
  by (auto simp: agree_def)

lemma fetch_keeps: "keeps_fp (\<lambda>c. c\<lparr>reg_pc := reg_pc c + n, reg_q := 0\<rparr>)" "keeps_fp (\<lambda>c. c\<lparr>insn_count := insn_count c + 1\<rparr>)"
  by (simp_all add: keeps_fp_def)

lemma straight_step:
  fixes env :: "'h z80_env"
  assumes "can_translate traps ports d pa" "straight d" "ports_blind env"
    "before d (live, mlive) = (m, ml)" "agree m ml c c'"
  obtains c1 c1' m1 ml1 where "block_step env d c = Next c1" "block_step env d c' = Next c1'"
    "agree m1 ml1 c1 c1'" "m1 AND live = live" "mlive \<longrightarrow> ml1"
proof -
  let ?g = "step_of env d (reg_pc c) (reg_q c)"
  let ?f = "\<lambda>c :: 'h z80_cpu. c\<lparr>reg_pc := reg_pc c + ucast (dbytes d), reg_q := 0\<rparr>"
  have "block_step env d x = Next (?g (?f x))" if "reg_pc x = reg_pc c \<and> reg_q x = reg_q c" for x
    using straight_next [OF assms(1,2)] that by (simp add: block_step_def)
  then have "block_step env d c = Next (?g (?f c))" "block_step env d c' = Next (?g (?f c'))"
    using agree_iff_pc [OF assms(5)] by blast+
  then show thesis
    using that fits_agree [OF straight_fits [OF assms(1-3)] assms(4) keeps_fp_agree [OF fetch_keeps(1) assms(5)]] by blast
qed

lemma before_cond:
  assumes "is_cond_ender (dtype d)"
  shows "before d (live, mlive) = (0xFF, mlive \<and> dtype d \<in> {Z80_OP_JR_CC_E, Z80_OP_DJNZ, Z80_OP_RET_CC})"
    "snd (op_flag_effects d) = 0" "op_memptr_effect d \<noteq> MPTR_WRITE"
proof -
  have "(0xFF :: u8) = - 1" by simp
  moreover have "x OR - 1 = - 1" for x :: u8 by simp
  ultimately have "x OR 0xFF = 0xFF" for x :: u8 by (simp only:)
  then show "before d (live, mlive) = (0xFF, mlive \<and> dtype d \<in> {Z80_OP_JR_CC_E, Z80_OP_DJNZ, Z80_OP_RET_CC})"
    "snd (op_flag_effects d) = 0" "op_memptr_effect d \<noteq> MPTR_WRITE"
    using assms by (auto simp: is_cond_ender_def before_def op_flag_effects_def op_memptr_effect_def)
qed

lemma elide_id [simp]: "snd (op_flag_effects d) = 0 \<Longrightarrow> op_memptr_effect d \<noteq> MPTR_WRITE \<Longrightarrow> elide d k j c = c"
  by (auto simp: elide_def Let_def split: prod.split)

lemma cond_true_cong: "reg_f c' = reg_f c \<Longrightarrow> cond_true c' cc = cond_true c cc"
  by (simp add: cond_true_def)

text \<open>A conditional branch reads all flags; the forms that do not always set MEMPTR set it when
  they leave the block.\<close>

lemma cond_step:
  fixes env :: "'h z80_env"
  assumes "is_cond_ender (dtype d)" "before d (live, mlive) = (m, ml)" "agree m ml c c'"
  shows "block_step env d c' = block_step env d c \<or>
    (\<exists>c1 c1'. block_step env d c = Next c1 \<and> block_step env d c' = Next c1' \<and> agree 0xFF mlive c1 c1' \<and>
       reg_pc c1 = reg_pc c + ucast (dbytes d))"
proof -
  have m: "m = 0xFF" "ml = (mlive \<and> dtype d \<in> {Z80_OP_JR_CC_E, Z80_OP_DJNZ, Z80_OP_RET_CC})"
    using assms(2) before_cond(1) [OF assms(1)] by auto
  obtain p where c': "c' = scr (reg_f c) p c" and p: "ml \<longrightarrow> p = memptr c" using assms(3) m(1) by (auto simp: agree_def)
  consider (fixed) "dtype d = Z80_OP_JP_CC_NN \<or> dtype d = Z80_OP_CALL_CC_NN"
    | (maybe) "dtype d = Z80_OP_JR_CC_E \<or> dtype d = Z80_OP_DJNZ \<or> dtype d = Z80_OP_RET_CC"
    using assms(1) by (auto simp: is_cond_ender_def)
  then show ?thesis
  proof cases
    case fixed
    then have "block_step env d c' = block_step env d c"
      unfolding c' block_step_def
      by (elim disjE) (simp_all add: op_jp_cc_nn_def op_call_cc_nn_def cond_true_def Let_def scr_def)
    then show ?thesis ..
  next
    case maybe
    let ?taken = "if dtype d = Z80_OP_DJNZ then reg_b c - 1 \<noteq> 0 else cond_true c (dcc d)"
    define g where "g c = c\<lparr>reg_pc := reg_pc c + ucast (dbytes d), reg_q := 0,
      reg_b := if dtype d = Z80_OP_DJNZ then reg_b c - 1 else reg_b c\<rparr>" for c :: "'h z80_cpu"
    have ct: "cond_true (c\<lparr>reg_pc := x, reg_q := 0\<rparr>) cc = cond_true c cc"
      "cond_true (c'\<lparr>reg_pc := x, reg_q := 0\<rparr>) cc = cond_true c cc" for x cc
      by (rule cond_true_cong, simp add: c')+
    show ?thesis
    proof (cases ?taken)
      case True
      have "block_step env d c' = block_step env d c"
        unfolding block_step_def using maybe True ct
        by (elim disjE) (simp_all add: op_jr_cc_def op_djnz_def op_ret_cc_def jump_rel_def pop_pc_def Let_def,
            simp_all add: c', simp_all add: scr_def)
      then show ?thesis ..
    next
      case False
      have "keeps_fp g" by (simp add: keeps_fp_def g_def)
      moreover have "ml = mlive" using maybe m(2) by auto
      ultimately have "agree 0xFF mlive (g c) (g c')" using keeps_fp_agree assms(3) m(1) by blast
      moreover have "block_step env d c = Next (g c)"
        unfolding block_step_def g_def using maybe False
        by (elim disjE) (simp_all add: op_jr_cc_def op_djnz_def op_ret_cc_def ct Let_def)
      moreover have "block_step env d c' = Next (g c')"
        unfolding block_step_def g_def using maybe False
        by (elim disjE) (simp_all add: op_jr_cc_def op_djnz_def op_ret_cc_def ct Let_def, simp add: c')
      ultimately show ?thesis by (auto simp: g_def)
    qed
  qed
qed

lemma block_liveness_Cons:
  "block_liveness (d # decs) =
     (let (masks, live, mlive) = block_liveness decs
      in ((live, case op_memptr_effect d of MPTR_WRITE \<Rightarrow> mlive | MPTR_WRITE_FIXED \<Rightarrow> True | MPTR_READ \<Rightarrow> False | MPTR_NONE \<Rightarrow> True) # masks,
         before d (live, mlive)))"
  by (simp add: before_def Let_def split: prod.split memptr_effect.split)

section \<open>Blocks\<close>

text \<open>A scanned block holds translatable instructions, and only its last one is unconditional
  control flow.\<close>

fun block_ok :: "bool \<Rightarrow> bool \<Rightarrow> (z80_decoded \<times> u16) list \<Rightarrow> bool" where
  "block_ok traps ports [] = True"
| "block_ok traps ports ((d, pa) # ops) \<longleftrightarrow>
     can_translate traps ports d pa \<and> (is_uncond_ender (dtype d) \<longrightarrow> ops = []) \<and> block_ok traps ports ops"

lemma scan_block_ok: "block_ok traps ports (scan_block traps ports mem start n pc)"
  by (induction traps ports mem start n pc rule: scan_block.induct) (auto simp: Let_def)

lemma uncond_effects:
  assumes "is_uncond_ender (dtype d)"
  shows "before d (0xFF, True) = (0xFF, True)" "snd (op_flag_effects d) = 0" "op_memptr_effect d \<noteq> MPTR_WRITE"
  using assms by (auto simp: is_uncond_ender_def before_def op_flag_effects_def op_memptr_effect_def)

lemma leaves_cong: "reg_pc c = reg_pc c' \<Longrightarrow> leaves_block d pc c = leaves_block d pc c'"
  by (simp add: leaves_block_def)

lemma elided_agrees:
  fixes env :: "'h z80_env"
  assumes "ports_blind env"
  shows "block_ok traps ports ops \<Longrightarrow> length junk = length ops \<Longrightarrow> block_liveness (map fst ops) = (masks, m, ml) \<Longrightarrow>
    agree m ml c c' \<Longrightarrow> exec_elided env (map fst ops) masks junk c' = exec_block env (map fst ops) c"
proof (induction ops arbitrary: junk masks m ml c c')
  case Nil
  then show ?case by (simp add: agree_full)
next
  case (Cons op ops)
  obtain d pa where op: "op = (d, pa)" by fastforce
  obtain j junk' where junk: "junk = j # junk'" using Cons.prems(2) by (cases junk) auto
  obtain masks' live mlive where bl: "block_liveness (map fst ops) = (masks', live, mlive)"
    by (metis prod_cases3)
  let ?ms = "case op_memptr_effect d of MPTR_WRITE \<Rightarrow> mlive | MPTR_WRITE_FIXED \<Rightarrow> True | MPTR_READ \<Rightarrow> False | MPTR_NONE \<Rightarrow> True"
  let ?inc = "\<lambda>c :: 'h z80_cpu. c\<lparr>insn_count := insn_count c + 1\<rparr>"
  have masks: "masks = (live, ?ms) # masks'" and before: "before d (live, mlive) = (m, ml)"
    using Cons.prems(3) unfolding op by (simp_all only: list.map fst_conv block_liveness_Cons bl) simp_all
  have pc: "reg_pc c' = reg_pc c" using agree_iff_pc [OF Cons.prems(4)] by simp
  have ok: "can_translate traps ports d pa" "block_ok traps ports ops" "length junk' = length ops"
    using Cons.prems(1,2) op junk by auto
  have IH: "exec_elided env (map fst ops) masks' junk' c1' = exec_block env (map fst ops) c1"
    if "agree live mlive c1 c1'" for c1 c1' using Cons.IH [OF ok(2,3) bl that] .
  have same: ?case if "block_step env d c' = block_step env d c" "snd (op_flag_effects d) = 0" "op_memptr_effect d \<noteq> MPTR_WRITE"
    using that IH [OF agree_refl] pc by (simp add: op junk masks Let_def split: outcome.split)
  consider (u) "is_uncond_ender (dtype d)" | (c) "is_cond_ender (dtype d)" | (s) "straight d" by (auto simp: straight_def)
  then show ?case
  proof cases
    case u
    then have "ops = []" using Cons.prems(1) op by simp
    then have "(m, ml) = (0xFF, True)" using bl before uncond_effects(1) [OF u] by simp
    then have "c' = c" using Cons.prems(4) agree_full by auto
    then show ?thesis using same uncond_effects(2,3) [OF u] by simp
  next
    case c
    note e = before_cond(2,3) [OF c]
    from cond_step [OF c before Cons.prems(4), of env] show ?thesis
    proof (elim disjE exE conjE)
      fix c1 c1' assume st: "block_step env d c = Next c1" "block_step env d c' = Next c1'" "agree 0xFF mlive c1 c1'"
        "reg_pc c1 = reg_pc c + ucast (dbytes d)"
      have "agree live mlive (?inc c1) (?inc c1')"
        using keeps_fp_agree [OF fetch_keeps(2) st(3)] agree_mono and.commute and_FF by metis
      then show ?thesis
        using IH st pc e agree_iff_pc [OF st(3)] c
        by (simp add: op junk masks Let_def leaves_block_def)
          (auto simp: is_cond_ender_def is_uncond_ender_def)
    qed (use same e in simp)
  next
    case s
    obtain c1 c1' m1 ml1 where st: "block_step env d c = Next c1" "block_step env d c' = Next c1'"
      "agree m1 ml1 c1 c1'" "m1 AND live = live" "mlive \<longrightarrow> ml1"
      using straight_step [OF ok(1) s assms before Cons.prems(4)] by blast
    have "agree live mlive (?inc c1) (elide d (live, ?ms) j (?inc c1'))"
      by (rule elide_agree [OF keeps_fp_agree [OF fetch_keeps(2) st(3)] st(4,5)]) simp
    then show ?thesis using IH st s by (simp add: op junk masks Let_def leaves_block_def straight_def)
  qed
qed

text \<open>\<open>INC A; ADD A,B; JP 0x200\<close> at 0x100: the flags of \<open>INC A\<close> are dead.\<close>

definition elision_mem :: memory where
  "elision_mem a = (if a = 0x100 then 0x3C else if a = 0x101 then 0x80 else if a = 0x102 then 0xC3 else if a = 0x104 then 2 else 0)"

definition elision_ops :: "(z80_decoded \<times> u16) list" where
  "elision_ops =
     [(zero_decoded\<lparr>dtype := Z80_OP_INC_R, dopcode := 0x3C, reg1 := 7, dbytes := 1\<rparr>, 0x101),
      (zero_decoded\<lparr>dtype := Z80_OP_ADD_A_R, dopcode := 0x80, dbytes := 1\<rparr>, 0x102),
      (zero_decoded\<lparr>dtype := Z80_OP_JP_NN, dopcode := 0xC3, imm16 := 0x200, dbytes := 3\<rparr>, 0x105)]"

lemma elision_scan: "translate_scan False False elision_mem 0x100 = Some elision_ops"
proof -
  have "z80_decode_one elision_mem 0x100 = zero_decoded\<lparr>dtype := Z80_OP_INC_R, dopcode := 0x3C, reg1 := 7, dbytes := 1\<rparr>"
    "z80_decode_one elision_mem 0x101 = zero_decoded\<lparr>dtype := Z80_OP_ADD_A_R, dopcode := 0x80, dbytes := 1\<rparr>"
    "z80_decode_one elision_mem 0x102 = zero_decoded\<lparr>dtype := Z80_OP_JP_NN, dopcode := 0xC3, imm16 := 0x200, dbytes := 3\<rparr>"
    by (simp_all add: z80_decode_one_eq prefix_count_none is_prefix_def decode_tail_def elision_mem_def
        after_prefixes_def decode_plain_def decode_main_def decode_00_3F_def decode_C0_FF_def decode_default_def
        remap_half_regs_def zero_decoded_def fetch_imm16_def op_z_def mk16_def)
  moreover obtain n where n: "(64 :: nat) = Suc (Suc (Suc n))"
  proof -
    have "(64 :: nat) = Suc (Suc (Suc 61))" by simp
    then show thesis by (rule that)
  qed
  ultimately show ?thesis
    unfolding translate_scan_def n
    by (simp add: can_translate_def is_uncond_ender_def is_cond_ender_def zero_decoded_def elision_ops_def
        reg8_offset_p_def is_jp_trap_target_def is_indexed_def Let_def)
qed

lemma elision_masks: "fst (block_liveness (map fst elision_ops)) = [(0, True), (0xFF, True), (0xFF, True)]"
  by (simp add: elision_ops_def zero_decoded_def op_flag_effects_def op_memptr_effect_def)

lemma bare_blind: "ports_blind bare_env"
  by (simp add: ports_blind_def bare_env_def)

text \<open>C5: Dead-flag and dead-MEMPTR elimination is sound: for every block the scan accepts,
  code that leaves arbitrary values in the flags and MEMPTR stores that the backward analysis
  calls dead, instruction by instruction, ends the block (at its end, at a side exit or at a
  trap) in exactly the state of the interpreter's instructions, flags and MEMPTR included, provided
  the port hooks neither look at nor change F and MEMPTR.\<close>

theorem elision_sound:
  assumes "translate_scan traps ports mem pc = Some ops" "ports_blind env" "length junk = length ops"
  shows "exec_elided env (map fst ops) (fst (block_liveness (map fst ops))) junk cpu = exec_block env (map fst ops) cpu"
proof -
  have "block_ok traps ports ops"
    using assms(1) scan_block_ok by (auto simp: translate_scan_def Let_def split: if_splits)
  then show ?thesis
    using elided_agrees [OF assms(2) _ assms(3) _ agree_refl] by (cases "block_liveness (map fst ops)") auto
qed

theorem elision_sound_witness:
  "exec_elided bare_env (map fst elision_ops) [(0, True), (0xFF, True), (0xFF, True)] [(0xFF, 1), (0, 2), (0, 3)] demo_cpu =
   exec_block bare_env (map fst elision_ops) demo_cpu"
  using elision_sound [OF elision_scan bare_blind, of "[(0xFF, 1), (0, 2), (0, 3)]" demo_cpu] unfolding elision_masks
  by (simp add: elision_ops_def)

end
