(* ===== verification/Dbt_Scan_Props.thy ===== *)
theory Dbt_Scan_Props
  imports Dbt_Elision
begin

text \<open>
  The instructions phase 1 of \<open>dbt_translate_block\<close> collects: they lie one after another in guest
  memory, at most 64 of them, and the 16-bit arithmetic on their addresses does not wrap around
  the block.
\<close>

section \<open>Consecutive instructions\<close>

fun chained :: "memory \<Rightarrow> u16 \<Rightarrow> (z80_decoded \<times> u16) list \<Rightarrow> bool" where
  "chained mem pc [] = True"
| "chained mem pc ((d, pa) # ops) \<longleftrightarrow>
     d = z80_decode_one mem pc \<and> pa = pc + ucast (dbytes d) \<and> dbytes d \<noteq> 0 \<and> chained mem pa ops"

lemma scan_chained: "chained mem pc (scan_block traps ports mem start n pc)"
  by (induction traps ports mem start n pc rule: scan_block.induct) (auto simp: Let_def)

lemma scan_length: "length (scan_block traps ports mem start n pc) \<le> n"
  by (induction traps ports mem start n pc rule: scan_block.induct) (auto simp: Let_def)

definition block_bytes :: "(z80_decoded \<times> u16) list \<Rightarrow> nat" where
  "block_bytes ops = (\<Sum>(d, pa) \<leftarrow> ops. unat (dbytes d))"

lemma block_bytes_simps [simp]:
  "block_bytes [] = 0" "block_bytes ((d, pa) # ops) = unat (dbytes d) + block_bytes ops"
  by (simp_all add: block_bytes_def)

lemma chained_bytes: "chained mem pc ops \<Longrightarrow> block_bytes ops \<le> 8 * length ops"
proof (induction mem pc ops rule: chained.induct)
  case (2 mem pc d pa ops)
  then have "block_bytes ops \<le> 8 * length ops" by auto
  moreover have "unat (dbytes d) \<le> 8" using 2(2) decode_length_bounds [of mem pc] by simp
  ultimately show ?case by simp
qed simp

lemma chained_end: "chained mem pc ops \<Longrightarrow> ops \<noteq> [] \<Longrightarrow> snd (last ops) = pc + of_nat (block_bytes ops)"
proof (induction mem pc ops rule: chained.induct)
  case (2 mem pc d pa ops)
  then have "ops \<noteq> [] \<Longrightarrow> snd (last ops) = pa + of_nat (block_bytes ops)" "pa = pc + of_nat (unat (dbytes d))" by auto
  then show ?case by (cases "ops = []") (simp_all add: add.assoc)
qed simp

lemma scan_some:
  assumes "translate_scan traps ports mem pc = Some ops"
  shows "ops \<noteq> []" "length ops \<le> 64" "chained mem pc ops"
  using assms scan_chained [of mem pc traps ports pc 64] scan_length [of traps ports mem pc 64 pc]
  by (auto simp: translate_scan_def Let_def split: if_splits)

section \<open>Properties\<close>

text \<open>C39: A translated block is a non-empty run of at most 64 consecutive instructions of guest
  memory, each decoded where the previous one ends; its length in bytes is at most 512 and is
  exactly the 16-bit difference of its end and start addresses that is recorded as its span,
  also when the block wraps past 0xFFFF.\<close>

theorem scanned_block_shape:
  assumes "translate_scan traps ports mem pc = Some ops"
  shows "1 \<le> length ops \<and> length ops \<le> MAX_BLOCK_INSNS \<and> chained mem pc ops \<and>
    block_bytes ops \<le> 512 \<and> unat (snd (last ops) - pc) = block_bytes ops"
proof -
  note ops = scan_some [OF assms]
  have b: "block_bytes ops \<le> 512" using chained_bytes [OF ops(3)] ops(2) by linarith
  moreover have "snd (last ops) - pc = of_nat (block_bytes ops)" using chained_end [OF ops(3,1)] by simp
  moreover have "unat (of_nat (block_bytes ops) :: u16) = block_bytes ops" using b by (intro unat_of_nat_u16) linarith
  ultimately show ?thesis using ops by (cases ops) auto
qed

theorem scanned_block_shape_witness:
  "1 \<le> length elision_ops \<and> length elision_ops \<le> MAX_BLOCK_INSNS \<and> chained elision_mem 0x100 elision_ops \<and>
    block_bytes elision_ops \<le> 512 \<and> unat (snd (last elision_ops) - 0x100) = block_bytes elision_ops"
  by (rule scanned_block_shape [OF elision_scan])

text \<open>The translator refuses an address exactly when the instruction there is one it does not
  translate; the scan of anything else yields a block.\<close>

theorem scan_refuses_iff:
  "translate_scan traps ports mem pc = None \<longleftrightarrow>
     \<not> can_translate traps ports (z80_decode_one mem pc) (pc + ucast (dbytes (z80_decode_one mem pc)))"
proof -
  have "dbytes (z80_decode_one mem pc) \<noteq> 0" using decode_length_bounds [of mem pc] by (metis unat_0 not_one_le_zero)
  moreover obtain n where n: "(64 :: nat) = Suc n" using not0_implies_Suc [of 64] by auto
  ultimately show ?thesis unfolding translate_scan_def n by (simp add: Let_def)
qed

end
