(* ===== verification/Dbt_Loops.thy ===== *)
theory Dbt_Loops
  imports Dbt_Scan_Props Dbt_Ldir_Props
begin

text \<open>
  Copy and fill loops folded into one helper call (\<open>copyfill_kind\<close> of \<open>dbt/dbt_x64.c\<close>, the helpers of
  \<open>dbt/dbt_flags.c\<close>): the helper leaves the registers, flags, MEMPTR, instruction count and memory
  that the interpreter leaves when it runs the loop from guest memory, fetching every instruction again in
  every pass, as long as the loop does not store into itself.
\<close>

section \<open>Running a loop\<close>

text \<open>The guest-visible state: all but the translator's own bookkeeping.\<close>

definition guest :: "'h z80_cpu \<Rightarrow> 'h z80_cpu" where
  "guest cpu = cpu\<lparr>cdbt := None\<rparr>"

lemma steps_add: "z80_steps env (m + n) c = z80_steps env n (z80_steps env m c)"
  by (induction m arbitrary: c) simp_all

text \<open>A loop of \<open>len\<close> instructions whose pass counts \<open>cnt\<close> down to zero; \<open>R n\<close> is the final state after \<open>n\<close> passes, \<open>I n\<close>
  what a pass needs when \<open>n\<close> passes are left.\<close>

lemma steps_counted:
  fixes pass :: "'h z80_cpu \<Rightarrow> 'h z80_cpu" and cnt :: "'h z80_cpu \<Rightarrow> u8"
  assumes pass: "\<And>n c. reg_pc c = head \<Longrightarrow> I (Suc n) c \<Longrightarrow> z80_steps env len c = pass c"
    and keep: "\<And>n c. I (Suc n) c \<Longrightarrow> I n (pass c)"
    and pc: "\<And>c. reg_pc c = head \<Longrightarrow> reg_pc (pass c) = (if cnt c = 1 then exit else head)"
    and cnt: "\<And>c. cnt (pass c) = cnt c - 1"
    and last: "\<And>c. reg_pc c = head \<Longrightarrow> cnt c = 1 \<Longrightarrow> guest (pass c) = R 1 c"
    and more: "\<And>c n. reg_pc c = head \<Longrightarrow> cnt c = of_nat (Suc n) \<Longrightarrow> 1 \<le> n \<Longrightarrow> n < 256 \<Longrightarrow> R n (pass c) = R (Suc n) c"
  shows "reg_pc c = head \<Longrightarrow> 1 \<le> n \<Longrightarrow> n \<le> 256 \<Longrightarrow> cnt c = of_nat n \<Longrightarrow> I n c \<Longrightarrow>
    guest (z80_steps env (n * len) c) = R n c"
proof (induction n arbitrary: c)
  case (Suc n)
  have s: "z80_steps env (Suc n * len) c = z80_steps env (n * len) (pass c)"
    using pass [OF Suc.prems(1,5)] by (simp add: steps_add)
  show ?case
  proof (cases "n = 0")
    case True
    then have "cnt c = 1" using Suc.prems(4) by simp
    then show ?thesis using s Suc.prems(1) last True by simp
  next
    case False
    then have "(of_nat (Suc n) :: u8) \<noteq> 1"
      using Suc.prems(3) by (auto simp: word_of_nat_eq_0_iff dest: dvd_imp_le)
    with False Suc.prems have "reg_pc (pass c) = head" "cnt (pass c) = of_nat n" using pc cnt by auto
    with Suc.IH [of "pass c"] False Suc.prems keep have "guest (z80_steps env (n * len) (pass c)) = R n (pass c)" by auto
    then show ?thesis using s Suc.prems(1,3,4) more [of c n] False by simp
  qed
qed simp

section \<open>Blocks and interpreter steps\<close>

text \<open>One instruction of a block is one step of the interpreter, if memory still holds it at PC.\<close>

lemma single_step:
  assumes "exec_block env [d] c = Next x" "profile_counts c = None" "z80_decode_one (cmem c) (reg_pc c) = d" "dbytes d \<noteq> 0"
  shows "snd (z80_step env c) = x"
proof -
  obtain c1 where "block_step env d c = Next c1" "x = c1\<lparr>insn_count := insn_count c1 + 1\<rparr>"
    using assms(1) by (auto simp: Let_def split: outcome.splits if_splits)
  then show ?thesis using z80_step_block_step [OF assms(2) assms(3) [symmetric] assms(4)] by simp
qed

lemma exec_block_append:
  "(\<And>d. d \<in> set xs \<Longrightarrow> straight d) \<Longrightarrow> exec_block env xs c = Next x \<Longrightarrow> exec_block env (xs @ ys) c = exec_block env ys x"
proof (induction xs arbitrary: c)
  case (Cons d xs)
  from Cons.prems(1) have "straight d" by simp
  then have nl: "\<not> leaves_block d pc c1" for pc and c1 :: "'a z80_cpu" by (simp add: straight_def leaves_block_def)
  from Cons.prems(2) nl obtain c1 where c1: "block_step env d c = Next c1"
    "exec_block env xs (c1\<lparr>insn_count := insn_count c1 + 1\<rparr>) = Next x"
    by (auto simp: Let_def split: outcome.splits)
  with Cons.IH [OF _ c1(2)] Cons.prems(1) nl show ?case by (simp add: Let_def)
qed simp

text \<open>A pass through straight-line code with its closing branch is that many steps, if memory holds each
  instruction when it is reached.\<close>

lemma exec_steps:
  assumes "\<And>d. d \<in> set (butlast ds) \<Longrightarrow> straight d"
    and "\<And>k. k < length ds \<Longrightarrow> \<exists>x. exec_block env (take k ds) c = Next x \<and> profile_counts x = None \<and>
      z80_decode_one (cmem x) (reg_pc x) = ds ! k \<and> dbytes (ds ! k) \<noteq> 0"
    and "exec_block env ds c = Next c'"
  shows "z80_steps env (length ds) c = c'"
proof -
  have "k \<le> length ds \<Longrightarrow> exec_block env (take k ds) c = Next (z80_steps env k c)" for k
  proof (induction k)
    case (Suc k)
    then have k: "k < length ds" by simp
    then have IH: "exec_block env (take k ds) c = Next (z80_steps env k c)" using Suc by simp
    then have x: "profile_counts (z80_steps env k c) = None" "dbytes (ds ! k) \<noteq> 0"
      "z80_decode_one (cmem (z80_steps env k c)) (reg_pc (z80_steps env k c)) = ds ! k"
      using assms(2) [OF k] by auto
    have "set (take k ds) \<subseteq> set (butlast ds)" using k by (simp add: butlast_conv_take set_take_subset_set_take)
    then have "exec_block env (take (Suc k) ds) c = exec_block env [ds ! k] (z80_steps env k c)"
      unfolding take_Suc_conv_app_nth [OF k] using assms(1) IH by (intro exec_block_append) auto
    moreover have "\<exists>y. exec_block env (take (Suc k) ds) c = Next y"
      using assms(2) [of "Suc k"] assms(3) by (cases "Suc k < length ds") auto
    moreover have "z80_steps env (Suc k) c = snd (z80_step env (z80_steps env k c))"
      using steps_add [of env k 1 c] by simp
    ultimately show ?case using single_step [OF _ x(1,3,2)] by auto
  qed simp
  from this [of "length ds"] assms(3) show ?thesis by simp
qed

text \<open>Memory holds the instructions \<open>ds\<close> one after the other from \<open>head\<close>.\<close>

definition body_bytes :: "z80_decoded list \<Rightarrow> u16" where
  "body_bytes ds = sum_list (map (\<lambda>d. ucast (dbytes d)) ds)"

definition code_bytes :: "z80_decoded list \<Rightarrow> nat" where
  "code_bytes ds = sum_list (map (\<lambda>d. unat (dbytes d)) ds)"

definition code_at :: "memory \<Rightarrow> u16 \<Rightarrow> z80_decoded list \<Rightarrow> bool" where
  "code_at m head ds \<longleftrightarrow>
     (\<forall>k < length ds. z80_decode_one m (head + body_bytes (take k ds)) = ds ! k \<and> dbytes (ds ! k) \<noteq> 0)"

lemma body_bytes_code: "body_bytes ds = of_nat (code_bytes ds)"
  by (induction ds) (simp_all add: body_bytes_def code_bytes_def)

lemma code_bytes_take: "k < length ds \<Longrightarrow> code_bytes (take k ds) + unat (dbytes (ds ! k)) \<le> code_bytes ds"
proof -
  assume k: "k < length ds"
  have "code_bytes ds = code_bytes (take k ds) + (unat (dbytes (ds ! k)) + code_bytes (drop (Suc k) ds))"
    by (subst id_take_nth_drop [OF k], simp add: code_bytes_def del: append_take_drop_id)
  then show ?thesis by simp
qed

lemma code_at_local:
  assumes "code_at m head ds" "\<And>j. j < code_bytes ds \<Longrightarrow> m' (head + of_nat j) = m (head + of_nat j)"
  shows "code_at m' head ds"
  unfolding code_at_def
proof (intro allI impI)
  fix k assume k: "k < length ds"
  let ?pc = "head + body_bytes (take k ds)"
  have d: "z80_decode_one m ?pc = ds ! k" "dbytes (ds ! k) \<noteq> 0" using assms(1) k by (auto simp: code_at_def)
  have "agree_upto m m' ?pc (unat (dbytes (ds ! k)))"
    unfolding agree_upto_def
  proof (intro allI impI)
    fix j assume "j < unat (dbytes (ds ! k))"
    with code_bytes_take [OF k] have "code_bytes (take k ds) + j < code_bytes ds" by linarith
    from assms(2) [OF this] show "m' (?pc + of_nat j) = m (?pc + of_nat j)"
      by (simp add: body_bytes_code add.assoc)
  qed
  with decode_local_aux [of m m' ?pc] d show "z80_decode_one m' ?pc = ds ! k \<and> dbytes (ds ! k) \<noteq> 0" by simp
qed

lemma code_at_store:
  "code_at m head ds \<Longrightarrow> (\<And>j. j < code_bytes ds \<Longrightarrow> a \<noteq> head + of_nat j) \<Longrightarrow> code_at (m (a := v)) head ds"
  by (erule code_at_local) auto

text \<open>An instruction that stores nothing and goes on to the next one.\<close>

definition quiet :: "'h z80_env \<Rightarrow> z80_decoded \<Rightarrow> bool" where
  "quiet env d \<longleftrightarrow> (\<forall>c. \<exists>x. (\<forall>ds. exec_block env (d # ds) c = exec_block env ds x) \<and>
     profile_counts x = profile_counts c \<and> reg_pc x = reg_pc c + ucast (dbytes d) \<and> cmem x = cmem c)"

lemma quiet_prefix:
  "(\<And>d. d \<in> set ds \<Longrightarrow> quiet env d) \<Longrightarrow> \<exists>x. exec_block env ds c = Next x \<and>
     profile_counts x = profile_counts c \<and> reg_pc x = reg_pc c + body_bytes ds \<and> cmem x = cmem c"
proof (induction ds arbitrary: c)
  case Nil
  then show ?case by (simp add: body_bytes_def)
next
  case (Cons d ds)
  then obtain x where x: "exec_block env (d # ds) c = exec_block env ds x"
    "profile_counts x = profile_counts c" "reg_pc x = reg_pc c + ucast (dbytes d)" "cmem x = cmem c"
    unfolding quiet_def by (meson list.set_intros(1))
  from Cons.IH [of x] Cons.prems obtain y where "exec_block env ds x = Next y"
    "profile_counts y = profile_counts x" "reg_pc y = reg_pc x + body_bytes ds" "cmem y = cmem x" by auto
  with x show ?case by (intro exI [of _ y]) (simp add: body_bytes_def add.assoc)
qed

text \<open>A pass that stores one byte, outside its own code, with its first instructions \<open>ws\<close>, then runs the quiet \<open>qs\<close> and
  the closing branch, is that many interpreter steps.\<close>

lemma pass_steps:
  assumes body: "body = ws @ qs @ [br]" and st: "\<And>d. d \<in> set (ws @ qs) \<Longrightarrow> straight d"
    and q: "\<And>d. d \<in> set qs \<Longrightarrow> quiet env d"
    and w: "\<And>k. k \<le> length ws \<Longrightarrow> \<exists>x. exec_block env (take k ws) c = Next x \<and> profile_counts x = profile_counts c \<and>
      reg_pc x = reg_pc c + body_bytes (take k ws) \<and> (cmem x = cmem c \<or> cmem x = (cmem c) (a := v))"
    and c: "profile_counts c = None" "code_at (cmem c) (reg_pc c) body"
    and out: "\<And>j. j < code_bytes body \<Longrightarrow> a \<noteq> reg_pc c + of_nat j"
    and e: "exec_block env body c = Next c'"
  shows "z80_steps env (length body) c = c'"
proof (rule exec_steps [OF _ _ e])
  show "straight d" if "d \<in> set (butlast body)" for d
    using that st by (simp add: body butlast_append)
  fix k assume k: "k < length body"
  have "\<exists>x. exec_block env (take k body) c = Next x \<and> profile_counts x = profile_counts c \<and>
      reg_pc x = reg_pc c + body_bytes (take k body) \<and> (cmem x = cmem c \<or> cmem x = (cmem c) (a := v))"
  proof (cases "k \<le> length ws")
    case True
    then show ?thesis using w [OF True] by (simp add: body)
  next
    case False
    define n where "n = k - length ws"
    have n: "k = length ws + n" "n \<le> length qs" using False k by (simp_all add: n_def body)
    then have t: "take k body = ws @ take n qs" by (simp add: body)
    obtain x where x: "exec_block env ws c = Next x" "profile_counts x = profile_counts c"
      "reg_pc x = reg_pc c + body_bytes ws" "cmem x = cmem c \<or> cmem x = (cmem c) (a := v)"
      using w [of "length ws"] by auto
    obtain y where y: "exec_block env (take n qs) x = Next y" "profile_counts y = profile_counts x"
      "reg_pc y = reg_pc x + body_bytes (take n qs)" "cmem y = cmem x"
      using quiet_prefix [of "take n qs" env x] q by (meson in_set_takeD)
    have "exec_block env (take k body) c = exec_block env (take n qs) x"
      unfolding t using st x(1) by (intro exec_block_append) auto
    with x y show ?thesis by (intro exI [of _ y]) (simp add: t body_bytes_def add.assoc)
  qed
  then obtain x where x: "exec_block env (take k body) c = Next x" "profile_counts x = profile_counts c"
    "reg_pc x = reg_pc c + body_bytes (take k body)" "cmem x = cmem c \<or> cmem x = (cmem c) (a := v)" by blast
  have "code_at (cmem x) (reg_pc c) body" using x(4) c(2) code_at_store [OF c(2) out] by metis
  with x c(1) k show "\<exists>x. exec_block env (take k body) c = Next x \<and> profile_counts x = None \<and>
      z80_decode_one (cmem x) (reg_pc x) = body ! k \<and> dbytes (body ! k) \<noteq> 0"
    by (intro exI [of _ x]) (simp add: code_at_def)
qed

section \<open>The loop bodies\<close>

lemma u8_le3: "r \<le> 3 \<Longrightarrow> r = 0 \<or> r = 1 \<or> r = 2 \<or> r = 3" for r :: u8
proof -
  assume "r \<le> 3"
  then have "unat r \<le> 3" by (simp add: word_le_nat_alt)
  then have "unat r \<in> {0, 1, 2, 3}" by auto
  then show ?thesis by (auto simp: word_unat_eq_iff)
qed

lemma u8_le1: "r \<le> 1 \<Longrightarrow> r = 0 \<or> r = 1" for r :: u8
proof -
  assume "r \<le> 1"
  then have "unat r \<le> 1" by (simp add: word_le_nat_alt)
  then have "unat r \<in> {0, 1}" by auto
  then show ?thesis by (auto simp: word_unat_eq_iff)
qed

lemma reg16_updates [simp]:
  "reg_hl (c\<lparr>reg_pc := x\<rparr>) = reg_hl c" "reg_hl (c\<lparr>reg_q := q\<rparr>) = reg_hl c" "reg_hl (c\<lparr>insn_count := n\<rparr>) = reg_hl c"
  "reg_hl (c\<lparr>cmem := m\<rparr>) = reg_hl c" "reg_hl (c\<lparr>cdbt := d\<rparr>) = reg_hl c" "reg_hl (c\<lparr>reg_f := q\<rparr>) = reg_hl c"
  "reg_hl (c\<lparr>memptr := x\<rparr>) = reg_hl c" "reg_hl (c\<lparr>reg_a := q\<rparr>) = reg_hl c"
  "reg_de (c\<lparr>reg_pc := x\<rparr>) = reg_de c" "reg_de (c\<lparr>reg_q := q\<rparr>) = reg_de c" "reg_de (c\<lparr>insn_count := n\<rparr>) = reg_de c"
  "reg_de (c\<lparr>cmem := m\<rparr>) = reg_de c" "reg_de (c\<lparr>cdbt := d\<rparr>) = reg_de c" "reg_de (c\<lparr>reg_f := q\<rparr>) = reg_de c"
  "reg_de (c\<lparr>memptr := x\<rparr>) = reg_de c" "reg_de (c\<lparr>reg_a := q\<rparr>) = reg_de c"
  by (simp_all add: reg16_defs)

text \<open>The closing branch: \<open>JP NZ,head\<close> or \<open>JR NZ,head\<close> at \<open>pc\<close>.\<close>

definition closes :: "u16 \<Rightarrow> u16 \<Rightarrow> bool \<Rightarrow> z80_decoded \<Rightarrow> bool" where
  "closes head pc jp br \<longleftrightarrow> dcc br = 0 \<and>
     (if jp then dtype br = Z80_OP_JP_CC_NN \<and> imm16 br = head
      else dtype br = Z80_OP_JR_CC_E \<and> pc + ucast (dbytes br) + sext (ddisp br) = head)"

lemma exec_block_straight:
  assumes "block_step env d c = Next c1" "\<not> is_uncond_ender (dtype d)" "\<not> is_cond_ender (dtype d)"
  shows "exec_block env (d # ds) c = exec_block env ds (c1\<lparr>insn_count := insn_count c1 + 1\<rparr>)"
  using assms by (simp add: leaves_block_def Let_def)

lemma exec_block_branch:
  assumes "closes head (reg_pc c) jp br" "\<not> is_jp_trap_target (cpm_traps_enabled env) head"
  shows "exec_block env [br] c =
    (let nz = (reg_f c AND Z80_FLAG_Z = 0)
     in Next (c\<lparr>reg_pc := if nz then head else reg_pc c + ucast (dbytes br), reg_q := 0,
        memptr := if jp \<or> nz then head else memptr c, insn_count := insn_count c + 1\<rparr>))"
  using assms
  by (cases jp) (auto simp: closes_def block_step_def op_jp_cc_nn_def op_jr_cc_def jump_rel_def cond_true_def jump_traps_def
      traps_on_def in_bios_def is_jp_trap_target_def leaves_block_def is_cond_ender_def is_uncond_ender_def Let_def)

text \<open>\<open>DEC r\<close> of a counter register.\<close>

definition cnt_of :: "u8 \<Rightarrow> 'h z80_cpu \<Rightarrow> u8" where
  "cnt_of r c = (if r = 0 then reg_b c else if r = 1 then reg_c c else if r = 2 then reg_d c else reg_e c)"

definition put_cnt :: "u8 \<Rightarrow> u8 \<Rightarrow> 'h z80_cpu \<Rightarrow> 'h z80_cpu" where
  "put_cnt r v c = (if r = 0 then c\<lparr>reg_b := v\<rparr> else if r = 1 then c\<lparr>reg_c := v\<rparr> else if r = 2 then c\<lparr>reg_d := v\<rparr>
     else c\<lparr>reg_e := v\<rparr>)"

lemma dec_counter:
  assumes "reg1 d \<le> 3"
  shows "op_dec_r c d = (put_cnt (reg1 d) (cnt_of (reg1 d) c - 1) c)
    \<lparr>reg_f := flags_dec (reg_f c) (cnt_of (reg1 d) c - 1), reg_q := 1\<rparr>"
proof -
  from u8_le3 [OF assms] show ?thesis
    by (elim disjE) (simp_all add: op_dec_r_def reg8_ptr_p_def reg8_put_p_def cnt_of_def put_cnt_def Let_def)
qed

lemma flags_dec_bits:
  "flags_dec f v AND Z80_FLAG_Z = 0 \<longleftrightarrow> v \<noteq> 0" "flags_dec f v AND Z80_FLAG_C = f AND Z80_FLAG_C"
  "flags_dec (flags_dec f v) w = flags_dec f w"
proof -
  have b: "bit (flags_dec f v) 6 \<longleftrightarrow> v = 0" "bit (flags_dec f v) 0 \<longleftrightarrow> bit f 0"
    by (auto simp: flags_dec_def Let_def z80_flag bit_or_iff bit_and_iff split: if_splits)
  show "flags_dec f v AND Z80_FLAG_Z = 0 \<longleftrightarrow> v \<noteq> 0" using b(1) by (simp add: and_flag_eq_0_iff)
  show c: "flags_dec f v AND Z80_FLAG_C = f AND Z80_FLAG_C"
    using b(2) by (simp add: and_one_eq mod_2_eq_odd bit_0)
  show "flags_dec (flags_dec f v) w = flags_dec f w" unfolding flags_dec_def [of "flags_dec f v"] flags_dec_def [of f w] c ..
qed

text \<open>The instructions of the bodies, one at a time.\<close>

definition fetched :: "z80_decoded \<Rightarrow> 'h z80_cpu \<Rightarrow> 'h z80_cpu" where
  "fetched d c = c\<lparr>reg_pc := reg_pc c + ucast (dbytes d), reg_q := 0, insn_count := insn_count c + 1\<rparr>"

lemma exec_op_block:
  assumes "exec_op t env d (reg_pc c) (reg_q c) (c\<lparr>reg_pc := reg_pc c + ucast (dbytes d), reg_q := 0\<rparr>) = Next c1" "dtype d = t"
    "\<not> is_uncond_ender t \<and> \<not> is_cond_ender t" "c1\<lparr>insn_count := insn_count c1 + 1\<rparr> = c2"
  shows "exec_block env (d # ds) c = exec_block env ds c2"
  using assms by (auto simp: block_step_def leaves_block_def Let_def)

lemma exec_ld_hl_a:
  assumes "dtype d = Z80_OP_LD_R_R" "reg1 d = 6" "reg2 d = 7" "\<not> is_indexed d"
  shows "exec_block env (d # ds) c = exec_block env ds (z80_mem_w (fetched d c) (reg_hl c) (reg_a c))"
proof (rule exec_op_block [of Z80_OP_LD_R_R])
  show "exec_op Z80_OP_LD_R_R env d (reg_pc c) (reg_q c) (c\<lparr>reg_pc := reg_pc c + ucast (dbytes d), reg_q := 0\<rparr>) = Next ((z80_mem_w (fetched d c) (reg_hl c) (reg_a c))\<lparr>insn_count := insn_count c\<rparr>)"
    using assms by (auto simp: fetched_def write_reg8_def read_reg8_def effective_addr_def is_indexed_def reg8_ptr_p_def reg8_put_p_def
      op_store_a_def op_load_a_def mem_w_alt intro!: z80_cpu.equality)
qed (use assms in \<open>simp_all add: is_uncond_ender_def is_cond_ender_def is_inc_rr_def fetched_def mem_w_alt set16_defs\<close>)

lemma exec_ld_a_hl:
  assumes "dtype d = Z80_OP_LD_R_R" "reg1 d = 7" "reg2 d = 6" "\<not> is_indexed d"
  shows "exec_block env (d # ds) c = exec_block env ds ((fetched d c)\<lparr>reg_a := cmem c (reg_hl c)\<rparr>)"
proof (rule exec_op_block [of Z80_OP_LD_R_R])
  show "exec_op Z80_OP_LD_R_R env d (reg_pc c) (reg_q c) (c\<lparr>reg_pc := reg_pc c + ucast (dbytes d), reg_q := 0\<rparr>) = Next (((fetched d c)\<lparr>reg_a := cmem c (reg_hl c)\<rparr>)\<lparr>insn_count := insn_count c\<rparr>)"
    using assms by (auto simp: fetched_def write_reg8_def read_reg8_def effective_addr_def is_indexed_def reg8_ptr_p_def reg8_put_p_def
      op_store_a_def op_load_a_def mem_w_alt intro!: z80_cpu.equality)
qed (use assms in \<open>simp_all add: is_uncond_ender_def is_cond_ender_def is_inc_rr_def fetched_def mem_w_alt set16_defs\<close>)

lemma exec_ld_de_a:
  assumes "dtype d = Z80_OP_LD_DE_A"
  shows "exec_block env (d # ds) c = exec_block env ds ((z80_mem_w (fetched d c) (reg_de c) (reg_a c))\<lparr>memptr := mk16 (reg_a c) (lo8 (reg_de c + 1))\<rparr>)"
proof (rule exec_op_block [of Z80_OP_LD_DE_A])
  show "exec_op Z80_OP_LD_DE_A env d (reg_pc c) (reg_q c) (c\<lparr>reg_pc := reg_pc c + ucast (dbytes d), reg_q := 0\<rparr>) = Next (((z80_mem_w (fetched d c) (reg_de c) (reg_a c))\<lparr>memptr := mk16 (reg_a c) (lo8 (reg_de c + 1))\<rparr>)\<lparr>insn_count := insn_count c\<rparr>)"
    using assms by (auto simp: fetched_def write_reg8_def read_reg8_def effective_addr_def is_indexed_def reg8_ptr_p_def reg8_put_p_def
      op_store_a_def op_load_a_def mem_w_alt intro!: z80_cpu.equality)
qed (use assms in \<open>simp_all add: is_uncond_ender_def is_cond_ender_def is_inc_rr_def fetched_def mem_w_alt set16_defs\<close>)

lemma exec_ld_a_de:
  assumes "dtype d = Z80_OP_LD_A_DE"
  shows "exec_block env (d # ds) c = exec_block env ds ((fetched d c)\<lparr>reg_a := cmem c (reg_de c), memptr := reg_de c + 1\<rparr>)"
proof (rule exec_op_block [of Z80_OP_LD_A_DE])
  show "exec_op Z80_OP_LD_A_DE env d (reg_pc c) (reg_q c) (c\<lparr>reg_pc := reg_pc c + ucast (dbytes d), reg_q := 0\<rparr>) = Next (((fetched d c)\<lparr>reg_a := cmem c (reg_de c), memptr := reg_de c + 1\<rparr>)\<lparr>insn_count := insn_count c\<rparr>)"
    using assms by (auto simp: fetched_def write_reg8_def read_reg8_def effective_addr_def is_indexed_def reg8_ptr_p_def reg8_put_p_def
      op_store_a_def op_load_a_def mem_w_alt intro!: z80_cpu.equality)
qed (use assms in \<open>simp_all add: is_uncond_ender_def is_cond_ender_def is_inc_rr_def fetched_def mem_w_alt set16_defs\<close>)

lemma exec_inc_hl:
  assumes "is_inc_rr d 2" "\<not> is_indexed d"
  shows "exec_block env (d # ds) c = exec_block env ds (set_hl (reg_hl c + 1) (fetched d c))"
proof (rule exec_op_block [of Z80_OP_INC_RR])
  show "exec_op Z80_OP_INC_RR env d (reg_pc c) (reg_q c) (c\<lparr>reg_pc := reg_pc c + ucast (dbytes d), reg_q := 0\<rparr>) = Next ((set_hl (reg_hl c + 1) (fetched d c))\<lparr>insn_count := insn_count c\<rparr>)"
    using assms by (auto simp: fetched_def op_inc_rr_def is_indexed_def read_rr_def write_rr_def set16_defs dec_counter put_cnt_def cnt_of_def is_inc_rr_def intro!: z80_cpu.equality)
qed (use assms in \<open>simp_all add: is_uncond_ender_def is_cond_ender_def is_inc_rr_def fetched_def mem_w_alt set16_defs\<close>)

lemma exec_inc_de:
  assumes "is_inc_rr d 1"
  shows "exec_block env (d # ds) c = exec_block env ds (set_de (reg_de c + 1) (fetched d c))"
proof (rule exec_op_block [of Z80_OP_INC_RR])
  show "exec_op Z80_OP_INC_RR env d (reg_pc c) (reg_q c) (c\<lparr>reg_pc := reg_pc c + ucast (dbytes d), reg_q := 0\<rparr>) = Next ((set_de (reg_de c + 1) (fetched d c))\<lparr>insn_count := insn_count c\<rparr>)"
    using assms by (auto simp: fetched_def op_inc_rr_def is_indexed_def read_rr_def write_rr_def set16_defs dec_counter put_cnt_def cnt_of_def is_inc_rr_def intro!: z80_cpu.equality)
qed (use assms in \<open>simp_all add: is_uncond_ender_def is_cond_ender_def is_inc_rr_def fetched_def mem_w_alt set16_defs\<close>)

lemma exec_dec_cnt:
  assumes "dtype d = Z80_OP_DEC_R" "reg1 d \<le> 3"
  shows "exec_block env (d # ds) c = exec_block env ds ((put_cnt (reg1 d) (cnt_of (reg1 d) c - 1) (fetched d c))\<lparr>reg_f := flags_dec (reg_f c) (cnt_of (reg1 d) c - 1), reg_q := 1\<rparr>)"
proof (rule exec_op_block [of Z80_OP_DEC_R])
  show "exec_op Z80_OP_DEC_R env d (reg_pc c) (reg_q c) (c\<lparr>reg_pc := reg_pc c + ucast (dbytes d), reg_q := 0\<rparr>) = Next (((put_cnt (reg1 d) (cnt_of (reg1 d) c - 1) (fetched d c))\<lparr>reg_f := flags_dec (reg_f c) (cnt_of (reg1 d) c - 1), reg_q := 1\<rparr>)\<lparr>insn_count := insn_count c\<rparr>)"
    using assms by (auto simp: fetched_def op_inc_rr_def is_indexed_def read_rr_def write_rr_def set16_defs dec_counter put_cnt_def cnt_of_def intro!: z80_cpu.equality)
qed (use assms in \<open>simp_all add: is_uncond_ender_def is_cond_ender_def is_inc_rr_def fetched_def put_cnt_def\<close>)

lemma quietI:
  assumes "\<And>c ds. exec_block env (d # ds) c = exec_block env ds (f c)" "\<And>c. profile_counts (f c) = profile_counts c"
    "\<And>c. reg_pc (f c) = reg_pc c + ucast (dbytes d)" "\<And>c. cmem (f c) = cmem c"
  shows "quiet env d"
  unfolding quiet_def using assms by metis

lemma quiet_inc: "is_inc_rr d 2 \<or> is_inc_rr d 1 \<Longrightarrow> \<not> is_indexed d \<Longrightarrow> quiet env d"
proof (elim disjE)
  assume d: "is_inc_rr d 2" "\<not> is_indexed d"
  show "quiet env d" by (rule quietI, rule exec_inc_hl [OF d]) (simp_all add: fetched_def set16_defs)
next
  assume d: "is_inc_rr d 1" "\<not> is_indexed d"
  show "quiet env d" by (rule quietI, rule exec_inc_de [OF d(1)]) (simp_all add: fetched_def set16_defs)
qed

lemma quiet_dec: "dtype d = Z80_OP_DEC_R \<Longrightarrow> reg1 d \<le> 3 \<Longrightarrow> quiet env d"
  by (rule quietI, rule exec_dec_cnt, assumption, assumption) (simp_all add: fetched_def put_cnt_def)

lemma straight_dtype:
  "dtype d \<in> {Z80_OP_LD_R_R, Z80_OP_INC_RR, Z80_OP_DEC_R, Z80_OP_LD_A_DE, Z80_OP_LD_DE_A} \<Longrightarrow> straight d"
  by (auto simp: straight_def is_uncond_ender_def is_cond_ender_def)

subsection \<open>Fill\<close>

definition fill_body :: "u16 \<Rightarrow> u8 \<Rightarrow> bool \<Rightarrow> z80_decoded list \<Rightarrow> bool" where
  "fill_body head r jp body \<longleftrightarrow> (\<exists>d0 d1 d2 br. body = [d0, d1, d2, br] \<and> \<not> is_indexed d0 \<and> \<not> is_indexed d1 \<and>
     dtype d0 = Z80_OP_LD_R_R \<and> reg1 d0 = 6 \<and> reg2 d0 = 7 \<and> is_inc_rr d1 2 \<and> dtype d2 = Z80_OP_DEC_R \<and> reg1 d2 = r \<and> r \<le> 3 \<and>
     closes head (head + ucast (dbytes d0) + ucast (dbytes d1) + ucast (dbytes d2)) jp br)"

definition fill_pass :: "u16 \<Rightarrow> u16 \<Rightarrow> u8 \<Rightarrow> bool \<Rightarrow> 'h z80_cpu \<Rightarrow> 'h z80_cpu" where
  "fill_pass head exit r jp c =
     (let v = cnt_of r c - 1
      in (put_cnt r v (set_hl (reg_hl c + 1) (z80_mem_w c (reg_hl c) (reg_a c))))
         \<lparr>reg_f := flags_dec (reg_f c) v, reg_q := 0, reg_pc := if v \<noteq> 0 then head else exit,
          memptr := if jp \<or> v \<noteq> 0 then head else memptr c, insn_count := insn_count c + 4\<rparr>)"

lemma straight_types:
  "\<not> is_uncond_ender Z80_OP_LD_R_R" "\<not> is_cond_ender Z80_OP_LD_R_R" "\<not> is_uncond_ender Z80_OP_INC_RR" "\<not> is_cond_ender Z80_OP_INC_RR"
  "\<not> is_uncond_ender Z80_OP_DEC_R" "\<not> is_cond_ender Z80_OP_DEC_R" "\<not> is_uncond_ender Z80_OP_LD_A_DE" "\<not> is_cond_ender Z80_OP_LD_A_DE"
  "\<not> is_uncond_ender Z80_OP_LD_DE_A" "\<not> is_cond_ender Z80_OP_LD_DE_A"
  by (simp_all add: is_uncond_ender_def is_cond_ender_def)

lemma put_cnt_fields [simp]:
  "reg_f (put_cnt r v c) = reg_f c" "reg_pc (put_cnt r v c) = reg_pc c" "insn_count (put_cnt r v c) = insn_count c"
  "memptr (put_cnt r v c) = memptr c" "cmem (put_cnt r v c) = cmem c" "reg_a (put_cnt r v c) = reg_a c"
  "cdbt (put_cnt r v c) = cdbt c" "reg_hl (put_cnt r v c) = reg_hl c" "cnt_of r (put_cnt r v c) = v"
  by (simp_all add: put_cnt_def cnt_of_def reg16_defs)

lemma put_cnt_updates:
  "(put_cnt r v c)\<lparr>reg_pc := x\<rparr> = put_cnt r v (c\<lparr>reg_pc := x\<rparr>)" "(put_cnt r v c)\<lparr>reg_q := q\<rparr> = put_cnt r v (c\<lparr>reg_q := q\<rparr>)"
  "(put_cnt r v c)\<lparr>insn_count := n\<rparr> = put_cnt r v (c\<lparr>insn_count := n\<rparr>)" "(put_cnt r v c)\<lparr>cmem := m\<rparr> = put_cnt r v (c\<lparr>cmem := m\<rparr>)"
  "(put_cnt r v c)\<lparr>cdbt := d\<rparr> = put_cnt r v (c\<lparr>cdbt := d\<rparr>)" "(put_cnt r v c)\<lparr>reg_f := q\<rparr> = put_cnt r v (c\<lparr>reg_f := q\<rparr>)"
  "(put_cnt r v c)\<lparr>memptr := x\<rparr> = put_cnt r v (c\<lparr>memptr := x\<rparr>)" "(put_cnt r v c)\<lparr>reg_a := q\<rparr> = put_cnt r v (c\<lparr>reg_a := q\<rparr>)"
  "set_hl x (put_cnt r v c) = put_cnt r v (set_hl x c)" "put_cnt r v (put_cnt r w c) = put_cnt r v c"
  by (simp_all add: put_cnt_def set16_defs)

lemma fill_exec:
  assumes "fill_body head r jp body" "reg_pc c = head" "\<not> is_jp_trap_target (cpm_traps_enabled env) head"
  shows "exec_block env body c = Next (fill_pass head (head + body_bytes body) r jp c)"
proof -
  obtain d0 d1 d2 br where b: "body = [d0, d1, d2, br]" "\<not> is_indexed d0" "\<not> is_indexed d1"
    "dtype d0 = Z80_OP_LD_R_R" "reg1 d0 = 6" "reg2 d0 = 7" "is_inc_rr d1 2"
    "dtype d2 = Z80_OP_DEC_R" "reg1 d2 = r" "r \<le> 3"
    "closes head (head + ucast (dbytes d0) + ucast (dbytes d1) + ucast (dbytes d2)) jp br"
    using assms(1) unfolding fill_body_def by blast
  note ops = exec_ld_hl_a [OF b(4-6,2)] exec_inc_hl [OF b(7,3)] exec_dec_cnt [OF b(8), unfolded b(9), OF b(10)]
  define c2 where "c2 = set_hl (reg_hl c + 1) (fetched d1 (z80_mem_w (fetched d0 c) (reg_hl c) (reg_a c)))"
  define c3 where "c3 = (put_cnt r (cnt_of r c - 1) (fetched d2 c2))\<lparr>reg_f := flags_dec (reg_f c) (cnt_of r c - 1), reg_q := 1\<rparr>"
  have hl: "reg_hl (z80_mem_w (fetched d0 c) (reg_hl c) (reg_a c)) = reg_hl c" "reg_f c2 = reg_f c" "cnt_of r c2 = cnt_of r c"
    by (simp_all add: c2_def fetched_def mem_w_alt set16_defs cnt_of_def)
  have e: "exec_block env body c = exec_block env [br] c3"
    by (simp only: b(1) ops hl c2_def [symmetric] c3_def)
  have pc: "reg_pc c3 = head + ucast (dbytes d0) + ucast (dbytes d1) + ucast (dbytes d2)"
    using assms(2) by (simp add: c3_def c2_def fetched_def set16_defs mem_w_alt)
  show ?thesis
    unfolding e exec_block_branch [OF b(11) [folded pc] assms(3)] pc
    by (simp add: c3_def c2_def fetched_def fill_pass_def flags_dec_bits mem_w_alt body_bytes_def b(1) put_cnt_updates Let_def add.assoc)
      (auto simp: set16_defs intro!: arg_cong [of _ _ "put_cnt r _"] z80_cpu.equality)
qed

text \<open>The state after \<open>n\<close> passes.\<close>

text \<open>While memory holds the loop and the byte at HL is not part of it, a pass is four interpreter steps.\<close>

lemma fill_steps:
  assumes fb: "fill_body head r jp body" and pc: "reg_pc c = head" and nt: "\<not> is_jp_trap_target (cpm_traps_enabled env) head"
    and c: "profile_counts c = None" "code_at (cmem c) head body" and out: "\<And>j. j < code_bytes body \<Longrightarrow> reg_hl c \<noteq> head + of_nat j"
  shows "z80_steps env 4 c = fill_pass head (head + body_bytes body) r jp c"
proof -
  obtain d0 d1 d2 br where b: "body = [d0, d1, d2, br]" "\<not> is_indexed d0" "\<not> is_indexed d1"
    "dtype d0 = Z80_OP_LD_R_R" "reg1 d0 = 6" "reg2 d0 = 7" "is_inc_rr d1 2"
    "dtype d2 = Z80_OP_DEC_R" "reg1 d2 = r" "r \<le> 3"
    using fb unfolding fill_body_def by blast
  have "z80_steps env (length body) c = fill_pass head (head + body_bytes body) r jp c"
  proof (rule pass_steps [where ws = "[d0]" and qs = "[d1, d2]" and br = br and a = "reg_hl c" and v = "reg_a c"])
    show "body = [d0] @ [d1, d2] @ [br]" by (simp add: b)
    show "straight d" if "d \<in> set ([d0] @ [d1, d2])" for d
      using that b by (auto intro!: straight_dtype simp: is_inc_rr_def)
    show "quiet env d" if "d \<in> set [d1, d2]" for d
      using that b quiet_inc [of d1] quiet_dec [of d2] by auto
    show "\<exists>x. exec_block env (take k [d0]) c = Next x \<and> profile_counts x = profile_counts c \<and>
        reg_pc x = reg_pc c + body_bytes (take k [d0]) \<and> (cmem x = cmem c \<or> cmem x = (cmem c) (reg_hl c := reg_a c))"
      if "k \<le> length [d0]" for k
      using exec_ld_hl_a [OF b(4-6,2), of env "[]" c]
      by (cases k) (simp_all add: body_bytes_def fetched_def mem_w_alt)
    show "exec_block env body c = Next (fill_pass head (head + body_bytes body) r jp c)"
      by (rule fill_exec [OF fb pc nt])
  qed (use c pc out in simp_all)
  moreover have "length body = 4" by (simp add: b(1))
  ultimately show ?thesis by simp
qed

definition fill_end :: "u16 \<Rightarrow> u16 \<Rightarrow> u8 \<Rightarrow> bool \<Rightarrow> nat \<Rightarrow> 'h z80_cpu \<Rightarrow> 'h z80_cpu" where
  "fill_end head exit r jp n c =
     (put_cnt r 0 (set_hl (reg_hl c + of_nat n) c))
       \<lparr>cmem := fill_loop (reg_hl c) n (reg_a c) (cmem c), cdbt := None, reg_f := flags_dec (reg_f c) 0, reg_q := 0, reg_pc := exit,
        memptr := if jp \<or> 2 \<le> n then head else memptr c, insn_count := insn_count c + 4 * of_nat n\<rparr>"

lemma fill_loop_first: "fill_loop dst (Suc n) v mem = fill_loop (dst + 1) n v (mem (dst := v))"
proof -
  have "fold (\<lambda>i mem. mem (dst + of_nat i := v)) [0..<Suc n] mem =
      fold (\<lambda>i mem. mem (dst + of_nat i := v)) (map Suc [0..<n]) (mem (dst := v))"
    by (simp only: upt_conv_Cons [of 0 "Suc n"] map_Suc_upt) simp
  then show ?thesis by (simp add: fill_loop_def fold_map comp_def add.assoc)
qed

lemma fill_pass_simps:
  "reg_pc (fill_pass head exit r jp c) = (if cnt_of r c = 1 then exit else head)"
  "cnt_of r (fill_pass head exit r jp c) = cnt_of r c - 1"
  by (auto simp: fill_pass_def Let_def put_cnt_def cnt_of_def)

lemma fill_last: "cnt_of r c = 1 \<Longrightarrow> guest (fill_pass head exit r jp c) = fill_end head exit r jp 1 c"
  by (simp add: fill_pass_def fill_end_def guest_def fill_loop_def mem_w_alt put_cnt_def set16_defs Let_def)

lemma fill_more:
  assumes "cnt_of r c = of_nat (Suc n)" "1 \<le> n" "n < 256"
  shows "fill_end head exit r jp n (fill_pass head exit r jp c) = fill_end head exit r jp (Suc n) c"
proof -
  have v: "cnt_of r c - 1 = of_nat n" "(of_nat n :: u8) \<noteq> 0"
    using assms by (auto simp: word_of_nat_eq_0_iff dest: dvd_imp_le)
  show ?thesis
    unfolding fill_pass_def v(1) Let_def
    using v(2) assms(2)
    by (simp add: fill_end_def fill_loop_first flags_dec_bits mem_w_alt put_cnt_updates)
      (simp add: set16_defs add.assoc algebra_simps)
qed

subsection \<open>Copy\<close>

definition copy_ld :: "bool \<Rightarrow> z80_decoded \<Rightarrow> z80_decoded \<Rightarrow> bool" where
  "copy_ld dir x y \<longleftrightarrow>
     (if dir then dtype x = Z80_OP_LD_A_DE \<and> dtype y = Z80_OP_LD_R_R \<and> reg1 y = 6 \<and> reg2 y = 7
      else dtype x = Z80_OP_LD_R_R \<and> reg1 x = 7 \<and> reg2 x = 6 \<and> dtype y = Z80_OP_LD_DE_A)"

definition copy_incs :: "z80_decoded \<Rightarrow> z80_decoded \<Rightarrow> bool" where
  "copy_incs a b \<longleftrightarrow> is_inc_rr a 2 \<and> is_inc_rr b 1 \<or> is_inc_rr a 1 \<and> is_inc_rr b 2"

definition copy_body :: "u16 \<Rightarrow> u8 \<Rightarrow> bool \<Rightarrow> bool \<Rightarrow> z80_decoded list \<Rightarrow> bool" where
  "copy_body head r dir jp body \<longleftrightarrow> (\<exists>x y a b d br. body = [x, y, a, b, d, br] \<and> 
     \<not> is_indexed x \<and> \<not> is_indexed y \<and> \<not> is_indexed a \<and> \<not> is_indexed b \<and>
     copy_ld dir x y \<and> copy_incs a b \<and> dtype d = Z80_OP_DEC_R \<and> reg1 d = r \<and> r \<le> 1 \<and>
     closes head (head + ucast (dbytes x) + ucast (dbytes y) + ucast (dbytes a) + ucast (dbytes b) + ucast (dbytes d)) jp br)"

definition copy_src :: "bool \<Rightarrow> 'h z80_cpu \<Rightarrow> u16" where
  "copy_src dir c = (if dir then reg_de c else reg_hl c)"

definition copy_dst :: "bool \<Rightarrow> 'h z80_cpu \<Rightarrow> u16" where
  "copy_dst dir c = (if dir then reg_hl c else reg_de c)"

text \<open>One byte copied, with the MEMPTR the loads leave.\<close>

definition copy_byte :: "bool \<Rightarrow> 'h z80_cpu \<Rightarrow> 'h z80_cpu" where
  "copy_byte dir c =
     (let v = cmem c (copy_src dir c)
      in (z80_mem_w c (copy_dst dir c) v)\<lparr>reg_a := v, memptr := if dir then reg_de c + 1 else mk16 v (lo8 (reg_de c + 1))\<rparr>)"

definition copy_pass :: "u16 \<Rightarrow> u16 \<Rightarrow> u8 \<Rightarrow> bool \<Rightarrow> bool \<Rightarrow> 'h z80_cpu \<Rightarrow> 'h z80_cpu" where
  "copy_pass head exit r dir jp c =
     (let v = cnt_of r c - 1; c1 = set_de (reg_de c + 1) (set_hl (reg_hl c + 1) (copy_byte dir c))
      in (put_cnt r v c1)\<lparr>reg_f := flags_dec (reg_f c) v, reg_q := 0, reg_pc := if v \<noteq> 0 then head else exit,
          memptr := if jp \<or> v \<noteq> 0 then head else memptr c1, insn_count := insn_count c + 6\<rparr>)"

lemma exec_copy_ld:
  assumes "copy_ld dir x y" "\<not> is_indexed x" "\<not> is_indexed y"
  shows "exec_block env (x # y # ds) c = exec_block env ds (fetched y (fetched x (copy_byte dir c)))"
proof (cases dir)
  case True
  then have "exec_block env (x # y # ds) c = exec_block env ds (z80_mem_w (fetched y ((fetched x c)\<lparr>reg_a := cmem c (reg_de c), memptr := reg_de c + 1\<rparr>))
      (reg_hl c) (cmem c (reg_de c)))"
    using assms by (subst exec_ld_a_de) (simp_all add: copy_ld_def exec_ld_hl_a fetched_def del: exec_block.simps)
  also have "z80_mem_w (fetched y ((fetched x c)\<lparr>reg_a := cmem c (reg_de c), memptr := reg_de c + 1\<rparr>)) (reg_hl c) (cmem c (reg_de c)) =
      fetched y (fetched x (copy_byte dir c))"
    using True by (auto simp: copy_byte_def copy_src_def copy_dst_def fetched_def mem_w_alt Let_def intro!: z80_cpu.equality)
  finally show ?thesis .
next
  case False
  then have "exec_block env (x # y # ds) c = exec_block env ds ((z80_mem_w (fetched y ((fetched x c)\<lparr>reg_a := cmem c (reg_hl c)\<rparr>))
      (reg_de c) (cmem c (reg_hl c)))\<lparr>memptr := mk16 (cmem c (reg_hl c)) (lo8 (reg_de c + 1))\<rparr>)"
    using assms by (subst exec_ld_a_hl) (simp_all add: copy_ld_def exec_ld_de_a fetched_def del: exec_block.simps)
  also have "(z80_mem_w (fetched y ((fetched x c)\<lparr>reg_a := cmem c (reg_hl c)\<rparr>)) (reg_de c) (cmem c (reg_hl c)))
        \<lparr>memptr := mk16 (cmem c (reg_hl c)) (lo8 (reg_de c + 1))\<rparr> =
      fetched y (fetched x (copy_byte dir c))"
    using False by (auto simp: copy_byte_def copy_src_def copy_dst_def fetched_def mem_w_alt Let_def intro!: z80_cpu.equality)
  finally show ?thesis .
qed

lemma exec_copy_incs:
  assumes "copy_incs a b" "\<not> is_indexed a" "\<not> is_indexed b"
  shows "exec_block env (a # b # ds) c = exec_block env ds (fetched b (fetched a (set_de (reg_de c + 1) (set_hl (reg_hl c + 1) c))))"
proof -
  from assms(1) have "exec_block env (a # b # ds) c = exec_block env ds (set_de (reg_de c + 1) (fetched b (set_hl (reg_hl c + 1) (fetched a c)))) \<or>
      exec_block env (a # b # ds) c = exec_block env ds (set_hl (reg_hl c + 1) (fetched b (set_de (reg_de c + 1) (fetched a c))))"
    unfolding copy_incs_def
    using exec_inc_hl [OF _ assms(2), of env "b # ds" c] exec_inc_de [of b env ds "set_hl (reg_hl c + 1) (fetched a c)"]
      exec_inc_de [of a env "b # ds" c] exec_inc_hl [OF _ assms(3), of env ds "set_de (reg_de c + 1) (fetched a c)"]
    by (auto simp: fetched_def reg16_defs set16_defs simp del: exec_block.simps)
  moreover have "set_de (reg_de c + 1) (fetched b (set_hl (reg_hl c + 1) (fetched a c))) = fetched b (fetched a (set_de (reg_de c + 1) (set_hl (reg_hl c + 1) c)))"
    "set_hl (reg_hl c + 1) (fetched b (set_de (reg_de c + 1) (fetched a c))) = fetched b (fetched a (set_de (reg_de c + 1) (set_hl (reg_hl c + 1) c)))"
    by (auto simp: fetched_def set16_defs intro!: z80_cpu.equality)
  ultimately show ?thesis by metis
qed

lemma copy_exec:
  assumes "copy_body head r dir jp body" "reg_pc c = head" "\<not> is_jp_trap_target (cpm_traps_enabled env) head"
  shows "exec_block env body c = Next (copy_pass head (head + body_bytes body) r dir jp c)"
proof -
  obtain x y a b d br where b: "body = [x, y, a, b, d, br]" "\<not> is_indexed x" "\<not> is_indexed y" "\<not> is_indexed a" "\<not> is_indexed b"
    "copy_ld dir x y" "copy_incs a b" "dtype d = Z80_OP_DEC_R" "reg1 d = r" "r \<le> 1"
    "closes head (head + ucast (dbytes x) + ucast (dbytes y) + ucast (dbytes a) + ucast (dbytes b) + ucast (dbytes d)) jp br"
    using assms(1) unfolding copy_body_def by blast
  have "(1 :: u8) \<le> 3" by simp
  with b(10) have r3: "r \<le> 3" by (rule order.trans)
  define c1 where "c1 = fetched y (fetched x (copy_byte dir c))"
  define c2 where "c2 = fetched b (fetched a (set_de (reg_de c1 + 1) (set_hl (reg_hl c1 + 1) c1)))"
  define c3 where "c3 = (put_cnt r (cnt_of r c2 - 1) (fetched d c2))\<lparr>reg_f := flags_dec (reg_f c2) (cnt_of r c2 - 1), reg_q := 1\<rparr>"
  have e: "exec_block env body c = exec_block env [br] c3"
    unfolding b(1) exec_copy_ld [OF b(6,2,3)] exec_copy_incs [OF b(7,4,5)] c1_def [symmetric] c2_def [symmetric]
      exec_dec_cnt [OF b(8), unfolded b(9), OF r3] c3_def ..
  have u: "reg_de c1 = reg_de c" "reg_hl c1 = reg_hl c" "reg_f c2 = reg_f c" "cnt_of r c2 = cnt_of r c" "reg_pc c2 = head + ucast (dbytes x) + ucast (dbytes y) + ucast (dbytes a) + ucast (dbytes b)"
    using assms(2) u8_le1 [OF b(10)] by (auto simp: c2_def c1_def copy_byte_def fetched_def mem_w_alt set16_defs cnt_of_def Let_def)
  then have pc: "reg_pc c3 = head + ucast (dbytes x) + ucast (dbytes y) + ucast (dbytes a) + ucast (dbytes b) + ucast (dbytes d)"
    by (simp add: c3_def fetched_def)
  show ?thesis
    unfolding e exec_block_branch [OF b(11) [folded pc] assms(3)] pc
    unfolding c3_def u(3,4) unfolding c2_def u(1,2) unfolding c1_def
    by (simp add: fetched_def copy_pass_def copy_byte_def flags_dec_bits mem_w_alt body_bytes_def b(1) put_cnt_updates Let_def add.assoc)
      (auto simp: set16_defs intro!: arg_cong [of _ _ "put_cnt r _"] z80_cpu.equality)
qed

lemma copy_steps:
  assumes cb: "copy_body head r dir jp body" and pc: "reg_pc c = head" and nt: "\<not> is_jp_trap_target (cpm_traps_enabled env) head"
    and c: "profile_counts c = None" "code_at (cmem c) head body" and out: "\<And>j. j < code_bytes body \<Longrightarrow> copy_dst dir c \<noteq> head + of_nat j"
  shows "z80_steps env 6 c = copy_pass head (head + body_bytes body) r dir jp c"
proof -
  obtain x y a b d br where b: "body = [x, y, a, b, d, br]" "\<not> is_indexed x" "\<not> is_indexed y" "\<not> is_indexed a" "\<not> is_indexed b"
    "copy_ld dir x y" "copy_incs a b" "dtype d = Z80_OP_DEC_R" "reg1 d = r" "r \<le> 1"
    using cb unfolding copy_body_def by blast
  have "(1 :: u8) \<le> 3" by simp
  with b(9,10) have r3: "reg1 d \<le> 3" by (metis order.trans)
  let ?v = "cmem c (copy_src dir c)"
  have one: "\<exists>s. exec_block env [x] c = Next s \<and> profile_counts s = profile_counts c \<and>
      reg_pc s = reg_pc c + ucast (dbytes x) \<and> cmem s = cmem c"
    using b(2,6) exec_ld_a_de [of x env "[]" c] exec_ld_a_hl [of x env "[]" c]
    by (auto simp: copy_ld_def fetched_def simp del: exec_block.simps(2) split: if_splits)
  have two: "\<exists>s. exec_block env [x, y] c = Next s \<and> profile_counts s = profile_counts c \<and>
      reg_pc s = reg_pc c + (ucast (dbytes x) + ucast (dbytes y)) \<and> cmem s = (cmem c) (copy_dst dir c := ?v)"
    using exec_copy_ld [OF b(6,2,3), of env "[]" c]
    by (simp del: exec_block.simps(2) add: fetched_def copy_byte_def mem_w_alt Let_def add.assoc)
  have "z80_steps env (length body) c = copy_pass head (head + body_bytes body) r dir jp c"
  proof (rule pass_steps [where ws = "[x, y]" and qs = "[a, b, d]" and br = br and a = "copy_dst dir c" and v = ?v])
    show "body = [x, y] @ [a, b, d] @ [br]" by (simp add: b)
    show "straight e" if "e \<in> set ([x, y] @ [a, b, d])" for e
      using that b(6-8) by (auto intro!: straight_dtype simp: is_inc_rr_def copy_ld_def copy_incs_def split: if_splits)
    show "quiet env e" if "e \<in> set [a, b, d]" for e
      using that b(4,5,7,8) r3 quiet_inc [of a] quiet_inc [of b] quiet_dec [of d] by (auto simp: copy_incs_def)
    show "\<exists>s. exec_block env (take k [x, y]) c = Next s \<and> profile_counts s = profile_counts c \<and>
        reg_pc s = reg_pc c + body_bytes (take k [x, y]) \<and> (cmem s = cmem c \<or> cmem s = (cmem c) (copy_dst dir c := ?v))"
      if "k \<le> length [x, y]" for k
    proof -
      from that have "k = 0 \<or> k = 1 \<or> k = 2" by auto
      then show ?thesis
        using one two by (elim disjE) (auto simp: body_bytes_def simp del: exec_block.simps(2))
    qed
    show "exec_block env body c = Next (copy_pass head (head + body_bytes body) r dir jp c)"
      by (rule copy_exec [OF cb pc nt])
  qed (use c pc out in simp_all)
  moreover have "length body = 6" by (simp add: b(1))
  ultimately show ?thesis by simp
qed

definition copy_end :: "u16 \<Rightarrow> u16 \<Rightarrow> u8 \<Rightarrow> bool \<Rightarrow> bool \<Rightarrow> nat \<Rightarrow> 'h z80_cpu \<Rightarrow> 'h z80_cpu" where
  "copy_end head exit r dir jp n c =
     (let (mem, v) = copy_loop of_nat (copy_src dir c) (copy_dst dir c) n (cmem c) (reg_a c); de = reg_de c + of_nat n
      in (put_cnt r 0 (set_de de (set_hl (reg_hl c + of_nat n) c)))
       \<lparr>cmem := mem, cdbt := None, reg_a := v, reg_f := flags_dec (reg_f c) 0, reg_q := 0, reg_pc := exit,
        memptr := if jp then head else if dir then de else mk16 v (lo8 de), insn_count := insn_count c + 6 * of_nat n\<rparr>)"

lemma copy_pass_simps:
  "reg_pc (copy_pass head exit r dir jp c) = (if cnt_of r c = 1 then exit else head)"
  "cnt_of r (copy_pass head exit r dir jp c) = cnt_of r c - 1"
  by (auto simp: copy_pass_def Let_def put_cnt_def cnt_of_def)

lemma copy_last: "cnt_of r c = 1 \<Longrightarrow> guest (copy_pass head exit r dir jp c) = copy_end head exit r dir jp 1 c"
  by (simp add: copy_pass_def copy_end_def guest_def copy_loop_last copy_byte_def mem_w_alt put_cnt_updates Let_def)
    (auto simp: set16_defs copy_src_def copy_dst_def intro!: arg_cong [of _ _ "put_cnt r _"] z80_cpu.equality)

lemma put_cnt_de:
  "r \<le> 1 \<Longrightarrow> set_de x (put_cnt r v c) = put_cnt r v (set_de x c)" "r \<le> 1 \<Longrightarrow> reg_de (put_cnt r v c) = reg_de c"
  using u8_le1 [of r] by (auto simp: put_cnt_def set16_defs reg16_defs)

lemma copy_more:
  assumes "cnt_of r c = of_nat (Suc n)" "1 \<le> n" "n < 256" "r \<le> 1"
  shows "copy_end head exit r dir jp n (copy_pass head exit r dir jp c) = copy_end head exit r dir jp (Suc n) c"
proof -
  have v: "cnt_of r c - 1 = of_nat n" "(of_nat n :: u8) \<noteq> 0"
    using assms by (auto simp: word_of_nat_eq_0_iff dest: dvd_imp_le)
  let ?p = "copy_pass head exit r dir jp c" and ?v = "cmem c (copy_src dir c)"
  have p: "copy_src dir ?p = copy_src dir c + 1" "copy_dst dir ?p = copy_dst dir c + 1" "reg_a ?p = ?v"
    "cmem ?p = (cmem c)(copy_dst dir c := ?v)" "reg_de ?p = reg_de c + 1" "reg_hl ?p = reg_hl c + 1"
    using assms(4) by (simp_all add: copy_pass_def copy_byte_def copy_src_def copy_dst_def mem_w_alt Let_def put_cnt_de)
      (simp add: set16_defs)
  have l: "copy_loop of_nat (copy_src dir c) (copy_dst dir c) (Suc n) (cmem c) (reg_a c) =
      copy_loop of_nat (copy_src dir c + 1) (copy_dst dir c + 1) n ((cmem c)(copy_dst dir c := ?v)) ?v"
    by (rule copy_loop_first) simp
  obtain mem w where mw: "copy_loop of_nat (copy_src dir c + 1) (copy_dst dir c + 1) n ((cmem c)(copy_dst dir c := ?v)) ?v = (mem, w)"
    by fastforce
  show ?thesis
    unfolding copy_end_def l p mw
    unfolding copy_pass_def v(1) Let_def
    by (simp add: copy_byte_def flags_dec_bits mem_w_alt put_cnt_updates put_cnt_de [OF assms(4)] Let_def add.assoc)
      (auto simp: set16_defs algebra_simps intro!: arg_cong [of _ _ "put_cnt r _"] z80_cpu.equality)
qed

section \<open>What the scan and the recognisers give\<close>

lemma block_ok_nth: "block_ok traps ports ops \<Longrightarrow> k < length ops \<Longrightarrow> can_translate traps ports (fst (ops ! k)) (snd (ops ! k))"
proof (induction ops arbitrary: k)
  case (Cons op ops)
  then show ?case by (cases op; cases k) auto
qed simp

lemma chained_nth:
  "chained mem pc ops \<Longrightarrow> Suc k < length ops \<Longrightarrow> snd (ops ! Suc k) = snd (ops ! k) + ucast (dbytes (fst (ops ! Suc k)))"
proof (induction mem pc ops arbitrary: k rule: chained.induct)
  case (2 mem pc d pa ops)
  then show ?case by (cases k; cases ops) auto
qed simp

lemma scan_ok: "translate_scan traps ports mem pc = Some ops \<Longrightarrow> block_ok traps ports ops"
  using scan_block_ok by (auto simp: translate_scan_def Let_def split: if_splits)

lemma not_indexed_nth:
  assumes "\<not> list_ex is_indexed (take m (drop i decs))" "k < m" "i + k < length decs"
  shows "\<not> is_indexed (decs ! (i + k))"
proof -
  have "take m (drop i decs) ! k = decs ! (i + k)" "k < length (take m (drop i decs))" using assms(2,3) by simp_all
  then show ?thesis using assms(1) by (metis list_ex_length)
qed

lemma spec_fields:
  fixes r :: u8
  assumes "r \<le> 3" "spec = ucast r OR (if dir then 0x100 else 0) OR (if jp then 0 else 0x200)"
  shows "(spec :: u32) AND 7 = ucast r" "spec AND 0x200 = 0 \<longleftrightarrow> jp" "drop_bit 8 spec AND 1 \<noteq> 0 \<longleftrightarrow> dir"
  using u8_le3 [OF assms(1)] unfolding assms(2) by (elim disjE; cases dir; cases jp; simp)+

lemma counter_fields:
  assumes "r \<le> 3"
  shows "counter_reg c (ucast r) = Some (cnt_of r c)" "counter_put c (ucast r) v = put_cnt r v c"
  using u8_le3 [OF assms] by (auto simp: counter_reg_def counter_put_def cnt_of_def put_cnt_def)

lemma guest_sweep [simp]: "guest (cpu_sweep c a n) = guest c"
  by (simp add: guest_def cpu_sweep_def)

lemma ft_dec_flags: "(f AND Z80_FLAG_C) OR ft_dec_0 = flags_dec f 0"
  using result_tables(4) [of f "\<lparr>z80_f_tables = \<lambda>_. 0, z80_daa_table = \<lambda>_. 0, z80_add16_table = \<lambda>_. 0\<rparr>" 0]
  by (simp add: ft_dec_0_def)

definition passes :: "u8 \<Rightarrow> nat" where
  "passes v = (if v \<noteq> 0 then unat v else 256)"

lemma passes_range: "1 \<le> passes v" "passes v \<le> 256" "of_nat (passes v) = v"
proof -
  have "unat v < 256" by simp
  then have "unat v \<le> 256" by linarith
  then show "1 \<le> passes v" "passes v \<le> 256" "of_nat (passes v) = v"
    by (simp_all add: passes_def unat_gt_0 Suc_le_eq)
qed

lemma fill_kind:
  assumes "copyfill_kind decs afters i = Some (len, spec, True)" "i < length decs"
  obtains r jp where "len = 4" "i + 3 < length decs" "r \<le> 3" "spec = ucast r OR (if jp then 0 else 0x200)"
    "\<not> is_indexed (decs ! i)" "\<not> is_indexed (decs ! (i + 1))"
    "dtype (decs ! i) = Z80_OP_LD_R_R" "reg1 (decs ! i) = 6" "reg2 (decs ! i) = 7" "is_inc_rr (decs ! (i + 1)) 2"
    "dtype (decs ! (i + 2)) = Z80_OP_DEC_R" "reg1 (decs ! (i + 2)) = r" "dcc (decs ! (i + 3)) = 0"
    "if jp then dtype (decs ! (i + 3)) = Z80_OP_JP_CC_NN \<and> imm16 (decs ! (i + 3)) = afters ! i - ucast (dbytes (decs ! i))
     else dtype (decs ! (i + 3)) = Z80_OP_JR_CC_E \<and>
       afters ! (i + 3) + sext (ddisp (decs ! (i + 3))) = afters ! i - ucast (dbytes (decs ! i))"
proof -
  from assms(1) have x: "\<not> list_ex is_indexed (take 6 (drop i decs))"
    by (auto simp: copyfill_kind_def Let_def split: if_splits)
  from assms(1) have sh: "copyfill_shape decs i = Some (False, 4)"
    by (auto simp: copyfill_kind_def copyfill_shape_def Let_def split: if_splits)
  then have s: "i + 3 < length decs" "dtype (decs ! i) = Z80_OP_LD_R_R" "reg1 (decs ! i) = 6" "reg2 (decs ! i) = 7"
    by (auto simp: copyfill_shape_def Let_def split: if_splits)
  let ?dec = "decs ! (i + 2)" and ?br = "decs ! (i + 3)"
  let ?jp = "dtype ?br = Z80_OP_JP_CC_NN \<and> imm16 ?br = afters ! i - ucast (dbytes (decs ! i))"
  let ?jr = "dtype ?br = Z80_OP_JR_CC_E \<and> afters ! (i + 3) + sext (ddisp ?br) = afters ! i - ucast (dbytes (decs ! i))"
  have ix: "i + 1 + 1 = i + 2" "i + 2 + 1 = i + 3" "((4 :: nat) = 6) = False" by simp_all
  have "copyfill_kind decs afters i =
      (if \<not> is_inc_rr (decs ! (i + 1)) 2 \<or> dtype ?dec \<noteq> Z80_OP_DEC_R \<or> reg1 ?dec > 3 \<or> dcc ?br \<noteq> 0 then None
       else if ?jp \<or> ?jr then Some (4, ucast (reg1 ?dec) OR 0 OR (if ?jp then 0 else 0x200), True) else None)"
    unfolding copyfill_kind_def Let_def sh using x by (simp only: option.case prod.case if_False simp_thms ix)
  with assms(1) have e: "len = 4" "is_inc_rr (decs ! (i + 1)) 2" "dtype ?dec = Z80_OP_DEC_R" "reg1 ?dec \<le> 3" "dcc ?br = 0"
    "?jp \<or> ?jr" "spec = ucast (reg1 ?dec) OR (if ?jp then 0 else 0x200)"
    by (auto simp: not_less split: if_splits)
  show thesis
    by (rule that [of "reg1 ?dec" ?jp]) (use e s not_indexed_nth [OF x, of 0] not_indexed_nth [OF x, of 1] in auto)
qed

lemma fill_helper:
  assumes "r \<le> 3" "spec = ucast r OR (if jp then 0 else 0x200)"
  shows "\<exists>c. z80_jit_loop_fill cpu spec head = Some c \<and>
    guest (c\<lparr>reg_pc := exit, insn_count := insn_count c + 4\<rparr>) = fill_end head exit r jp (passes (cnt_of r cpu)) cpu"
proof -
  note f = spec_fields [OF assms(1), of spec False jp] counter_fields [OF assms(1)]
  have sp: "spec AND 7 = ucast r" "spec AND 0x200 = 0 \<longleftrightarrow> jp" using f(1,2) assms(2) by simp_all
  have p: "(if cnt_of r cpu \<noteq> 0 then unat (cnt_of r cpu) else 256) = passes (cnt_of r cpu)" by (simp add: passes_def)
  show ?thesis
    unfolding z80_jit_loop_fill_def sp f(4) option.case Let_def p
    by (simp add: cpu_sweep_def guest_def loop_epilogue_def f(5) fill_end_def put_cnt_updates ft_dec_flags Let_def)
      (auto simp: set16_defs algebra_simps intro!: arg_cong [of _ _ "put_cnt r 0"] z80_cpu.equality)
qed

lemma body_pcs:
  assumes "translate_scan traps ports mem start = Some ops" "i + k < length ops"
    "head = snd (ops ! i) - ucast (dbytes (fst (ops ! i)))"
  shows "snd (ops ! (i + k)) = head + body_bytes (take (Suc k) (drop i (map fst ops)))"
  using assms(2)
proof (induction k)
  case 0
  then have "take (Suc 0) (drop i (map fst ops)) = [fst (ops ! i)]"
    by (simp add: take_Suc_conv_app_nth drop_map)
  then show ?case using assms(3) by (simp add: body_bytes_def)
next
  case (Suc k)
  have "take (Suc (Suc k)) (drop i (map fst ops)) = take (Suc k) (drop i (map fst ops)) @ [fst (ops ! (i + Suc k))]"
    using Suc.prems by (subst take_Suc_conv_app_nth) simp_all
  then show ?case
    using Suc chained_nth [OF scan_some(3) [OF assms(1)], of "i + k"] by (simp add: body_bytes_def add.assoc)
qed

lemma chained_lengths: "chained mem pc ops \<Longrightarrow> d \<in> set (map fst ops) \<Longrightarrow> 1 \<le> unat (dbytes d) \<and> unat (dbytes d) \<le> 8"
  by (induction mem pc ops rule: chained.induct) (use decode_length_bounds in fastforce)+

lemma loop_head_no_trap:
  assumes "translate_scan traps ports mem start = Some ops" "k < length ops" "d = fst (ops ! k)"
    "dtype d = Z80_OP_JP_CC_NN \<and> imm16 d = head \<or> dtype d = Z80_OP_JR_CC_E \<and> snd (ops ! k) + sext (ddisp d) = head"
  shows "\<not> is_jp_trap_target traps head"
  using block_ok_nth [OF scan_ok [OF assms(1)] assms(2)] assms(3,4) by (auto simp: can_translate_def Let_def)

text \<open>What a pass needs: profiling is off, memory holds the loop, and the \<open>n\<close> bytes still to be stored are not part
  of it.\<close>

definition loop_inv :: "('h z80_cpu \<Rightarrow> u16) \<Rightarrow> u16 \<Rightarrow> z80_decoded list \<Rightarrow> nat \<Rightarrow> 'h z80_cpu \<Rightarrow> bool" where
  "loop_inv dst head body n c \<longleftrightarrow> profile_counts c = None \<and> code_at (cmem c) head body \<and>
     (\<forall>j < n. \<forall>k < code_bytes body. dst c + of_nat j \<noteq> head + of_nat k)"

lemma loop_invD:
  "loop_inv dst head body n c \<Longrightarrow> j < n \<Longrightarrow> k < code_bytes body \<Longrightarrow> dst c + of_nat j \<noteq> head + of_nat k"
  by (simp add: loop_inv_def)

lemma loop_inv_now: "loop_inv dst head body (Suc n) c \<Longrightarrow> k < code_bytes body \<Longrightarrow> dst c \<noteq> head + of_nat k"
  using loop_invD [of dst head body "Suc n" c 0 k] by simp

lemma loop_inv_keep:
  assumes "loop_inv dst head body (Suc n) c" "profile_counts c' = profile_counts c" "cmem c' = (cmem c) (dst c := v)" "dst c' = dst c + 1"
  shows "loop_inv dst head body n c'"
proof -
  have "dst c' + of_nat j \<noteq> head + of_nat k" if "j < n" "k < code_bytes body" for j k
  proof -
    have "dst c + of_nat (Suc j) \<noteq> head + of_nat k" using that by (intro loop_invD [OF assms(1)]) simp_all
    then show ?thesis by (simp add: assms(4) add.assoc)
  qed
  moreover have "code_at (cmem c') head body"
    using assms(1,3) loop_inv_now [OF assms(1)] by (auto simp: loop_inv_def intro: code_at_store)
  ultimately show ?thesis using assms(1,2) by (simp add: loop_inv_def)
qed

lemma fill_pass_frame:
  "profile_counts (fill_pass head exit r jp c) = profile_counts c" "reg_hl (fill_pass head exit r jp c) = reg_hl c + 1"
  "cmem (fill_pass head exit r jp c) = (cmem c) (reg_hl c := reg_a c)"
  by (simp_all add: fill_pass_def Let_def mem_w_alt) (simp_all add: put_cnt_def set16_defs mem_w_alt)

lemma run_fill:
  assumes "fill_body head r jp body" "\<not> is_jp_trap_target (cpm_traps_enabled env) head" "reg_pc cpu = head"
    "loop_inv reg_hl head body (passes (cnt_of r cpu)) cpu"
  shows "guest (z80_steps env (passes (cnt_of r cpu) * 4) cpu) = fill_end head (head + body_bytes body) r jp (passes (cnt_of r cpu)) cpu"
proof (rule steps_counted [where pass = "fill_pass head (head + body_bytes body) r jp" and cnt = "cnt_of r" and exit = "head + body_bytes body"
      and I = "loop_inv reg_hl head body"])
  show "z80_steps env 4 c = fill_pass head (head + body_bytes body) r jp c" if "reg_pc c = head" "loop_inv reg_hl head body (Suc n) c" for n c
    using loop_inv_now [OF that(2)] that(2) by (intro fill_steps [OF assms(1) that(1) assms(2)]) (simp_all add: loop_inv_def)
  show "loop_inv reg_hl head body n (fill_pass head (head + body_bytes body) r jp c)" if "loop_inv reg_hl head body (Suc n) c" for n c
    by (rule loop_inv_keep [OF that]) (rule fill_pass_frame)+
  show "guest (fill_pass head (head + body_bytes body) r jp c) = fill_end head (head + body_bytes body) r jp 1 c" if "cnt_of r c = 1" for c
    by (rule fill_last [OF that])
  show "fill_end head (head + body_bytes body) r jp n (fill_pass head (head + body_bytes body) r jp c) =
      fill_end head (head + body_bytes body) r jp (Suc n) c"
    if "cnt_of r c = of_nat (Suc n)" "1 \<le> n" "n < 256" for c n by (rule fill_more [OF that])
qed (simp_all add: assms(3,4) fill_pass_simps passes_range passes_range(1) [simplified])

text \<open>The range a folded loop stores to.\<close>

definition loop_dst :: "bool \<Rightarrow> u32 \<Rightarrow> 'h z80_cpu \<Rightarrow> u16" where
  "loop_dst is_fill spec cpu = (if is_fill \<or> drop_bit 8 spec AND 1 \<noteq> 0 then reg_hl cpu else reg_de cpu)"

definition loop_passes :: "u32 \<Rightarrow> 'h z80_cpu \<Rightarrow> nat" where
  "loop_passes spec cpu = (case counter_reg cpu (spec AND 7) of Some cnt \<Rightarrow> (if cnt = 0 then 256 else unat cnt) | None \<Rightarrow> 0)"

lemma loop_passes_eq: "counter_reg cpu (spec AND 7) = Some cnt \<Longrightarrow> loop_passes spec cpu = passes cnt"
  by (simp add: loop_passes_def passes_def)

text \<open>What the translator scanned is what memory holds.\<close>

lemma chained_decode:
  "chained mem pc ops \<Longrightarrow> k < length ops \<Longrightarrow>
   z80_decode_one mem (snd (ops ! k) - ucast (dbytes (fst (ops ! k)))) = fst (ops ! k) \<and> dbytes (fst (ops ! k)) \<noteq> 0"
proof (induction mem pc ops arbitrary: k rule: chained.induct)
  case (2 mem pc d pa ops)
  then show ?case by (cases k) auto
qed simp

lemma scan_code_at:
  assumes "translate_scan traps ports mem start = Some ops" "i + len \<le> length ops"
    "head = snd (ops ! i) - ucast (dbytes (fst (ops ! i)))"
  shows "code_at mem head (take len (drop i (map fst ops)))"
  unfolding code_at_def
proof (intro allI impI)
  fix k assume "k < length (take len (drop i (map fst ops)))"
  then have k: "k < len" "i + k < length ops" using assms(2) by simp_all
  have "take (Suc k) (drop i (map fst ops)) = take k (drop i (map fst ops)) @ [fst (ops ! (i + k))]"
    using k(2) by (subst take_Suc_conv_app_nth) simp_all
  then have "snd (ops ! (i + k)) - ucast (dbytes (fst (ops ! (i + k)))) = head + body_bytes (take k (drop i (map fst ops)))"
    using body_pcs [OF assms(1) k(2) assms(3)] by (simp add: body_bytes_def)
  with chained_decode [OF scan_some(3) [OF assms(1)] k(2)]
  have "z80_decode_one mem (head + body_bytes (take k (drop i (map fst ops)))) = fst (ops ! (i + k)) \<and> dbytes (fst (ops ! (i + k))) \<noteq> 0"
    by simp
  then show "z80_decode_one mem (head + body_bytes (take k (take len (drop i (map fst ops))))) = take len (drop i (map fst ops)) ! k \<and>
      dbytes (take len (drop i (map fst ops)) ! k) \<noteq> 0"
    using k by (simp add: min_def)
qed

text \<open>The conditions of \<open>folded_copyfill_loop\<close> below give the invariant.\<close>

lemma loop_inv_start:
  assumes "translate_scan traps ports mem start = Some ops" "i + k < length ops" "len = Suc k"
    "reg_pc cpu = snd (ops ! i) - ucast (dbytes (fst (ops ! i)))" "profile_counts cpu = None"
    "\<And>j. j < unat (snd (ops ! (i + k)) - reg_pc cpu) \<Longrightarrow> cmem cpu (reg_pc cpu + of_nat j) = mem (reg_pc cpu + of_nat j)"
    "\<And>j m. j < n \<Longrightarrow> m < unat (snd (ops ! (i + k)) - reg_pc cpu) \<Longrightarrow> dst cpu + of_nat j \<noteq> reg_pc cpu + of_nat m"
  shows "loop_inv dst (reg_pc cpu) (take len (drop i (map fst ops))) n cpu"
proof -
  let ?ds = "take len (drop i (map fst ops))"
  have set: "set ?ds \<subseteq> set (map fst ops)" by (meson order_trans set_drop_subset set_take_subset)
  have "unat (dbytes d) \<le> 8" if "d \<in> set ?ds" for d
    using chained_lengths [OF scan_some(3) [OF assms(1)]] that set by blast
  then have "code_bytes ?ds \<le> sum_list (map (\<lambda>d. 8) ?ds)" unfolding code_bytes_def by (rule sum_list_mono)
  also have "\<dots> \<le> 8 * 64" using scan_some(2) [OF assms(1)] by (simp add: sum_list_triv)
  finally have "unat (of_nat (code_bytes ?ds) :: u16) = code_bytes ?ds" by (intro unat_of_nat_u16) simp
  moreover have "snd (ops ! (i + k)) - reg_pc cpu = of_nat (code_bytes ?ds)"
    using body_pcs [OF assms(1,2,4)] assms(3) by (simp add: body_bytes_code)
  ultimately have u: "unat (snd (ops ! (i + k)) - reg_pc cpu) = code_bytes ?ds" by simp
  have "code_at (cmem cpu) (reg_pc cpu) ?ds"
    using scan_code_at [OF assms(1) _ assms(4), of len] assms(2,3,6) unfolding u by (auto intro: code_at_local)
  then show ?thesis using assms(5,7) unfolding loop_inv_def u by blast
qed

lemma fill_folded:
  fixes env :: "'h z80_env"
  assumes "translate_scan (cpm_traps_enabled env) ports mem start = Some ops" "i < length ops"
    "copyfill_kind (map fst ops) (map snd ops) i = Some (len, spec, True)"
    "reg_pc cpu = snd (ops ! i) - ucast (dbytes (fst (ops ! i)))"
    "profile_counts cpu = None"
    "\<And>j. j < unat (snd (ops ! (i + len - 1)) - reg_pc cpu) \<Longrightarrow> cmem cpu (reg_pc cpu + of_nat j) = mem (reg_pc cpu + of_nat j)"
    "\<And>j m. j < loop_passes spec cpu \<Longrightarrow> m < unat (snd (ops ! (i + len - 1)) - reg_pc cpu) \<Longrightarrow>
      loop_dst True spec cpu + of_nat j \<noteq> reg_pc cpu + of_nat m"
  shows "\<exists>c. z80_jit_loop_fill cpu spec (reg_pc cpu) = Some c \<and>
    guest (z80_steps env (loop_passes spec cpu * len) cpu) =
      guest (c\<lparr>reg_pc := snd (ops ! (i + len - 1)), insn_count := insn_count c + of_nat len\<rparr>)"
proof -
  obtain r jp where k: "len = 4" "i + 3 < length ops" "r \<le> 3" "spec = ucast r OR (if jp then 0 else 0x200)"
    "\<not> is_indexed (map fst ops ! i)" "\<not> is_indexed (map fst ops ! (i + 1))"
    "dtype (map fst ops ! i) = Z80_OP_LD_R_R" "reg1 (map fst ops ! i) = 6" "reg2 (map fst ops ! i) = 7" "is_inc_rr (map fst ops ! (i + 1)) 2"
    "dtype (map fst ops ! (i + 2)) = Z80_OP_DEC_R" "reg1 (map fst ops ! (i + 2)) = r" "dcc (map fst ops ! (i + 3)) = 0"
    "if jp then dtype (map fst ops ! (i + 3)) = Z80_OP_JP_CC_NN \<and> imm16 (map fst ops ! (i + 3)) = map snd ops ! i - ucast (dbytes (map fst ops ! i))
     else dtype (map fst ops ! (i + 3)) = Z80_OP_JR_CC_E \<and>
       map snd ops ! (i + 3) + sext (ddisp (map fst ops ! (i + 3))) = map snd ops ! i - ucast (dbytes (map fst ops ! i))"
    by (rule fill_kind [OF assms(3)]) (use assms(2) in auto)
  let ?body = "take len (drop i (map fst ops))" and ?head = "reg_pc cpu"
  have body: "?body = [fst (ops ! i), fst (ops ! (i + 1)), fst (ops ! (i + 2)), fst (ops ! (i + 3))]"
    using k(1,2) by (simp add: numeral_eq_Suc take_Suc_conv_app_nth)
  note pcs = body_pcs [OF assms(1) _ assms(4)]
  have "snd (ops ! (i + 3)) = ?head + ucast (dbytes (fst (ops ! i))) + ucast (dbytes (fst (ops ! (i + 1)))) + ucast (dbytes (fst (ops ! (i + 2)))) +
      ucast (dbytes (fst (ops ! (i + 3))))"
    using pcs [OF k(2)] body k(1) by (simp add: body_bytes_def add.assoc)
  then have fb: "fill_body ?head r jp ?body"
    unfolding fill_body_def body closes_def using k assms(2,4) by (cases jp) (simp_all add: add.assoc)
  have nt: "\<not> is_jp_trap_target (cpm_traps_enabled env) ?head"
    using loop_head_no_trap [OF assms(1) k(2) refl, of ?head] k(14) assms(2,4) k(2) by (simp split: if_splits)
  have b: "?body = take (Suc 3) (drop i (map fst ops))" "i + len - 1 = i + 3" using k(1) by simp_all
  note f = spec_fields [OF k(3), of spec False jp] counter_fields [OF k(3)]
  have lp: "loop_passes spec cpu = passes (cnt_of r cpu)"
    by (rule loop_passes_eq) (use f k(4) in simp)
  have ld: "loop_dst True spec cpu = reg_hl cpu"
    by (simp add: loop_dst_def)
  have inv: "loop_inv reg_hl ?head ?body (passes (cnt_of r cpu)) cpu"
    using assms(6,7) unfolding b(2) lp ld by (rule loop_inv_start [OF assms(1) k(2) _ assms(4,5), rotated]) (simp_all add: k(1))
  note run = run_fill [OF fb nt refl inv]
  obtain c where c: "z80_jit_loop_fill cpu spec ?head = Some c"
    "guest (c\<lparr>reg_pc := snd (ops ! (i + 3)), insn_count := insn_count c + 4\<rparr>) =
      fill_end ?head (snd (ops ! (i + 3))) r jp (passes (cnt_of r cpu)) cpu"
    using fill_helper [OF k(3,4), of cpu ?head "snd (ops ! (i + 3))"] by blast
  have "guest (z80_steps env (loop_passes spec cpu * len) cpu) =
      guest (c\<lparr>reg_pc := snd (ops ! (i + len - 1)), insn_count := insn_count c + of_nat len\<rparr>)"
    using run c(2) pcs [OF k(2)] lp unfolding b by (simp add: k(1))
  with c(1) show ?thesis by blast
qed

lemma copy_kind:
  assumes "copyfill_kind decs afters i = Some (len, spec, False)" "i < length decs"
  obtains r dir jp where "len = 6" "i + 5 < length decs" "r \<le> 1" "spec = ucast r OR (if dir then 0x100 else 0) OR (if jp then 0 else 0x200)"
    "\<not> is_indexed (decs ! i)" "\<not> is_indexed (decs ! (i + 1))" "\<not> is_indexed (decs ! (i + 2))" "\<not> is_indexed (decs ! (i + 3))"
    "copy_ld dir (decs ! i) (decs ! (i + 1))" "copy_incs (decs ! (i + 2)) (decs ! (i + 3))"
    "dtype (decs ! (i + 4)) = Z80_OP_DEC_R" "reg1 (decs ! (i + 4)) = r" "dcc (decs ! (i + 5)) = 0"
    "if jp then dtype (decs ! (i + 5)) = Z80_OP_JP_CC_NN \<and> imm16 (decs ! (i + 5)) = afters ! i - ucast (dbytes (decs ! i))
     else dtype (decs ! (i + 5)) = Z80_OP_JR_CC_E \<and>
       afters ! (i + 5) + sext (ddisp (decs ! (i + 5))) = afters ! i - ucast (dbytes (decs ! i))"
proof -
  from assms(1) have x: "\<not> list_ex is_indexed (take 6 (drop i decs))"
    by (auto simp: copyfill_kind_def Let_def split: if_splits)
  from assms(1) obtain dir where sh: "copyfill_shape decs i = Some (dir, 6)"
    by (auto simp: copyfill_kind_def copyfill_shape_def Let_def split: if_splits)
  then have s: "i + 5 < length decs" "copy_ld dir (decs ! i) (decs ! (i + 1))"
    by (auto simp: copyfill_shape_def copy_ld_def Let_def split: if_splits)
  let ?dec = "decs ! (i + 4)" and ?br = "decs ! (i + 5)"
  let ?jp = "dtype ?br = Z80_OP_JP_CC_NN \<and> imm16 ?br = afters ! i - ucast (dbytes (decs ! i))"
  let ?jr = "dtype ?br = Z80_OP_JR_CC_E \<and> afters ! (i + 5) + sext (ddisp ?br) = afters ! i - ucast (dbytes (decs ! i))"
  have ix: "i + 2 + 1 = i + 3" "i + 2 + 2 = i + 4" "i + 4 + 1 = i + 5" "((6 :: nat) = 4) = False" by simp_all
  have "copyfill_kind decs afters i =
      (if \<not> copy_incs (decs ! (i + 2)) (decs ! (i + 3)) \<or> dtype ?dec \<noteq> Z80_OP_DEC_R \<or> reg1 ?dec > 1 \<or> dcc ?br \<noteq> 0 then None
       else if ?jp \<or> ?jr then Some (6, ucast (reg1 ?dec) OR (if dir then 0x100 else 0) OR (if ?jp then 0 else 0x200), False) else None)"
    unfolding copyfill_kind_def Let_def sh copy_incs_def using x by (simp only: option.case prod.case if_False if_True simp_thms ix)
  with assms(1) have e: "len = 6" "copy_incs (decs ! (i + 2)) (decs ! (i + 3))" "dtype ?dec = Z80_OP_DEC_R" "reg1 ?dec \<le> 1" "dcc ?br = 0"
    "?jp \<or> ?jr" "spec = ucast (reg1 ?dec) OR (if dir then 0x100 else 0) OR (if ?jp then 0 else 0x200)"
    by (auto simp: not_less split: if_splits)
  show thesis
    by (rule that [of "reg1 ?dec" dir ?jp])
      (use e s not_indexed_nth [OF x, of 0] not_indexed_nth [OF x, of 1] not_indexed_nth [OF x, of 2] not_indexed_nth [OF x, of 3] in auto)
qed

lemma copy_helper:
  assumes "r \<le> 1" "spec = ucast r OR (if dir then 0x100 else 0) OR (if jp then 0 else 0x200)"
  shows "\<exists>c. z80_jit_loop_copy cpu spec head = Some c \<and>
    guest (c\<lparr>reg_pc := exit, insn_count := insn_count c + 6\<rparr>) = copy_end head exit r dir jp (passes (cnt_of r cpu)) cpu"
proof -
  have "(1 :: u8) \<le> 3" by simp
  with assms(1) have r3: "r \<le> 3" by (rule order.trans)
  note f = spec_fields [OF r3 assms(2)] counter_fields [OF r3]
  have p: "(if cnt_of r cpu \<noteq> 0 then unat (cnt_of r cpu) else 256) = passes (cnt_of r cpu)" by (simp add: passes_def)
  obtain mem v where mv: "copy_loop of_nat (copy_src dir cpu) (copy_dst dir cpu) (passes (cnt_of r cpu)) (cmem cpu) (reg_a cpu) = (mem, v)"
    by fastforce
  show ?thesis
    unfolding z80_jit_loop_copy_def f option.case Let_def p copy_src_def [symmetric] copy_dst_def [symmetric] mv prod.case
    by (simp add: cpu_sweep_def guest_def loop_epilogue_def f(5) copy_end_def mv put_cnt_updates ft_dec_flags Let_def)
      (auto simp: set16_defs algebra_simps intro!: arg_cong [of _ _ "put_cnt r 0"] z80_cpu.equality)
qed

lemma copy_pass_frame:
  "profile_counts (copy_pass head exit r dir jp c) = profile_counts c"
  "cmem (copy_pass head exit r dir jp c) = (cmem c) (copy_dst dir c := cmem c (copy_src dir c))"
  "r \<le> 1 \<Longrightarrow> copy_dst dir (copy_pass head exit r dir jp c) = copy_dst dir c + 1"
  by (simp_all add: copy_pass_def copy_byte_def copy_src_def copy_dst_def mem_w_alt Let_def put_cnt_de)
    (simp_all add: put_cnt_def set16_defs)

lemma run_copy:
  assumes "copy_body head r dir jp body" "\<not> is_jp_trap_target (cpm_traps_enabled env) head" "reg_pc cpu = head"
    "loop_inv (copy_dst dir) head body (passes (cnt_of r cpu)) cpu"
  shows "guest (z80_steps env (passes (cnt_of r cpu) * 6) cpu) = copy_end head (head + body_bytes body) r dir jp (passes (cnt_of r cpu)) cpu"
proof (rule steps_counted [where pass = "copy_pass head (head + body_bytes body) r dir jp" and cnt = "cnt_of r" and exit = "head + body_bytes body"
      and I = "loop_inv (copy_dst dir) head body"])
  have r: "r \<le> 1" using assms(1) by (auto simp: copy_body_def)
  show "z80_steps env 6 c = copy_pass head (head + body_bytes body) r dir jp c" if "reg_pc c = head" "loop_inv (copy_dst dir) head body (Suc n) c" for n c
    using loop_inv_now [OF that(2)] that(2) by (intro copy_steps [OF assms(1) that(1) assms(2)]) (simp_all add: loop_inv_def)
  show "loop_inv (copy_dst dir) head body n (copy_pass head (head + body_bytes body) r dir jp c)" if "loop_inv (copy_dst dir) head body (Suc n) c" for n c
    by (rule loop_inv_keep [OF that copy_pass_frame(1,2) copy_pass_frame(3) [OF r]])
  show "guest (copy_pass head (head + body_bytes body) r dir jp c) = copy_end head (head + body_bytes body) r dir jp 1 c" if "cnt_of r c = 1" for c
    by (rule copy_last [OF that])
  show "copy_end head (head + body_bytes body) r dir jp n (copy_pass head (head + body_bytes body) r dir jp c) =
      copy_end head (head + body_bytes body) r dir jp (Suc n) c"
    if "cnt_of r c = of_nat (Suc n)" "1 \<le> n" "n < 256" for c n using that r by (rule copy_more)
qed (simp_all add: assms(3,4) copy_pass_simps passes_range passes_range(1) [simplified])

lemma copy_folded:
  fixes env :: "'h z80_env"
  assumes "translate_scan (cpm_traps_enabled env) ports mem start = Some ops" "i < length ops"
    "copyfill_kind (map fst ops) (map snd ops) i = Some (len, spec, False)"
    "reg_pc cpu = snd (ops ! i) - ucast (dbytes (fst (ops ! i)))"
    "profile_counts cpu = None"
    "\<And>j. j < unat (snd (ops ! (i + len - 1)) - reg_pc cpu) \<Longrightarrow> cmem cpu (reg_pc cpu + of_nat j) = mem (reg_pc cpu + of_nat j)"
    "\<And>j m. j < loop_passes spec cpu \<Longrightarrow> m < unat (snd (ops ! (i + len - 1)) - reg_pc cpu) \<Longrightarrow>
      loop_dst False spec cpu + of_nat j \<noteq> reg_pc cpu + of_nat m"
  shows "\<exists>c. z80_jit_loop_copy cpu spec (reg_pc cpu) = Some c \<and>
    guest (z80_steps env (loop_passes spec cpu * len) cpu) =
      guest (c\<lparr>reg_pc := snd (ops ! (i + len - 1)), insn_count := insn_count c + of_nat len\<rparr>)"
proof -
  obtain r dir jp where k: "len = 6" "i + 5 < length ops" "r \<le> 1" "spec = ucast r OR (if dir then 0x100 else 0) OR (if jp then 0 else 0x200)"
    "\<not> is_indexed (map fst ops ! i)" "\<not> is_indexed (map fst ops ! (i + 1))" "\<not> is_indexed (map fst ops ! (i + 2))" "\<not> is_indexed (map fst ops ! (i + 3))"
    "copy_ld dir (map fst ops ! i) (map fst ops ! (i + 1))" "copy_incs (map fst ops ! (i + 2)) (map fst ops ! (i + 3))"
    "dtype (map fst ops ! (i + 4)) = Z80_OP_DEC_R" "reg1 (map fst ops ! (i + 4)) = r" "dcc (map fst ops ! (i + 5)) = 0"
    "if jp then dtype (map fst ops ! (i + 5)) = Z80_OP_JP_CC_NN \<and> imm16 (map fst ops ! (i + 5)) = map snd ops ! i - ucast (dbytes (map fst ops ! i))
     else dtype (map fst ops ! (i + 5)) = Z80_OP_JR_CC_E \<and>
       map snd ops ! (i + 5) + sext (ddisp (map fst ops ! (i + 5))) = map snd ops ! i - ucast (dbytes (map fst ops ! i))"
    by (rule copy_kind [OF assms(3)]) (use assms(2) in auto)
  let ?body = "take len (drop i (map fst ops))" and ?head = "reg_pc cpu"
  have body: "?body = [fst (ops ! i), fst (ops ! (i + 1)), fst (ops ! (i + 2)), fst (ops ! (i + 3)), fst (ops ! (i + 4)), fst (ops ! (i + 5))]"
    using k(1,2) by (simp add: numeral_eq_Suc take_Suc_conv_app_nth)
  note pcs = body_pcs [OF assms(1) _ assms(4)]
  have b: "?body = take (Suc 5) (drop i (map fst ops))" "i + len - 1 = i + 5" using k(1) by simp_all
  have "snd (ops ! (i + 5)) = ?head + ucast (dbytes (fst (ops ! i))) + ucast (dbytes (fst (ops ! (i + 1)))) + ucast (dbytes (fst (ops ! (i + 2)))) +
      ucast (dbytes (fst (ops ! (i + 3)))) + ucast (dbytes (fst (ops ! (i + 4)))) + ucast (dbytes (fst (ops ! (i + 5))))"
    using pcs [OF k(2)] unfolding b(1) [symmetric] body by (simp add: body_bytes_def add.assoc)
  then have fb: "copy_body ?head r dir jp ?body"
    unfolding copy_body_def body closes_def using k assms(2,4) by (cases jp) (simp_all add: add.assoc)
  have nt: "\<not> is_jp_trap_target (cpm_traps_enabled env) ?head"
    using loop_head_no_trap [OF assms(1) k(2) refl, of ?head] k(14) assms(2,4) k(2) by (simp split: if_splits)
  have "(1 :: u8) \<le> 3" by simp
  with k(3) have r3: "r \<le> 3" by (rule order.trans)
  note f = spec_fields [OF r3 k(4)] counter_fields [OF r3]
  have lp: "loop_passes spec cpu = passes (cnt_of r cpu)"
    by (rule loop_passes_eq) (use f k(4) in simp)
  have ld: "loop_dst False spec cpu = copy_dst dir cpu"
    by (simp add: loop_dst_def copy_dst_def f)
  have inv: "loop_inv (copy_dst dir) ?head ?body (passes (cnt_of r cpu)) cpu"
    using assms(6,7) unfolding b(2) lp ld by (rule loop_inv_start [OF assms(1) k(2) _ assms(4,5), rotated]) (simp_all add: k(1))
  note run = run_copy [OF fb nt refl inv]
  obtain c where c: "z80_jit_loop_copy cpu spec ?head = Some c"
    "guest (c\<lparr>reg_pc := snd (ops ! (i + 5)), insn_count := insn_count c + 6\<rparr>) =
      copy_end ?head (snd (ops ! (i + 5))) r dir jp (passes (cnt_of r cpu)) cpu"
    using copy_helper [OF k(3,4), of cpu ?head "snd (ops ! (i + 5))"] by blast
  have "guest (z80_steps env (loop_passes spec cpu * len) cpu) =
      guest (c\<lparr>reg_pc := snd (ops ! (i + len - 1)), insn_count := insn_count c + of_nat len\<rparr>)"
    using run c(2) pcs [OF k(2)] lp unfolding b by (simp add: k(1))
  with c(1) show ?thesis by blast
qed

text \<open>\<open>LD (HL),A; INC HL; DEC B; JR NZ,0x100; JP 0x200\<close> at 0x100.\<close>

definition fill_mem :: memory where
  "fill_mem a = (if a = 0x100 then 0x77 else if a = 0x101 then 0x23 else if a = 0x102 then 0x05 else if a = 0x103 then 0x20
     else if a = 0x104 then 0xFB else if a = 0x105 then 0xC3 else if a = 0x107 then 2 else 0)"

definition fill_ops :: "(z80_decoded \<times> u16) list" where
  "fill_ops =
     [(zero_decoded\<lparr>dtype := Z80_OP_LD_R_R, dopcode := 0x77, reg1 := 6, reg2 := 7, dbytes := 1\<rparr>, 0x101),
      (zero_decoded\<lparr>dtype := Z80_OP_INC_RR, dopcode := 0x23, reg1 := 2, dbytes := 1\<rparr>, 0x102),
      (zero_decoded\<lparr>dtype := Z80_OP_DEC_R, dopcode := 0x05, dbytes := 1\<rparr>, 0x103),
      (zero_decoded\<lparr>dtype := Z80_OP_JR_CC_E, dopcode := 0x20, ddisp := 0xFB, dbytes := 2\<rparr>, 0x105),
      (zero_decoded\<lparr>dtype := Z80_OP_JP_NN, dopcode := 0xC3, imm16 := 0x200, dbytes := 3\<rparr>, 0x108)]"

lemma fill_scan: "translate_scan True False fill_mem 0x100 = Some fill_ops"
proof -
  have "z80_decode_one fill_mem 0x100 = fst (fill_ops ! 0)" "z80_decode_one fill_mem 0x101 = fst (fill_ops ! 1)"
    "z80_decode_one fill_mem 0x102 = fst (fill_ops ! 2)" "z80_decode_one fill_mem 0x103 = fst (fill_ops ! 3)"
    "z80_decode_one fill_mem 0x105 = fst (fill_ops ! 4)"
    by (simp_all add: z80_decode_one_eq prefix_count_none is_prefix_def decode_tail_def fill_mem_def fill_ops_def
        after_prefixes_def decode_plain_def decode_main_def decode_00_3F_def decode_C0_FF_def decode_default_def
        remap_half_regs_def zero_decoded_def fetch_imm16_def fetch_disp_def op_z_def op_y_def mk16_def)
  moreover obtain n where n: "(64 :: nat) = Suc (Suc (Suc (Suc (Suc n))))"
  proof -
    have "(64 :: nat) = Suc (Suc (Suc (Suc (Suc 59))))" by simp
    then show thesis by (rule that)
  qed
  ultimately show ?thesis
    unfolding translate_scan_def n
    by (simp add: can_translate_def is_uncond_ender_def is_cond_ender_def zero_decoded_def fill_ops_def
        reg8_offset_p_def reg8_offset_def is_jp_trap_target_def is_indexed_def sext_def Let_def)
qed

lemma fill_kind_demo: "copyfill_kind (map fst fill_ops) (map snd fill_ops) 0 = Some (4, 0x200, True)"
  by (simp add: copyfill_kind_def copyfill_shape_def fill_ops_def zero_decoded_def is_indexed_def is_inc_rr_def sext_def Let_def)

section \<open>Properties\<close>

text \<open>C7: A copy or fill loop that the translator recognises in a block and folds into one call of
  \<open>z80_jit_loop_copy\<close> or \<open>z80_jit_loop_fill\<close>: if guest memory still holds the loop's instructions, the range the loop
  stores to does not touch them, and profiling is off, then running the interpreter from the loop's head for as many steps
  as the loop has instructions times the counter (256 for a counter of zero) gives the registers, flags, MEMPTR, memory, PC
  and instruction count of the helper (which the block follows by its exit address and the count of one pass), for
  overlapping source and destination too.  A loop that stores into its own instructions is left out: the helper finishes
  the decoded loop, the interpreter fetches what was stored (\<open>self_fill_differs\<close>).\<close>

theorem folded_copyfill_loop:
  assumes "translate_scan (cpm_traps_enabled env) ports mem start = Some ops" "i < length ops"
    "copyfill_kind (map fst ops) (map snd ops) i = Some (len, spec, is_fill)"
    "reg_pc cpu = snd (ops ! i) - ucast (dbytes (fst (ops ! i)))" "profile_counts cpu = None"
    "\<And>j. j < unat (snd (ops ! (i + len - 1)) - reg_pc cpu) \<Longrightarrow> cmem cpu (reg_pc cpu + of_nat j) = mem (reg_pc cpu + of_nat j)"
    "\<And>j m. j < loop_passes spec cpu \<Longrightarrow> m < unat (snd (ops ! (i + len - 1)) - reg_pc cpu) \<Longrightarrow>
      loop_dst is_fill spec cpu + of_nat j \<noteq> reg_pc cpu + of_nat m"
  shows "\<exists>c. (if is_fill then z80_jit_loop_fill else z80_jit_loop_copy) cpu spec (reg_pc cpu) = Some c \<and>
    guest (z80_steps env (loop_passes spec cpu * len) cpu) =
      guest (c\<lparr>reg_pc := snd (ops ! (i + len - 1)), insn_count := insn_count c + of_nat len\<rparr>)"
  using fill_folded [OF assms(1,2) _ assms(4-6)] copy_folded [OF assms(1,2) _ assms(4-6)] assms(3,7) by (cases is_fill) simp_all

definition fill_cpu :: "unit z80_cpu" where
  "fill_cpu = (z80_cpu_init None ())\<lparr>cmem := fill_mem, reg_pc := 0x100, reg_b := 3, reg_h := 4, reg_a := 9\<rparr>"

theorem folded_copyfill_loop_witness:
  "\<exists>c. (if True then z80_jit_loop_fill else z80_jit_loop_copy) fill_cpu 0x200 (reg_pc fill_cpu) = Some c \<and>
    guest (z80_steps bare_env (loop_passes 0x200 fill_cpu * 4) fill_cpu) =
      guest (c\<lparr>reg_pc := snd (fill_ops ! (0 + 4 - 1)), insn_count := insn_count c + of_nat 4\<rparr>)"
proof (rule folded_copyfill_loop [where mem = fill_mem and start = "0x100" and ports = False])
  have f: "reg_pc fill_cpu = 0x100" "cmem fill_cpu = fill_mem" "profile_counts fill_cpu = None" "reg_hl fill_cpu = 0x400" "reg_b fill_cpu = 3"
    by (simp_all add: fill_cpu_def z80_cpu_init_def zero_cpu_def reg_hl_def mk16_def)
  have "cpm_traps_enabled bare_env = True" by (simp add: bare_env_def)
  then show "translate_scan (cpm_traps_enabled bare_env) False fill_mem 0x100 = Some fill_ops" using fill_scan by simp
  show "0 < length fill_ops" "reg_pc fill_cpu = snd (fill_ops ! 0) - ucast (dbytes (fst (fill_ops ! 0)))"
    by (simp_all add: fill_ops_def f)
  have u: "unat (snd (fill_ops ! (0 + 4 - 1)) - reg_pc fill_cpu) = 5" by (simp add: fill_ops_def f)
  have p: "loop_passes 0x200 fill_cpu = 3" by (simp add: loop_passes_def counter_reg_def f)
  show "loop_dst True 0x200 fill_cpu + of_nat j \<noteq> reg_pc fill_cpu + of_nat m"
    if "j < loop_passes 0x200 fill_cpu" "m < unat (snd (fill_ops ! (0 + 4 - 1)) - reg_pc fill_cpu)" for j m
  proof -
    have jm: "j < 3" "m < 5" using that u p by simp_all
    then have "unat (0x400 + of_nat j :: u16) = 0x400 + j" "unat (0x100 + of_nat m :: u16) = 0x100 + m"
      by (simp_all add: unat_word_ariths unat_of_nat_u16)
    with jm(2) have "unat (0x400 + of_nat j :: u16) \<noteq> unat (0x100 + of_nat m :: u16)" by linarith
    then have "(0x400 + of_nat j :: u16) \<noteq> 0x100 + of_nat m" by metis
    then show ?thesis by (simp only: loop_dst_def f simp_thms if_True not_False_eq_True)
  qed
qed (simp_all add: fill_kind_demo fill_cpu_def z80_cpu_init_def zero_cpu_def)

text \<open>A fill loop that stores into itself: \<open>A = 0\<close>, \<open>HL = 0x100\<close>, \<open>B = 2\<close>.  The interpreter overwrites \<open>LD (HL),A\<close> with a
  \<open>NOP\<close> in its first pass and stores nothing in the second; the helper clears \<open>0x101\<close> as well.\<close>

definition self_cpu :: "unit z80_cpu" where
  "self_cpu = (z80_cpu_init None ())\<lparr>cmem := fill_mem, reg_pc := 0x100, reg_b := 2, reg_h := 1\<rparr>"

text \<open>The state of such a run, and its five kinds of step; \<open>A\<close> is zero throughout.\<close>

definition filling :: "memory \<Rightarrow> u16 \<Rightarrow> u8 \<Rightarrow> u16 \<Rightarrow> 'h z80_cpu \<Rightarrow> bool" where
  "filling m pc b hl c \<longleftrightarrow> cmem c = m \<and> reg_pc c = pc \<and> reg_b c = b \<and> reg_hl c = hl \<and> reg_a c = 0 \<and> profile_counts c = None"

lemmas decode_demo = z80_decode_one_eq prefix_count_none is_prefix_def decode_tail_def after_prefixes_def decode_plain_def
  decode_main_def decode_00_3F_def decode_default_def remap_half_regs_def zero_decoded_def fetch_disp_def op_z_def op_y_def

lemma fill_op_steps:
  assumes "filling m pc b hl c"
  shows "m pc = 0x77 \<Longrightarrow> filling (m (hl := 0)) (pc + 1) b hl (snd (z80_step env c))"
    "m pc = 0x23 \<Longrightarrow> filling m (pc + 1) b (hl + 1) (snd (z80_step env c))"
    "m pc = 0x05 \<Longrightarrow> filling m (pc + 1) (b - 1) hl (snd (z80_step env c)) \<and>
       (reg_f (snd (z80_step env c)) AND Z80_FLAG_Z = 0 \<longleftrightarrow> b \<noteq> 1)"
    "m pc = 0x20 \<Longrightarrow> m (pc + 1) = 0xFB \<Longrightarrow>
       filling m (if reg_f c AND Z80_FLAG_Z = 0 then pc - 3 else pc + 2) b hl (snd (z80_step env c))"
    "m pc = 0 \<Longrightarrow> filling m (pc + 1) b hl (snd (z80_step env c))"
proof -
  note f = assms [unfolded filling_def]
  have [simp]: "reg_hl (x\<lparr>profile_counts := p\<rparr>) = reg_hl x" "reg_hl (x\<lparr>reg_b := v\<rparr>) = reg_hl x" for x :: "'a z80_cpu" and p v
    by (simp_all add: reg_hl_def)
  show "m pc = 0x77 \<Longrightarrow> filling (m (hl := 0)) (pc + 1) b hl (snd (z80_step env c))"
    using f by (simp add: filling_def decode_demo z80_step_def Let_def write_reg8_def read_reg8_def effective_addr_def reg8_ptr_p_def
        reg8_put_p_def is_indexed_def mem_w_alt)
  show "m pc = 0x23 \<Longrightarrow> filling m (pc + 1) b (hl + 1) (snd (z80_step env c))"
    using f by (simp add: filling_def decode_demo z80_step_def Let_def op_inc_rr_def read_rr_def write_rr_def is_indexed_def) (simp add: set16_defs)
  show "m pc = 0x05 \<Longrightarrow> filling m (pc + 1) (b - 1) hl (snd (z80_step env c)) \<and>
       (reg_f (snd (z80_step env c)) AND Z80_FLAG_Z = 0 \<longleftrightarrow> b \<noteq> 1)"
    using f by (simp add: filling_def decode_demo z80_step_def Let_def dec_counter put_cnt_def cnt_of_def flags_dec_bits)
  show "m pc = 0x20 \<Longrightarrow> m (pc + 1) = 0xFB \<Longrightarrow>
       filling m (if reg_f c AND Z80_FLAG_Z = 0 then pc - 3 else pc + 2) b hl (snd (z80_step env c))"
    using f by (simp add: filling_def decode_demo z80_step_def Let_def op_jr_cc_def cond_true_def jump_rel_def sext_def)
  show "m pc = 0 \<Longrightarrow> filling m (pc + 1) b hl (snd (z80_step env c))"
    using f by (simp add: filling_def decode_demo z80_step_def Let_def)
qed

lemma self_fill_differs:
  "\<exists>c. z80_jit_loop_fill self_cpu 0x200 0x100 = Some c \<and> cmem c 0x101 = 0 \<and>
    reg_pc (z80_steps bare_env 8 self_cpu) = 0x105 \<and> cmem (z80_steps bare_env 8 self_cpu) 0x101 = 0x23"
proof -
  let ?s = "\<lambda>n. z80_steps bare_env n self_cpu" and ?m = "fill_mem (0x100 := 0)"
  have s: "?s (Suc n) = snd (z80_step bare_env (?s n))" for n using steps_add [of bare_env n 1 self_cpu] by simp
  note step = fill_op_steps [where env = bare_env]
  have a: "reg_a self_cpu = 0" "reg_hl self_cpu = 0x100" "reg_b self_cpu = 2" "cmem self_cpu = fill_mem"
    by (simp_all add: self_cpu_def z80_cpu_init_def zero_cpu_def reg_hl_def mk16_def)
  have "filling fill_mem 0x100 2 0x100 (?s 0)"
    by (simp add: filling_def a) (simp add: self_cpu_def z80_cpu_init_def zero_cpu_def)
  from step(1) [OF this] have "filling ?m 0x101 2 0x100 (?s (Suc 0))" unfolding s by (simp add: fill_mem_def)
  from step(2) [OF this] have "filling ?m 0x102 2 0x101 (?s (Suc (Suc 0)))" unfolding s by (simp add: fill_mem_def)
  from step(3) [OF this] have f3: "filling ?m 0x103 1 0x101 (?s (Suc (Suc (Suc 0)))) \<and> reg_f (?s (Suc (Suc (Suc 0)))) AND Z80_FLAG_Z = 0"
    unfolding s by (simp add: fill_mem_def)
  from step(4) [OF conjunct1 [OF this]] f3 have "filling ?m 0x100 1 0x101 (?s (Suc (Suc (Suc (Suc 0)))))" unfolding s by (simp add: fill_mem_def)
  from step(5) [OF this] have "filling ?m 0x101 1 0x101 (?s (Suc (Suc (Suc (Suc (Suc 0))))))" unfolding s by (simp add: fill_mem_def)
  from step(2) [OF this] have "filling ?m 0x102 1 0x102 (?s (Suc (Suc (Suc (Suc (Suc (Suc 0)))))))" unfolding s by (simp add: fill_mem_def)
  from step(3) [OF this] have f7: "filling ?m 0x103 0 0x102 (?s (Suc (Suc (Suc (Suc (Suc (Suc (Suc 0)))))))) \<and> reg_f (?s (Suc (Suc (Suc (Suc (Suc (Suc (Suc 0)))))))) AND Z80_FLAG_Z \<noteq> 0"
    unfolding s by (simp add: fill_mem_def)
  from step(4) [OF conjunct1 [OF this]] f7 have "filling ?m 0x105 0 0x102 (?s (Suc (Suc (Suc (Suc (Suc (Suc (Suc (Suc 0)))))))))" unfolding s by (simp add: fill_mem_def)
  then have "reg_pc (?s 8) = 0x105 \<and> cmem (?s 8) 0x101 = 0x23" by (simp add: filling_def numeral_eq_Suc) (simp add: fill_mem_def)
  moreover have "\<exists>c. z80_jit_loop_fill self_cpu 0x200 0x100 = Some c \<and> cmem c 0x101 = 0"
    by (simp add: z80_jit_loop_fill_def counter_reg_def a fill_loop_def Let_def cpu_sweep_def upt_rec)
  ultimately show ?thesis by blast
qed

end
