(* ===== verification/Dbt_Run.thy ===== *)
theory Dbt_Run
  imports Z80_Interp Block_Cache
begin

text \<open>
  The run loop of the translator (\<open>dbt/dbt_common.c\<close>): look up the block at PC, translate it on a miss, enter the
  native code or step the interpreter, and under \<open>-V\<close> run a shadow machine beside it.  The
  back end is a parameter, the record \<open>backend\<close>: \<open>dbt_translate_block\<close>, which reads guest memory and changes the translator's
  state, and the trampoline, which enters native code and may do anything to the machine.  The
  translator's state is the CPU's \<open>cdbt\<close> field.  Host state and profile counters are global in C: the shadow steps on
  the real machine's and leaves them there.  Host events (signals) and the timing samples are left out.
\<close>

section \<open>State\<close>

record 'h backend =
  dbt_translate_block :: "memory \<Rightarrow> z80_dbt \<Rightarrow> u16 \<Rightarrow> u32 option \<times> z80_dbt"
  trampoline :: "u32 \<Rightarrow> 'h z80_cpu \<Rightarrow> 'h z80_cpu"

record 'h dbt_run_state =
  rcpu :: "'h z80_cpu"
  verify :: bool
  shadow_cpu :: "'h z80_cpu option"
  blocks_translated :: u64
  jit_block_entries :: u64
  interp_fallback_insns :: u64
  verify_blocks_checked :: u64

text \<open>One pass of the loop returns from \<open>dbt_run\<close> or goes round again.\<close>

datatype 'h pass = Stop int "'h dbt_run_state" | Again "'h dbt_run_state"

section \<open>Initialisation\<close>

text \<open>\<open>buf\<close> is the mapped code buffer with the trampoline in it, \<open>None\<close> if it cannot be mapped.\<close>

definition zero_dbt :: "code_buffer \<Rightarrow> (u16 \<Rightarrow> u32) option \<Rightarrow> z80_dbt" where
  "zero_dbt buf hist = \<lparr>code_bitmap = \<lambda>_. 0, cache = \<lambda>_. \<lparr>guest_pc = 0, span = 0, native_code = None\<rparr>, link_head = \<lambda>_. 0,
     link_pool = \<lambda>_. \<lparr>site_off = 0, lnext = 0\<rparr>, link_used = 0, link_free = 0, code_buf = buf, cache_hits = 0, cache_misses = 0,
     smc_invalidations = 0, links_created = 0, links_patched = 0, links_unpatched = 0, max_block_bytes = 0, last_block_bytes = 0,
     dbt_smc_hist = hist\<rparr>"

definition dbt_init :: "code_buffer option \<Rightarrow> (u16 \<Rightarrow> u32) option \<Rightarrow> 'h z80_cpu \<Rightarrow> int \<times> 'h z80_cpu" where
  "dbt_init buf hist cpu =
     (case buf of
        None \<Rightarrow> (-1, cpu\<lparr>cdbt := Some (dbt_cache_invalidate_all (zero_dbt (\<lambda>_. 0) hist))\<rparr>)
      | Some b \<Rightarrow> (0, cpu\<lparr>cdbt := Some (dbt_cache_invalidate_all (zero_dbt b hist))\<rparr>))"

section \<open>Shadow verification\<close>

definition cpu_regs_equal :: "'h z80_cpu \<Rightarrow> 'h z80_cpu \<Rightarrow> bool" where
  "cpu_regs_equal a b \<longleftrightarrow>
     reg_af a = reg_af b \<and> reg_bc a = reg_bc b \<and> reg_de a = reg_de b \<and> reg_hl a = reg_hl b \<and>
     mk16 (alt_a a) (alt_f a) = mk16 (alt_a b) (alt_f b) \<and> mk16 (alt_b a) (alt_c a) = mk16 (alt_b b) (alt_c b) \<and>
     mk16 (alt_d a) (alt_e a) = mk16 (alt_d b) (alt_e b) \<and> mk16 (alt_h a) (alt_l a) = mk16 (alt_h b) (alt_l b) \<and>
     reg_ix a = reg_ix b \<and> reg_iy a = reg_iy b \<and> reg_sp a = reg_sp b \<and> reg_pc a = reg_pc b \<and>
     reg_i a = reg_i b \<and> reg_r a = reg_r b \<and> iff1 a = iff1 b \<and> iff2 a = iff2 b \<and> reg_im a = reg_im b \<and>
     reg_q a = reg_q b \<and> memptr a = memptr b"

text \<open>A copy of the machine that never enters translated code and stops at a trap, as a block does.\<close>

definition shadow_of :: "'h z80_cpu \<Rightarrow> 'h z80_cpu" where
  "shadow_of cpu = cpu\<lparr>cdbt := None, defer_traps := 1\<rparr>"

text \<open>The globals of the real machine, seen from the other one.\<close>

definition share :: "'h z80_cpu \<Rightarrow> 'h z80_cpu \<Rightarrow> 'h z80_cpu" where
  "share from cpu = cpu\<lparr>host := host from, profile_counts := profile_counts from\<rparr>"

fun shadow_steps :: "nat \<Rightarrow> 'h z80_env \<Rightarrow> 'h z80_cpu \<Rightarrow> 'h z80_cpu" where
  "shadow_steps 0 env cpu = cpu"
| "shadow_steps (Suc n) env cpu =
     (let (rc, cpu) = z80_step env cpu in if rc \<noteq> 0 then cpu else shadow_steps n env cpu)"

text \<open>Entering a block under \<open>-V\<close>.\<close>

definition run_verified :: "'h backend \<Rightarrow> 'h z80_env \<Rightarrow> u32 \<Rightarrow> 'h z80_cpu \<Rightarrow> 'h dbt_run_state \<Rightarrow> 'h pass" where
  "run_verified be env code sh st =
     (let cpu = rcpu st
      in if \<not> cpu_regs_equal cpu sh \<or> cmem cpu \<noteq> cmem sh then Stop (-1) st
         else
           (let insns_before = insn_count cpu;
                st = st\<lparr>jit_block_entries := jit_block_entries st + 1\<rparr>;
                cpu = trampoline be code cpu;
                jit_insns = insn_count cpu - insns_before;
                sh = shadow_steps (unat jit_insns) env (share cpu sh);
                cpu = share sh cpu;
                st = st\<lparr>rcpu := cpu, shadow_cpu := Some sh, verify_blocks_checked := verify_blocks_checked st + 1\<rparr>
            in if \<not> cpu_regs_equal cpu sh \<or> cmem cpu \<noteq> cmem sh then Stop (-1) st else Again st))"

section \<open>The loop\<close>

text \<open>The block at PC: from the cache, or translated and inserted, refusals too.\<close>

definition find_block :: "'h backend \<Rightarrow> 'h dbt_run_state \<Rightarrow> u32 option \<times> 'h dbt_run_state" where
  "find_block be st =
     (let cpu = rcpu st; pc = reg_pc cpu
      in case cdbt cpu of
           None \<Rightarrow> (None, st)
         | Some dbt \<Rightarrow>
             (case dbt_cache_lookup dbt pc of
                (Some e, dbt) \<Rightarrow> (native_code e, st\<lparr>rcpu := cpu\<lparr>cdbt := Some dbt\<rparr>\<rparr>)
              | (None, dbt) \<Rightarrow>
                  (let (code, dbt) = dbt_translate_block be (cmem cpu) dbt pc;
                       st = st\<lparr>rcpu := cpu\<lparr>cdbt := Some (dbt_cache_insert dbt pc code)\<rparr>\<rparr>
                   in (code, if code \<noteq> None then st\<lparr>blocks_translated := blocks_translated st + 1\<rparr> else st))))"

text \<open>One interpreter step, after which the shadow is a fresh copy.\<close>

definition fall_back :: "'h z80_env \<Rightarrow> 'h dbt_run_state \<Rightarrow> 'h pass" where
  "fall_back env st =
     (let st = st\<lparr>interp_fallback_insns := interp_fallback_insns st + 1\<rparr>;
          (rc, cpu) = z80_step env (rcpu st);
          st = st\<lparr>rcpu := cpu\<rparr>
      in if rc < 0 then Stop (-1) st
         else if rc > 0 then Stop 0 st
         else Again (if verify st then st\<lparr>shadow_cpu := Some (shadow_of cpu)\<rparr> else st))"

definition dbt_pass :: "'h backend \<Rightarrow> 'h z80_env \<Rightarrow> 'h dbt_run_state \<Rightarrow> 'h pass" where
  "dbt_pass be env st =
     (if cpm_traps_enabled env \<and> reg_pc (rcpu st) = 0 \<and> insn_count (rcpu st) > 4 then Stop 0 st
      else if cpm_traps_enabled env \<and> insn_count (rcpu st) > 50000000000 then Stop (-1) st
      else
        (let (code, st) = find_block be st
         in case code of
              None \<Rightarrow> fall_back env st
            | Some code \<Rightarrow>
                (case (verify st, shadow_cpu st) of
                   (True, Some sh) \<Rightarrow> run_verified be env code sh st
                 | _ \<Rightarrow> Again (st\<lparr>jit_block_entries := jit_block_entries st + 1, rcpu := trampoline be code (rcpu st)\<rparr>))))"

text \<open>The first entry under \<open>-V\<close> makes the shadow.\<close>

definition dbt_enter :: "'h dbt_run_state \<Rightarrow> 'h dbt_run_state" where
  "dbt_enter st =
     (if verify st \<and> shadow_cpu st = None then st\<lparr>shadow_cpu := Some (shadow_of (rcpu st))\<rparr> else st)"

text \<open>\<open>dbt_run\<close>: \<open>None\<close> is a guest that never stops.\<close>

partial_function (option) dbt_loop :: "'h backend \<Rightarrow> 'h z80_env \<Rightarrow> 'h dbt_run_state \<Rightarrow> (int \<times> 'h dbt_run_state) option" where
  "dbt_loop be env st = (case dbt_pass be env st of Stop rc st \<Rightarrow> Some (rc, st) | Again st \<Rightarrow> dbt_loop be env st)"

definition dbt_run :: "'h backend \<Rightarrow> 'h z80_env \<Rightarrow> 'h dbt_run_state \<Rightarrow> (int \<times> 'h dbt_run_state) option" where
  "dbt_run be env st = dbt_loop be env (dbt_enter st)"

end
