(* ===== verification/Dbt_Run_Props.thy ===== *)
theory Dbt_Run_Props
  imports Dbt_Run Z80_Interp_Inv
begin

text \<open>
  What \<open>-V\<close> guarantees: as long as the run loop has not stopped, the guest has only seen what the reference
  interpreter would have shown it, whatever the native code does.
\<close>

section \<open>What the guest sees\<close>

text \<open>All that a program can observe of the machine: every register, byte by byte for the pairs, the interrupt
  state, the two hidden registers that leak into the flags (\<open>Q\<close> and \<open>MEMPTR\<close>), and memory.  This is stated
  apart from \<^const>\<open>cpu_regs_equal\<close>, the comparison the run loop makes, so that a register missing there would show.\<close>

definition guest_eq :: "'h z80_cpu \<Rightarrow> 'h z80_cpu \<Rightarrow> bool" where
  "guest_eq x y \<longleftrightarrow>
     (reg_a x, reg_f x, reg_b x, reg_c x, reg_d x, reg_e x, reg_h x, reg_l x) =
       (reg_a y, reg_f y, reg_b y, reg_c y, reg_d y, reg_e y, reg_h y, reg_l y) \<and>
     (alt_a x, alt_f x, alt_b x, alt_c x, alt_d x, alt_e x, alt_h x, alt_l x) =
       (alt_a y, alt_f y, alt_b y, alt_c y, alt_d y, alt_e y, alt_h y, alt_l y) \<and>
     (reg_ix x, reg_iy x, reg_sp x, reg_pc x, reg_i x, reg_r x, memptr x, reg_q x) =
       (reg_ix y, reg_iy y, reg_sp y, reg_pc y, reg_i y, reg_r y, memptr y, reg_q y) \<and>
     (iff1 x, iff2 x, reg_im x) = (iff1 y, iff2 y, reg_im y) \<and>
     (\<forall>addr. cmem x addr = cmem y addr)"


lemma guest_eq_refl [simp]: "guest_eq x x"
  by (simp add: guest_eq_def)


lemma guest_eq_updates [simp]:
  "guest_eq (share f x) y = guest_eq x y" "guest_eq x (share f y) = guest_eq x y"
  "guest_eq (shadow_of x) y = guest_eq x y" "guest_eq x (shadow_of y) = guest_eq x y"
  "guest_eq (x\<lparr>cdbt := d\<rparr>) y = guest_eq x y" "guest_eq x (y\<lparr>cdbt := d\<rparr>) = guest_eq x y"
  by (simp_all add: guest_eq_def share_def shadow_of_def)




section \<open>The lockstep invariant\<close>






section \<open>The whole run\<close>









end
