(* ===== verification/Cpm_Fs.thy ===== *)
theory Cpm_Fs
  imports Z80_Prelude
begin

text \<open>
  What the CP/M layer uses of the C library and the host's file system.  A file is its bytes,
  its permission bits and whether it is a regular file; names lead to files through a table
  from paths to inode numbers, kept in the order \<open>readdir\<close> delivers them; a \<open>FILE *\<close> is the
  inode it was opened on and whether it may write, so that it survives \<open>unlink\<close> and \<open>rename\<close>.
  Every transfer of the sources is an \<open>fseek(SEEK_SET)\<close> followed by one \<open>fread\<close> or \<open>fwrite\<close>,
  so a handle keeps no position.  The stdio buffer is not modelled (a handle sees the bytes the
  file has now) and neither is a full host disk: both are below the calls' results.
  C strings are lists of their bytes up to the terminating NUL.
\<close>

section \<open>C strings\<close>

text \<open>The string a \<open>char\<close> array holds: the bytes before the first NUL.\<close>

definition c_str :: "bytes \<Rightarrow> bytes" where
  "c_str xs = takeWhile (\<lambda>c. c \<noteq> 0) xs"

definition tolower :: "u8 \<Rightarrow> u8" where
  "tolower c = (if 0x41 \<le> c \<and> c \<le> 0x5A then c + 0x20 else c)"

definition toupper :: "u8 \<Rightarrow> u8" where
  "toupper c = (if 0x61 \<le> c \<and> c \<le> 0x7A then c - 0x20 else c)"

text \<open>\<open>strncasecmp(a, b, n) == 0\<close> on C strings.\<close>

definition strncase_eq :: "bytes \<Rightarrow> bytes \<Rightarrow> nat \<Rightarrow> bool" where
  "strncase_eq a b n \<longleftrightarrow> map tolower (take n a) = map tolower (take n b)"

text \<open>\<open>strrchr(s, c)\<close>: the parts before and after the last \<open>c\<close>.\<close>

definition split_last :: "u8 \<Rightarrow> bytes \<Rightarrow> (bytes \<times> bytes) option" where
  "split_last c s =
     (if c \<in> set s
      then let ext = rev (takeWhile (\<lambda>x. x \<noteq> c) (rev s))
           in Some (take (length s - length ext - 1) s, ext)
      else None)"

section \<open>Files\<close>

record host_file =
  fdata :: bytes
  fmode :: u16
  regular :: bool

record handle =
  h_ino :: nat
  h_write :: bool

record host_fs =
  names :: "(bytes \<times> nat) list"
  inodes :: "nat \<Rightarrow> host_file"
  next_ino :: nat
  superuser :: bool
  dir_exists :: "bytes \<Rightarrow> bool"
  dir_writable :: "bytes \<Rightarrow> bool"

abbreviation (input) PATH_MAX :: nat where "PATH_MAX \<equiv> 4096"
abbreviation (input) S_IRUSR :: u16 where "S_IRUSR \<equiv> 0x100"
abbreviation (input) S_IWUSR :: u16 where "S_IWUSR \<equiv> 0x80"

text \<open>\<open>stat\<close>: the file a path names.  The empty path names nothing.\<close>

definition stat_ino :: "host_fs \<Rightarrow> bytes \<Rightarrow> nat option" where
  "stat_ino fs path = (if path = [] then None else map_of (names fs) path)"

definition stat :: "host_fs \<Rightarrow> bytes \<Rightarrow> host_file option" where
  "stat fs path = map_option (inodes fs) (stat_ino fs path)"

text \<open>\<open>fopen(path, "rb")\<close>, \<open>"r+b"\<close> and \<open>"w+b"\<close>.\<close>

definition may :: "host_fs \<Rightarrow> u16 \<Rightarrow> host_file \<Rightarrow> bool" where
  "may fs bits f \<longleftrightarrow> superuser fs \<or> fmode f AND bits \<noteq> 0"

definition fopen_r :: "host_fs \<Rightarrow> bytes \<Rightarrow> handle option" where
  "fopen_r fs path =
     (case stat_ino fs path of
        None \<Rightarrow> None
      | Some n \<Rightarrow> if may fs S_IRUSR (inodes fs n) then Some \<lparr>h_ino = n, h_write = False\<rparr> else None)"

definition fopen_rw :: "host_fs \<Rightarrow> bytes \<Rightarrow> handle option" where
  "fopen_rw fs path =
     (case stat_ino fs path of
        None \<Rightarrow> None
      | Some n \<Rightarrow> if regular (inodes fs n) \<and> may fs S_IRUSR (inodes fs n) \<and> may fs S_IWUSR (inodes fs n)
                 then Some \<lparr>h_ino = n, h_write = True\<rparr> else None)"

definition fopen_w :: "host_fs \<Rightarrow> bytes \<Rightarrow> (handle \<times> host_fs) option" where
  "fopen_w fs path =
     (case stat_ino fs path of
        Some n \<Rightarrow>
          (let f = inodes fs n
           in if regular f \<and> may fs S_IRUSR f \<and> may fs S_IWUSR f
              then Some (\<lparr>h_ino = n, h_write = True\<rparr>, fs\<lparr>inodes := (inodes fs) (n := f\<lparr>fdata := []\<rparr>)\<rparr>)
              else None)
      | None \<Rightarrow>
          if path = [] \<or> \<not> dir_writable fs path then None
          else let n = next_ino fs
               in Some (\<lparr>h_ino = n, h_write = True\<rparr>,
                    fs\<lparr>names := names fs @ [(path, n)], next_ino := n + 1,
                       inodes := (inodes fs) (n := \<lparr>fdata = [], fmode = 0x1A4, regular = True\<rparr>)\<rparr>))"

text \<open>\<open>fseek(fp, off, SEEK_SET)\<close> succeeds on regular files; \<open>fread\<close> then delivers the bytes from
  there, and \<open>fwrite\<close> stores, filling a gap past the end with zeros.\<close>

definition fseek_ok :: "host_fs \<Rightarrow> handle \<Rightarrow> bool" where
  "fseek_ok fs h = regular (inodes fs (h_ino h))"

definition fread :: "host_fs \<Rightarrow> handle \<Rightarrow> nat \<Rightarrow> nat \<Rightarrow> bytes" where
  "fread fs h off n = take n (drop off (fdata (inodes fs (h_ino h))))"

definition splice :: "bytes \<Rightarrow> nat \<Rightarrow> bytes \<Rightarrow> bytes" where
  "splice d off bs = take off d @ replicate (off - length d) 0 @ bs @ drop (off + length bs) d"

definition fwrite :: "host_fs \<Rightarrow> handle \<Rightarrow> nat \<Rightarrow> bytes \<Rightarrow> nat \<times> host_fs" where
  "fwrite fs h off bs =
     (if h_write h
      then (length bs, fs\<lparr>inodes := (inodes fs) (h_ino h :=
              (inodes fs (h_ino h))\<lparr>fdata := splice (fdata (inodes fs (h_ino h))) off bs\<rparr>)\<rparr>)
      else (0, fs))"

definition unlink :: "host_fs \<Rightarrow> bytes \<Rightarrow> host_fs option" where
  "unlink fs path =
     (case stat fs path of
        Some f \<Rightarrow> if regular f \<and> dir_writable fs path
                 then Some (fs\<lparr>names := filter (\<lambda>(p, _). p \<noteq> path) (names fs)\<rparr>) else None
      | None \<Rightarrow> None)"

text \<open>\<open>rename\<close> replaces what the new path names.  Moving a directory over another is refused here
  (the host allows it onto an empty one).\<close>

definition rename :: "host_fs \<Rightarrow> bytes \<Rightarrow> bytes \<Rightarrow> host_fs option" where
  "rename fs old new =
     (case stat_ino fs old of
        None \<Rightarrow> None
      | Some n \<Rightarrow>
          if new = [] \<or> \<not> dir_writable fs old \<or> \<not> dir_writable fs new then None
          else if new = old then Some fs
          else if (case stat fs new of None \<Rightarrow> True | Some f \<Rightarrow> regular f \<and> regular (inodes fs n))
          then Some (fs\<lparr>names := map (\<lambda>(p, i). (if p = old then new else p, i))
                                 (filter (\<lambda>(p, _). p \<noteq> new) (names fs))\<rparr>)
          else None)"

definition chmod :: "host_fs \<Rightarrow> bytes \<Rightarrow> u16 \<Rightarrow> host_fs option" where
  "chmod fs path m =
     (case stat_ino fs path of
        None \<Rightarrow> None
      | Some n \<Rightarrow> Some (fs\<lparr>inodes := (inodes fs) (n := (inodes fs n)\<lparr>fmode := m\<rparr>)\<rparr>))"

text \<open>\<open>opendir(path)\<close> and the names \<open>readdir\<close> will deliver.  The sources open \<open>.\<close> or
  \<open>root/.\<close>; the entries are the paths of the table that lie directly in that directory.\<close>

definition dir_prefix :: "bytes \<Rightarrow> bytes" where
  "dir_prefix path = take (length path - 1) path"

definition opendir :: "host_fs \<Rightarrow> bytes \<Rightarrow> bytes list option" where
  "opendir fs path =
     (if path = [] \<or> \<not> dir_exists fs path then None
      else let pre = dir_prefix path
           in Some ([0x2E] # [0x2E, 0x2E] #
                map (drop (length pre))
                  (filter (\<lambda>p. take (length pre) p = pre \<and> 0x2F \<notin> set (drop (length pre) p))
                    (map fst (names fs)))))"

section \<open>Lemmas\<close>

lemma length_c_str: "length (c_str xs) \<le> length xs"
  by (simp add: c_str_def length_takeWhile_le)

lemma c_str_no_nul: "0 \<notin> set (c_str xs)"
  by (auto simp: c_str_def dest: set_takeWhileD)

lemma c_str_id: "0 \<notin> set xs \<Longrightarrow> c_str xs = xs"
  by (auto simp: c_str_def)

lemma length_splice: "length (splice d off bs) = max (length d) (off + length bs)"
  by (simp add: splice_def)

lemma splice_same: "take (length bs) (drop off (splice d off bs)) = bs"
  by (simp add: splice_def)

lemma nth_splice:
  assumes "i < length (splice d off bs)"
  shows "splice d off bs ! i =
    (if off \<le> i \<and> i < off + length bs then bs ! (i - off) else if i < length d then d ! i else 0)"
  using assms by (auto simp: splice_def nth_append min_def not_less)

lemma splice_other:
  assumes "off' + n \<le> off \<or> off + length bs \<le> off'" "off' + n \<le> length d"
  shows "take n (drop off' (splice d off bs)) = take n (drop off' d)"
  using assms by (auto intro!: nth_equalityI simp: length_splice nth_splice)

lemma fread_fwrite_same:
  assumes "fwrite fs h off bs = (length bs, fs')" "bs \<noteq> []"
  shows "fread fs' h off (length bs) = bs"
  using assms by (auto simp: fwrite_def fread_def splice_same split: if_splits)

lemma stat_ino_Some: "stat_ino fs path = Some n \<Longrightarrow> path \<noteq> [] \<and> (path, n) \<in> set (names fs)"
  by (auto simp: stat_ino_def dest: map_of_SomeD split: if_splits)

end
