(* ===== verification/Cpm_Disk.thy ===== *)
theory Cpm_Disk
  imports Z80_State Cpm_Fs
begin

text \<open>
  The CP/M shim's disk (\<open>cpm/cpm_disk.c\<close>): BDOS file calls on FCBs in guest memory, served
  from files of a host directory.  The static variables of the C file are the record
  \<open>cpm_disk\<close>, which every call threads beside the CPU; the host's files are its field \<open>fs\<close>.
  Every C call returns 1, so the definitions return the new CPU and disk only.

  An FCB is a pointer into guest memory, \<open>&cpu->mem[fcb_addr]\<close>: here the function from the
  offset to the byte, with the addresses modulo 65536 (guest memory is mapped twice, so an FCB
  that runs past 0xFFFF continues at 0).  Stores through the pointer are plain stores
  (\<open>poke\<close>); only where the source calls \<open>z80_mem_host_wrote\<close> does the translator hear of them.

  A directory search copies host names into fixed buffers; \<open>None\<close> is a store past the end of
  such a buffer, and \<open>stack_junk\<close> is what the uninitialised buffers hold before the copy
  (\<open>host_base\<close> at offset 0, \<open>host_ext\<close> at offset 64).
\<close>

section \<open>State\<close>

abbreviation (input) CPM_DEFAULT_DMA :: u16 where "CPM_DEFAULT_DMA \<equiv> 0x0080"
abbreviation (input) CPM_FCB_SIZE :: nat where "CPM_FCB_SIZE \<equiv> 36"
abbreviation (input) MAX_OPEN_FILES :: nat where "MAX_OPEN_FILES \<equiv> 8"
abbreviation (input) CPM_SHIM_DPB :: u16 where "CPM_SHIM_DPB \<equiv> 0xE500"
abbreviation (input) CPM_SHIM_ALV :: u16 where "CPM_SHIM_ALV \<equiv> 0xE510"

record open_file =
  fp :: "handle option"
  fcb_copy :: bytes
  logical_record :: u16

record cpm_disk =
  current_dma :: u16
  open_files :: "open_file list"
  open_fcb_addr :: "u16 list"
  a_root :: bytes
  search_dir :: "bytes list option"
  search_pattern :: bytes
  search_fcb :: bytes
  stack_junk :: "nat \<Rightarrow> u8"
  fs :: host_fs

type_synonym fcb = "nat \<Rightarrow> u8"

definition mem_fcb :: "memory \<Rightarrow> u16 \<Rightarrow> fcb" where
  "mem_fcb m a = (\<lambda>k. m (a + of_nat k))"

definition buf_fcb :: "bytes \<Rightarrow> fcb" where
  "buf_fcb bs = (\<lambda>k. bs ! k)"

text \<open>\<open>cpu->mem[a] = v\<close>, \<open>memcpy(&cpu->mem[a], bs, n)\<close>, \<open>memcpy(buf, &cpu->mem[a], n)\<close>.\<close>

definition poke :: "'h z80_cpu \<Rightarrow> u16 \<Rightarrow> u8 \<Rightarrow> 'h z80_cpu" where
  "poke cpu a v = cpu\<lparr>cmem := (cmem cpu) (a := v)\<rparr>"

fun pokes :: "'h z80_cpu \<Rightarrow> u16 \<Rightarrow> bytes \<Rightarrow> 'h z80_cpu" where
  "pokes cpu a [] = cpu"
| "pokes cpu a (b # bs) = pokes (poke cpu a b) (a + 1) bs"

definition peeks :: "memory \<Rightarrow> u16 \<Rightarrow> nat \<Rightarrow> bytes" where
  "peeks m a n = map (\<lambda>k. m (a + of_nat k)) [0..<n]"

section \<open>FCB fields and names\<close>

definition fcb_record_pos :: "fcb \<Rightarrow> u32" where
  "fcb_record_pos fcb =
     push_bit 12 (ucast (fcb 14 AND 0x0F)) OR push_bit 7 (ucast (fcb 12 AND 0x1F)) OR ucast (fcb 32 AND 0x7F)"

definition fcb_set_record_pos :: "'h z80_cpu \<Rightarrow> u16 \<Rightarrow> u32 \<Rightarrow> 'h z80_cpu" where
  "fcb_set_record_pos cpu fcb rec =
     (let cpu = poke cpu (fcb + 32) (ucast (rec AND 0x7F));
          cpu = poke cpu (fcb + 12) (ucast (drop_bit 7 rec AND 0x1F))
      in poke cpu (fcb + 14) (ucast (drop_bit 12 rec AND 0x0F)))"

definition get_random_record :: "fcb \<Rightarrow> u32" where
  "get_random_record fcb = ucast (fcb 33) OR push_bit 8 (ucast (fcb 34)) OR push_bit 16 (ucast (fcb 35))"

text \<open>\<open>for (i = 7; i >= 0 && name[i] == ' '; i--) name[i] = 0;\<close> and the C string left.\<close>

definition strip_blanks :: "bytes \<Rightarrow> bytes" where
  "strip_blanks xs = c_str (rev (dropWhile (\<lambda>c. c = 0x20) (rev xs)))"

definition fcb_to_host_name :: "fcb \<Rightarrow> nat \<Rightarrow> bytes" where
  "fcb_to_host_name fcb hostlen =
     (let name = strip_blanks (map (\<lambda>i. fcb (1 + i) AND 0x7F) [0..<8]);
          ext = strip_blanks (map (\<lambda>i. fcb (9 + i) AND 0x7F) [0..<3])
      in take (hostlen - 1) (if ext \<noteq> [] then name @ [0x2E] @ ext else name))"

definition make_host_path :: "cpm_disk \<Rightarrow> bytes \<Rightarrow> bytes" where
  "make_host_path d name =
     (if a_root d \<noteq> [] then
        (let p = a_root d @ [0x2F] @ name
         in if length p \<ge> PATH_MAX then [] else p)
      else take (PATH_MAX - 1) name)"

definition cpm_set_a_root :: "bytes option \<Rightarrow> cpm_disk \<Rightarrow> cpm_disk" where
  "cpm_set_a_root path d =
     (case path of
        None \<Rightarrow> d\<lparr>a_root := []\<rparr>
      | Some p \<Rightarrow> d\<lparr>a_root := take (PATH_MAX - 1) p\<rparr>)"

text \<open>The path an FCB (or its second half) names on the host.\<close>

definition fcb_path :: "cpm_disk \<Rightarrow> fcb \<Rightarrow> bytes" where
  "fcb_path d fcb = make_host_path d (fcb_to_host_name fcb 16)"

section \<open>The table of open files\<close>

definition closed_slot :: open_file where
  "closed_slot = \<lparr>fp = None, fcb_copy = replicate CPM_FCB_SIZE 0, logical_record = 0\<rparr>"

definition cpm_disk_init :: "cpm_disk \<Rightarrow> cpm_disk" where
  "cpm_disk_init d =
     d\<lparr>open_files := replicate MAX_OPEN_FILES closed_slot, open_fcb_addr := replicate MAX_OPEN_FILES 0,
       current_dma := CPM_DEFAULT_DMA\<rparr>"

definition cpm_set_dma :: "u16 \<Rightarrow> cpm_disk \<Rightarrow> cpm_disk" where
  "cpm_set_dma addr d = d\<lparr>current_dma := addr\<rparr>"

definition open_rw_or_ro :: "host_fs \<Rightarrow> bytes \<Rightarrow> handle option" where
  "open_rw_or_ro f path = (case fopen_rw f path of None \<Rightarrow> fopen_r f path | Some h \<Rightarrow> Some h)"

definition alloc_file_slot :: "cpm_disk \<Rightarrow> nat option" where
  "alloc_file_slot d = find (\<lambda>i. fp (open_files d ! i) = None) [0..<MAX_OPEN_FILES]"

definition get_file_slot_from_fcb :: "cpm_disk \<Rightarrow> u16 \<Rightarrow> nat option" where
  "get_file_slot_from_fcb d fcb_addr =
     find (\<lambda>i. fp (open_files d ! i) \<noteq> None \<and> open_fcb_addr d ! i = fcb_addr) [0..<MAX_OPEN_FILES]"

text \<open>Filling and retiring a slot.\<close>

definition fill_slot :: "cpm_disk \<Rightarrow> nat \<Rightarrow> handle \<Rightarrow> memory \<Rightarrow> u16 \<Rightarrow> u16 \<Rightarrow> cpm_disk" where
  "fill_slot d slot h m fcb_addr rec =
     d\<lparr>open_files := (open_files d) [slot := \<lparr>fp = Some h, fcb_copy = peeks m fcb_addr CPM_FCB_SIZE,
                                              logical_record = rec\<rparr>],
       open_fcb_addr := (open_fcb_addr d) [slot := fcb_addr]\<rparr>"

definition retire_slot :: "cpm_disk \<Rightarrow> u16 \<Rightarrow> cpm_disk" where
  "retire_slot d fcb_addr =
     (case get_file_slot_from_fcb d fcb_addr of
        None \<Rightarrow> d
      | Some prev \<Rightarrow>
          d\<lparr>open_files := (open_files d) [prev := (open_files d ! prev)\<lparr>fp := None\<rparr>],
            open_fcb_addr := (open_fcb_addr d) [prev := 0]\<rparr>)"

definition set_logical_record :: "cpm_disk \<Rightarrow> nat \<Rightarrow> u16 \<Rightarrow> cpm_disk" where
  "set_logical_record d slot rec =
     d\<lparr>open_files := (open_files d) [slot := (open_files d ! slot)\<lparr>logical_record := rec\<rparr>]\<rparr>"

definition slot_for_io :: "'h z80_cpu \<Rightarrow> u16 \<Rightarrow> cpm_disk \<Rightarrow> nat option \<times> cpm_disk" where
  "slot_for_io cpu fcb_addr d =
     (case get_file_slot_from_fcb d fcb_addr of
        Some slot \<Rightarrow> (Some slot, d)
      | None \<Rightarrow>
          (let fcb = mem_fcb (cmem cpu) fcb_addr;
               full = make_host_path d (fcb_to_host_name fcb 64)
           in case open_rw_or_ro (fs d) full of
                None \<Rightarrow> (None, d)
              | Some h \<Rightarrow>
                  (case alloc_file_slot d of
                     None \<Rightarrow> (None, d)
                   | Some slot \<Rightarrow>
                       (Some slot, fill_slot d slot h (cmem cpu) fcb_addr (ucast (fcb_record_pos fcb))))))"

section \<open>Open, close, make, delete, rename\<close>

definition set_a :: "u8 \<Rightarrow> 'h z80_cpu \<Rightarrow> 'h z80_cpu" where
  "set_a v cpu = cpu\<lparr>reg_a := v\<rparr>"

text \<open>RC after an open: the records of this extent, from the size \<open>fstat\<close> reports.\<close>

definition extent_rc :: "nat \<Rightarrow> u32 \<Rightarrow> u8" where
  "extent_rc nbytes pos =
     (let total_recs = int ((nbytes + 127) div 128);
          in_extent = total_recs - int (unat (pos AND NOT 0x7F));
          in_extent = (if in_extent < 0 then 0 else in_extent);
          in_extent = (if in_extent > 0x80 then 0x80 else in_extent)
      in word_of_int in_extent)"

definition cpm_bdos_open_file :: "'h z80_cpu \<Rightarrow> u16 \<Rightarrow> cpm_disk \<Rightarrow> 'h z80_cpu \<times> cpm_disk" where
  "cpm_bdos_open_file cpu fcb_addr d =
     (let fcb = mem_fcb (cmem cpu) fcb_addr;
          d = retire_slot d fcb_addr
      in case open_rw_or_ro (fs d) (fcb_path d fcb) of
           None \<Rightarrow> (set_a 0xFF cpu, d)
         | Some h \<Rightarrow>
             (case alloc_file_slot d of
                None \<Rightarrow> (set_a 0xFF cpu, d)
              | Some slot \<Rightarrow>
                  (let d = fill_slot d slot h (cmem cpu) fcb_addr (ucast (fcb_record_pos fcb));
                       rc = extent_rc (length (fdata (inodes (fs d) (h_ino h)))) (fcb_record_pos fcb);
                       cpu = poke cpu (fcb_addr + 15) rc
                   in (set_a 0 cpu, d))))"

definition cpm_bdos_close_file :: "'h z80_cpu \<Rightarrow> u16 \<Rightarrow> cpm_disk \<Rightarrow> 'h z80_cpu \<times> cpm_disk" where
  "cpm_bdos_close_file cpu fcb_addr d = (set_a 0 cpu, retire_slot d fcb_addr)"

definition cpm_bdos_make_file :: "'h z80_cpu \<Rightarrow> u16 \<Rightarrow> cpm_disk \<Rightarrow> 'h z80_cpu \<times> cpm_disk" where
  "cpm_bdos_make_file cpu fcb_addr d =
     (let fcb = mem_fcb (cmem cpu) fcb_addr;
          d = retire_slot d fcb_addr
      in case fopen_w (fs d) (fcb_path d fcb) of
           None \<Rightarrow> (set_a 0xFF cpu, d)
         | Some (h, f) \<Rightarrow>
             (let d = d\<lparr>fs := f\<rparr>
              in case alloc_file_slot d of
                   None \<Rightarrow> (set_a 0xFF cpu, d)
                 | Some slot \<Rightarrow>
                     (let d = fill_slot d slot h (cmem cpu) fcb_addr 0;
                          cpu = poke cpu (fcb_addr + 12) 0;
                          cpu = poke cpu (fcb_addr + 15) 0;
                          cpu = poke cpu (fcb_addr + 32) 0
                      in (set_a 0 cpu, d))))"

definition cpm_bdos_delete_file :: "'h z80_cpu \<Rightarrow> u16 \<Rightarrow> cpm_disk \<Rightarrow> 'h z80_cpu \<times> cpm_disk" where
  "cpm_bdos_delete_file cpu fcb_addr d =
     (let fcb = mem_fcb (cmem cpu) fcb_addr;
          d = retire_slot d fcb_addr
      in case unlink (fs d) (fcb_path d fcb) of
           Some f \<Rightarrow> (set_a 0 cpu, d\<lparr>fs := f\<rparr>)
         | None \<Rightarrow> (set_a 0xFF cpu, d))"

definition cpm_bdos_rename :: "'h z80_cpu \<Rightarrow> u16 \<Rightarrow> cpm_disk \<Rightarrow> 'h z80_cpu \<times> cpm_disk" where
  "cpm_bdos_rename cpu fcb_addr d =
     (let fcb = mem_fcb (cmem cpu) fcb_addr;
          d = retire_slot d fcb_addr;
          oldp = fcb_path d fcb;
          newp = fcb_path d (\<lambda>k. fcb (16 + k))
      in if oldp = [] \<or> newp = [] then (set_a 0xFF cpu, d)
         else case rename (fs d) oldp newp of
                None \<Rightarrow> (set_a 0xFF cpu, d)
              | Some f \<Rightarrow> (set_a 0 cpu, d\<lparr>fs := f\<rparr>))"

section \<open>Sequential and random transfers\<close>

text \<open>The bytes a read delivered go to the DMA address, and the translator is told.\<close>

definition dma_store :: "'h z80_cpu \<Rightarrow> u16 \<Rightarrow> bytes \<Rightarrow> 'h z80_cpu" where
  "dma_store cpu dma bs =
     (if bs = [] then cpu
      else z80_mem_host_wrote (pokes cpu dma bs) dma (of_nat (length bs)))"

definition cpm_bdos_read_sequential :: "'h z80_cpu \<Rightarrow> u16 \<Rightarrow> cpm_disk \<Rightarrow> 'h z80_cpu \<times> cpm_disk" where
  "cpm_bdos_read_sequential cpu fcb_addr d =
     (case slot_for_io cpu fcb_addr d of
        (None, d) \<Rightarrow> (set_a 1 cpu, d)
      | (Some slot, d) \<Rightarrow>
          (let h = the (fp (open_files d ! slot));
               rec = fcb_record_pos (mem_fcb (cmem cpu) fcb_addr)
           in if \<not> fseek_ok (fs d) h then (set_a 1 cpu, d)
              else
                (let buf = fread (fs d) h (unat rec * 128) 128;
                     cpu = dma_store cpu (current_dma d) buf
                 in if buf = [] then (set_a 1 cpu, d)
                    else (set_a 0 (fcb_set_record_pos cpu fcb_addr (rec + 1)),
                          set_logical_record d slot (ucast (rec + 1))))))"

definition bump_rc :: "'h z80_cpu \<Rightarrow> u16 \<Rightarrow> 'h z80_cpu" where
  "bump_rc cpu fcb_addr =
     (if cmem cpu (fcb_addr + 15) < 0x80 then poke cpu (fcb_addr + 15) (cmem cpu (fcb_addr + 15) + 1) else cpu)"

definition cpm_bdos_write_sequential :: "'h z80_cpu \<Rightarrow> u16 \<Rightarrow> cpm_disk \<Rightarrow> 'h z80_cpu \<times> cpm_disk" where
  "cpm_bdos_write_sequential cpu fcb_addr d =
     (case slot_for_io cpu fcb_addr d of
        (None, d) \<Rightarrow> (set_a 1 cpu, d)
      | (Some slot, d) \<Rightarrow>
          (let h = the (fp (open_files d ! slot));
               rec = fcb_record_pos (mem_fcb (cmem cpu) fcb_addr)
           in if \<not> fseek_ok (fs d) h then (set_a 1 cpu, d)
              else
                (let (n, f) = fwrite (fs d) h (unat rec * 128) (peeks (cmem cpu) (current_dma d) 128);
                     d = d\<lparr>fs := f\<rparr>
                 in if n \<noteq> 128 then (set_a 1 cpu, d)
                    else (set_a 0 (bump_rc (fcb_set_record_pos cpu fcb_addr (rec + 1)) fcb_addr),
                          set_logical_record d slot (ucast (rec + 1))))))"

definition cpm_bdos_random_read :: "'h z80_cpu \<Rightarrow> u16 \<Rightarrow> cpm_disk \<Rightarrow> 'h z80_cpu \<times> cpm_disk" where
  "cpm_bdos_random_read cpu fcb_addr d =
     (case slot_for_io cpu fcb_addr d of
        (None, d) \<Rightarrow> (set_a 1 cpu, d)
      | (Some slot, d) \<Rightarrow>
          (let h = the (fp (open_files d ! slot));
               rec = get_random_record (mem_fcb (cmem cpu) fcb_addr)
           in if \<not> fseek_ok (fs d) h then (set_a 1 cpu, d)
              else
                (let buf = fread (fs d) h (unat rec * 128) 128;
                     cpu = dma_store cpu (current_dma d) buf
                 in if buf = [] then (set_a 1 cpu, d)
                    else (set_a 0 (fcb_set_record_pos cpu fcb_addr rec),
                          set_logical_record d slot (ucast rec)))))"

definition cpm_bdos_random_write :: "'h z80_cpu \<Rightarrow> u16 \<Rightarrow> cpm_disk \<Rightarrow> 'h z80_cpu \<times> cpm_disk" where
  "cpm_bdos_random_write cpu fcb_addr d =
     (case slot_for_io cpu fcb_addr d of
        (None, d) \<Rightarrow> (set_a 1 cpu, d)
      | (Some slot, d) \<Rightarrow>
          (let h = the (fp (open_files d ! slot));
               rec = get_random_record (mem_fcb (cmem cpu) fcb_addr)
           in if \<not> fseek_ok (fs d) h then (set_a 2 cpu, d)
              else
                (let (n, f) = fwrite (fs d) h (unat rec * 128) (peeks (cmem cpu) (current_dma d) 128);
                     d = d\<lparr>fs := f\<rparr>
                 in if n \<noteq> 128 then (set_a 2 cpu, d)
                    else (set_a 0 (bump_rc (fcb_set_record_pos cpu fcb_addr rec) fcb_addr),
                          set_logical_record d slot (ucast rec)))))"

definition cpm_bdos_set_dma :: "'h z80_cpu \<Rightarrow> cpm_disk \<Rightarrow> 'h z80_cpu \<times> cpm_disk" where
  "cpm_bdos_set_dma cpu d = (set_a 0 cpu, cpm_set_dma (reg_de cpu) d)"

section \<open>Directory search\<close>

text \<open>The two loops over the characters of the pattern: a name character that is not \<open>?\<close> must
  equal the host's, where a host name that has ended counts as a blank.  \<open>buf\<close> is the buffer,
  with whatever it held behind the copied string.\<close>

fun wild_match :: "bytes \<Rightarrow> (nat \<Rightarrow> u8) \<Rightarrow> nat \<Rightarrow> bool" where
  "wild_match [] buf i = True"
| "wild_match (c # cs) buf i =
     ((c = 0x3F \<or> tolower c = tolower (if buf i \<noteq> 0 then buf i else 0x20)) \<and> wild_match cs buf (i + 1))"

text \<open>A string copied into a buffer, with its NUL.\<close>

definition in_buffer :: "bytes \<Rightarrow> (nat \<Rightarrow> u8) \<Rightarrow> nat \<Rightarrow> u8" where
  "in_buffer s junk i = (if i < length s then s ! i else if i = length s then 0 else junk i)"

definition fcb_name_matches :: "(nat \<Rightarrow> u8) \<Rightarrow> fcb \<Rightarrow> bytes \<Rightarrow> bool option" where
  "fcb_name_matches junk fcb host_name =
     (let fcb_name = c_str (map (\<lambda>i. fcb (1 + i) AND 0x7F) [0..<8]);
          fcb_ext = c_str (map (\<lambda>i. fcb (9 + i) AND 0x7F) [0..<3]);
          (base, ext) = (case split_last 0x2E host_name of Some be \<Rightarrow> be | None \<Rightarrow> (host_name, []))
      in if length base \<ge> 64 \<or> length ext \<ge> 16 then None
         else
           (let match_name = (take 1 fcb_name = [0x2A] \<or> strncase_eq fcb_name base 8);
                match_ext = (take 1 fcb_ext = [0x2A] \<or> strncase_eq fcb_ext ext 3);
                match_name = (if \<not> match_name then wild_match fcb_name (in_buffer base junk) 0 else match_name);
                match_ext = (if \<not> match_ext \<and> fcb_ext \<noteq> [] then wild_match fcb_ext (in_buffer ext (\<lambda>i. junk (64 + i))) 0 else match_ext)
            in Some (match_name \<and> match_ext)))"

text \<open>\<open>dest[i] = i < len ? toupper(s[i]) : ' '\<close> for \<open>i < n\<close>.\<close>

definition pad_name :: "nat \<Rightarrow> bytes \<Rightarrow> bytes" where
  "pad_name n s = map (\<lambda>i. if i < length s then toupper (s ! i) else 0x20) [0..<n]"

definition fill_dir_entry :: "host_fs \<Rightarrow> bytes \<Rightarrow> bytes \<Rightarrow> u8 \<Rightarrow> bytes option" where
  "fill_dir_entry f host_name full drive =
     (let (base, ext) = (case split_last 0x2E host_name of
                           Some (b, e) \<Rightarrow> (b, take 3 e)
                         | None \<Rightarrow> (take 8 host_name, []))
      in if length base > 8 then None
         else
           (let name = pad_name 8 base;
                t = pad_name 3 ext;
                ro = (case stat f full of Some s \<Rightarrow> fmode s AND 0x92 = 0 | None \<Rightarrow> False);
                t = (if ro then t[0 := t ! 0 OR 0x80] else t)
            in Some ([drive] @ name @ t @ [0, 0, 0, 1] @ replicate 16 0)))"

text \<open>The loop over \<open>readdir\<close>: \<open>Some None\<close> when the directory ends without a match.\<close>

fun search_loop :: "cpm_disk \<Rightarrow> fcb \<Rightarrow> bytes list \<Rightarrow> (bytes \<times> bytes list) option option" where
  "search_loop d fcb [] = Some None"
| "search_loop d fcb (ent # rest) =
     (if take 1 ent = [0x2E] then search_loop d fcb rest
      else
        (let full = make_host_path d ent
         in case stat (fs d) full of
              None \<Rightarrow> search_loop d fcb rest
            | Some st \<Rightarrow>
                if \<not> regular st then search_loop d fcb rest
                else
                  (case fcb_name_matches (stack_junk d) fcb ent of
                     None \<Rightarrow> None
                   | Some False \<Rightarrow> search_loop d fcb rest
                   | Some True \<Rightarrow>
                       (case fill_dir_entry (fs d) ent full (fcb 0) of
                          None \<Rightarrow> None
                        | Some de \<Rightarrow> Some (Some (de, rest))))))"

definition search_result ::
    "'h z80_cpu \<Rightarrow> cpm_disk \<Rightarrow> (bytes \<times> bytes list) option \<Rightarrow> 'h z80_cpu \<times> cpm_disk" where
  "search_result cpu d r =
     (case r of
        None \<Rightarrow> (set_a 0xFF cpu, d\<lparr>search_dir := None\<rparr>)
      | Some (de, rest) \<Rightarrow>
          (set_a 0 (z80_mem_host_wrote (pokes cpu (current_dma d) de) (current_dma d) 32),
           d\<lparr>search_dir := Some rest\<rparr>))"

definition cpm_bdos_search_first :: "'h z80_cpu \<Rightarrow> u16 \<Rightarrow> cpm_disk \<Rightarrow> ('h z80_cpu \<times> cpm_disk) option" where
  "cpm_bdos_search_first cpu fcb_addr d =
     (let fcb = mem_fcb (cmem cpu) fcb_addr;
          d = d\<lparr>search_pattern := fcb_to_host_name fcb 16, search_fcb := peeks (cmem cpu) fcb_addr CPM_FCB_SIZE\<rparr>
      in case opendir (fs d) (make_host_path d [0x2E]) of
           None \<Rightarrow> Some (set_a 0xFF cpu, d\<lparr>search_dir := None\<rparr>)
         | Some ents \<Rightarrow> map_option (search_result cpu d) (search_loop d fcb ents))"

definition cpm_bdos_search_next :: "'h z80_cpu \<Rightarrow> cpm_disk \<Rightarrow> ('h z80_cpu \<times> cpm_disk) option" where
  "cpm_bdos_search_next cpu d =
     (case search_dir d of
        None \<Rightarrow> Some (set_a 0xFF cpu, d)
      | Some ents \<Rightarrow> map_option (search_result cpu d) (search_loop d (buf_fcb (search_fcb d)) ents))"

section \<open>Disk parameters, attributes and sizes\<close>

definition shim_dpb :: bytes where
  "shim_dpb = [64, 0, 5, 31, 1, 0xFF, 0x07, 0xFF, 0x03, 0xFF, 0x00, 0, 0, 0, 0]"

definition cpm_disk_install_defaults :: "'h z80_cpu \<Rightarrow> cpm_disk \<Rightarrow> 'h z80_cpu \<times> cpm_disk" where
  "cpm_disk_install_defaults cpu d =
     (z80_mem_host_wrote (pokes cpu CPM_SHIM_DPB shim_dpb) CPM_SHIM_DPB 15,
      d\<lparr>current_dma := CPM_DEFAULT_DMA\<rparr>)"

definition blocks_of :: "cpm_disk \<Rightarrow> bytes \<Rightarrow> u32" where
  "blocks_of d ent =
     (if take 1 ent = [0x2E] then 0
      else case stat (fs d) (make_host_path d ent) of
             None \<Rightarrow> 0
           | Some st \<Rightarrow> if regular st then of_nat ((length (fdata st) + 4096 - 1) div 4096) else 0)"

definition used_blocks :: "cpm_disk \<Rightarrow> u32" where
  "used_blocks d =
     (let used = (case opendir (fs d) (make_host_path d [0x2E]) of
                    None \<Rightarrow> 8
                  | Some ents \<Rightarrow> fold (\<lambda>ent used. used + blocks_of d ent) ents 8)
      in if used > 2048 then 2048 else used)"

text \<open>\<open>for (b = 0; b < used; b++) alv[b >> 3] |= 0x80 >> (b & 7);\<close>\<close>

definition mark_block :: "nat \<Rightarrow> bytes \<Rightarrow> bytes" where
  "mark_block b alv = alv[b div 8 := alv ! (b div 8) OR drop_bit (b mod 8) 0x80]"

definition cpm_bdos_alloc_vector :: "'h z80_cpu \<Rightarrow> cpm_disk \<Rightarrow> 'h z80_cpu" where
  "cpm_bdos_alloc_vector cpu d =
     (let alv = fold mark_block [0..<unat (used_blocks d)] (replicate 256 0);
          cpu = z80_mem_host_wrote (pokes cpu CPM_SHIM_ALV alv) CPM_SHIM_ALV 256
      in (set_hl CPM_SHIM_ALV cpu)\<lparr>reg_a := lo8 CPM_SHIM_ALV, reg_b := hi8 CPM_SHIM_ALV\<rparr>)"

definition cpm_bdos_set_attributes :: "'h z80_cpu \<Rightarrow> u16 \<Rightarrow> cpm_disk \<Rightarrow> 'h z80_cpu \<times> cpm_disk" where
  "cpm_bdos_set_attributes cpu fcb_addr d =
     (let fcb = mem_fcb (cmem cpu) fcb_addr;
          full = make_host_path d (fcb_to_host_name fcb 64)
      in case stat (fs d) full of
           None \<Rightarrow> (set_a 0xFF cpu, d)
         | Some st \<Rightarrow>
             if \<not> regular st then (set_a 0xFF cpu, d)
             else
               (let m = fmode st AND 0xFFF;
                    want = (if fcb 9 AND 0x80 \<noteq> 0 then m AND NOT 0x92 else m OR 0x80)
                in if want = m then (set_a 0 cpu, d)
                   else case chmod (fs d) full want of
                          None \<Rightarrow> (set_a 0xFF cpu, d)
                        | Some f \<Rightarrow> (set_a 0 cpu, d\<lparr>fs := f\<rparr>)))"

definition store_random :: "'h z80_cpu \<Rightarrow> u16 \<Rightarrow> u8 \<Rightarrow> u8 \<Rightarrow> u8 \<Rightarrow> 'h z80_cpu" where
  "store_random cpu fcb_addr r0 r1 r2 =
     z80_mem_host_wrote (poke (poke (poke cpu (fcb_addr + 33) r0) (fcb_addr + 34) r1) (fcb_addr + 35) r2)
       (fcb_addr + 33) 3"

definition cpm_bdos_file_size :: "'h z80_cpu \<Rightarrow> u16 \<Rightarrow> cpm_disk \<Rightarrow> 'h z80_cpu" where
  "cpm_bdos_file_size cpu fcb_addr d =
     (let fcb = mem_fcb (cmem cpu) fcb_addr;
          found = (case stat (fs d) (make_host_path d (fcb_to_host_name fcb 64)) of
                     None \<Rightarrow> None | Some st \<Rightarrow> if regular st then Some st else None);
          recs = (case found of None \<Rightarrow> 0 | Some st \<Rightarrow> (of_nat ((length (fdata st) + 127) div 128) :: u32));
          cpu = store_random cpu fcb_addr (ucast recs) (ucast (drop_bit 8 recs)) (ucast (drop_bit 16 recs))
      in set_a (if found \<noteq> None then 0 else 0xFF) cpu)"

definition cpm_bdos_set_random :: "'h z80_cpu \<Rightarrow> u16 \<Rightarrow> 'h z80_cpu" where
  "cpm_bdos_set_random cpu fcb_addr =
     (let rec = fcb_record_pos (mem_fcb (cmem cpu) fcb_addr)
      in set_a 0 (store_random cpu fcb_addr (ucast rec) (ucast (drop_bit 8 rec)) 0))"

end
