(* ===== verification/Kaypro_Kbd.thy ===== *)
theory Kaypro_Kbd
  imports Z80_Prelude
begin

text \<open>
  Console input (\<open>kaypro/kaypro_kbd.c\<close>): the read-ahead queue, the translation of host keys, the
  host terminal and the script as sources of bytes, and the three primitives \<open>poll\<close>, \<open>read\<close>
  and \<open>wait\<close>.  The static variables of the C file are the record \<open>kbd\<close>.

  The host terminal is what \<open>select\<close> and \<open>read\<close> return, and when: the field \<open>stdin_looks\<close>
  lists the outcome of each look at it, \<open>None\<close> for \<open>nothing ready\<close> and \<open>Some bs\<close> for the bytes
  waiting (\<open>[]\<close>, like the end of the list, is the end of the input).  A look that the
  one-millisecond limit suppresses is a look that finds nothing.  A script is the list of its
  steps; \<open>parse_text\<close> is the parser of its text lines.  Sleeping, dumping the screen
  and printing memory have no effect on this state.  \<open>exit(0)\<close> is the result \<open>Quit\<close>.
\<close>

section \<open>State\<close>

abbreviation (input) QSIZE :: nat where "QSIZE \<equiv> 256"
abbreviation (input) KBD_IDLE_POLLS :: u32 where "KBD_IDLE_POLLS \<equiv> 20000"
abbreviation (input) KBD_IDLE_END_POLLS :: u32 where "KBD_IDLE_END_POLLS \<equiv> 40000"
abbreviation (input) KBD_WAIT_IDLE_DEFAULT :: int where "KBD_WAIT_IDLE_DEFAULT \<equiv> 20000"

datatype step = ST_BYTES bytes | ST_WAIT_IDLE int | ST_SLEEP int | ST_DUMP bytes bool | ST_MEM int | ST_PACE int | ST_END

record kbd =
  queue :: bytes
  q_head :: nat
  q_tail :: nat
  n_polls :: u64
  n_reads :: u64
  empty_polls :: u32
  max_quiet_streak :: u32
  scripted :: bool
  piped :: bool
  gate_open :: bool
  gate_polls :: u32
  stdin_eof :: bool
  keymap :: "bytes list"
  hbuf :: bytes
  hoff :: nat
  hlen :: nat
  last_cr :: bool
  eof_reads :: nat
  steps :: "step list"
  cur_step :: nat
  step_off :: nat
  idle_target :: int
  idle_wanted :: int
  idle_armed :: bool
  pace_polls :: int
  polls_since_read :: int
  stdin_looks :: "bytes option list"

datatype 'a kres = Quit | Ret 'a kbd

section \<open>The read-ahead queue\<close>

definition q_empty :: "kbd \<Rightarrow> bool" where
  "q_empty k \<longleftrightarrow> q_head k = q_tail k"

definition q_full :: "kbd \<Rightarrow> bool" where
  "q_full k \<longleftrightarrow> (q_head k + 1) mod QSIZE = q_tail k"

definition q_push :: "u8 \<Rightarrow> kbd \<Rightarrow> kbd" where
  "q_push c k =
     (let n = (q_head k + 1) mod QSIZE
      in if n \<noteq> q_tail k then k\<lparr>queue := (queue k) [q_head k := c], q_head := n\<rparr> else k)"

definition q_pop :: "kbd \<Rightarrow> u8 \<times> kbd" where
  "q_pop k = (queue k ! q_tail k, k\<lparr>q_tail := (q_tail k + 1) mod QSIZE\<rparr>)"

definition q_room :: "kbd \<Rightarrow> nat" where
  "q_room k = (q_tail k + QSIZE - q_head k - 1) mod QSIZE"

section \<open>Keys\<close>

abbreviation (input) KEY_COUNT :: nat where "KEY_COUNT \<equiv> 23"

definition asc :: "string \<Rightarrow> bytes" where
  "asc s = map of_char s"

definition key_names :: "bytes list" where
  "key_names = map asc [''up'', ''down'', ''left'', ''right'', ''home'', ''end'', ''ins'', ''del'', ''pgup'', ''pgdn'',
     ''f1'', ''f2'', ''f3'', ''f4'', ''f5'', ''f6'', ''f7'', ''f8'', ''f9'', ''f10'', ''f11'', ''f12'', ''bs'']"

definition kaypro_kbd_key_set :: "nat \<Rightarrow> bytes \<Rightarrow> bytes list \<Rightarrow> bytes list" where
  "kaypro_kbd_key_set key bs km = (if key \<ge> KEY_COUNT then km else km[key := take 8 bs])"

definition keymap_defaults :: "bytes list" where
  "keymap_defaults = (replicate KEY_COUNT []) [0 := [0x0B], 1 := [0x0A], 2 := [0x08], 3 := [0x0C], 7 := [0x7F], 22 := [0x08]]"

definition keymap_wordstar :: "bytes list \<Rightarrow> bytes list" where
  "keymap_wordstar km = km[0 := [0x05], 1 := [0x18], 2 := [0x13], 3 := [0x04], 8 := [0x12], 9 := [0x03],
     7 := [0x07], 22 := [0x7F], 4 := [0x11, 0x13], 5 := [0x11, 0x04]]"

definition hexval :: "u8 \<Rightarrow> u8 option" where
  "hexval c =
     (if 0x30 \<le> c \<and> c \<le> 0x39 then Some (c - 0x30)
      else if 0x61 \<le> c \<and> c \<le> 0x66 then Some (c - 0x61 + 10)
      else if 0x41 \<le> c \<and> c \<le> 0x46 then Some (c - 0x41 + 10)
      else None)"

text \<open>The two characters after \<open>\x\<close>, when they are hexadecimal digits.\<close>

definition hex_byte :: "bytes \<Rightarrow> (u8 \<times> bytes) option" where
  "hex_byte s =
     (case s of
        h # l # rest \<Rightarrow> (case (hexval h, hexval l) of (Some a, Some b) \<Rightarrow> Some (a * 16 + b, rest) | _ \<Rightarrow> None)
      | _ \<Rightarrow> None)"

lemma hex_byte_shorter: "hex_byte s = Some (b, r) \<Longrightarrow> length r < length s"
  by (auto simp: hex_byte_def split: list.splits option.splits)

text \<open>\<open>unescape(src, len, out, cap)\<close>: the bytes stored, with \<open>cap\<close> the room left.\<close>

function unescape :: "bytes \<Rightarrow> nat \<Rightarrow> bytes" where
  "unescape src cap =
     (if cap = 0 then []
      else case src of
        [] \<Rightarrow> []
      | c # cs \<Rightarrow>
          if c \<noteq> 0x5C then c # unescape cs (cap - 1)
          else (case cs of
                  [] \<Rightarrow> []
                | d # ds \<Rightarrow>
                    if d = 0x72 then 0x0D # unescape ds (cap - 1)
                    else if d = 0x6E then 0x0A # unescape ds (cap - 1)
                    else if d = 0x74 then 0x09 # unescape ds (cap - 1)
                    else if d = 0x65 then 0x1B # unescape ds (cap - 1)
                    else if d = 0x5E then
                      (case ds of [] \<Rightarrow> [] | e # es \<Rightarrow> (e AND 0x1F) # unescape es (cap - 1))
                    else if d = 0x78 then
                      (case hex_byte ds of
                         Some (b, es) \<Rightarrow> b # unescape es (cap - 1)
                       | None \<Rightarrow> unescape ds cap)
                    else d # unescape ds (cap - 1)))"
  by pat_completeness auto
termination
  by (relation "measure (\<lambda>(src, cap). length src)") (auto dest: hex_byte_shorter)

declare unescape.simps [simp del]

text \<open>The last key with the name, as the loop leaves it.\<close>

definition key_index :: "bytes \<Rightarrow> nat option" where
  "key_index name = (case filter (\<lambda>k. key_names ! k = name) [0..<KEY_COUNT] of [] \<Rightarrow> None | ks \<Rightarrow> Some (last ks))"

function keys_loop :: "bytes \<Rightarrow> bytes list \<Rightarrow> int \<times> bytes list" where
  "keys_loop p km =
     (if p = [] then (0, km)
      else if 0x3D \<notin> set p then (-1, km)
      else
        (let name = takeWhile (\<lambda>c. c \<noteq> 0x3D) p;
             rest = tl (dropWhile (\<lambda>c. c \<noteq> 0x3D) p);
             val = takeWhile (\<lambda>c. c \<noteq> 0x2C) rest
         in case key_index name of
              None \<Rightarrow> (-1, km)
            | Some key \<Rightarrow>
                (let km = kaypro_kbd_key_set key (unescape val 8) km
                 in if 0x2C \<in> set rest then keys_loop (tl (dropWhile (\<lambda>c. c \<noteq> 0x2C) rest)) km
                    else (0, km))))"
  by pat_completeness auto
termination
proof (relation "measure (\<lambda>(p, km). length p)", goal_cases)
  case (2 p km name rest val key km')
  have "length (tl (dropWhile (\<lambda>c. c \<noteq> 0x2C) rest)) \<le> length rest"
    by (metis diff_le_self le_trans length_dropWhile_le length_tl)
  also have "length rest < length p"
  proof -
    have "dropWhile (\<lambda>c. c \<noteq> 0x3D) p \<noteq> []" using 2(2) by (simp add: dropWhile_eq_Nil_conv)
    then have "length (tl (dropWhile (\<lambda>c. c \<noteq> 0x3D) p)) < length (dropWhile (\<lambda>c. c \<noteq> 0x3D) p)" by simp
    also have "\<dots> \<le> length p" by (rule length_dropWhile_le)
    finally show ?thesis using 2 by simp
  qed
  finally show ?case by simp
qed simp

declare keys_loop.simps [simp del]

definition kaypro_kbd_keys_configure :: "bytes option \<Rightarrow> bytes list \<Rightarrow> int \<times> bytes list" where
  "kaypro_kbd_keys_configure spec km =
     (case spec of
        None \<Rightarrow> (0, km)
      | Some s \<Rightarrow> if s = [] then (0, km)
                 else if s = asc ''wordstar'' then (0, keymap_wordstar km)
                 else keys_loop s km)"

text \<open>The number in \<open>CSI n ~\<close>, without the 32-bit limit of the C \<open>int\<close>: a sequence of ten or more digits overflows there,
  and is no key here.\<close>

fun csi_number :: "bytes \<Rightarrow> nat \<Rightarrow> nat" where
  "csi_number (c # d # cs) num =
     (if 0x30 \<le> c \<and> c \<le> 0x39 then csi_number (d # cs) (num * 10 + unat (c - 0x30)) else num)"
| "csi_number _ num = num"

definition letter_key :: "u8 \<Rightarrow> bool \<Rightarrow> nat option" where
  "letter_key c plain =
     (if c = 0x41 then Some 0 else if c = 0x42 then Some 1
      else if c = 0x43 then Some 3 else if c = 0x44 then Some 2
      else if c = 0x48 then Some 4 else if c = 0x46 then Some 5
      else if c = 0x50 \<and> plain then Some 10 else if c = 0x51 \<and> plain then Some 11
      else if c = 0x52 \<and> plain then Some 12 else if c = 0x53 \<and> plain then Some 13
      else None)"

definition tilde_key :: "nat \<Rightarrow> nat option" where
  "tilde_key num =
     (if num = 1 \<or> num = 7 then Some 4 else if num = 4 \<or> num = 8 then Some 5
      else if num = 2 then Some 6 else if num = 3 then Some 7
      else if num = 5 then Some 8 else if num = 6 then Some 9
      else if 11 \<le> num \<and> num \<le> 15 then Some (num - 1)
      else if 17 \<le> num \<and> num \<le> 21 then Some (num - 2)
      else if num = 23 then Some 20 else if num = 24 then Some 21 else None)"

definition key_for_sequence :: "bytes \<Rightarrow> nat option" where
  "key_for_sequence seq =
     (let n = length seq
      in if n < 3 \<or> seq ! 0 \<noteq> 0x1B then None
         else if seq ! 1 \<noteq> 0x5B \<and> seq ! 1 \<noteq> 0x4F then None
         else if n = 3 \<or> seq ! 1 = 0x5B \<and> n \<ge> 6 \<and> seq ! 2 = 0x31 \<and> seq ! 3 = 0x3B
         then letter_key (seq ! (n - 1)) (n = 3)
         else if seq ! 1 = 0x5B \<and> seq ! (n - 1) = 0x7E then tilde_key (csi_number (drop 2 seq) 0)
         else None)"

definition kaypro_kbd_translate :: "bytes list \<Rightarrow> bytes \<Rightarrow> nat \<Rightarrow> bytes" where
  "kaypro_kbd_translate km seq outcap =
     (if seq = [] \<or> outcap = 0 then []
      else if length seq = 1 then
        (if seq ! 0 = 0x7F \<or> seq ! 0 = 0x08 then take outcap (km ! 22) else [seq ! 0])
      else case key_for_sequence seq of
             None \<Rightarrow> []
           | Some key \<Rightarrow> take outcap (km ! key))"

section \<open>The host terminal\<close>

text \<open>One look at the terminal: not ready, end of input, or up to \<open>cap\<close> bytes; what does not fit
  stays.\<close>

definition look :: "nat \<Rightarrow> kbd \<Rightarrow> bytes option \<times> kbd" where
  "look cap k =
     (case stdin_looks k of
        [] \<Rightarrow> (Some [], k)
      | None # ls \<Rightarrow> (None, k\<lparr>stdin_looks := ls\<rparr>)
      | Some bs # ls \<Rightarrow>
          (Some (take cap bs),
           k\<lparr>stdin_looks := (if length bs \<le> cap then ls else Some (drop cap bs) # ls)\<rparr>))"

definition skip_quiet :: "kbd \<Rightarrow> kbd" where
  "skip_quiet k = k\<lparr>stdin_looks := dropWhile (\<lambda>l. l = None) (stdin_looks k)\<rparr>"

fun csi_len :: "bytes \<Rightarrow> nat" where
  "csi_len [] = 0"
| "csi_len (c # cs) = (if 0x40 \<le> c \<and> c \<le> 0x7E then 1 else Suc (csi_len cs))"

definition token_len :: "bytes \<Rightarrow> nat" where
  "token_len buf =
     (if length buf \<ge> 2 \<and> buf ! 0 = 0x1B \<and> (buf ! 1 = 0x5B \<or> buf ! 1 = 0x4F)
      then if buf ! 1 = 0x4F then (if length buf \<ge> 3 then 3 else 2) else 2 + csi_len (drop 2 buf)
      else 1)"

text \<open>The loop of \<open>host_drain\<close>: the bytes consumed and whether something was queued; \<open>None\<close> is
  the exit on \<open>^]\<close>.\<close>

function drain_loop :: "bytes \<Rightarrow> bool \<Rightarrow> kbd \<Rightarrow> (nat \<times> bool \<times> kbd) option" where
  "drain_loop buf queued k =
     (if buf = [] \<or> q_room k < 8 then Some (0, queued, k)
      else if buf ! 0 = 0x1D then None
      else
        (let seqlen = token_len buf;
             out = kaypro_kbd_translate (keymap k) (take seqlen buf) 8;
             k = fold q_push out k
         in map_option (\<lambda>(i, q, k). (seqlen + i, q, k)) (drain_loop (drop seqlen buf) (queued \<or> out \<noteq> []) k)))"
  by pat_completeness auto
termination
  by (relation "measure (\<lambda>(buf, q, k). length buf)") (auto simp: token_len_def)

declare drain_loop.simps [simp del]

definition host_drain :: "kbd \<Rightarrow> bool kres" where
  "host_drain k =
     (case drain_loop (take (hlen k - hoff k) (drop (hoff k) (hbuf k))) False k of
        None \<Rightarrow> Quit
      | Some (i, queued, k) \<Rightarrow>
          (let k = k\<lparr>hoff := hoff k + i\<rparr>;
               k = (if hoff k = hlen k then k\<lparr>hoff := 0, hlen := 0\<rparr> else k)
           in Ret queued k))"

text \<open>The wait for the rest of a sequence that the read cut: byte after byte.\<close>

function cut_loop :: "bytes \<Rightarrow> kbd \<Rightarrow> bytes \<times> kbd" where
  "cut_loop buf k =
     (if length buf \<ge> 256 then (buf, k)
      else case look 1 k of
             (Some [c], k') \<Rightarrow>
               if 0x40 \<le> c \<and> c \<le> 0x7E \<and> c \<noteq> 0x5B then (buf @ [c], k') else cut_loop (buf @ [c]) k'
           | (_, k') \<Rightarrow> (buf, k'))"
  by pat_completeness auto
termination
  by (relation "measure (\<lambda>(buf, k). 256 - length buf)") auto

declare cut_loop.simps [simp del]

definition cut_sequence :: "bytes \<Rightarrow> bool" where
  "cut_sequence buf \<longleftrightarrow> length buf < 256 \<and>
     (last buf = 0x1B \<or>
      length buf \<ge> 2 \<and> buf ! (length buf - 2) = 0x1B \<and> (last buf = 0x5B \<or> last buf = 0x4F))"

text \<open>Line ends of piped input: LF and CR LF become CR.\<close>

fun crlf :: "bytes \<Rightarrow> bool \<Rightarrow> bytes \<times> bool" where
  "crlf [] cr = ([], cr)"
| "crlf (c # cs) cr =
     (if c = 0x0A then
        (if cr then crlf cs False else (let (o', cr') = crlf cs False in (0x0D # o', cr')))
      else (let (o', cr') = crlf cs (c = 0x0D) in (c # o', cr')))"

text \<open>\<open>host_fetch\<close>: 1, 0 or -1.\<close>

definition host_fetch :: "bool \<Rightarrow> kbd \<Rightarrow> int kres" where
  "host_fetch block k =
     (let drained = (\<lambda>k. case host_drain k of Quit \<Rightarrow> Quit | Ret q k \<Rightarrow> Ret (if q then 1 else 0) k)
      in if hlen k \<noteq> 0 then drained k
         else case look 256 (if block then skip_quiet k else k) of
                (None, k) \<Rightarrow> Ret 0 k
              | (Some buf, k) \<Rightarrow>
                  if buf = [] then Ret (-1) k
                  else
                    (let (buf, k) = (if cut_sequence buf then cut_loop buf k else (buf, k));
                         (buf, k) = (if piped k
                                     then let (o', cr') = crlf buf (last_cr k) in (o', k\<lparr>last_cr := cr'\<rparr>)
                                     else (buf, k))
                     in if buf = [] then Ret 0 k
                        else drained (k\<lparr>hbuf := buf, hoff := 0, hlen := length buf\<rparr>)))"

section \<open>Scripts\<close>

text \<open>One text line.  \<open>n\<close> bytes are in the 1024-byte buffer; the steps come out in reverse.  \<open>None\<close> is
  a store past the end of the buffer (or, for a line that ends in \<open>\^\<close>, reading on past the end of the
  line), \<open>Some None\<close> an \<open>exit(1)\<close> on a bad escape.  Only an escape
  is followed by the test that empties a full buffer.\<close>

definition flush_bytes :: "bytes \<Rightarrow> step list \<Rightarrow> step list" where
  "flush_bytes buf ss = (if buf = [] then ss else ST_BYTES buf # ss)"

definition escape_byte :: "bytes \<Rightarrow> (u8 \<times> bytes) option" where
  "escape_byte p =
     (case p of
        [] \<Rightarrow> None
      | c # cs \<Rightarrow>
          if c = 0x72 then Some (0x0D, cs) else if c = 0x6E then Some (0x0A, cs)
          else if c = 0x74 then Some (0x09, cs) else if c = 0x65 then Some (0x1B, cs)
          else if c = 0x5E then (case cs of [] \<Rightarrow> None | d # ds \<Rightarrow> Some (d AND 0x1F, ds))
          else if c = 0x78 then hex_byte cs
          else Some (c, cs))"

lemma escape_byte_shorter: "escape_byte p = Some (b, r) \<Longrightarrow> length r < length p"
  by (auto simp: escape_byte_def split: list.splits if_splits dest!: hex_byte_shorter)

function parse_text :: "bytes \<Rightarrow> bytes \<Rightarrow> step list \<Rightarrow> step list option option" where
  "parse_text p buf ss =
     (case p of
        [] \<Rightarrow> Some (Some (rev (flush_bytes buf ss)))
      | c # cs \<Rightarrow>
          if c = 0x7E then parse_text cs [] (ST_WAIT_IDLE KBD_WAIT_IDLE_DEFAULT # flush_bytes buf ss)
          else if c \<noteq> 0x5C then
            (if length buf \<ge> 1024 then None else parse_text cs (buf @ [c]) ss)
          else
            (case escape_byte cs of
               None \<Rightarrow> if cs = [0x5E] then None else Some None
             | Some (b, ds) \<Rightarrow>
                 if length buf \<ge> 1024 then None
                 else if length (buf @ [b]) \<ge> 1023 then parse_text ds [] (flush_bytes (buf @ [b]) ss)
                 else parse_text ds (buf @ [b]) ss))"
  by pat_completeness auto
termination
  by (relation "measure (\<lambda>(p, buf, ss). length p)") (auto dest: escape_byte_shorter)

declare parse_text.simps [simp del]

text \<open>\<open>while (step_off < s->len && !q_full()) q_push(s->bytes[step_off++])\<close>\<close>

function feed :: "bytes \<Rightarrow> kbd \<Rightarrow> kbd" where
  "feed bs k =
     (if step_off k < length bs \<and> \<not> q_full k
      then feed bs ((q_push (bs ! step_off k) k)\<lparr>step_off := step_off k + 1\<rparr>) else k)"
  by pat_completeness auto
termination
  by (relation "measure (\<lambda>(bs, k). length bs - step_off k)") auto

declare feed.simps [simp del]

text \<open>\<open>script_advance\<close>: 1, 0 or -1.  \<open>None\<close> is a read past the last step, which the \<open>ST_END\<close> that
  ends every script rules out.\<close>

function script_advance :: "bool \<Rightarrow> kbd \<Rightarrow> (int \<times> kbd) option" where
  "script_advance reading k =
     (if \<not> q_empty k then Some (1, k)
      else if cur_step k \<ge> length (steps k) then None
      else case steps k ! cur_step k of
             ST_BYTES bs \<Rightarrow>
               (let k = feed bs k
                in Some (1, if step_off k = length bs then k\<lparr>step_off := 0, cur_step := cur_step k + 1\<rparr> else k))
           | ST_WAIT_IDLE n \<Rightarrow>
               (let k = (if \<not> idle_armed k then k\<lparr>idle_armed := True, idle_wanted := n, idle_target := n\<rparr> else k)
                in if reading \<or> idle_target k \<le> 0
                   then script_advance reading (k\<lparr>idle_armed := False, cur_step := cur_step k + 1\<rparr>)
                   else Some (0, k))
           | ST_PACE n \<Rightarrow> script_advance reading (k\<lparr>pace_polls := n, cur_step := cur_step k + 1\<rparr>)
           | ST_SLEEP n \<Rightarrow> script_advance reading (k\<lparr>cur_step := cur_step k + 1\<rparr>)
           | ST_DUMP f a \<Rightarrow> script_advance reading (k\<lparr>cur_step := cur_step k + 1\<rparr>)
           | ST_MEM n \<Rightarrow> script_advance reading (k\<lparr>cur_step := cur_step k + 1\<rparr>)
           | ST_END \<Rightarrow> Some (-1, k))"
  by pat_completeness auto
termination
  by (relation "measure (\<lambda>(r, k). length (steps k) - cur_step k)") auto

declare script_advance.simps [simp del]

section \<open>Poll, read, wait\<close>

definition kaypro_kbd_note_activity :: "kbd \<Rightarrow> kbd" where
  "kaypro_kbd_note_activity k =
     (let k = k\<lparr>empty_polls := 0, gate_polls := 0\<rparr>
      in if idle_armed k then k\<lparr>idle_target := idle_wanted k\<rparr> else k)"

definition paced_out :: "kbd \<Rightarrow> bool \<times> kbd" where
  "paced_out k =
     (if \<not> scripted k \<or> pace_polls k \<le> 0 \<or> polls_since_read k \<ge> pace_polls k then (False, k)
      else (True, k\<lparr>polls_since_read := polls_since_read k + 1\<rparr>))"

definition gated :: "kbd \<Rightarrow> bool \<times> kbd" where
  "gated k =
     (if \<not> piped k \<or> scripted k \<or> gate_open k then (False, k)
      else
        (let k = k\<lparr>gate_polls := gate_polls k + 1\<rparr>
         in if gate_polls k \<ge> KBD_IDLE_POLLS then (False, k\<lparr>gate_open := True\<rparr>) else (True, k)))"

definition pop_key :: "kbd \<Rightarrow> u8 \<times> kbd" where
  "pop_key k =
     (let (c, k) = q_pop k
      in (c, if piped k \<and> c = 0x0D then k\<lparr>gate_open := False, gate_polls := 0\<rparr> else k))"

definition count_quiet :: "kbd \<Rightarrow> kbd" where
  "count_quiet k =
     (let k = k\<lparr>empty_polls := empty_polls k + 1\<rparr>
      in if empty_polls k > max_quiet_streak k then k\<lparr>max_quiet_streak := empty_polls k\<rparr> else k)"

text \<open>The script out of range (\<open>None\<close> of \<open>script_advance\<close>) does not occur; it is a poll that finds
  nothing here.\<close>

definition poll_script :: "kbd \<Rightarrow> bool kres" where
  "poll_script k =
     (case script_advance False k of
        None \<Rightarrow> Ret False k
      | Some (r, k) \<Rightarrow>
          if r = 1 then
            (let (p, k) = paced_out k
             in if p then Ret False k else Ret True (k\<lparr>empty_polls := 0\<rparr>))
          else
            (let k = (if r = 0 \<and> idle_armed k then k\<lparr>idle_target := idle_target k - 1\<rparr> else k);
                 k = count_quiet k
             in if r < 0 \<and> empty_polls k \<ge> KBD_IDLE_END_POLLS then Quit else Ret False k))"

definition poll_quiet :: "kbd \<Rightarrow> bool kres" where
  "poll_quiet k =
     (let k = count_quiet k
      in if stdin_eof k \<and> empty_polls k \<ge> KBD_IDLE_END_POLLS then Quit else Ret False k)"

definition poll_host :: "kbd \<Rightarrow> bool kres" where
  "poll_host k =
     (if stdin_eof k then poll_quiet k
      else case host_fetch False k of
             Quit \<Rightarrow> Quit
           | Ret r k \<Rightarrow>
               if r = 1 then
                 (let (g, k) = gated k
                  in if g then Ret False k else Ret True (k\<lparr>empty_polls := 0\<rparr>))
               else poll_quiet (if r < 0 \<and> piped k then k\<lparr>stdin_eof := True\<rparr> else k))"

definition kaypro_kbd_poll :: "kbd \<Rightarrow> bool kres" where
  "kaypro_kbd_poll k =
     (let k = k\<lparr>n_polls := n_polls k + 1\<rparr>
      in if \<not> q_empty k then
           (let (p, k) = paced_out k
            in if p then Ret False k
               else
                 (let (g, k) = gated k
                  in if g then Ret False k else Ret True (k\<lparr>empty_polls := 0\<rparr>)))
         else if scripted k then poll_script k
         else poll_host k)"

text \<open>The blocking loop \<open>for (;;) host_fetch(1)\<close>.  Every pass that swallows its input (result 0)
  consumes pending bytes or looks, so it ends; \<open>fuel\<close> counts the passes and \<open>None\<close> is running
  out of it.\<close>

primrec fetch_loop :: "nat \<Rightarrow> kbd \<Rightarrow> int kres option" where
  "fetch_loop 0 k = None"
| "fetch_loop (Suc fuel) k =
     (case host_fetch True k of
        Quit \<Rightarrow> Some Quit
      | Ret r k \<Rightarrow> if r = 0 then fetch_loop fuel k else Some (Ret r k))"

text \<open>The passes that can find something: one for each pending byte and each byte to come.\<close>

definition input_left :: "kbd \<Rightarrow> nat" where
  "input_left k = (hlen k - hoff k) + sum_list (map (\<lambda>l. case l of None \<Rightarrow> 1 | Some bs \<Rightarrow> length bs + 1) (stdin_looks k)) + 1"

datatype key = Byte u8 | KBD_END

definition kaypro_kbd_read :: "kbd \<Rightarrow> key kres" where
  "kaypro_kbd_read k =
     (let k = k\<lparr>n_reads := n_reads k + 1, empty_polls := 0, polls_since_read := 0, gate_open := True\<rparr>
      in if \<not> q_empty k then (let (c, k) = pop_key k in Ret (Byte c) k)
         else if scripted k then
           (case script_advance True k of
              Some (r, k) \<Rightarrow> if r = 1 then (let (c, k) = q_pop k in Ret (Byte c) k) else Ret KBD_END k
            | None \<Rightarrow> Ret KBD_END k)
         else
           (case fetch_loop (input_left k) k of
              None \<Rightarrow> Ret KBD_END k
            | Some Quit \<Rightarrow> Quit
            | Some (Ret r k) \<Rightarrow>
                if r = 1 then (let (c, k) = pop_key k in Ret (Byte c) k)
                else
                  (let k = k\<lparr>eof_reads := eof_reads k + 1\<rparr>
                   in if eof_reads k > 8 then Quit else Ret (Byte 0x1A) k)))"

definition kaypro_kbd_wait :: "kbd \<Rightarrow> unit kres" where
  "kaypro_kbd_wait k =
     (let k = k\<lparr>gate_open := True\<rparr>
      in if \<not> q_empty k then Ret () k
         else if scripted k then
           (case script_advance True k of
              Some (r, k) \<Rightarrow> if r < 0 then Quit else Ret () k
            | None \<Rightarrow> Ret () k)
         else
           (case fetch_loop (input_left k) k of
              None \<Rightarrow> Ret () k
            | Some Quit \<Rightarrow> Quit
            | Some (Ret r k) \<Rightarrow> Ret () k))"

definition kaypro_kbd_init :: "bool \<Rightarrow> bytes option \<Rightarrow> kbd \<Rightarrow> kbd" where
  "kaypro_kbd_init tty spec k =
     k\<lparr>q_head := 0, q_tail := 0, n_polls := 0, n_reads := 0, empty_polls := 0, scripted := False,
       piped := \<not> tty, gate_open := False, gate_polls := 0, stdin_eof := False,
       keymap := snd (kaypro_kbd_keys_configure spec keymap_defaults)\<rparr>"

end
