(* ===== verification/Kaypro_Video.thy ===== *)
theory Kaypro_Video
  imports Z80_Prelude "HOL-Library.Monad_Syntax"
begin

text \<open>
  The Kaypro screen (\<open>kaypro/kaypro_video.c\<close>, \<open>kaypro_video.h\<close>): an array of 25 x 80 cells and the
  interpreter of the console byte stream.  The array is the C object, cell \<open>[r][c]\<close> at index
  \<open>r * 80 + c\<close>; an access outside of it, outside \<open>esc_args\<close>, or through a null table entry is
  \<open>None\<close>.  The C \<open>int\<close>s are \<open>int\<close>, the counters keep their width.
\<close>

section \<open>State\<close>

abbreviation (input) KV_ROWS :: int where "KV_ROWS \<equiv> 25"
abbreviation (input) KV_TEXT_ROWS :: int where "KV_TEXT_ROWS \<equiv> 24"
abbreviation (input) KV_COLS :: int where "KV_COLS \<equiv> 80"

abbreviation (input) KV_ATTR_REVERSE :: u8 where "KV_ATTR_REVERSE \<equiv> 0x01"
abbreviation (input) KV_ATTR_DIM :: u8 where "KV_ATTR_DIM \<equiv> 0x02"
abbreviation (input) KV_ATTR_BLINK :: u8 where "KV_ATTR_BLINK \<equiv> 0x04"
abbreviation (input) KV_ATTR_UNDERLINE :: u8 where "KV_ATTR_UNDERLINE \<equiv> 0x08"
abbreviation (input) KV_ATTR_PIXEL7 :: u8 where "KV_ATTR_PIXEL7 \<equiv> 0x10"

abbreviation (input) KAYPRO_MODEL_II :: int where "KAYPRO_MODEL_II \<equiv> 0"
abbreviation (input) KAYPRO_MODEL_84 :: int where "KAYPRO_MODEL_84 \<equiv> 1"

record kaypro_cell =
  cch :: u8
  cattr :: u8

record kaypro_video =
  cells :: "kaypro_cell list"
  cur_row :: int
  cur_col :: int
  attr :: u8
  cursor_visible :: int
  model :: int
  status_preserve :: int
  saved_row :: int
  saved_col :: int
  video_mode :: int
  gfx_pending :: int
  gfx_first :: u8
  esc_state :: int
  esc_lead :: u8
  esc_need :: int
  esc_args :: "u8 list"
  esc_nargs :: int
  dirty_rows :: u32
  cursor_moved :: int
  bytes_in :: u64
  bells :: u32
  unknown_ctrl :: u32
  unknown_esc :: u32

section \<open>The cell array\<close>

definition cell_index :: "int \<Rightarrow> int \<Rightarrow> int" where
  "cell_index r c = r * KV_COLS + c"

definition load_cells :: "int \<Rightarrow> int \<Rightarrow> kaypro_cell list \<Rightarrow> kaypro_cell list option" where
  "load_cells p n cs =
     (if 0 \<le> p \<and> 0 \<le> n \<and> p + n \<le> int (length cs) then Some (take (nat n) (drop (nat p) cs)) else None)"

definition store_cells :: "int \<Rightarrow> kaypro_cell list \<Rightarrow> kaypro_cell list \<Rightarrow> kaypro_cell list option" where
  "store_cells p xs cs =
     (if 0 \<le> p \<and> p + int (length xs) \<le> int (length cs)
      then Some (take (nat p) cs @ xs @ drop (nat p + length xs) cs) else None)"

definition memmove_cells :: "int \<Rightarrow> int \<Rightarrow> int \<Rightarrow> kaypro_cell list \<Rightarrow> kaypro_cell list option" where
  "memmove_cells dst src n cs = do { xs \<leftarrow> load_cells src n cs; store_cells dst xs cs }"

definition blank :: kaypro_cell where "blank = \<lparr>cch = 0x20, cattr = 0\<rparr>"

definition blank_cells :: "int \<Rightarrow> int \<Rightarrow> kaypro_cell list \<Rightarrow> kaypro_cell list option" where
  "blank_cells p n cs = store_cells p (replicate (nat n) blank) cs"

text \<open>\<open>for (r = a; r < b; r++) blank_cells(KV->cells[r], KV_COLS)\<close>, with \<open>k = b - a\<close> rows.\<close>

fun blank_rows :: "int \<Rightarrow> nat \<Rightarrow> kaypro_cell list \<Rightarrow> kaypro_cell list option" where
  "blank_rows r 0 cs = Some cs"
| "blank_rows r (Suc k) cs = do { cs \<leftarrow> blank_cells (cell_index r 0) KV_COLS cs; blank_rows (r + 1) k cs }"

section \<open>Primitive screen operations\<close>

definition mark_dirty :: "int \<Rightarrow> kaypro_video \<Rightarrow> kaypro_video" where
  "mark_dirty r kv = kv\<lparr>dirty_rows := dirty_rows kv OR push_bit (nat r) 1\<rparr>"

definition mark_all_dirty :: "kaypro_video \<Rightarrow> kaypro_video" where
  "mark_all_dirty kv = kv\<lparr>dirty_rows := push_bit (nat KV_ROWS) 1 - 1\<rparr>"

definition scroll_rows :: "kaypro_video \<Rightarrow> int" where
  "scroll_rows kv = (if model kv \<ge> KAYPRO_MODEL_84 \<and> status_preserve kv = 0 then KV_ROWS else KV_TEXT_ROWS)"

definition scroll_up :: "kaypro_video \<Rightarrow> kaypro_video option" where
  "scroll_up kv =
     (let n = scroll_rows kv
      in do { cs \<leftarrow> memmove_cells (cell_index 0 0) (cell_index 1 0) (KV_COLS * (n - 1)) (cells kv);
              cs \<leftarrow> blank_cells (cell_index (n - 1) 0) KV_COLS cs;
              Some (mark_all_dirty (kv\<lparr>cells := cs\<rparr>)) })"

definition max_row :: "kaypro_video \<Rightarrow> int" where
  "max_row kv = (if model kv \<ge> KAYPRO_MODEL_84 then KV_ROWS else KV_TEXT_ROWS) - 1"

definition set_cursor :: "int \<Rightarrow> int \<Rightarrow> kaypro_video \<Rightarrow> kaypro_video" where
  "set_cursor r c kv =
     (let r = (if r < 0 then 0 else if r > max_row kv then max_row kv else r);
          c = (if c < 0 then 0 else if c \<ge> KV_COLS then KV_COLS - 1 else c)
      in kv\<lparr>cur_row := r, cur_col := c, cursor_moved := 1\<rparr>)"

definition cursor_down :: "kaypro_video \<Rightarrow> kaypro_video option" where
  "cursor_down kv =
     (let bottom = scroll_rows kv - 1
      in do { kv \<leftarrow> (if cur_row kv < bottom then Some (kv\<lparr>cur_row := cur_row kv + 1\<rparr>)
                     else if cur_row kv = bottom then scroll_up kv else Some kv);
              Some (kv\<lparr>cursor_moved := 1\<rparr>) })"

definition put_char :: "u8 \<Rightarrow> kaypro_video \<Rightarrow> kaypro_video option" where
  "put_char ch kv = do {
     cs \<leftarrow> store_cells (cell_index (cur_row kv) (cur_col kv)) [\<lparr>cch = ch, cattr = attr kv\<rparr>] (cells kv);
     let kv = mark_dirty (cur_row kv) (kv\<lparr>cells := cs\<rparr>);
     kv \<leftarrow> (if cur_col kv = KV_COLS - 1 then cursor_down (kv\<lparr>cur_col := 0\<rparr>)
            else Some (kv\<lparr>cur_col := cur_col kv + 1\<rparr>));
     Some (kv\<lparr>cursor_moved := 1\<rparr>) }"

definition erase_to_eol :: "kaypro_video \<Rightarrow> kaypro_video option" where
  "erase_to_eol kv = do {
     cs \<leftarrow> blank_cells (cell_index (cur_row kv) (cur_col kv)) (KV_COLS - cur_col kv) (cells kv);
     Some (mark_dirty (cur_row kv) (kv\<lparr>cells := cs\<rparr>)) }"

definition erase_to_eos :: "kaypro_video \<Rightarrow> kaypro_video option" where
  "erase_to_eos kv =
     (let n = scroll_rows kv
      in do { kv \<leftarrow> erase_to_eol kv;
              cs \<leftarrow> blank_rows (cur_row kv + 1) (nat (n - (cur_row kv + 1))) (cells kv);
              Some (mark_all_dirty (kv\<lparr>cells := cs\<rparr>)) })"

definition clear_screen :: "kaypro_video \<Rightarrow> kaypro_video option" where
  "clear_screen kv = do {
     cs \<leftarrow> blank_rows 0 (nat (scroll_rows kv)) (cells kv);
     Some (mark_all_dirty (set_cursor 0 0 (kv\<lparr>cells := cs\<rparr>))) }"

definition delete_line :: "kaypro_video \<Rightarrow> kaypro_video option" where
  "delete_line kv =
     (let r = cur_row kv; n = scroll_rows kv
      in if r \<ge> n then Some kv
         else do {
           cs \<leftarrow> (if r < n - 1 then memmove_cells (cell_index r 0) (cell_index (r + 1) 0) (KV_COLS * (n - 1 - r)) (cells kv)
                  else Some (cells kv));
           cs \<leftarrow> blank_cells (cell_index (n - 1) 0) KV_COLS cs;
           Some (mark_all_dirty (kv\<lparr>cells := cs\<rparr>)) })"

definition insert_line :: "kaypro_video \<Rightarrow> kaypro_video option" where
  "insert_line kv =
     (let r = cur_row kv; n = scroll_rows kv
      in if r \<ge> n then Some kv
         else do {
           cs \<leftarrow> (if r < n - 1 then memmove_cells (cell_index (r + 1) 0) (cell_index r 0) (KV_COLS * (n - 1 - r)) (cells kv)
                  else Some (cells kv));
           cs \<leftarrow> blank_cells (cell_index r 0) KV_COLS cs;
           Some (mark_all_dirty (kv\<lparr>cells := cs\<rparr>)) })"

section \<open>Control characters\<close>

definition c_bell :: "kaypro_video \<Rightarrow> kaypro_video option" where
  "c_bell kv = Some (kv\<lparr>bells := bells kv + 1\<rparr>)"

definition c_bs :: "kaypro_video \<Rightarrow> kaypro_video option" where
  "c_bs kv = Some (if cur_col kv > 0 then kv\<lparr>cur_col := cur_col kv - 1, cursor_moved := 1\<rparr> else kv)"

definition c_up :: "kaypro_video \<Rightarrow> kaypro_video option" where
  "c_up kv = Some (if cur_row kv > 0 then kv\<lparr>cur_row := cur_row kv - 1, cursor_moved := 1\<rparr> else kv)"

definition c_right :: "kaypro_video \<Rightarrow> kaypro_video option" where
  "c_right kv = do {
     kv \<leftarrow> (if cur_col kv = KV_COLS - 1 then cursor_down (kv\<lparr>cur_col := 0\<rparr>)
            else Some (kv\<lparr>cur_col := cur_col kv + 1\<rparr>));
     Some (kv\<lparr>cursor_moved := 1\<rparr>) }"

definition c_cr :: "kaypro_video \<Rightarrow> kaypro_video option" where
  "c_cr kv = Some (kv\<lparr>cur_col := 0, cursor_moved := 1\<rparr>)"

definition c_esc :: "kaypro_video \<Rightarrow> kaypro_video option" where
  "c_esc kv = Some (kv\<lparr>esc_state := 1\<rparr>)"

definition c_home :: "kaypro_video \<Rightarrow> kaypro_video option" where
  "c_home kv = Some (set_cursor 0 0 kv)"

definition c_nul :: "kaypro_video \<Rightarrow> kaypro_video option" where
  "c_nul kv = put_char 0x60 kv"

definition ctrl_handlers :: "u8 \<Rightarrow> (kaypro_video \<Rightarrow> kaypro_video option) option" where
  "ctrl_handlers ch =
     (if ch = 0x00 then Some c_nul else if ch = 0x07 then Some c_bell else if ch = 0x08 then Some c_bs
      else if ch = 0x0A then Some cursor_down else if ch = 0x0B then Some c_up else if ch = 0x0C then Some c_right
      else if ch = 0x0D then Some c_cr else if ch = 0x17 then Some erase_to_eos else if ch = 0x18 then Some erase_to_eol
      else if ch = 0x1A then Some clear_screen else if ch = 0x1B then Some c_esc else if ch = 0x1E then Some c_home
      else None)"

section \<open>Escape sequences\<close>

definition e_cursor :: "u8 list \<Rightarrow> kaypro_video \<Rightarrow> kaypro_video option" where
  "e_cursor a kv = (case a of a0 # a1 # _ \<Rightarrow> Some (set_cursor (uint a0 - 0x20) (uint a1 - 0x20) kv) | _ \<Rightarrow> None)"

definition attr_set :: "u8 \<Rightarrow> bool \<Rightarrow> kaypro_video \<Rightarrow> kaypro_video" where
  "attr_set n on kv =
     (let put = (\<lambda>b. kv\<lparr>attr := (if on then attr kv OR b else attr kv AND NOT b)\<rparr>)
      in if n = 0x30 then put KV_ATTR_REVERSE
         else if n = 0x31 then put KV_ATTR_DIM
         else if n = 0x32 then put KV_ATTR_BLINK
         else if n = 0x33 then put KV_ATTR_UNDERLINE
         else if n = 0x34 then kv\<lparr>cursor_visible := of_bool on, cursor_moved := 1\<rparr>
         else if n = 0x35 then kv\<lparr>video_mode := of_bool on, gfx_pending := 0\<rparr>
         else if n = 0x36 then
           (if on then kv\<lparr>saved_row := cur_row kv, saved_col := cur_col kv\<rparr>
            else set_cursor (saved_row kv) (saved_col kv) kv)
         else if n = 0x37 then kv\<lparr>status_preserve := of_bool on\<rparr>
         else kv\<lparr>unknown_esc := unknown_esc kv + 1\<rparr>)"

definition e_attr :: "bool \<Rightarrow> u8 list \<Rightarrow> kaypro_video \<Rightarrow> kaypro_video option" where
  "e_attr on a kv = (case a of a0 # _ \<Rightarrow> Some (attr_set a0 on kv) | [] \<Rightarrow> None)"

record esc_entry =
  lead :: u8
  nargs :: int
  min_model :: int
  esc_fn :: "u8 list \<Rightarrow> kaypro_video \<Rightarrow> kaypro_video option"

definition esc_table :: "esc_entry list" where
  "esc_table =
     [\<lparr>lead = 0x3D, nargs = 2, min_model = KAYPRO_MODEL_II, esc_fn = e_cursor\<rparr>,
      \<lparr>lead = 0x42, nargs = 1, min_model = KAYPRO_MODEL_84, esc_fn = e_attr True\<rparr>,
      \<lparr>lead = 0x43, nargs = 1, min_model = KAYPRO_MODEL_84, esc_fn = e_attr False\<rparr>,
      \<lparr>lead = 0x52, nargs = 0, min_model = KAYPRO_MODEL_84, esc_fn = (\<lambda>_. delete_line)\<rparr>,
      \<lparr>lead = 0x45, nargs = 0, min_model = KAYPRO_MODEL_84, esc_fn = (\<lambda>_. insert_line)\<rparr>,
      \<lparr>lead = 0x41, nargs = 0, min_model = KAYPRO_MODEL_84, esc_fn = (\<lambda>_. Some)\<rparr>,
      \<lparr>lead = 0x2A, nargs = 2, min_model = KAYPRO_MODEL_84, esc_fn = (\<lambda>_. Some)\<rparr>,
      \<lparr>lead = 0x20, nargs = 2, min_model = KAYPRO_MODEL_84, esc_fn = (\<lambda>_. Some)\<rparr>,
      \<lparr>lead = 0x4C, nargs = 4, min_model = KAYPRO_MODEL_84, esc_fn = (\<lambda>_. Some)\<rparr>,
      \<lparr>lead = 0x44, nargs = 4, min_model = KAYPRO_MODEL_84, esc_fn = (\<lambda>_. Some)\<rparr>]"

definition esc_lookup :: "u8 \<Rightarrow> kaypro_video \<Rightarrow> esc_entry option" where
  "esc_lookup ch kv = find (\<lambda>e. lead e = ch \<and> model kv \<ge> min_model e) esc_table"

section \<open>The byte stream\<close>

definition zero_video :: kaypro_video where
  "zero_video = \<lparr>cells = replicate 2000 \<lparr>cch = 0, cattr = 0\<rparr>, cur_row = 0, cur_col = 0, attr = 0,
     cursor_visible = 0, model = 0, status_preserve = 0, saved_row = 0, saved_col = 0, video_mode = 0,
     gfx_pending = 0, gfx_first = 0, esc_state = 0, esc_lead = 0, esc_need = 0, esc_args = [0, 0, 0, 0],
     esc_nargs = 0, dirty_rows = 0, cursor_moved = 0, bytes_in = 0, bells = 0, unknown_ctrl = 0, unknown_esc = 0\<rparr>"

definition kaypro_video_init :: "int \<Rightarrow> kaypro_video option" where
  "kaypro_video_init m =
     (let kv = zero_video\<lparr>model := m, cursor_visible := 1, status_preserve := 1\<rparr>
      in do { cs \<leftarrow> blank_rows 0 (nat KV_ROWS) (cells kv);
              Some (mark_all_dirty (set_cursor 0 0 (kv\<lparr>cells := cs\<rparr>))) })"

text \<open>The byte after \<open>ESC\<close>, and an argument byte.\<close>

definition putc_esc :: "u8 \<Rightarrow> kaypro_video \<Rightarrow> kaypro_video option" where
  "putc_esc ch kv =
     (case esc_lookup ch kv of
        None \<Rightarrow> Some (kv\<lparr>unknown_esc := unknown_esc kv + 1, esc_state := 0\<rparr>)
      | Some e \<Rightarrow>
          (let kv = kv\<lparr>esc_lead := ch, esc_nargs := 0, esc_need := nargs e\<rparr>
           in if esc_need kv = 0 then (let kv = kv\<lparr>esc_state := 0\<rparr> in esc_fn e (esc_args kv) kv)
              else Some (kv\<lparr>esc_state := 2\<rparr>)))"

definition putc_arg :: "u8 \<Rightarrow> kaypro_video \<Rightarrow> kaypro_video option" where
  "putc_arg ch kv =
     (if \<not> (0 \<le> esc_nargs kv \<and> esc_nargs kv < int (length (esc_args kv))) then None
      else
        (let kv = kv\<lparr>esc_args := (esc_args kv)[nat (esc_nargs kv) := ch], esc_nargs := esc_nargs kv + 1,
                     esc_need := esc_need kv - 1\<rparr>
         in if esc_need kv = 0 then
              (let kv = kv\<lparr>esc_state := 0\<rparr>
               in case esc_lookup (esc_lead kv) kv of None \<Rightarrow> None | Some e \<Rightarrow> esc_fn e (esc_args kv) kv)
            else Some kv))"

definition putc_high :: "u8 \<Rightarrow> kaypro_video \<Rightarrow> kaypro_video option" where
  "putc_high ch kv =
     (if video_mode kv = 0 then
        (let low = ch AND 0x7F
         in if low \<ge> 0x20 \<and> low \<noteq> 0x7F then
              (let saved = attr kv
               in do { kv \<leftarrow> put_char low (kv\<lparr>attr := attr kv OR KV_ATTR_REVERSE\<rparr>); Some (kv\<lparr>attr := saved\<rparr>) })
            else put_char ch kv)
      else if gfx_pending kv = 0 then Some (kv\<lparr>gfx_pending := 1, gfx_first := ch\<rparr>)
      else
        (let kv = kv\<lparr>gfx_pending := 0\<rparr>; saved = attr kv;
             kv = kv\<lparr>attr := (saved AND NOT KV_ATTR_PIXEL7) OR (if gfx_first kv AND 1 \<noteq> 0 then KV_ATTR_PIXEL7 else 0)\<rparr>
         in do { kv \<leftarrow> put_char (0x80 OR (ch AND 0x7F)) kv; Some (kv\<lparr>attr := saved\<rparr>) }))"

definition kaypro_video_putc :: "u8 \<Rightarrow> kaypro_video \<Rightarrow> kaypro_video option" where
  "kaypro_video_putc ch kv =
     (let kv = kv\<lparr>bytes_in := bytes_in kv + 1\<rparr>
      in if esc_state kv = 1 then putc_esc ch kv
         else if esc_state kv = 2 then putc_arg ch kv
         else if ch AND 0x80 \<noteq> 0 then putc_high ch kv
         else if ch < 0x20 then
           (case ctrl_handlers ch of Some f \<Rightarrow> f kv | None \<Rightarrow> Some (kv\<lparr>unknown_ctrl := unknown_ctrl kv + 1\<rparr>))
         else if ch = 0x7F then Some kv
         else put_char ch kv)"

fun kaypro_video_write :: "u8 list \<Rightarrow> kaypro_video \<Rightarrow> kaypro_video option" where
  "kaypro_video_write [] kv = Some kv"
| "kaypro_video_write (ch # chs) kv = do { kv \<leftarrow> kaypro_video_putc ch kv; kaypro_video_write chs kv }"

text \<open>What the renderer resets after a repaint.\<close>

definition kaypro_video_row_dirty :: "int \<Rightarrow> kaypro_video \<Rightarrow> bool" where
  "kaypro_video_row_dirty r kv \<longleftrightarrow> drop_bit (nat r) (dirty_rows kv) AND 1 = 1"

definition kaypro_video_clear_dirty :: "kaypro_video \<Rightarrow> kaypro_video" where
  "kaypro_video_clear_dirty kv = kv\<lparr>dirty_rows := 0, cursor_moved := 0\<rparr>"

end
