(* ===== verification/Cpm_Bdos.thy ===== *)
theory Cpm_Bdos
  imports Cpm_Disk Kaypro_Kbd Kaypro_Video
begin

text \<open>
  The CP/M shim above the disk: the console (\<open>cpm/cpm_bios.c\<close>), the BIOS jump table and
  its dispatcher, the BDOS dispatcher (\<open>cpm/cpm_bdos.c\<close>) and the loader of \<open>.COM\<close> files
  (\<open>cpm/cpm_loader.c\<close>).  The static variables behind them are the record \<open>shim\<close>, which is the
  \<open>host\<close> field of the CPU here: the disk, the keyboard, the screen, what went to standard output
  and to the list device, the read-only vector and the user number.  Flushing
  output, painting the screen and the \<open>-d\<close> traces have no effect on this state.

  A call into the shim ends in one of four ways: it returns to the guest (with the flag that tells the
  run loop to continue), the process exits (the end of the input), it never returns
  (printing a string without a \<open>$\<close>), or it runs past the end of a buffer.
\<close>

section \<open>State\<close>

record shim =
  disk :: cpm_disk
  kbd :: kbd
  video :: kaypro_video
  kaypro_video_enabled :: bool
  stdout :: bytes
  list_fp :: "bytes option"
  ro_vector :: u16
  user_code :: u8

datatype shim_result = Returned bool "shim z80_cpu" | Exited | Looping | Overrun

section \<open>The console\<close>

text \<open>The \<open>--list\<close> file is kept apart from the host files of the disk.\<close>

definition cpm_list_out :: "u8 \<Rightarrow> shim \<Rightarrow> shim" where
  "cpm_list_out ch s = s\<lparr>list_fp := map_option (\<lambda>l. l @ [ch]) (list_fp s)\<rparr>"

text \<open>The screen never fails (\<open>video_stream_safe\<close>); the other branch keeps it.\<close>

definition cpm_conout :: "u8 \<Rightarrow> shim \<Rightarrow> shim" where
  "cpm_conout ch s =
     (let s = s\<lparr>kbd := kaypro_kbd_note_activity (kbd s)\<rparr>
      in if kaypro_video_enabled s
         then (case kaypro_video_putc ch (video s) of Some v \<Rightarrow> s\<lparr>video := v\<rparr> | None \<Rightarrow> s)
         else s\<lparr>stdout := stdout s @ [ch]\<rparr>)"

text \<open>\<open>None\<close> is \<open>exit(0)\<close>.\<close>

definition cpm_conin :: "shim \<Rightarrow> (u8 \<times> shim) option" where
  "cpm_conin s =
     (case kaypro_kbd_read (kbd s) of
        Quit \<Rightarrow> None
      | Ret KBD_END k \<Rightarrow> None
      | Ret (Byte c) k \<Rightarrow> Some (c, s\<lparr>kbd := k\<rparr>))"

definition cpm_constat :: "shim \<Rightarrow> (u8 \<times> shim) option" where
  "cpm_constat s =
     (case kaypro_kbd_poll (kbd s) of
        Quit \<Rightarrow> None
      | Ret b k \<Rightarrow> Some (if b then 0xFF else 0, s\<lparr>kbd := k\<rparr>))"

definition console_wait :: "shim \<Rightarrow> shim option" where
  "console_wait s = (case kaypro_kbd_wait (kbd s) of Quit \<Rightarrow> None | Ret u k \<Rightarrow> Some (s\<lparr>kbd := k\<rparr>))"

text \<open>The same on the CPU.\<close>

definition conout :: "u8 \<Rightarrow> shim z80_cpu \<Rightarrow> shim z80_cpu" where
  "conout ch cpu = cpu\<lparr>host := cpm_conout ch (host cpu)\<rparr>"

definition conouts :: "bytes \<Rightarrow> shim z80_cpu \<Rightarrow> shim z80_cpu" where
  "conouts bs cpu = fold conout bs cpu"

section \<open>Line input (BDOS 10)\<close>

text \<open>One character of the line editor: the new length, or the end of the line.\<close>

definition line_key :: "u16 \<Rightarrow> u8 \<Rightarrow> u8 \<Rightarrow> u8 \<Rightarrow> shim z80_cpu \<Rightarrow> (u8 + u8) \<times> shim z80_cpu" where
  "line_key de cap len ch cpu =
     (if ch = 0x0D \<or> ch = 0x0A then (Inl len, conouts [0x0D, 0x0A] cpu)
      else if ch = 0x08 \<or> ch = 0x7F then
        (if len > 0 then (Inr (len - 1), conouts [0x08, 0x20, 0x08] cpu) else (Inr len, cpu))
      else if ch = 0x15 then (Inr 0, conouts (concat (replicate (unat len) [0x08, 0x20, 0x08])) cpu)
      else if ch = 0x12 then (Inr len, conouts ([0x23, 0x0D, 0x0A] @ peeks (cmem cpu) (de + 2) (unat len)) cpu)
      else if 0x20 \<le> ch \<and> ch \<le> 0x7E \<and> len < cap then
        (Inr (len + 1), conout ch (poke cpu (de + 2 + ucast len) ch))
      else (Inr len, cpu))"

text \<open>The loop: \<open>Some None\<close> is the exit of the process at the end of the input.\<close>

partial_function (option) line_loop :: "u16 \<Rightarrow> u8 \<Rightarrow> u8 \<Rightarrow> shim z80_cpu \<Rightarrow> (u8 \<times> shim z80_cpu) option option" where
  "line_loop de cap len cpu =
     (case cpm_conin (host cpu) of
        None \<Rightarrow> Some None
      | Some (ch, s) \<Rightarrow>
          (case line_key de cap len ch (cpu\<lparr>host := s\<rparr>) of
             (Inl n, cpu) \<Rightarrow> Some (Some (n, cpu))
           | (Inr n, cpu) \<Rightarrow> line_loop de cap n cpu))"

definition cpm_read_console_buffer :: "shim z80_cpu \<Rightarrow> u16 \<Rightarrow> shim_result" where
  "cpm_read_console_buffer cpu de =
     (let cap = cmem cpu de
      in if cap = 0 then Returned True (set_a 0 (poke cpu (de + 1) 0))
         else
           (let cpu = z80_mem_host_wrote (pokes cpu 0x80 (replicate 128 0)) 0x80 128;
                cpu = poke cpu (de + 1) 0
            in case line_loop de cap 0 cpu of
                 None \<Rightarrow> Looping
               | Some None \<Rightarrow> Exited
               | Some (Some (len, cpu)) \<Rightarrow>
                   Returned True (set_a 0 (z80_mem_host_wrote (poke cpu (de + 1) len) de (2 + ucast len)))))"

section \<open>The BDOS dispatcher\<close>

definition ret_hl :: "u16 \<Rightarrow> 'h z80_cpu \<Rightarrow> 'h z80_cpu" where
  "ret_hl v cpu = (set_hl v cpu)\<lparr>reg_a := lo8 v, reg_b := hi8 v\<rparr>"

text \<open>\<open>for (;;) { ch = mem[addr]; if (ch == '$') break; conout(ch); addr++; }\<close>.  Printing does not change
  memory, so the loop ends within one tour of the address space or never.\<close>

fun print_string :: "nat \<Rightarrow> u16 \<Rightarrow> shim z80_cpu \<Rightarrow> shim z80_cpu option" where
  "print_string 0 addr cpu = None"
| "print_string (Suc n) addr cpu =
     (let ch = cmem cpu addr
      in if ch = 0x24 then Some cpu else print_string n (addr + 1) (conout ch cpu))"

text \<open>A disk call on the shim's disk.\<close>

definition with_disk :: "(shim z80_cpu \<Rightarrow> cpm_disk \<Rightarrow> shim z80_cpu \<times> cpm_disk) \<Rightarrow> shim z80_cpu \<Rightarrow> shim_result" where
  "with_disk f cpu =
     (let (cpu, d) = f cpu (disk (host cpu))
      in Returned True (cpu\<lparr>host := (host cpu)\<lparr>disk := d\<rparr>\<rparr>))"

definition with_search :: "(shim z80_cpu \<Rightarrow> cpm_disk \<Rightarrow> (shim z80_cpu \<times> cpm_disk) option) \<Rightarrow> shim z80_cpu \<Rightarrow> shim_result" where
  "with_search f cpu =
     (case f cpu (disk (host cpu)) of
        None \<Rightarrow> Overrun
      | Some (cpu, d) \<Rightarrow> Returned True (cpu\<lparr>host := (host cpu)\<lparr>disk := d\<rparr>\<rparr>))"

definition with_key :: "(shim \<Rightarrow> (u8 \<times> shim) option) \<Rightarrow> shim z80_cpu \<Rightarrow> shim_result" where
  "with_key f cpu =
     (case f (host cpu) of None \<Rightarrow> Exited | Some (c, s) \<Rightarrow> Returned True (set_a c (cpu\<lparr>host := s\<rparr>)))"

text \<open>Direct console I/O (BDOS 6).\<close>

definition direct_io :: "shim z80_cpu \<Rightarrow> shim_result" where
  "direct_io cpu =
     (if reg_e cpu = 0xFF then
        (case cpm_constat (host cpu) of
           None \<Rightarrow> Exited
         | Some (c, s) \<Rightarrow> if c \<noteq> 0 then with_key cpm_conin (cpu\<lparr>host := s\<rparr>) else Returned True (set_a 0 (cpu\<lparr>host := s\<rparr>)))
      else if reg_e cpu = 0xFE then with_key cpm_constat cpu
      else if reg_e cpu = 0xFD then with_key cpm_conin cpu
      else Returned True (set_a (reg_e cpu) (conout (reg_e cpu) cpu)))"

definition bdos_console :: "shim z80_cpu \<Rightarrow> shim_result" where
  "bdos_console cpu =
     (let func = unat (reg_c cpu)
      in if func = 0 then Returned False cpu
         else if func = 1 then with_key cpm_conin cpu
         else if func = 2 then Returned True (set_a 0 (conout (reg_e cpu) cpu))
         else if func = 3 then Returned True (set_a 0x1A cpu)
         else if func = 4 then Returned True cpu
         else if func = 5 then Returned True (cpu\<lparr>host := cpm_list_out (reg_e cpu) (host cpu)\<rparr>)
         else if func = 6 then direct_io cpu
         else if func = 7 then Returned True (set_a (cmem cpu 0x0003) cpu)
         else if func = 8 then Returned True (z80_mem_host_wrote (poke cpu 0x0003 (reg_e cpu)) 0x0003 1)
         else if func = 9 then
           (case print_string 65536 (reg_de cpu) cpu of None \<Rightarrow> Looping | Some cpu \<Rightarrow> Returned True (set_a 0 cpu))
         else if func = 10 then cpm_read_console_buffer cpu (reg_de cpu)
         else with_key cpm_constat cpu)"

text \<open>The calls that answer from the shim's own variables, and the unknown ones.\<close>

definition bdos_system :: "shim z80_cpu \<Rightarrow> shim_result" where
  "bdos_system cpu =
     (let func = unat (reg_c cpu); s = host cpu
      in if func = 12 then Returned True (set_hl 0x0022 cpu)
         else if func = 13 then
           Returned True (set_a 0 (cpu\<lparr>host := s\<lparr>disk := cpm_set_dma CPM_DEFAULT_DMA (disk s), ro_vector := 0\<rparr>\<rparr>))
         else if func = 14 \<or> func = 25 then Returned True (set_a 0 cpu)
         else if func = 24 then Returned True (ret_hl 0x0001 cpu)
         else if func = 28 then Returned True (set_a 0 (cpu\<lparr>host := s\<lparr>ro_vector := ro_vector s OR 1\<rparr>\<rparr>))
         else if func = 29 then Returned True (ret_hl (ro_vector s) cpu)
         else if func = 31 then Returned True (ret_hl CPM_SHIM_DPB cpu)
         else if func = 32 then
           Returned True (if reg_e cpu = 0xFF then set_a (user_code s) cpu
                          else set_a 0 (cpu\<lparr>host := s\<lparr>user_code := reg_e cpu AND 0x0F\<rparr>\<rparr>))
         else if func = 37 then
           Returned True (set_a 0 (cpu\<lparr>host := s\<lparr>ro_vector := ro_vector s AND NOT (reg_de cpu)\<rparr>\<rparr>))
         else Returned True ((set_hl 0 cpu)\<lparr>reg_a := 0, reg_b := 0\<rparr>))"

definition bdos_dispatch :: "shim z80_cpu \<Rightarrow> shim_result" where
  "bdos_dispatch cpu =
     (let func = unat (reg_c cpu); de = reg_de cpu
      in if func \<le> 11 then bdos_console cpu
         else if func = 15 then with_disk (\<lambda>cpu. cpm_bdos_open_file cpu de) cpu
         else if func = 16 then with_disk (\<lambda>cpu. cpm_bdos_close_file cpu de) cpu
         else if func = 17 then with_search (\<lambda>cpu. cpm_bdos_search_first cpu de) cpu
         else if func = 18 then with_search cpm_bdos_search_next cpu
         else if func = 19 then with_disk (\<lambda>cpu. cpm_bdos_delete_file cpu de) cpu
         else if func = 20 then with_disk (\<lambda>cpu. cpm_bdos_read_sequential cpu de) cpu
         else if func = 21 then with_disk (\<lambda>cpu. cpm_bdos_write_sequential cpu de) cpu
         else if func = 22 then with_disk (\<lambda>cpu. cpm_bdos_make_file cpu de) cpu
         else if func = 23 then with_disk (\<lambda>cpu. cpm_bdos_rename cpu de) cpu
         else if func = 26 then with_disk cpm_bdos_set_dma cpu
         else if func = 27 then with_disk (\<lambda>cpu d. (cpm_bdos_alloc_vector cpu d, d)) cpu
         else if func = 30 then with_disk (\<lambda>cpu. cpm_bdos_set_attributes cpu de) cpu
         else if func = 33 then with_disk (\<lambda>cpu. cpm_bdos_random_read cpu de) cpu
         else if func = 34 \<or> func = 40 then with_disk (\<lambda>cpu. cpm_bdos_random_write cpu de) cpu
         else if func = 35 then with_disk (\<lambda>cpu d. (cpm_bdos_file_size cpu de d, d)) cpu
         else if func = 36 then with_disk (\<lambda>cpu d. (cpm_bdos_set_random cpu de, d)) cpu
         else bdos_system cpu)"

section \<open>The BIOS\<close>

abbreviation (input) CPM_BIOS_COUNT :: nat where "CPM_BIOS_COUNT \<equiv> 17"

definition bios_vector :: "nat \<Rightarrow> 'h z80_cpu \<Rightarrow> 'h z80_cpu" where
  "bios_vector i cpu =
     (let vec = CPM_BIOS_BASE + of_nat (i * 3);
          dest = CPM_BIOS_BASE + 0x30 + of_nat (i * 3);
          cpu = poke cpu vec 0xC3;
          cpu = poke cpu (vec + 1) (lo8 dest)
      in poke cpu (vec + 2) (hi8 dest))"

definition cpm_install_bios :: "'h z80_cpu \<Rightarrow> 'h z80_cpu" where
  "cpm_install_bios cpu =
     (let cpu = fold bios_vector [0..<CPM_BIOS_COUNT] cpu;
          cpu = poke cpu 0x0001 (lo8 (CPM_BIOS_BASE + 3));
          cpu = poke cpu 0x0002 (hi8 (CPM_BIOS_BASE + 3))
      in pokes cpu CPM_BIOS_BASE [0x42, 0x49, 0x4F, 0x53])"

text \<open>The function behind a PC in the BIOS area; \<open>None\<close> is the initial -1.\<close>

definition bios_func :: "u16 \<Rightarrow> nat option" where
  "bios_func pc =
     (if CPM_BIOS_BASE \<le> pc \<and> unat pc < 0xF200 + CPM_BIOS_COUNT * 3 then Some ((unat pc - 0xF200) div 3)
      else if CPM_BIOS_BASE + 0x30 \<le> pc \<and> unat pc < 0xF230 + CPM_BIOS_COUNT * 3 then Some ((unat pc - 0xF230) div 3)
      else None)"

definition bios_dispatch :: "shim z80_cpu \<Rightarrow> shim_result" where
  "bios_dispatch cpu =
     (case bios_func (reg_pc cpu) of
        None \<Rightarrow> Returned True cpu
      | Some f \<Rightarrow>
          if f \<ge> CPM_BIOS_COUNT then Returned True cpu
          else if f = 0 \<or> f = 1 then Returned False cpu
          else if f = 2 then with_key cpm_constat cpu
          else if f = 3 then with_key cpm_conin cpu
          else if f = 4 then Returned True (conout (reg_c cpu) cpu)
          else if f = 5 then Returned True (cpu\<lparr>host := cpm_list_out (reg_c cpu) (host cpu)\<rparr>)
          else if f = 15 then Returned True (set_a 0xFF cpu)
          else Returned True cpu)"

section \<open>Loading a program\<close>

definition on_disk :: "(cpm_disk \<Rightarrow> cpm_disk) \<Rightarrow> shim z80_cpu \<Rightarrow> shim z80_cpu" where
  "on_disk f cpu = cpu\<lparr>host := (host cpu)\<lparr>disk := f (disk (host cpu))\<rparr>\<rparr>"

definition disk_defaults :: "shim z80_cpu \<Rightarrow> shim z80_cpu" where
  "disk_defaults cpu =
     (let (cpu, d) = cpm_disk_install_defaults cpu (disk (host cpu))
      in cpu\<lparr>host := (host cpu)\<lparr>disk := d\<rparr>\<rparr>)"

definition cpm_install :: "shim z80_cpu \<Rightarrow> shim z80_cpu" where
  "cpm_install cpu =
     (let cpu = pokes cpu 0x0000 [0xC3, 0x00, 0xF0];
          cpu = pokes cpu 0x0005 [0xC3, 0x00, 0xE4];
          cpu = pokes cpu 0xF000 [0x43, 0x50, 0x4D, 0x32, 0x4D, 0x4F, 0x4E, 0x53, 0x54, 0x45, 0x52, 0x00];
          cpu = on_disk cpm_disk_init cpu
      in disk_defaults cpu)"

text \<open>\<open>file\<close> is what opening and reading the \<open>.COM\<close> file yields, \<open>None\<close> if it cannot be opened; -1 is an
  error.\<close>

definition cpm_load_com :: "shim z80_cpu \<Rightarrow> bytes option \<Rightarrow> int \<times> shim z80_cpu" where
  "cpm_load_com cpu file =
     (case file of
        None \<Rightarrow> (-1, cpu)
      | Some img \<Rightarrow>
          if img = [] \<or> length img > 0xFE00 then (-1, cpu)
          else
            (let cpu = pokes cpu 0x0100 img;
                 cpu = cpu\<lparr>reg_pc := 0x0100, reg_sp := 0xFF00\<rparr>;
                 cpu = cpu\<lparr>reg_sp := reg_sp cpu - 2\<rparr>;
                 cpu = poke (poke cpu (reg_sp cpu) 0) (reg_sp cpu + 1) 0;
                 cpu = pokes cpu 0x5C (replicate 0x24 0);
                 cpu = pokes cpu 0x5D (replicate 11 0x20);
                 cpu = pokes cpu 0x6D (replicate 11 0x20);
                 cpu = poke cpu 0x80 0;
                 cpu = cpu\<lparr>reg_c := 0\<rparr>;
                 cpu = cpm_install cpu;
                 cpu = disk_defaults (on_disk cpm_disk_init cpu)
             in (0, cpm_install_bios cpu)))"

end
