(* ===== verification/Cpm_Host.thy ===== *)
theory Cpm_Host
  imports Cpm_Bdos
begin

text \<open>
  The host half of the native CP/M BIOS (\<open>cpm/cpm_host.c\<close>) and the default port device
  (\<open>cpm/cpm_ports.c\<close>).  A guest that runs a real BDOS and BIOS reaches the host through sixteen ports: console,
  list device, drive select, track, sector and DMA registers, and a disk command.  The C file's
  static variables are the record \<open>native\<close>, the \<open>host\<close> field of the CPU in this mode; the console half is the
  record \<open>shim\<close>, and the files behind the drives are a \<open>host_fs\<close>.  \<open>exit(0)\<close> sets \<open>exited\<close>: the process is
  gone and what the hooks return then is never seen.  Signals (the \<open>host_event\<close> flag), which paint the screen or end
  the process, are not modelled.
\<close>

section \<open>State\<close>

abbreviation (input) HOST_DRIVES :: nat where "HOST_DRIVES \<equiv> 16"
abbreviation (input) CPM_CCP_BASE :: u16 where "CPM_CCP_BASE \<equiv> 0xDC00"

record host_drive =
  drive_fp :: "handle option"
  drive_path :: "bytes option"
  drive_type :: int
  spt :: u32
  tracks :: u32
  readonly :: bool

record native =
  terminal :: shim
  images :: host_fs
  drives :: "host_drive list"
  cur_drive :: int
  cur_track :: u16
  cur_sector :: u16
  cur_dma :: u16
  last_result :: u8
  latch :: bytes
  sys_image :: "bytes option"
  sys_len :: u32
  sys_base :: u16
  exited :: bool

section \<open>Images\<close>

text \<open>The format of an image, by its size: type, records per track, tracks.\<close>

definition image_format :: "nat \<Rightarrow> (int \<times> u32 \<times> u32) option" where
  "image_format n =
     (if n = 409600 then Some (1, 40, 80)
      else if n = 8388608 then Some (2, 64, 1024)
      else None)"

definition cpm_host_mount :: "int \<Rightarrow> bytes \<Rightarrow> native \<Rightarrow> int \<times> native" where
  "cpm_host_mount drive path h =
     (if drive < 0 \<or> drive \<ge> int HOST_DRIVES then (-1, h)
      else case stat (images h) path of
        None \<Rightarrow> (-1, h)
      | Some st \<Rightarrow>
          (case image_format (length (fdata st)) of
             None \<Rightarrow> (-1, h)
           | Some (ty, sp, tr) \<Rightarrow>
               (let d = (drives h ! nat drive)\<lparr>drive_type := ty, spt := sp, tracks := tr\<rparr>;
                    put = (\<lambda>d. h\<lparr>drives := (drives h) [nat drive := d]\<rparr>)
                in case fopen_rw (images h) path of
                     Some f \<Rightarrow> (0, put (d\<lparr>drive_fp := Some f, readonly := False, drive_path := Some path\<rparr>))
                   | None \<Rightarrow>
                       (case fopen_r (images h) path of
                          Some f \<Rightarrow> (0, put (d\<lparr>drive_fp := Some f, readonly := True, drive_path := Some path\<rparr>))
                        | None \<Rightarrow> (-1, put (d\<lparr>drive_fp := None, readonly := True, drive_type := 0\<rparr>))))))"

definition cpm_host_drive_type :: "int \<Rightarrow> native \<Rightarrow> int" where
  "cpm_host_drive_type drive h =
     (if drive \<ge> 0 \<and> drive < int HOST_DRIVES then drive_type (drives h ! nat drive) else 0)"

definition cpm_host_set_system :: "bytes \<Rightarrow> u32 \<Rightarrow> u16 \<Rightarrow> native \<Rightarrow> native" where
  "cpm_host_set_system img len base h =
     h\<lparr>sys_image := Some (take (unat len) img), sys_len := len, sys_base := base\<rparr>"

text \<open>\<open>CPM_BIOS_BASE - sys_base\<close> is assigned to a \<open>uint32_t\<close>: it wraps when the base lies above the BIOS.\<close>

definition reload_system :: "native z80_cpu \<Rightarrow> native z80_cpu" where
  "reload_system cpu =
     (case sys_image (host cpu) of
        None \<Rightarrow> cpu
      | Some img \<Rightarrow>
          (let base = sys_base (host cpu);
               n = 0xF200 - ucast base :: u32;
               n = if n > sys_len (host cpu) then sys_len (host cpu) else n
           in z80_mem_host_wrote (pokes cpu base (take (unat n) img)) base n))"

definition disk_io :: "native z80_cpu \<Rightarrow> bool \<Rightarrow> u8 \<times> native z80_cpu" where
  "disk_io cpu wr =
     (let h = host cpu; d = drives h ! nat (cur_drive h)
      in if cur_drive h < 0 \<or> cur_drive h \<ge> int HOST_DRIVES then (1, cpu)
         else case drive_fp d of
           None \<Rightarrow> (1, cpu)
         | Some f \<Rightarrow>
             if ucast (cur_track h) \<ge> tracks d \<or> ucast (cur_sector h) \<ge> spt d then (1, cpu)
             else if wr \<and> readonly d then (1, cpu)
             else
               (let off = (unat (cur_track h) * unat (spt d) + unat (cur_sector h)) * 128
                in if \<not> fseek_ok (images h) f then (1, cpu)
                   else if wr then
                     (let (n, fs') = fwrite (images h) f off (peeks (cmem cpu) (cur_dma h) 128)
                      in (if n \<noteq> 128 then 1 else 0, cpu\<lparr>host := h\<lparr>images := fs'\<rparr>\<rparr>))
                   else
                     (let buf = fread (images h) f off 128;
                          buf = buf @ replicate (128 - length buf) 0xE5
                      in (0, z80_mem_host_wrote (pokes cpu (cur_dma h) buf) (cur_dma h) 128))))"

section \<open>The ports\<close>

definition process_exit :: "native z80_cpu \<Rightarrow> native z80_cpu" where
  "process_exit cpu = cpu\<lparr>host := (host cpu)\<lparr>exited := True\<rparr>\<rparr>"

definition key_port :: "(shim \<Rightarrow> (u8 \<times> shim) option) \<Rightarrow> native z80_cpu \<Rightarrow> u8 \<times> native z80_cpu" where
  "key_port f cpu =
     (case f (terminal (host cpu)) of
        None \<Rightarrow> (0, process_exit cpu)
      | Some (c, s) \<Rightarrow> (c, cpu\<lparr>host := (host cpu)\<lparr>terminal := s\<rparr>\<rparr>))"

definition host_in :: "native z80_cpu \<Rightarrow> u8 \<Rightarrow> u8 \<Rightarrow> u8 \<times> native z80_cpu" where
  "host_in cpu port high =
     (if port = 0xE0 then key_port cpm_constat cpu
      else if port = 0xE1 then key_port cpm_conin cpu
      else if port = 0xE3 then (0x1A, cpu)
      else if port = 0xE8 then (word_of_int (cpm_host_drive_type (cur_drive (host cpu)) (host cpu)), cpu)
      else if port = 0xEF then (last_result (host cpu), cpu)
      else (latch (host cpu) ! unat port, cpu))"

definition on_native :: "(native \<Rightarrow> native) \<Rightarrow> native z80_cpu \<Rightarrow> native z80_cpu" where
  "on_native f cpu = cpu\<lparr>host := f (host cpu)\<rparr>"

definition set_lo :: "u16 \<Rightarrow> u8 \<Rightarrow> u16" where
  "set_lo w v = (w AND 0xFF00) OR ucast v"

definition set_hi :: "u16 \<Rightarrow> u8 \<Rightarrow> u16" where
  "set_hi w v = (w AND 0x00FF) OR push_bit 8 (ucast v)"

definition host_out :: "native z80_cpu \<Rightarrow> u8 \<Rightarrow> u8 \<Rightarrow> u8 \<Rightarrow> native z80_cpu" where
  "host_out cpu port high val =
     (let cpu = on_native (\<lambda>h. h\<lparr>latch := (latch h) [unat port := val]\<rparr>) cpu
      in if port = 0xE1 then on_native (\<lambda>h. h\<lparr>terminal := cpm_conout val (terminal h)\<rparr>) cpu
         else if port = 0xE2 then on_native (\<lambda>h. h\<lparr>terminal := cpm_list_out val (terminal h)\<rparr>) cpu
         else if port = 0xE5 then
           (if val = 0 then reload_system cpu else if val = 1 then process_exit cpu else cpu)
         else if port = 0xE8 then
           on_native (\<lambda>h. h\<lparr>cur_drive := if unat val < HOST_DRIVES then int (unat val) else -1\<rparr>) cpu
         else if port = 0xE9 then on_native (\<lambda>h. h\<lparr>cur_track := set_lo (cur_track h) val\<rparr>) cpu
         else if port = 0xEA then on_native (\<lambda>h. h\<lparr>cur_track := set_hi (cur_track h) val\<rparr>) cpu
         else if port = 0xEB then on_native (\<lambda>h. h\<lparr>cur_sector := set_lo (cur_sector h) val\<rparr>) cpu
         else if port = 0xEC then on_native (\<lambda>h. h\<lparr>cur_sector := set_hi (cur_sector h) val\<rparr>) cpu
         else if port = 0xED then on_native (\<lambda>h. h\<lparr>cur_dma := set_lo (cur_dma h) val\<rparr>) cpu
         else if port = 0xEE then on_native (\<lambda>h. h\<lparr>cur_dma := set_hi (cur_dma h) val\<rparr>) cpu
         else if port = 0xEF then
           (let (r, cpu) = disk_io cpu (val = 1) in on_native (\<lambda>h. h\<lparr>last_result := r\<rparr>) cpu)
         else cpu)"

definition native_wait :: "native z80_cpu \<Rightarrow> native z80_cpu" where
  "native_wait cpu =
     (case console_wait (terminal (host cpu)) of
        None \<Rightarrow> process_exit cpu
      | Some s \<Rightarrow> cpu\<lparr>host := (host cpu)\<lparr>terminal := s\<rparr>\<rparr>)"

text \<open>\<open>cpm_host_install\<close>: the port hooks, with the shim's traps turned off, so that its two entry points are never
  reached (\<open>native_traps_off\<close>).\<close>

definition native_env :: "native z80_env" where
  "native_env = \<lparr>port_in = Some host_in, port_out = Some host_out, cpm_bdos_dispatch = \<lambda>cpu. (True, cpu),
     cpm_bios_dispatch = \<lambda>cpu. (True, cpu), cpm_console_wait = native_wait, cpm_traps_enabled = False\<rparr>"

definition cpm_host_install :: "native z80_cpu \<Rightarrow> native z80_cpu \<times> native z80_env" where
  "cpm_host_install cpu = (on_native (\<lambda>h. h\<lparr>latch := replicate 256 0xFF\<rparr>) cpu, native_env)"

text \<open>\<open>file\<close> is the system image file, \<open>None\<close> if it cannot be opened; \<open>fread\<close> stops at the size of the buffer.\<close>

definition cpm_host_boot :: "native z80_cpu \<Rightarrow> bytes option \<Rightarrow> int \<times> native z80_cpu" where
  "cpm_host_boot cpu file =
     (case file of
        None \<Rightarrow> (-1, cpu)
      | Some f \<Rightarrow>
          (let img = take 0x10000 f; n = length img
           in if n < 0x1600 + 51 then (-1, cpu)
              else
                (let n = if 0xDC00 + n > 0x10000 then 0x10000 - 0xDC00 else n;
                     cpu = pokes cpu CPM_CCP_BASE (take n img);
                     cpu = on_native (cpm_host_set_system img (of_nat n) CPM_CCP_BASE) cpu
                 in (0, cpu\<lparr>reg_pc := CPM_BIOS_BASE, reg_sp := 0x80\<rparr>))))"

section \<open>The default port device\<close>

definition ports_in :: "bytes z80_cpu \<Rightarrow> u8 \<Rightarrow> u8 \<Rightarrow> u8 \<times> bytes z80_cpu" where
  "ports_in cpu port high = (host cpu ! unat port, cpu)"

definition ports_out :: "bytes z80_cpu \<Rightarrow> u8 \<Rightarrow> u8 \<Rightarrow> u8 \<Rightarrow> bytes z80_cpu" where
  "ports_out cpu port high val = cpu\<lparr>host := (host cpu) [unat port := val]\<rparr>"

definition cpm_install_ports :: "bytes z80_cpu \<Rightarrow> bytes z80_env \<Rightarrow> bytes z80_cpu \<times> bytes z80_env" where
  "cpm_install_ports cpu env = (cpu\<lparr>host := replicate 256 0xFF\<rparr>, env\<lparr>port_in := Some ports_in, port_out := Some ports_out\<rparr>)"

end
