(* ===== verification/Cpm_Disk_Props.thy ===== *)
theory Cpm_Disk_Props
  imports Cpm_Disk
begin

text \<open>
  The shim's disk: the stores into guest memory, the record position kept in an FCB, the
  invariant \<open>disk_wf\<close> of the table of open files and its preservation by every call, the
  device of records that the transfers implement (the locale \<open>record_device\<close>, interpreted on
  the bytes of a host file), reading a file to its end, directory entries as names, the
  allocation vector, and where the fixed buffers of the directory search fail.
\<close>

named_theorems disk_simps "fields that the memory stores of the disk calls leave alone"

section \<open>Stores into guest memory\<close>

lemma mem_fcb_app: "mem_fcb m a k = m (a + of_nat k)"
  by (simp add: mem_fcb_def)

lemma length_peeks [simp]: "length (peeks m a n) = n"
  by (simp add: peeks_def)

lemma nth_peeks [simp]: "k < n \<Longrightarrow> peeks m a n ! k = m (a + of_nat k)"
  by (simp add: peeks_def)

lemma cmem_poke [simp]: "cmem (poke cpu a v) = (cmem cpu) (a := v)"
  by (simp add: poke_def)

lemma set_a_simps [simp]: "cmem (set_a v cpu) = cmem cpu" "reg_a (set_a v cpu) = v"
  "cdbt (set_a v cpu) = cdbt cpu" "host (set_a v cpu) = host cpu"
  by (simp_all add: set_a_def)

lemma u16_offset_less: "k < n \<Longrightarrow> n \<le> 65536 \<Longrightarrow> unat (of_nat k :: u16) = k"
  by (rule unat_of_nat_u16) simp

lemma unat_minus_1_u16 [simp]: "unat (- 1 :: u16) = 65535"
  by (simp add: unsigned_minus_1_eq_mask mask_eq_exp_minus_1)

lemma cmem_pokes:
  assumes "length bs \<le> 65536"
  shows "cmem (pokes cpu a bs) = (\<lambda>x. if unat (x - a) < length bs then bs ! unat (x - a) else cmem cpu x)"
  using assms
proof (induction bs arbitrary: cpu a)
  case Nil
  then show ?case by simp
next
  case (Cons b bs)
  show ?case
  proof
    fix x
    have *: "unat (x - (a + 1)) = (if x = a then 65535 else unat (x - a) - 1)"
    proof (cases "x = a")
      case True
      then show ?thesis by simp
    next
      case False
      then have "x - a \<noteq> 0" by simp
      then have "unat (x - a - 1) = unat (x - a) - 1" by (simp add: unat_minus_one)
      with False show ?thesis by (simp add: diff_diff_eq)
    qed
    show "cmem (pokes cpu a (b # bs)) x =
        (if unat (x - a) < length (b # bs) then (b # bs) ! unat (x - a) else cmem cpu x)"
    proof (cases "x = a")
      case True
      with Cons.prems show ?thesis by (simp add: Cons.IH *)
    next
      case False
      then have "0 < unat (x - a)" by (metis gr0I right_minus_eq unat_eq_zero)
      with False Cons.prems show ?thesis by (auto simp: Cons.IH * nth_Cons')
    qed
  qed
qed

lemma peeks_pokes:
  assumes "length bs \<le> 65536" "n = length bs"
  shows "peeks (cmem (pokes cpu a bs)) a n = bs"
  using assms by (auto intro!: nth_equalityI simp: cmem_pokes u16_offset_less [where n = "length bs"])

lemma cmem_fold_same: "cmem (fold (\<lambda>i cpu. let a = addr + of_nat i in z80_mem_w cpu a (cmem cpu a)) xs cpu) = cmem cpu"
  by (induction xs arbitrary: cpu) (simp_all add: Let_def)

lemma cmem_host_wrote [simp]: "cmem (z80_mem_host_wrote cpu a n) = cmem cpu"
  by (simp add: z80_mem_host_wrote_def cmem_fold_same)

lemma cmem_dma_store:
  "length bs \<le> 65536 \<Longrightarrow>
    cmem (dma_store cpu a bs) = (\<lambda>x. if unat (x - a) < length bs then bs ! unat (x - a) else cmem cpu x)"
  by (auto simp: dma_store_def cmem_pokes)

section \<open>The record position in an FCB\<close>

lemma u16_fields_distinct [simp]:
  "(a :: u16) + 32 \<noteq> a + 12" "a + 32 \<noteq> a + 14" "a + 12 \<noteq> a + 14" "a + 12 \<noteq> a + 32" "a + 14 \<noteq> a + 32"
  "a + 14 \<noteq> a + 12" "a + 15 \<noteq> a + 12" "a + 15 \<noteq> a + 14" "a + 15 \<noteq> a + 32"
  by simp_all

lemma cmem_set_record_pos:
  "cmem (fcb_set_record_pos cpu a r) = (cmem cpu) (a + 32 := ucast (r AND 0x7F),
     a + 12 := ucast (drop_bit 7 r AND 0x1F), a + 14 := ucast (drop_bit 12 r AND 0x0F))"
  by (simp add: fcb_set_record_pos_def Let_def)

lemma and_mask_take_bit:
  "(w :: 'a::len word) AND 0x7F = take_bit 7 w" "w AND 0x1F = take_bit 5 w" "w AND 0x0F = take_bit 4 w"
  "w AND 0xFFFF = take_bit 16 w"
  by (simp_all add: take_bit_eq_mask mask_eq_exp_minus_1)

lemma record_pos_set:
  assumes "m (a + 32) = ucast (r AND 0x7F)" "m (a + 12) = ucast (drop_bit 7 r AND 0x1F)"
    "m (a + 14) = ucast (drop_bit 12 r AND 0x0F)"
  shows "fcb_record_pos (mem_fcb m a) = take_bit 16 r"
proof (rule bit_word_eqI)
  fix n assume "n < LENGTH(32)"
  consider "n < 7" | "7 \<le> n" "n < 12" | "12 \<le> n" "n < 16" | "16 \<le> n" by linarith
  then show "bit (fcb_record_pos (mem_fcb m a)) n = bit (take_bit 16 r) n"
    by cases (auto simp: fcb_record_pos_def mem_fcb_app assms and_mask_take_bit bit_simps)
qed

text \<open>The position is below 65536, and a position stored is the position read back modulo that.\<close>

lemma record_pos_less: "unat (fcb_record_pos fcb) < 65536"
proof -
  have "fcb_record_pos fcb = take_bit 16 (fcb_record_pos fcb)"
    by (rule bit_word_eqI) (auto simp: fcb_record_pos_def and_mask_take_bit bit_simps)
  then have "unat (fcb_record_pos fcb) = take_bit 16 (unat (fcb_record_pos fcb))"
    by (metis unsigned_take_bit_eq)
  also have "\<dots> < 2 ^ 16" by (rule take_bit_nat_less_exp)
  finally show ?thesis by simp
qed

section \<open>Well-formed disks\<close>

definition fs_wf :: "host_fs \<Rightarrow> bool" where
  "fs_wf f \<longleftrightarrow> distinct (map fst (names f)) \<and> (\<forall>(p, n) \<in> set (names f). n < next_ino f)"

definition handle_ok :: "host_fs \<Rightarrow> handle \<Rightarrow> bool" where
  "handle_ok f h \<longleftrightarrow> h_ino h < next_ino f \<and> (h_write h \<longrightarrow> regular (inodes f (h_ino h)))"

definition slot_ok :: "cpm_disk \<Rightarrow> nat \<Rightarrow> bool" where
  "slot_ok d i \<longleftrightarrow>
     (case fp (open_files d ! i) of None \<Rightarrow> open_fcb_addr d ! i = 0 | Some h \<Rightarrow> handle_ok (fs d) h)"

definition owners_distinct :: "cpm_disk \<Rightarrow> bool" where
  "owners_distinct d \<longleftrightarrow>
     (\<forall>i < 8. \<forall>j < 8. fp (open_files d ! i) \<noteq> None \<and> fp (open_files d ! j) \<noteq> None \<and>
        open_fcb_addr d ! i = open_fcb_addr d ! j \<longrightarrow> i = j)"

text \<open>Eight slots, each free (and then owned by no FCB) or holding a handle on an existing file,
  with a different FCB address for each; names lead to existing files; a search in progress has
  its 36-byte FCB copy.\<close>

definition disk_wf :: "cpm_disk \<Rightarrow> bool" where
  "disk_wf d \<longleftrightarrow> length (open_files d) = 8 \<and> length (open_fcb_addr d) = 8 \<and> fs_wf (fs d) \<and>
     (\<forall>i < 8. slot_ok d i) \<and> owners_distinct d \<and> (search_dir d \<noteq> None \<longrightarrow> length (search_fcb d) = 36)"

lemma get_slot_Some:
  "get_file_slot_from_fcb d a = Some i \<Longrightarrow>
    i < 8 \<and> fp (open_files d ! i) \<noteq> None \<and> open_fcb_addr d ! i = a"
  by (auto simp: get_file_slot_from_fcb_def find_Some_iff)

lemma get_slot_None:
  "get_file_slot_from_fcb d a = None \<longleftrightarrow> (\<forall>i < 8. fp (open_files d ! i) = None \<or> open_fcb_addr d ! i \<noteq> a)"
  by (auto simp: get_file_slot_from_fcb_def find_None_iff)

lemma get_slot_eqI:
  assumes "owners_distinct d" "i < 8" "fp (open_files d ! i) \<noteq> None" "open_fcb_addr d ! i = a"
  shows "get_file_slot_from_fcb d a = Some i"
proof (cases "get_file_slot_from_fcb d a")
  case None
  with assms show ?thesis by (auto simp: get_slot_None)
next
  case (Some j)
  with get_slot_Some [OF Some] assms have "j = i" unfolding owners_distinct_def by metis
  with Some show ?thesis by simp
qed

lemma alloc_slot_Some: "alloc_file_slot d = Some i \<Longrightarrow> i < 8 \<and> fp (open_files d ! i) = None"
  by (auto simp: alloc_file_slot_def find_Some_iff)

lemma retire_slot_wf:
  assumes "disk_wf d"
  shows "disk_wf (retire_slot d a)" "get_file_slot_from_fcb (retire_slot d a) a = None"
    "fs (retire_slot d a) = fs d" "current_dma (retire_slot d a) = current_dma d" "a_root (retire_slot d a) = a_root d"
proof -
  show "fs (retire_slot d a) = fs d" "current_dma (retire_slot d a) = current_dma d" "a_root (retire_slot d a) = a_root d"
    by (simp_all add: retire_slot_def split: option.split)
  show "disk_wf (retire_slot d a)"
  proof (cases "get_file_slot_from_fcb d a")
    case (Some i)
    with assms get_slot_Some [OF Some] show ?thesis
      by (auto simp: retire_slot_def disk_wf_def slot_ok_def owners_distinct_def nth_list_update
          split: option.splits)
  qed (simp add: retire_slot_def assms)
  show "get_file_slot_from_fcb (retire_slot d a) a = None"
  proof (cases "get_file_slot_from_fcb d a")
    case (Some i)
    have "\<forall>j < 8. fp (open_files d ! j) = None \<or> open_fcb_addr d ! j \<noteq> a \<or> j = i"
      using assms get_slot_Some [OF Some] unfolding disk_wf_def owners_distinct_def by metis
    with Some assms get_slot_Some [OF Some] show ?thesis
      by (simp add: retire_slot_def disk_wf_def get_slot_None nth_list_update) blast
  qed (simp add: retire_slot_def)
qed

lemma fill_slot_wf:
  assumes "disk_wf d" "alloc_file_slot d = Some i" "handle_ok (fs d) h" "get_file_slot_from_fcb d a = None"
  shows "disk_wf (fill_slot d i h m a r)" "get_file_slot_from_fcb (fill_slot d i h m a r) a = Some i"
    "fp (open_files (fill_slot d i h m a r) ! i) = Some h" "i < 8"
    "fs (fill_slot d i h m a r) = fs d" "current_dma (fill_slot d i h m a r) = current_dma d"
proof -
  note i = alloc_slot_Some [OF assms(2)]
  then show "i < 8" by simp
  show wf: "disk_wf (fill_slot d i h m a r)"
    using assms i by (auto simp: fill_slot_def disk_wf_def slot_ok_def owners_distinct_def get_slot_None
        nth_list_update split: option.splits)
  show h: "fp (open_files (fill_slot d i h m a r) ! i) = Some h"
    using assms i by (simp add: fill_slot_def disk_wf_def)
  show "get_file_slot_from_fcb (fill_slot d i h m a r) a = Some i"
    using wf h i assms(1) by (intro get_slot_eqI) (auto simp: fill_slot_def disk_wf_def)
qed (simp_all add: fill_slot_def)

lemma stat_ino_less: "fs_wf f \<Longrightarrow> stat_ino f p = Some n \<Longrightarrow> n < next_ino f"
  by (auto simp: fs_wf_def dest!: stat_ino_Some)

lemma open_handle_ok: "fs_wf f \<Longrightarrow> open_rw_or_ro f p = Some h \<Longrightarrow> handle_ok f h"
  by (auto simp: open_rw_or_ro_def fopen_rw_def fopen_r_def handle_ok_def stat_ino_less
      split: option.splits if_splits)

lemma slot_for_io_Some:
  assumes "disk_wf d" "slot_for_io cpu a d = (Some i, d')"
  obtains h where "disk_wf d'" "get_file_slot_from_fcb d' a = Some i" "fp (open_files d' ! i) = Some h" "i < 8"
    "fs d' = fs d" "current_dma d' = current_dma d" "handle_ok (fs d) h"
proof (cases "get_file_slot_from_fcb d a")
  case (Some j)
  with assms(2) have "d' = d" "j = i" by (simp_all add: slot_for_io_def)
  moreover from Some get_slot_Some obtain h where "fp (open_files d ! j) = Some h" "j < 8" by blast
  moreover from this assms(1) have "handle_ok (fs d) h" unfolding disk_wf_def slot_ok_def by (metis option.simps(5))
  ultimately show thesis using Some assms(1) that by blast
next
  case None
  with assms(2) obtain h m where h: "open_rw_or_ro (fs d) m = Some h" "alloc_file_slot d = Some i"
    "d' = fill_slot d i h (cmem cpu) a (ucast (fcb_record_pos (mem_fcb (cmem cpu) a)))"
    by (auto simp: slot_for_io_def Let_def split: option.splits)
  moreover have "handle_ok (fs d) h" using open_handle_ok assms(1) h(1) by (auto simp: disk_wf_def)
  ultimately show thesis using fill_slot_wf [OF assms(1) h(2) _ None] that by blast
qed

lemma slot_for_io_None:
  assumes "slot_for_io cpu a d = (None, d')"
  shows "d' = d"
  using assms by (auto simp: slot_for_io_def Let_def split: option.splits)

section \<open>Records of a file\<close>

text \<open>Record \<open>r\<close> of a file: its 128 bytes, where the file reads as zeros past its end.  Storing a
  record is a write at \<open>128 * r\<close>.\<close>

definition file_rd :: "bytes \<Rightarrow> nat \<Rightarrow> bytes" where
  "file_rd data r = map (\<lambda>k. if r * 128 + k < length data then data ! (r * 128 + k) else 0) [0..<128]"

definition file_wr :: "bytes \<Rightarrow> nat \<Rightarrow> bytes \<Rightarrow> bytes" where
  "file_wr data r bs = splice data (r * 128) bs"

text \<open>A device of records: what is written to a record is read from it, and no other record
  changes.\<close>

locale record_device =
  fixes rd :: "'d \<Rightarrow> 'r \<Rightarrow> bytes" and wr :: "'d \<Rightarrow> 'r \<Rightarrow> bytes \<Rightarrow> 'd" and rec :: "'r \<Rightarrow> bool"
  assumes rd_wr: "rec r \<Longrightarrow> rec r' \<Longrightarrow> length bs = 128 \<Longrightarrow> rd (wr d r bs) r' = (if r' = r then bs else rd d r')"
begin

definition wr_all :: "('r \<times> bytes) list \<Rightarrow> 'd \<Rightarrow> 'd" where
  "wr_all ws d = fold (\<lambda>(r, bs) d. wr d r bs) ws d"

text \<open>After a series of writes a record holds the last bytes written to it.\<close>

lemma rd_wr_all:
  assumes "\<forall>(r, bs) \<in> set ws. rec r \<and> length bs = 128" "rec r'"
  shows "rd (wr_all ws d) r' = (case map_of (rev ws) r' of None \<Rightarrow> rd d r' | Some bs \<Rightarrow> bs)"
  using assms
proof (induction ws arbitrary: d)
  case (Cons w ws)
  obtain r bs where w: "w = (r, bs)" by (cases w)
  have "rd (wr_all (w # ws) d) r' = rd (wr_all ws (wr d r bs)) r'" by (simp add: wr_all_def w)
  also have "\<dots> = (case map_of (rev ws) r' of None \<Rightarrow> rd (wr d r bs) r' | Some b \<Rightarrow> b)"
    using Cons by simp
  finally show ?case using Cons.prems by (auto simp: w rd_wr map_add_def split: option.split)
qed (simp add: wr_all_def)

end

lemma length_file_rd [simp]: "length (file_rd data r) = 128"
  by (simp add: file_rd_def)

lemma file_rd_wr:
  assumes "length bs = 128"
  shows "file_rd (file_wr data r bs) r' = (if r' = r then bs else file_rd data r')"
proof (rule nth_equalityI)
  fix k assume "k < length (file_rd (file_wr data r bs) r')"
  then have k: "k < 128" by simp
  consider "r' = r" | "r' < r" | "r < r'" by linarith
  then show "file_rd (file_wr data r bs) r' ! k = (if r' = r then bs else file_rd data r') ! k"
  proof cases
    case 2
    then have "r' * 128 + 128 \<le> r * 128" by simp
    with 2 k assms show ?thesis by (simp add: file_rd_def file_wr_def length_splice nth_splice less_max_iff_disj)
  next
    case 3
    then have "r * 128 + 128 \<le> r' * 128" by simp
    with 3 k assms show ?thesis by (simp add: file_rd_def file_wr_def length_splice nth_splice less_max_iff_disj)
  qed (use k assms in \<open>simp add: file_rd_def file_wr_def length_splice nth_splice less_max_iff_disj\<close>)
qed (use assms in simp)

interpretation hf: record_device file_rd file_wr "\<lambda>_. True"
  by unfold_locales (rule file_rd_wr)

section \<open>Transfers\<close>

text \<open>The file an FCB is open on.\<close>

definition fcb_file :: "cpm_disk \<Rightarrow> u16 \<Rightarrow> nat option" where
  "fcb_file d a =
     (case get_file_slot_from_fcb d a of None \<Rightarrow> None | Some i \<Rightarrow> map_option h_ino (fp (open_files d ! i)))"

lemma set_logical_record_simps [simp]:
  "fs (set_logical_record d i r) = fs d" "current_dma (set_logical_record d i r) = current_dma d"
  "fp (open_files (set_logical_record d i r) ! j) = fp (open_files d ! j)"
  "open_fcb_addr (set_logical_record d i r) = open_fcb_addr d"
  "length (open_files (set_logical_record d i r)) = length (open_files d)"
  "search_dir (set_logical_record d i r) = search_dir d" "search_fcb (set_logical_record d i r) = search_fcb d"
  "a_root (set_logical_record d i r) = a_root d"
  by (cases "i < length (open_files d)"; cases "j = i"; simp add: set_logical_record_def nth_list_update not_less list_update_beyond)+

lemma get_slot_cong:
  assumes "\<And>j. fp (open_files d' ! j) = fp (open_files d ! j)" "open_fcb_addr d' = open_fcb_addr d"
  shows "get_file_slot_from_fcb d' a = get_file_slot_from_fcb d a"
  by (simp add: get_file_slot_from_fcb_def assms)

lemma set_logical_record_wf [simp]: "disk_wf (set_logical_record d i r) = disk_wf d"
  by (simp add: disk_wf_def slot_ok_def owners_distinct_def cong: option.case_cong)

lemma fcb_file_simps [simp]:
  "fcb_file (set_logical_record d i r) a = fcb_file d a" "fcb_file (d\<lparr>fs := f\<rparr>) a = fcb_file d a"
  by (simp_all add: fcb_file_def get_slot_cong [of "set_logical_record d i r" d] get_slot_cong [of "d\<lparr>fs := f\<rparr>" d] cong: option.case_cong)

text \<open>A write through a handle of the disk changes only the bytes of its file.\<close>

lemma write_wf:
  assumes "disk_wf d"
  shows "disk_wf (d\<lparr>fs := (fs d)\<lparr>inodes := (inodes (fs d)) (n := (inodes (fs d) n)\<lparr>fdata := x\<rparr>)\<rparr>\<rparr>)"
  using assms by (auto simp: disk_wf_def slot_ok_def owners_distinct_def fs_wf_def handle_ok_def split: option.splits)

text \<open>The record a sequential call is about, and the one a random call is about.\<close>

abbreviation seq_rec :: "'h z80_cpu \<Rightarrow> u16 \<Rightarrow> u32" where
  "seq_rec cpu a \<equiv> fcb_record_pos (mem_fcb (cmem cpu) a)"

abbreviation rand_rec :: "'h z80_cpu \<Rightarrow> u16 \<Rightarrow> u32" where
  "rand_rec cpu a \<equiv> get_random_record (mem_fcb (cmem cpu) a)"

abbreviation file_bytes :: "cpm_disk \<Rightarrow> nat \<Rightarrow> bytes" where
  "file_bytes d n \<equiv> fdata (inodes (fs d) n)"

text \<open>The common body of the two reads and of the two writes: \<open>r\<close> is the record, \<open>next\<close> the position
  stored back, \<open>err\<close> the code for a host error.\<close>

definition read_record :: "'h z80_cpu \<Rightarrow> u16 \<Rightarrow> cpm_disk \<Rightarrow> u32 \<Rightarrow> u32 \<Rightarrow> 'h z80_cpu \<times> cpm_disk" where
  "read_record cpu a d r next =
     (case slot_for_io cpu a d of
        (None, d) \<Rightarrow> (set_a 1 cpu, d)
      | (Some slot, d) \<Rightarrow>
          (let h = the (fp (open_files d ! slot))
           in if \<not> fseek_ok (fs d) h then (set_a 1 cpu, d)
              else
                (let buf = fread (fs d) h (unat r * 128) 128;
                     cpu = dma_store cpu (current_dma d) buf
                 in if buf = [] then (set_a 1 cpu, d)
                    else (set_a 0 (fcb_set_record_pos cpu a next), set_logical_record d slot (ucast next)))))"

definition write_record :: "'h z80_cpu \<Rightarrow> u16 \<Rightarrow> cpm_disk \<Rightarrow> u32 \<Rightarrow> u32 \<Rightarrow> u8 \<Rightarrow> 'h z80_cpu \<times> cpm_disk" where
  "write_record cpu a d r next err =
     (case slot_for_io cpu a d of
        (None, d) \<Rightarrow> (set_a 1 cpu, d)
      | (Some slot, d) \<Rightarrow>
          (let h = the (fp (open_files d ! slot))
           in if \<not> fseek_ok (fs d) h then (set_a err cpu, d)
              else
                (let (n, f) = fwrite (fs d) h (unat r * 128) (peeks (cmem cpu) (current_dma d) 128);
                     d = d\<lparr>fs := f\<rparr>
                 in if n \<noteq> 128 then (set_a err cpu, d)
                    else (set_a 0 (bump_rc (fcb_set_record_pos cpu a next) a),
                          set_logical_record d slot (ucast next)))))"

lemma transfers_alt:
  "cpm_bdos_read_sequential cpu a d = read_record cpu a d (seq_rec cpu a) (seq_rec cpu a + 1)"
  "cpm_bdos_random_read cpu a d = read_record cpu a d (rand_rec cpu a) (rand_rec cpu a)"
  "cpm_bdos_write_sequential cpu a d = write_record cpu a d (seq_rec cpu a) (seq_rec cpu a + 1) 1"
  "cpm_bdos_random_write cpu a d = write_record cpu a d (rand_rec cpu a) (rand_rec cpu a) 2"
  by (simp_all add: cpm_bdos_read_sequential_def cpm_bdos_random_read_def cpm_bdos_write_sequential_def
      cpm_bdos_random_write_def read_record_def write_record_def Let_def split: prod.split option.split)

lemma read_record_cases:
  assumes "disk_wf d" "read_record cpu a d r next = (cpu', d')"
  obtains (fail) "reg_a cpu' = 1" "cmem cpu' = cmem cpu" "fs d' = fs d" "disk_wf d'" "current_dma d' = current_dma d"
      "\<And>n. fcb_file d a = Some n \<Longrightarrow> regular (inodes (fs d) n) \<Longrightarrow> length (file_bytes d n) \<le> unat r * 128"
  | (ok) n where "reg_a cpu' = 0" "fcb_file d' a = Some n" "fs d' = fs d" "disk_wf d'" "current_dma d' = current_dma d"
      "unat r * 128 < length (file_bytes d n)" "regular (inodes (fs d) n)"
      "cmem cpu' = cmem (fcb_set_record_pos
         (dma_store cpu (current_dma d) (take 128 (drop (unat r * 128) (file_bytes d n)))) a next)"
      "\<And>m. fcb_file d a = Some m \<Longrightarrow> m = n"
proof (cases "slot_for_io cpu a d")
  case (Pair so d1)
  show thesis
  proof (cases so)
    case None
    then have "slot_for_io cpu a d = (None, d1)" using Pair by simp
    moreover from slot_for_io_None [OF this] have "d1 = d" .
    moreover have "fcb_file d a = None"
      using calculation by (auto simp: slot_for_io_def fcb_file_def split: option.splits)
    ultimately show thesis using assms fail by (auto simp: read_record_def)
  next
    case (Some i)
    with Pair have io: "slot_for_io cpu a d = (Some i, d1)" by simp
    obtain h where h: "disk_wf d1" "get_file_slot_from_fcb d1 a = Some i" "fp (open_files d1 ! i) = Some h" "i < 8"
      "fs d1 = fs d" "current_dma d1 = current_dma d" "handle_ok (fs d) h"
      using slot_for_io_Some [OF assms(1) io] .
    have same: "fcb_file d a = Some m \<Longrightarrow> m = h_ino h" for m
      using io h by (auto simp: slot_for_io_def fcb_file_def split: option.splits)
    define buf where "buf = fread (fs d) h (unat r * 128) 128"
    have f: "fcb_file d1 a = Some (h_ino h)" using h by (simp add: fcb_file_def)
    show thesis
    proof (cases "fseek_ok (fs d) h \<and> buf \<noteq> []")
      case True
      then have "cpu' = set_a 0 (fcb_set_record_pos (dma_store cpu (current_dma d) buf) a next)"
        "d' = set_logical_record d1 i (ucast next)"
        using assms(2) h by (auto simp: read_record_def io Let_def buf_def)
      moreover have "buf = take 128 (drop (unat r * 128) (file_bytes d (h_ino h)))"
        "unat r * 128 < length (file_bytes d (h_ino h))" "regular (inodes (fs d) (h_ino h))"
        using True by (auto simp: buf_def fread_def fseek_ok_def)
      ultimately show thesis using ok [of "h_ino h"] h f same by simp
    next
      case False
      then have c: "cpu' = set_a 1 (if fseek_ok (fs d) h then dma_store cpu (current_dma d) buf else cpu)" "d' = d1"
        "fseek_ok (fs d) h \<longrightarrow> buf = []"
        using assms(2) h by (auto simp: read_record_def io Let_def buf_def split: if_splits)
      then have c': "cpu' = set_a 1 cpu" by (simp add: dma_store_def)
      have "length (file_bytes d m) \<le> unat r * 128"
        if "fcb_file d a = Some m" "regular (inodes (fs d) m)" for m
        using same [OF that(1)] that(2) c(3) by (simp add: fseek_ok_def buf_def fread_def)
      with h c(2) show thesis by (intro fail) (simp_all add: c')
    qed
  qed
qed

lemma write_record_cases:
  assumes "disk_wf d" "write_record cpu a d r next err = (cpu', d')" "err \<noteq> 0"
  obtains (fail) "reg_a cpu' \<noteq> 0" "cmem cpu' = cmem cpu" "fs d' = fs d" "disk_wf d'" "current_dma d' = current_dma d"
  | (ok) n where "reg_a cpu' = 0" "fcb_file d' a = Some n" "disk_wf d'" "current_dma d' = current_dma d"
      "regular (inodes (fs d) n)"
      "fs d' = (fs d)\<lparr>inodes := (inodes (fs d)) (n := (inodes (fs d) n)\<lparr>fdata :=
         file_wr (file_bytes d n) (unat r) (peeks (cmem cpu) (current_dma d) 128)\<rparr>)\<rparr>"
      "cmem cpu' = cmem (bump_rc (fcb_set_record_pos cpu a next) a)"
proof (cases "slot_for_io cpu a d")
  case (Pair so d1)
  show thesis
  proof (cases so)
    case None
    then have "slot_for_io cpu a d = (None, d1)" using Pair by simp
    moreover from slot_for_io_None [OF this] have "d1 = d" .
    ultimately show thesis using assms fail by (auto simp: write_record_def)
  next
    case (Some i)
    with Pair have io: "slot_for_io cpu a d = (Some i, d1)" by simp
    obtain h where h: "disk_wf d1" "get_file_slot_from_fcb d1 a = Some i" "fp (open_files d1 ! i) = Some h" "i < 8"
      "fs d1 = fs d" "current_dma d1 = current_dma d" "handle_ok (fs d) h"
      using slot_for_io_Some [OF assms(1) io] .
    have f: "fcb_file d1 a = Some (h_ino h)" using h by (simp add: fcb_file_def)
    show thesis
    proof (cases "fseek_ok (fs d) h \<and> h_write h")
      case True
      define x where "x = file_wr (file_bytes d (h_ino h)) (unat r) (peeks (cmem cpu) (current_dma d) 128)"
      from True have "cpu' = set_a 0 (bump_rc (fcb_set_record_pos cpu a next) a)"
        "d' = set_logical_record (d1\<lparr>fs := (fs d1)\<lparr>inodes := (inodes (fs d1)) (h_ino h :=
                (inodes (fs d1) (h_ino h))\<lparr>fdata := x\<rparr>)\<rparr>\<rparr>) i (ucast next)"
        using assms(2) h by (auto simp: write_record_def io Let_def fwrite_def x_def file_wr_def)
      with True h f write_wf [OF h(1)] show thesis
        by (intro ok [of "h_ino h"]) (simp_all add: fseek_ok_def x_def)
    next
      case False
      then have "cpu' = set_a err cpu" "d' = d1"
        using assms(2) h by (auto simp: write_record_def io Let_def fwrite_def split: if_splits)
      then show thesis using fail h assms(3) by simp
    qed
  qed
qed

section \<open>What is written is read back\<close>

lemma cmem_bump_rc: "x \<noteq> a + 15 \<Longrightarrow> cmem (bump_rc cpu a) x = cmem cpu x"
  by (simp add: bump_rc_def)

lemma take_128_file_rd:
  assumes "r * 128 + k < length data" "k < 128"
  shows "take 128 (drop (r * 128) data) ! k = file_rd data r ! k"
  using assms by (simp add: file_rd_def)

text \<open>The DMA buffer after a successful read: the record, as far as the file has it, when the buffer
  does not hold the position fields of the FCB.\<close>

lemma dma_after_read:
  assumes "cmem cpu' = cmem (fcb_set_record_pos (dma_store cpu dma (take 128 (drop (r * 128) data))) a next)"
    and "\<forall>k < 128. dma + of_nat k \<notin> {a + 12, a + 14, a + 32}" and "k < 128"
  shows "cmem cpu' (dma + of_nat k) =
    (if r * 128 + k < length data then file_rd data r ! k else cmem cpu (dma + of_nat k))"
proof -
  let ?b = "take 128 (drop (r * 128) data)"
  have len: "length ?b = min 128 (length data - r * 128)" by simp
  have "cmem cpu' (dma + of_nat k) = cmem (dma_store cpu dma ?b) (dma + of_nat k)"
    using assms by (simp add: cmem_set_record_pos)
  also have "\<dots> = (if k < length ?b then ?b ! k else cmem cpu (dma + of_nat k))"
    using assms(3) by (simp add: cmem_dma_store unat_of_nat_u16 del: take_drop)
  also have "k < length ?b \<longleftrightarrow> r * 128 + k < length data" using assms(3) by auto
  finally show ?thesis using assms(3) take_128_file_rd by auto
qed

lemma set_dma_simps [simp]: "fs (cpm_set_dma x d) = fs d" "current_dma (cpm_set_dma x d) = x"
  "open_files (cpm_set_dma x d) = open_files d" "open_fcb_addr (cpm_set_dma x d) = open_fcb_addr d"
  "disk_wf (cpm_set_dma x d) = disk_wf d" "fcb_file (cpm_set_dma x d) a = fcb_file d a"
  by (simp_all add: cpm_set_dma_def disk_wf_def slot_ok_def owners_distinct_def fcb_file_def
      get_file_slot_from_fcb_def cong: option.case_cong)

lemma write_then_read:
  assumes wf: "disk_wf d" and w: "write_record cpu a d r next err = (cpu1, d1)" "err \<noteq> 0" "reg_a cpu1 = 0"
    and rd: "read_record cpu2 a (cpm_set_dma dma d1) r next' = (cpu3, d3)"
    and dis: "\<forall>k < 128. dma + of_nat k \<notin> {a + 12, a + 14, a + 32}"
  shows "reg_a cpu3 = 0 \<and> peeks (cmem cpu3) dma 128 = peeks (cmem cpu) (current_dma d) 128 \<and> fs d3 = fs d1"
proof -
  let ?bs = "peeks (cmem cpu) (current_dma d) 128"
  obtain n where n: "fcb_file d1 a = Some n" "disk_wf d1" "regular (inodes (fs d) n)"
    "fs d1 = (fs d)\<lparr>inodes := (inodes (fs d)) (n := (inodes (fs d) n)\<lparr>fdata :=
         file_wr (file_bytes d n) (unat r) ?bs\<rparr>)\<rparr>"
    by (rule write_record_cases [OF wf w(1,2)]) (simp_all add: w(3))
  then have wf1: "disk_wf (cpm_set_dma dma d1)" by simp
  have b: "file_bytes d1 n = file_wr (file_bytes d n) (unat r) ?bs" "regular (inodes (fs d1) n)"
    using n by simp_all
  have l: "unat r * 128 + 128 \<le> length (file_bytes d1 n)" by (simp add: b(1) file_wr_def length_splice)
  from wf1 rd show ?thesis
  proof (cases rule: read_record_cases)
    case fail
    from fail(6) [of n] n b l show ?thesis by simp
  next
    case (ok m)
    then have m: "m = n" using n by simp
    have "peeks (cmem cpu3) dma 128 = ?bs"
    proof (rule nth_equalityI)
      fix k assume "k < length (peeks (cmem cpu3) dma 128)"
      then have k: "k < 128" by simp
      have "cmem cpu3 (dma + of_nat k) = file_rd (file_bytes d1 n) (unat r) ! k"
        using dma_after_read [of cpu3 cpu2 dma "unat r" "file_bytes d1 n" a next' k] ok(8) m dis k l by simp
      then show "peeks (cmem cpu3) dma 128 ! k = ?bs ! k" using k by (simp add: b(1) file_rd_wr)
    qed simp
    with ok show ?thesis by simp
  qed
qed

text \<open>C21: A record written through an FCB, sequentially or at its random record number, is what a
  later read of that record through the FCB delivers into the DMA buffer, byte for byte and with
  A = 0, whatever the guest did to its memory and registers in between and whichever of the two
  kinds of call it uses.\<close>

theorem disk_write_read:
  assumes "disk_wf d"
    and "(if rnd then cpm_bdos_random_write else cpm_bdos_write_sequential) cpu a d = (cpu1, d1)" "reg_a cpu1 = 0"
    and "(if rnd' then cpm_bdos_random_read else cpm_bdos_read_sequential) cpu2 a (cpm_set_dma dma d1) = (cpu3, d3)"
    and "(if rnd' then rand_rec cpu2 a else seq_rec cpu2 a) = (if rnd then rand_rec cpu a else seq_rec cpu a)"
    and "\<forall>k < 128. dma + of_nat k \<notin> {a + 12, a + 14, a + 32}"
  shows "reg_a cpu3 = 0 \<and> peeks (cmem cpu3) dma 128 = peeks (cmem cpu) (current_dma d) 128 \<and> fs d3 = fs d1"
proof -
  define r where "r = (if rnd then rand_rec cpu a else seq_rec cpu a)"
  have W: "write_record cpu a d r (if rnd then r else r + 1) (if rnd then 2 else 1) = (cpu1, d1)"
    using assms(2) by (simp add: transfers_alt r_def split: if_splits)
  have R: "read_record cpu2 a (cpm_set_dma dma d1) r (if rnd' then r else r + 1) = (cpu3, d3)"
    using assms(4,5) by (simp add: transfers_alt r_def split: if_splits)
  show ?thesis by (rule write_then_read [OF assms(1) W _ assms(3) R assms(6)]) simp
qed

section \<open>Files as sequences of records\<close>

text \<open>The disk as a specification sees it: for each file, its records.\<close>

definition disk_abs :: "cpm_disk \<Rightarrow> nat \<Rightarrow> nat \<Rightarrow> bytes" where
  "disk_abs d n r = file_rd (file_bytes d n) r"

text \<open>C10: Writes refine a store of records.  A successful write through an FCB, sequential or random,
  replaces one record of the file the FCB is open on (the file of the slot that the call finds for it), the one whose number
  the FCB holds, by the
  128 bytes at the DMA address; every other record of that file (including those the host fills
  with zeros when the file grows) and every other file keep their contents, and no name changes.\<close>

theorem disk_write_refines:
  assumes "disk_wf d"
    and "(if rnd then cpm_bdos_random_write else cpm_bdos_write_sequential) cpu a d = (cpu1, d1)" "reg_a cpu1 = 0"
  shows "\<exists>n. fcb_file d1 a = Some n \<and> names (fs d1) = names (fs d) \<and>
    disk_abs d1 = (disk_abs d) (n := (disk_abs d n)
      (unat (if rnd then rand_rec cpu a else seq_rec cpu a) := peeks (cmem cpu) (current_dma d) 128))"
proof -
  define r where "r = (if rnd then rand_rec cpu a else seq_rec cpu a)"
  have W: "write_record cpu a d r (if rnd then r else r + 1) (if rnd then 2 else 1) = (cpu1, d1)"
    using assms(2) by (simp add: transfers_alt r_def split: if_splits)
  have e: "(if rnd then 2 else 1 :: u8) \<noteq> 0" by simp
  from assms(1) W e show ?thesis
  proof (cases rule: write_record_cases)
    case (ok n)
    then show ?thesis
      by (intro exI [of _ n]) (simp add: disk_abs_def fun_eq_iff file_rd_wr r_def)
  qed (use assms(3) in auto)
qed

text \<open>A guest that reads a file record by record, up to the call that reports the end: what it found
  in its DMA buffer, record after record.\<close>

fun read_all :: "nat \<Rightarrow> 'h z80_cpu \<Rightarrow> u16 \<Rightarrow> cpm_disk \<Rightarrow> bytes option" where
  "read_all 0 cpu a d = None"
| "read_all (Suc fuel) cpu a d =
     (case cpm_bdos_read_sequential cpu a d of
        (cpu', d') \<Rightarrow>
          if reg_a cpu' \<noteq> 0 then Some []
          else map_option (\<lambda>bs. peeks (cmem cpu') (current_dma d) 128 @ bs) (read_all fuel cpu' a d'))"

lemma record_pos_advance:
  assumes "cmem cpu' = cmem (fcb_set_record_pos cpu a r)" "unat r < 65536"
  shows "seq_rec cpu' a = r"
proof -
  have "seq_rec cpu' a = take_bit 16 r"
    by (rule record_pos_set) (simp_all add: assms(1) cmem_set_record_pos)
  also have "\<dots> = r"
  proof (rule word_unat_eq_iff [THEN iffD2])
    have "unat (take_bit 16 r) = take_bit 16 (unat r)" by (rule unsigned_take_bit_eq)
    also have "\<dots> = unat r" using assms(2) by (simp add: take_bit_nat_eq_self)
    finally show "unat (take_bit 16 r) = unat r" .
  qed
  finally show ?thesis .
qed

lemma unat_u32_Suc: "unat (x :: u32) < 65535 \<Longrightarrow> unat (x + 1) = unat x + 1"
  by (simp add: unat_word_ariths)

lemma read_all_from:
  assumes "disk_wf d" "fcb_file d a = Some n" "regular (inodes (fs d) n)"
    and "length (file_bytes d n) \<le> 65535 * 128"
    and "\<forall>k < 128. current_dma d + of_nat k \<notin> {a + 12, a + 14, a + 32}"
    and "unat (seq_rec cpu a) = r" "(length (file_bytes d n) + 127) div 128 - r = m"
  shows "\<exists>out. read_all (Suc m) cpu a d = Some out \<and> length out = m * 128 \<and>
    take (length (file_bytes d n) - r * 128) out = drop (r * 128) (file_bytes d n)"
  using assms
proof (induction m arbitrary: cpu d r)
  case 0
  then have "length (file_bytes d n) \<le> r * 128" by linarith
  obtain cpu' d' where rd: "read_record cpu a d (seq_rec cpu a) (seq_rec cpu a + 1) = (cpu', d')"
    by (metis surj_pair)
  show ?case
  proof (rule read_record_cases [OF 0(1) rd])
    assume "reg_a cpu' = 1"
    with \<open>length (file_bytes d n) \<le> r * 128\<close> show ?thesis by (simp add: transfers_alt rd)
  next
    fix m assume m: "unat (seq_rec cpu a) * 128 < length (file_bytes d m)" "\<And>k. fcb_file d a = Some k \<Longrightarrow> k = m"
    from m(2) [OF 0(2)] m(1) 0(6) \<open>length (file_bytes d n) \<le> r * 128\<close> show ?thesis by simp
  qed
next
  case (Suc m)
  let ?data = "file_bytes d n"
  have len: "r * 128 < length ?data" using Suc.prems(7) by linarith
  obtain cpu' d' where rd: "read_record cpu a d (seq_rec cpu a) (seq_rec cpu a + 1) = (cpu', d')"
    by (metis surj_pair)
  show ?case
  proof (rule read_record_cases [OF Suc.prems(1) rd])
    assume f: "\<And>n. fcb_file d a = Some n \<Longrightarrow> regular (inodes (fs d) n) \<Longrightarrow>
      length (file_bytes d n) \<le> unat (seq_rec cpu a) * 128"
    from f [OF Suc.prems(2,3)] Suc.prems(6) len show ?thesis by simp
  next
    fix n' assume ok: "reg_a cpu' = 0" "fcb_file d' a = Some n'" "fs d' = fs d" "disk_wf d'"
      "current_dma d' = current_dma d"
      "cmem cpu' = cmem (fcb_set_record_pos (dma_store cpu (current_dma d)
         (take 128 (drop (unat (seq_rec cpu a) * 128) (file_bytes d n')))) a (seq_rec cpu a + 1))"
      "\<And>k. fcb_file d a = Some k \<Longrightarrow> k = n'"
    from ok(7) Suc.prems(2) have n': "n' = n" by blast
    have r: "r < 65535" using len Suc.prems(4) by linarith
    then have un: "unat (seq_rec cpu a + 1) = r + 1" using unat_u32_Suc Suc.prems(6) by metis
    with r have pos: "seq_rec cpu' a = seq_rec cpu a + 1" by (intro record_pos_advance [OF ok(6)]) simp
    have "\<exists>out. read_all (Suc m) cpu' a d' = Some out \<and> length out = m * 128 \<and>
        take (length (file_bytes d' n) - (r + 1) * 128) out = drop ((r + 1) * 128) (file_bytes d' n)"
    proof (rule Suc.IH)
      show "fcb_file d' a = Some n" using ok(2) n' by simp
      show "unat (seq_rec cpu' a) = r + 1" using pos un by simp
    qed (use Suc.prems ok(3-5) in auto)
    then obtain out where out: "read_all (Suc m) cpu' a d' = Some out" "length out = m * 128"
      "take (length ?data - (r + 1) * 128) out = drop ((r + 1) * 128) ?data" unfolding ok(3) by blast
    let ?buf = "peeks (cmem cpu') (current_dma d) 128"
    have buf: "take (length ?data - r * 128) ?buf = take 128 (drop (r * 128) ?data)"
    proof (rule nth_equalityI)
      fix k assume "k < length (take (length ?data - r * 128) ?buf)"
      then have k: "k < 128" "r * 128 + k < length ?data" by auto
      have "cmem cpu' (current_dma d + of_nat k) = file_rd ?data r ! k"
        using dma_after_read [OF ok(6) Suc.prems(5) k(1)] k n' Suc.prems(6) by simp
      with k show "take (length ?data - r * 128) ?buf ! k = take 128 (drop (r * 128) ?data) ! k"
        by (simp add: file_rd_def)
    qed simp
    have "take (length ?data - r * 128) (?buf @ out) = take 128 (drop (r * 128) ?data) @ drop ((r + 1) * 128) ?data"
      using buf out(3) by (simp add: diff_diff_eq add.commute)
    also have "\<dots> = drop (r * 128) ?data"
      using append_take_drop_id [of 128 "drop (r * 128) ?data"] by (simp add: add.commute)
    finally show ?thesis using out ok(1) by (simp add: transfers_alt rd)
  qed
qed

text \<open>C20: Reading a file sequentially from its first record, call after call until A is not 0,
  ends after one call more than the file has records, and the DMA buffers, one after the other,
  hold the bytes of the file (the last one padded with what the buffer held before), for a file of at most
  65535 records and a DMA buffer that does not touch the position fields of the FCB.\<close>

theorem sequential_read_all:
  assumes "disk_wf d" "fcb_file d a = Some n" "regular (inodes (fs d) n)"
    and "length (fdata (inodes (fs d) n)) \<le> 65535 * 128"
    and "\<forall>k < 128. current_dma d + of_nat k \<notin> {a + 12, a + 14, a + 32}"
    and "fcb_record_pos (mem_fcb (cmem cpu) a) = 0"
  shows "\<exists>out. read_all ((length (fdata (inodes (fs d) n)) + 127) div 128 + 1) cpu a d = Some out \<and>
    take (length (fdata (inodes (fs d) n))) out = fdata (inodes (fs d) n) \<and>
    length out = (length (fdata (inodes (fs d) n)) + 127) div 128 * 128"
  using read_all_from [OF assms(1-5), of cpu 0 "(length (fdata (inodes (fs d) n)) + 127) div 128"] assms(6)
  by (auto simp: mem_fcb_def)

section \<open>Every call keeps the disk well formed\<close>

lemma transfers_wf:
  assumes "disk_wf d"
  shows "disk_wf (snd (cpm_bdos_read_sequential cpu a d))" "disk_wf (snd (cpm_bdos_random_read cpu a d))"
    "disk_wf (snd (cpm_bdos_write_sequential cpu a d))" "disk_wf (snd (cpm_bdos_random_write cpu a d))"
proof -
  have r: "disk_wf (snd (read_record cpu a d r nx))" for r nx
    by (cases "read_record cpu a d r nx") (auto elim: read_record_cases [OF assms])
  have w: "disk_wf (snd (write_record cpu a d r nx err))" if "err \<noteq> 0" for r nx err
    by (cases "write_record cpu a d r nx err") (use that in \<open>auto elim: write_record_cases [OF assms]\<close>)
  show "disk_wf (snd (cpm_bdos_read_sequential cpu a d))" "disk_wf (snd (cpm_bdos_random_read cpu a d))"
    "disk_wf (snd (cpm_bdos_write_sequential cpu a d))" "disk_wf (snd (cpm_bdos_random_write cpu a d))"
    by (simp_all add: transfers_alt r w)
qed

text \<open>The file table may change under the open handles as long as no file disappears and no file
  stops being regular.\<close>

definition fs_extends :: "host_fs \<Rightarrow> host_fs \<Rightarrow> bool" where
  "fs_extends f f' \<longleftrightarrow> fs_wf f' \<and> next_ino f \<le> next_ino f' \<and>
     (\<forall>n < next_ino f. regular (inodes f n) \<longrightarrow> regular (inodes f' n))"

lemma fs_extends_wf: "disk_wf d \<Longrightarrow> fs_extends (fs d) f \<Longrightarrow> disk_wf (d\<lparr>fs := f\<rparr>)"
  by (fastforce simp: disk_wf_def slot_ok_def owners_distinct_def handle_ok_def fs_extends_def
      split: option.splits)

lemma open_file_wf:
  assumes "disk_wf d"
  shows "disk_wf (snd (cpm_bdos_open_file cpu a d))"
proof -
  note r = retire_slot_wf [OF assms, of a]
  have "disk_wf (fill_slot (retire_slot d a) i h m a x)"
    if "open_rw_or_ro (fs (retire_slot d a)) p = Some h" "alloc_file_slot (retire_slot d a) = Some i" for h p i m x
    by (rule fill_slot_wf(1) [OF r(1) that(2) _ r(2)], rule open_handle_ok [OF _ that(1)])
      (use r(1) in \<open>simp add: disk_wf_def\<close>)
  with r(1) show ?thesis
    by (simp add: cpm_bdos_open_file_def Let_def split: option.split)
qed

lemma close_file_wf: "disk_wf d \<Longrightarrow> disk_wf (snd (cpm_bdos_close_file cpu a d))"
  by (simp add: cpm_bdos_close_file_def retire_slot_wf)

lemma stat_ino_new: "fs_wf f \<Longrightarrow> p \<noteq> [] \<Longrightarrow> stat_ino f p = None \<Longrightarrow> p \<notin> fst ` set (names f)"
  by (auto simp: stat_ino_def map_of_eq_None_iff)

lemma fopen_w_extends:
  assumes "fs_wf f" "fopen_w f p = Some (h, f')"
  shows "fs_extends f f' \<and> handle_ok f' h"
  using assms stat_ino_less [OF assms(1)] stat_ino_new [OF assms(1)]
  by (fastforce simp: fopen_w_def fs_extends_def fs_wf_def handle_ok_def Let_def split: option.splits if_splits)

lemma make_file_wf:
  assumes "disk_wf d"
  shows "disk_wf (snd (cpm_bdos_make_file cpu a d))"
proof -
  let ?d = "retire_slot d a"
  note r = retire_slot_wf [OF assms, of a]
  have wf: "disk_wf (?d\<lparr>fs := f\<rparr>)" "handle_ok f h" if "fopen_w (fs ?d) p = Some (h, f)" for h f p
    using fopen_w_extends [OF _ that] fs_extends_wf [OF r(1)] r(1) by (auto simp: disk_wf_def)
  have "get_file_slot_from_fcb (?d\<lparr>fs := f\<rparr>) a = None" for f
    using r(2) by (simp add: get_file_slot_from_fcb_def)
  with wf have "disk_wf (fill_slot (?d\<lparr>fs := f\<rparr>) i h m a x)"
    if "fopen_w (fs ?d) p = Some (h, f)" "alloc_file_slot (?d\<lparr>fs := f\<rparr>) = Some i" for h f p i m x
    using fill_slot_wf(1) [OF wf(1) [OF that(1)] that(2)] that by simp
  with r(1) wf(1) show ?thesis
    by (simp add: cpm_bdos_make_file_def Let_def split: option.split prod.split)
qed

lemma distinct_map_filter_fst: "distinct (map fst xs) \<Longrightarrow> distinct (map fst (filter P xs))"
  by (rule distinct_map_filter)

lemma unlink_extends: "fs_wf f \<Longrightarrow> unlink f p = Some f' \<Longrightarrow> fs_extends f f'"
  by (auto simp: unlink_def fs_extends_def fs_wf_def distinct_map_filter split: option.splits if_splits)

lemma delete_file_wf: "disk_wf d \<Longrightarrow> disk_wf (snd (cpm_bdos_delete_file cpu a d))"
  using retire_slot_wf [of d a] unlink_extends [of "fs (retire_slot d a)"] fs_extends_wf [of "retire_slot d a"]
  by (auto simp: cpm_bdos_delete_file_def Let_def disk_wf_def [of "retire_slot d a"] split: option.split)

lemma rename_distinct:
  assumes "distinct (map fst xs)" "new \<notin> fst ` set xs"
  shows "distinct (map (fst \<circ> (\<lambda>(p, i). (if p = old then new else p, i))) xs)"
  using assms by (induction xs) (fastforce simp: image_iff split: if_splits)+

lemma rename_extends: "fs_wf f \<Longrightarrow> rename f old new = Some f' \<Longrightarrow> fs_extends f f'"
  by (auto simp: rename_def fs_extends_def fs_wf_def distinct_map_filter
      intro!: rename_distinct split: option.splits if_splits)

lemma rename_wf: "disk_wf d \<Longrightarrow> disk_wf (snd (cpm_bdos_rename cpu a d))"
  using retire_slot_wf [of d a] rename_extends [of "fs (retire_slot d a)"] fs_extends_wf [of "retire_slot d a"]
  by (auto simp: cpm_bdos_rename_def Let_def disk_wf_def [of "retire_slot d a"] split: option.split)

lemma chmod_extends: "fs_wf f \<Longrightarrow> chmod f p m = Some f' \<Longrightarrow> fs_extends f f'"
  by (auto simp: chmod_def fs_extends_def fs_wf_def split: option.splits)

lemma set_attributes_wf: "disk_wf d \<Longrightarrow> disk_wf (snd (cpm_bdos_set_attributes cpu a d))"
  using chmod_extends [of "fs d"] fs_extends_wf [of d]
  by (auto simp: cpm_bdos_set_attributes_def Let_def disk_wf_def [of d] split: option.split)

lemma search_wf:
  assumes "disk_wf d"
  shows "cpm_bdos_search_first cpu a d = Some r \<Longrightarrow> disk_wf (snd r)"
    "cpm_bdos_search_next cpu d = Some r \<Longrightarrow> disk_wf (snd r)"
  using assms
  by (auto simp: cpm_bdos_search_first_def cpm_bdos_search_next_def search_result_def disk_wf_def slot_ok_def
      owners_distinct_def Let_def split: option.splits)

lemma disk_init_wf: "fs_wf (fs d) \<Longrightarrow> search_dir d = None \<Longrightarrow> disk_wf (cpm_disk_init d)"
  by (simp add: cpm_disk_init_def disk_wf_def slot_ok_def owners_distinct_def closed_slot_def)

lemmas disk_calls_wf = transfers_wf open_file_wf close_file_wf make_file_wf delete_file_wf rename_wf
  set_attributes_wf search_wf

section \<open>A disk with one open file\<close>

definition demo_fs :: host_fs where
  "demo_fs = \<lparr>names = [([0x41, 0x2E, 0x54], 0)], inodes = \<lambda>_. \<lparr>fdata = [1, 2, 3], fmode = 0x1A4, regular = True\<rparr>,
     next_ino = 1, superuser = False, dir_exists = \<lambda>_. True, dir_writable = \<lambda>_. True\<rparr>"

definition demo_disk :: cpm_disk where
  "demo_disk = \<lparr>current_dma = 0x80,
     open_files = (replicate 8 closed_slot) [0 := closed_slot\<lparr>fp := Some \<lparr>h_ino = 0, h_write = True\<rparr>\<rparr>],
     open_fcb_addr = (replicate 8 0) [0 := 0x5C], a_root = [], search_dir = None, search_pattern = [],
     search_fcb = [], stack_junk = \<lambda>_. 0x58, fs = demo_fs\<rparr>"

definition demo_dcpu :: "unit z80_cpu" where
  "demo_dcpu = z80_cpu_init None ()"

lemma demo_disk_wf: "disk_wf demo_disk"
  by (auto simp: demo_disk_def demo_fs_def disk_wf_def slot_ok_def owners_distinct_def fs_wf_def handle_ok_def
      closed_slot_def nth_list_update)

lemma demo_slot: "get_file_slot_from_fcb demo_disk 0x5C = Some 0" "fcb_file demo_disk 0x5C = Some 0"
proof -
  show g: "get_file_slot_from_fcb demo_disk 0x5C = Some 0"
    by (rule get_slot_eqI) (use demo_disk_wf in \<open>simp_all add: disk_wf_def demo_disk_def closed_slot_def\<close>)
  show "fcb_file demo_disk 0x5C = Some 0"
    unfolding fcb_file_def g by (simp add: demo_disk_def closed_slot_def)
qed

lemma dma_page_clear: "128 \<le> unat (x :: u16) \<Longrightarrow> x \<notin> {0x5C + 12, 0x5C + 14, 0x5C + 32}"
  by auto

lemma default_dma_clear: "\<forall>k < 128. (0x80 :: u16) + of_nat k \<notin> {0x5C + 12, 0x5C + 14, 0x5C + 32}"
proof (intro allI impI)
  fix k :: nat assume "k < 128"
  then have "unat ((0x80 :: u16) + of_nat k) = 128 + k" by (simp add: unat_word_ariths unat_of_nat_u16)
  then show "(0x80 :: u16) + of_nat k \<notin> {0x5C + 12, 0x5C + 14, 0x5C + 32}"
    by (intro dma_page_clear) linarith
qed

lemma demo_pos: "fcb_record_pos (mem_fcb (cmem demo_dcpu) 0x5C) = 0"
  by (simp add: demo_dcpu_def z80_cpu_init_def zero_cpu_def fcb_record_pos_def mem_fcb_app)

lemma demo_write: "reg_a (fst (cpm_bdos_write_sequential demo_dcpu 0x5C demo_disk)) = 0"
  by (simp add: cpm_bdos_write_sequential_def slot_for_io_def demo_slot fseek_ok_def fwrite_def Let_def)
    (simp add: demo_disk_def demo_fs_def closed_slot_def)

theorem disk_write_read_witness:
  "let (cpu1, d1) = cpm_bdos_write_sequential demo_dcpu 0x5C demo_disk;
       (cpu3, d3) = cpm_bdos_read_sequential demo_dcpu 0x5C (cpm_set_dma 0x80 d1)
   in reg_a cpu3 = 0 \<and> peeks (cmem cpu3) 0x80 128 = peeks (cmem demo_dcpu) (current_dma demo_disk) 128 \<and> fs d3 = fs d1"
proof -
  obtain cpu1 d1 where w: "cpm_bdos_write_sequential demo_dcpu 0x5C demo_disk = (cpu1, d1)" by (metis surj_pair)
  obtain cpu3 d3 where r: "cpm_bdos_read_sequential demo_dcpu 0x5C (cpm_set_dma 0x80 d1) = (cpu3, d3)" by (metis surj_pair)
  have "reg_a cpu3 = 0 \<and> peeks (cmem cpu3) 0x80 128 = peeks (cmem demo_dcpu) (current_dma demo_disk) 128 \<and> fs d3 = fs d1"
    by (rule disk_write_read [OF demo_disk_wf _ _ _ _ default_dma_clear, where rnd = False and rnd' = False])
      (use w r demo_write in simp_all)
  then show ?thesis by (simp add: w r)
qed

theorem disk_write_refines_witness:
  "\<exists>n. fcb_file (snd (cpm_bdos_write_sequential demo_dcpu 0x5C demo_disk)) 0x5C = Some n \<and>
    disk_abs (snd (cpm_bdos_write_sequential demo_dcpu 0x5C demo_disk)) n 0 = replicate 128 0"
proof -
  obtain n where "fcb_file (snd (cpm_bdos_write_sequential demo_dcpu 0x5C demo_disk)) 0x5C = Some n"
    "disk_abs (snd (cpm_bdos_write_sequential demo_dcpu 0x5C demo_disk)) = (disk_abs demo_disk) (n := (disk_abs demo_disk n)
      (unat (seq_rec demo_dcpu 0x5C) := peeks (cmem demo_dcpu) (current_dma demo_disk) 128))"
    using disk_write_refines [OF demo_disk_wf, of False demo_dcpu "0x5C"] demo_write by (auto simp: prod_eq_iff)
  moreover have "peeks (cmem demo_dcpu) (current_dma demo_disk) 128 = replicate 128 0"
    by (rule nth_equalityI) (simp_all add: demo_dcpu_def z80_cpu_init_def zero_cpu_def)
  ultimately show ?thesis by (auto simp: demo_pos)
qed

theorem sequential_read_all_witness:
  "\<exists>out. read_all ((length (fdata (inodes (fs demo_disk) 0)) + 127) div 128 + 1) demo_dcpu 0x5C demo_disk = Some out \<and>
    take (length (fdata (inodes (fs demo_disk) 0))) out = fdata (inodes (fs demo_disk) 0) \<and>
    length out = (length (fdata (inodes (fs demo_disk) 0)) + 127) div 128 * 128"
proof (rule sequential_read_all [OF demo_disk_wf demo_slot(2) _ _ _ demo_pos])
  show "\<forall>k<128. current_dma demo_disk + word_of_nat k \<notin> {0x5C + 12, 0x5C + 14, 0x5C + 32}"
    using default_dma_clear by (simp add: demo_disk_def)
qed (simp_all add: demo_disk_def demo_fs_def)

section \<open>Directory entries\<close>

text \<open>A name as CP/M writes it: one to eight characters, and up to three of an extension, printable,
  without blanks and dots, in upper case.\<close>

definition name_char :: "u8 \<Rightarrow> bool" where
  "name_char c \<longleftrightarrow> 0x21 \<le> c \<and> c \<le> 0x7E \<and> c \<noteq> 0x2E \<and> toupper c = c"

definition cpm_name :: "bytes \<Rightarrow> bytes \<Rightarrow> bool" where
  "cpm_name base ext \<longleftrightarrow> base \<noteq> [] \<and> length base \<le> 8 \<and> length ext \<le> 3 \<and> list_all name_char (base @ ext)"

definition host_name_of :: "bytes \<Rightarrow> bytes \<Rightarrow> bytes" where
  "host_name_of base ext = (if ext = [] then base else base @ 0x2E # ext)"

lemma split_last_ext:
  assumes "c \<notin> set ext"
  shows "split_last c (base @ c # ext) = Some (base, ext)"
proof -
  have "takeWhile (\<lambda>x. x \<noteq> c) (rev ext @ c # rev base) = rev ext"
    by (subst takeWhile_append2) (use assms in auto)
  then show ?thesis by (simp add: split_last_def Let_def)
qed

lemma name_char_mask: "name_char c \<Longrightarrow> c AND 0x7F = c \<and> c \<noteq> 0x20 \<and> c \<noteq> 0"
proof -
  assume c: "name_char c"
  then have "unat c < 128" by (auto simp: name_char_def word_le_nat_alt)
  then have "take_bit 7 (unat c) = unat c" by (simp add: take_bit_nat_eq_self)
  then have "unat (take_bit 7 c) = unat c" by (simp add: unsigned_take_bit_eq)
  then have "take_bit 7 c = c" by (rule word_unat_eq_iff [THEN iffD2])
  then have "c AND 0x7F = c" by (simp add: and_mask_take_bit)
  with c show ?thesis by (auto simp: name_char_def)
qed

lemma pad_name_eq:
  assumes "list_all name_char s" "length s \<le> n"
  shows "pad_name n s = s @ replicate (n - length s) 0x20"
  using assms by (auto intro!: nth_equalityI simp: pad_name_def nth_append list_all_length name_char_def)

lemma strip_padded:
  assumes "list_all name_char s"
  shows "strip_blanks (s @ replicate k 0x20) = s"
proof -
  have "dropWhile (\<lambda>c. c = 0x20) (rev s) = rev s"
  proof (cases "rev s")
    case (Cons c cs)
    then have "c \<in> set s" by (metis list.set_intros(1) set_rev)
    with assms Cons show ?thesis using name_char_mask by (auto simp: list_all_iff)
  qed simp
  moreover have "0 \<notin> set s" using assms name_char_mask by (auto simp: list_all_iff)
  moreover have "dropWhile (\<lambda>c. c = 0x20) (replicate k 0x20 @ rev s) = dropWhile (\<lambda>c. c = 0x20) (rev s)"
    by (rule dropWhile_append2) simp
  ultimately show ?thesis by (simp add: strip_blanks_def c_str_id)
qed

lemma map_and_mask:
  assumes "list_all name_char s"
  shows "map (\<lambda>c. c AND 0x7F) (s @ replicate k 0x20) = s @ replicate k 0x20"
  using assms name_char_mask by (auto simp: list_all_iff intro: map_idI)

lemma dir_entry_fields:
  assumes "cpm_name base ext"
  shows "\<exists>de t. fill_dir_entry f (host_name_of base ext) full drive = Some de \<and> length de = 32 \<and> length t = 3 \<and>
    map (\<lambda>c. c AND 0x7F) t = ext @ replicate (3 - length ext) 0x20 \<and>
    de = [drive] @ (base @ replicate (8 - length base) 0x20) @ t @ [0, 0, 0, 1] @ replicate 16 0"
proof -
  have chars: "list_all name_char base" "list_all name_char ext" "length base \<le> 8" "length ext \<le> 3"
    using assms by (simp_all add: cpm_name_def)
  have nodot: "0x2E \<notin> set base" "0x2E \<notin> set ext" using chars(1,2) by (auto simp: list_all_iff name_char_def)
  have sp: "(case split_last 0x2E (host_name_of base ext) of
      Some (b, e) \<Rightarrow> (b, take 3 e) | None \<Rightarrow> (take 8 (host_name_of base ext), [])) = (base, ext)"
  proof (cases "ext = []")
    case True
    with nodot chars show ?thesis by (simp add: host_name_of_def split_last_def)
  next
    case False
    with nodot chars show ?thesis by (simp add: host_name_of_def split_last_ext)
  qed
  define t where "t = (let t = ext @ replicate (3 - length ext) 0x20
    in if (case stat f full of Some s \<Rightarrow> fmode s AND 0x92 = 0 | None \<Rightarrow> False) then t[0 := t ! 0 OR 0x80] else t)"
  have t: "length t = 3" using chars by (simp add: t_def Let_def)
  have or: "(x OR 0x80) AND 0x7F = x AND (0x7F :: u8)" for x by (simp add: bit.conj_disj_distrib2)
  have upd: "map (\<lambda>c. c AND 0x7F) (xs[0 := xs ! 0 OR 0x80]) = map (\<lambda>c. c AND 0x7F) xs" for xs :: bytes
    unfolding map_update or by (metis list_update_id map_update)
  have "map (\<lambda>c. c AND 0x7F) t = map (\<lambda>c. c AND 0x7F) (ext @ replicate (3 - length ext) 0x20)"
    unfolding t_def Let_def using upd by simp
  then have m: "map (\<lambda>c. c AND 0x7F) t = ext @ replicate (3 - length ext) 0x20"
    using map_and_mask [OF chars(2), of "3 - length ext"] by simp
  have "fill_dir_entry f (host_name_of base ext) full drive =
      Some ([drive] @ (base @ replicate (8 - length base) 0x20) @ t @ [0, 0, 0, 1] @ replicate 16 0)"
    using chars unfolding fill_dir_entry_def sp by (simp add: pad_name_eq t_def Let_def split: option.split)
  with t m chars show ?thesis by (intro exI conjI) simp_all
qed

text \<open>C37: The directory entry that \<open>fill_dir_entry\<close> builds for a host file whose name is an upper-case 8.3 CP/M name
  names that file: used as an FCB, its name and extension give back the host name, also when the entry
  carries the read-only attribute.  (Lower-case host names are listed too, but cannot be opened.)\<close>

theorem dir_entry_names_file:
  assumes "cpm_name base ext"
  shows "\<exists>de. fill_dir_entry f (host_name_of base ext) full drive = Some de \<and> length de = 32 \<and>
    fcb_to_host_name (buf_fcb de) 16 = host_name_of base ext"
proof -
  obtain de t where de: "fill_dir_entry f (host_name_of base ext) full drive = Some de" "length de = 32" "length t = 3"
    "map (\<lambda>c. c AND 0x7F) t = ext @ replicate (3 - length ext) 0x20"
    "de = [drive] @ (base @ replicate (8 - length base) 0x20) @ t @ [0, 0, 0, 1] @ replicate 16 0"
    using dir_entry_fields [OF assms, of f full drive] by blast
  have chars: "list_all name_char base" "list_all name_char ext" "length base \<le> 8" "length ext \<le> 3"
    using assms by (simp_all add: cpm_name_def)
  have "map (\<lambda>i. buf_fcb de (1 + i) AND 0x7F) [0..<8] = map (\<lambda>c. c AND 0x7F) (base @ replicate (8 - length base) 0x20)"
    using chars by (auto intro!: nth_equalityI simp: buf_fcb_def de(5) nth_append)
  then have n: "strip_blanks (map (\<lambda>i. buf_fcb de (1 + i) AND 0x7F) [0..<8]) = base"
    by (simp only: map_and_mask [OF chars(1)] strip_padded [OF chars(1)])
  have "map (\<lambda>i. buf_fcb de (9 + i) AND 0x7F) [0..<3] = map (\<lambda>c. c AND 0x7F) t"
    using chars de(3) by (auto intro!: nth_equalityI simp: buf_fcb_def de(5) nth_append)
  then have e: "strip_blanks (map (\<lambda>i. buf_fcb de (9 + i) AND 0x7F) [0..<3]) = ext"
    by (simp only: de(4) strip_padded [OF chars(2)])
  have "fcb_to_host_name (buf_fcb de) 16 = host_name_of base ext"
    unfolding fcb_to_host_name_def n e using chars by (simp add: host_name_of_def Let_def)
  with de show ?thesis by blast
qed

theorem dir_entry_names_file_witness:
  "\<exists>de. fill_dir_entry demo_fs (host_name_of [0x41] [0x54]) [0x41, 0x2E, 0x54] 0 = Some de \<and> length de = 32 \<and>
    fcb_to_host_name (buf_fcb de) 16 = host_name_of [0x41] [0x54]"
  by (rule dir_entry_names_file) (simp add: cpm_name_def name_char_def toupper_def)

section \<open>The buffers of a directory search\<close>

text \<open>The bytes behind a copied host name are whatever the stack held: looking for the file \<open>A.T\<close> by
  its exact name finds it or not, depending on them.\<close>

lemma upt_fields: "[0..<8] = [0, 1, 2, 3, 4, 5, 6, 7]" "[0..<3] = [0, 1, 2]"
  by (simp_all add: upt_rec)

theorem search_reads_uninitialised:
  "fcb_name_matches (\<lambda>_. 0x20) (buf_fcb ([0, 0x41, 0x20, 0x20, 0x20, 0x20, 0x20, 0x20, 0x20, 0x54, 0x20, 0x20])) [0x41, 0x2E, 0x54] = Some True"
  "fcb_name_matches (\<lambda>_. 0x58) (buf_fcb ([0, 0x41, 0x20, 0x20, 0x20, 0x20, 0x20, 0x20, 0x20, 0x54, 0x20, 0x20])) [0x41, 0x2E, 0x54] = Some False"
  by (simp_all add: fcb_name_matches_def buf_fcb_def c_str_def split_last_def strncase_eq_def tolower_def
      in_buffer_def Let_def upt_fields)

text \<open>A host name with more than eight characters before its last dot overruns the buffer
  \<open>base[9]\<close> of \<open>fill_dir_entry\<close>.\<close>

theorem long_name_overruns:
  assumes "split_last 0x2E host_name = Some (base, ext)" "8 < length base"
  shows "fill_dir_entry f host_name full drive = None"
  using assms by (simp add: fill_dir_entry_def)

section \<open>The allocation vector\<close>

lemma bit_block: "b mod 8 = k \<Longrightarrow> j < 8 \<Longrightarrow> bit (drop_bit k 0x80 :: u8) (7 - j) \<longleftrightarrow> j = k"
proof -
  assume k: "b mod 8 = k" and j: "j < 8"
  have e: "bit (2 ^ 7 :: u8) m \<longleftrightarrow> m = 7" for m
    unfolding bit_exp_iff by (auto simp: possible_bit_def)
  have "bit (drop_bit k 0x80 :: u8) (7 - j) \<longleftrightarrow> bit (0x80 :: u8) (k + (7 - j))" by (simp add: bit_drop_bit_eq)
  also have "\<dots> \<longleftrightarrow> k + (7 - j) = 7" using e [of "k + (7 - j)"] by simp
  also have "\<dots> \<longleftrightarrow> j = k" using j k by auto
  finally show ?thesis .
qed

lemma length_mark_block [simp]: "length (mark_block b alv) = length alv"
  by (simp add: mark_block_def)

lemma alv_bits:
  assumes "n \<le> 2048"
  shows "length (fold mark_block [0..<n] (replicate 256 0)) = 256 \<and>
    (\<forall>b < 2048. bit (fold mark_block [0..<n] (replicate 256 0) ! (b div 8)) (7 - b mod 8) \<longleftrightarrow> b < n)"
  using assms
proof (induction n)
  case (Suc n)
  let ?alv = "fold mark_block [0..<n] (replicate 256 0)"
  have IH: "length ?alv = 256" "\<And>b. b < 2048 \<Longrightarrow> bit (?alv ! (b div 8)) (7 - b mod 8) \<longleftrightarrow> b < n"
    using Suc by simp_all
  have "bit (mark_block n ?alv ! (b div 8)) (7 - b mod 8) \<longleftrightarrow> b < Suc n" if "b < 2048" for b
  proof (cases "b div 8 = n div 8")
    case True
    have "b mod 8 = n mod 8 \<longleftrightarrow> b = n" using True by (metis mod_div_mult_eq)
    moreover have "n div 8 < 256" using Suc.prems by linarith
    ultimately show ?thesis
      using IH(1) IH(2) [OF that] True bit_block [of n "n mod 8" "b mod 8"]
      by (auto simp: mark_block_def bit_or_iff)
  next
    case False
    then have "b \<noteq> n" by auto
    with False IH(2) [OF that] show ?thesis by (auto simp: mark_block_def)
  qed
  then show ?case using IH(1) by simp
qed simp

text \<open>BDOS 27 builds the allocation vector: block \<open>b\<close> of the 2048 has its bit set, most
  significant bit first, exactly when it is below the number of used blocks (the eight directory
  blocks and the files' sizes in 4 KB blocks, capped at the disk size); HL, A and B hold its address
  and no byte outside the 256 of the vector changes.\<close>

theorem alloc_vector_bits:
  "(\<forall>b < 2048. bit (cmem (cpm_bdos_alloc_vector cpu d) (0xE510 + of_nat (b div 8))) (7 - b mod 8) \<longleftrightarrow>
      b < unat (used_blocks d)) \<and>
   (\<forall>a. 256 \<le> unat (a - 0xE510) \<longrightarrow> cmem (cpm_bdos_alloc_vector cpu d) a = cmem cpu a) \<and>
   reg_hl (cpm_bdos_alloc_vector cpu d) = 0xE510 \<and> reg_a (cpm_bdos_alloc_vector cpu d) = 0x10 \<and>
   reg_b (cpm_bdos_alloc_vector cpu d) = 0xE5 \<and> unat (used_blocks d) \<le> 2048"
proof -
  have "used_blocks d \<le> 2048" by (simp add: used_blocks_def Let_def not_less)
  then have u: "unat (used_blocks d) \<le> 2048" by (simp add: word_le_nat_alt)
  let ?alv = "fold mark_block [0..<unat (used_blocks d)] (replicate 256 0)"
  note alv = alv_bits [OF u]
  have m: "cmem (cpm_bdos_alloc_vector cpu d) =
      (\<lambda>x. if unat (x - 0xE510) < 256 then ?alv ! unat (x - 0xE510) else cmem cpu x)"
    using alv by (simp add: cpm_bdos_alloc_vector_def Let_def cmem_pokes)
  have bits: "bit (cmem (cpm_bdos_alloc_vector cpu d) (0xE510 + of_nat (b div 8))) (7 - b mod 8) \<longleftrightarrow>
      b < unat (used_blocks d)" if b: "b < 2048" for b
  proof -
    from b have b': "b div 8 < 256" by linarith
    then have "unat (of_nat (b div 8) :: u16) = b div 8" by (intro unat_of_nat_u16) linarith
    then show ?thesis using alv b b' by (simp add: m)
  qed
  have other: "cmem (cpm_bdos_alloc_vector cpu d) a = cmem cpu a" if "256 \<le> unat (a - 0xE510)" for a
    using that by (simp add: m)
  have regs: "reg_hl (cpm_bdos_alloc_vector cpu d) = 0xE510" "reg_a (cpm_bdos_alloc_vector cpu d) = 0x10"
    "reg_b (cpm_bdos_alloc_vector cpu d) = 0xE5"
    by (simp_all add: cpm_bdos_alloc_vector_def Let_def set_hl_def reg_hl_def hi8_def lo8_def mk16_def)
  show ?thesis by (intro conjI allI impI bits other regs u)
qed

theorem alloc_vector_bits_witness:
  "bit (cmem (cpm_bdos_alloc_vector demo_dcpu demo_disk) (0xE510 + of_nat (8 div 8))) (7 - 8 mod 8) \<longleftrightarrow>
     8 < unat (used_blocks demo_disk)"
  using alloc_vector_bits [of demo_dcpu demo_disk] by (elim conjE allE [of _ 8]) simp

end
