(* ===== verification/Kaypro_Kbd_Props.thy ===== *)
theory Kaypro_Kbd_Props
  imports Kaypro_Kbd
begin

text \<open>
  Console input: the ring buffer is a bounded first-in first-out queue (the locale \<open>fifo\<close>,
  interpreted on \<open>q_push\<close> and \<open>q_pop\<close>), no byte that arrives is lost or reordered on its way
  through \<open>host_drain\<close>, \<open>host_fetch\<close> and \<open>kaypro_kbd_read\<close>, the blocking loop ends, and a
  script's bytes reach the guest in order.
\<close>

section \<open>The queue\<close>

definition q_len :: "kbd \<Rightarrow> nat" where
  "q_len k = (q_head k + 256 - q_tail k) mod 256"

definition q_list :: "kbd \<Rightarrow> bytes" where
  "q_list k = map (\<lambda>i. queue k ! ((q_tail k + i) mod 256)) [0..<q_len k]"

definition kbd_ok :: "kbd \<Rightarrow> bool" where
  "kbd_ok k \<longleftrightarrow> length (queue k) = 256 \<and> q_head k < 256 \<and> q_tail k < 256 \<and>
     length (keymap k) = 23 \<and> (\<forall>bs \<in> set (keymap k). length bs \<le> 8)"

text \<open>A bounded queue: what a client may rely on.\<close>

locale fifo =
  fixes abs :: "'q \<Rightarrow> 'a list" and inv :: "'q \<Rightarrow> bool"
    and push :: "'a \<Rightarrow> 'q \<Rightarrow> 'q" and pop :: "'q \<Rightarrow> 'a \<times> 'q" and cap :: nat
  assumes push_inv: "inv q \<Longrightarrow> inv (push c q)"
    and push_abs: "inv q \<Longrightarrow> abs (push c q) = (if length (abs q) < cap then abs q @ [c] else abs q)"
    and pop_inv: "inv q \<Longrightarrow> inv (snd (pop q))"
    and pop_abs: "inv q \<Longrightarrow> abs q = c # cs \<Longrightarrow> fst (pop q) = c \<and> abs (snd (pop q)) = cs"
    and bounded: "inv q \<Longrightarrow> length (abs q) \<le> cap"
begin

lemma push_all:
  "inv q \<Longrightarrow> length (abs q) + length cs \<le> cap \<Longrightarrow> abs (fold push cs q) = abs q @ cs \<and> inv (fold push cs q)"
  by (induction cs arbitrary: q) (simp_all add: push_abs push_inv)

end

lemma mod_256: "n < 512 \<Longrightarrow> n mod 256 = (if n < 256 then n else n - (256 :: nat))"
  by (simp add: le_mod_geq mod_if)

lemma q_len_cases:
  assumes "kbd_ok k"
  shows "q_len k = (if q_tail k \<le> q_head k then q_head k - q_tail k else q_head k + 256 - q_tail k)"
  using assms by (auto simp: kbd_ok_def q_len_def mod_256)

lemma q_len_less: "q_len k < 256"
  by (simp add: q_len_def)

lemma length_q_list [simp]: "length (q_list k) = q_len k"
  by (simp add: q_list_def)

lemma q_list_Nil: "q_list k = [] \<Longrightarrow> q_len k = 0"
  by (metis length_q_list list.size(3))

lemma q_empty_iff: "kbd_ok k \<Longrightarrow> q_empty k \<longleftrightarrow> q_list k = []"
  using q_len_cases [of k] by (auto simp: q_empty_def q_list_def kbd_ok_def split: if_splits)

lemma q_full_iff: "kbd_ok k \<Longrightarrow> q_full k \<longleftrightarrow> q_len k = 255"
  using q_len_cases [of k] by (auto simp: q_full_def kbd_ok_def mod_256 split: if_splits)

lemma q_room_eq: "kbd_ok k \<Longrightarrow> q_room k = 255 - q_len k"
  using q_len_cases [of k] by (auto simp: q_room_def kbd_ok_def mod_256 split: if_splits)

lemma q_push_ok: "kbd_ok k \<Longrightarrow> kbd_ok (q_push c k)"
  by (simp add: kbd_ok_def q_push_def Let_def)

lemma q_push_list:
  assumes "kbd_ok k"
  shows "q_list (q_push c k) = (if q_len k < 255 then q_list k @ [c] else q_list k)"
proof (cases "q_full k")
  case True
  then have "q_push c k = k" by (simp add: q_full_def q_push_def Let_def)
  with True assms show ?thesis by (simp add: q_full_iff)
next
  case False
  note ok = assms [unfolded kbd_ok_def]
  note len = q_len_cases [OF assms]
  have lt: "q_len k < 255" using False q_full_iff [OF assms] q_len_less [of k] by auto
  have p: "q_push c k = k\<lparr>queue := (queue k) [q_head k := c], q_head := (q_head k + 1) mod 256\<rparr>"
    using False by (simp add: q_push_def q_full_def Let_def)
  have len': "q_len (q_push c k) = Suc (q_len k)"
    using ok lt len q_len_cases [OF q_push_ok [OF assms], of c] by (auto simp: p mod_256 split: if_splits)
  have "q_list (q_push c k) = q_list k @ [c]"
  proof (rule nth_equalityI)
    show "length (q_list (q_push c k)) = length (q_list k @ [c])" by (simp add: len')
    fix i assume "i < length (q_list (q_push c k))"
    then have i: "i < Suc (q_len k)" by (simp add: len')
    have "(q_tail k + i) mod 256 = q_head k \<longleftrightarrow> i = q_len k"
      using ok i lt len by (auto simp: mod_256 split: if_splits)
    then show "q_list (q_push c k) ! i = (q_list k @ [c]) ! i"
      using i ok len' by (auto simp: q_list_def nth_append p nth_list_update simp del: upt_Suc)
  qed
  with lt show ?thesis by simp
qed

lemma q_pop_ok: "kbd_ok k \<Longrightarrow> kbd_ok (snd (q_pop k))"
  by (simp add: kbd_ok_def q_pop_def)

lemma q_pop_list:
  assumes "kbd_ok k" "q_list k = c # cs"
  shows "fst (q_pop k) = c \<and> q_list (snd (q_pop k)) = cs"
proof -
  note ok = assms(1) [unfolded kbd_ok_def]
  have l: "q_len k = Suc (length cs)" using arg_cong [OF assms(2), of length] by simp
  have l': "q_len (snd (q_pop k)) = length cs"
    using ok l q_len_cases [OF assms(1)] q_len_cases [OF q_pop_ok [OF assms(1)]]
    by (auto simp: q_pop_def mod_256 split: if_splits)
  have n: "q_list k ! i = queue k ! ((q_tail k + i) mod 256)" if "i < q_len k" for i
    using that by (simp add: q_list_def)
  have "q_list (snd (q_pop k)) = cs"
  proof (rule nth_equalityI)
    fix i assume "i < length (q_list (snd (q_pop k)))"
    then have i: "i < length cs" by (simp add: l')
    have "((q_tail k + 1) mod 256 + i) mod 256 = (q_tail k + Suc i) mod 256" by presburger
    then show "q_list (snd (q_pop k)) ! i = cs ! i"
      using n [of "Suc i"] i l assms(2) l' by (simp add: q_list_def q_pop_def)
  qed (simp add: l')
  moreover have "fst (q_pop k) = c" using n [of 0] l assms(2) ok by (simp add: q_pop_def)
  ultimately show ?thesis by simp
qed

interpretation rq: fifo q_list kbd_ok q_push q_pop 255
  by unfold_locales (auto simp: q_push_ok q_push_list q_pop_ok q_pop_list q_len_less less_Suc_eq_le [symmetric])

lemma q_push_other [simp]:
  "keymap (q_push c k) = keymap k" "stdin_looks (q_push c k) = stdin_looks k" "hbuf (q_push c k) = hbuf k"
  "hoff (q_push c k) = hoff k" "hlen (q_push c k) = hlen k" "piped (q_push c k) = piped k"
  "scripted (q_push c k) = scripted k" "last_cr (q_push c k) = last_cr k" "steps (q_push c k) = steps k"
  "cur_step (q_push c k) = cur_step k" "step_off (q_push c k) = step_off k"
  by (simp_all add: q_push_def Let_def)

lemma fold_q_push_other [simp]:
  "keymap (fold q_push cs k) = keymap k" "stdin_looks (fold q_push cs k) = stdin_looks k" "hbuf (fold q_push cs k) = hbuf k"
  "hoff (fold q_push cs k) = hoff k" "hlen (fold q_push cs k) = hlen k" "piped (fold q_push cs k) = piped k"
  "scripted (fold q_push cs k) = scripted k" "last_cr (fold q_push cs k) = last_cr k"
  by (induction cs arbitrary: k) simp_all

section \<open>Draining the host's bytes\<close>

text \<open>What the bytes of a host read become, key by key.\<close>

lemma csi_len_le: "csi_len cs \<le> length cs"
  by (induction cs) auto

lemma token_len_bounds: "buf \<noteq> [] \<Longrightarrow> 0 < token_len buf \<and> token_len buf \<le> length buf"
  using csi_len_le [of "drop 2 buf"] by (auto simp: token_len_def Suc_le_eq)

function tokens :: "bytes list \<Rightarrow> bytes \<Rightarrow> bytes" where
  "tokens km buf =
     (if buf = [] then [] else kaypro_kbd_translate km (take (token_len buf) buf) 8 @ tokens km (drop (token_len buf) buf))"
  by pat_completeness auto
termination
  by (relation "measure (\<lambda>(km, buf). length buf)") (auto simp: token_len_def)

declare tokens.simps [simp del]

lemma translate_length: "length (kaypro_kbd_translate km seq 8) \<le> 8"
  by (auto simp: kaypro_kbd_translate_def split: option.split)

definition same_host :: "kbd \<Rightarrow> kbd \<Rightarrow> bool" where
  "same_host k' k \<longleftrightarrow> keymap k' = keymap k \<and> stdin_looks k' = stdin_looks k \<and> hbuf k' = hbuf k \<and> hoff k' = hoff k \<and>
     hlen k' = hlen k \<and> piped k' = piped k \<and> scripted k' = scripted k \<and> last_cr k' = last_cr k"

lemma drain_loop_conserves:
  assumes "kbd_ok k" "drain_loop buf q k = Some (i, q', k')"
  shows "kbd_ok k' \<and> same_host k' k \<and> i \<le> length buf \<and>
    (\<exists>out. q_list k' = q_list k @ out \<and> tokens (keymap k) buf = out @ tokens (keymap k) (drop i buf) \<and>
      (q' \<longleftrightarrow> q \<or> out \<noteq> [])) \<and> (drop i buf \<noteq> [] \<longrightarrow> q_room k' < 8)"
  using assms
proof (induction buf q k arbitrary: i rule: drain_loop.induct)
  case (1 buf q k)
  show ?case
  proof (cases "buf = [] \<or> q_room k < 8")
    case True
    with 1 show ?thesis by (auto simp: drain_loop.simps [of buf] same_host_def)
  next
    case False
    let ?n = "token_len buf" let ?out = "kaypro_kbd_translate (keymap k) (take (token_len buf) buf) 8"
    let ?k = "fold q_push ?out k"
    from False 1(3) have x: "buf ! 0 \<noteq> 0x1D" by (auto simp: drain_loop.simps [of buf])
    from False x 1(3) obtain j where j: "drain_loop (drop ?n buf) (q \<or> ?out \<noteq> []) ?k = Some (j, q', k')" "i = ?n + j"
      by (auto simp: drain_loop.simps [of buf] Let_def)
    have room: "length (q_list k) + length ?out \<le> 255"
      using False q_room_eq [OF 1(2)] translate_length [of "keymap k" "take ?n buf"] by auto
    note push = rq.push_all [OF 1(2) room]
    from 1(1) [OF False x refl refl refl push [THEN conjunct2] j(1)] push
    have IH: "kbd_ok k'" "same_host k' ?k" "j \<le> length (drop ?n buf)" "drop j (drop ?n buf) \<noteq> [] \<longrightarrow> q_room k' < 8"
      and "\<exists>out. q_list k' = q_list ?k @ out \<and> tokens (keymap k) (drop ?n buf) = out @ tokens (keymap k) (drop j (drop ?n buf)) \<and>
        (q' \<longleftrightarrow> (q \<or> ?out \<noteq> []) \<or> out \<noteq> [])"
      by simp_all
    then obtain out where out: "q_list k' = q_list ?k @ out"
      "tokens (keymap k) (drop ?n buf) = out @ tokens (keymap k) (drop j (drop ?n buf))"
      "q' \<longleftrightarrow> (q \<or> ?out \<noteq> []) \<or> out \<noteq> []" by blast
    have "q_list k' = q_list k @ (?out @ out)" using push out(1) by simp
    moreover have "tokens (keymap k) buf = (?out @ out) @ tokens (keymap k) (drop i buf)"
      using False out(2) by (simp add: tokens.simps [of _ buf] j(2) add.commute)
    moreover have "q' \<longleftrightarrow> q \<or> ?out @ out \<noteq> []" using out(3) by auto
    ultimately show ?thesis
      using IH token_len_bounds [of buf] False by (auto simp: j(2) same_host_def add.commute intro: exI [of _ "?out @ out"])
  qed
qed

text \<open>The bytes read from the host and not yet queued.\<close>

definition pending :: "kbd \<Rightarrow> bytes" where
  "pending k = take (hlen k - hoff k) (drop (hoff k) (hbuf k))"

definition host_ok :: "kbd \<Rightarrow> bool" where
  "host_ok k \<longleftrightarrow> kbd_ok k \<and> hlen k \<le> length (hbuf k) \<and> (hoff k < hlen k \<or> hoff k = 0 \<and> hlen k = 0)"

lemma host_ok_pending: "host_ok k \<Longrightarrow> pending k = [] \<longleftrightarrow> hlen k = 0"
  by (auto simp: host_ok_def pending_def)

lemma host_drain_conserves:
  assumes "host_ok k" "host_drain k = Ret q k'"
  shows "host_ok k' \<and> keymap k' = keymap k \<and> stdin_looks k' = stdin_looks k \<and> piped k' = piped k \<and>
    scripted k' = scripted k \<and> last_cr k' = last_cr k \<and>
    (\<exists>i out. pending k' = drop i (pending k) \<and> i \<le> length (pending k) \<and> q_list k' = q_list k @ out \<and>
      tokens (keymap k) (pending k) = out @ tokens (keymap k) (pending k') \<and> (q \<longleftrightarrow> out \<noteq> [])) \<and>
    (pending k' \<noteq> [] \<longrightarrow> q_room k' < 8)"
proof -
  from assms(2) obtain i k1 where d: "drain_loop (pending k) False k = Some (i, q, k1)"
    "k' = (let k2 = k1\<lparr>hoff := hoff k1 + i\<rparr> in if hoff k2 = hlen k2 then k2\<lparr>hoff := 0, hlen := 0\<rparr> else k2)"
    by (auto simp: host_drain_def pending_def Let_def split: option.splits prod.splits)
  from drain_loop_conserves [OF _ d(1)] assms(1) obtain out where
    c: "kbd_ok k1" "same_host k1 k" "i \<le> length (pending k)" "q_list k1 = q_list k @ out"
    "tokens (keymap k) (pending k) = out @ tokens (keymap k) (drop i (pending k))" "q \<longleftrightarrow> out \<noteq> []"
    "drop i (pending k) \<noteq> [] \<longrightarrow> q_room k1 < 8"
    by (auto simp: host_ok_def)
  have len: "length (pending k) = hlen k - hoff k" using assms(1) by (auto simp: pending_def host_ok_def)
  have p: "pending k' = drop i (pending k)"
  proof (cases "hoff k + i = hlen k")
    case True
    then have "drop i (pending k) = []" using len by simp
    with True d(2) c(2) show ?thesis by (simp add: same_host_def pending_def Let_def)
  next
    case False
    with d(2) c(2) show ?thesis by (simp add: same_host_def pending_def Let_def drop_take add.commute)
  qed
  have k': "q_list k' = q_list k1" "q_room k' = q_room k1" "kbd_ok k' = kbd_ok k1" "keymap k' = keymap k1" "stdin_looks k' = stdin_looks k1"
    "piped k' = piped k1" "scripted k' = scripted k1" "last_cr k' = last_cr k1"
    by (auto simp: d(2) q_list_def q_len_def q_room_def kbd_ok_def Let_def)
  have "host_ok k'"
    using assms(1) c(1,2,3) len by (auto simp: host_ok_def d(2) same_host_def kbd_ok_def Let_def)
  with c p k' show ?thesis by (auto simp: same_host_def)
qed

section \<open>The blocking loop ends\<close>

definition looks_left :: "bytes option list \<Rightarrow> nat" where
  "looks_left ls = sum_list (map (\<lambda>l. case l of None \<Rightarrow> 1 | Some bs \<Rightarrow> length bs + 1) ls)"

lemma input_left_alt: "host_ok k \<Longrightarrow> input_left k = length (pending k) + looks_left (stdin_looks k) + 1"
  by (auto simp: input_left_def looks_left_def pending_def host_ok_def)

definition fewer_looks :: "kbd \<Rightarrow> kbd \<Rightarrow> bool" where
  "fewer_looks k' k \<longleftrightarrow> k'\<lparr>stdin_looks := []\<rparr> = k\<lparr>stdin_looks := []\<rparr> \<and>
     looks_left (stdin_looks k') \<le> looks_left (stdin_looks k)"

lemma fewer_looks_trans: "fewer_looks k2 k1 \<Longrightarrow> fewer_looks k1 k \<Longrightarrow> fewer_looks k2 k"
  by (simp add: fewer_looks_def)

lemma look_shape:
  assumes "look cap k = (r, k')"
  shows "fewer_looks k' k" "r \<noteq> Some [] \<Longrightarrow> looks_left (stdin_looks k') < looks_left (stdin_looks k)"
  using assms
  by (cases "stdin_looks k"; auto simp: fewer_looks_def look_def looks_left_def split: option.splits if_splits)+

lemma cut_loop_shape:
  assumes "cut_loop buf k = (buf', k')"
  shows "fewer_looks k' k"
  using assms
proof (induction buf k rule: cut_loop.induct)
  case (1 buf k)
  show ?case
  proof (cases "256 \<le> length buf")
    case True
    with 1(2) show ?thesis by (simp add: cut_loop.simps [of buf] fewer_looks_def)
  next
    case False
    obtain r k1 where l: "look 1 k = (r, k1)" by (metis surj_pair)
    note ls = look_shape(1) [OF l]
    show ?thesis
    proof (cases "\<exists>c. r = Some [c] \<and> \<not> (0x40 \<le> c \<and> c \<le> 0x7E \<and> c \<noteq> 0x5B)")
      case True
      then obtain c where c: "r = Some [c]" "\<not> (0x40 \<le> c \<and> c \<le> 0x7E \<and> c \<noteq> 0x5B)" by blast
      then have "cut_loop (buf @ [c]) k1 = (buf', k')" using False 1(2) l by (auto simp: cut_loop.simps [of buf])
      from 1(1) [OF False l [unfolded c(1), symmetric] refl refl refl c(2) this] ls show ?thesis
        by (rule fewer_looks_trans)
    next
      case False
      then have "k' = k1" using \<open>\<not> 256 \<le> length buf\<close> 1(2) l
        by (auto simp: cut_loop.simps [of buf] split: option.splits list.splits if_splits)
      with ls show ?thesis by simp
    qed
  qed
qed

lemma skip_quiet_shape: "fewer_looks (skip_quiet k) k"
proof -
  have "looks_left (dropWhile (\<lambda>l. l = None) ls) \<le> looks_left ls" for ls
    by (induction ls) (auto simp: looks_left_def)
  then show ?thesis by (simp add: fewer_looks_def skip_quiet_def)
qed

text \<open>A read of the host as \<open>host_fetch\<close> performs it: the bytes it stores in \<open>hbuf\<close>.\<close>

definition host_read :: "bool \<Rightarrow> kbd \<Rightarrow> bytes option \<times> kbd" where
  "host_read block k =
     (case look 256 (if block then skip_quiet k else k) of
        (None, k) \<Rightarrow> (Some [], k)
      | (Some buf, k) \<Rightarrow>
          if buf = [] then (None, k)
          else
            (let (buf, k) = (if cut_sequence buf then cut_loop buf k else (buf, k))
             in if piped k then let (o', cr') = crlf buf (last_cr k) in (Some o', k\<lparr>last_cr := cr'\<rparr>)
                else (Some buf, k)))"

definition int_of_bool :: "bool \<Rightarrow> int" where
  "int_of_bool b = (if b then 1 else 0)"

lemma host_fetch_alt:
  "host_fetch block k =
     (if hlen k \<noteq> 0 then (case host_drain k of Quit \<Rightarrow> Quit | Ret q k \<Rightarrow> Ret (int_of_bool q) k)
      else case host_read block k of
             (None, k) \<Rightarrow> Ret (-1) k
           | (Some buf, k) \<Rightarrow>
               if buf = [] then Ret 0 k
               else (case host_drain (k\<lparr>hbuf := buf, hoff := 0, hlen := length buf\<rparr>) of
                       Quit \<Rightarrow> Quit | Ret q k \<Rightarrow> Ret (int_of_bool q) k))"
proof -
  obtain l k1 where l: "look 256 (if block then skip_quiet k else k) = (l, k1)" by (metis surj_pair)
  obtain buf1 k2 where c: "(if cut_sequence (the l) then cut_loop (the l) k1 else (the l, k1)) = (buf1, k2)" by (metis surj_pair)
  obtain buf2 cr where r: "crlf buf1 (last_cr k2) = (buf2, cr)" by (metis surj_pair)
  show ?thesis
  proof (cases l)
    case None
    with l show ?thesis unfolding int_of_bool_def by (simp add: host_fetch_def host_read_def)
  next
    case (Some buf)
    with l c r show ?thesis
      unfolding int_of_bool_def
      by (cases "cut_sequence buf"; cases "piped k2"; cases "hlen k = 0") (simp_all add: host_fetch_def host_read_def Let_def)
  qed
qed

definition fewer_input :: "kbd \<Rightarrow> kbd \<Rightarrow> bool" where
  "fewer_input k' k \<longleftrightarrow> k'\<lparr>stdin_looks := [], last_cr := False\<rparr> = k\<lparr>stdin_looks := [], last_cr := False\<rparr> \<and>
     looks_left (stdin_looks k') \<le> looks_left (stdin_looks k)"

lemma fewer_looks_input: "fewer_looks k' k \<Longrightarrow> fewer_input k' k"
  by (cases k, cases k') (simp add: fewer_looks_def fewer_input_def)

lemma fewer_input_fields:
  assumes "fewer_input k' k"
  shows "queue k' = queue k" "q_head k' = q_head k" "q_tail k' = q_tail k" "keymap k' = keymap k" "hbuf k' = hbuf k"
    "hoff k' = hoff k" "hlen k' = hlen k" "piped k' = piped k" "scripted k' = scripted k"
  using assms by (cases k; cases k'; simp add: fewer_input_def)+

lemma host_read_shape:
  assumes "host_read block k = (r, k')"
  shows "fewer_input k' k" "r \<noteq> None \<Longrightarrow> looks_left (stdin_looks k') < looks_left (stdin_looks k)"
proof -
  let ?k0 = "if block then skip_quiet k else k"
  obtain l k1 where l: "look 256 ?k0 = (l, k1)" by (metis surj_pair)
  have 0: "fewer_looks ?k0 k" using skip_quiet_shape by (auto simp: fewer_looks_def)
  note 1 = fewer_looks_trans [OF look_shape(1) [OF l] 0]
  have lt: "l \<noteq> Some [] \<Longrightarrow> looks_left (stdin_looks k1) < looks_left (stdin_looks k)"
    using look_shape(2) [OF l] 0 by (auto simp: fewer_looks_def split: if_splits)
  obtain buf1 k2 where c: "(if cut_sequence (the l) then cut_loop (the l) k1 else (the l, k1)) = (buf1, k2)" by (metis surj_pair)
  have 2: "fewer_looks k2 k1" using c cut_loop_shape by (auto simp: fewer_looks_def split: if_splits)
  obtain cr where k': "k' = (if l = None \<or> l = Some [] then k1 else k2\<lparr>last_cr := cr\<rparr>)" "r = None \<longleftrightarrow> l = Some []"
  proof (cases "l = None \<or> l = Some []")
    case True
    with that [of False] assms l show ?thesis by (auto simp: host_read_def)
  next
    case False
    obtain buf2 cr where "crlf buf1 (last_cr k2) = (buf2, cr)" by (metis surj_pair)
    with that [of "if piped k2 then cr else last_cr k2"] assms l c False show ?thesis
      by (auto simp: host_read_def split: if_splits)
  qed
  have "fewer_input (k2\<lparr>last_cr := cr\<rparr>) k"
    using fewer_looks_input [OF fewer_looks_trans [OF 2 1]] by (simp add: fewer_input_def)
  with k'(1) fewer_looks_input [OF 1] show "fewer_input k' k" by simp
  from lt 2 k' show "r \<noteq> None \<Longrightarrow> looks_left (stdin_looks k') < looks_left (stdin_looks k)"
    by (auto simp: fewer_looks_def)
qed

lemma fewer_input_ok: "fewer_input k' k \<Longrightarrow> host_ok k' = host_ok k"
  using fewer_input_fields [of k' k] by (simp add: host_ok_def kbd_ok_def)

lemma fewer_input_q: "fewer_input k' k \<Longrightarrow> q_list k' = q_list k \<and> pending k' = pending k"
  using fewer_input_fields [of k' k] by (simp add: q_list_def q_len_def pending_def)

text \<open>Storing a read into \<open>hbuf\<close>.\<close>

definition stored :: "bytes \<Rightarrow> kbd \<Rightarrow> kbd" where
  "stored buf k = k\<lparr>hbuf := buf, hoff := 0, hlen := length buf\<rparr>"

lemma stored_simps [simp]:
  "q_list (stored buf k) = q_list k" "pending (stored buf k) = buf" "keymap (stored buf k) = keymap k"
  "stdin_looks (stored buf k) = stdin_looks k" "piped (stored buf k) = piped k" "scripted (stored buf k) = scripted k"
  "last_cr (stored buf k) = last_cr k"
  by (simp_all add: stored_def q_list_def q_len_def pending_def)

lemma stored_ok: "host_ok k \<Longrightarrow> host_ok (stored buf k)"
  by (auto simp: host_ok_def kbd_ok_def stored_def)

text \<open>A blocking fetch on an empty queue that delivers nothing has used up some of the input.\<close>

lemma drain_empty:
  assumes "host_ok k" "q_list k = []" "host_drain k = Ret False k'"
  shows "host_ok k' \<and> q_list k' = [] \<and> pending k' = [] \<and> stdin_looks k' = stdin_looks k"
proof -
  note c = host_drain_conserves [OF assms(1,3)]
  then have "q_list k' = []" using assms(2) by auto
  moreover from this have "q_room k' = 255" using c q_room_eq [of k'] q_list_Nil [of k']
    by (simp add: host_ok_def)
  ultimately show ?thesis using c by auto
qed

lemma fetch_progress:
  assumes "host_ok k" "q_list k = []" "host_fetch True k = Ret 0 k'"
  shows "host_ok k' \<and> q_list k' = [] \<and> input_left k' < input_left k"
proof (cases "hlen k = 0")
  case False
  with assms(3) have "host_drain k = Ret False k'"
    by (auto simp: host_fetch_alt int_of_bool_def split: kres.splits if_splits)
  with drain_empty [OF assms(1,2)] have "host_ok k'" "q_list k' = []" "pending k' = []" "stdin_looks k' = stdin_looks k" by auto
  with False assms(1) host_ok_pending [OF assms(1)] show ?thesis by (auto simp: input_left_alt)
next
  case True
  obtain r k1 where r: "host_read True k = (r, k1)" by (metis surj_pair)
  note f = host_read_shape [OF r]
  have ok1: "host_ok k1" "q_list k1 = []" using fewer_input_ok fewer_input_q f(1) assms by auto
  from True assms(3) r obtain buf where buf: "r = Some buf"
    by (cases r) (auto simp: host_fetch_alt)
  then have lt: "looks_left (stdin_looks k1) < looks_left (stdin_looks k)" using f(2) by simp
  have p: "pending k = []" "pending k1 = []" using host_ok_pending True assms(1) fewer_input_q [OF f(1)] by auto
  show ?thesis
  proof (cases "buf = []")
    case True
    then have "k' = k1" using assms(3) r buf \<open>hlen k = 0\<close> by (simp add: host_fetch_alt)
    with ok1 lt p assms(1) show ?thesis by (simp add: input_left_alt)
  next
    case False
    then have "host_drain (stored buf k1) = Ret False k'"
      using assms(3) r buf \<open>hlen k = 0\<close>
      by (auto simp: host_fetch_alt stored_def int_of_bool_def split: kres.splits if_splits)
    from drain_empty [OF stored_ok [OF ok1(1)] _ this] ok1 lt p assms(1) show ?thesis
      by (simp add: input_left_alt)
  qed
qed

lemma fetch_loop_ends:
  assumes "host_ok k" "q_list k = []" "input_left k \<le> n"
  shows "\<exists>r. fetch_loop n k = Some r"
  using assms
proof (induction n arbitrary: k)
  case 0
  then show ?case by (simp add: input_left_def)
next
  case (Suc n)
  show ?case
  proof (cases "host_fetch True k")
    case (Ret r k')
    show ?thesis
    proof (cases "r = 0")
      case True
      with Ret fetch_progress [of k k'] Suc show ?thesis by simp
    qed (simp add: Ret)
  qed simp
qed

text \<open>C31: A blocking read returns.  On an empty queue, whatever the host sends and however it is
  cut up, the loop of \<open>kaypro_kbd_read\<close> around \<open>host_fetch\<close> ends (with a key, the end of the input or
  an exit) within as many passes as there are bytes and looks left.\<close>

theorem kbd_fetch_returns:
  assumes "host_ok k" "q_empty k"
  shows "\<exists>r. fetch_loop (input_left k) k = Some r"
  using fetch_loop_ends [OF assms(1) _ le_refl] q_empty_iff assms by (simp add: host_ok_def)

definition demo_kbd :: kbd where
  "demo_kbd = kaypro_kbd_init True None
     \<lparr>queue = replicate 256 0, q_head = 0, q_tail = 0, n_polls = 0, n_reads = 0, empty_polls = 0, max_quiet_streak = 0,
      scripted = False, piped = False, gate_open = False, gate_polls = 0, stdin_eof = False, keymap = [],
      hbuf = [], hoff = 0, hlen = 0, last_cr = False, eof_reads = 0, steps = [ST_BYTES [0x6C, 0x73, 0x0D], ST_END],
      cur_step = 0, step_off = 0, idle_target = 0, idle_wanted = 0, idle_armed = False, pace_polls = 0,
      polls_since_read = 0, stdin_looks = [None, Some [0x64, 0x69, 0x72], None, Some [0x0D]]\<rparr>"

lemma keymap_defaults_ok: "length keymap_defaults = 23" "list_all (\<lambda>bs. length bs \<le> 8) keymap_defaults"
  by (simp add: keymap_defaults_def) code_simp

lemma demo_kbd_ok: "host_ok demo_kbd" "q_empty demo_kbd"
  using keymap_defaults_ok
  by (simp_all add: demo_kbd_def kaypro_kbd_init_def kaypro_kbd_keys_configure_def host_ok_def
      kbd_ok_def q_empty_def list_all_iff)

theorem kbd_fetch_returns_witness: "\<exists>r. fetch_loop (input_left demo_kbd) demo_kbd = Some r"
  using kbd_fetch_returns [OF demo_kbd_ok] .

section \<open>Text arrives in order\<close>

text \<open>Bytes that stand for themselves: no escape sequence, no exit key, no Backspace.\<close>

definition plain :: "u8 \<Rightarrow> bool" where
  "plain c \<longleftrightarrow> c \<notin> {0x1B, 0x1D, 0x7F, 0x08}"

lemma tokens_plain: "list_all plain buf \<Longrightarrow> tokens km buf = buf"
proof (induction buf)
  case (Cons c cs)
  then have "token_len (c # cs) = 1" "kaypro_kbd_translate km [c] 8 = [c]"
    by (auto simp: token_len_def plain_def kaypro_kbd_translate_def)
  with Cons show ?case by (simp add: tokens.simps [of km "c # cs"])
qed (simp add: tokens.simps)

lemma drain_loop_plain: "list_all plain buf \<Longrightarrow> drain_loop buf q k \<noteq> None"
proof (induction buf arbitrary: q k)
  case (Cons c cs)
  then have "token_len (c # cs) = 1" by (auto simp: token_len_def plain_def)
  moreover have "drain_loop cs q' k' \<noteq> None" for q' k' using Cons by simp
  ultimately show ?case using Cons.prems
    by (simp add: drain_loop.simps [of "c # cs"] Let_def plain_def del: not_None_eq)
qed (simp add: drain_loop.simps)

lemma crlf_append:
  "crlf (xs @ ys) cr = (let (a, c1) = crlf xs cr; (b, c2) = crlf ys c1 in (a @ b, c2))"
  by (induction xs cr rule: crlf.induct) (simp_all add: Let_def split: prod.split)

lemma fst_crlf_append: "fst (crlf (xs @ ys) cr) = fst (crlf xs cr) @ fst (crlf ys (snd (crlf xs cr)))"
  by (simp add: crlf_append split: prod.split)

lemma crlf_plain: "list_all plain xs \<Longrightarrow> list_all plain (fst (crlf xs cr))"
  by (induction xs cr rule: crlf.induct) (auto simp: plain_def split: prod.splits)

definition look_bytes :: "bytes option list \<Rightarrow> bytes" where
  "look_bytes ls = concat (map (\<lambda>l. case l of None \<Rightarrow> [] | Some bs \<Rightarrow> bs) ls)"

text \<open>What the guest has yet to read: the queue, the bytes read from the host, and the bytes to
  come, with the line ends of piped input converted.\<close>

definition to_come :: "kbd \<Rightarrow> bytes" where
  "to_come k = (if piped k then fst (crlf (look_bytes (stdin_looks k)) (last_cr k)) else look_bytes (stdin_looks k))"

definition future :: "kbd \<Rightarrow> bytes" where
  "future k = q_list k @ pending k @ to_come k"

definition text_ok :: "kbd \<Rightarrow> bool" where
  "text_ok k \<longleftrightarrow> host_ok k \<and> \<not> scripted k \<and> list_all plain (pending k) \<and>
     list_all (\<lambda>l. case l of None \<Rightarrow> True | Some bs \<Rightarrow> bs \<noteq> [] \<and> list_all plain bs) (stdin_looks k)"

lemma drain_text:
  assumes "text_ok k"
  obtains q k' where "host_drain k = Ret q k'" "text_ok k'" "future k' = future k" "q \<longleftrightarrow> q_list k' \<noteq> q_list k"
    "pending k' \<noteq> [] \<longrightarrow> q_room k' < 8" "stdin_looks k' = stdin_looks k" "length (pending k') \<le> length (pending k)"
proof -
  have "drain_loop (pending k) False k \<noteq> None" using assms drain_loop_plain by (simp add: text_ok_def)
  then obtain q k' where d: "host_drain k = Ret q k'"
    by (auto simp: host_drain_def pending_def Let_def split: option.splits)
  from assms have ok: "host_ok k" by (simp add: text_ok_def)
  from host_drain_conserves [OF ok d] obtain i out where
    c: "host_ok k'" "keymap k' = keymap k" "stdin_looks k' = stdin_looks k" "piped k' = piped k" "scripted k' = scripted k"
    "last_cr k' = last_cr k" "pending k' = drop i (pending k)" "q_list k' = q_list k @ out"
    "tokens (keymap k) (pending k) = out @ tokens (keymap k) (pending k')" "q \<longleftrightarrow> out \<noteq> []"
    "pending k' \<noteq> [] \<longrightarrow> q_room k' < 8" by blast
  have pl: "list_all plain (pending k)" "list_all plain (pending k')"
    using assms c(7) by (auto simp: text_ok_def list_all_iff dest: in_set_dropD)
  then have "pending k = out @ pending k'" using c(9) by (simp add: tokens_plain)
  then have "future k' = future k" using c by (simp add: future_def to_come_def)
  moreover have "text_ok k'" using assms c(1,3,5) pl by (simp add: text_ok_def)
  ultimately show thesis using that d c by auto
qed

definition looks_ok :: "bytes option list \<Rightarrow> bool" where
  "looks_ok ls \<longleftrightarrow> list_all (\<lambda>l. case l of None \<Rightarrow> True | Some bs \<Rightarrow> bs \<noteq> [] \<and> list_all plain bs) ls"

lemma look_text:
  assumes "looks_ok (stdin_looks k)" "look 256 k = (l, k1)"
  shows "looks_ok (stdin_looks k1) \<and> last_cr k1 = last_cr k \<and> piped k1 = piped k \<and>
    (case l of None \<Rightarrow> look_bytes (stdin_looks k1) = look_bytes (stdin_looks k)
     | Some bs \<Rightarrow> look_bytes (stdin_looks k) = bs @ look_bytes (stdin_looks k1) \<and> list_all plain bs \<and>
         (bs = [] \<longrightarrow> stdin_looks k = []))"
proof (cases "stdin_looks k")
  case Nil
  with assms show ?thesis by (auto simp: look_def look_bytes_def)
next
  case (Cons a ls)
  show ?thesis
  proof (cases a)
    case None
    with Cons assms show ?thesis by (auto simp: look_def look_bytes_def looks_ok_def)
  next
    case (Some bs)
    have "list_all plain (take 256 bs)" "list_all plain (drop 256 bs)" "bs \<noteq> []"
      using assms(1) Cons Some by (auto simp: looks_ok_def list_all_iff dest: in_set_takeD in_set_dropD)
    with Some Cons assms show ?thesis by (auto simp: look_def look_bytes_def looks_ok_def not_le)
  qed
qed

lemma skip_quiet_text:
  assumes "looks_ok (stdin_looks k)"
  shows "looks_ok (stdin_looks (skip_quiet k))" "look_bytes (stdin_looks (skip_quiet k)) = look_bytes (stdin_looks k)"
    "last_cr (skip_quiet k) = last_cr k" "piped (skip_quiet k) = piped k"
proof -
  have "looks_ok ls \<Longrightarrow> looks_ok (dropWhile (\<lambda>l. l = None) ls) \<and> look_bytes (dropWhile (\<lambda>l. l = None) ls) = look_bytes ls" for ls
    by (induction ls) (auto simp: looks_ok_def look_bytes_def)
  then show "looks_ok (stdin_looks (skip_quiet k))" "look_bytes (stdin_looks (skip_quiet k)) = look_bytes (stdin_looks k)"
    using assms by (simp_all add: skip_quiet_def)
qed (simp_all add: skip_quiet_def)

lemma plain_not_cut: "list_all plain buf \<Longrightarrow> buf \<noteq> [] \<Longrightarrow> \<not> cut_sequence buf"
  by (auto simp: cut_sequence_def list_all_iff plain_def dest!: bspec [where x = "last buf"] bspec [where x = "buf ! (length buf - 2)"])

lemma host_read_text:
  assumes "looks_ok (stdin_looks k)" "host_read block k = (r, k1)"
  shows "looks_ok (stdin_looks k1)" "list_all plain (case r of None \<Rightarrow> [] | Some buf \<Rightarrow> buf)"
    "to_come k = (case r of None \<Rightarrow> [] | Some buf \<Rightarrow> buf) @ to_come k1" "r = None \<Longrightarrow> to_come k = []"
proof -
  define k0 where "k0 = (if block then skip_quiet k else k)"
  have k0: "looks_ok (stdin_looks k0)" "look_bytes (stdin_looks k0) = look_bytes (stdin_looks k)"
    "last_cr k0 = last_cr k" "piped k0 = piped k"
    using skip_quiet_text [OF assms(1)] assms(1) by (simp_all add: k0_def)
  then have tc: "to_come k0 = to_come k" by (simp add: to_come_def)
  obtain l k2 where l: "look 256 k0 = (l, k2)" by (metis surj_pair)
  note t = look_text [OF k0(1) l]
  have "looks_ok (stdin_looks k1) \<and> list_all plain (case r of None \<Rightarrow> [] | Some buf \<Rightarrow> buf) \<and>
      to_come k = (case r of None \<Rightarrow> [] | Some buf \<Rightarrow> buf) @ to_come k1 \<and> (r = None \<longrightarrow> to_come k = [])"
  proof (cases l)
    case None
    with l assms(2) have "r = Some []" "k1 = k2" by (simp_all add: host_read_def k0_def)
    with t None show ?thesis
      by (simp add: to_come_def k0 flip: tc)
  next
    case (Some buf)
    show ?thesis
    proof (cases "buf = []")
      case True
      with l Some assms(2) have "r = None" "k1 = k2" by (simp_all add: host_read_def k0_def)
      moreover have "to_come k0 = []" using True Some t by (auto simp: to_come_def look_bytes_def)
      moreover have "to_come k2 = []" using True Some t l by (auto simp: to_come_def look_bytes_def look_def)
      ultimately show ?thesis using t tc by simp
    next
      case False
      have pl: "list_all plain buf" "look_bytes (stdin_looks k0) = buf @ look_bytes (stdin_looks k2)" using t Some by simp_all
      with False have nc: "\<not> cut_sequence buf" by (simp add: plain_not_cut)
      obtain o' cr' where cr: "crlf buf (last_cr k2) = (o', cr')" by (metis surj_pair)
      have "list_all plain o'" using crlf_plain [OF pl(1), of "last_cr k2"] by (simp add: cr)
      moreover have kk: "piped k2 = piped k" "last_cr k2 = last_cr k" using t k0 by simp_all
      moreover have "look_bytes (stdin_looks k) = buf @ look_bytes (stdin_looks k2)" using pl(2) k0(2) by simp
      moreover have "(r, k1) = (if piped k2 then (Some o', k2\<lparr>last_cr := cr'\<rparr>) else (Some buf, k2))"
        using l Some False nc assms(2) cr by (cases "piped k2") (simp_all add: host_read_def flip: k0_def)
      ultimately show ?thesis using t pl(1) cr
        by (cases "piped k") (simp_all add: to_come_def fst_crlf_append)
    qed
  qed
  then show "looks_ok (stdin_looks k1)" "list_all plain (case r of None \<Rightarrow> [] | Some buf \<Rightarrow> buf)"
    "to_come k = (case r of None \<Rightarrow> [] | Some buf \<Rightarrow> buf) @ to_come k1" "r = None \<Longrightarrow> to_come k = []" by auto
qed

lemma fetch_text:
  assumes "text_ok k" "q_list k = []"
  obtains r k' where "host_fetch block k = Ret r k'" "text_ok k'" "future k' = future k"
    "r = 1 \<longrightarrow> q_list k' \<noteq> []" "r \<noteq> 1 \<longrightarrow> q_list k' = []" "r \<noteq> 1 \<longrightarrow> r \<noteq> 0 \<longrightarrow> future k = []"
proof (cases "hlen k = 0")
  case False
  obtain q k' where d: "host_drain k = Ret q k'" "text_ok k'" "future k' = future k" "q \<longleftrightarrow> q_list k' \<noteq> q_list k"
    using drain_text [OF assms(1)] by metis
  with False assms(2) show thesis by (intro that [of "int_of_bool q" k']) (auto simp: host_fetch_alt int_of_bool_def)
next
  case True
  obtain r k1 where r: "host_read block k = (r, k1)" by (metis surj_pair)
  have lk: "looks_ok (stdin_looks k)" using assms(1) by (simp add: text_ok_def looks_ok_def)
  note t = host_read_text [OF lk r]
  note f = host_read_shape(1) [OF r]
  have p: "pending k = []" "pending k1 = []" "q_list k1 = []"
    using True assms host_ok_pending [of k] fewer_input_q [OF f] by (auto simp: text_ok_def)
  have ok1: "text_ok k1" using assms(1) t(1) p fewer_input_ok [OF f] fewer_input_fields [OF f]
    by (simp add: text_ok_def looks_ok_def)
  show thesis
  proof (cases r)
    case None
    with True r ok1 t p assms(2) show thesis by (intro that [of "-1" k1]) (simp_all add: host_fetch_alt future_def)
  next
    case (Some buf)
    show thesis
    proof (cases "buf = []")
      case True
      with Some \<open>hlen k = 0\<close> r ok1 t p assms(2) show thesis
        by (intro that [of 0 k1]) (simp_all add: host_fetch_alt future_def)
    next
      case False
      have "text_ok (stored buf k1)" using ok1 t(2) Some stored_ok by (simp add: text_ok_def)
      then obtain q k' where d: "host_drain (stored buf k1) = Ret q k'" "text_ok k'" "future k' = future (stored buf k1)"
        "q \<longleftrightarrow> q_list k' \<noteq> q_list (stored buf k1)"
        using drain_text by metis
      have "future (stored buf k1) = future k" using t(3) Some p assms(2) by (simp add: future_def to_come_def)
      moreover have "q \<longleftrightarrow> q_list k' \<noteq> []" using d(4) p(3) by simp
      ultimately show thesis using d(1-3) False Some \<open>hlen k = 0\<close> r
        by (intro that [of "int_of_bool q" k']) (auto simp: host_fetch_alt int_of_bool_def stored_def)
    qed
  qed
qed

text \<open>The counters and the gate have no part in what arrives.\<close>

definition same_text :: "kbd \<Rightarrow> kbd \<Rightarrow> bool" where
  "same_text k' k \<longleftrightarrow> queue k' = queue k \<and> q_head k' = q_head k \<and> q_tail k' = q_tail k \<and> keymap k' = keymap k \<and>
     hbuf k' = hbuf k \<and> hoff k' = hoff k \<and> hlen k' = hlen k \<and> piped k' = piped k \<and> scripted k' = scripted k \<and>
     last_cr k' = last_cr k \<and> stdin_looks k' = stdin_looks k"

lemma same_text_cong:
  "same_text k' k \<Longrightarrow> text_ok k' = text_ok k \<and> future k' = future k \<and> q_list k' = q_list k \<and> input_left k' = input_left k \<and>
    q_empty k' = q_empty k"
  by (simp add: same_text_def text_ok_def host_ok_def kbd_ok_def future_def to_come_def q_list_def q_len_def pending_def
      input_left_def q_empty_def)

lemma fetch_loop_text:
  assumes "text_ok k" "q_list k = []" "future k \<noteq> []" "input_left k \<le> n"
  shows "\<exists>k'. fetch_loop n k = Some (Ret 1 k') \<and> text_ok k' \<and> future k' = future k \<and> q_list k' \<noteq> []"
  using assms
proof (induction n arbitrary: k)
  case 0
  then show ?case by (simp add: input_left_def)
next
  case (Suc n)
  obtain r k' where f: "host_fetch True k = Ret r k'" "text_ok k'" "future k' = future k" "r = 1 \<longrightarrow> q_list k' \<noteq> []"
    "r \<noteq> 1 \<longrightarrow> q_list k' = []" "r \<noteq> 1 \<longrightarrow> r \<noteq> 0 \<longrightarrow> future k = []"
    using fetch_text [OF Suc.prems(1,2), of True] by blast
  consider "r = 1" | "r = 0" using f(6) Suc.prems(3) by blast
  then show ?case
  proof cases
    case 2
    with f fetch_progress [of k k'] Suc.prems have "input_left k' \<le> n" by (auto simp: text_ok_def)
    with Suc.IH [of k'] f 2 Suc.prems(3) show ?thesis by simp
  qed (use f in simp)
qed

lemma pop_key_text:
  assumes "text_ok k" "q_list k = c # cs"
  shows "\<exists>k'. pop_key k = (c, k') \<and> text_ok k' \<and> future k = c # future k'"
proof -
  obtain k1 where k1: "q_pop k = (c, k1)" "q_list k1 = cs"
    using q_pop_list [OF _ assms(2)] assms(1) by (cases "q_pop k") (auto simp: text_ok_def host_ok_def)
  have ok: "kbd_ok k1" using q_pop_ok [of k] k1 assms(1) by (simp add: text_ok_def host_ok_def)
  have f: "k1 = k\<lparr>q_tail := (q_tail k + 1) mod 256\<rparr>" using k1(1) by (simp add: q_pop_def)
  have "text_ok k1" using assms(1) ok by (simp add: text_ok_def host_ok_def f pending_def)
  moreover have "future k = c # future k1" using assms(2) k1(2) by (simp add: future_def f pending_def to_come_def)
  moreover obtain k' where k': "pop_key k = (c, k')" "same_text k' k1"
    using k1 by (auto simp: pop_key_def same_text_def)
  ultimately show ?thesis using same_text_cong [OF k'(2)] by auto
qed

lemma read_text:
  assumes "text_ok k" "future k = c # cs"
  shows "\<exists>k'. kaypro_kbd_read k = Ret (Byte c) k' \<and> text_ok k' \<and> future k' = cs"
proof -
  define k0 where "k0 = k\<lparr>n_reads := n_reads k + 1, empty_polls := 0, polls_since_read := 0, gate_open := True\<rparr>"
  have "same_text k0 k" by (simp add: k0_def same_text_def)
  with same_text_cong [OF this] assms have k0: "text_ok k0" "future k0 = c # cs" by auto
  then have ok: "kbd_ok k0" "\<not> scripted k0" by (auto simp: text_ok_def host_ok_def)
  show ?thesis
  proof (cases "q_list k0 = []")
    case True
    obtain k1 where k1: "fetch_loop (input_left k0) k0 = Some (Ret 1 k1)" "text_ok k1" "future k1 = future k0" "q_list k1 \<noteq> []"
      using fetch_loop_text [OF k0(1) True _ le_refl] k0(2) by auto
    then obtain c' cs' where q: "q_list k1 = c' # cs'" by (meson list.exhaust)
    with pop_key_text [OF k1(2) q] obtain k' where "pop_key k1 = (c', k')" "text_ok k'" "future k1 = c' # future k'" by blast
    with k1 k0(2) True ok show ?thesis
      unfolding kaypro_kbd_read_def k0_def [symmetric] by (simp add: q_empty_iff Let_def)
  next
    case False
    then obtain c' cs' where q: "q_list k0 = c' # cs'" by (meson list.exhaust)
    with pop_key_text [OF k0(1) q] obtain k' where "pop_key k0 = (c', k')" "text_ok k'" "future k0 = c' # future k'" by blast
    with k0(2) False ok show ?thesis
      unfolding kaypro_kbd_read_def k0_def [symmetric] by (simp add: q_empty_iff Let_def)
  qed
qed

lemma gated_same: "same_text (snd (gated k)) k"
  by (simp add: gated_def same_text_def Let_def)

lemma poll_quiet_same: "poll_quiet k = Ret b k' \<Longrightarrow> same_text k' k"
  by (auto simp: poll_quiet_def count_quiet_def same_text_def Let_def split: if_splits)

lemma same_text_trans: "same_text k2 k1 \<Longrightarrow> same_text k1 k \<Longrightarrow> same_text k2 k"
  by (simp add: same_text_def)

lemma poll_text:
  assumes "text_ok k" "kaypro_kbd_poll k = Ret b k'"
  shows "text_ok k' \<and> future k' = future k"
proof -
  define k0 where "k0 = k\<lparr>n_polls := n_polls k + 1\<rparr>"
  have s: "same_text k0 k" by (simp add: k0_def same_text_def)
  with same_text_cong [OF this] assms(1) have k0: "text_ok k0" "future k0 = future k" by auto
  then have ns: "\<not> scripted k0" "kbd_ok k0" by (auto simp: text_ok_def host_ok_def)
  have p: "paced_out k0 = (False, k0)" using ns by (simp add: paced_out_def)
  show ?thesis
  proof (cases "q_empty k0")
    case False
    then have "\<exists>g k1. gated k0 = (g, k1) \<and> same_text k' k1"
      using assms(2) p unfolding kaypro_kbd_poll_def k0_def [symmetric]
      by (cases "gated k0") (auto simp: same_text_def split: if_splits)
    then have "same_text k' k0" using gated_same [of k0] same_text_trans by (metis snd_conv)
    then show ?thesis using same_text_cong k0 by metis
  next
    case True
    then have e: "q_list k0 = []" using ns by (simp add: q_empty_iff)
    have ph: "poll_host k0 = Ret b k'"
      using True ns assms(2) unfolding kaypro_kbd_poll_def k0_def [symmetric] by simp
    show ?thesis
    proof (cases "stdin_eof k0")
      case True
      with ph have "same_text k' k0" by (simp add: poll_host_def poll_quiet_same)
      then show ?thesis using same_text_cong k0 by metis
    next
      case False
      obtain r k1 where f: "host_fetch False k0 = Ret r k1" "text_ok k1" "future k1 = future k0"
        using fetch_text [OF k0(1) e] by metis
      have "same_text k' k1"
      proof (cases "r = 1")
        case True
        then have "\<exists>g k2. gated k1 = (g, k2) \<and> same_text k' k2"
          using ph f False by (cases "gated k1") (auto simp: poll_host_def same_text_def split: if_splits)
        then show ?thesis using gated_same [of k1] same_text_trans by (metis snd_conv)
      next
        case False
        then have "poll_quiet (if r < 0 \<and> piped k1 then k1\<lparr>stdin_eof := True\<rparr> else k1) = Ret b k'"
          using ph f \<open>\<not> stdin_eof k0\<close> by (simp add: poll_host_def)
        from poll_quiet_same [OF this] show ?thesis by (simp add: same_text_def split: if_splits)
      qed
      then show ?thesis using same_text_cong f k0 by metis
    qed
  qed
qed

text \<open>The end of the input is noted only by a poll that finds it, so while there is text a poll goes on.\<close>

lemma push_all_eof: "stdin_eof (fold q_push xs k) = stdin_eof k"
  by (induction xs arbitrary: k) (simp_all add: q_push_def Let_def)

lemma drain_loop_eof: "drain_loop buf q k = Some (i, q', k') \<Longrightarrow> stdin_eof k' = stdin_eof k"
proof (induction buf q k arbitrary: i rule: drain_loop.induct)
  case (1 buf q k)
  then show ?case
    by (cases "buf = [] \<or> q_room k < 8"; cases "buf ! 0 = 0x1D")
      (auto simp: drain_loop.simps [of buf] Let_def push_all_eof)
qed

lemma host_drain_eof: "host_drain k = Ret q k' \<Longrightarrow> stdin_eof k' = stdin_eof k"
  by (auto simp: host_drain_def Let_def dest!: drain_loop_eof split: option.splits prod.splits if_splits)

lemma host_fetch_eof:
  assumes "host_fetch block k = Ret r k'"
  shows "stdin_eof k' = stdin_eof k"
proof (cases "hlen k = 0")
  case True
  obtain l k1 where l: "host_read block k = (l, k1)" by (metis surj_pair)
  have "stdin_eof k1 = stdin_eof k"
    using host_read_shape(1) [OF l] by (cases k; cases k1) (simp add: fewer_input_def)
  with True assms l show ?thesis
    by (auto simp: host_fetch_alt dest!: host_drain_eof split: option.splits kres.splits if_splits)
next
  case False
  with assms show ?thesis by (auto simp: host_fetch_alt dest: host_drain_eof split: kres.splits)
qed

lemma fetch_loop_eof: "fetch_loop n k = Some (Ret r k') \<Longrightarrow> stdin_eof k' = stdin_eof k"
  by (induction n arbitrary: k) (auto dest: host_fetch_eof split: kres.splits if_splits)

lemma read_eof: "kaypro_kbd_read k = Ret x k' \<Longrightarrow> \<not> scripted k \<Longrightarrow> stdin_eof k' = stdin_eof k"
  by (auto simp: kaypro_kbd_read_def pop_key_def q_pop_def Let_def dest!: fetch_loop_eof
      split: option.splits kres.splits prod.splits if_splits)

definition live_text :: "kbd \<Rightarrow> bool" where
  "live_text k \<longleftrightarrow> text_ok k \<and> (stdin_eof k \<longrightarrow> future k = [])"

lemma poll_live:
  assumes "text_ok k" "\<not> stdin_eof k" "future k \<noteq> []"
  shows "\<exists>b k'. kaypro_kbd_poll k = Ret b k' \<and> \<not> stdin_eof k'"
proof -
  define k0 where "k0 = k\<lparr>n_polls := n_polls k + 1\<rparr>"
  have s: "same_text k0 k" by (simp add: k0_def same_text_def)
  with same_text_cong [OF this] assms have k0: "text_ok k0" "future k0 \<noteq> []" "\<not> stdin_eof k0" by (auto simp: k0_def)
  then have ns: "\<not> scripted k0" "kbd_ok k0" by (auto simp: text_ok_def host_ok_def)
  have p: "paced_out k0 = (False, k0)" using ns by (simp add: paced_out_def)
  have g: "stdin_eof (snd (gated x)) = stdin_eof x" for x by (simp add: gated_def Let_def)
  show ?thesis
  proof (cases "q_empty k0")
    case False
    then show ?thesis using p k0(3) g [of k0] unfolding kaypro_kbd_poll_def k0_def [symmetric]
      by (cases "gated k0") (auto split: if_splits)
  next
    case True
    then have e: "q_list k0 = []" using ns by (simp add: q_empty_iff)
    obtain r k1 where f: "host_fetch False k0 = Ret r k1" "r \<noteq> 1 \<longrightarrow> r \<noteq> 0 \<longrightarrow> future k0 = []"
      using fetch_text [OF k0(1) e] by metis
    have k1: "\<not> stdin_eof k1" using host_fetch_eof [OF f(1)] k0(3) by simp
    have r: "r = 1 \<or> r = 0" using f(2) k0(2) by blast
    have "kaypro_kbd_poll k = poll_host k0" using True ns unfolding kaypro_kbd_poll_def k0_def [symmetric] by simp
    also have "\<exists>b k'. poll_host k0 = Ret b k' \<and> \<not> stdin_eof k'"
      using r f(1) k0(3) k1 g [of k1]
      by (cases "gated k1") (auto simp: poll_host_def poll_quiet_def count_quiet_def Let_def)
    finally show ?thesis .
  qed
qed

lemma poll_live_text:
  assumes "live_text k" "kaypro_kbd_poll k = Ret b k'"
  shows "live_text k' \<and> future k' = future k"
proof -
  have t: "text_ok k'" "future k' = future k" using poll_text [of k b k'] assms by (auto simp: live_text_def)
  moreover have "\<not> stdin_eof k'" if "future k \<noteq> []"
    using poll_live [of k] that assms by (auto simp: live_text_def)
  ultimately show ?thesis by (auto simp: live_text_def)
qed

lemma read_live_text:
  assumes "live_text k" "future k = c # cs"
  shows "\<exists>k'. kaypro_kbd_read k = Ret (Byte c) k' \<and> live_text k' \<and> future k' = cs"
proof -
  have k: "text_ok k" "\<not> stdin_eof k" "\<not> scripted k" using assms by (auto simp: live_text_def text_ok_def)
  from read_text [OF k(1) assms(2)] read_eof [of k _ _, OF _ k(3)] k(2) show ?thesis
    unfolding live_text_def by blast
qed

text \<open>A guest that polls and reads in any order: the bytes it reads.  \<open>None\<close> is the end of the
  session (a poll that gives up at the end of the input).\<close>

datatype kbd_call = Poll | Read

fun console :: "kbd_call list \<Rightarrow> kbd \<Rightarrow> bytes option" where
  "console [] k = Some []"
| "console (Poll # cs) k = (case kaypro_kbd_poll k of Quit \<Rightarrow> None | Ret b k \<Rightarrow> console cs k)"
| "console (Read # cs) k =
     (case kaypro_kbd_read k of
        Ret (Byte c) k \<Rightarrow> map_option (\<lambda>bs. c # bs) (console cs k)
      | _ \<Rightarrow> None)"

abbreviation n_read :: "kbd_call list \<Rightarrow> nat" where
  "n_read calls \<equiv> length (filter (\<lambda>c. c = Read) calls)"

text \<open>A source of console input: \<open>rest\<close> is what it has yet to deliver.  A poll leaves it as it is and does not end the
  session while there is any, a read takes its first byte.  The host terminal is one source, a script another.\<close>

locale byte_source =
  fixes src_ok :: "kbd \<Rightarrow> bool" and rest :: "kbd \<Rightarrow> bytes"
  assumes poll_keeps: "src_ok k \<Longrightarrow> kaypro_kbd_poll k = Ret b k' \<Longrightarrow> src_ok k' \<and> rest k' = rest k"
    and poll_goes_on: "src_ok k \<Longrightarrow> rest k \<noteq> [] \<Longrightarrow> kaypro_kbd_poll k \<noteq> Quit"
    and read_takes: "src_ok k \<Longrightarrow> rest k = d # ds \<Longrightarrow> \<exists>k'. kaypro_kbd_read k = Ret (Byte d) k' \<and> src_ok k' \<and> rest k' = ds"
begin

lemma delivers_in_order:
  "src_ok k \<Longrightarrow> n_read calls \<le> length (rest k) \<Longrightarrow>
    (console calls k = None \<or> console calls k = Some (take (n_read calls) (rest k))) \<and>
    (Poll \<notin> set calls \<longrightarrow> console calls k \<noteq> None)"
proof (induction calls arbitrary: k)
  case (Cons c cs)
  show ?case
  proof (cases c)
    case Poll
    show ?thesis
    proof (cases "kaypro_kbd_poll k")
      case (Ret b k')
      with poll_keeps [OF Cons.prems(1)] Cons.IH [of k'] Cons.prems(2) Poll show ?thesis by auto
    qed (simp add: Poll)
  next
    case Read
    with Cons.prems(2) obtain d ds where f: "rest k = d # ds" by (cases "rest k") auto
    with read_takes [OF Cons.prems(1)] obtain k' where k': "kaypro_kbd_read k = Ret (Byte d) k'" "src_ok k'" "rest k' = ds"
      by blast
    from Cons.IH [OF k'(2)] k' Read f Cons.prems(2) show ?thesis by auto
  qed
qed simp

lemma session_goes_on: "src_ok k \<Longrightarrow> n_read calls < length (rest k) \<Longrightarrow> console calls k \<noteq> None"
proof (induction calls arbitrary: k)
  case (Cons c cs)
  then have ne: "rest k \<noteq> []" by auto
  show ?case
  proof (cases c)
    case Poll
    then obtain b k' where "kaypro_kbd_poll k = Ret b k'"
      using poll_goes_on [OF Cons.prems(1) ne] by (cases "kaypro_kbd_poll k") auto
    with Poll Cons.IH [of k'] Cons.prems poll_keeps [OF Cons.prems(1)] show ?thesis by auto
  next
    case Read
    obtain d ds where r: "rest k = d # ds" using ne by (cases "rest k") auto
    show ?thesis using Read r read_takes [OF Cons.prems(1) r] Cons.IH Cons.prems(2) by fastforce
  qed
qed simp

lemma delivers_all:
  assumes "src_ok k"
  shows "n_read calls < length (rest k) \<longrightarrow> console calls k = Some (take (n_read calls) (rest k))"
    "n_read calls = length (rest k) \<longrightarrow> console calls k = Some (rest k) \<or> Poll \<in> set calls \<and> console calls k = None"
  using delivers_in_order [OF assms, of calls] session_goes_on [OF assms, of calls] by auto

end

interpretation typed_text: byte_source live_text future
proof
  show "kaypro_kbd_poll k \<noteq> Quit" if "live_text k" "future k \<noteq> []" for k
    using poll_live [of k] that by (auto simp: live_text_def)
qed (rule poll_live_text read_live_text; assumption)+

text \<open>C16: Typed or piped text reaches the guest complete and in order.  The text is plain (no ESC, \<open>^]\<close>, Backspace or
  DEL, which mean something to the keyboard code) and its end has not been noted before.  Whatever bursts the
  host delivers it in, and however the guest mixes polls and reads, the bytes it reads are the next bytes of the text
  (with LF and CR LF of piped input turned into CR); as long as a byte is left unread no poll and no read ends the
  session; once all are read, only a poll can.\<close>

theorem text_arrives_in_order:
  assumes "text_ok k" "stdin_eof k \<longrightarrow> future k = []"
  shows "(length (filter (\<lambda>c. c = Read) calls) < length (future k) \<longrightarrow>
      console calls k = Some (take (length (filter (\<lambda>c. c = Read) calls)) (future k))) \<and>
    (length (filter (\<lambda>c. c = Read) calls) = length (future k) \<longrightarrow>
      console calls k = Some (future k) \<or> Poll \<in> set calls \<and> console calls k = None)"
  using typed_text.delivers_all [of k calls] assms by (simp add: live_text_def)

theorem text_arrives_in_order_witness:
  "console [Poll, Read, Read, Poll, Read, Poll] demo_kbd = Some [0x64, 0x69, 0x72]"
proof -
  have "text_ok demo_kbd" using demo_kbd_ok(1)
    by (simp add: text_ok_def) (simp add: demo_kbd_def kaypro_kbd_init_def pending_def plain_def)
  moreover have "future demo_kbd = [0x64, 0x69, 0x72, 0x0D]"
    by (simp add: future_def q_list_def q_len_def demo_kbd_def kaypro_kbd_init_def pending_def to_come_def look_bytes_def)
  moreover have "\<not> stdin_eof demo_kbd" by (simp add: demo_kbd_def kaypro_kbd_init_def)
  ultimately show ?thesis
    using text_arrives_in_order [of demo_kbd "[Poll, Read, Read, Poll, Read, Poll]"]
    by (simp del: console.simps)
qed

section \<open>Script lines\<close>

text \<open>A script line of more than 1024 plain characters runs past the end of the line parser's buffer: the
  test that empties a full buffer follows only the escapes.\<close>

theorem long_script_line_overruns:
  assumes "0x7E \<notin> set line" "0x5C \<notin> set line" "1024 < length buf + length line" "length buf \<le> 1024"
  shows "parse_text line buf ss = None"
  using assms
proof (induction line arbitrary: buf)
  case (Cons c cs)
  then show ?case by (cases "length buf = 1024") (auto simp: parse_text.simps [of "c # cs"])
qed simp

end
