(* ===== verification/Kaypro_Video_Props.thy ===== *)
theory Kaypro_Video_Props
  imports Kaypro_Video
begin

text \<open>
  The Kaypro screen is memory safe on every byte stream, its dirty-row mask covers every cell
  that changes, and the cursor, scrolling, line and status-line operations do what the
  terminal's guide says.
\<close>

section \<open>Stores into the array\<close>

definition put_at :: "nat \<Rightarrow> 'a list \<Rightarrow> 'a list \<Rightarrow> 'a list" where
  "put_at p xs cs = take p cs @ xs @ drop (p + length xs) cs"

lemma length_put_at [simp]: "p + length xs \<le> length cs \<Longrightarrow> length (put_at p xs cs) = length cs"
  by (simp add: put_at_def)

lemma nth_put_at:
  "p + length xs \<le> length cs \<Longrightarrow>
   put_at p xs cs ! i = (if p \<le> i \<and> i < p + length xs then xs ! (i - p) else cs ! i)"
  by (auto simp: put_at_def nth_append)

lemma store_cells_eq:
  "0 \<le> p \<Longrightarrow> p + int (length xs) \<le> int (length cs) \<Longrightarrow> store_cells p xs cs = Some (put_at (nat p) xs cs)"
  by (simp add: store_cells_def put_at_def)

lemma blank_cells_eq:
  "0 \<le> p \<Longrightarrow> 0 \<le> n \<Longrightarrow> p + n \<le> int (length cs) \<Longrightarrow>
   blank_cells p n cs = Some (put_at (nat p) (replicate (nat n) blank) cs)"
  by (simp add: blank_cells_def store_cells_eq)

lemma memmove_cells_eq:
  "0 \<le> d \<Longrightarrow> 0 \<le> s \<Longrightarrow> 0 \<le> n \<Longrightarrow> d + n \<le> int (length cs) \<Longrightarrow> s + n \<le> int (length cs) \<Longrightarrow>
   memmove_cells d s n cs = Some (put_at (nat d) (take (nat n) (drop (nat s) cs)) cs)"
  by (simp add: memmove_cells_def load_cells_def store_cells_eq)

lemma put_at_append:
  "p + length xs + length ys \<le> length cs \<Longrightarrow>
   put_at (p + length xs) ys (put_at p xs cs) = put_at p (xs @ ys) cs"
  by (intro nth_equalityI) (auto simp: nth_put_at nth_append)

lemma blank_rows_eq:
  "0 \<le> r \<Longrightarrow> (r + int k) * 80 \<le> int (length cs) \<Longrightarrow>
   blank_rows r k cs = Some (put_at (nat (r * 80)) (replicate (k * 80) blank) cs)"
proof (induction r k cs rule: blank_rows.induct)
  case (1 r cs)
  then show ?case by (simp add: put_at_def)
next
  case (2 r k cs)
  let ?cs = "put_at (nat (r * 80)) (replicate 80 blank) cs"
  have b: "blank_cells (cell_index r 0) 80 cs = Some ?cs"
    using 2(2,3) by (subst blank_cells_eq) (auto simp: cell_index_def)
  have "blank_rows (r + 1) k ?cs = Some (put_at (nat ((r + 1) * 80)) (replicate (k * 80) blank) ?cs)"
    using 2(2,3) by (intro 2(1) [OF b]) (auto simp: algebra_simps)
  also have "nat ((r + 1) * 80) = nat (r * 80) + length (replicate 80 blank)"
    using 2(2) by (simp add: algebra_simps)
  also have "put_at (nat (r * 80) + length (replicate 80 blank)) (replicate (k * 80) blank) ?cs =
      put_at (nat (r * 80)) (replicate 80 blank @ replicate (k * 80) blank) cs"
    using 2(2,3) by (intro put_at_append) (simp add: algebra_simps)
  finally show ?case by (simp add: b replicate_add)
qed

section \<open>Operations that keep an invariant\<close>

text \<open>The screen operations are partial functions on the state, composed by \<open>bind\<close> and tests.  An
  operation keeps \<open>P\<close> within \<open>R\<close> if, from a state with \<open>P\<close>, it does not fail, \<open>P\<close> holds again and
  the two states are related by \<open>R\<close>.\<close>

locale video_inv =
  fixes P :: "kaypro_video \<Rightarrow> bool" and R :: "kaypro_video \<Rightarrow> kaypro_video \<Rightarrow> bool"
  assumes R_refl: "R kv kv" and R_trans: "R a b \<Longrightarrow> R b c \<Longrightarrow> R a c"
begin

definition keeps :: "(kaypro_video \<Rightarrow> kaypro_video option) \<Rightarrow> bool" where
  "keeps f \<longleftrightarrow> (\<forall>kv. P kv \<longrightarrow> (\<exists>kv'. f kv = Some kv' \<and> P kv' \<and> R kv kv'))"

lemma keepsI:
  assumes "\<And>kv. P kv \<Longrightarrow> f kv = Some (g kv)" "\<And>kv. P kv \<Longrightarrow> P (g kv)" "\<And>kv. P kv \<Longrightarrow> R kv (g kv)"
  shows "keeps f"
  using assms by (auto simp: keeps_def)

lemma keepsE: "keeps f \<Longrightarrow> P kv \<Longrightarrow> \<exists>kv'. f kv = Some kv' \<and> P kv' \<and> R kv kv'"
  by (simp add: keeps_def)

lemma keeps_bind2:
  assumes "keeps f" "\<And>kv. keeps (g kv)"
  shows "keeps (\<lambda>kv. Option.bind (f kv) (g kv))"
  unfolding keeps_def
proof (intro allI impI)
  fix kv assume "P kv"
  then obtain kv1 where 1: "f kv = Some kv1" "P kv1" "R kv kv1" using keepsE [OF assms(1)] by blast
  with keepsE [OF assms(2)] obtain kv2 where "g kv kv1 = Some kv2" "P kv2" "R kv1 kv2" by blast
  with 1 show "\<exists>kv'. Option.bind (f kv) (g kv) = Some kv' \<and> P kv' \<and> R kv kv'" using R_trans by auto
qed

lemmas keeps_bind = keeps_bind2 [where g = "\<lambda>_. h" for h]

lemma keeps_cong: "(\<And>kv. P kv \<Longrightarrow> f kv = g kv) \<Longrightarrow> keeps g \<Longrightarrow> keeps f"
  by (simp add: keeps_def)

lemma keeps_if: "keeps f \<Longrightarrow> keeps g \<Longrightarrow> keeps (\<lambda>kv. if c kv then f kv else g kv)"
  by (simp add: keeps_def)

lemma keeps_Some: "keeps Some"
  using R_refl by (auto simp: keeps_def)

lemma keeps_write:
  assumes "\<And>b. b \<in> set bs \<Longrightarrow> keeps (kaypro_video_putc b)"
  shows "keeps (kaypro_video_write bs)"
  using assms
proof (induction bs)
  case Nil
  then show ?case using keeps_cong [OF _ keeps_Some] by simp
next
  case (Cons b bs)
  then have "keeps (\<lambda>kv. Option.bind (kaypro_video_putc b kv) (kaypro_video_write bs))" by (intro keeps_bind) auto
  then show ?case by (rule keeps_cong [rotated]) simp
qed

end

section \<open>Well-formed screens and what an operation may do to them\<close>

definition esc_ok :: "kaypro_video \<Rightarrow> bool" where
  "esc_ok kv \<longleftrightarrow> esc_state kv \<in> {0, 1} \<or>
     esc_state kv = 2 \<and> 0 < esc_need kv \<and> 0 \<le> esc_nargs kv \<and>
     map_option nargs (esc_lookup (esc_lead kv) kv) = Some (esc_nargs kv + esc_need kv)"

definition video_wf :: "kaypro_video \<Rightarrow> bool" where
  "video_wf kv \<longleftrightarrow> length (cells kv) = 2000 \<and> model kv \<in> {KAYPRO_MODEL_II, KAYPRO_MODEL_84} \<and>
     0 \<le> cur_row kv \<and> cur_row kv \<le> max_row kv \<and> 0 \<le> cur_col kv \<and> cur_col kv < KV_COLS \<and>
     0 \<le> saved_row kv \<and> saved_row kv \<le> max_row kv \<and> 0 \<le> saved_col kv \<and> saved_col kv < KV_COLS \<and>
     length (esc_args kv) = 4"

text \<open>\<open>tracked kv kv'\<close>: a cell that differs is in a row \<open>kv'\<close> marks dirty, and no mark is lost.\<close>

definition tracked :: "kaypro_video \<Rightarrow> kaypro_video \<Rightarrow> bool" where
  "tracked kv kv' \<longleftrightarrow> model kv' = model kv \<and>
     (\<forall>i < 2000. cells kv' ! i = cells kv ! i \<or> bit (dirty_rows kv') (i div 80)) \<and>
     (\<forall>r < 25. bit (dirty_rows kv) r \<longrightarrow> bit (dirty_rows kv') r)"

lemma tracked_refl [simp]: "tracked kv kv"
  by (simp add: tracked_def)

lemma tracked_trans:
  assumes "tracked a b" "tracked b c"
  shows "tracked a c"
proof -
  have "i div 80 < 25" if "i < 2000" for i :: nat using that by linarith
  then show ?thesis using assms unfolding tracked_def by metis
qed

definition same_esc :: "kaypro_video \<Rightarrow> kaypro_video \<Rightarrow> bool" where
  "same_esc kv kv' \<longleftrightarrow> esc_state kv' = esc_state kv \<and> esc_lead kv' = esc_lead kv \<and> esc_need kv' = esc_need kv \<and>
     esc_nargs kv' = esc_nargs kv \<and> esc_args kv' = esc_args kv"

lemma same_esc_trans: "same_esc a b \<Longrightarrow> same_esc b c \<Longrightarrow> same_esc a c"
  by (simp add: same_esc_def)

definition marked :: "kaypro_video \<Rightarrow> kaypro_video \<Rightarrow> bool" where
  "marked kv kv' \<longleftrightarrow> tracked kv kv' \<and> same_esc kv kv'"

interpretation vw: video_inv video_wf marked
  by unfold_locales (auto simp: marked_def same_esc_def intro: tracked_trans)

abbreviation good :: "(kaypro_video \<Rightarrow> kaypro_video option) \<Rightarrow> bool" where
  "good \<equiv> vw.keeps"

lemmas good_bind2 = vw.keeps_bind2 and good_bind = vw.keeps_bind
  and good_cong = vw.keeps_cong and good_if = vw.keeps_if and good_Some = vw.keeps_Some

lemma good_def: "good f \<longleftrightarrow> (\<forall>kv. video_wf kv \<longrightarrow> (\<exists>kv'. f kv = Some kv' \<and> video_wf kv' \<and> tracked kv kv' \<and> same_esc kv kv'))"
  by (simp add: vw.keeps_def marked_def)

lemma goodI:
  assumes "\<And>kv. video_wf kv \<Longrightarrow> f kv = Some (g kv)" "\<And>kv. video_wf kv \<Longrightarrow> video_wf (g kv)"
    "\<And>kv. video_wf kv \<Longrightarrow> tracked kv (g kv)" "\<And>kv. video_wf kv \<Longrightarrow> same_esc kv (g kv)"
  shows "good f"
  using assms by (intro vw.keepsI [of _ g]) (auto simp: marked_def)

text \<open>Updates of fields that none of this looks at.\<close>

lemma quiet_update [simp]:
  "video_wf (kv\<lparr>cursor_moved := m\<rparr>) = video_wf kv" "video_wf (kv\<lparr>bells := b\<rparr>) = video_wf kv"
  "video_wf (kv\<lparr>attr := t\<rparr>) = video_wf kv" "video_wf (kv\<lparr>cursor_visible := v\<rparr>) = video_wf kv"
  "video_wf (kv\<lparr>video_mode := v\<rparr>) = video_wf kv" "video_wf (kv\<lparr>gfx_pending := v\<rparr>) = video_wf kv"
  "video_wf (kv\<lparr>gfx_first := t\<rparr>) = video_wf kv" "video_wf (kv\<lparr>unknown_esc := b\<rparr>) = video_wf kv"
  "video_wf (kv\<lparr>unknown_ctrl := b\<rparr>) = video_wf kv" "video_wf (kv\<lparr>bytes_in := n\<rparr>) = video_wf kv"
  "video_wf (kv\<lparr>status_preserve := v\<rparr>) = video_wf kv" "video_wf (kv\<lparr>dirty_rows := d\<rparr>) = video_wf kv"
  "video_wf (kv\<lparr>esc_state := v\<rparr>) = video_wf kv" "video_wf (kv\<lparr>esc_lead := t\<rparr>) = video_wf kv"
  "video_wf (kv\<lparr>esc_need := v\<rparr>) = video_wf kv" "video_wf (kv\<lparr>esc_nargs := v\<rparr>) = video_wf kv"
  by (simp_all add: video_wf_def max_row_def)

lemma quiet_good:
  "good (\<lambda>kv. Some (kv\<lparr>cursor_moved := m\<rparr>))" "good (\<lambda>kv. Some (kv\<lparr>bells := f kv\<rparr>))"
  "good (\<lambda>kv. Some (kv\<lparr>attr := t kv\<rparr>))" "good (\<lambda>kv. Some (kv\<lparr>unknown_esc := f kv\<rparr>))"
  "good (\<lambda>kv. Some (kv\<lparr>unknown_ctrl := f kv\<rparr>))" "good (\<lambda>kv. Some (kv\<lparr>bytes_in := n kv\<rparr>))"
  "good (\<lambda>kv. Some (kv\<lparr>status_preserve := v\<rparr>))" "good (\<lambda>kv. Some (kv\<lparr>gfx_pending := v, gfx_first := c\<rparr>))"
  "good (\<lambda>kv. Some (kv\<lparr>cursor_visible := v, cursor_moved := 1\<rparr>))" "good (\<lambda>kv. Some (kv\<lparr>video_mode := v, gfx_pending := 0\<rparr>))"
  "good (\<lambda>kv. Some (kv\<lparr>gfx_pending := v\<rparr>))"
  by (simp_all add: good_def tracked_def same_esc_def)

section \<open>The screen operations\<close>

lemma all_dirty_bits: "bit (dirty_rows (mark_all_dirty kv)) r \<longleftrightarrow> r < 25"
proof -
  have m: "(push_bit (nat KV_ROWS) 1 - 1 :: u32) = mask 25" by (simp add: mask_eq_exp_minus_1 push_bit_eq_mult)
  show ?thesis unfolding mark_all_dirty_def m by (auto simp del: mask_numeral simp add: bit_mask_iff)
qed

lemma mark_fields [simp]:
  "video_wf (mark_all_dirty kv) = video_wf kv" "cells (mark_all_dirty kv) = cells kv" "model (mark_all_dirty kv) = model kv"
  "same_esc kv0 (mark_all_dirty kv) = same_esc kv0 kv"
  "video_wf (mark_dirty r kv) = video_wf kv" "cells (mark_dirty r kv) = cells kv" "model (mark_dirty r kv) = model kv"
  "same_esc kv0 (mark_dirty r kv) = same_esc kv0 kv"
  by (simp_all add: mark_all_dirty_def mark_dirty_def same_esc_def)

lemma wf_cells: "length cs = 2000 \<Longrightarrow> video_wf kv \<Longrightarrow> video_wf (kv\<lparr>cells := cs\<rparr>)"
  by (simp add: video_wf_def max_row_def)

lemma scroll_rows_range: "scroll_rows kv = 24 \<or> scroll_rows kv = 25 \<and> max_row kv = 24"
  by (auto simp: scroll_rows_def max_row_def)

lemma wf_rows: "video_wf kv \<Longrightarrow> 0 \<le> cur_row kv \<and> cur_row kv \<le> 24 \<and> 0 \<le> cur_col kv \<and> cur_col kv \<le> 79 \<and> length (cells kv) = 2000"
  by (auto simp: video_wf_def max_row_def split: if_splits)

lemma good_cells_all:
  assumes "\<And>kv. video_wf kv \<Longrightarrow> length (cs kv) = 2000"
  shows "good (\<lambda>kv. Some (mark_all_dirty (kv\<lparr>cells := cs kv\<rparr>)))"
proof -
  have "i div 80 < 25" if "i < 2000" for i :: nat using that by linarith
  then show ?thesis
    using assms by (intro goodI [OF refl]) (simp_all add: tracked_def all_dirty_bits wf_cells, simp add: same_esc_def)
qed

text \<open>The array after each operation, as stores into it.\<close>

lemma scroll_up_eq:
  assumes "video_wf kv"
  shows "scroll_up kv = Some (mark_all_dirty (kv\<lparr>cells :=
    put_at (nat (scroll_rows kv - 1) * 80) (replicate 80 blank)
      (put_at 0 (take (nat (scroll_rows kv - 1) * 80) (drop 80 (cells kv))) (cells kv))\<rparr>))"
  using wf_rows [OF assms] scroll_rows_range [of kv]
  by (elim disjE) (auto simp: scroll_up_def Let_def cell_index_def memmove_cells_eq blank_cells_eq)

lemma good_by_cells:
  assumes "\<And>kv. video_wf kv \<Longrightarrow> f kv = Some (mark_all_dirty (kv\<lparr>cells := cs kv\<rparr>))"
    "\<And>kv. video_wf kv \<Longrightarrow> length (cs kv) = 2000"
  shows "good f"
  using good_cells_all [of cs] assms by (simp add: good_def)

lemma good_scroll_up: "good scroll_up"
proof (rule good_by_cells [OF scroll_up_eq])
  fix kv assume "video_wf kv"
  with wf_rows scroll_rows_range [of kv]
  show "length (put_at (nat (scroll_rows kv - 1) * 80) (replicate 80 blank)
      (put_at 0 (take (nat (scroll_rows kv - 1) * 80) (drop 80 (cells kv))) (cells kv))) = 2000"
    by (elim disjE) auto
qed

lemma good_row_down: "good (\<lambda>kv. Some (if cur_row kv < scroll_rows kv - 1 then kv\<lparr>cur_row := cur_row kv + 1\<rparr> else kv))"
  by (rule goodI [OF refl]) (auto simp: tracked_def same_esc_def video_wf_def max_row_def scroll_rows_def)

lemma good_set_cursor: "good (\<lambda>kv. Some (set_cursor r c kv))"
  by (rule goodI [OF refl]) (auto simp: set_cursor_def video_wf_def max_row_def tracked_def same_esc_def)

lemma tracked_row:
  assumes "0 \<le> r" "r < 25" "\<And>i. i < 2000 \<Longrightarrow> i div 80 \<noteq> nat r \<Longrightarrow> cs ! i = cells kv ! i"
  shows "tracked kv (mark_dirty r (kv\<lparr>cells := cs\<rparr>))"
proof -
  have "nat r < 32" using assms(1,2) by simp
  then have "bit (dirty_rows kv OR push_bit (nat r) 1) (nat r)" by (simp add: bit_simps)
  then have "cs ! i = cells kv ! i \<or> bit (dirty_rows kv OR push_bit (nat r) 1) (i div 80)" if "i < 2000" for i
    using assms(3) [OF that] by (cases "i div 80 = nat r") auto
  then show ?thesis by (simp add: tracked_def mark_dirty_def bit_or_iff)
qed

lemma cell_index_range:
  assumes "video_wf kv"
  shows "0 \<le> cell_index (cur_row kv) (cur_col kv)" "cell_index (cur_row kv) (cur_col kv) + (80 - cur_col kv) \<le> 2000"
    "nat (cell_index (cur_row kv) (cur_col kv)) = nat (cur_row kv) * 80 + nat (cur_col kv)"
  using wf_rows [OF assms] by (auto simp: cell_index_def nat_add_distrib nat_mult_distrib)

text \<open>A store that stays in the cursor's row.\<close>

definition cursor_at :: "kaypro_video \<Rightarrow> nat" where
  "cursor_at kv = nat (cur_row kv) * 80 + nat (cur_col kv)"

lemma row_store_eq:
  assumes "video_wf kv" "int (length xs) \<le> 80 - cur_col kv"
  shows "store_cells (cell_index (cur_row kv) (cur_col kv)) xs (cells kv) = Some (put_at (cursor_at kv) xs (cells kv))"
    "cursor_at kv + length xs \<le> 2000"
  using wf_rows [OF assms(1)] cell_index_range [OF assms(1)] assms(2) by (simp_all add: store_cells_eq cursor_at_def)

lemma row_store_keeps:
  assumes "video_wf kv" "int (length xs) \<le> 80 - cur_col kv" "i div 80 \<noteq> nat (cur_row kv)"
  shows "put_at (cursor_at kv) xs (cells kv) ! i = cells kv ! i"
proof -
  have "nat (cur_col kv) + length xs \<le> 80" using wf_rows [OF assms(1)] assms(2) by linarith
  then have "\<not> (cursor_at kv \<le> i \<and> i < cursor_at kv + length xs)"
    using assms(3) unfolding cursor_at_def by linarith
  then show ?thesis using row_store_eq(2) [OF assms(1,2)] wf_rows [OF assms(1)] by (auto simp: nth_put_at)
qed

lemma good_row_store:
  assumes "\<And>kv. video_wf kv \<Longrightarrow> int (length (xs kv)) \<le> 80 - cur_col kv"
  shows "good (\<lambda>kv. Option.bind (store_cells (cell_index (cur_row kv) (cur_col kv)) (xs kv) (cells kv))
     (\<lambda>cs. Some (mark_dirty (cur_row kv) (kv\<lparr>cells := cs\<rparr>))))"
proof (rule goodI [of _ "\<lambda>kv. mark_dirty (cur_row kv) (kv\<lparr>cells := put_at (cursor_at kv) (xs kv) (cells kv)\<rparr>)"])
  fix kv :: kaypro_video assume w: "video_wf kv"
  note r = wf_rows [OF w] row_store_eq [OF w assms [OF w]] row_store_keeps [OF w assms [OF w]]
  show "Option.bind (store_cells (cell_index (cur_row kv) (cur_col kv)) (xs kv) (cells kv))
     (\<lambda>cs. Some (mark_dirty (cur_row kv) (kv\<lparr>cells := cs\<rparr>))) =
      Some (mark_dirty (cur_row kv) (kv\<lparr>cells := put_at (cursor_at kv) (xs kv) (cells kv)\<rparr>))"
    "video_wf (mark_dirty (cur_row kv) (kv\<lparr>cells := put_at (cursor_at kv) (xs kv) (cells kv)\<rparr>))"
    "tracked kv (mark_dirty (cur_row kv) (kv\<lparr>cells := put_at (cursor_at kv) (xs kv) (cells kv)\<rparr>))"
    "same_esc kv (mark_dirty (cur_row kv) (kv\<lparr>cells := put_at (cursor_at kv) (xs kv) (cells kv)\<rparr>))"
    using r w by (simp_all add: wf_cells tracked_row) (simp add: same_esc_def)
qed

lemma good_blank_below:
  "good (\<lambda>kv. Option.bind (blank_rows (cur_row kv + 1) (nat (scroll_rows kv - (cur_row kv + 1))) (cells kv))
     (\<lambda>cs. Some (mark_all_dirty (kv\<lparr>cells := cs\<rparr>))))"
proof (rule good_by_cells [where cs = "\<lambda>kv. put_at (nat ((cur_row kv + 1) * 80))
    (replicate (nat (scroll_rows kv - (cur_row kv + 1)) * 80) blank) (cells kv)"])
  fix kv :: kaypro_video assume w: "video_wf kv"
  have b: "(cur_row kv + 1 + int (nat (scroll_rows kv - (cur_row kv + 1)))) * 80 \<le> 2000"
    using wf_rows [OF w] scroll_rows_range [of kv] by auto
  then show "Option.bind (blank_rows (cur_row kv + 1) (nat (scroll_rows kv - (cur_row kv + 1))) (cells kv))
      (\<lambda>cs. Some (mark_all_dirty (kv\<lparr>cells := cs\<rparr>))) = Some (mark_all_dirty (kv\<lparr>cells :=
      put_at (nat ((cur_row kv + 1) * 80)) (replicate (nat (scroll_rows kv - (cur_row kv + 1)) * 80) blank) (cells kv)\<rparr>))"
    using wf_rows [OF w] by (simp add: blank_rows_eq)
  show "length (put_at (nat ((cur_row kv + 1) * 80)) (replicate (nat (scroll_rows kv - (cur_row kv + 1)) * 80) blank) (cells kv)) = 2000"
  proof (subst length_put_at)
    show "nat ((cur_row kv + 1) * 80) + length (replicate (nat (scroll_rows kv - (cur_row kv + 1)) * 80) blank) \<le> length (cells kv)"
    proof -
      have "length (cells kv) = 2000" "0 \<le> cur_row kv" using wf_rows [OF w] by auto
      moreover define r k where "r = nat (cur_row kv)" and "k = nat (scroll_rows kv - (cur_row kv + 1))"
      ultimately have e: "cur_row kv = int r" "nat ((cur_row kv + 1) * 80) = (r + 1) * 80" "length (cells kv) = 2000"
        by (auto simp: nat_mult_distrib nat_add_distrib)
      have "(int r + 1 + int k) * 80 \<le> 2000" using b by (simp only: k_def e(1) [symmetric])
      then show ?thesis unfolding length_replicate k_def [symmetric] e(2,3) by simp
    qed
  qed (simp add: wf_rows [OF w])
qed

lemma blank_all_eq:
  assumes "video_wf kv"
  shows "blank_rows 0 (nat (scroll_rows kv)) (cells kv) = Some (put_at 0 (replicate (nat (scroll_rows kv) * 80) blank) (cells kv))"
    "nat (scroll_rows kv) * 80 \<le> 2000"
  using wf_rows [OF assms] scroll_rows_range [of kv] by (elim disjE, simp_all add: blank_rows_eq)+

section \<open>The operations made of them\<close>

text \<open>An invariant that the primitive updates keep is kept by every byte outside an escape
  sequence.\<close>

locale video_ops = video_inv +
  assumes P_wf: "P kv \<Longrightarrow> video_wf kv"
    and keeps_moved: "keeps (\<lambda>kv. Some (kv\<lparr>cursor_moved := m\<rparr>))"
    and keeps_attr: "keeps (\<lambda>kv. Some (kv\<lparr>attr := t kv\<rparr>))"
    and keeps_gfx: "keeps (\<lambda>kv. Some (kv\<lparr>gfx_pending := v\<rparr>))" "keeps (\<lambda>kv. Some (kv\<lparr>gfx_pending := v, gfx_first := ch\<rparr>))"
    and keeps_bells: "keeps (\<lambda>kv. Some (kv\<lparr>bells := n kv\<rparr>))"
    and keeps_unknown: "keeps (\<lambda>kv. Some (kv\<lparr>unknown_ctrl := n kv\<rparr>))"
    and keeps_col: "(\<And>kv. video_wf kv \<Longrightarrow> 0 \<le> c kv \<and> c kv < 80) \<Longrightarrow> keeps (\<lambda>kv. Some (kv\<lparr>cur_col := c kv\<rparr>))"
    and keeps_up: "keeps (\<lambda>kv. Some (if cur_row kv > 0 then kv\<lparr>cur_row := cur_row kv - 1\<rparr> else kv))"
    and keeps_down: "keeps (\<lambda>kv. Some (if cur_row kv < scroll_rows kv - 1 then kv\<lparr>cur_row := cur_row kv + 1\<rparr> else kv))"
    and keeps_home: "keeps (\<lambda>kv. Some (set_cursor 0 0 kv))"
    and keeps_scroll_up: "keeps scroll_up"
    and keeps_row_store: "(\<And>kv. video_wf kv \<Longrightarrow> int (length (xs kv)) \<le> 80 - cur_col kv) \<Longrightarrow>
      keeps (\<lambda>kv. Option.bind (store_cells (cell_index (cur_row kv) (cur_col kv)) (xs kv) (cells kv))
        (\<lambda>cs. Some (mark_dirty (cur_row kv) (kv\<lparr>cells := cs\<rparr>))))"
    and keeps_blank_below: "keeps (\<lambda>kv. Option.bind (blank_rows (cur_row kv + 1) (nat (scroll_rows kv - (cur_row kv + 1))) (cells kv))
        (\<lambda>cs. Some (mark_all_dirty (kv\<lparr>cells := cs\<rparr>))))"
    and keeps_blank_all: "keeps (\<lambda>kv. Option.bind (blank_rows 0 (nat (scroll_rows kv)) (cells kv))
        (\<lambda>cs. Some (mark_all_dirty (kv\<lparr>cells := cs\<rparr>))))"
begin

lemma keeps_cursor_down: "keeps cursor_down"
proof -
  have "keeps (\<lambda>kv. Option.bind (if cur_row kv = scroll_rows kv - 1 then scroll_up kv
      else Some (if cur_row kv < scroll_rows kv - 1 then kv\<lparr>cur_row := cur_row kv + 1\<rparr> else kv))
      (\<lambda>kv. Some (kv\<lparr>cursor_moved := 1\<rparr>)))"
    by (intro keeps_bind keeps_if keeps_scroll_up keeps_down keeps_moved)
  then show ?thesis by (rule keeps_cong [rotated]) (simp add: cursor_down_def Let_def)
qed

lemma keeps_advance:
  "keeps (\<lambda>kv. Option.bind (if cur_col kv = 79 then cursor_down (kv\<lparr>cur_col := 0\<rparr>) else Some (kv\<lparr>cur_col := cur_col kv + 1\<rparr>))
     (\<lambda>kv. Some (kv\<lparr>cursor_moved := 1\<rparr>)))"
proof -
  have "keeps (\<lambda>kv. Option.bind (Some (kv\<lparr>cur_col := 0\<rparr>)) cursor_down)"
    by (intro keeps_bind keeps_cursor_down keeps_col) simp
  moreover have "keeps (\<lambda>kv. Some (kv\<lparr>cur_col := if cur_col kv = 79 then 79 else cur_col kv + 1\<rparr>))"
    by (rule keeps_col) (auto simp: video_wf_def)
  ultimately have "keeps (\<lambda>kv. Option.bind (if cur_col kv = 79 then Option.bind (Some (kv\<lparr>cur_col := 0\<rparr>)) cursor_down
      else Some (kv\<lparr>cur_col := if cur_col kv = 79 then 79 else cur_col kv + 1\<rparr>)) (\<lambda>kv. Some (kv\<lparr>cursor_moved := 1\<rparr>)))"
    by (rule keeps_bind [OF keeps_if keeps_moved])
  then show ?thesis by (rule keeps_cong [rotated]) simp
qed

lemma keeps_put_char: "keeps (put_char ch)"
proof -
  let ?x = "\<lambda>kv. [\<lparr>cch = ch, cattr = attr kv\<rparr>]"
  have "keeps (\<lambda>kv. Option.bind (Option.bind (store_cells (cell_index (cur_row kv) (cur_col kv)) (?x kv) (cells kv))
        (\<lambda>cs. Some (mark_dirty (cur_row kv) (kv\<lparr>cells := cs\<rparr>))))
     (\<lambda>kv. Option.bind (if cur_col kv = 79 then cursor_down (kv\<lparr>cur_col := 0\<rparr>) else Some (kv\<lparr>cur_col := cur_col kv + 1\<rparr>))
       (\<lambda>kv. Some (kv\<lparr>cursor_moved := 1\<rparr>))))"
    by (intro keeps_bind keeps_advance keeps_row_store) (simp add: video_wf_def)
  moreover have "put_char ch kv = Option.bind (Option.bind (store_cells (cell_index (cur_row kv) (cur_col kv)) (?x kv) (cells kv))
        (\<lambda>cs. Some (mark_dirty (cur_row kv) (kv\<lparr>cells := cs\<rparr>))))
     (\<lambda>kv. Option.bind (if cur_col kv = 79 then cursor_down (kv\<lparr>cur_col := 0\<rparr>) else Some (kv\<lparr>cur_col := cur_col kv + 1\<rparr>))
       (\<lambda>kv. Some (kv\<lparr>cursor_moved := 1\<rparr>)))" for kv
    by (cases "store_cells (cell_index (cur_row kv) (cur_col kv)) (?x kv) (cells kv)") (simp_all add: put_char_def Let_def)
  ultimately show ?thesis by (rule keeps_cong [rotated])
qed

lemma keeps_erase: "keeps erase_to_eol" "keeps erase_to_eos"
proof -
  show eol: "keeps erase_to_eol"
    using keeps_row_store [of "\<lambda>kv. replicate (nat (80 - cur_col kv)) blank"]
    by (simp add: erase_to_eol_def [abs_def] blank_cells_def video_wf_def)
  have "erase_to_eos kv = Option.bind (erase_to_eol kv) (\<lambda>kv. Option.bind (blank_rows (cur_row kv + 1) (nat (scroll_rows kv - (cur_row kv + 1))) (cells kv))
     (\<lambda>cs. Some (mark_all_dirty (kv\<lparr>cells := cs\<rparr>))))" for kv
    by (cases "blank_cells (cell_index (cur_row kv) (cur_col kv)) (80 - cur_col kv) (cells kv)")
      (simp_all add: erase_to_eos_def erase_to_eol_def scroll_rows_def mark_dirty_def Let_def)
  then show "keeps erase_to_eos" by (rule keeps_cong [OF _ keeps_bind [OF eol keeps_blank_below]])
qed

lemma keeps_clear_screen: "keeps clear_screen"
proof -
  have "clear_screen kv = Option.bind (Option.bind (blank_rows 0 (nat (scroll_rows kv)) (cells kv))
        (\<lambda>cs. Some (mark_all_dirty (kv\<lparr>cells := cs\<rparr>)))) (\<lambda>kv. Some (set_cursor 0 0 kv))" for kv
    by (cases "blank_rows 0 (nat (scroll_rows kv)) (cells kv)")
      (simp_all add: clear_screen_def set_cursor_def mark_all_dirty_def max_row_def)
  then show ?thesis by (rule keeps_cong [OF _ keeps_bind [OF keeps_blank_all keeps_home]])
qed

lemma keeps_moves: "keeps c_bs" "keeps c_up" "keeps c_cr"
proof -
  have moved: "keeps (\<lambda>kv. Option.bind (f kv) (\<lambda>kv. Some (kv\<lparr>cursor_moved := 1\<rparr>)))" if "keeps f" for f
    using that keeps_moved by (rule keeps_bind)
  have "keeps (\<lambda>kv. Some (kv\<lparr>cur_col := if cur_col kv > 0 then cur_col kv - 1 else 0\<rparr>))"
    by (rule keeps_col) (auto simp: video_wf_def)
  from keeps_if [where c = "\<lambda>kv. cur_col kv > 0", OF moved [OF this] keeps_Some] show "keeps c_bs"
    by (rule keeps_cong [rotated]) (simp add: c_bs_def)
  from keeps_if [where c = "\<lambda>kv. cur_row kv > 0", OF moved [OF keeps_up] keeps_Some] show "keeps c_up"
    by (rule keeps_cong [rotated]) (simp add: c_up_def)
  have "keeps (\<lambda>kv. Some (kv\<lparr>cur_col := 0\<rparr>))" by (rule keeps_col) simp
  from moved [OF this] show "keeps c_cr" by (rule keeps_cong [rotated]) (simp add: c_cr_def)
qed

lemma keeps_ctrl: "ctrl_handlers ch = Some f \<Longrightarrow> ch \<noteq> 0x1B \<Longrightarrow> keeps f"
  using keeps_put_char [of "0x60"] keeps_bells keeps_moves keeps_cursor_down keeps_advance keeps_erase keeps_clear_screen keeps_home
  by (auto simp: ctrl_handlers_def c_nul_def [abs_def] c_bell_def [abs_def] c_right_def [abs_def] c_home_def [abs_def]
      split: if_splits)

lemma keeps_putc_high: "keeps (putc_high ch)"
proof -
  have p: "keeps (\<lambda>kv. Option.bind (put_char c (kv\<lparr>attr := t kv\<rparr>)) (\<lambda>kv'. Some (kv'\<lparr>attr := attr kv\<rparr>)))" for c t
  proof -
    have "keeps (\<lambda>kv. Option.bind (Option.bind (Some (kv\<lparr>attr := t kv\<rparr>)) (put_char c)) (\<lambda>kv'. Some (kv'\<lparr>attr := attr kv\<rparr>)))"
      by (intro keeps_bind2 keeps_attr keeps_put_char)
    then show ?thesis by simp
  qed
  let ?g = "\<lambda>kv. (attr kv AND NOT KV_ATTR_PIXEL7) OR (if gfx_first kv AND 1 \<noteq> 0 then KV_ATTR_PIXEL7 else 0)"
  have "keeps (\<lambda>kv. Option.bind (Some (kv\<lparr>gfx_pending := 0\<rparr>)) (\<lambda>kv. Option.bind (put_char (0x80 OR (ch AND 0x7F)) (kv\<lparr>attr := ?g kv\<rparr>))
      (\<lambda>kv'. Some (kv'\<lparr>attr := attr kv\<rparr>))))"
    by (intro keeps_bind keeps_gfx p)
  then show ?thesis
    unfolding putc_high_def [abs_def] Let_def
    by (intro keeps_if keeps_put_char keeps_gfx p) simp
qed

text \<open>A byte other than \<open>ESC\<close>, outside an escape sequence.\<close>

lemma keeps_plain:
  assumes "ch \<noteq> 0x1B"
  shows "keeps (\<lambda>kv. if ch AND 0x80 \<noteq> 0 then putc_high ch kv
    else if ch < 0x20 then
      (case ctrl_handlers ch of Some f \<Rightarrow> f kv | None \<Rightarrow> Some (kv\<lparr>unknown_ctrl := unknown_ctrl kv + 1\<rparr>))
    else if ch = 0x7F then Some kv else put_char ch kv)"
proof -
  have "keeps (\<lambda>kv. case ctrl_handlers ch of Some f \<Rightarrow> f kv | None \<Rightarrow> Some (kv\<lparr>unknown_ctrl := unknown_ctrl kv + 1\<rparr>))"
    using keeps_ctrl [OF _ assms] keeps_unknown by (cases "ctrl_handlers ch") simp_all
  then show ?thesis by (intro keeps_if keeps_putc_high keeps_put_char keeps_Some)
qed

end

interpretation gw: video_ops video_wf marked
proof unfold_locales
  show "good (\<lambda>kv. Some (kv\<lparr>cur_col := c kv\<rparr>))" if "\<And>kv. video_wf kv \<Longrightarrow> 0 \<le> c kv \<and> c kv < 80" for c
    using that by (intro goodI [OF refl]) (auto simp: tracked_def same_esc_def video_wf_def max_row_def)
  show "good (\<lambda>kv. Some (if cur_row kv > 0 then kv\<lparr>cur_row := cur_row kv - 1\<rparr> else kv))"
    by (rule goodI [OF refl]) (auto simp: tracked_def same_esc_def video_wf_def max_row_def)
  show "good (\<lambda>kv. Option.bind (blank_rows 0 (nat (scroll_rows kv)) (cells kv)) (\<lambda>cs. Some (mark_all_dirty (kv\<lparr>cells := cs\<rparr>))))"
    using blank_all_eq wf_rows by (intro good_by_cells) auto
qed (assumption | rule quiet_good good_row_down good_set_cursor good_scroll_up good_row_store good_blank_below)+

text \<open>Deleting and inserting a line, for a cursor in the scrolling region: the lines from the
  cursor's on, without the first or the last.\<close>

lemma line_numbers:
  assumes "video_wf kv" "cur_row kv < scroll_rows kv" "r = nat (cur_row kv)" "n = nat (scroll_rows kv)"
  shows "scroll_rows kv = int n" "cur_row kv = int r" "r < n" "n = 24 \<or> n = 25" "n * 80 \<le> 2000" "length (cells kv) = 2000"
  using assms wf_rows [OF assms(1)] scroll_rows_range [of kv] by auto

lemma move_rows_eq:
  assumes "(d + k) * 80 \<le> length cs" "(s + k) * 80 \<le> length cs"
  shows "memmove_cells (cell_index (int d) 0) (cell_index (int s) 0) (80 * int k) cs =
    Some (put_at (d * 80) (take (k * 80) (drop (s * 80) cs)) cs)"
proof -
  have n: "cell_index (int d) 0 = int (d * 80)" "cell_index (int s) 0 = int (s * 80)" "80 * int k = int (k * 80)"
    by (simp_all add: cell_index_def)
  show ?thesis unfolding n using assms by (subst memmove_cells_eq) (simp_all only: nat_int, simp_all)
qed

lemma blank_row_eq:
  "(r + 1) * 80 \<le> length cs \<Longrightarrow> blank_cells (cell_index (int r) 0) 80 cs = Some (put_at (r * 80) (replicate 80 blank) cs)"
proof -
  assume "(r + 1) * 80 \<le> length cs"
  moreover have "cell_index (int r) 0 = int (r * 80)" by (simp add: cell_index_def)
  ultimately show ?thesis by (simp only:) (subst blank_cells_eq, simp_all only: nat_int, simp_all)
qed

lemma put_at_empty [simp]: "put_at p [] cs = cs"
  by (simp add: put_at_def)

lemma delete_line_eq:
  assumes "video_wf kv" "cur_row kv < scroll_rows kv" "r = nat (cur_row kv)" "n = nat (scroll_rows kv)"
  shows "delete_line kv = Some (mark_all_dirty (kv\<lparr>cells :=
    put_at ((n - 1) * 80) (replicate 80 blank)
      (put_at (r * 80) (take ((n - 1 - r) * 80) (drop ((r + 1) * 80) (cells kv))) (cells kv))\<rparr>))"
proof -
  note n = line_numbers [OF assms]
  have z: "int n - 1 - int r = int (n - 1 - r)" "int n - 1 = int (n - 1)" "int r + 1 = int (r + 1)"
    "int (n - 1) - int r = int (n - 1 - r)"
    using n by auto
  let ?cs = "put_at (r * 80) (take ((n - 1 - r) * 80) (drop ((r + 1) * 80) (cells kv))) (cells kv)"
  have 1: "(if int r < int (n - 1) then memmove_cells (cell_index (int r) 0) (cell_index (int (r + 1)) 0) (80 * int (n - 1 - r)) (cells kv)
      else Some (cells kv)) = Some ?cs"
    using n by (subst move_rows_eq) auto
  have 2: "blank_cells (cell_index (int (n - 1)) 0) 80 ?cs = Some (put_at ((n - 1) * 80) (replicate 80 blank) ?cs)"
    using n by (intro blank_row_eq) auto
  have "\<not> int n \<le> int r" using n(3) by simp
  then show ?thesis
    unfolding delete_line_def Let_def n(1,2) z by (simp only: if_False 1 2 Option.bind.bind_lunit)
qed

lemma insert_line_eq:
  assumes "video_wf kv" "cur_row kv < scroll_rows kv" "r = nat (cur_row kv)" "n = nat (scroll_rows kv)"
  shows "insert_line kv = Some (mark_all_dirty (kv\<lparr>cells :=
    put_at (r * 80) (replicate 80 blank)
      (put_at ((r + 1) * 80) (take ((n - 1 - r) * 80) (drop (r * 80) (cells kv))) (cells kv))\<rparr>))"
proof -
  note n = line_numbers [OF assms]
  have z: "int n - 1 - int r = int (n - 1 - r)" "int n - 1 = int (n - 1)" "int r + 1 = int (r + 1)"
    "int (n - 1) - int r = int (n - 1 - r)"
    using n by auto
  let ?cs = "put_at ((r + 1) * 80) (take ((n - 1 - r) * 80) (drop (r * 80) (cells kv))) (cells kv)"
  have 1: "(if int r < int (n - 1) then memmove_cells (cell_index (int (r + 1)) 0) (cell_index (int r) 0) (80 * int (n - 1 - r)) (cells kv)
      else Some (cells kv)) = Some ?cs"
    using n by (subst move_rows_eq) auto
  have 2: "blank_cells (cell_index (int r) 0) 80 ?cs = Some (put_at (r * 80) (replicate 80 blank) ?cs)"
    using n by (intro blank_row_eq) auto
  have "\<not> int n \<le> int r" using n(3) by simp
  then show ?thesis
    unfolding insert_line_def Let_def n(1,2) z by (simp only: if_False 1 2 Option.bind.bind_lunit)
qed

lemma good_region:
  assumes "\<And>kv. video_wf kv \<Longrightarrow> cur_row kv < scroll_rows kv \<Longrightarrow> f kv = Some (mark_all_dirty (kv\<lparr>cells := cs kv\<rparr>))"
    "\<And>kv. video_wf kv \<Longrightarrow> cur_row kv < scroll_rows kv \<Longrightarrow> length (cs kv) = 2000"
    "\<And>kv. \<not> cur_row kv < scroll_rows kv \<Longrightarrow> f kv = Some kv"
  shows "good f"
proof -
  have "good (\<lambda>kv. Some (mark_all_dirty (kv\<lparr>cells := if cur_row kv < scroll_rows kv then cs kv else cells kv\<rparr>)))"
    using assms(2) wf_rows by (intro good_cells_all) auto
  then have "\<exists>kv'. f kv = Some kv' \<and> video_wf kv' \<and> tracked kv kv' \<and> same_esc kv kv'"
    if "video_wf kv" "cur_row kv < scroll_rows kv" for kv
    using that assms(1) [OF that] by (fastforce simp: good_def)
  moreover have "\<exists>kv'. f kv = Some kv' \<and> video_wf kv' \<and> tracked kv kv' \<and> same_esc kv kv'"
    if "video_wf kv" "\<not> cur_row kv < scroll_rows kv" for kv
    using that assms(3) [OF that(2)] by (simp add: same_esc_def)
  ultimately show ?thesis unfolding good_def by blast
qed

lemma good_lines: "good delete_line" "good insert_line"
proof -
  show "good delete_line"
  proof (rule good_region [OF delete_line_eq [OF _ _ refl refl]])
    fix kv :: kaypro_video assume "video_wf kv" "cur_row kv < scroll_rows kv"
    then show "length (put_at ((nat (scroll_rows kv) - 1) * 80) (replicate 80 blank)
      (put_at (nat (cur_row kv) * 80) (take ((nat (scroll_rows kv) - 1 - nat (cur_row kv)) * 80)
        (drop ((nat (cur_row kv) + 1) * 80) (cells kv))) (cells kv))) = 2000"
      using line_numbers [OF _ _ refl refl, of kv] by (subst length_put_at) auto
  qed (simp_all add: delete_line_def)
  show "good insert_line"
  proof (rule good_region [OF insert_line_eq [OF _ _ refl refl]])
    fix kv :: kaypro_video assume "video_wf kv" "cur_row kv < scroll_rows kv"
    then show "length (put_at (nat (cur_row kv) * 80) (replicate 80 blank)
      (put_at ((nat (cur_row kv) + 1) * 80) (take ((nat (scroll_rows kv) - 1 - nat (cur_row kv)) * 80)
        (drop (nat (cur_row kv) * 80) (cells kv))) (cells kv))) = 2000"
      using line_numbers [OF _ _ refl refl, of kv] by (subst length_put_at) auto
  qed (simp_all add: insert_line_def)
qed

section \<open>The byte stream\<close>

lemma good_attr_set: "good (\<lambda>kv. Some (attr_set n on kv))"
proof -
  have s: "good (\<lambda>kv. Some (kv\<lparr>saved_row := cur_row kv, saved_col := cur_col kv\<rparr>))"
    "good (\<lambda>kv. Some (set_cursor (saved_row kv) (saved_col kv) kv))"
    by (rule goodI [OF refl], auto simp: set_cursor_def tracked_def same_esc_def video_wf_def max_row_def)+
  show ?thesis
    unfolding attr_set_def Let_def if_distrib [of Some] by (intro good_if quiet_good s)
qed

lemma esc_entry_good:
  assumes "e \<in> set esc_table" "length a = 4"
  shows "good (esc_fn e a)" "0 \<le> nargs e \<and> nargs e \<le> 4"
proof -
  have "e_cursor a = (\<lambda>kv. Some (set_cursor (uint (a ! 0) - 0x20) (uint (a ! 1) - 0x20) kv))"
    "e_attr on a = (\<lambda>kv. Some (attr_set (a ! 0) on kv))" for on
    using assms(2) by (auto simp: e_cursor_def [abs_def] e_attr_def [abs_def] numeral_eq_Suc length_Suc_conv)
  then show "good (esc_fn e a)" "0 \<le> nargs e \<and> nargs e \<le> 4"
    using assms(1) by (auto simp: esc_table_def good_set_cursor good_attr_set good_lines good_Some)
qed

lemma esc_lookup_in: "esc_lookup ch kv = Some e \<Longrightarrow> e \<in> set esc_table"
  by (auto simp: esc_lookup_def find_Some_iff)

lemma esc_lookup_cong: "model kv' = model kv \<Longrightarrow> esc_lookup ch kv' = esc_lookup ch kv"
  by (simp add: esc_lookup_def)

lemma esc_ok_same: "same_esc kv kv' \<Longrightarrow> tracked kv kv' \<Longrightarrow> esc_ok kv' = esc_ok kv"
  by (simp add: esc_ok_def same_esc_def tracked_def esc_lookup_def)

text \<open>One byte from a reachable screen.\<close>

definition screen_ok :: "kaypro_video \<Rightarrow> bool" where
  "screen_ok kv \<longleftrightarrow> video_wf kv \<and> esc_ok kv"

text \<open>How many bytes the escape sequence under way can still take.\<close>

definition esc_left :: "kaypro_video \<Rightarrow> nat" where
  "esc_left kv = (if esc_state kv = 0 then 0 else if esc_state kv = 1 then 5 else nat (esc_need kv))"

lemma esc_left_same: "same_esc kv kv' \<Longrightarrow> esc_left kv' = esc_left kv"
  by (simp add: esc_left_def same_esc_def)

lemma good_step:
  assumes "good f" "screen_ok kv"
  obtains kv' where "f kv = Some kv'" "screen_ok kv'" "tracked kv kv'" "esc_left kv' = esc_left kv"
proof -
  obtain kv' where "f kv = Some kv'" "video_wf kv'" "tracked kv kv'" "same_esc kv kv'"
    using assms by (auto simp: good_def screen_ok_def)
  then show thesis using assms(2) that [of kv'] esc_ok_same esc_left_same by (simp add: screen_ok_def)
qed

lemma tracked_esc_update:
  "tracked (kv\<lparr>esc_state := a\<rparr>) kv' = tracked kv kv'" "tracked kv (kv'\<lparr>esc_state := a\<rparr>) = tracked kv kv'"
  "tracked (kv\<lparr>esc_lead := l\<rparr>) kv' = tracked kv kv'" "tracked kv (kv'\<lparr>esc_lead := l\<rparr>) = tracked kv kv'"
  "tracked (kv\<lparr>esc_need := a\<rparr>) kv' = tracked kv kv'" "tracked kv (kv'\<lparr>esc_need := a\<rparr>) = tracked kv kv'"
  "tracked (kv\<lparr>esc_nargs := a\<rparr>) kv' = tracked kv kv'" "tracked kv (kv'\<lparr>esc_nargs := a\<rparr>) = tracked kv kv'"
  "tracked (kv\<lparr>esc_args := x\<rparr>) kv' = tracked kv kv'" "tracked kv (kv'\<lparr>esc_args := x\<rparr>) = tracked kv kv'"
  "tracked (kv\<lparr>bytes_in := n\<rparr>) kv' = tracked kv kv'" "tracked kv (kv'\<lparr>bytes_in := n\<rparr>) = tracked kv kv'"
  "tracked kv (kv'\<lparr>unknown_esc := u\<rparr>) = tracked kv kv'" "tracked kv (kv'\<lparr>unknown_ctrl := u\<rparr>) = tracked kv kv'"
  by (simp_all add: tracked_def)

lemma putc_esc_step:
  assumes "screen_ok kv"
  shows "\<exists>kv'. putc_esc ch kv = Some kv' \<and> screen_ok kv' \<and> tracked kv kv' \<and> esc_left kv' < 5"
proof (cases "esc_lookup ch kv")
  case None
  then show ?thesis using assms
    by (auto simp: putc_esc_def screen_ok_def esc_ok_def esc_left_def tracked_esc_update)
next
  case (Some e)
  have l: "length (esc_args kv) = 4" using assms by (simp add: screen_ok_def video_wf_def)
  note e = esc_entry_good [OF esc_lookup_in [OF Some] l]
  show ?thesis
  proof (cases "nargs e = 0")
    case True
    let ?kv = "kv\<lparr>esc_lead := ch, esc_nargs := 0, esc_need := 0, esc_state := 0\<rparr>"
    have "screen_ok ?kv" using assms by (simp add: screen_ok_def esc_ok_def)
    from good_step [OF e(1) this] obtain kv' where "esc_fn e (esc_args kv) ?kv = Some kv'" "screen_ok kv'"
      "tracked ?kv kv'" "esc_left kv' = esc_left ?kv" .
    then show ?thesis using True Some by (auto simp: putc_esc_def tracked_esc_update esc_left_def [of ?kv])
  next
    case False
    then show ?thesis
      using Some assms e(2) esc_lookup_cong [of "kv\<lparr>esc_lead := ch, esc_nargs := 0, esc_need := nargs e, esc_state := 2\<rparr>" kv]
      by (auto simp: putc_esc_def screen_ok_def esc_ok_def esc_left_def tracked_esc_update)
  qed
qed

lemma putc_arg_step:
  assumes "screen_ok kv" "esc_state kv = 2"
  shows "\<exists>kv'. putc_arg ch kv = Some kv' \<and> screen_ok kv' \<and> tracked kv kv' \<and> esc_left kv' < esc_left kv"
proof -
  obtain e where e: "esc_lookup (esc_lead kv) kv = Some e" "nargs e = esc_nargs kv + esc_need kv"
    "0 < esc_need kv" "0 \<le> esc_nargs kv"
    using assms by (auto simp: screen_ok_def esc_ok_def)
  have l: "length (esc_args kv) = 4" using assms by (simp add: screen_ok_def video_wf_def)
  let ?a = "(esc_args kv)[nat (esc_nargs kv) := ch]"
  let ?kv = "kv\<lparr>esc_args := ?a, esc_nargs := esc_nargs kv + 1, esc_need := esc_need kv - 1\<rparr>"
  have la: "length ?a = 4" using l by simp
  note g = esc_entry_good [OF esc_lookup_in [OF e(1)] la]
  have wf: "video_wf (kv\<lparr>esc_args := ?a\<rparr>)" using assms(1) l by (simp add: screen_ok_def video_wf_def max_row_def)
  have lk: "esc_lookup (esc_lead kv) kv' = Some e" if "model kv' = model kv" for kv'
    using e(1) esc_lookup_cong [OF that] by simp
  have in_range: "0 \<le> esc_nargs kv \<and> esc_nargs kv < int (length (esc_args kv))" using e g(2) l by simp
  show ?thesis
  proof (cases "esc_need kv = 1")
    case True
    have "screen_ok (?kv\<lparr>esc_state := 0\<rparr>)" using wf by (simp add: screen_ok_def esc_ok_def)
    from good_step [OF g(1) this] obtain kv' where "esc_fn e ?a (?kv\<lparr>esc_state := 0\<rparr>) = Some kv'" "screen_ok kv'"
      "tracked (?kv\<lparr>esc_state := 0\<rparr>) kv'" "esc_left kv' = esc_left (?kv\<lparr>esc_state := 0\<rparr>)" .
    then show ?thesis
      using True in_range lk assms(2) by (auto simp: putc_arg_def tracked_esc_update esc_left_def [of kv] esc_left_def [of "_\<lparr>esc_state := 0\<rparr>"])
  next
    case False
    have "screen_ok ?kv" using wf e assms(2) lk [of ?kv] False by (simp add: screen_ok_def esc_ok_def)
    then show ?thesis using False in_range assms(2) e(3) by (auto simp: putc_arg_def esc_left_def tracked_esc_update)
  qed
qed

lemma putc_step:
  assumes "screen_ok kv"
  shows "\<exists>kv'. kaypro_video_putc ch kv = Some kv' \<and> screen_ok kv' \<and> tracked kv kv' \<and>
    (esc_left kv \<noteq> 0 \<longrightarrow> esc_left kv' < esc_left kv)"
proof -
  let ?kv = "kv\<lparr>bytes_in := bytes_in kv + 1\<rparr>"
  have ok: "screen_ok ?kv" using assms esc_lookup_cong [of ?kv kv] by (simp add: screen_ok_def esc_ok_def)
  have left: "esc_left ?kv = esc_left kv" by (simp add: esc_left_def)
  consider (esc) "esc_state kv = 1" | (arg) "esc_state kv = 2" | (start) "esc_state kv = 0" "ch = 0x1B"
    | (plain) "esc_state kv = 0" "ch \<noteq> 0x1B"
    using assms by (auto simp: screen_ok_def esc_ok_def)
  then show ?thesis
  proof cases
    case start
    then show ?thesis
      using ok by (simp add: kaypro_video_putc_def ctrl_handlers_def c_esc_def screen_ok_def esc_ok_def esc_left_def tracked_esc_update)
  next
    case plain
    show ?thesis
      by (rule good_step [OF gw.keeps_plain [OF plain(2)] ok])
        (use plain in \<open>auto simp: kaypro_video_putc_def Let_def esc_left_def [of kv] tracked_esc_update\<close>)
  qed (use putc_esc_step [OF ok, of ch] putc_arg_step [OF ok, of ch] in
      \<open>auto simp: kaypro_video_putc_def Let_def tracked_esc_update left, auto simp: esc_left_def\<close>)
qed

interpretation so: video_inv screen_ok tracked
  by unfold_locales (auto intro: tracked_trans)

lemma write_step: "screen_ok kv \<Longrightarrow> \<exists>kv'. kaypro_video_write bs kv = Some kv' \<and> screen_ok kv' \<and> tracked kv kv'"
  using putc_step by (intro so.keepsE [OF so.keeps_write]) (auto simp: so.keeps_def)

lemma init_ok: "m \<in> {0, 1} \<Longrightarrow> \<exists>kv. kaypro_video_init m = Some kv \<and> screen_ok kv \<and> esc_state kv = 0"
  by (auto simp: kaypro_video_init_def zero_video_def blank_rows_eq set_cursor_def mark_all_dirty_def
      screen_ok_def esc_ok_def video_wf_def max_row_def Let_def)

section \<open>The status line\<close>

text \<open>The cursor in the 24 text rows, row 24 outside the scrolling region, no escape sequence
  under way.\<close>

definition text_area :: "kaypro_video \<Rightarrow> bool" where
  "text_area kv \<longleftrightarrow> video_wf kv \<and> scroll_rows kv = 24 \<and> cur_row kv < 24 \<and> esc_state kv = 0"

definition status_same :: "kaypro_video \<Rightarrow> kaypro_video \<Rightarrow> bool" where
  "status_same kv kv' \<longleftrightarrow> (\<forall>i. 1920 \<le> i \<and> i < 2000 \<longrightarrow> cells kv' ! i = cells kv ! i)"

interpretation ta: video_inv text_area status_same
  by unfold_locales (auto simp: status_same_def)

lemma ta_from_good:
  assumes "good f"
    "\<And>kv kv'. text_area kv \<Longrightarrow> f kv = Some kv' \<Longrightarrow> scroll_rows kv' = 24 \<and> cur_row kv' < 24 \<and> status_same kv kv'"
  shows "ta.keeps f"
  unfolding ta.keeps_def
proof (intro allI impI)
  fix kv assume t: "text_area kv"
  then obtain kv' where "f kv = Some kv'" "video_wf kv'" "same_esc kv kv'"
    using assms(1) by (auto simp: good_def text_area_def)
  moreover note assms(2) [OF t this(1)]
  ultimately show "\<exists>kv'. f kv = Some kv' \<and> text_area kv' \<and> status_same kv kv'"
    using t by (auto simp: text_area_def same_esc_def)
qed

lemma scroll_rows_update [simp]:
  "scroll_rows (mark_all_dirty kv) = scroll_rows kv" "scroll_rows (mark_dirty r kv) = scroll_rows kv"
  "scroll_rows (kv\<lparr>cells := cs\<rparr>) = scroll_rows kv" "cur_row (mark_all_dirty kv) = cur_row kv" "cur_row (mark_dirty r kv) = cur_row kv"
  by (simp_all add: scroll_rows_def mark_all_dirty_def mark_dirty_def)

lemma nth_put_at_ge: "p + length xs \<le> i \<Longrightarrow> p + length xs \<le> length cs \<Longrightarrow> put_at p xs cs ! i = cs ! i"
  by (simp add: nth_put_at)

interpretation tx: video_ops text_area status_same
proof unfold_locales
  show "ta.keeps scroll_up"
  proof (rule ta_from_good [OF good_scroll_up])
    fix kv kv' assume t: "text_area kv" "scroll_up kv = Some kv'"
    then have w: "video_wf kv" "scroll_rows kv = 24" "cur_row kv < 24" "length (cells kv) = 2000"
      using wf_rows by (auto simp: text_area_def)
    then show "scroll_rows kv' = 24 \<and> cur_row kv' < 24 \<and> status_same kv kv'"
      using t(2) by (auto simp: scroll_up_eq status_same_def nth_put_at_ge)
  qed
  show "ta.keeps (\<lambda>kv. Option.bind (store_cells (cell_index (cur_row kv) (cur_col kv)) (xs kv) (cells kv))
      (\<lambda>cs. Some (mark_dirty (cur_row kv) (kv\<lparr>cells := cs\<rparr>))))"
    if xs: "\<And>kv. video_wf kv \<Longrightarrow> int (length (xs kv)) \<le> 80 - cur_col kv" for xs
  proof (rule ta_from_good [OF good_row_store [OF xs]])
    fix kv kv' assume t: "text_area kv" "Option.bind (store_cells (cell_index (cur_row kv) (cur_col kv)) (xs kv) (cells kv))
      (\<lambda>cs. Some (mark_dirty (cur_row kv) (kv\<lparr>cells := cs\<rparr>))) = Some kv'"
    then have w: "video_wf kv" "scroll_rows kv = 24" "cur_row kv < 24" "0 \<le> cur_row kv"
      using wf_rows by (auto simp: text_area_def)
    have "i div 80 \<noteq> nat (cur_row kv)" if "1920 \<le> i" for i :: nat
    proof
      assume "i div 80 = nat (cur_row kv)"
      then have "i div 80 < 24" using w(3,4) by simp
      then show False using that by linarith
    qed
    then show "scroll_rows kv' = 24 \<and> cur_row kv' < 24 \<and> status_same kv kv'"
      using t(2) w row_store_eq [OF w(1) xs [OF w(1)]] row_store_keeps [OF w(1) xs [OF w(1)]]
      by (auto simp: status_same_def)
  qed
  show "ta.keeps (\<lambda>kv. Option.bind (blank_rows (cur_row kv + 1) (nat (scroll_rows kv - (cur_row kv + 1))) (cells kv))
      (\<lambda>cs. Some (mark_all_dirty (kv\<lparr>cells := cs\<rparr>))))"
  proof (rule ta_from_good [OF good_blank_below])
    fix kv kv' assume t: "text_area kv" "Option.bind (blank_rows (cur_row kv + 1) (nat (scroll_rows kv - (cur_row kv + 1))) (cells kv))
      (\<lambda>cs. Some (mark_all_dirty (kv\<lparr>cells := cs\<rparr>))) = Some kv'"
    then have w: "video_wf kv" "scroll_rows kv = 24" "cur_row kv < 24" "0 \<le> cur_row kv" "length (cells kv) = 2000"
      using wf_rows by (auto simp: text_area_def)
    have "nat ((cur_row kv + 1) * 80) + nat (24 - (cur_row kv + 1)) * 80 = 1920" using w(3,4) by auto
    then show "scroll_rows kv' = 24 \<and> cur_row kv' < 24 \<and> status_same kv kv'"
      using t(2) w by (auto simp: blank_rows_eq status_same_def nth_put_at_ge)
  qed
  show "ta.keeps (\<lambda>kv. Option.bind (blank_rows 0 (nat (scroll_rows kv)) (cells kv)) (\<lambda>cs. Some (mark_all_dirty (kv\<lparr>cells := cs\<rparr>))))"
  proof (rule ta_from_good [OF gw.keeps_blank_all])
    fix kv kv' assume t: "text_area kv" "Option.bind (blank_rows 0 (nat (scroll_rows kv)) (cells kv))
      (\<lambda>cs. Some (mark_all_dirty (kv\<lparr>cells := cs\<rparr>))) = Some kv'"
    then have w: "video_wf kv" "scroll_rows kv = 24" "cur_row kv < 24" "length (cells kv) = 2000"
      using wf_rows by (auto simp: text_area_def)
    then show "scroll_rows kv' = 24 \<and> cur_row kv' < 24 \<and> status_same kv kv'"
      using t(2) by (auto simp: blank_rows_eq status_same_def nth_put_at_ge)
  qed
  show "ta.keeps (\<lambda>kv. Some (kv\<lparr>cur_col := c kv\<rparr>))" if "\<And>kv. video_wf kv \<Longrightarrow> 0 \<le> c kv \<and> c kv < 80" for c
    by (rule ta_from_good [OF gw.keeps_col [OF that]]) (auto simp: text_area_def status_same_def scroll_rows_def)
  show "video_wf kv" if "text_area kv" for kv using that by (simp add: text_area_def)
qed (rule ta_from_good [OF gw.keeps_moved] ta_from_good [OF gw.keeps_attr] ta_from_good [OF gw.keeps_gfx(1)]
      ta_from_good [OF gw.keeps_gfx(2)] ta_from_good [OF gw.keeps_bells] ta_from_good [OF gw.keeps_unknown]
      ta_from_good [OF gw.keeps_up] ta_from_good [OF gw.keeps_down] ta_from_good [OF gw.keeps_home],
    auto simp: text_area_def status_same_def scroll_rows_def set_cursor_def max_row_def split: if_splits; fail)+

lemma ta_putc:
  assumes "ch \<noteq> 0x1B"
  shows "ta.keeps (kaypro_video_putc ch)"
proof -
  have b: "ta.keeps (\<lambda>kv. Some (kv\<lparr>bytes_in := n kv\<rparr>))" for n
    by (rule ta_from_good [OF quiet_good(6)]) (auto simp: text_area_def status_same_def scroll_rows_def)
  show ?thesis
    by (rule ta.keeps_cong [OF _ ta.keeps_bind [OF b tx.keeps_plain [OF assms]]])
      (simp add: kaypro_video_putc_def text_area_def Let_def)
qed

lemma insert_delete_cells:
  fixes cs :: "'a list"
  assumes "(r + k + 1) * 80 \<le> length cs" "length b = 80"
    "xs = put_at (r * 80) b (put_at ((r + 1) * 80) (take (k * 80) (drop (r * 80) cs)) cs)"
  shows "put_at ((r + k) * 80) b (put_at (r * 80) (take (k * 80) (drop ((r + 1) * 80) xs)) xs) = put_at ((r + k) * 80) b cs"
proof (rule nth_equalityI)
  have l: "length (take (k * 80) (drop (r * 80) cs)) = k * 80" using assms(1) by simp
  have lx: "length xs = length cs" unfolding assms(3) using assms(1,2) l by simp
  have ly: "length (take (k * 80) (drop ((r + 1) * 80) xs)) = k * 80" using lx assms(1) by simp
  have lz: "length (put_at (r * 80) (take (k * 80) (drop ((r + 1) * 80) xs)) xs) = length cs"
    using ly lx assms(1) by (subst length_put_at) simp_all
  have x: "xs ! i = (if r * 80 \<le> i \<and> i < (r + 1) * 80 then b ! (i - r * 80)
      else if (r + 1) * 80 \<le> i \<and> i < (r + k + 1) * 80 then cs ! (i - 80) else cs ! i)" for i
    unfolding assms(3) using assms(1,2) l by (simp add: nth_put_at) (auto simp: algebra_simps)
  show "length (put_at ((r + k) * 80) b (put_at (r * 80) (take (k * 80) (drop ((r + 1) * 80) xs)) xs)) =
      length (put_at ((r + k) * 80) b cs)" using assms(1,2) lz by simp
  fix i
  have "put_at (r * 80) (take (k * 80) (drop ((r + 1) * 80) xs)) xs ! i =
      (if r * 80 \<le> i \<and> i < (r + k) * 80 then xs ! (i + 80) else xs ! i)"
    using ly lx assms(1) by (simp add: nth_put_at) (auto simp: algebra_simps)
  then show "put_at ((r + k) * 80) b (put_at (r * 80) (take (k * 80) (drop ((r + 1) * 80) xs)) xs) ! i =
      put_at ((r + k) * 80) b cs ! i"
    using assms(1,2) lz by (simp add: nth_put_at) (auto simp: x)
qed

lemma esc_left_le: "screen_ok kv \<Longrightarrow> esc_left kv \<le> 5 \<and> (esc_left kv = 0 \<longleftrightarrow> esc_state kv = 0)"
  using esc_entry_good(2) [OF esc_lookup_in, of _ _ _ "[0, 0, 0, 0]"]
  by (fastforce simp: screen_ok_def esc_ok_def esc_left_def)

lemma escape_ends_aux:
  "screen_ok kv \<Longrightarrow> esc_left kv \<le> length bs \<Longrightarrow>
   \<exists>k \<le> esc_left kv. \<exists>kv'. kaypro_video_write (take k bs) kv = Some kv' \<and> esc_state kv' = 0"
proof (induction bs arbitrary: kv)
  case Nil
  then show ?case using esc_left_le by auto
next
  case (Cons b bs)
  show ?case
  proof (cases "esc_left kv = 0")
    case True
    then show ?thesis using Cons.prems esc_left_le by auto
  next
    case False
    with putc_step [OF Cons.prems(1), of b] obtain kv1 where
      1: "kaypro_video_putc b kv = Some kv1" "screen_ok kv1" "esc_left kv1 < esc_left kv" by auto
    with Cons.prems(2) Cons.IH [of kv1] obtain k kv2 where
      "k \<le> esc_left kv1" "kaypro_video_write (take k bs) kv1 = Some kv2" "esc_state kv2 = 0" by auto
    with 1 show ?thesis by (intro exI [of _ "Suc k"]) auto
  qed
qed

text \<open>The '84 screen after initialisation.\<close>

definition demo_screen :: kaypro_video where
  "demo_screen = mark_all_dirty (zero_video\<lparr>cells := replicate 2000 blank, model := 1, cursor_visible := 1,
     status_preserve := 1, cursor_moved := 1\<rparr>)"

lemma demo_screen_init: "kaypro_video_init 1 = Some demo_screen"
proof -
  have "put_at 0 (replicate 2000 blank) (replicate 2000 c) = replicate 2000 blank" for c
    by (simp add: put_at_def)
  then show ?thesis
    by (simp add: kaypro_video_init_def blank_rows_eq demo_screen_def zero_video_def set_cursor_def max_row_def
        mark_all_dirty_def Let_def)
qed

lemma demo_screen_ok: "screen_ok demo_screen" "text_area demo_screen" "scroll_rows demo_screen = 24"
  by (simp_all add: demo_screen_def zero_video_def mark_all_dirty_def screen_ok_def video_wf_def esc_ok_def text_area_def
      max_row_def scroll_rows_def)

section \<open>Properties\<close>

text \<open>C24: Whatever bytes the guest sends to the console, on either model, no access leaves the cell
  array or the argument buffer and no table lookup fails; the cursor and the saved position
  stay on the screen, and an escape sequence under way still has an entry whose argument
  count is the bytes collected plus the bytes missing.\<close>

theorem video_stream_safe:
  "\<exists>kv. Option.bind (kaypro_video_init (of_bool m84)) (kaypro_video_write bs) = Some kv \<and> video_wf kv \<and> esc_ok kv"
proof -
  obtain kv where kv: "kaypro_video_init (of_bool m84) = Some kv" "screen_ok kv" using init_ok [of "of_bool m84"] by auto
  from write_step [OF kv(2), of bs] kv(1) show ?thesis by (auto simp: screen_ok_def)
qed

text \<open>After a repaint (which clears the dirty rows), every cell whose contents then change on any
  byte stream lies in a row that is marked dirty, so a renderer that repaints only dirty rows
  misses nothing.\<close>

theorem dirty_rows_cover_changes:
  assumes "screen_ok kv" "kaypro_video_write bs (kaypro_video_clear_dirty kv) = Some kv'" "r < 25" "c < 80"
    "cells kv' ! (r * 80 + c) \<noteq> cells kv ! (r * 80 + c)"
  shows "kaypro_video_row_dirty (int r) kv'"
proof -
  let ?kv = "kaypro_video_clear_dirty kv"
  have "screen_ok ?kv"
    using assms(1) esc_lookup_cong [of ?kv kv] by (simp add: screen_ok_def esc_ok_def kaypro_video_clear_dirty_def)
  from write_step [OF this, of bs] assms(2) have "tracked ?kv kv'" by simp
  moreover have "(r * 80 + c) div 80 = r" "r * 80 + c < 2000" using assms(3,4) by auto
  ultimately have "bit (dirty_rows kv') r" using assms(5) by (auto simp: tracked_def kaypro_video_clear_dirty_def)
  then show ?thesis
    by (simp add: kaypro_video_row_dirty_def bit_iff_odd_drop_bit and_one_eq odd_iff_mod_2_eq_one)
qed

theorem dirty_rows_cover_changes_witness:
  "kaypro_video_row_dirty (int 0) (the (kaypro_video_write [0x41] (kaypro_video_clear_dirty demo_screen)))"
proof (rule dirty_rows_cover_changes [OF demo_screen_ok(1), of "[0x41]" _ 0 0])
  let ?kv = "kaypro_video_clear_dirty demo_screen"
  have e: "kaypro_video_write [0x41] ?kv = Some (?kv\<lparr>bytes_in := 1, cells := put_at 0 [\<lparr>cch = 0x41, cattr = 0\<rparr>] (replicate 2000 blank),
      dirty_rows := 1, cur_col := 1, cursor_moved := 1\<rparr>)"
    by (simp add: kaypro_video_putc_def put_char_def store_cells_eq cell_index_def demo_screen_def zero_video_def
        mark_all_dirty_def mark_dirty_def kaypro_video_clear_dirty_def Let_def)
  then show "kaypro_video_write [0x41] ?kv = Some (the (kaypro_video_write [0x41] ?kv))" by simp
  show "cells (the (kaypro_video_write [0x41] ?kv)) ! (0 * 80 + 0) \<noteq> cells demo_screen ! (0 * 80 + 0)"
    unfolding e by (simp add: nth_put_at demo_screen_def blank_def)
qed simp_all

text \<open>While the status line is preserved and the cursor is in the text area, no byte stream without
  \<open>ESC\<close> changes row 24 or moves the cursor onto it: scrolling, clearing and erasing stop
  above it.\<close>

theorem status_line_kept:
  assumes "text_area kv" "0x1B \<notin> set bs"
  shows "\<exists>kv'. kaypro_video_write bs kv = Some kv' \<and> cur_row kv' < 24 \<and>
    drop 1920 (cells kv') = drop 1920 (cells kv)"
proof -
  have "ta.keeps (kaypro_video_write bs)" using assms(2) by (intro ta.keeps_write ta_putc) blast
  from ta.keepsE [OF this assms(1)] obtain kv' where
    kv': "kaypro_video_write bs kv = Some kv'" "text_area kv'" "status_same kv kv'" by blast
  then have "drop 1920 (cells kv') = drop 1920 (cells kv)"
    using assms(1) by (intro nth_equalityI) (auto simp: text_area_def video_wf_def status_same_def)
  with kv' show ?thesis by (auto simp: text_area_def)
qed

theorem status_line_kept_witness:
  "\<exists>kv'. kaypro_video_write [0x41, 0x0A, 0x1A] demo_screen = Some kv' \<and> cur_row kv' < 24 \<and>
    drop 1920 (cells kv') = drop 1920 (cells demo_screen)"
  by (rule status_line_kept [OF demo_screen_ok(2)]) simp

text \<open>Inserting a line and deleting it again restores the screen, except that the bottom line of
  the scrolling region, pushed out by the insertion, comes back blank.\<close>

theorem insert_delete_line:
  assumes "video_wf kv" "cur_row kv < scroll_rows kv"
  shows "\<exists>kv' kv''. insert_line kv = Some kv' \<and> delete_line kv' = Some kv'' \<and> cur_row kv'' = cur_row kv \<and>
    cells kv'' = put_at ((nat (scroll_rows kv) - 1) * 80) (replicate 80 blank) (cells kv)"
proof -
  define r n where "r = nat (cur_row kv)" and "n = nat (scroll_rows kv)"
  note l = line_numbers [OF assms r_def n_def]
  obtain k where k: "n = r + k + 1" using l(3) by (metis Suc_eq_plus1 less_imp_Suc_add)
  obtain kv' where i: "insert_line kv = Some kv'" "video_wf kv'"
    using good_lines(2) assms(1) by (auto simp: good_def)
  note i' = i(1) [unfolded insert_line_eq [OF assms r_def n_def]]
  have kv': "cur_row kv' = cur_row kv" "scroll_rows kv' = scroll_rows kv"
    "cells kv' = put_at (r * 80) (replicate 80 blank) (put_at ((r + 1) * 80) (take (k * 80) (drop (r * 80) (cells kv))) (cells kv))"
    using i' k by auto
  have n1: "n - 1 = r + k" "r + k - r = k" using k by simp_all
  have d: "delete_line kv' = Some (mark_all_dirty (kv'\<lparr>cells :=
      put_at ((n - 1) * 80) (replicate 80 blank) (put_at (r * 80) (take ((n - 1 - r) * 80) (drop ((r + 1) * 80) (cells kv'))) (cells kv'))\<rparr>))"
    using i(2) assms(2) kv' r_def n_def by (intro delete_line_eq) simp_all
  have "put_at ((r + k) * 80) (replicate 80 blank) (put_at (r * 80) (take (k * 80) (drop ((r + 1) * 80) (cells kv'))) (cells kv')) =
      put_at ((r + k) * 80) (replicate 80 blank) (cells kv)"
    using l(5,6) k kv'(3) by (intro insert_delete_cells) simp_all
  with d have "delete_line kv' = Some (mark_all_dirty (kv'\<lparr>cells := put_at ((r + k) * 80) (replicate 80 blank) (cells kv)\<rparr>))"
    by (simp only: n1)
  then show ?thesis using i(1) kv'(1) unfolding n_def [symmetric] n1 by simp
qed

theorem insert_delete_line_witness:
  "\<exists>kv' kv''. insert_line demo_screen = Some kv' \<and> delete_line kv' = Some kv'' \<and> cur_row kv'' = cur_row demo_screen \<and>
    cells kv'' = put_at ((nat (scroll_rows demo_screen) - 1) * 80) (replicate 80 blank) (cells demo_screen)"
  using demo_screen_ok by (intro insert_delete_line) (simp_all add: text_area_def)

text \<open>C40: No escape sequence hangs: from any reachable state, within five bytes the terminal is
  outside escape sequences.\<close>

theorem escape_ends:
  assumes "screen_ok kv" "5 \<le> length bs"
  shows "\<exists>k \<le> 5. \<exists>kv'. kaypro_video_write (take k bs) kv = Some kv' \<and> esc_state kv' = 0"
  using escape_ends_aux [OF assms(1), of bs] esc_left_le [OF assms(1)] assms(2) by (meson le_trans)

theorem escape_ends_witness:
  "\<exists>k \<le> 5. \<exists>kv'. kaypro_video_write (take k [0x3D, 0x21, 0x21, 0x41, 0x42]) (demo_screen\<lparr>esc_state := 1\<rparr>) = Some kv' \<and>
     esc_state kv' = 0"
  using demo_screen_ok(1) by (intro escape_ends) (simp_all add: screen_ok_def esc_ok_def)

end
