(* ===== verification/Cpm_Bdos_Props.thy ===== *)
theory Cpm_Bdos_Props
  imports Cpm_Bdos Cpm_Disk_Props Kaypro_Kbd_Props Kaypro_Video_Props
begin

text \<open>
  The CP/M shim as a whole: every BDOS and BIOS call keeps the disk, the keyboard and the
  screen well formed, when calls return, line input on top of the keyboard's text, the
  functions behind the BIOS vectors, and what a loaded program finds in memory.
\<close>

section \<open>The keyboard keeps its shape\<close>

lemma q_push_host_ok: "host_ok k \<Longrightarrow> host_ok (q_push c k)"
  by (simp add: host_ok_def q_push_ok)

lemma fetch_ok:
  assumes "host_ok k" "host_fetch block k = Ret r k'"
  shows "host_ok k'"
proof (cases "hlen k = 0")
  case False
  with assms obtain q where "host_drain k = Ret q k'" by (auto simp: host_fetch_alt split: kres.splits)
  then show ?thesis using host_drain_conserves [OF assms(1)] by blast
next
  case True
  obtain x k1 where x: "host_read block k = (x, k1)" by (metis surj_pair)
  have ok1: "host_ok k1" using fewer_input_ok [OF host_read_shape(1) [OF x]] assms(1) by simp
  show ?thesis
  proof (cases "x = None \<or> x = Some []")
    case True
    with \<open>hlen k = 0\<close> x assms(2) ok1 show ?thesis by (auto simp: host_fetch_alt)
  next
    case False
    then obtain buf q where "host_drain (stored buf k1) = Ret q k'"
      using \<open>hlen k = 0\<close> x assms(2) by (auto simp: host_fetch_alt stored_def split: kres.splits if_splits)
    then show ?thesis using host_drain_conserves [OF stored_ok [OF ok1]] by blast
  qed
qed

lemma fetch_loop_ok: "host_ok k \<Longrightarrow> fetch_loop n k = Some (Ret r k') \<Longrightarrow> host_ok k'"
  by (induction n arbitrary: k) (auto dest: fetch_ok split: kres.splits if_splits)

lemma feed_ok: "host_ok k \<Longrightarrow> host_ok (feed bs k)"
proof (induction bs k rule: feed.induct)
  case (1 bs k)
  then show ?case
    using q_push_host_ok [of k "bs ! step_off k"]
    by (subst feed.simps) (simp add: host_ok_def kbd_ok_def)
qed

lemma host_ok_fields [simp]:
  "host_ok (k\<lparr>cur_step := a\<rparr>) = host_ok k" "host_ok (k\<lparr>step_off := a\<rparr>) = host_ok k" "host_ok (k\<lparr>idle_armed := b\<rparr>) = host_ok k"
  "host_ok (k\<lparr>idle_wanted := i\<rparr>) = host_ok k" "host_ok (k\<lparr>idle_target := i\<rparr>) = host_ok k" "host_ok (k\<lparr>pace_polls := i\<rparr>) = host_ok k"
  "host_ok (k\<lparr>polls_since_read := i\<rparr>) = host_ok k" "host_ok (k\<lparr>empty_polls := u\<rparr>) = host_ok k"
  "host_ok (k\<lparr>max_quiet_streak := u\<rparr>) = host_ok k" "host_ok (k\<lparr>gate_polls := u\<rparr>) = host_ok k"
  "host_ok (k\<lparr>gate_open := b\<rparr>) = host_ok k" "host_ok (k\<lparr>stdin_eof := b\<rparr>) = host_ok k" "host_ok (k\<lparr>eof_reads := a\<rparr>) = host_ok k"
  "host_ok (k\<lparr>n_polls := w\<rparr>) = host_ok k" "host_ok (k\<lparr>n_reads := w\<rparr>) = host_ok k"
  by (simp_all add: host_ok_def kbd_ok_def)

lemma advance_ok: "host_ok k \<Longrightarrow> script_advance reading k = Some (r, k') \<Longrightarrow> host_ok k'"
proof (induction reading k rule: script_advance.induct)
  case (1 reading k)
  show ?case
  proof (cases "q_empty k \<and> cur_step k < length (steps k)")
    case True
    with 1 feed_ok [OF "1.prems"(1)] show ?thesis
      by (cases "steps k ! cur_step k")
        (auto simp: script_advance.simps [of reading k] Let_def split: if_splits)
  next
    case False
    with "1.prems" show ?thesis by (auto simp: script_advance.simps [of reading k] split: if_splits)
  qed
qed

lemma pop_ok: "host_ok k \<Longrightarrow> host_ok (snd (q_pop k))" "host_ok k \<Longrightarrow> host_ok (snd (pop_key k))"
  by (auto simp: host_ok_def kbd_ok_def q_pop_def pop_key_def)

lemma small_steps_ok:
  "host_ok k \<Longrightarrow> host_ok (snd (paced_out k))" "host_ok k \<Longrightarrow> host_ok (snd (gated k))" "host_ok k \<Longrightarrow> host_ok (count_quiet k)"
  "host_ok k \<Longrightarrow> host_ok (kaypro_kbd_note_activity k)" "host_ok k \<Longrightarrow> poll_quiet k = Ret b k' \<Longrightarrow> host_ok k'"
  by (auto simp: paced_out_def gated_def count_quiet_def kaypro_kbd_note_activity_def poll_quiet_def Let_def split: if_splits)

lemma poll_script_ok:
  assumes "host_ok k" "poll_script k = Ret b k'"
  shows "host_ok k'"
proof (cases "script_advance False k")
  case None
  with assms show ?thesis by (simp add: poll_script_def)
next
  case (Some rk)
  obtain r k1 where rk: "rk = (r, k1)" by (cases rk)
  with advance_ok [OF assms(1)] Some have ok: "host_ok k1" by simp
  show ?thesis
  proof (cases "r = 1")
    case True
    obtain p k2 where p: "paced_out k1 = (p, k2)" by (cases "paced_out k1")
    with small_steps_ok(1) [OF ok] have "host_ok k2" by simp
    with True Some rk p assms(2) show ?thesis by (auto simp: poll_script_def split: if_splits)
  next
    case False
    have "host_ok (count_quiet (if r = 0 \<and> idle_armed k1 then k1\<lparr>idle_target := idle_target k1 - 1\<rparr> else k1))"
      using small_steps_ok(3) ok by simp
    with False Some rk assms(2) show ?thesis by (auto simp: poll_script_def Let_def split: if_splits)
  qed
qed

lemma kbd_poll_ok:
  assumes "host_ok k" "kaypro_kbd_poll k = Ret b k'"
  shows "host_ok k'"
proof -
  define k0 where "k0 = k\<lparr>n_polls := n_polls k + 1\<rparr>"
  have k0: "host_ok k0" using assms(1) by (simp add: k0_def)
  note poll = assms(2) [unfolded kaypro_kbd_poll_def, folded k0_def, unfolded Let_def]
  have gate: "host_ok k3" if "gated k2 = (g, k3)" "host_ok k2" for k2 g k3 using small_steps_ok(2) [of k2] that by simp
  show ?thesis
  proof (cases "q_empty k0")
    case False
    obtain p k1 where p: "paced_out k0 = (p, k1)" by (cases "paced_out k0")
    obtain g k2 where g: "gated k1 = (g, k2)" by (cases "gated k1")
    have "host_ok k1" using small_steps_ok(1) [OF k0] p by simp
    with gate [OF g] poll False p g show ?thesis by (auto split: if_splits)
  next
    case True
    consider "scripted k0" | "\<not> scripted k0" "stdin_eof k0" | "\<not> scripted k0 \<and> \<not> stdin_eof k0" by blast
    then show ?thesis
    proof cases
      case 1
      with poll \<open>q_empty k0\<close> have "poll_script k0 = Ret b k'" by simp
      with poll_script_ok [OF k0] show ?thesis by blast
    next
      case 2
      with poll \<open>q_empty k0\<close> have "poll_quiet k0 = Ret b k'" by (simp add: poll_host_def)
      with small_steps_ok(5) [OF k0] show ?thesis by blast
    next
      case False: 3
      then obtain r k1 where r: "host_fetch False k0 = Ret r k1" using poll \<open>q_empty k0\<close>
        by (auto simp: poll_host_def split: kres.splits)
      with fetch_ok k0 have ok1: "host_ok k1" by blast
      obtain g k2 where g: "gated k1 = (g, k2)" by (cases "gated k1")
      have "host_ok k2" using gate [OF g ok1] .
      moreover have "host_ok (if r < 0 \<and> piped k1 then k1\<lparr>stdin_eof := True\<rparr> else k1)" using ok1 by simp
      moreover have "r \<noteq> 1 \<Longrightarrow> poll_quiet (if r < 0 \<and> piped k1 then k1\<lparr>stdin_eof := True\<rparr> else k1) = Ret b k'"
        using poll \<open>q_empty k0\<close> False r by (simp add: poll_host_def)
      ultimately show ?thesis using poll \<open>q_empty k0\<close> False r g small_steps_ok(5)
        by (cases "r = 1") (auto simp: poll_host_def split: if_splits)
    qed
  qed
qed

lemma kbd_read_ok:
  assumes "host_ok k" "kaypro_kbd_read k = Ret c k'"
  shows "host_ok k'"
proof -
  define k0 where "k0 = k\<lparr>n_reads := n_reads k + 1, empty_polls := 0, polls_since_read := 0, gate_open := True\<rparr>"
  have k0: "host_ok k0" using assms(1) by (simp add: k0_def)
  note rd = assms(2) [unfolded kaypro_kbd_read_def, folded k0_def, unfolded Let_def]
  have pop: "host_ok k2" if "pop_key k1 = (c, k2) \<or> q_pop k1 = (c, k2)" "host_ok k1" for k1 c k2
    using pop_ok [of k1] that by auto
  show ?thesis
  proof (cases "q_empty k0")
    case False
    with rd pop k0 show ?thesis by (auto split: prod.splits)
  next
    case True
    show ?thesis
    proof (cases "scripted k0")
      case sc: True
      show ?thesis
      proof (cases "script_advance True k0")
        case None
        with rd True sc k0 show ?thesis by simp
      next
        case (Some rk)
        then obtain r k1 where rk: "rk = (r, k1)" "host_ok k1" using advance_ok [OF k0] by (cases rk) auto
        with Some rd True sc pop show ?thesis by (auto split: prod.splits if_splits)
      qed
    next
      case ns: False
      show ?thesis
      proof (cases "fetch_loop (input_left k0) k0")
        case None
        with rd True ns k0 show ?thesis by simp
      next
        case (Some x)
        then obtain r k1 where x: "x = Ret r k1" using rd True ns by (cases x) auto
        with fetch_loop_ok [OF k0] Some have "host_ok k1" by simp
        with Some x rd True ns pop show ?thesis by (auto simp: Let_def split: prod.splits if_splits)
      qed
    qed
  qed
qed

section \<open>Every call keeps the shim well formed\<close>

definition shim_ok :: "shim \<Rightarrow> bool" where
  "shim_ok s \<longleftrightarrow> disk_wf (disk s) \<and> host_ok (kbd s) \<and> screen_ok (video s)"

lemma conout_ok: "shim_ok s \<Longrightarrow> shim_ok (cpm_conout ch s)"
  using putc_step [of "video s" ch]
  by (auto simp: shim_ok_def cpm_conout_def Let_def small_steps_ok(4) split: option.splits)

lemma list_out_ok: "shim_ok s \<Longrightarrow> shim_ok (cpm_list_out ch s)"
  by (simp add: shim_ok_def cpm_list_out_def)

lemma conin_ok: "shim_ok s \<Longrightarrow> cpm_conin s = Some (c, s') \<Longrightarrow> shim_ok s'"
  using kbd_read_ok [of "kbd s"] by (auto simp: shim_ok_def cpm_conin_def split: kres.splits key.splits)

lemma constat_ok: "shim_ok s \<Longrightarrow> cpm_constat s = Some (c, s') \<Longrightarrow> shim_ok s'"
  using kbd_poll_ok [of "kbd s"] by (auto simp: shim_ok_def cpm_constat_def split: kres.splits)

lemma conouts_ok: "shim_ok (host cpu) \<Longrightarrow> shim_ok (host (conouts bs cpu))"
  by (induction bs arbitrary: cpu) (simp_all add: conouts_def conout_def conout_ok)

lemma host_poke [simp]: "host (poke cpu a v) = host cpu"
  by (simp add: poke_def)

lemma host_pokes [simp]: "host (pokes cpu a bs) = host cpu"
  by (induction bs arbitrary: cpu a) simp_all

lemma host_fold_same: "host (fold (\<lambda>i cpu. let a = addr + of_nat i in z80_mem_w cpu a (cmem cpu a)) xs cpu) = host cpu"
  by (induction xs arbitrary: cpu) (simp_all add: Let_def)

lemma host_host_wrote [simp]: "host (z80_mem_host_wrote cpu a n) = host cpu"
  by (simp add: z80_mem_host_wrote_def host_fold_same)

lemma host_stores [simp]:
  "host (dma_store cpu a bs) = host cpu"
  "host (fcb_set_record_pos cpu a r) = host cpu" "host (bump_rc cpu a) = host cpu"
  "host (set_hl w cpu) = host cpu" "host (ret_hl w cpu) = host cpu" "host (store_random cpu a r0 r1 r2) = host cpu"
  by (simp_all add: dma_store_def fcb_set_record_pos_def bump_rc_def Let_def
      set_hl_def ret_hl_def store_random_def)

text \<open>The disk calls change the disk only through their result.\<close>

lemma host_disk_calls [simp]:
  "host (fst (cpm_bdos_open_file cpu a d)) = host cpu" "host (fst (cpm_bdos_close_file cpu a d)) = host cpu"
  "host (fst (cpm_bdos_make_file cpu a d)) = host cpu" "host (fst (cpm_bdos_delete_file cpu a d)) = host cpu"
  "host (fst (cpm_bdos_rename cpu a d)) = host cpu" "host (fst (cpm_bdos_set_attributes cpu a d)) = host cpu"
  "host (fst (cpm_bdos_set_dma cpu d)) = host cpu" "host (cpm_bdos_alloc_vector cpu d) = host cpu"
  "host (cpm_bdos_file_size cpu a d) = host cpu" "host (cpm_bdos_set_random cpu a) = host cpu"
  by (simp_all add: cpm_bdos_open_file_def cpm_bdos_close_file_def cpm_bdos_make_file_def cpm_bdos_delete_file_def
      cpm_bdos_rename_def cpm_bdos_set_attributes_def cpm_bdos_set_dma_def cpm_bdos_alloc_vector_def
      cpm_bdos_file_size_def cpm_bdos_set_random_def Let_def split: option.split prod.split)

lemma host_transfers [simp]:
  "host (fst (cpm_bdos_read_sequential cpu a d)) = host cpu" "host (fst (cpm_bdos_random_read cpu a d)) = host cpu"
  "host (fst (cpm_bdos_write_sequential cpu a d)) = host cpu" "host (fst (cpm_bdos_random_write cpu a d)) = host cpu"
  by (simp_all add: transfers_alt read_record_def write_record_def Let_def split: option.split prod.split)

lemma host_search: "cpm_bdos_search_first cpu a d = Some r \<Longrightarrow> host (fst r) = host cpu"
  "cpm_bdos_search_next cpu d = Some r \<Longrightarrow> host (fst r) = host cpu"
  by (auto simp: cpm_bdos_search_first_def cpm_bdos_search_next_def search_result_def Let_def split: option.splits)

lemma with_disk_ok:
  assumes "shim_ok (host cpu)" "with_disk f cpu = Returned b cpu'" "\<And>d. disk_wf d \<Longrightarrow> disk_wf (snd (f cpu d))"
    "\<And>d. host (fst (f cpu d)) = host cpu"
  shows "shim_ok (host cpu')"
  using assms(1,2) assms(3,4) [of "disk (host cpu)"] by (auto simp: with_disk_def shim_ok_def split: prod.splits)

lemma with_search_ok:
  assumes "shim_ok (host cpu)" "with_search f cpu = Returned b cpu'"
    "\<And>d r. disk_wf d \<Longrightarrow> f cpu d = Some r \<Longrightarrow> disk_wf (snd r)" "\<And>d r. f cpu d = Some r \<Longrightarrow> host (fst r) = host cpu"
  shows "shim_ok (host cpu')"
  using assms(1,2) assms(3,4) [of "disk (host cpu)"]
  by (auto simp: with_search_def shim_ok_def split: prod.splits option.splits)

lemma with_key_ok:
  assumes "shim_ok (host cpu)" "with_key f cpu = Returned b cpu'" "\<And>c s'. f (host cpu) = Some (c, s') \<Longrightarrow> shim_ok s'"
  shows "shim_ok (host cpu')"
  using assms by (auto simp: with_key_def split: option.splits prod.splits)

lemma print_string_ok: "shim_ok (host cpu) \<Longrightarrow> print_string n a cpu = Some cpu' \<Longrightarrow> shim_ok (host cpu')"
proof (induction n arbitrary: a cpu)
  case (Suc n)
  have "shim_ok (host (conout (cmem cpu a) cpu))" using Suc.prems(1) by (simp add: conout_def conout_ok)
  with Suc show ?case by (auto simp: Let_def split: if_splits)
qed simp

lemma line_key_ok: "shim_ok (host cpu) \<Longrightarrow> shim_ok (host (snd (line_key de cap len ch cpu)))"
  by (simp add: line_key_def conouts_ok conout_def conout_ok)

lemma line_loop_ok:
  assumes "line_loop de cap len cpu = Some r" "shim_ok (host cpu)"
  shows "case r of None \<Rightarrow> True | Some (n, cpu') \<Rightarrow> shim_ok (host cpu')"
  using assms
proof (induction rule: line_loop.raw_induct [rotated, consumes 1])
  case (1 loop de cap len cpu r)
  show ?case
  proof (cases "cpm_conin (host cpu)")
    case None
    with 1 show ?thesis by auto
  next
    case (Some cs)
    obtain ch s where cs: "cs = (ch, s)" by (cases cs)
    with Some 1(3) have ok: "shim_ok (host (cpu\<lparr>host := s\<rparr>))" using conin_ok by simp
    obtain x cpu1 where k: "line_key de cap len ch (cpu\<lparr>host := s\<rparr>) = (x, cpu1)" by (metis surj_pair)
    from line_key_ok [OF ok, of de cap len ch] have ok1: "shim_ok (host cpu1)" by (simp add: k)
    show ?thesis
    proof (cases x)
      case (Inl n)
      with 1(2) Some cs k ok1 show ?thesis by auto
    next
      case (Inr n)
      with 1(2) Some cs k have "loop de cap n cpu1 = Some r" by simp
      with 1(1) ok1 show ?thesis by blast
    qed
  qed
qed

lemma read_buffer_ok:
  assumes ok: "shim_ok (host cpu)" and r: "cpm_read_console_buffer cpu de = Returned b cpu'"
  shows "shim_ok (host cpu')"
proof (cases "cmem cpu de = 0")
  case True
  with ok r show ?thesis by (auto simp: cpm_read_console_buffer_def)
next
  case False
  define cpu1 where "cpu1 = poke (z80_mem_host_wrote (pokes cpu 0x80 (replicate 128 0)) 0x80 128) (de + 1) 0"
  have "shim_ok (host cpu1)" using ok by (simp add: cpu1_def)
  note loop = line_loop_ok [OF _ this]
  obtain len cpu2 where l: "line_loop de (cmem cpu de) 0 cpu1 = Some (Some (len, cpu2))"
    and cpu': "cpu' = set_a 0 (z80_mem_host_wrote (poke cpu2 (de + 1) len) de (2 + ucast len))"
    using r False unfolding cpm_read_console_buffer_def Let_def cpu1_def [symmetric]
    by (auto split: option.splits)
  from loop [OF l] cpu' show ?thesis by simp
qed

lemma direct_io_ok: "shim_ok (host cpu) \<Longrightarrow> direct_io cpu = Returned b cpu' \<Longrightarrow> shim_ok (host cpu')"
  using constat_ok [of "host cpu"]
  by (auto simp: direct_io_def conout_def conout_ok split: option.splits prod.splits if_splits
      elim!: with_key_ok [rotated] dest: conin_ok)

lemma bdos_console_ok:
  assumes ok: "shim_ok (host cpu)" and "bdos_console cpu = Returned b cpu'"
  shows "shim_ok (host cpu')"
proof -
  have keys: "with_key cpm_conin cpu = Returned b cpu' \<Longrightarrow> ?thesis" "with_key cpm_constat cpu = Returned b cpu' \<Longrightarrow> ?thesis"
    using with_key_ok [OF ok] conin_ok [OF ok] constat_ok [OF ok] by blast+
  show ?thesis
    using assms(2) ok keys direct_io_ok [OF ok] read_buffer_ok [OF ok] print_string_ok [OF ok]
    by (auto simp: bdos_console_def Let_def conout_def conout_ok list_out_ok split: if_splits option.splits)
qed

lemma bdos_system_ok:
  assumes "shim_ok (host cpu)" "bdos_system cpu = Returned b cpu'"
  shows "shim_ok (host cpu')"
  using assms by (auto simp: bdos_system_def shim_ok_def Let_def split: if_splits)

lemma bios_ok:
  assumes ok: "shim_ok (host cpu)" and "bios_dispatch cpu = Returned b cpu'"
  shows "shim_ok (host cpu')"
proof -
  have keys: "with_key cpm_conin cpu = Returned b cpu' \<Longrightarrow> ?thesis" "with_key cpm_constat cpu = Returned b cpu' \<Longrightarrow> ?thesis"
    using with_key_ok [OF ok] conin_ok [OF ok] constat_ok [OF ok] by blast+
  show ?thesis
    using assms(2) ok keys
    by (auto simp: bios_dispatch_def conout_def conout_ok list_out_ok split: if_splits option.splits)
qed

lemma if_result: "(if c then x else y) = r \<Longrightarrow> (x = r \<Longrightarrow> P) \<Longrightarrow> (y = r \<Longrightarrow> P) \<Longrightarrow> P"
  by (simp split: if_splits)

lemma bdos_ok:
  assumes ok: "shim_ok (host cpu)" and r: "bdos_dispatch cpu = Returned b cpu'"
  shows "shim_ok (host cpu')"
proof -
  note d = with_disk_ok [OF ok] and s = with_search_ok [OF ok]
  have dma: "disk_wf d \<Longrightarrow> disk_wf (snd (cpm_bdos_set_dma cpu d))" for d by (simp add: cpm_bdos_set_dma_def)
  show ?thesis
    using r unfolding bdos_dispatch_def Let_def
    by (elim if_result)
      ((erule d s bdos_console_ok [OF ok] bdos_system_ok [OF ok]; simp add: disk_calls_wf dma host_search)+)
qed

section \<open>Line input\<close>







lemma conouts_other [simp]: "cmem (conouts bs cpu) = cmem cpu" "reg_a (conouts bs cpu) = reg_a cpu"
proof -
  show "cmem (conouts bs cpu) = cmem cpu"
    by (induction bs arbitrary: cpu) (simp_all add: conouts_def conout_def)
  show "reg_a (conouts bs cpu) = reg_a cpu"
    by (induction bs arbitrary: cpu) (simp_all add: conouts_def conout_def)
qed

lemma conout_conouts: "conout b cpu = conouts [b] cpu"
  by (simp add: conouts_def)

lemma cmem_conout: "cmem (conout b cpu) = cmem cpu"
  by (simp add: conout_conouts)










section \<open>A shim with a file, text to type and a screen\<close>

definition demo_shim :: shim where
  "demo_shim = \<lparr>disk = demo_disk, kbd = demo_kbd, video = demo_screen, kaypro_video_enabled = False, stdout = [],
     list_fp = None, ro_vector = 0, user_code = 0\<rparr>"

definition demo_scpu :: "u16 \<Rightarrow> u8 \<Rightarrow> shim z80_cpu" where
  "demo_scpu a v = (z80_cpu_init None demo_shim)\<lparr>cmem := (\<lambda>_. 0) (a := v)\<rparr>"

lemma demo_scpu_simps: "host (demo_scpu a v) = demo_shim" "cmem (demo_scpu a v) = (\<lambda>_. 0) (a := v)" "reg_c (demo_scpu a v) = 0"
  by (simp_all add: demo_scpu_def z80_cpu_init_def zero_cpu_def)

lemma demo_shim_ok: "shim_ok demo_shim"
  using demo_disk_wf demo_kbd_ok(1) demo_screen_ok(1) by (simp add: shim_ok_def demo_shim_def)



text \<open>C15: Every BDOS and BIOS call that returns leaves the shim well formed: eight file
  slots whose handles are open regular files of distinct FCBs, a keyboard whose ring buffer and
  host buffer stay inside their arrays, and a screen whose cursor, region and escape state are in range.\<close>

theorem shim_calls_wf:
  assumes "shim_ok (host cpu)" "bdos_dispatch cpu = Returned b cpu' \<or> bios_dispatch cpu = Returned b cpu'"
  shows "shim_ok (host cpu')"
  using bdos_ok [OF assms(1)] bios_ok [OF assms(1)] assms(2) by blast

theorem shim_calls_wf_witness:
  "shim_ok (host (conout 0x41 (demo_scpu 0 0)\<lparr>reg_c := 2, reg_e := 0x41, reg_a := 0\<rparr>))"
proof (rule shim_calls_wf [where cpu = "(demo_scpu 0 0)\<lparr>reg_c := 2, reg_e := 0x41\<rparr>" and b = True])
  show "shim_ok (host ((demo_scpu 0 0)\<lparr>reg_c := 2, reg_e := 0x41\<rparr>))" by (simp add: demo_scpu_simps demo_shim_ok)
  show "bdos_dispatch ((demo_scpu 0 0)\<lparr>reg_c := 2, reg_e := 0x41\<rparr>) =
      Returned True (conout 0x41 (demo_scpu 0 0)\<lparr>reg_c := 2, reg_e := 0x41, reg_a := 0\<rparr>) \<or>
    bios_dispatch ((demo_scpu 0 0)\<lparr>reg_c := 2, reg_e := 0x41\<rparr>) =
      Returned True (conout 0x41 (demo_scpu 0 0)\<lparr>reg_c := 2, reg_e := 0x41, reg_a := 0\<rparr>)"
    by (simp add: bdos_dispatch_def bdos_console_def conout_def set_a_def)
qed

section \<open>Printing a string\<close>

lemma print_string_alt:
  "print_string n a cpu =
     (if \<exists>k < n. cmem cpu (a + of_nat k) = 0x24
      then Some (conouts (takeWhile (\<lambda>c. c \<noteq> 0x24) (peeks (cmem cpu) a n)) cpu) else None)"
proof (induction n arbitrary: a cpu)
  case (Suc n)
  have p: "peeks m a (Suc n) = m a # peeks m (a + 1) n" for m
    by (simp add: peeks_def upt_conv_Cons map_Suc_upt [symmetric] o_def algebra_simps del: upt_Suc)
  have ex: "(\<exists>k < Suc n. m (a + of_nat k) = (0x24 :: u8)) \<longleftrightarrow> m a = 0x24 \<or> (\<exists>k < n. m (a + 1 + of_nat k) = 0x24)" for m
    by (simp add: Ex_less_Suc2 add.assoc)
  show ?case
  proof (cases "cmem cpu a = 0x24")
    case True
    then show ?thesis unfolding ex p by (simp add: conouts_def)
  next
    case False
    have "conouts (cmem cpu a # bs) cpu = conouts bs (conout (cmem cpu a) cpu)" for bs by (simp add: conouts_def)
    then show ?thesis using False Suc [of "a + 1" "conout (cmem cpu a) cpu"] unfolding ex p
      by (simp add: cmem_conout Let_def)
  qed
qed simp

text \<open>BDOS 9 returns exactly when there is a \<open>$\<close> somewhere in memory; it then has printed the bytes from
  DE up to the first \<open>$\<close> (through the end of memory if need be) and nothing else.\<close>

theorem print_string_returns:
  assumes "reg_c cpu = 9"
  shows "bdos_dispatch cpu =
    (if \<exists>a. cmem cpu a = 0x24
     then Returned True (set_a 0 (conouts (takeWhile (\<lambda>c. c \<noteq> 0x24) (peeks (cmem cpu) (reg_de cpu) 65536)) cpu))
     else Looping)"
proof -
  have "(\<exists>k < 65536. cmem cpu (reg_de cpu + of_nat k) = 0x24) \<longleftrightarrow> (\<exists>a. cmem cpu a = 0x24)"
  proof
    assume "\<exists>a. cmem cpu a = 0x24"
    then obtain a where "cmem cpu a = 0x24" by blast
    moreover have "a = reg_de cpu + of_nat (unat (a - reg_de cpu))" by simp
    ultimately show "\<exists>k < 65536. cmem cpu (reg_de cpu + of_nat k) = 0x24" using unat_u16_less by metis
  qed blast
  moreover have "bdos_dispatch cpu = (case print_string 65536 (reg_de cpu) cpu of None \<Rightarrow> Looping | Some cpu \<Rightarrow> Returned True (set_a 0 cpu))"
    using assms by (simp add: bdos_dispatch_def bdos_console_def)
  ultimately show ?thesis by (simp only: print_string_alt) (simp split: if_split)
qed

theorem print_string_returns_witness:
  "bdos_dispatch ((demo_scpu 0x200 0x24)\<lparr>reg_c := 9, reg_d := 2\<rparr>) =
    (if \<exists>a. cmem ((demo_scpu 0x200 0x24)\<lparr>reg_c := 9, reg_d := 2\<rparr>) a = 0x24
     then Returned True (set_a 0 (conouts (takeWhile (\<lambda>c. c \<noteq> 0x24)
       (peeks (cmem ((demo_scpu 0x200 0x24)\<lparr>reg_c := 9, reg_d := 2\<rparr>)) (reg_de ((demo_scpu 0x200 0x24)\<lparr>reg_c := 9, reg_d := 2\<rparr>)) 65536))
       ((demo_scpu 0x200 0x24)\<lparr>reg_c := 9, reg_d := 2\<rparr>)))
     else Looping)"
  by (rule print_string_returns) simp

section \<open>The BIOS vectors and a loaded program\<close>

lemma range_iff: "unat (a :: u16) + n \<le> 65536 \<Longrightarrow> unat (x - a) < n \<longleftrightarrow> unat a \<le> unat x \<and> unat x < unat a + n"
proof (cases "a \<le> x")
  case True
  then have "unat (x - a) = unat x - unat a" "unat a \<le> unat x" by (simp_all add: unat_sub word_le_nat_alt)
  then show ?thesis by auto
next
  case False
  assume n: "unat a + n \<le> 65536"
  from False have lt: "unat x < unat a" by (simp add: word_le_nat_alt)
  have "unat (x - a) = unat x + 65536 - unat a" using lt by (simp add: unat_sub_if_size word_size)
  with lt n show ?thesis by simp
qed

lemma pokes_outside:
  "unat x < unat a \<or> unat a + length bs \<le> unat x \<Longrightarrow> unat a + length bs \<le> 65536 \<Longrightarrow> cmem (pokes cpu a bs) x = cmem cpu x"
  by (auto simp: cmem_pokes range_iff)

text \<open>The installed table, as one list of bytes.\<close>

definition bios_table :: bytes where
  "bios_table = concat (map (\<lambda>i. [0xC3, lo8 (0xF230 + of_nat (3 * i)), hi8 (0xF230 + of_nat (3 * i))]) [0..<17])"

lemma bios_vectors_pokes: "fold bios_vector [n..<n + k] cpu =
    pokes cpu (0xF200 + of_nat (3 * n))
      (concat (map (\<lambda>i. [0xC3, lo8 (0xF230 + of_nat (3 * i)), hi8 (0xF230 + of_nat (3 * i))]) [n..<n + k]))"
proof (induction k arbitrary: n cpu)
  case (Suc k)
  have u: "[n..<n + Suc k] = n # [Suc n..<Suc n + k]" by (simp add: upt_conv_Cons del: upt_Suc)
  show ?case unfolding u using Suc [of "Suc n" "bios_vector n cpu"]
    by (simp add: bios_vector_def Let_def algebra_simps)
qed simp

lemma peeks_inside:
  assumes "length bs \<le> 65536" "k + n \<le> length bs"
  shows "peeks (cmem (pokes cpu a bs)) (a + of_nat k) n = take n (drop k bs)"
proof (rule nth_equalityI)
  fix j assume j: "j < length (peeks (cmem (pokes cpu a bs)) (a + of_nat k) n)"
  have "a + of_nat k + of_nat j - a = (of_nat (k + j) :: u16)" by simp
  moreover have "unat (of_nat (k + j) :: u16) = k + j" using j assms by (intro unat_of_nat_u16) simp
  ultimately show "peeks (cmem (pokes cpu a bs)) (a + of_nat k) n ! j = take n (drop k bs) ! j"
    using j assms by (simp add: cmem_pokes del: of_nat_add)
qed (use assms in simp)

lemma bios_table_entries:
  "list_all (\<lambda>i. take 3 (drop (3 * i) bios_table) = [0xC3, lo8 (0xF230 + of_nat (3 * i)), hi8 (0xF230 + of_nat (3 * i))]) [0..<17]"
  "length bios_table = 51"
  by (code_simp, simp add: bios_table_def length_concat o_def sum_list_triv)

lemma bios_funcs:
  assumes "i < 17"
  shows "bios_func (0xF200 + of_nat (3 * i)) = Some i" "bios_func (0xF230 + of_nat (3 * i)) = Some (if i = 0 then 16 else i)"
proof -
  have "unat (of_nat (0xF200 + 3 * i) :: u16) = 0xF200 + 3 * i" "unat (of_nat (0xF230 + 3 * i) :: u16) = 0xF230 + 3 * i"
    using assms by (simp_all only: unat_of_nat_u16)
  then show "bios_func (0xF200 + of_nat (3 * i)) = Some i" "bios_func (0xF230 + of_nat (3 * i)) = Some (if i = 0 then 16 else i)"
    using assms by (auto simp: bios_func_def word_le_nat_alt)
qed

lemma install_bios_pokes:
  "cmem (cpm_install_bios cpu) = cmem (pokes (poke (poke (pokes cpu 0xF200 bios_table) 1 0x03) 2 0xF2) 0xF200 [0x42, 0x49, 0x4F, 0x53])"
proof -
  have "fold bios_vector [0..<17] cpu = pokes cpu 0xF200 bios_table"
    using bios_vectors_pokes [of 0 17 cpu] by (simp add: bios_table_def)
  moreover have "lo8 (0xF200 + 3) = 0x03" "hi8 (0xF200 + 3) = 0xF2" by code_simp+
  ultimately show ?thesis by (simp add: cpm_install_bios_def Let_def)
qed

text \<open>Each of the seventeen BIOS vectors leads to its own function: entering at the vector's slot dispatches to
  it, the installed vector (from CONST on) is a jump to the gate of that number, and the gate
  dispatches to the same function; only the gate of BOOT lies inside the vector table and dispatches to
  SECTRAN.\<close>

theorem bios_vectors:
  assumes "i < 17"
  shows "bios_func (0xF200 + of_nat (3 * i)) = Some i \<and>
    bios_func (0xF230 + of_nat (3 * i)) = Some (if i = 0 then 16 else i) \<and>
    (2 \<le> i \<longrightarrow> peeks (cmem (cpm_install_bios cpu)) (0xF200 + of_nat (3 * i)) 3 =
       [0xC3, lo8 (0xF230 + of_nat (3 * i)), hi8 (0xF230 + of_nat (3 * i))])"
proof (intro conjI impI)
  show "bios_func (0xF200 + of_nat (3 * i)) = Some i" "bios_func (0xF230 + of_nat (3 * i)) = Some (if i = 0 then 16 else i)"
    using bios_funcs [OF assms] by blast+
next
  assume i: "2 \<le> i"
  have "cmem (cpm_install_bios cpu) (0xF200 + of_nat (3 * i) + of_nat j) = cmem (pokes cpu 0xF200 bios_table) (0xF200 + of_nat (3 * i) + of_nat j)"
    if "j < 3" for j
  proof -
    define x :: u16 where "x = 0xF200 + of_nat (3 * i) + of_nat j"
    have "x = of_nat (0xF200 + 3 * i + j)" by (simp add: x_def)
    then have "unat x = 0xF200 + 3 * i + j" using assms that by (simp only: unat_of_nat_u16)
    moreover from this have "x \<noteq> 1" "x \<noteq> 2" by auto
    ultimately show ?thesis using i unfolding x_def [symmetric] by (simp add: install_bios_pokes pokes_outside del: pokes.simps)
  qed
  then have "peeks (cmem (cpm_install_bios cpu)) (0xF200 + of_nat (3 * i)) 3 = peeks (cmem (pokes cpu 0xF200 bios_table)) (0xF200 + of_nat (3 * i)) 3"
    by (simp add: peeks_def)
  also have "\<dots> = take 3 (drop (3 * i) bios_table)" using assms by (intro peeks_inside) (simp_all add: bios_table_entries(2))
  also have "\<dots> = [0xC3, lo8 (0xF230 + of_nat (3 * i)), hi8 (0xF230 + of_nat (3 * i))]"
    using bios_table_entries(1) assms by (simp add: list_all_iff)
  finally show "peeks (cmem (cpm_install_bios cpu)) (0xF200 + of_nat (3 * i)) 3 =
    [0xC3, lo8 (0xF230 + of_nat (3 * i)), hi8 (0xF230 + of_nat (3 * i))]" .
qed

theorem bios_vectors_witness:
  "bios_func (0xF200 + of_nat (3 * 4)) = Some 4 \<and>
    bios_func (0xF230 + of_nat (3 * 4)) = Some (if 4 = (0 :: nat) then 16 else 4) \<and>
    (2 \<le> (4 :: nat) \<longrightarrow> peeks (cmem (cpm_install_bios (demo_scpu 0 0))) (0xF200 + of_nat (3 * 4)) 3 =
       [0xC3, lo8 (0xF230 + of_nat (3 * 4)), hi8 (0xF230 + of_nat (3 * 4))])"
  by (rule bios_vectors) simp

lemma cmem_pokes_at:
  assumes "unat a + length bs \<le> 65536"
  shows "cmem (pokes cpu a bs) x = (if unat a \<le> unat x \<and> unat x < unat a + length bs then bs ! (unat x - unat a) else cmem cpu x)"
proof (cases "unat a \<le> unat x \<and> unat x < unat a + length bs")
  case True
  then have "unat (x - a) = unat x - unat a" by (simp add: unat_sub word_le_nat_alt)
  moreover from True have "unat x - unat a < length bs" by linarith
  ultimately show ?thesis using True assms by (simp add: cmem_pokes)
next
  case False
  with assms pokes_outside [of x a bs cpu] show ?thesis by auto
qed

lemma pokes_regs [simp]: "reg_pc (pokes cpu a bs) = reg_pc cpu" "reg_sp (pokes cpu a bs) = reg_sp cpu" "reg_c (pokes cpu a bs) = reg_c cpu"
proof -
  have p: "reg_pc (poke cpu a v) = reg_pc cpu" "reg_sp (poke cpu a v) = reg_sp cpu" "reg_c (poke cpu a v) = reg_c cpu" for cpu :: "'a z80_cpu" and a v
    by (simp_all add: poke_def)
  show "reg_pc (pokes cpu a bs) = reg_pc cpu" "reg_sp (pokes cpu a bs) = reg_sp cpu" "reg_c (pokes cpu a bs) = reg_c cpu"
    by (induction bs arbitrary: cpu a) (simp_all add: p)
qed

lemma poke_regs [simp]: "reg_pc (poke cpu a v) = reg_pc cpu" "reg_sp (poke cpu a v) = reg_sp cpu" "reg_c (poke cpu a v) = reg_c cpu"
  by (simp_all add: poke_def)

lemma fold_same_regs:
  "reg_pc (fold (\<lambda>i cpu. let a = addr + of_nat i in z80_mem_w cpu a (cmem cpu a)) xs cpu) = reg_pc cpu"
  "reg_sp (fold (\<lambda>i cpu. let a = addr + of_nat i in z80_mem_w cpu a (cmem cpu a)) xs cpu) = reg_sp cpu"
  "reg_c (fold (\<lambda>i cpu. let a = addr + of_nat i in z80_mem_w cpu a (cmem cpu a)) xs cpu) = reg_c cpu"
  by (induction xs arbitrary: cpu) (simp_all add: Let_def)

lemma host_wrote_regs [simp]: "reg_pc (z80_mem_host_wrote cpu a n) = reg_pc cpu" "reg_sp (z80_mem_host_wrote cpu a n) = reg_sp cpu"
  "reg_c (z80_mem_host_wrote cpu a n) = reg_c cpu"
  by (simp_all add: z80_mem_host_wrote_def fold_same_regs)

lemma disk_defaults_simps [simp]:
  "cmem (disk_defaults cpu) = cmem (pokes cpu 0xE500 shim_dpb)" "reg_pc (disk_defaults cpu) = reg_pc cpu"
  "reg_sp (disk_defaults cpu) = reg_sp cpu" "reg_c (disk_defaults cpu) = reg_c cpu"
  by (simp_all add: disk_defaults_def cpm_disk_install_defaults_def)

lemma on_disk_simps [simp]: "cmem (on_disk f cpu) = cmem cpu" "reg_pc (on_disk f cpu) = reg_pc cpu"
  "reg_sp (on_disk f cpu) = reg_sp cpu" "reg_c (on_disk f cpu) = reg_c cpu"
  by (simp_all add: on_disk_def)

lemma install_bios_regs: "reg_pc (cpm_install_bios cpu) = reg_pc cpu" "reg_sp (cpm_install_bios cpu) = reg_sp cpu"
  "reg_c (cpm_install_bios cpu) = reg_c cpu"
proof -
  have "fold bios_vector [0..<17] cpu = pokes cpu 0xF200 bios_table"
    using bios_vectors_pokes [of 0 17 cpu] by (simp add: bios_table_def)
  then show "reg_pc (cpm_install_bios cpu) = reg_pc cpu" "reg_sp (cpm_install_bios cpu) = reg_sp cpu"
    "reg_c (cpm_install_bios cpu) = reg_c cpu"
    by (simp_all add: cpm_install_bios_def Let_def del: pokes.simps)
qed

text \<open>The loader's stores, last first: address and bytes.\<close>

definition load_stores :: "(u16 \<times> bytes) list" where
  "load_stores = [(0xF200, [0x42, 0x49, 0x4F, 0x53]), (2, [0xF2]), (1, [0x03]), (0xF200, bios_table), (0xE500, shim_dpb), (0xE500, shim_dpb),
     (0xF000, [0x43, 0x50, 0x4D, 0x32, 0x4D, 0x4F, 0x4E, 0x53, 0x54, 0x45, 0x52, 0x00]), (5, [0xC3, 0x00, 0xE4]), (0, [0xC3, 0x00, 0xF0]),
     (0x80, [0]), (0x6D, replicate 11 0x20), (0x5D, replicate 11 0x20), (0x5C, replicate 0x24 0), (0xFEFF, [0]), (0xFEFE, [0])]"

fun stored_at :: "(u16 \<times> bytes) list \<Rightarrow> memory \<Rightarrow> memory" where
  "stored_at [] m x = m x"
| "stored_at ((a, bs) # ss) m x =
     (if unat a \<le> unat x \<and> unat x < unat a + length bs then bs ! (unat x - unat a) else stored_at ss m x)"

lemma cmem_poke_at: "cmem (poke cpu a v) x = (if unat a \<le> unat x \<and> unat x < unat a + length [v] then [v] ! (unat x - unat a) else cmem cpu x)"
  by (auto simp: word_unat_eq_iff)

lemma load_com_memory:
  assumes "img \<noteq> []" "length img \<le> 0xFE00"
  shows "cmem (snd (cpm_load_com cpu (Some img))) x = stored_at load_stores (cmem (pokes cpu 0x100 img)) x"
proof -
  have "length shim_dpb = 15" by (simp add: shim_dpb_def)
  then show ?thesis
    using assms unfolding cpm_load_com_def load_stores_def Let_def cpm_install_def
    by (simp add: install_bios_pokes cmem_pokes_at cmem_poke_at bios_table_entries(2) del: pokes.simps cmem_poke length_Cons nth_Cons)
qed

lemma load_com_regs:
  assumes "img \<noteq> []" "length img \<le> 0xFE00"
  shows "fst (cpm_load_com cpu (Some img)) = 0" "reg_pc (snd (cpm_load_com cpu (Some img))) = 0x100"
    "reg_sp (snd (cpm_load_com cpu (Some img))) = 0xFEFE" "reg_c (snd (cpm_load_com cpu (Some img))) = 0"
  using assms by (simp_all add: cpm_load_com_def Let_def cpm_install_def install_bios_regs del: pokes.simps)

lemma program_intact:
  assumes "img \<noteq> []" "length img \<le> 0xE400"
  shows "peeks (cmem (snd (cpm_load_com cpu (Some img)))) 0x100 (length img) = img"
proof -
  have l: "length shim_dpb = 15" by (simp add: shim_dpb_def)
  have "stored_at load_stores m (0x100 + of_nat k) = m (0x100 + of_nat k)" if "k < length img" for k m
  proof -
    have "0x100 + of_nat k = (of_nat (0x100 + k) :: u16)" by simp
    moreover have "unat (of_nat (0x100 + k) :: u16) = 0x100 + k" using that assms by (intro unat_of_nat_u16) linarith
    ultimately have "unat (0x100 + of_nat k :: u16) = 0x100 + k" by metis
    with that assms show ?thesis by (simp add: load_stores_def l bios_table_entries(2) del: nth_Cons)
  qed
  then have "peeks (cmem (snd (cpm_load_com cpu (Some img)))) 0x100 (length img) = peeks (cmem (pokes cpu 0x100 img)) 0x100 (length img)"
    using assms by (simp add: peeks_def load_com_memory)
  also have "\<dots> = img" using assms by (simp add: peeks_pokes)
  finally show ?thesis .
qed

text \<open>C36: A \<open>.COM\<close> file of at most 0xE400 bytes is loaded whole at 0x100, and starts in the state CP/M
  gives a program: PC at 0x100, a stack at whose top lies the address 0, a jump at 0 to the
  warm boot vector, a jump at 5 to the BDOS, two blank FCBs, an empty command tail and C = 0.\<close>

theorem com_loaded:
  assumes "img \<noteq> []" "length img \<le> 0xE400" "cpm_load_com cpu (Some img) = (r, cpu')"
  shows "r = 0 \<and> peeks (cmem cpu') 0x100 (length img) = img \<and>
    reg_pc cpu' = 0x100 \<and> reg_c cpu' = 0 \<and> peeks (cmem cpu') (reg_sp cpu') 2 = [0, 0] \<and>
    peeks (cmem cpu') 0 3 = [0xC3, 0x03, 0xF2] \<and> peeks (cmem cpu') 5 3 = [0xC3, 0x00, 0xE4] \<and>
    peeks (cmem cpu') 0x5C 12 = 0 # replicate 11 0x20 \<and> peeks (cmem cpu') 0x6C 12 = 0 # replicate 11 0x20 \<and> cmem cpu' 0x80 = 0"
proof (intro conjI)
  have len: "length img \<le> 0xFE00" using assms(2) by simp
  have cpu': "cpu' = snd (cpm_load_com cpu (Some img))" and r: "r = fst (cpm_load_com cpu (Some img))" using assms(3) by simp_all
  have m: "peeks (cmem cpu') a n = map (\<lambda>k. stored_at load_stores (cmem (pokes cpu 0x100 img)) (a + of_nat k)) [0..<n]" for a n
    unfolding cpu' using assms(1) len by (simp add: peeks_def load_com_memory)
  have l: "length shim_dpb = 15" by (simp add: shim_dpb_def)
  note regs = load_com_regs [OF assms(1) len, of cpu, folded cpu' r]
  have sp: "replicate 11 (0x20 :: u8) = [32, 32, 32, 32, 32, 32, 32, 32, 32, 32, 32]" by (simp add: numeral_eq_Suc)
  note at = m load_stores_def l bios_table_entries(2) upt_rec
  show "r = 0" "reg_pc cpu' = 0x100" "reg_c cpu' = 0" using regs by simp_all
  show "peeks (cmem cpu') 0x100 (length img) = img" unfolding cpu' by (rule program_intact [OF assms(1,2)])
  show "peeks (cmem cpu') (reg_sp cpu') 2 = [0, 0]" unfolding regs by (simp add: at)
  show "peeks (cmem cpu') 0 3 = [0xC3, 0x03, 0xF2]" by (simp add: at)
  show "peeks (cmem cpu') 5 3 = [0xC3, 0x00, 0xE4]" by (simp add: at)
  show "peeks (cmem cpu') 0x5C 12 = 0 # replicate 11 0x20" unfolding sp by (simp add: at)
  show "peeks (cmem cpu') 0x6C 12 = 0 # replicate 11 0x20" unfolding sp by (simp add: at)
  show "cmem cpu' 0x80 = 0" using m [of "0x80" 1] by (simp add: peeks_def load_stores_def l bios_table_entries(2))
qed

theorem com_loaded_witness:
  "peeks (cmem (snd (cpm_load_com (demo_scpu 0 0) (Some [0xC9])))) 0x100 1 = [0xC9]"
  using com_loaded [of "[0xC9]" "demo_scpu 0 0"] by (cases "cpm_load_com (demo_scpu 0 0) (Some [0xC9])") simp

end
