(* ===== verification/Cpm_Host_Props.thy ===== *)
theory Cpm_Host_Props
  imports Cpm_Host Cpm_Bdos_Props Z80_Interp_Inv
begin

text \<open>
  The native CP/M ports: the drive table and the images keep their shape, a mounted image is an array of
  128-byte records, warm boot puts the system back, and no host write leaves a stale translation.
\<close>

section \<open>Host writes and translated blocks\<close>

text \<open>Notifying the translator of a range is a store of every byte that range holds now.\<close>

lemma fold_notify:
  "fold (\<lambda>i cpu. let a = addr + of_nat i in z80_mem_w cpu a (cmem cpu a)) xs cpu =
     cpu\<lparr>cdbt := map_option (\<lambda>d. fold (\<lambda>i d. dbt_note_store d (addr + of_nat i)) xs d) (cdbt cpu)\<rparr>"
  by (induction xs arbitrary: cpu) (simp_all add: Let_def mem_w_alt option.map_comp o_def option.map_ident id_def)

lemma reach_notify:
  assumes "dbt_reach m dbt snap"
  shows "dbt_reach (\<lambda>x. if \<exists>i < n. x = a + of_nat i then m' x else m x) (fold (\<lambda>i d. dbt_note_store d (a + of_nat i)) [0..<n] dbt) snap"
proof (induction n)
  case (Suc n)
  have "(\<lambda>x. if \<exists>i < Suc n. x = a + of_nat i then m' x else m x) =
      (\<lambda>x. if \<exists>i < n. x = a + of_nat i then m' x else m x) (a + of_nat n := m' (a + of_nat n))"
    by (auto simp: fun_eq_iff less_Suc_eq)
  with dbt_reach.store [OF Suc, of "a + of_nat n" "m' (a + of_nat n)"] show ?case by simp
qed (use assms in simp)

lemma cdbt_pokes [simp]: "cdbt (pokes cpu a bs) = cdbt cpu"
  by (induction bs arbitrary: cpu a) (simp_all add: poke_def)

lemma pokes_elsewhere: "(\<forall>i < length bs. x \<noteq> a + of_nat i) \<Longrightarrow> cmem (pokes cpu a bs) x = cmem cpu x"
proof (induction bs arbitrary: cpu a)
  case (Cons b bs)
  have "x \<noteq> a + 1 + of_nat i" if "i < length bs" for i using Cons.prems that by (auto dest!: spec [of _ "Suc i"] simp: add.assoc)
  moreover have "x \<noteq> a" using Cons.prems by auto
  ultimately show ?case using Cons.IH [of "a + 1"] by simp
qed simp

lemma host_store_smc:
  assumes "smc_ok snap cpu" "length bs \<le> unat n"
  shows "smc_ok snap (z80_mem_host_wrote (pokes cpu a bs) a n)"
proof (cases "cdbt cpu")
  case None
  then show ?thesis by (simp add: smc_ok_def z80_mem_host_wrote_def)
next
  case (Some dbt)
  let ?m = "cmem (pokes cpu a bs)"
  have "(\<lambda>x. if \<exists>i < unat n. x = a + of_nat i then ?m x else cmem cpu x) = ?m"
  proof
    fix x
    show "(if \<exists>i < unat n. x = a + of_nat i then ?m x else cmem cpu x) = ?m x"
      using pokes_elsewhere [of bs x a cpu] assms(2) by (auto dest: order_less_le_trans)
  qed
  moreover have "dbt_reach (cmem cpu) dbt snap" using assms(1) Some by (simp add: smc_ok_def)
  ultimately show ?thesis
    using reach_notify [of "cmem cpu" dbt snap "unat n" a ?m] Some
    by (simp add: smc_ok_def z80_mem_host_wrote_def fold_notify)
qed

lemma smc_ok_same: "cmem cpu' = cmem cpu \<Longrightarrow> cdbt cpu' = cdbt cpu \<Longrightarrow> smc_ok snap cpu' = smc_ok snap cpu"
  by (simp add: smc_ok_def cong: option.case_cong)

lemma on_native_simps [simp]: "cmem (on_native f cpu) = cmem cpu" "cdbt (on_native f cpu) = cdbt cpu" "host (on_native f cpu) = f (host cpu)"
  by (simp_all add: on_native_def)

lemma reload_smc: "smc_ok snap cpu \<Longrightarrow> smc_ok snap (reload_system cpu)"
  by (auto simp: reload_system_def Let_def word_less_nat_alt word_le_nat_alt intro!: host_store_smc split: option.split)

lemma disk_io_smc: "smc_ok snap cpu \<Longrightarrow> smc_ok snap (snd (disk_io cpu wr))"
proof -
  assume s: "smc_ok snap cpu"
  have "smc_ok snap (cpu\<lparr>host := h\<rparr>)" for h using s by (subst smc_ok_same [of _ cpu]) simp_all
  moreover have "smc_ok snap (z80_mem_host_wrote (pokes cpu a (fread f p n 128 @ replicate (128 - length (fread f p n 128)) 0xE5)) a 128)" for a f p n
    using s by (rule host_store_smc) (simp add: fread_def)
  ultimately show ?thesis using s
    by (auto simp: disk_io_def Let_def split: option.split prod.split)
qed

lemma native_keeps: "env_keeps (smc_ok snap) native_env"
proof -
  have host: "smc_ok snap (cpu\<lparr>host := h\<rparr>) = smc_ok snap cpu" for cpu :: "native z80_cpu" and h by (rule smc_ok_same) simp_all
  have nat: "smc_ok snap (on_native f cpu) = smc_ok snap cpu" for cpu f by (rule smc_ok_same) simp_all
  have ex: "smc_ok snap (process_exit cpu) = smc_ok snap cpu" for cpu by (rule smc_ok_same) (simp_all add: process_exit_def)
  have key: "smc_ok snap (snd (key_port f cpu)) = smc_ok snap cpu" for f cpu
    by (simp add: key_port_def ex host split: option.split prod.split)
  have io: "smc_ok snap c" if "smc_ok snap cpu" "disk_io (on_native f cpu) w = (r, c)" for cpu f w r c
    using disk_io_smc [of snap "on_native f cpu" w] that by (simp add: nat)
  show ?thesis
    by (auto simp: env_keeps_def native_env_def host_in_def host_out_def native_wait_def Let_def key nat ex host reload_smc
        intro: io split: option.split prod.split)
qed

text \<open>With the traps off the shim's entry points have no part in a step.\<close>

lemma native_traps_off:
  assumes "\<not> cpm_traps_enabled env"
  shows "z80_step (env\<lparr>cpm_bdos_dispatch := f, cpm_bios_dispatch := g\<rparr>) cpu = z80_step env cpu"
proof -
  let ?e = "env\<lparr>cpm_bdos_dispatch := f, cpm_bios_dispatch := g\<rparr>"
  have io: "io_in ?e c p h = io_in env c p h" "io_out ?e c p h v = io_out env c p h v" for c p h v
    by (simp_all add: io_in_def io_out_def)
  have "io_block_in ?e down = io_block_in env down" "io_block_out ?e down = io_block_out env down" for down
    by (simp_all add: fun_eq_iff io_block_in_def io_block_out_def io)
  then have "io_block ?e c t = io_block env c t" for c t by (simp add: io_block_def Let_def)
  with assms io have "exec_op t ?e dec opc pq c = exec_op t env dec opc pq c" for t dec opc pq c
    by (cases t) (simp_all add: op_out_n_a_def op_in_a_n_def op_in_r_c_def op_out_c_r_def traps_on_def op_call_nn_def op_jp_nn_def op_jp_cc_nn_def op_jp_hl_def op_ret_def jump_traps_def Let_def)
  then show ?thesis by (simp add: z80_step_def Let_def)
qed

section \<open>The drive table\<close>

definition drive_ok :: "host_fs \<Rightarrow> host_drive \<Rightarrow> bool" where
  "drive_ok f d \<longleftrightarrow>
     (case drive_fp d of
        None \<Rightarrow> True
      | Some p \<Rightarrow> length (fdata (inodes f (h_ino p))) = unat (tracks d) * unat (spt d) * 128 \<and> (readonly d \<longleftrightarrow> \<not> h_write p))"

definition native_ok :: "native \<Rightarrow> bool" where
  "native_ok h \<longleftrightarrow> length (drives h) = 16 \<and> length (latch h) = 256 \<and> list_all (drive_ok (images h)) (drives h) \<and>
     -1 \<le> cur_drive h \<and> cur_drive h < 16 \<and>
     (case sys_image h of None \<Rightarrow> True | Some img \<Rightarrow> length img = unat (sys_len h) \<and> unat (sys_base h) + length img \<le> 65536)"

text \<open>The sizes of all files.\<close>

definition sizes :: "host_fs \<Rightarrow> nat \<Rightarrow> nat" where
  "sizes f n = length (fdata (inodes f n))"

lemma drive_ok_sizes: "sizes f' = sizes f \<Longrightarrow> drive_ok f' d = drive_ok f d"
  by (auto simp: drive_ok_def sizes_def fun_eq_iff split: option.split)

lemma fwrite_sizes:
  "off + length bs \<le> sizes f (h_ino p) \<Longrightarrow> fwrite f p off bs = (n, f') \<Longrightarrow> sizes f' = sizes f"
  by (auto simp: fwrite_def sizes_def fun_eq_iff length_splice split: if_splits)

lemma record_inside:
  assumes "(t :: nat) < tr" "s < sp"
  shows "(t * sp + s) * 128 + 128 \<le> tr * sp * 128"
proof -
  have "t * sp + s + 1 \<le> t * sp + sp" using assms(2) by simp
  also have "\<dots> = (t + 1) * sp" by simp
  also have "\<dots> \<le> tr * sp" using assms(1) by (intro mult_right_mono) simp_all
  finally show ?thesis by simp
qed

text \<open>What a disk command does to the host: nothing, or a write inside the selected image.\<close>

lemma disk_io_host:
  assumes "native_ok (host cpu)"
  shows "\<exists>f. host (snd (disk_io cpu wr)) = (host cpu)\<lparr>images := f\<rparr> \<and> sizes f = sizes (images (host cpu))"
proof -
  define h d where "h = host cpu" and "d = drives h ! nat (cur_drive h)"
  show ?thesis
  proof (cases "cur_drive h < 0 \<or> cur_drive h \<ge> 16 \<or> drive_fp d = None \<or> ucast (cur_track h) \<ge> tracks d \<or> ucast (cur_sector h) \<ge> spt d")
    case True
    then have "host (snd (disk_io cpu wr)) = (host cpu)\<lparr>images := images (host cpu)\<rparr>"
      by (auto simp: disk_io_def Let_def h_def d_def split: option.split)
    then show ?thesis by blast
  next
    case False
    then obtain p where fp: "drive_fp d = Some p" by auto
    have "drive_ok (images h) d" using assms False by (auto simp: native_ok_def h_def d_def list_all_length)
    then have size: "sizes (images h) (h_ino p) = unat (tracks d) * unat (spt d) * 128" by (simp add: drive_ok_def fp sizes_def)
    define off where "off = (unat (cur_track h) * unat (spt d) + unat (cur_sector h)) * 128"
    have "off + 128 \<le> sizes (images h) (h_ino p)" unfolding size off_def
      using False by (intro record_inside) (simp_all add: not_le word_less_nat_alt)
    then have "sizes f = sizes (images h)" if "fwrite (images h) p off (peeks (cmem cpu) (cur_dma h) 128) = (n, f)" for n f
      using fwrite_sizes [OF _ that] by simp
    note w = this
    show ?thesis
    proof (cases "wr \<and> \<not> readonly d \<and> fseek_ok (images h) p")
      case True
      obtain n f where fw: "fwrite (images h) p off (peeks (cmem cpu) (cur_dma h) 128) = (n, f)" by (metis surj_pair)
      have "host (snd (disk_io cpu wr)) = h\<lparr>images := f\<rparr>" using False True fp fw
        unfolding disk_io_def Let_def h_def [symmetric] d_def [symmetric] off_def [symmetric] by simp
      with w [OF fw] show ?thesis unfolding h_def by blast
    next
      case no: False
      have "host (snd (disk_io cpu wr)) = h\<lparr>images := images h\<rparr>" using False no fp
        by (auto simp: disk_io_def Let_def h_def [symmetric] d_def [symmetric] off_def [symmetric] split: option.split prod.split)
      then show ?thesis unfolding h_def by blast
    qed
  qed
qed

lemma native_okI:
  assumes "native_ok h" "sizes (images h') = sizes (images h)" "drives h' = drives h" "length (latch h') = length (latch h)"
    "cur_drive h' = cur_drive h" "sys_image h' = sys_image h" "sys_len h' = sys_len h" "sys_base h' = sys_base h"
  shows "native_ok h'"
  using assms drive_ok_sizes [OF assms(2)] by (cases "sys_image h") (simp_all add: native_ok_def list_all_iff)

lemma drive_update_ok: "native_ok h \<Longrightarrow> drive_ok (images h) d \<Longrightarrow> native_ok (h\<lparr>drives := (drives h) [i := d]\<rparr>)"
  by (cases "sys_image h") (auto simp: native_ok_def list_all_iff dest: set_update_subset_insert [THEN subsetD])

lemma mount_ok: "native_ok h \<Longrightarrow> native_ok (snd (cpm_host_mount drive path h))"
  by (auto simp: cpm_host_mount_def Let_def stat_def image_format_def fopen_rw_def fopen_r_def drive_ok_def
      intro!: drive_update_ok split: option.split if_splits)

lemma key_port_ok: "native_ok (host cpu) \<Longrightarrow> native_ok (host (snd (key_port f cpu))) \<and> images (host (snd (key_port f cpu))) = images (host cpu)"
  by (auto simp: key_port_def process_exit_def intro: native_okI split: option.split prod.split)

lemma reload_host: "host (reload_system cpu) = host cpu"
  by (simp add: reload_system_def Let_def split: option.split)

lemma conout_list: "list_fp (cpm_conout ch s) = list_fp s"
  by (simp add: cpm_conout_def Let_def split: option.split)

text \<open>C35: The native ports keep the drive table in order and every mounted image at its size: whatever port the guest
  reads or writes with whatever value, each image still has exactly tracks times sectors records, the latch
  256 bytes, the selected drive is in range, and the saved system fits in memory; and no
  disk image file changes its length.  The only other file the ports write, the \<open>--list\<close>
  file, grows by exactly the byte that is written to port \<open>E2\<close>.\<close>

theorem native_ports_keep_images:
  assumes "native_ok (host cpu)"
  shows "native_ok (host (snd (host_in cpu port high))) \<and> native_ok (host (host_out cpu port high val)) \<and>
    sizes (images (host (snd (host_in cpu port high)))) = sizes (images (host cpu)) \<and>
    sizes (images (host (host_out cpu port high val))) = sizes (images (host cpu)) \<and>
    list_fp (terminal (host (host_out cpu port high val))) =
      (if port = 0xE2 then map_option (\<lambda>bs. bs @ [val]) (list_fp (terminal (host cpu))) else list_fp (terminal (host cpu)))"
proof (intro conjI)
  note key = key_port_ok [OF assms]
  show "native_ok (host (snd (host_in cpu port high)))" "sizes (images (host (snd (host_in cpu port high)))) = sizes (images (host cpu))"
    using assms key by (simp_all add: host_in_def)
  define cpu0 where "cpu0 = on_native (\<lambda>h. h\<lparr>latch := (latch h) [unat port := val]\<rparr>) cpu"
  have ok0: "native_ok (host cpu0)" using assms by (auto simp: cpu0_def intro: native_okI)
  have im: "images (host cpu0) = images (host cpu)" by (simp add: cpu0_def)
  obtain r c where io: "disk_io cpu0 (val = 1) = (r, c)" by (metis surj_pair)
  obtain f where f: "host c = (host cpu0)\<lparr>images := f\<rparr>" "sizes f = sizes (images (host cpu0))"
    using disk_io_host [OF ok0, of "val = 1"] io by auto
  have okc: "native_ok ((host c)\<lparr>last_result := r\<rparr>)" using ok0 f by (auto intro: native_okI)
  have fields: "native_ok ((host cpu0)\<lparr>terminal := s\<rparr>)" "native_ok ((host cpu0)\<lparr>cur_track := w\<rparr>)" "native_ok ((host cpu0)\<lparr>cur_sector := w\<rparr>)"
    "native_ok ((host cpu0)\<lparr>cur_dma := w\<rparr>)" "native_ok ((host cpu0)\<lparr>exited := b\<rparr>)" for s w b
    using ok0 by (auto intro: native_okI)
  have drive: "native_ok ((host cpu0)\<lparr>cur_drive := if unat val < 16 then int (unat val) else -1\<rparr>)"
    using ok0 by (cases "sys_image (host cpu0)") (simp_all add: native_ok_def del: of_nat_unat)
  show "native_ok (host (host_out cpu port high val))"
    unfolding host_out_def Let_def cpu0_def [symmetric] io
    using ok0 okc fields drive by (simp add: reload_host process_exit_def)
  show "sizes (images (host (host_out cpu port high val))) = sizes (images (host cpu))"
    unfolding host_out_def Let_def cpu0_def [symmetric] io
    using f im by (simp add: reload_host process_exit_def)
  show "list_fp (terminal (host (host_out cpu port high val))) =
      (if port = 0xE2 then map_option (\<lambda>bs. bs @ [val]) (list_fp (terminal (host cpu))) else list_fp (terminal (host cpu)))"
    unfolding host_out_def Let_def cpu0_def [symmetric] io
    using f by (simp add: reload_host process_exit_def cpu0_def cpm_list_out_def conout_list)
qed

text \<open>C8: Running a native CP/M system with the translator attached, whatever the guest's BDOS, BIOS and
  programs store, read from disk or reload, never leaves a cached block whose bytes have changed since it was
  translated, among the blocks that end below the top of memory.\<close>

theorem native_no_stale_block:
  assumes "cdbt cpu = Some dbt" "dbt_reach (cmem cpu) dbt snap"
    and "cdbt (z80_steps native_env n cpu) = Some dbt'" "covers dbt' pc a" "fits dbt' pc"
  shows "cmem (z80_steps native_env n cpu) a = snap pc a"
proof -
  have "smc_ok snap (z80_steps native_env n cpu)"
    using assms(1,2) native_keeps by (intro smc.P_steps) (simp_all add: smc_ok_def)
  then show ?thesis using smc_no_stale assms(3-5) unfolding no_stale_def by blast
qed

section \<open>An image is an array of records\<close>

definition image_rd :: "nat \<Rightarrow> bytes \<Rightarrow> u16 \<times> u16 \<Rightarrow> bytes" where
  "image_rd sp img ts = file_rd img (unat (fst ts) * sp + unat (snd ts))"

definition image_wr :: "nat \<Rightarrow> bytes \<Rightarrow> u16 \<times> u16 \<Rightarrow> bytes \<Rightarrow> bytes" where
  "image_wr sp img ts bs = file_wr img (unat (fst ts) * sp + unat (snd ts)) bs"

lemma record_number_eq:
  assumes "(s :: nat) < sp" "s' < sp"
  shows "t * sp + s = t' * sp + s' \<longleftrightarrow> t = t' \<and> s = s'"
proof
  assume e: "t * sp + s = t' * sp + s'"
  have "(t * sp + s) div sp = t" "(t' * sp + s') div sp = t'" using assms by simp_all
  with e show "t = t' \<and> s = s'" by simp
qed simp

interpretation im: record_device "image_rd sp" "image_wr sp" "\<lambda>ts. unat (snd ts) < sp" for sp
proof
  fix r r' :: "u16 \<times> u16" and bs d :: bytes
  assume "unat (snd r) < sp" "unat (snd r') < sp" "length bs = (128 :: nat)"
  then show "image_rd sp (image_wr sp d r bs) r' = (if r' = r then bs else image_rd sp d r')"
    by (auto simp: image_rd_def image_wr_def hf.rd_wr record_number_eq prod_eq_iff word_unat_eq_iff)
qed

lemma bit_byte_masks: "bit (0xFF00 :: u16) n \<longleftrightarrow> 8 \<le> n \<and> n < 16" "bit (0x00FF :: u16) n \<longleftrightarrow> n < 8"
proof -
  have e: "(0xFF00 :: u16) = push_bit 8 (mask 8)" "(0x00FF :: u16) = mask 8" by (simp_all add: mask_eq_exp_minus_1)
  show "bit (0xFF00 :: u16) n \<longleftrightarrow> 8 \<le> n \<and> n < 16" unfolding e(1) bit_push_bit_iff bit_mask_iff by auto
  show "bit (0x00FF :: u16) n \<longleftrightarrow> n < 8" unfolding e(2) bit_mask_iff by auto
qed

lemma bit_and_bytes: "bit (w AND 0xFF00 :: u16) n \<longleftrightarrow> bit w n \<and> 8 \<le> n \<and> n < 16" "bit (w AND 0x00FF :: u16) n \<longleftrightarrow> bit w n \<and> n < 8"
  by (simp_all only: bit_and_iff bit_byte_masks)

lemma set_lo_hi: "set_lo w v = mk16 (hi8 w) v" "set_hi w v = mk16 v (lo8 w)"
proof -
  show "set_lo w v = mk16 (hi8 w) v"
  proof (rule bit_word_eqI)
    fix n assume "n < LENGTH(16)"
    then show "bit (set_lo w v) n = bit (mk16 (hi8 w) v) n"
      unfolding set_lo_def bit_or_iff bit_and_bytes by (cases "n < 8") (auto simp: mk16_def hi8_def bit_simps)
  qed
  show "set_hi w v = mk16 v (lo8 w)"
  proof (rule bit_word_eqI)
    fix n assume "n < LENGTH(16)"
    then show "bit (set_hi w v) n = bit (mk16 v (lo8 w)) n"
      unfolding set_hi_def bit_or_iff bit_and_bytes by (cases "n < 8") (auto simp: mk16_def lo8_def bit_simps)
  qed
qed

text \<open>The guest's BIOS: program the drive, track, sector and DMA ports, then give the command.\<close>

definition seek_cmd :: "u8 \<Rightarrow> u16 \<times> u16 \<Rightarrow> u16 \<Rightarrow> native z80_cpu \<Rightarrow> native z80_cpu" where
  "seek_cmd dr ts dma cpu = fold (\<lambda>(p, v) cpu. host_out cpu p 0 v)
     [(0xE8, dr), (0xE9, lo8 (fst ts)), (0xEA, hi8 (fst ts)), (0xEB, lo8 (snd ts)), (0xEC, hi8 (snd ts)), (0xED, lo8 dma), (0xEE, hi8 dma)] cpu"

definition disk_cmd :: "u8 \<Rightarrow> u8 \<Rightarrow> (u16 \<times> u16) \<times> u16 \<Rightarrow> native z80_cpu \<Rightarrow> native z80_cpu" where
  "disk_cmd dr c r cpu = host_out (seek_cmd dr (fst r) (snd r) cpu) 0xEF 0 c"

definition seeked :: "u8 \<Rightarrow> u16 \<times> u16 \<Rightarrow> u16 \<Rightarrow> native \<Rightarrow> native \<Rightarrow> bool" where
  "seeked dr ts dma h' h \<longleftrightarrow> cur_drive h' = int (unat dr) \<and> cur_track h' = fst ts \<and> cur_sector h' = snd ts \<and> cur_dma h' = dma \<and>
     images h' = images h \<and> drives h' = drives h"

lemma seek_seeked:
  assumes "unat dr < 16"
  shows "seeked dr ts dma (host (seek_cmd dr ts dma cpu)) (host cpu)" "cmem (seek_cmd dr ts dma cpu) = cmem cpu"
  using assms by (simp_all add: seeked_def seek_cmd_def host_out_def Let_def set_lo_hi)

text \<open>Drive \<open>dr\<close> has a writable image with bytes \<open>img\<close>, \<open>sp\<close> records per track and \<open>tr\<close> tracks.\<close>

definition mounted :: "u8 \<Rightarrow> handle \<Rightarrow> nat \<Rightarrow> nat \<Rightarrow> bytes \<Rightarrow> native \<Rightarrow> bool" where
  "mounted dr p tr sp img h \<longleftrightarrow> unat dr < 16 \<and> drive_fp (drives h ! unat dr) = Some p \<and> h_write p \<and> \<not> readonly (drives h ! unat dr) \<and>
     unat (tracks (drives h ! unat dr)) = tr \<and> unat (spt (drives h ! unat dr)) = sp \<and>
     regular (inodes (images h) (h_ino p)) \<and> fdata (inodes (images h) (h_ino p)) = img \<and> length img = tr * sp * 128"

definition on_image :: "nat \<Rightarrow> nat \<Rightarrow> u16 \<times> u16 \<Rightarrow> bool" where
  "on_image tr sp ts \<longleftrightarrow> unat (fst ts) < tr \<and> unat (snd ts) < sp"

lemma mounted_seek: "mounted dr p tr sp img h \<Longrightarrow> seeked dr ts dma h' h \<Longrightarrow> mounted dr p tr sp img h'"
  by (simp add: mounted_def seeked_def)

lemma write_cmd:
  assumes m: "mounted dr p tr sp img (host cpu)" and ts: "on_image tr sp ts"
  shows "mounted dr p tr sp (image_wr sp img ts (peeks (cmem cpu) dma 128)) (host (disk_cmd dr 1 (ts, dma) cpu))"
    "cmem (disk_cmd dr 1 (ts, dma) cpu) = cmem cpu" "last_result (host (disk_cmd dr 1 (ts, dma) cpu)) = 0"
proof -
  define c where "c = on_native (\<lambda>h. h\<lparr>latch := (latch h) [unat (0xEF :: u8) := 1]\<rparr>) (seek_cmd dr ts dma cpu)"
  have dr: "unat dr < 16" using m by (simp add: mounted_def)
  then have du: "uint dr < 16" using of_nat_less_iff [of "unat dr" 16, where 'a = int] by simp
  have sk: "seeked dr ts dma (host c) (host cpu)" "cmem c = cmem cpu"
    using seek_seeked [OF dr, of ts dma cpu] by (simp_all add: c_def seeked_def)
  note mc = mounted_seek [OF m sk(1)]
  let ?bs = "peeks (cmem cpu) dma 128" and ?i = "h_ino p" and ?f = "images (host c)"
  have r: "(unat (fst ts) * sp + unat (snd ts)) * 128 + 128 \<le> length img"
    using record_inside [of "unat (fst ts)" tr "unat (snd ts)" sp] ts mc by (simp add: on_image_def mounted_def)
  have io: "disk_io c True = (0, c\<lparr>host := (host c)\<lparr>images :=
      ?f\<lparr>inodes := (inodes ?f) (?i := (inodes ?f ?i)\<lparr>fdata := image_wr sp img ts ?bs\<rparr>)\<rparr>\<rparr>\<rparr>)"
    using mc sk ts du
    by (simp add: disk_io_def Let_def mounted_def seeked_def on_image_def fwrite_def fseek_ok_def not_le word_le_nat_alt
        image_wr_def file_wr_def)
  have cmd: "disk_cmd dr 1 (ts, dma) cpu = on_native (\<lambda>h. h\<lparr>last_result := 0\<rparr>) (snd (disk_io c True))"
    unfolding disk_cmd_def host_out_def Let_def fst_conv snd_conv c_def [symmetric] by (simp add: io)
  have "length (image_wr sp img ts ?bs) = length img" using r by (simp add: image_wr_def file_wr_def length_splice)
  then show "mounted dr p tr sp (image_wr sp img ts ?bs) (host (disk_cmd dr 1 (ts, dma) cpu))"
    "cmem (disk_cmd dr 1 (ts, dma) cpu) = cmem cpu" "last_result (host (disk_cmd dr 1 (ts, dma) cpu)) = 0"
    unfolding cmd io using mc sk by (simp_all add: mounted_def)
qed

lemma read_cmd:
  assumes m: "mounted dr p tr sp img (host cpu)" and ts: "on_image tr sp ts"
  shows "peeks (cmem (disk_cmd dr 0 (ts, dma) cpu)) dma 128 = image_rd sp img ts" "last_result (host (disk_cmd dr 0 (ts, dma) cpu)) = 0"
proof -
  define c where "c = on_native (\<lambda>h. h\<lparr>latch := (latch h) [unat (0xEF :: u8) := 0]\<rparr>) (seek_cmd dr ts dma cpu)"
  have dr: "unat dr < 16" using m by (simp add: mounted_def)
  then have du: "uint dr < 16" using of_nat_less_iff [of "unat dr" 16, where 'a = int] by simp
  have sk: "seeked dr ts dma (host c) (host cpu)" "cmem c = cmem cpu"
    using seek_seeked [OF dr, of ts dma cpu] by (simp_all add: c_def seeked_def)
  note mc = mounted_seek [OF m sk(1)]
  let ?r = "unat (fst ts) * sp + unat (snd ts)"
  have r: "?r * 128 + 128 \<le> length img"
    using record_inside [of "unat (fst ts)" tr "unat (snd ts)" sp] ts mc by (simp add: on_image_def mounted_def)
  then have rd: "take 128 (drop (?r * 128) img) = image_rd sp img ts"
    by (intro nth_equalityI) (simp_all add: image_rd_def file_rd_def)
  then have len: "length (take 128 (drop (?r * 128) img)) = 128" by (simp add: image_rd_def)
  have "fread (images (host c)) p (?r * 128) 128 = image_rd sp img ts" "length (image_rd sp img ts) = 128"
    using mc rd by (simp_all add: fread_def mounted_def image_rd_def)
  then have io: "disk_io c False = (0, z80_mem_host_wrote (pokes c dma (image_rd sp img ts)) dma 128)"
    using mc sk ts du by (simp add: disk_io_def Let_def mounted_def seeked_def on_image_def fseek_ok_def not_le word_le_nat_alt)
  have cmd: "disk_cmd dr 0 (ts, dma) cpu = on_native (\<lambda>h. h\<lparr>last_result := 0\<rparr>) (snd (disk_io c False))"
    unfolding disk_cmd_def host_out_def Let_def fst_conv snd_conv c_def [symmetric] by (simp add: io)
  show "peeks (cmem (disk_cmd dr 0 (ts, dma) cpu)) dma 128 = image_rd sp img ts" "last_result (host (disk_cmd dr 0 (ts, dma) cpu)) = 0"
    unfolding cmd io by (simp_all add: peeks_pokes image_rd_def)
qed

lemma write_cmds:
  assumes "mounted dr p tr sp img (host cpu)" "\<forall>r \<in> set rs. on_image tr sp (fst r)"
  shows "mounted dr p tr sp (im.wr_all sp (map (\<lambda>r. (fst r, peeks (cmem cpu) (snd r) 128)) rs) img) (host (fold (disk_cmd dr 1) rs cpu)) \<and>
    cmem (fold (disk_cmd dr 1) rs cpu) = cmem cpu"
  using assms
proof (induction rs arbitrary: cpu img)
  case Nil
  then show ?case by (simp add: im.wr_all_def)
next
  case (Cons r rs)
  have r: "on_image tr sp (fst r)" "(fst r, snd r) = r" using Cons.prems(2) by simp_all
  note w = write_cmd [OF Cons.prems(1) r(1), of "snd r", unfolded r(2)]
  show ?case using Cons.IH [OF w(1)] Cons.prems(2) w(2) by (simp add: im.wr_all_def)
qed

text \<open>C11: A mounted image behaves as an array of records.  After any series of writes through the drive, track, sector, DMA and
  command ports, reading a record gives the 128 bytes of the last write to that track and
  sector, or what the image held before if there was none; every command reports success.\<close>

theorem image_refines_records:
  assumes "mounted dr p tr sp img (host cpu)" "\<forall>r \<in> set rs. on_image tr sp (fst r)" "on_image tr sp ts"
  shows "peeks (cmem (disk_cmd dr 0 (ts, dma) (fold (disk_cmd dr 1) rs cpu))) dma 128 =
      (case map_of (rev (map (\<lambda>r. (fst r, peeks (cmem cpu) (snd r) 128)) rs)) ts of None \<Rightarrow> image_rd sp img ts | Some bs \<Rightarrow> bs) \<and>
    last_result (host (disk_cmd dr 0 (ts, dma) (fold (disk_cmd dr 1) rs cpu))) = 0"
proof -
  note w = write_cmds [OF assms(1,2)]
  have "image_rd sp (im.wr_all sp (map (\<lambda>r. (fst r, peeks (cmem cpu) (snd r) 128)) rs) img) ts =
      (case map_of (rev (map (\<lambda>r. (fst r, peeks (cmem cpu) (snd r) 128)) rs)) ts of None \<Rightarrow> image_rd sp img ts | Some bs \<Rightarrow> bs)"
    using assms(2,3) by (intro im.rd_wr_all) (auto simp: on_image_def)
  with read_cmd [OF conjunct1 [OF w] assms(3), of dma] show ?thesis by simp
qed

section \<open>Warm boot\<close>

lemma boot_system:
  assumes "cpm_host_boot cpu (Some f) = (0, cpu')"
  shows "0x1633 \<le> length f" "sys_image (host cpu') = Some (take 0x2400 f)" "unat (sys_len (host cpu')) = min 0x2400 (length f)"
    "sys_base (host cpu') = 0xDC00"
proof -
  define n where "n = length (take 0x10000 f)"
  define m where "m = (if 0xDC00 + n > 0x10000 then 0x10000 - 0xDC00 else n)"
  have len: "\<not> n < 0x1600 + 51" and cpu': "host cpu' = cpm_host_set_system (take 0x10000 f) (of_nat m) 0xDC00 (host cpu)"
    using assms unfolding cpm_host_boot_def Let_def option.case n_def [symmetric] m_def [symmetric]
    by (auto simp: on_native_def split: if_splits)
  have m: "m = min 0x2400 n" by (auto simp: m_def)
  have "unat (of_nat m :: u32) = m" by (simp add: unsigned_of_nat take_bit_nat_eq_self m)
  moreover have "take m (take 0x10000 f) = take 0x2400 f" "m = min 0x2400 (length f)" by (simp_all add: m n_def min_def)
  ultimately show "0x1633 \<le> length f" "sys_image (host cpu') = Some (take 0x2400 f)"
    "unat (sys_len (host cpu')) = min 0x2400 (length f)" "sys_base (host cpu') = 0xDC00"
    using len unfolding cpu' cpm_host_set_system_def by (simp_all add: n_def)
qed

text \<open>C34: Warm boot puts the system back: once a system image has been booted, writing 0 to port E5 restores the CCP and the
  BDOS (0xDC00 to 0xF1FF) byte for byte from the image, whatever the guest did to them, and leaves the
  BIOS and all other memory alone.\<close>

theorem warm_boot_restores:
  assumes "cpm_host_boot cpu (Some f) = (0, booted)" "sys_image (host cpu') = sys_image (host booted)"
    and "sys_len (host cpu') = sys_len (host booted)" "sys_base (host cpu') = sys_base (host booted)"
  shows "cmem (host_out cpu' 0xE5 high 0) =
    (\<lambda>a. if 0xDC00 \<le> unat a \<and> unat a < 0xF200 then f ! (unat a - 0xDC00) else cmem cpu' a)"
proof
  fix a
  note b = boot_system [OF assms(1)]
  define c where "c = on_native (\<lambda>h. h\<lparr>latch := (latch h) [unat (0xE5 :: u8) := 0]\<rparr>) cpu'"
  have c: "cmem c = cmem cpu'" "sys_image (host c) = Some (take 0x2400 f)" "unat (sys_len (host c)) = min 0x2400 (length f)"
    "sys_base (host c) = 0xDC00"
    using assms b by (simp_all add: c_def)
  have "\<not> (0x1600 :: u32) > sys_len (host c)" using b(1) c(3) by (simp add: word_less_nat_alt)
  then have "cmem (host_out cpu' 0xE5 high 0) = cmem (pokes c 0xDC00 (take 0x1600 (take 0x2400 f)))"
    unfolding host_out_def Let_def c_def [symmetric] by (simp add: reload_system_def c)
  moreover have "take 0x1600 (take 0x2400 f) = take 0x1600 f" "length (take 0x1600 f) = 0x1600" using b(1) by simp_all
  ultimately show "cmem (host_out cpu' 0xE5 high 0) a = (if 0xDC00 \<le> unat a \<and> unat a < 0xF200 then f ! (unat a - 0xDC00) else cmem cpu' a)"
    using c(1) by (auto simp: cmem_pokes_at)
qed

section \<open>A machine with a floppy in drive A\<close>

definition demo_native :: native where
  "demo_native = \<lparr>terminal = demo_shim,
     images = demo_fs\<lparr>inodes := \<lambda>_. \<lparr>fdata = replicate 409600 0xE5, fmode = 0x1A4, regular = True\<rparr>\<rparr>,
     drives = (replicate 16 \<lparr>drive_fp = None, drive_path = None, drive_type = 0, spt = 0, tracks = 0, readonly = False\<rparr>),
     cur_drive = -1, cur_track = 0, cur_sector = 0, cur_dma = 0, last_result = 0, latch = replicate 256 0xFF,
     sys_image = None, sys_len = 0, sys_base = 0, exited = False\<rparr>"

definition demo_mounted :: native where
  "demo_mounted = snd (cpm_host_mount 0 [0x41, 0x2E, 0x54] demo_native)"

definition demo_ncpu :: "native z80_cpu" where
  "demo_ncpu = (z80_cpu_init None demo_mounted)\<lparr>cdbt := Some demo_block\<rparr>"

lemma demo_mounted_eq: "demo_mounted = demo_native\<lparr>drives := (drives demo_native) [0 :=
   \<lparr>drive_fp = Some \<lparr>h_ino = 0, h_write = True\<rparr>, drive_path = Some [0x41, 0x2E, 0x54], drive_type = 1, spt = 40, tracks = 80, readonly = False\<rparr>]\<rparr>"
  by (simp add: demo_mounted_def cpm_host_mount_def demo_native_def demo_fs_def stat_def stat_ino_def image_format_def fopen_rw_def may_def)

lemma demo_host: "host demo_ncpu = demo_mounted" "cmem demo_ncpu = (\<lambda>_. 0)"
  by (simp_all add: demo_ncpu_def z80_cpu_init_def zero_cpu_def)

lemma demo_image: "mounted 0 \<lparr>h_ino = 0, h_write = True\<rparr> 80 40 (replicate 409600 0xE5) demo_mounted"
  by (simp add: mounted_def demo_mounted_eq demo_native_def)

theorem native_ports_keep_images_witness:
  "native_ok (host (snd (host_in demo_ncpu 0xEF 0))) \<and> native_ok (host (host_out demo_ncpu 0xEF 0 1)) \<and>
    sizes (images (host (snd (host_in demo_ncpu 0xEF 0)))) = sizes (images (host demo_ncpu)) \<and>
    sizes (images (host (host_out demo_ncpu 0xEF 0 1))) = sizes (images (host demo_ncpu)) \<and>
    list_fp (terminal (host (host_out demo_ncpu 0xEF 0 1))) =
      (if (0xEF :: u8) = 0xE2 then map_option (\<lambda>bs. bs @ [1]) (list_fp (terminal (host demo_ncpu))) else list_fp (terminal (host demo_ncpu)))"
proof (rule native_ports_keep_images)
  show "native_ok (host demo_ncpu)"
    unfolding demo_host by (auto simp: native_ok_def demo_mounted_eq demo_native_def drive_ok_def list_all_length nth_list_update)
qed

theorem image_refines_records_witness:
  "peeks (cmem (disk_cmd 0 0 ((3, 7), 0x8000) (fold (disk_cmd 0 1) [((3, 7), 0x4000)] demo_ncpu))) 0x8000 128 =
      (case map_of (rev (map (\<lambda>r. (fst r, peeks (cmem demo_ncpu) (snd r) 128)) [((3 :: u16, 7 :: u16), 0x4000)])) (3, 7) of
         None \<Rightarrow> image_rd 40 (replicate 409600 0xE5) (3, 7) | Some bs \<Rightarrow> bs) \<and>
    last_result (host (disk_cmd 0 0 ((3, 7), 0x8000) (fold (disk_cmd 0 1) [((3, 7), 0x4000)] demo_ncpu))) = 0"
  by (rule image_refines_records [where p = "\<lparr>h_ino = 0, h_write = True\<rparr>" and tr = 80])
    (simp_all only: demo_host demo_image, simp_all add: on_image_def)

text \<open>The program \<open>OUT (0xEF),A\<close> with \<open>A = 0\<close>, a disk read: drive A is selected, the DMA address is \<open>0x300\<close>, and a block
  is cached at \<open>0x100\<close>.\<close>

definition read_mem :: memory where
  "read_mem = (\<lambda>_. 0) (0 := 0xD3, 1 := 0xEF)"

definition read_ncpu :: "native z80_cpu" where
  "read_ncpu = (z80_cpu_init None (demo_mounted\<lparr>cur_drive := 0, cur_dma := 0x300\<rparr>))\<lparr>cmem := read_mem, cdbt := Some demo_block\<rparr>"

definition read_snap :: "u16 \<Rightarrow> memory" where
  "read_snap = (\<lambda>_ _. 7) (0x100 := read_mem)"

lemma read_reach: "dbt_reach read_mem demo_block read_snap"
  unfolding demo_block_def read_snap_def by (intro dbt_reach.intros) simp

lemma read_step:
  assumes "cmem cpu = read_mem" "profile_counts cpu = None" "reg_pc cpu = 0" "reg_a cpu = 0"
  shows "\<exists>cpu1. host cpu1 = host cpu \<and> cmem cpu1 = cmem cpu \<and> cdbt cpu1 = cdbt cpu \<and>
    cmem (snd (z80_step native_env cpu)) = cmem (host_out cpu1 0xEF 0 0) \<and>
    cdbt (snd (z80_step native_env cpu)) = cdbt (host_out cpu1 0xEF 0 0)"
  using assms
  by (intro exI [of _ "cpu\<lparr>profile_counts := None, reg_pc := 2, reg_q := 0\<rparr>"])
    (simp add: read_mem_def z80_step_def z80_decode_one_eq prefix_count_none is_prefix_def decode_tail_def
      after_prefixes_def decode_plain_def decode_main_def decode_C0_FF_def remap_half_regs_def zero_decoded_def
      fetch_imm8_def op_out_n_a_def io_out_def native_env_def Let_def)

lemma notify_unmarked:
  "(\<And>i. i \<in> set xs \<Longrightarrow> code_bitmap dbt (a + of_nat i) = 0) \<Longrightarrow> fold (\<lambda>i d. dbt_note_store d (a + of_nat i)) xs dbt = dbt"
  by (induction xs) (simp_all add: dbt_note_store_def)

lemma demo_bitmap: "code_bitmap demo_block x = (if 0x100 \<le> unat x \<and> unat x < 0x103 then 1 else 0)"
  by (simp add: demo_block_def dbt_commit_block_def mark_bitmap) (simp add: dbt_cache_invalidate_all_def)

lemma read_port:
  assumes "host cpu = demo_mounted\<lparr>cur_drive := 0, cur_dma := 0x300\<rparr>" "cdbt cpu = Some demo_block"
  shows "peeks (cmem (host_out cpu 0xEF 0 0)) 0x300 128 = replicate 128 0xE5" "cdbt (host_out cpu 0xEF 0 0) = Some demo_block"
proof -
  define c where "c = on_native (\<lambda>h. h\<lparr>latch := (latch h) [unat (0xEF :: u8) := 0]\<rparr>) cpu"
  have "disk_io c False = (0, z80_mem_host_wrote (pokes c 0x300 (replicate 128 0xE5)) 0x300 128)"
    by (simp add: c_def assms disk_io_def Let_def demo_mounted_eq demo_native_def fseek_ok_def fread_def)
  then have cmd: "host_out cpu 0xEF 0 0 = on_native (\<lambda>h. h\<lparr>last_result := 0\<rparr>)
      (z80_mem_host_wrote (pokes c 0x300 (replicate 128 0xE5)) 0x300 128)"
    unfolding host_out_def Let_def c_def [symmetric] by simp
  show "peeks (cmem (host_out cpu 0xEF 0 0)) 0x300 128 = replicate 128 0xE5"
    unfolding cmd by (simp add: peeks_pokes)
  have "fold (\<lambda>i d. dbt_note_store d (0x300 + of_nat i)) [0..<128] demo_block = demo_block"
    by (rule notify_unmarked) (simp add: demo_bitmap unat_word_ariths unat_of_nat_u16)
  then show "cdbt (host_out cpu 0xEF 0 0) = Some demo_block"
    unfolding cmd by (simp add: z80_mem_host_wrote_def fold_notify c_def assms)
qed

theorem native_no_stale_block_witness:
  "peeks (cmem (z80_steps native_env 1 read_ncpu)) 0x300 128 = replicate 128 0xE5 \<and>
   cmem (z80_steps native_env 1 read_ncpu) 0x101 = read_snap 0x100 0x101"
proof
  have cpu: "cmem read_ncpu = read_mem" "profile_counts read_ncpu = None" "reg_pc read_ncpu = 0" "reg_a read_ncpu = 0"
    "host read_ncpu = demo_mounted\<lparr>cur_drive := 0, cur_dma := 0x300\<rparr>" "cdbt read_ncpu = Some demo_block"
    by (simp_all add: read_ncpu_def z80_cpu_init_def zero_cpu_def)
  obtain cpu1 where c1: "host cpu1 = host read_ncpu" "cdbt cpu1 = cdbt read_ncpu"
    "cmem (snd (z80_step native_env read_ncpu)) = cmem (host_out cpu1 0xEF 0 0)"
    "cdbt (snd (z80_step native_env read_ncpu)) = cdbt (host_out cpu1 0xEF 0 0)"
    using read_step [OF cpu(1-4)] by blast
  note r = read_port [of cpu1, unfolded c1 cpu, OF refl refl]
  show "peeks (cmem (z80_steps native_env 1 read_ncpu)) 0x300 128 = replicate 128 0xE5" using r(1) c1(3) by simp
  show "cmem (z80_steps native_env 1 read_ncpu) 0x101 = read_snap 0x100 0x101"
  proof (rule native_no_stale_block [OF cpu(6), where snap = read_snap and pc = "0x100" and a = "0x101" and dbt' = demo_block])
    show "dbt_reach (cmem read_ncpu) demo_block read_snap" using read_reach cpu(1) by simp
    show "cdbt (z80_steps native_env 1 read_ncpu) = Some demo_block" using r(2) c1(4) by simp
    show "covers demo_block 0x100 0x101" "fits demo_block 0x100" by (simp_all add: demo_covers demo_fits)
  qed
qed

theorem warm_boot_restores_witness:
  "cmem (host_out (snd (cpm_host_boot demo_ncpu (Some (replicate 0x2000 0x76)))) 0xE5 0 0) 0xE000 = 0x76"
proof -
  let ?f = "replicate 0x2000 (0x76 :: u8)"
  have "cpm_host_boot demo_ncpu (Some ?f) = (0, snd (cpm_host_boot demo_ncpu (Some ?f)))"
    by (simp add: cpm_host_boot_def Let_def)
  from warm_boot_restores [OF this refl refl refl, of 0] show ?thesis by simp
qed

end
