(* ===== verification/Kaypro_Script.thy ===== *)
theory Kaypro_Script
  imports Kaypro_Kbd
begin

text \<open>
  Reading a keyboard script (\<open>kaypro_kbd_script_load\<close> of \<open>kaypro/kaypro_kbd.c\<close>): the lines of the file, the directives
  after \<open>@\<close>, and the parts of the C library that take them apart (\<open>fgets\<close>, the conversions of \<open>sscanf\<close>, \<open>atol\<close>).  The
  file is its contents, None when it cannot be opened.  The directory of the script, which only placed dumps use, is left
  out.
\<close>

section \<open>The C library\<close>

definition is_space :: "u8 \<Rightarrow> bool" where
  "is_space c \<longleftrightarrow> c = 0x20 \<or> 0x09 \<le> c \<and> c \<le> 0x0D"

definition is_digit :: "u8 \<Rightarrow> bool" where
  "is_digit c \<longleftrightarrow> 0x30 \<le> c \<and> c \<le> 0x39"

text \<open>\<open>fgets\<close> into a buffer of \<open>n\<close> bytes: the bytes read and those left.\<close>

definition fgets :: "nat \<Rightarrow> bytes \<Rightarrow> (bytes \<times> bytes) option" where
  "fgets n s =
     (if s = [] then None
      else
        (let l = length (takeWhile (\<lambda>c. c \<noteq> 0x0A) s);
             m = min (if l < length s then l + 1 else l) (n - 1)
         in Some (take m s, drop m s)))"

text \<open>\<open>%ns\<close>: the word and what follows it.\<close>

definition scan_word :: "nat \<Rightarrow> bytes \<Rightarrow> bytes \<times> bytes" where
  "scan_word n s =
     (let s = dropWhile is_space s; w = take n (takeWhile (\<lambda>c. \<not> is_space c) s) in (w, drop (length w) s))"

text \<open>\<open>strtol\<close> saturates.\<close>

definition atol :: "bytes \<Rightarrow> int" where
  "atol s =
     (let s = dropWhile is_space s;
          (neg, s) = (case s of [] \<Rightarrow> (False, s) | c # cs \<Rightarrow> if c = 0x2D then (True, cs) else if c = 0x2B then (False, cs) else (False, s));
          v = foldl (\<lambda>n c. n * 10 + int (unat c - 48)) 0 (takeWhile is_digit s)
      in if neg then max (- (2 ^ 63)) (- v) else min (2 ^ 63 - 1) v)"

text \<open>\<open>%x\<close> into an unsigned int: the value and what follows, None when there is no number (a bare \<open>0x\<close> is none).
  The conversion is \<open>strtoul\<close>'s, which saturates at 64 bits, cut to 32.\<close>

definition scan_hex :: "bytes \<Rightarrow> (u32 \<times> bytes) option" where
  "scan_hex s =
     (let s = dropWhile is_space s;
          (neg, s) = (case s of [] \<Rightarrow> (False, s) | c # cs \<Rightarrow> if c = 0x2D then (True, cs) else if c = 0x2B then (False, cs) else (False, s));
          s = (case s of c # d # ds \<Rightarrow> if c = 0x30 \<and> (d = 0x78 \<or> d = 0x58) then ds else s | _ \<Rightarrow> s);
          ds = takeWhile (\<lambda>c. hexval c \<noteq> None) s;
          v = foldl (\<lambda>n c. n * 16 + unat (the (hexval c))) 0 ds
      in if ds = [] then None
         else Some (if v \<ge> 2 ^ 64 then - 1 else if neg then - of_nat v else of_nat v, drop (length ds) s))"

text \<open>\<open>strstr\<close> found something.\<close>

fun has_sub :: "bytes \<Rightarrow> bytes \<Rightarrow> bool" where
  "has_sub pat [] = (pat = [])"
| "has_sub pat (c # cs) = (take (length pat) (c # cs) = pat \<or> has_sub pat cs)"

section \<open>Lines\<close>

text \<open>The string in the line buffer, without the line end.\<close>

definition script_line :: "bytes \<Rightarrow> bytes" where
  "script_line l = rev (dropWhile (\<lambda>c. c = 0x0A \<or> c = 0x0D) (rev (takeWhile (\<lambda>c. c \<noteq> 0) l)))"

text \<open>\<open>sscanf(line + 1, "%31s %1023[^\n]", cmd, arg)\<close>\<close>

definition scan_directive :: "bytes \<Rightarrow> bytes \<times> bytes" where
  "scan_directive s =
     (let (cmd, r) = scan_word 31 s
      in if cmd = [] then ([], []) else (cmd, take 1023 (takeWhile (\<lambda>c. c \<noteq> 0x0A) (dropWhile is_space r))))"

definition dump_step :: "bytes \<Rightarrow> step" where
  "dump_step arg =
     (let path = takeWhile (\<lambda>c. c \<noteq> 0x20) arg; r = drop (length path) arg
      in ST_DUMP (if path = [] then asc ''-'' else path) (r \<noteq> [] \<and> has_sub (asc ''attrs'') (tl r)))"

definition mem_step :: "bytes \<Rightarrow> step" where
  "mem_step arg =
     (let (addr, len) =
        (case scan_hex arg of
           None \<Rightarrow> (0, 16)
         | Some (a, r) \<Rightarrow> (case scan_hex r of None \<Rightarrow> (a, 16) | Some (l, _) \<Rightarrow> (a, l)))
      in ST_MEM (uint ((addr AND 0xFFFF) OR push_bit 16 len :: u32)))"

text \<open>The step of a directive; None for an unknown one.\<close>

definition directive :: "bytes \<Rightarrow> bytes \<Rightarrow> step option" where
  "directive cmd arg =
     (if cmd = asc ''wait-idle'' then Some (ST_WAIT_IDLE (if arg \<noteq> [] then atol arg else KBD_WAIT_IDLE_DEFAULT))
      else if cmd = asc ''sleep'' then Some (ST_SLEEP (atol arg))
      else if cmd = asc ''pace'' then Some (ST_PACE (atol arg))
      else if cmd = asc ''dump'' then Some (dump_step arg)
      else if cmd = asc ''mem'' then Some (mem_step arg)
      else if cmd = asc ''end'' then Some ST_END
      else None)"

section \<open>The file\<close>

text \<open>The loop over the lines: the steps at its end, an unknown directive, \<open>exit(1)\<close> on a bad escape, or a store outside of
  \<open>parse_text\<close>'s buffer.\<close>

datatype loaded = Steps "step list" | Unknown "step list" | Bad_Escape | Past_Buffer

lemma fgets_shorter: "fgets 2048 s = Some (l, r) \<Longrightarrow> length r < length s"
  by (cases s) (auto simp: fgets_def Let_def)

function load_lines :: "bytes \<Rightarrow> step list \<Rightarrow> loaded" where
  "load_lines s ss =
     (case fgets 2048 s of
        None \<Rightarrow> Steps ss
      | Some (l, r) \<Rightarrow>
          (let line = script_line l
           in if take 1 line = asc ''#'' then load_lines r ss
              else if take 1 line = asc ''@'' then
                (let (cmd, arg) = scan_directive (tl line)
                 in case directive cmd arg of
                      None \<Rightarrow> Unknown ss
                    | Some s \<Rightarrow> if s = ST_END then Steps (ss @ [ST_END]) else load_lines r (ss @ [s]))
              else
                (case parse_text line [] [] of
                   None \<Rightarrow> Past_Buffer
                 | Some None \<Rightarrow> Bad_Escape
                 | Some (Some ls) \<Rightarrow> load_lines r (ss @ ls))))"
  by pat_completeness auto
termination
  by (relation "measure (\<lambda>(s, ss). length s)") (auto dest: fgets_shorter)

declare load_lines.simps [simp del]

text \<open>\<open>Refused\<close> is the return value -1; the steps read so far stay.\<close>

datatype script_result = Loaded kbd | Refused kbd | Exits | Overruns

definition kaypro_kbd_script_load :: "bytes option \<Rightarrow> kbd \<Rightarrow> script_result" where
  "kaypro_kbd_script_load file k =
     (case file of
        None \<Rightarrow> Refused k
      | Some s \<Rightarrow>
          (case load_lines s (steps k) of
             Steps ss \<Rightarrow> Loaded (k\<lparr>steps := ss @ [ST_END], cur_step := 0, scripted := True\<rparr>)
           | Unknown ss \<Rightarrow> Refused (k\<lparr>steps := ss\<rparr>)
           | Bad_Escape \<Rightarrow> Exits
           | Past_Buffer \<Rightarrow> Overruns))"

end
