(* ===== verification/Kaypro_Render.thy ===== *)
theory Kaypro_Render
  imports Kaypro_Video
begin

text \<open>
  The terminal renderer of the Kaypro screen (\<open>kaypro/kaypro_render_tty.c\<close>).  It keeps a copy of the cells it last
  painted and, on a flush, writes the escape sequences and characters that turn the one picture into the other.  The
  stream it writes to is the list of bytes each operation returns; the host terminal's size, as \<open>ioctl\<close> reports it,
  and the clock are arguments.  Strings end before their NUL; the cells of row \<open>r\<close> are the 80 from \<open>80 * r\<close> on.
\<close>

section \<open>State\<close>

type_synonym tty_bytes = "u8 list"

record tty =
  redirected :: bool
  tty_active :: bool
  shadow :: "kaypro_cell list"
  shadow_valid :: bool
  last_paint :: int
  hud_text :: tty_bytes
  hud_painted :: tty_bytes
  hud_dirty :: bool
  term_rows :: int
  term_cols :: int

text \<open>The file-scope variables at program start.\<close>

definition tty_start :: tty where
  "tty_start = \<lparr>redirected = False, tty_active = False, shadow = replicate 2000 \<lparr>cch = 0, cattr = 0\<rparr>, shadow_valid = False,
     last_paint = 0, hud_text = [], hud_painted = [], hud_dirty = False, term_rows = 24, term_cols = 80\<rparr>"

definition esc_str :: "string \<Rightarrow> tty_bytes" where
  "esc_str s = 0x1B # map of_char s"

section \<open>Size, HUD, start and end\<close>

definition set_size :: "int \<Rightarrow> int \<Rightarrow> tty \<Rightarrow> tty" where
  "set_size rows cols t = t\<lparr>term_rows := rows, term_cols := cols\<rparr>"

definition query_size :: "(int \<times> int) option \<Rightarrow> tty \<Rightarrow> tty" where
  "query_size ws t = (case ws of Some (r, c) \<Rightarrow> if r > 0 then t\<lparr>term_rows := r, term_cols := c\<rparr> else t | None \<Rightarrow> t)"

text \<open>The format \<open>%-80.80s\<close> cuts at 80 characters and fills up with blanks; a null pointer is None.\<close>

definition set_hud :: "tty_bytes option \<Rightarrow> tty \<Rightarrow> tty" where
  "set_hud text t =
     (let nxt = (case text of None \<Rightarrow> [] | Some s \<Rightarrow> if s = [] then [] else take 80 s @ replicate (80 - length s) 0x20)
      in if nxt \<noteq> hud_text t then t\<lparr>hud_text := nxt, hud_dirty := True\<rparr> else t)"

definition set_output :: "bool \<Rightarrow> tty \<Rightarrow> tty" where
  "set_output f t = t\<lparr>redirected := f\<rparr>"

definition invalidate :: "(int \<times> int) option \<Rightarrow> tty \<Rightarrow> tty" where
  "invalidate ws t =
     (let t = t\<lparr>shadow_valid := False, hud_dirty := True\<rparr> in if \<not> redirected t then query_size ws t else t)"

definition tty_init :: "(int \<times> int) option \<Rightarrow> int \<Rightarrow> tty \<Rightarrow> tty_bytes \<times> tty" where
  "tty_init ws now t =
     (let t = t\<lparr>shadow_valid := False, hud_painted := [], hud_dirty := True\<rparr>;
          t = (if \<not> redirected t then query_size ws t else t)
      in (esc_str ''[?1049h'' @ esc_str ''[0m'' @ esc_str ''[2J'' @ esc_str ''[H'' @ esc_str ''[?25l'',
          t\<lparr>last_paint := now, tty_active := True\<rparr>))"

definition tty_shutdown :: "tty \<Rightarrow> tty_bytes \<times> tty" where
  "tty_shutdown t =
     (if \<not> tty_active t then ([], t)
      else (esc_str ''[0m'' @ esc_str ''[?25h'' @ esc_str ''[?1049l'', t\<lparr>tty_active := False\<rparr>))"

section \<open>Characters and escape sequences\<close>

definition put_graphic :: "u8 \<Rightarrow> bool \<Rightarrow> tty_bytes" where
  "put_graphic g pixel7 =
     (let dots = (if pixel7 then 0x40 else 0) :: u32;
          dots = (if g AND 0x02 \<noteq> 0 then dots OR 0x01 else dots);
          dots = (if g AND 0x08 \<noteq> 0 then dots OR 0x02 else dots);
          dots = (if g AND 0x20 \<noteq> 0 then dots OR 0x04 else dots);
          dots = (if g AND 0x01 \<noteq> 0 then dots OR 0x08 else dots);
          dots = (if g AND 0x04 \<noteq> 0 then dots OR 0x10 else dots);
          dots = (if g AND 0x10 \<noteq> 0 then dots OR 0x20 else dots);
          dots = (if g AND 0x40 \<noteq> 0 then dots OR 0x80 else dots);
          cp = 0x2800 + dots
      in [ucast (0xE0 OR drop_bit 12 cp), ucast (0x80 OR (drop_bit 6 cp AND 0x3F)), ucast (0x80 OR (cp AND 0x3F))])"

definition put_cell_char :: "u8 \<Rightarrow> u8 \<Rightarrow> tty_bytes" where
  "put_cell_char ch a =
     (if ch AND 0x80 \<noteq> 0 then put_graphic ch (a AND KV_ATTR_PIXEL7 \<noteq> 0)
      else if ch \<ge> 0x20 \<and> ch < 0x7F then [ch] else [0x3F])"

definition emit_attr :: "u8 \<Rightarrow> tty_bytes" where
  "emit_attr a =
     (if a = 0 then esc_str ''[0m''
      else esc_str ''[0'' @
        (if a AND KV_ATTR_DIM \<noteq> 0 then [0x3B, 0x32] else []) @
        (if a AND KV_ATTR_UNDERLINE \<noteq> 0 then [0x3B, 0x34] else []) @
        (if a AND KV_ATTR_BLINK \<noteq> 0 then [0x3B, 0x35] else []) @
        (if a AND KV_ATTR_REVERSE \<noteq> 0 then [0x3B, 0x37] else []) @ [0x6D])"

text \<open>The conversion \<open>%d\<close>.\<close>

fun dec :: "nat \<Rightarrow> tty_bytes" where
  "dec n = (if n < 10 then [0x30 + of_nat n] else dec (n div 10) @ [0x30 + of_nat (n mod 10)])"

declare dec.simps [simp del]

definition dec_int :: "int \<Rightarrow> tty_bytes" where
  "dec_int i = (if i < 0 then 0x2D # dec (nat (- i)) else dec (nat i))"

definition emit_goto :: "int \<Rightarrow> int \<Rightarrow> tty_bytes" where
  "emit_goto r c = esc_str ''['' @ dec_int (r + 1) @ [0x3B] @ dec_int (c + 1) @ [0x48]"

section \<open>Painting a row\<close>

definition row_diff :: "bool \<Rightarrow> kaypro_cell list \<Rightarrow> kaypro_cell list \<Rightarrow> bool list" where
  "row_diff full row old =
     map (\<lambda>c. if full then \<not> (cch (row ! c) = 0x20 \<and> cattr (row ! c) = 0)
              else \<not> (cch (row ! c) = cch (old ! c) \<and> cattr (row ! c) = cattr (old ! c))) [0..<80]"

text \<open>\<open>last + 1\<close>: the loops run while \<open>c <= last\<close>, and \<open>last\<close> starts at -1.\<close>

definition row_stop :: "bool list \<Rightarrow> nat" where
  "row_stop d = fold (\<lambda>c l. if d ! c then c + 1 else l) [0..<80] 0"

text \<open>The length of the gap at \<open>c\<close>.\<close>

function gap :: "bool list \<Rightarrow> nat \<Rightarrow> nat \<Rightarrow> nat" where
  "gap d stop c = (if c < stop \<and> \<not> d ! c then 1 + gap d stop (c + 1) else 0)"
  by pat_completeness auto
termination by (relation "measure (\<lambda>(d, stop, c). stop - c)") auto

declare gap.simps [simp del]

text \<open>The inner loop writes cells from column \<open>c\<close> on, with attribute \<open>a\<close> set; it returns where it stopped.\<close>

function paint_run :: "bool list \<Rightarrow> kaypro_cell list \<Rightarrow> nat \<Rightarrow> nat \<Rightarrow> u8 \<Rightarrow> tty_bytes \<times> nat \<times> u8" where
  "paint_run d row stop c a =
     (if c < stop \<and> \<not> (\<not> d ! c \<and> gap d stop c > 6) then
        (let sgr = cattr (row ! c) AND NOT KV_ATTR_PIXEL7;
             (bs, c', a') = paint_run d row stop (c + 1) sgr
         in ((if sgr \<noteq> a then emit_attr sgr else []) @ put_cell_char (cch (row ! c)) (cattr (row ! c)) @ bs, c', a'))
      else ([], c, a))"
  by pat_completeness auto
termination by (relation "measure (\<lambda>(d, row, stop, c, a). stop - c)") auto

declare paint_run.simps [simp del]

lemma paint_run_mono: "c \<le> fst (snd (paint_run d row stop c a))"
proof (induction d row stop c a rule: paint_run.induct)
  case (1 d row stop c a)
  then show ?case by (subst paint_run.simps) (auto simp: Let_def split_def)
qed

lemma paint_run_progress:
  assumes "c < stop" "d ! c"
  shows "c < fst (snd (paint_run d row stop c a))"
  using assms paint_run_mono [of "c + 1" d row stop "cattr (row ! c) AND NOT KV_ATTR_PIXEL7"]
  by (subst paint_run.simps) (auto simp: Let_def split_def)

text \<open>The outer loop: skip to the next difference, move there, write a run.\<close>

function paint_row :: "nat \<Rightarrow> bool list \<Rightarrow> kaypro_cell list \<Rightarrow> nat \<Rightarrow> nat \<Rightarrow> u8 \<Rightarrow> tty_bytes \<times> u8" where
  "paint_row r d row stop c a =
     (if \<not> c < stop then ([], a)
      else if \<not> d ! c then paint_row r d row stop (c + 1) a
      else
        (let run = paint_run d row stop c a;
             rest = paint_row r d row stop (fst (snd run)) (snd (snd run))
         in (emit_goto (int r) (int c) @ fst run @ fst rest, snd rest)))"
  by pat_completeness auto
termination
  by (relation "measure (\<lambda>(r, d, row, stop, c, a). stop - c)") (auto simp: split_def intro!: diff_less_mono2 paint_run_progress)

declare paint_row.simps [simp del]

definition row_of :: "nat \<Rightarrow> kaypro_cell list \<Rightarrow> kaypro_cell list" where
  "row_of r cs = take 80 (drop (r * 80) cs)"

text \<open>The loop over the rows, with the attribute last set and the shadow.\<close>

fun paint_rows :: "bool \<Rightarrow> u32 \<Rightarrow> kaypro_cell list \<Rightarrow> nat list \<Rightarrow> u8 \<Rightarrow> kaypro_cell list \<Rightarrow> tty_bytes \<times> u8 \<times> kaypro_cell list" where
  "paint_rows full rows cs [] a sh = ([], a, sh)"
| "paint_rows full rows cs (r # rs) a sh =
     (if rows AND push_bit r 1 = 0 then paint_rows full rows cs rs a sh
      else
        (let d = row_diff full (row_of r cs) (row_of r sh);
             (b1, a1) = paint_row r d (row_of r cs) (row_stop d) 0 a;
             sh1 = take (r * 80) sh @ row_of r cs @ drop (r * 80 + 80) sh;
             (b2, a2, sh2) = paint_rows full rows cs rs a1 sh1
         in (b1 @ b2, a2, sh2)))"

section \<open>The flush\<close>

definition paint_hud :: "bool \<Rightarrow> tty \<Rightarrow> tty_bytes \<times> tty" where
  "paint_hud full t =
     (if \<not> (hud_dirty t \<or> full) then ([], t)
      else
        (let (bs, t) =
           (if term_rows t > KV_ROWS then
              (if hud_text t \<noteq> [] then esc_str ''['' @ dec_int (KV_ROWS + 1) @ map of_char '';1H'' @ esc_str ''[0;2m'' @ hud_text t @ esc_str ''[0m''
               else if hud_painted t \<noteq> [] then esc_str ''['' @ dec_int (KV_ROWS + 1) @ map of_char '';1H'' @ esc_str ''[K''
               else [],
               t\<lparr>hud_painted := hud_text t\<rparr>)
            else ([], t))
         in (bs, t\<lparr>hud_dirty := False\<rparr>)))"

definition nothing_new :: "tty \<Rightarrow> kaypro_video \<Rightarrow> bool" where
  "nothing_new t kv \<longleftrightarrow> shadow_valid t \<and> dirty_rows kv = 0 \<and> cursor_moved kv = 0 \<and> \<not> hud_dirty t"

definition tty_flush :: "bool \<Rightarrow> int \<Rightarrow> tty \<Rightarrow> kaypro_video \<Rightarrow> tty_bytes \<times> tty \<times> kaypro_video" where
  "tty_flush force now t kv =
     (if \<not> tty_active t then ([], t, kv)
      else if \<not> force \<and> nothing_new t kv then ([], t, kv)
      else
        (let full = (force \<or> \<not> shadow_valid t);
             rows = (if full then push_bit (nat KV_ROWS) 1 - 1 else dirty_rows kv);
             b0 = (if full then esc_str ''[?25l'' @ esc_str ''[0m'' @ esc_str ''[2J'' else esc_str ''[?25l'');
             (b1, a, sh) = paint_rows full rows (cells kv) [0..<nat KV_ROWS] 0 (shadow t);
             b2 = (if a \<noteq> 0 then esc_str ''[0m'' else []);
             (b3, t) = paint_hud full (t\<lparr>shadow := sh\<rparr>);
             b4 = emit_goto (cur_row kv) (cur_col kv) @ (if cursor_visible kv \<noteq> 0 then esc_str ''[?25h'' else [])
         in (b0 @ b1 @ b2 @ b3 @ b4, t\<lparr>shadow_valid := True, last_paint := now\<rparr>, kaypro_video_clear_dirty kv)))"

text \<open>The clock in nanoseconds; \<open>FRAME_NS\<close> is 16 ms.\<close>

definition tty_flush_if_due :: "int \<Rightarrow> tty \<Rightarrow> kaypro_video \<Rightarrow> tty_bytes \<times> tty \<times> kaypro_video" where
  "tty_flush_if_due now t kv =
     (if \<not> tty_active t then ([], t, kv)
      else if nothing_new t kv then ([], t, kv)
      else if now - last_paint t \<ge> 16000000 then tty_flush False now t kv
      else ([], t, kv))"

end
