(* ===== verification/Kaypro_Render_Props.thy ===== *)
theory Kaypro_Render_Props
  imports Kaypro_Render Kaypro_Video_Props
begin

text \<open>
  The renderer's output, read by a terminal.  The locale \<open>ansi_terminal\<close> states what the escape sequences do, and the
  lemmas in it follow the painter: a run of cells, a row, the rows, the HUD line, the whole flush.  \<open>in_sync\<close> is the
  invariant between flushes: the terminal shows the shadow, and the video model has marked every row, and the cursor,
  that has changed since.
\<close>

section \<open>The cursor is flagged\<close>

text \<open>\<open>flagged kv kv'\<close>: either \<open>cursor_moved\<close> is set in \<open>kv'\<close>, or nothing about the cursor has changed.\<close>

definition flagged :: "kaypro_video \<Rightarrow> kaypro_video \<Rightarrow> bool" where
  "flagged kv kv' \<longleftrightarrow> cursor_moved kv' \<noteq> 0 \<or>
     cursor_moved kv' = cursor_moved kv \<and> cur_row kv' = cur_row kv \<and> cur_col kv' = cur_col kv \<and>
     cursor_visible kv' = cursor_visible kv"

definition flags :: "(kaypro_video \<Rightarrow> kaypro_video option) \<Rightarrow> bool" where
  "flags f \<longleftrightarrow> (\<forall>kv kv'. f kv = Some kv' \<longrightarrow> flagged kv kv')"

lemma flagged_refl [simp]: "flagged kv kv"
  by (simp add: flagged_def)

lemma flagsD: "flags f \<Longrightarrow> f kv = Some kv' \<Longrightarrow> flagged kv kv'"
  by (simp add: flags_def)

lemma flagged_if: "flagged kv a \<Longrightarrow> flagged kv b \<Longrightarrow> flagged kv (if c then a else b)"
  by simp

lemma flags_SomeI: "(\<And>kv. flagged kv (g kv)) \<Longrightarrow> flags (\<lambda>kv. Some (g kv))"
  by (simp add: flags_def)

lemmas flag_simps = flags_def flagged_def Let_def bind_eq_Some_conv mark_dirty_def mark_all_dirty_def set_cursor_def

lemma flagged_trans: "flagged a b \<Longrightarrow> flagged b c \<Longrightarrow> flagged a c"
  by (auto simp: flagged_def)

lemma flags_bind:
  assumes "flags f" "flags g"
  shows "flags (\<lambda>kv. Option.bind (f kv) g)"
  unfolding flags_def bind_eq_Some_conv using flagsD [OF assms(1)] flagsD [OF assms(2)] flagged_trans by blast

lemma flags_if: "flags f \<Longrightarrow> flags g \<Longrightarrow> flags (\<lambda>kv. if c kv then f kv else g kv)"
  by (auto simp: flags_def)

lemma flags_moved: "flags (\<lambda>kv. Option.bind (f kv) (\<lambda>kv. Some (kv\<lparr>cursor_moved := 1\<rparr>)))"
  by (auto simp: flags_def flagged_def bind_eq_Some_conv)

lemma flags_screen: "flags scroll_up" "flags erase_to_eol" "flags delete_line" "flags insert_line"
  by (auto simp: flag_simps scroll_up_def erase_to_eol_def delete_line_def insert_line_def split: if_splits)

lemma flags_cursor_down: "flags cursor_down"
  unfolding cursor_down_def [abs_def] Let_def by (rule flags_moved)

lemma flags_c_right: "flags c_right"
  unfolding c_right_def [abs_def] by (rule flags_moved)

lemma flags_put_char: "flags (put_char ch)"
  by (auto simp: put_char_def Let_def flags_def flagged_def bind_eq_Some_conv)

lemma flags_erase_to_eos: "flags erase_to_eos"
  unfolding flags_def
proof (intro allI impI)
  fix kv kv' assume "erase_to_eos kv = Some kv'"
  then obtain kv1 cs where "erase_to_eol kv = Some kv1" "kv' = mark_all_dirty (kv1\<lparr>cells := cs\<rparr>)"
    by (auto simp: erase_to_eos_def Let_def bind_eq_Some_conv)
  with flags_screen(2) show "flagged kv kv'" by (auto simp: flags_def flagged_def mark_all_dirty_def)
qed

lemma flags_set_cursor: "flagged kv (set_cursor r c kv)"
  by (simp add: set_cursor_def flagged_def Let_def)

lemma flags_clear_screen: "flags clear_screen"
  by (auto simp: clear_screen_def flags_def flagged_def bind_eq_Some_conv mark_all_dirty_def set_cursor_def Let_def)

lemma flags_controls: "flags c_bell" "flags c_bs" "flags c_up" "flags c_cr" "flags c_esc" "flags c_home" "flags c_nul"
  unfolding c_bell_def [abs_def] c_bs_def [abs_def] c_up_def [abs_def] c_cr_def [abs_def] c_esc_def [abs_def] c_home_def [abs_def]
    c_nul_def [abs_def]
  by (intro flags_SomeI flagged_if flags_put_char flags_set_cursor; simp add: flagged_def)+

lemma flags_attr_set: "flagged kv (attr_set n on kv)"
  unfolding attr_set_def Let_def by (intro flagged_if flags_set_cursor; simp add: flagged_def)

lemma flags_ctrl: "ctrl_handlers ch = Some f \<Longrightarrow> flags f"
  using flags_controls flags_screen flags_cursor_down flags_c_right flags_erase_to_eos flags_clear_screen
  by (auto simp: ctrl_handlers_def split: if_splits)

lemma flags_esc: "e \<in> set esc_table \<Longrightarrow> flags (esc_fn e a)"
  using flags_screen(3,4) flags_set_cursor flags_attr_set
  by (auto simp: esc_table_def e_cursor_def e_attr_def flags_def split: list.splits)

lemma flags_quiet:
  assumes "flags f" "f kv1 = Some kv2" "flagged kv kv1" "flagged kv2 kv3"
  shows "flagged kv kv3"
  using flagged_trans [OF assms(3) flagged_trans [OF flagsD [OF assms(1,2)] assms(4)]] .

lemma flags_putc_esc: "flags (putc_esc ch)"
  unfolding flags_def
proof (intro allI impI)
  fix kv kv' assume p: "putc_esc ch kv = Some kv'"
  show "flagged kv kv'"
  proof (cases "esc_lookup ch kv")
    case None
    with p show ?thesis by (auto simp: putc_esc_def flagged_def)
  next
    case (Some en)
    note g = flags_esc [OF esc_lookup_in [OF Some], of "esc_args kv"]
    show ?thesis
    proof (cases "nargs en = 0")
      case True
      have "esc_fn en (esc_args kv) (kv\<lparr>esc_lead := ch, esc_nargs := 0, esc_need := 0, esc_state := 0\<rparr>) = Some kv'"
        using p Some True by (simp add: putc_esc_def)
      then show ?thesis by (rule flags_quiet [OF g _ _ flagged_refl]) (simp add: flagged_def)
    next
      case False
      with p Some show ?thesis by (auto simp: putc_esc_def flagged_def)
    qed
  qed
qed

lemma flags_putc_arg: "flags (putc_arg ch)"
  unfolding flags_def
proof (intro allI impI)
  fix kv kv' assume p: "putc_arg ch kv = Some kv'"
  define kv1 where "kv1 = kv\<lparr>esc_args := (esc_args kv)[nat (esc_nargs kv) := ch], esc_nargs := esc_nargs kv + 1, esc_need := esc_need kv - 1\<rparr>"
  have f1: "flagged kv kv1" "flagged kv (kv1\<lparr>esc_state := 0\<rparr>)" by (simp_all add: flagged_def kv1_def)
  show "flagged kv kv'"
  proof (cases "esc_need kv1 = 0")
    case True
    then obtain en where "esc_lookup (esc_lead kv1) (kv1\<lparr>esc_state := 0\<rparr>) = Some en" "esc_fn en (esc_args kv1) (kv1\<lparr>esc_state := 0\<rparr>) = Some kv'"
      using p by (auto simp: putc_arg_def Let_def kv1_def [symmetric] split: if_splits option.splits)
    from flags_quiet [OF flags_esc [OF esc_lookup_in [OF this(1)]] this(2) f1(2) flagged_refl] show ?thesis .
  next
    case False
    with p f1(1) show ?thesis by (auto simp: putc_arg_def Let_def kv1_def [symmetric] split: if_splits)
  qed
qed

lemma flags_put_as: "flags (\<lambda>kv. Option.bind (put_char c (kv\<lparr>attr := t kv\<rparr>)) (\<lambda>kv'. Some (kv'\<lparr>attr := u kv\<rparr>)))"
  unfolding flags_def bind_eq_Some_conv
proof (intro allI impI; elim exE conjE)
  fix kv kv' kv2 assume 1: "put_char c (kv\<lparr>attr := t kv\<rparr>) = Some kv2" and "Some (kv2\<lparr>attr := u kv\<rparr>) = Some kv'"
  then have "flagged kv2 kv'" by (auto simp: flagged_def)
  then show "flagged kv kv'" by (rule flags_quiet [OF flags_put_char 1, rotated]) (simp add: flagged_def)
qed

lemma flags_putc_high: "flags (putc_high ch)"
proof -
  let ?g = "\<lambda>kv. (attr kv AND NOT KV_ATTR_PIXEL7) OR (if gfx_first kv AND 1 \<noteq> 0 then KV_ATTR_PIXEL7 else 0)"
  have "flags (\<lambda>kv. Option.bind (Some (kv\<lparr>gfx_pending := 0\<rparr>)) (\<lambda>kv. Option.bind (put_char (0x80 OR (ch AND 0x7F)) (kv\<lparr>attr := ?g kv\<rparr>))
      (\<lambda>kv'. Some (kv'\<lparr>attr := attr kv\<rparr>))))"
    by (intro flags_bind flags_put_as flags_SomeI) (simp add: flagged_def)
  then show ?thesis
    unfolding putc_high_def [abs_def] Let_def
    by (intro flags_if flags_put_char flags_put_as flags_SomeI) (simp_all add: flagged_def)
qed

lemma flags_case_ctrl: "flags (\<lambda>kv. case ctrl_handlers ch of Some f \<Rightarrow> f kv | None \<Rightarrow> Some (kv\<lparr>unknown_ctrl := unknown_ctrl kv + 1\<rparr>))"
  using flags_ctrl [of ch] by (cases "ctrl_handlers ch") (simp_all add: flags_SomeI flagged_def)

lemma flags_putc: "flags (kaypro_video_putc ch)"
proof -
  have "flags (\<lambda>kv. if esc_state kv = 1 then putc_esc ch kv else if esc_state kv = 2 then putc_arg ch kv
      else if ch AND 0x80 \<noteq> 0 then putc_high ch kv
      else if ch < 0x20 then (case ctrl_handlers ch of Some f \<Rightarrow> f kv | None \<Rightarrow> Some (kv\<lparr>unknown_ctrl := unknown_ctrl kv + 1\<rparr>))
      else if ch = 0x7F then Some kv else put_char ch kv)" (is "flags ?p")
    by (intro flags_if flags_putc_esc flags_putc_arg flags_putc_high flags_case_ctrl flags_put_char flags_SomeI) simp
  then have "flags (\<lambda>kv. Option.bind (Some (kv\<lparr>bytes_in := bytes_in kv + 1\<rparr>)) ?p)"
    by (intro flags_bind flags_SomeI) (simp add: flagged_def)
  then show ?thesis unfolding kaypro_video_putc_def [abs_def] Let_def by simp
qed

lemma flagged_write: "kaypro_video_write bs kv = Some kv' \<Longrightarrow> flagged kv kv'"
proof (induction bs arbitrary: kv)
  case (Cons b bs)
  then obtain kv1 where "kaypro_video_putc b kv = Some kv1" "flagged kv1 kv'" by (auto simp: bind_eq_Some_conv)
  then show ?case by (rule flagged_trans [OF flagsD [OF flags_putc]])
qed simp

section \<open>Terminals\<close>

text \<open>What a terminal shows: in each place a character (its bytes) and the styles it was written with, by their SGR
  numbers; where the cursor is, the styles in force, and whether the cursor is visible.\<close>

record screen =
  s_cells :: "nat \<Rightarrow> nat \<Rightarrow> u8 list \<times> nat set"
  s_pos :: "nat \<times> nat"
  s_style :: "nat set"
  s_vis :: bool

definition blank_place :: "u8 list \<times> nat set" where
  "blank_place = ([0x20], {})"

definition glyph :: "u8 list \<Rightarrow> bool" where
  "glyph g \<longleftrightarrow> (\<exists>c. g = [c] \<and> 0x20 \<le> c \<and> c < 0x7F) \<or>
     (\<exists>b c. g = [0xE2, b, c] \<and> 0xA0 \<le> b \<and> b \<le> 0xA3 \<and> 0x80 \<le> c \<and> c \<le> 0xBF)"

text \<open>A terminal of at least 25 rows and 80 columns, as ECMA-48 and the VT100 define the sequences that the renderer
  uses: \<open>feed\<close> consumes bytes, \<open>view\<close> is what it shows, and \<open>ground\<close> holds between two sequences.  Where the cursor
  goes after a character in the last column is left open.\<close>

locale ansi_terminal =
  fixes height :: nat and feed :: "u8 list \<Rightarrow> 't \<Rightarrow> 't" and ground :: "'t \<Rightarrow> bool" and view :: "'t \<Rightarrow> screen"
  assumes height: "25 \<le> height"
    and feed_nil: "feed [] t = t"
    and feed_append: "feed (xs @ ys) t = feed ys (feed xs t)"
    and alternate: "ground t \<Longrightarrow> ground (feed (esc_str ''[?1049h'') t)"
    and cup: "ground t \<Longrightarrow> r < height \<Longrightarrow> c < 80 \<Longrightarrow>
      ground (feed (esc_str ''['' @ dec (r + 1) @ [0x3B] @ dec (c + 1) @ [0x48]) t) \<and>
      view (feed (esc_str ''['' @ dec (r + 1) @ [0x3B] @ dec (c + 1) @ [0x48]) t) = (view t)\<lparr>s_pos := (r, c)\<rparr>"
    and home: "ground t \<Longrightarrow> ground (feed (esc_str ''[H'') t) \<and> view (feed (esc_str ''[H'') t) = (view t)\<lparr>s_pos := (0, 0)\<rparr>"
    and sgr: "ground t \<Longrightarrow> set ps \<subseteq> {2, 4, 5, 7} \<Longrightarrow>
      ground (feed (esc_str ''[0'' @ concat (map (\<lambda>p. 0x3B # dec p) ps) @ [0x6D]) t) \<and>
      view (feed (esc_str ''[0'' @ concat (map (\<lambda>p. 0x3B # dec p) ps) @ [0x6D]) t) = (view t)\<lparr>s_style := set ps\<rparr>"
    and printing: "ground t \<Longrightarrow> glyph g \<Longrightarrow> s_pos (view t) = (r, c) \<Longrightarrow> r < height \<Longrightarrow> c < 80 \<Longrightarrow>
      ground (feed g t) \<and> (\<exists>p. (c < 79 \<longrightarrow> p = (r, c + 1)) \<and>
        view (feed g t) = (view t)\<lparr>s_cells := (s_cells (view t))(r := (s_cells (view t) r)(c := (g, s_style (view t)))), s_pos := p\<rparr>)"
    and clear: "ground t \<Longrightarrow> s_style (view t) = {} \<Longrightarrow>
      ground (feed (esc_str ''[2J'') t) \<and> view (feed (esc_str ''[2J'') t) = (view t)\<lparr>s_cells := (\<lambda>_ _. blank_place)\<rparr>"
    and erase: "ground t \<Longrightarrow> s_style (view t) = {} \<Longrightarrow> s_pos (view t) = (r, c) \<Longrightarrow>
      ground (feed (esc_str ''[K'') t) \<and>
      view (feed (esc_str ''[K'') t) =
        (view t)\<lparr>s_cells := (s_cells (view t))(r := \<lambda>j. if c \<le> j then blank_place else s_cells (view t) r j)\<rparr>"
    and hide: "ground t \<Longrightarrow> ground (feed (esc_str ''[?25l'') t) \<and> view (feed (esc_str ''[?25l'') t) = (view t)\<lparr>s_vis := False\<rparr>"
    and unhide: "ground t \<Longrightarrow> ground (feed (esc_str ''[?25h'') t) \<and> view (feed (esc_str ''[?25h'') t) = (view t)\<lparr>s_vis := True\<rparr>"

section \<open>What a cell looks like\<close>

definition styles :: "u8 \<Rightarrow> nat list" where
  "styles a = (if a AND KV_ATTR_DIM \<noteq> 0 then [2] else []) @ (if a AND KV_ATTR_UNDERLINE \<noteq> 0 then [4] else []) @
     (if a AND KV_ATTR_BLINK \<noteq> 0 then [5] else []) @ (if a AND KV_ATTR_REVERSE \<noteq> 0 then [7] else [])"

text \<open>The braille character or the ASCII character of the cell, in its styles.\<close>

definition cell_view :: "kaypro_cell \<Rightarrow> u8 list \<times> nat set" where
  "cell_view cl = (put_cell_char (cch cl) (cattr cl), set (styles (cattr cl AND NOT KV_ATTR_PIXEL7)))"

lemma emit_attr_styles: "emit_attr a = esc_str ''[0'' @ concat (map (\<lambda>p. 0x3B # dec p) (styles a)) @ [0x6D]"
proof -
  have d: "dec 2 = [0x32]" "dec 4 = [0x34]" "dec 5 = [0x35]" "dec 7 = [0x37]" by (simp_all add: dec.simps)
  show ?thesis by (simp add: emit_attr_def styles_def esc_str_def d)
qed

lemma styles_in: "set (styles a) \<subseteq> {2, 4, 5, 7}"
  by (auto simp: styles_def)

lemma styles_0 [simp]: "styles 0 = []"
  by (simp add: styles_def)

lemma cell_view_blank: "cch cl = 0x20 \<Longrightarrow> cattr cl = 0 \<Longrightarrow> cell_view cl = blank_place"
  by (simp add: cell_view_def put_cell_char_def blank_place_def)

lemma utf8_tail:
  assumes "unat x < 64"
  shows "unat (ucast (0x80 OR x :: u32) :: u8) = 128 + unat x"
proof -
  have t: "take_bit 6 x = x" using assms by (intro word_unat_eq_iff [THEN iffD2]) (simp add: unsigned_take_bit_eq take_bit_nat_eq_self)
  have n: "\<not> bit x 7" by (subst t [symmetric]) (simp add: bit_take_bit_iff)
  have "(0x80 :: u32) = push_bit 7 1" by (simp add: push_bit_eq_mult)
  moreover have "push_bit 7 1 AND x = 0"
  proof (rule bit_word_eqI)
    fix i show "bit (push_bit 7 1 AND x) i = bit (0 :: u32) i"
      unfolding bit_and_iff bit_push_bit_iff bit_1_iff using n by (cases "i = 7") auto
  qed
  ultimately have "0x80 AND x = 0" by (simp only:)
  then have "0x80 OR x = 0x80 + x" by (rule disjunctive_add_eq_or [symmetric])
  then have "unat (0x80 OR x) = 128 + unat x" using assms by (simp add: unat_word_ariths)
  then show ?thesis using assms by (simp add: unsigned_ucast_eq take_bit_eq_mod)
qed

lemma braille_bytes:
  assumes "unat (dots :: u32) < 256"
  shows "glyph [ucast (0xE0 OR drop_bit 12 (0x2800 + dots)), ucast (0x80 OR (drop_bit 6 (0x2800 + dots) AND 0x3F)),
    ucast (0x80 OR ((0x2800 + dots) AND 0x3F))]"
proof -
  define cp d where "cp = 0x2800 + dots" and "d = unat dots"
  have d: "d < 256" using assms by (simp add: d_def)
  have cp: "unat cp = 10240 + d" using d by (simp add: cp_def d_def unat_word_ariths)
  have m: "(0x3F :: u32) = mask 6" by (simp add: mask_eq_exp_minus_1)
  have "drop_bit 12 cp = 2"
    using d cp by (intro word_unat_eq_iff [THEN iffD2]) (simp add: unat_div drop_bit_eq_div)
  then have 1: "ucast (0xE0 OR drop_bit 12 cp) = (0xE2 :: u8)" by simp
  have "(10240 + d) div 64 = 160 + d div 64" using div_mult_self1 [of 64 d 160] by (simp add: add.commute)
  moreover have "(160 + x) mod 64 = 32 + x" if "x < 4" for x :: nat
    using that mod_mult_self1 [of "32 + x" 2 64] by (simp add: add.commute)
  ultimately have "(10240 + d) div 64 mod 64 = 32 + d div 64" using d by simp
  then have u2: "unat (drop_bit 6 cp AND 0x3F) = 32 + d div 64"
    unfolding m take_bit_eq_mask [symmetric] drop_bit_eq_div take_bit_eq_mod using cp by (simp add: unat_div unat_mod)
  have u3: "unat (cp AND 0x3F) < 64"
    unfolding m take_bit_eq_mask [symmetric] take_bit_eq_mod by (simp add: unat_mod)
  have dd: "d div 64 < 4" using d by simp
  have 2: "unat (ucast (0x80 OR (drop_bit 6 cp AND 0x3F)) :: u8) = 160 + d div 64"
    using utf8_tail [of "drop_bit 6 cp AND 0x3F"] u2 dd by simp
  have 3: "unat (ucast (0x80 OR (cp AND 0x3F)) :: u8) = 128 + unat (cp AND 0x3F)"
    using utf8_tail [OF u3] .
  have lo: "0xA0 \<le> x \<and> x \<le> 0xA3" if "unat x = 160 + d div 64" for x :: u8 using that dd by (simp add: word_le_nat_alt)
  have hi: "0x80 \<le> x \<and> x \<le> 0xBF" if "unat x = 128 + unat (cp AND 0x3F)" for x :: u8 using that u3 by (simp add: word_le_nat_alt)
  from 1 lo [OF 2] hi [OF 3] show ?thesis unfolding glyph_def cp_def [symmetric] by blast
qed

lemma glyph_graphic: "glyph (put_graphic g p)"
proof -
  have or: "unat (a OR b) < 256" if "unat a < 256" "unat b < 256" for a b :: u32
  proof -
    have "take_bit 8 (unat a OR unat b) = unat a OR unat b" using that by (simp add: take_bit_nat_eq_self)
    then show ?thesis using take_bit_nat_less_exp [of 8 "unat a OR unat b"] by (simp add: unsigned_or_eq)
  qed
  have if_lt: "unat (if c then a OR b else a) < 256" if "unat a < 256" "unat b < 256" for a b :: u32 and c
    using or [OF that] that by simp
  show ?thesis
    unfolding put_graphic_def Let_def by (rule braille_bytes) (intro if_lt; simp)
qed

lemma glyph_cell: "glyph (put_cell_char ch a)"
  using glyph_graphic by (auto simp: put_cell_char_def glyph_def)

section \<open>Painting\<close>

text \<open>Row \<open>r\<close> of the screen as the cells \<open>cs\<close> have it.\<close>

definition shown :: "screen \<Rightarrow> kaypro_cell list \<Rightarrow> nat \<Rightarrow> bool" where
  "shown v cs r \<longleftrightarrow> (\<forall>j<80. s_cells v r j = cell_view (cs ! (r * 80 + j)))"

text \<open>Text for the HUD line: at most 80 printable characters.\<close>

definition hud_ok :: "u8 list \<Rightarrow> bool" where
  "hud_ok s \<longleftrightarrow> length s \<le> 80 \<and> (\<forall>c\<in>set s. 0x20 \<le> c \<and> c < 0x7F)"

text \<open>The terminal shows the Kaypro screen.\<close>

definition painted :: "kaypro_video \<Rightarrow> screen \<Rightarrow> bool" where
  "painted kv v \<longleftrightarrow> (\<forall>r<25. shown v (cells kv) r) \<and> s_pos v = (nat (cur_row kv), nat (cur_col kv)) \<and>
     s_vis v = (cursor_visible kv \<noteq> 0) \<and> s_style v = {}"

text \<open>Between flushes: the terminal shows the shadow, and what the Kaypro screen differs in is marked.\<close>

definition in_sync :: "nat \<Rightarrow> tty \<Rightarrow> kaypro_video \<Rightarrow> screen \<Rightarrow> bool" where
  "in_sync height t kv v \<longleftrightarrow> tty_active t \<and> length (shadow t) = 2000 \<and> term_rows t \<le> int height \<and> hud_ok (hud_text t) \<and> s_style v = {} \<and>
     (shadow_valid t \<longrightarrow> (\<forall>r<25. shown v (shadow t) r) \<and>
        (\<forall>i<2000. bit (dirty_rows kv) (i div 80) \<or> shadow t ! i = cells kv ! i) \<and>
        (cursor_moved kv = 0 \<longrightarrow> s_pos v = (nat (cur_row kv), nat (cur_col kv)) \<and> s_vis v = (cursor_visible kv \<noteq> 0)))"

lemma row_stop_bounds: "row_stop d \<le> 80" "c < 80 \<Longrightarrow> d ! c \<Longrightarrow> c < row_stop d"
proof -
  define F where "F n = fold (\<lambda>c l. if d ! c then c + 1 else l) [0..<n] (0 :: nat)" for n
  have "F 0 = 0" "F (Suc n) = (if d ! n then n + 1 else F n)" for n unfolding F_def by (simp_all del: add_Suc_right Suc_eq_plus1)
  then have "F n \<le> n \<and> (\<forall>c<n. d ! c \<longrightarrow> c < F n)" for n by (induction n) (auto simp: less_Suc_eq)
  from this [of 80] show "row_stop d \<le> 80" "c < 80 \<Longrightarrow> d ! c \<Longrightarrow> c < row_stop d" by (auto simp: row_stop_def F_def)
qed

context ansi_terminal
begin

text \<open>\<open>paints bs t P\<close>: the bytes leave the terminal between two sequences, the cursor's visibility as it was, and the
  places and the styles as \<open>P\<close> says.\<close>

definition paints :: "u8 list \<Rightarrow> 't \<Rightarrow> (screen \<Rightarrow> bool) \<Rightarrow> bool" where
  "paints bs t P \<longleftrightarrow> ground (feed bs t) \<and> s_vis (view (feed bs t)) = s_vis (view t) \<and> P (view (feed bs t))"

lemma paints_append:
  assumes "paints xs t P" "\<And>t1. ground t1 \<Longrightarrow> P (view t1) \<Longrightarrow> paints ys t1 Q"
  shows "paints (xs @ ys) t Q"
  using assms by (auto simp: paints_def feed_append)

lemma paints_nil: "ground t \<Longrightarrow> P (view t) \<Longrightarrow> paints [] t P"
  by (simp add: paints_def feed_nil)

lemma paints_mono: "paints xs t P \<Longrightarrow> (\<And>v. P v \<Longrightarrow> Q v) \<Longrightarrow> paints xs t Q"
  by (simp add: paints_def)

lemma paints_goto:
  assumes "ground t" "r < height" "c < 80"
  shows "paints (emit_goto (int r) (int c)) t (\<lambda>v. v = (view t)\<lparr>s_pos := (r, c)\<rparr>)"
proof -
  have "dec_int (int r + 1) = dec (r + 1)" "dec_int (int c + 1) = dec (c + 1)"
    by (simp_all add: dec_int_def nat_add_distrib)
  with cup [OF assms] show ?thesis by (simp add: paints_def emit_goto_def)
qed

lemma paints_attr: "ground t \<Longrightarrow> paints (emit_attr a) t (\<lambda>v. v = (view t)\<lparr>s_style := set (styles a)\<rparr>)"
  using sgr [OF _ styles_in] by (simp add: paints_def emit_attr_styles)

lemma paints_cell:
  assumes "ground t" "r < height" "c < 80" "s_pos (view t) = (r, c)" "s_style (view t) = set (styles a)"
    "sgr = cattr cl AND NOT KV_ATTR_PIXEL7"
  shows "paints ((if sgr \<noteq> a then emit_attr sgr else []) @ put_cell_char (cch cl) (cattr cl)) t
    (\<lambda>v. s_cells v = (s_cells (view t))(r := (s_cells (view t) r)(c := cell_view cl)) \<and> s_style v = set (styles sgr) \<and>
       (c < 79 \<longrightarrow> s_pos v = (r, c + 1)))"
proof (rule paints_append)
  show "paints (if sgr \<noteq> a then emit_attr sgr else []) t (\<lambda>v. v = (view t)\<lparr>s_style := set (styles sgr)\<rparr>)"
    using paints_attr [OF assms(1), of sgr] assms(5) by (auto intro!: paints_nil assms(1))
  show "paints (put_cell_char (cch cl) (cattr cl)) t1 (\<lambda>v. s_cells v = (s_cells (view t))(r := (s_cells (view t) r)(c := cell_view cl)) \<and>
      s_style v = set (styles sgr) \<and> (c < 79 \<longrightarrow> s_pos v = (r, c + 1)))"
    if "ground t1" "view t1 = (view t)\<lparr>s_style := set (styles sgr)\<rparr>" for t1
  proof -
    have "s_pos (view t1) = (r, c)" using that(2) assms(4) by simp
    from printing [OF that(1) glyph_cell this assms(2,3), of "cch cl" "cattr cl"] that(2) show ?thesis
      by (auto simp: paints_def cell_view_def assms(6))
  qed
qed

lemma paints_run:
  assumes "ground t" "r < height" "stop \<le> 80" "c < 80 \<longrightarrow> s_pos (view t) = (r, c)" "s_style (view t) = set (styles a)"
  shows "paints (fst (paint_run d row stop c a)) t
    (\<lambda>v. s_cells v = (s_cells (view t))(r := \<lambda>j. if c \<le> j \<and> j < fst (snd (paint_run d row stop c a)) then cell_view (row ! j) else s_cells (view t) r j) \<and>
       s_style v = set (styles (snd (snd (paint_run d row stop c a)))))"
  using assms
proof (induction d row stop c a arbitrary: t rule: paint_run.induct)
  case (1 d row stop c a)
  show ?case
  proof (cases "c < stop \<and> \<not> (\<not> d ! c \<and> gap d stop c > 6)")
    case False
    then have "paint_run d row stop c a = ([], c, a)" by (subst paint_run.simps) (simp only: if_False)
    then show ?thesis using "1.prems" by (auto intro!: paints_nil simp: fun_eq_iff)
  next
    case True
    define sgr where "sgr = cattr (row ! c) AND NOT KV_ATTR_PIXEL7"
    define q where "q = paint_run d row stop (c + 1) sgr"
    have e: "paint_run d row stop c a =
        (((if sgr \<noteq> a then emit_attr sgr else []) @ put_cell_char (cch (row ! c)) (cattr (row ! c))) @ fst q, fst (snd q), snd (snd q))"
      using True by (subst paint_run.simps) (simp add: Let_def split_def q_def sgr_def)
    have c: "c < 80" "s_pos (view t) = (r, c)" using True "1.prems"(3,4) by auto
    have m: "c + 1 \<le> fst (snd q)" unfolding q_def by (rule paint_run_mono)
    show ?thesis
      unfolding e fst_conv snd_conv
    proof (rule paints_append [OF paints_cell [OF "1.prems"(1,2) c "1.prems"(5) sgr_def]])
      fix t1 assume t1: "ground t1" "s_cells (view t1) = (s_cells (view t))(r := (s_cells (view t) r)(c := cell_view (row ! c))) \<and>
          s_style (view t1) = set (styles sgr) \<and> (c < 79 \<longrightarrow> s_pos (view t1) = (r, c + 1))"
      have "paints (fst q) t1 (\<lambda>v. s_cells v = (s_cells (view t1))(r := \<lambda>j. if c + 1 \<le> j \<and> j < fst (snd q) then cell_view (row ! j)
          else s_cells (view t1) r j) \<and> s_style v = set (styles (snd (snd q))))"
        unfolding q_def by (rule "1.IH" [OF True sgr_def t1(1) "1.prems"(2,3)]) (use t1 in auto)
      then show "paints (fst q) t1 (\<lambda>v. s_cells v = (s_cells (view t))(r := \<lambda>j. if c \<le> j \<and> j < fst (snd q) then cell_view (row ! j)
          else s_cells (view t) r j) \<and> s_style v = set (styles (snd (snd q))))"
        by (rule paints_mono) (use t1(2) m in \<open>auto simp: fun_eq_iff\<close>)
    qed
  qed
qed

lemma paints_row:
  assumes "ground t" "r < height" "stop \<le> 80" "s_style (view t) = set (styles a)"
  shows "paints (fst (paint_row r d row stop c a)) t
    (\<lambda>v. s_style v = set (styles (snd (paint_row r d row stop c a))) \<and> (\<forall>i j. i \<noteq> r \<longrightarrow> s_cells v i j = s_cells (view t) i j) \<and>
       (\<forall>j. s_cells v r j = cell_view (row ! j) \<or> s_cells v r j = s_cells (view t) r j \<and> \<not> (c \<le> j \<and> j < stop \<and> d ! j)))"
  using assms
proof (induction r d row stop c a arbitrary: t rule: paint_row.induct)
  case (1 r d row stop c a)
  consider (stop) "\<not> c < stop" | (skip) "c < stop" "\<not> d ! c" | (run) "c < stop" "d ! c" by blast
  then show ?case
  proof cases
    case stop
    then have "paint_row r d row stop c a = ([], a)" by (subst paint_row.simps) simp
    with stop "1.prems" show ?thesis by (auto intro!: paints_nil)
  next
    case skip
    then have e: "paint_row r d row stop c a = paint_row r d row stop (c + 1) a" by (subst paint_row.simps) simp
    from skip have "\<not> \<not> c < stop" by simp
    from "1.IH"(1) [OF this skip(2) "1.prems"] show ?thesis
      unfolding e by (rule paints_mono) (use skip in \<open>auto simp: Suc_le_eq; metis le_neq_implies_less\<close>)
  next
    case run
    define q where "q = paint_run d row stop c a"
    define w where "w = paint_row r d row stop (fst (snd q)) (snd (snd q))"
    have e: "paint_row r d row stop c a = (emit_goto (int r) (int c) @ (fst q @ fst w), snd w)"
      using run by (subst paint_row.simps) (simp add: Let_def q_def w_def)
    have c80: "c < 80" using run(1) "1.prems"(3) by simp
    have IH: "paints (fst w) t2 (\<lambda>v. s_style v = set (styles (snd w)) \<and> (\<forall>i j. i \<noteq> r \<longrightarrow> s_cells v i j = s_cells (view t2) i j) \<and>
       (\<forall>j. s_cells v r j = cell_view (row ! j) \<or> s_cells v r j = s_cells (view t2) r j \<and> \<not> (fst (snd q) \<le> j \<and> j < stop \<and> d ! j)))"
      if "ground t2" "s_style (view t2) = set (styles (snd (snd q)))" for t2
      unfolding w_def by (rule "1.IH"(2) [OF _ _ q_def that(1) "1.prems"(2,3) that(2)]) (use run in auto)
    show ?thesis
      unfolding e fst_conv snd_conv
    proof (rule paints_append [OF paints_goto [OF "1.prems"(1,2) c80]], rule paints_append)
      fix t1 assume t1: "ground t1" "view t1 = (view t)\<lparr>s_pos := (r, c)\<rparr>"
      show "paints (fst q) t1 (\<lambda>v. s_cells v = (s_cells (view t1))(r := \<lambda>j. if c \<le> j \<and> j < fst (snd q) then cell_view (row ! j)
          else s_cells (view t1) r j) \<and> s_style v = set (styles (snd (snd q))))"
        unfolding q_def by (rule paints_run [OF t1(1) "1.prems"(2,3)]) (use t1(2) "1.prems"(4) in auto)
      fix t2 assume t2: "ground t2" "s_cells (view t2) = (s_cells (view t1))(r := \<lambda>j. if c \<le> j \<and> j < fst (snd q) then cell_view (row ! j)
          else s_cells (view t1) r j) \<and> s_style (view t2) = set (styles (snd (snd q)))"
      from t2(2) have "s_style (view t2) = set (styles (snd (snd q)))" by simp
      from IH [OF t2(1) this] show "paints (fst w) t2 (\<lambda>v. s_style v = set (styles (snd w)) \<and> (\<forall>i j. i \<noteq> r \<longrightarrow> s_cells v i j = s_cells (view t) i j) \<and>
         (\<forall>j. s_cells v r j = cell_view (row ! j) \<or> s_cells v r j = s_cells (view t) r j \<and> \<not> (c \<le> j \<and> j < stop \<and> d ! j)))"
        by (rule paints_mono) (use t1(2) t2(2) in \<open>auto simp: not_less split: if_splits\<close>)
    qed
  qed
qed

lemma row_of_nth: "length cs = 2000 \<Longrightarrow> r < 25 \<Longrightarrow> j < 80 \<Longrightarrow> row_of r cs ! j = cs ! (r * 80 + j)"
  by (simp add: row_of_def)

lemma no_diff_shown:
  assumes "length cs = 2000" "length sh = 2000" "r < 25" "j < 80" "\<not> row_diff full (row_of r cs) (row_of r sh) ! j"
    "x = (if full then blank_place else cell_view (sh ! (r * 80 + j)))"
  shows "x = cell_view (cs ! (r * 80 + j))"
proof (cases full)
  case True
  then show ?thesis using assms by (simp add: row_diff_def row_of_nth cell_view_blank)
next
  case False
  then have "cs ! (r * 80 + j) = sh ! (r * 80 + j)" using assms by (simp add: row_diff_def row_of_nth)
  with False assms(6) show ?thesis by simp
qed

lemma nth_copy_row:
  assumes "length cs = 2000" "length sh = 2000" "r < 25" "i < 2000"
  shows "(take (r * 80) sh @ row_of r cs @ drop (r * 80 + 80) sh) ! i = (if i div 80 = r then cs ! i else sh ! i)"
    and "length (take (r * 80) sh @ row_of r cs @ drop (r * 80 + 80) sh) = 2000"
proof -
  have r: "r * 80 + 80 \<le> 2000" using assms(3) by linarith
  have lr: "length (row_of r cs) = 80" using assms(1) r by (simp add: row_of_def)
  show "length (take (r * 80) sh @ row_of r cs @ drop (r * 80 + 80) sh) = 2000" using assms(2) r lr by simp
  have "i div 80 = r \<longleftrightarrow> r * 80 \<le> i \<and> i < r * 80 + 80" by (auto simp: div_nat_eqI)
  then show "(take (r * 80) sh @ row_of r cs @ drop (r * 80 + 80) sh) ! i = (if i div 80 = r then cs ! i else sh ! i)"
    using r lr assms by (auto simp: nth_append row_of_def)
qed

lemma paints_rows:
  assumes "ground t" "s_style (view t) = set (styles a)" "distinct rs" "set rs \<subseteq> {..<25}" "length cs = 2000" "length sh = 2000"
    "\<And>r j. r \<in> set rs \<Longrightarrow> bit rows r \<Longrightarrow> j < 80 \<Longrightarrow>
       s_cells (view t) r j = (if full then blank_place else cell_view (sh ! (r * 80 + j)))"
    "paint_rows full rows cs rs a sh = (bs, a', sh')"
  shows "paints bs t (\<lambda>v. s_style v = set (styles a') \<and> (\<forall>r j. \<not> (r \<in> set rs \<and> bit rows r) \<longrightarrow> s_cells v r j = s_cells (view t) r j) \<and>
      (\<forall>r\<in>set rs. bit rows r \<longrightarrow> shown v cs r)) \<and> length sh' = 2000 \<and>
    (\<forall>i<2000. sh' ! i = (if i div 80 \<in> set rs \<and> bit rows (i div 80) then cs ! i else sh ! i))"
  using assms
proof (induction rs arbitrary: t a sh bs)
  case Nil
  then show ?case by (auto intro!: paints_nil)
next
  case (Cons r rs)
  have r25: "r < 25" and rh: "r < height" using Cons.prems(4) height by auto
  show ?case
  proof (cases "bit rows r")
    case False
    then have "rows AND push_bit r 1 = 0" using bit_iff_and_push_bit_not_eq_0 by blast
    with Cons.prems(8) have p: "paint_rows full rows cs rs a sh = (bs, a', sh')" by simp
    note IH = Cons.IH [OF Cons.prems(1,2) _ _ Cons.prems(5,6) _ p]
    have "paints bs t (\<lambda>v. s_style v = set (styles a') \<and> (\<forall>r j. \<not> (r \<in> set rs \<and> bit rows r) \<longrightarrow> s_cells v r j = s_cells (view t) r j) \<and>
      (\<forall>r\<in>set rs. bit rows r \<longrightarrow> shown v cs r)) \<and> length sh' = 2000 \<and>
      (\<forall>i<2000. sh' ! i = (if i div 80 \<in> set rs \<and> bit rows (i div 80) then cs ! i else sh ! i))"
      using Cons.prems(3,4,7) by (intro IH) auto
    then show ?thesis using False by (auto elim!: paints_mono)
  next
    case True
    then have nz: "rows AND push_bit r 1 \<noteq> 0" using bit_iff_and_push_bit_not_eq_0 by blast
    define d where "d = row_diff full (row_of r cs) (row_of r sh)"
    define w where "w = paint_row r d (row_of r cs) (row_stop d) 0 a"
    define sh1 where "sh1 = take (r * 80) sh @ row_of r cs @ drop (r * 80 + 80) sh"
    define z where "z = paint_rows full rows cs rs (snd w) sh1"
    have "paint_rows full rows cs (r # rs) a sh = (fst w @ fst z, snd z)"
      using nz by (simp add: Let_def split_def d_def w_def sh1_def z_def)
    with Cons.prems(8) have z: "bs = fst w @ fst z" "snd z = (a', sh')" by simp_all
    define b2 where "b2 = fst z"
    have bs: "bs = fst w @ b2" and p: "paint_rows full rows cs rs (snd w) sh1 = (b2, a', sh')"
      using z unfolding b2_def by (simp_all add: z_def prod_eq_iff)
    have sh1: "length sh1 = 2000" "\<And>i. i < 2000 \<Longrightarrow> sh1 ! i = (if i div 80 = r then cs ! i else sh ! i)"
      unfolding sh1_def by (rule nth_copy_row [OF Cons.prems(5,6) r25, of 0], simp, rule nth_copy_row [OF Cons.prems(5,6) r25])
    have pr: "paints (fst w) t (\<lambda>v. s_style v = set (styles (snd w)) \<and> (\<forall>i j. i \<noteq> r \<longrightarrow> s_cells v i j = s_cells (view t) i j) \<and> shown v cs r)"
    proof (rule paints_mono [OF paints_row [OF Cons.prems(1) rh row_stop_bounds(1) [of d] Cons.prems(2), where d = d and row = "row_of r cs" and c = 0, folded w_def]], elim conjE, intro conjI)
      fix v :: screen assume h: "\<forall>j. s_cells v r j = cell_view (row_of r cs ! j) \<or> s_cells v r j = s_cells (view t) r j \<and> \<not> (0 \<le> j \<and> j < row_stop d \<and> d ! j)"
      show "shown v cs r"
        unfolding shown_def
      proof (intro allI impI)
        fix j :: nat assume j: "j < 80"
        from h have "s_cells v r j = cell_view (row_of r cs ! j) \<or> s_cells v r j = s_cells (view t) r j \<and> \<not> d ! j"
          using row_stop_bounds(2) [OF j, of d] by auto
        then show "s_cells v r j = cell_view (cs ! (r * 80 + j))"
          using no_diff_shown [OF Cons.prems(5,6) r25 j _ Cons.prems(7) [OF _ True j]] row_of_nth [OF Cons.prems(5) r25 j]
          unfolding d_def by auto
      qed
    qed
    have IH: "paints b2 t1 (\<lambda>v. s_style v = set (styles a') \<and> (\<forall>r j. \<not> (r \<in> set rs \<and> bit rows r) \<longrightarrow> s_cells v r j = s_cells (view t1) r j) \<and>
        (\<forall>r\<in>set rs. bit rows r \<longrightarrow> shown v cs r)) \<and> length sh' = 2000 \<and>
        (\<forall>i<2000. sh' ! i = (if i div 80 \<in> set rs \<and> bit rows (i div 80) then cs ! i else sh1 ! i))"
      if "ground t1" "s_style (view t1) = set (styles (snd w))" "\<And>i j. i \<noteq> r \<Longrightarrow> s_cells (view t1) i j = s_cells (view t) i j" for t1
    proof (rule Cons.IH [OF that(1,2) _ _ Cons.prems(5) sh1(1) _ p])
      fix q j :: nat assume q: "q \<in> set rs" "bit rows q" "j < 80"
      then have "q \<noteq> r" "q < 25" using Cons.prems(3,4) by auto
      moreover have "(q * 80 + j) div 80 = q" "q * 80 + j < 2000" using q(3) \<open>q < 25\<close> by auto
      ultimately show "s_cells (view t1) q j = (if full then blank_place else cell_view (sh1 ! (q * 80 + j)))"
        using that(3) Cons.prems(7) [of q j] q sh1(2) by simp
    qed (use Cons.prems(3,4) in auto)
    have rn: "r \<notin> set rs" using Cons.prems(3) by simp
    have "paints bs t (\<lambda>v. s_style v = set (styles a') \<and> (\<forall>q j. \<not> (q \<in> set (r # rs) \<and> bit rows q) \<longrightarrow> s_cells v q j = s_cells (view t) q j) \<and>
      (\<forall>q\<in>set (r # rs). bit rows q \<longrightarrow> shown v cs q))"
      unfolding bs
    proof (rule paints_append [OF pr])
      fix t1 assume t1: "ground t1" "s_style (view t1) = set (styles (snd w)) \<and> (\<forall>i j. i \<noteq> r \<longrightarrow> s_cells (view t1) i j = s_cells (view t) i j) \<and> shown (view t1) cs r"
      then have "paints b2 t1 (\<lambda>v. s_style v = set (styles a') \<and> (\<forall>r j. \<not> (r \<in> set rs \<and> bit rows r) \<longrightarrow> s_cells v r j = s_cells (view t1) r j) \<and>
        (\<forall>r\<in>set rs. bit rows r \<longrightarrow> shown v cs r))" using IH [of t1] by blast
      then show "paints b2 t1 (\<lambda>v. s_style v = set (styles a') \<and> (\<forall>q j. \<not> (q \<in> set (r # rs) \<and> bit rows q) \<longrightarrow> s_cells v q j = s_cells (view t) q j) \<and>
        (\<forall>q\<in>set (r # rs). bit rows q \<longrightarrow> shown v cs q))"
        by (rule paints_mono) (use t1(2) rn True in \<open>auto simp: shown_def\<close>)
    qed
    moreover from pr IH [of "feed (fst w) t"] have "length sh' = 2000 \<and>
        (\<forall>i<2000. sh' ! i = (if i div 80 \<in> set rs \<and> bit rows (i div 80) then cs ! i else sh1 ! i))" by (auto simp: paints_def)
    then have "length sh' = 2000 \<and> (\<forall>i<2000. sh' ! i = (if i div 80 \<in> set (r # rs) \<and> bit rows (i div 80) then cs ! i else sh ! i))"
      using sh1(2) True by auto
    ultimately show ?thesis by blast
  qed
qed

section \<open>The HUD and the flush\<close>

lemma paints_text:
  assumes "ground t" "r < height" "c + length s \<le> 80" "c < 80 \<longrightarrow> s_pos (view t) = (r, c)" "\<And>x. x \<in> set s \<Longrightarrow> 0x20 \<le> x \<and> x < 0x7F"
  shows "paints s t (\<lambda>v. s_style v = s_style (view t) \<and> (\<forall>i j. i \<noteq> r \<longrightarrow> s_cells v i j = s_cells (view t) i j))"
  using assms
proof (induction s arbitrary: t c)
  case Nil
  then show ?case by (auto intro: paints_nil)
next
  case (Cons x s)
  have c: "c < 80" "s_pos (view t) = (r, c)" using Cons.prems(3,4) by auto
  have "glyph [x]" using Cons.prems(5) by (simp add: glyph_def)
  from printing [OF Cons.prems(1) this c(2) Cons.prems(2) c(1)]
  have p: "paints [x] t (\<lambda>v. s_style v = s_style (view t) \<and> (\<forall>i j. i \<noteq> r \<longrightarrow> s_cells v i j = s_cells (view t) i j) \<and> (c < 79 \<longrightarrow> s_pos v = (r, c + 1)))"
    by (auto simp: paints_def)
  have "paints ([x] @ s) t (\<lambda>v. s_style v = s_style (view t) \<and> (\<forall>i j. i \<noteq> r \<longrightarrow> s_cells v i j = s_cells (view t) i j))"
  proof (rule paints_append [OF p])
    fix t1 assume t1: "ground t1" "s_style (view t1) = s_style (view t) \<and> (\<forall>i j. i \<noteq> r \<longrightarrow> s_cells (view t1) i j = s_cells (view t) i j) \<and>
      (c < 79 \<longrightarrow> s_pos (view t1) = (r, c + 1))"
    have "paints s t1 (\<lambda>v. s_style v = s_style (view t1) \<and> (\<forall>i j. i \<noteq> r \<longrightarrow> s_cells v i j = s_cells (view t1) i j))"
      by (rule Cons.IH [OF t1(1) Cons.prems(2), of "c + 1"]) (use t1(2) Cons.prems(3,5) in auto)
    then show "paints s t1 (\<lambda>v. s_style v = s_style (view t) \<and> (\<forall>i j. i \<noteq> r \<longrightarrow> s_cells v i j = s_cells (view t) i j))"
      by (rule paints_mono) (use t1(2) in auto)
  qed
  then show ?case by simp
qed

lemma paints_sgr: "ground t \<Longrightarrow> set ps \<subseteq> {2, 4, 5, 7} \<Longrightarrow>
    paints (esc_str ''[0'' @ concat (map (\<lambda>p. 0x3B # dec p) ps) @ [0x6D]) t (\<lambda>v. v = (view t)\<lparr>s_style := set ps\<rparr>)"
  using sgr by (simp add: paints_def)

lemma sgr_strings: "esc_str ''[0m'' = esc_str ''[0'' @ concat (map (\<lambda>p. 0x3B # dec p) []) @ [0x6D]"
  "esc_str ''[0;2m'' = esc_str ''[0'' @ concat (map (\<lambda>p. 0x3B # dec p) [2]) @ [0x6D]"
  by (simp_all add: esc_str_def dec.simps)

lemma paints_plain: "ground t \<Longrightarrow> paints (esc_str ''[0m'') t (\<lambda>v. v = (view t)\<lparr>s_style := {}\<rparr>)"
  using paints_sgr [of t "[]"] by (simp only: sgr_strings) simp

lemma hud_goto: "esc_str ''['' @ dec_int 26 @ 0x3B # 0x31 # 0x48 # xs = emit_goto 25 0 @ xs"
  by (simp add: emit_goto_def esc_str_def dec_int_def dec.simps)

lemma paints_hud:
  assumes "ground g" "s_style (view g) = {}" "hud_ok (hud_text t)" "term_rows t \<le> int height"
  shows "paints (fst (paint_hud full t)) g (\<lambda>v. s_style v = {} \<and> (\<forall>i<25. \<forall>j. s_cells v i j = s_cells (view g) i j))"
    "snd (paint_hud full t) = t\<lparr>hud_painted := hud_painted (snd (paint_hud full t)), hud_dirty := hud_dirty (snd (paint_hud full t))\<rparr>"
    "\<not> hud_dirty (snd (paint_hud full t)) "
proof -
  let ?P = "\<lambda>v. s_style v = {} \<and> (\<forall>i<25. \<forall>j. s_cells v i j = s_cells (view g) i j)"
  have none: "paints [] g ?P" using assms by (auto intro!: paints_nil)
  have bs: "paints (emit_goto (int 25) (int 0) @ esc_str ''[0;2m'' @ hud_text t @ esc_str ''[0m'') g ?P"
    "paints (emit_goto (int 25) (int 0) @ esc_str ''[K'') g ?P" if "term_rows t > KV_ROWS"
  proof -
    have h: "25 < height" using that assms(4) by simp
    note go = paints_goto [OF assms(1) h, of 0, simplified]
    show "paints (emit_goto (int 25) (int 0) @ esc_str ''[0;2m'' @ hud_text t @ esc_str ''[0m'') g ?P"
    proof (simp, rule paints_append [OF go])
      fix g1 assume g1: "ground g1" "view g1 = (view g)\<lparr>s_pos := (25, 0)\<rparr>"
      show "paints (esc_str ''[0;2m'' @ hud_text t @ esc_str ''[0m'') g1 ?P"
        unfolding sgr_strings(2)
      proof (rule paints_append [OF paints_sgr [OF g1(1)]])
        fix g2 assume g2: "ground g2" "view g2 = (view g1)\<lparr>s_style := set [2]\<rparr>"
        show "paints (hud_text t @ esc_str ''[0m'') g2 ?P"
        proof (rule paints_append [OF paints_text [OF g2(1) h, of 0]])
          fix g3 assume g3: "ground g3" "s_style (view g3) = s_style (view g2) \<and> (\<forall>i j. i \<noteq> 25 \<longrightarrow> s_cells (view g3) i j = s_cells (view g2) i j)"
          show "paints (esc_str ''[0m'') g3 ?P" by (rule paints_mono [OF paints_plain [OF g3(1)]]) (use g1 g2 g3 in auto)
        qed (use assms(3) g1 g2 in \<open>auto simp: hud_ok_def\<close>)
      qed simp
    qed
    show "paints (emit_goto (int 25) (int 0) @ esc_str ''[K'') g ?P"
    proof (simp, rule paints_append [OF go])
      fix g1 assume g1: "ground g1" "view g1 = (view g)\<lparr>s_pos := (25, 0)\<rparr>"
      then have "s_style (view g1) = {}" "s_pos (view g1) = (25, 0)" using assms(2) by simp_all
      from erase [OF g1(1) this] g1(2) assms(2) show "paints (esc_str ''[K'') g1 ?P" by (auto simp: paints_def)
    qed
  qed
  show "paints (fst (paint_hud full t)) g ?P"
    using none bs by (auto simp: paint_hud_def hud_goto split: if_splits)
  show "snd (paint_hud full t) = t\<lparr>hud_painted := hud_painted (snd (paint_hud full t)), hud_dirty := hud_dirty (snd (paint_hud full t))\<rparr>"
    "\<not> hud_dirty (snd (paint_hud full t))"
    by (auto simp: paint_hud_def)
qed

lemma begin_paint:
  assumes "ground g" "s_style (view g) = {}" "b0 = (if full then esc_str ''[?25l'' @ esc_str ''[0m'' @ esc_str ''[2J'' else esc_str ''[?25l'')"
  shows "ground (feed b0 g)" "view (feed b0 g) = (view g)\<lparr>s_vis := False, s_cells := if full then (\<lambda>_ _. blank_place) else s_cells (view g)\<rparr>"
proof -
  define g1 where "g1 = feed (esc_str ''[?25l'') g"
  have g1: "ground g1" "view g1 = (view g)\<lparr>s_vis := False\<rparr>" using hide [OF assms(1)] by (simp_all add: g1_def)
  define g2 where "g2 = feed (esc_str ''[0m'') g1"
  have g2: "ground g2" "view g2 = view g1" using paints_plain [OF g1(1)] g1(2) assms(2) by (simp_all add: g2_def paints_def)
  have "s_style (view g2) = {}" using g1(2) g2(2) assms(2) by simp
  from clear [OF g2(1) this] g1 g2 show "ground (feed b0 g)"
    "view (feed b0 g) = (view g)\<lparr>s_vis := False, s_cells := if full then (\<lambda>_ _. blank_place) else s_cells (view g)\<rparr>"
    by (auto simp: assms(3) feed_append g1_def [symmetric] g2_def [symmetric])
qed

lemma end_paint:
  assumes "ground g" "\<not> s_vis (view g)" "video_wf kv"
    "b4 = emit_goto (cur_row kv) (cur_col kv) @ (if cursor_visible kv \<noteq> 0 then esc_str ''[?25h'' else [])"
  shows "ground (feed b4 g)"
    "view (feed b4 g) = (view g)\<lparr>s_pos := (nat (cur_row kv), nat (cur_col kv)), s_vis := (cursor_visible kv \<noteq> 0)\<rparr>"
proof -
  have k: "0 \<le> cur_row kv" "cur_row kv \<le> 24" "0 \<le> cur_col kv" "cur_col kv \<le> 79" using wf_rows [OF assms(3)] by auto
  have "nat (cur_row kv) < height" "nat (cur_col kv) < 80" using k height by linarith+
  note go = paints_goto [OF assms(1) this]
  define g1 where "g1 = feed (emit_goto (cur_row kv) (cur_col kv)) g"
  have g1: "ground g1" "view g1 = (view g)\<lparr>s_pos := (nat (cur_row kv), nat (cur_col kv))\<rparr>"
    using go k by (simp_all add: paints_def g1_def)
  from unhide [OF g1(1)] g1 assms(2) show "ground (feed b4 g)"
    "view (feed b4 g) = (view g)\<lparr>s_pos := (nat (cur_row kv), nat (cur_col kv)), s_vis := (cursor_visible kv \<noteq> 0)\<rparr>"
    by (auto simp: assms(4) feed_append feed_nil g1_def [symmetric])
qed

lemma in_sync_quiet:
  assumes "in_sync height t kv v" "nothing_new t kv" "video_wf kv"
  shows "painted kv v"
proof -
  have "shadow t ! i = cells kv ! i" if "i < 2000" for i
    using assms(1,2) that by (auto simp: in_sync_def nothing_new_def)
  then have "shown v (cells kv) r" if "r < 25" for r
    using assms(1,2) that by (auto simp: in_sync_def nothing_new_def shown_def)
  with assms(1,2) show ?thesis by (simp add: in_sync_def nothing_new_def painted_def)
qed

lemma flush_shows:
  assumes "ground g" "in_sync height t kv (view g)" "video_wf kv" "tty_flush force now t kv = (bs, t', kv')"
  shows "ground (feed bs g) \<and> painted kv' (view (feed bs g)) \<and> in_sync height t' kv' (view (feed bs g)) \<and>
    (kv' = kv \<or> kv' = kaypro_video_clear_dirty kv)"
proof (cases "\<not> force \<and> nothing_new t kv")
  case True
  then have "bs = []" "t' = t" "kv' = kv" using assms(2,4) by (auto simp: tty_flush_def in_sync_def)
  then show ?thesis using in_sync_quiet assms(1-3) True by (simp add: feed_nil)
next
  case False
  define full where "full = (force \<or> \<not> shadow_valid t)"
  define rows where "rows = (if full then push_bit (nat KV_ROWS) 1 - 1 else dirty_rows kv)"
  define b0 where "b0 = (if full then esc_str ''[?25l'' @ esc_str ''[0m'' @ esc_str ''[2J'' else esc_str ''[?25l'')"
  obtain b1 a sh where pr: "paint_rows full rows (cells kv) [0..<nat KV_ROWS] 0 (shadow t) = (b1, a, sh)" by (metis prod_cases3)
  define b2 where "b2 = (if a \<noteq> 0 then esc_str ''[0m'' else [])"
  define hp where "hp = paint_hud full (t\<lparr>shadow := sh\<rparr>)"
  define b4 where "b4 = emit_goto (cur_row kv) (cur_col kv) @ (if cursor_visible kv \<noteq> 0 then esc_str ''[?25h'' else [])"
  have ac: "tty_active t" using assms(2) by (simp add: in_sync_def)
  have r: "bs = b0 @ b1 @ b2 @ fst hp @ b4" "t' = (snd hp)\<lparr>shadow_valid := True, last_paint := now\<rparr>" "kv' = kaypro_video_clear_dirty kv"
    using assms(4) ac False pr
    by (simp_all add: tty_flush_def Let_def split_def full_def [symmetric] rows_def [symmetric] b0_def [symmetric] b2_def [symmetric]
        hp_def [symmetric] b4_def [symmetric] del: One_nat_def)
  have st: "s_style (view g) = {}" and lsh: "length (shadow t) = 2000" using assms(2) by (simp_all add: in_sync_def)
  have lc: "length (cells kv) = 2000" using wf_rows [OF assms(3)] by simp
  have bits: "bit rows r = (r < 25)" if full for r using that all_dirty_bits [of kv r] by (simp add: rows_def mark_all_dirty_def)
  define g1 where "g1 = feed b0 g"
  note g1 = begin_paint [OF assms(1) st b0_def, folded g1_def]
  have valid: "\<not> full \<Longrightarrow> (\<forall>r<25. shown (view g) (shadow t) r) \<and> (\<forall>i<2000. bit rows (i div 80) \<or> shadow t ! i = cells kv ! i)"
    using assms(2) by (auto simp: in_sync_def full_def rows_def)
  have old: "s_cells (view g1) r j = (if full then blank_place else cell_view (shadow t ! (r * 80 + j)))" if "r < 25" "j < 80" for r j
    using g1(2) valid that by (auto simp: shown_def)
  have "s_style (view g1) = set (styles 0)" using g1(2) st by simp
  from paints_rows [OF g1(1) this distinct_upt _ lc lsh _ pr] old
  have pr1: "paints b1 g1 (\<lambda>v. s_style v = set (styles a) \<and> (\<forall>r j. \<not> (r < 25 \<and> bit rows r) \<longrightarrow> s_cells v r j = s_cells (view g1) r j) \<and>
      (\<forall>r<25. bit rows r \<longrightarrow> shown v (cells kv) r))" and lsh': "length sh = 2000"
    and shv: "\<And>i. i < 2000 \<Longrightarrow> sh ! i = (if bit rows (i div 80) then cells kv ! i else shadow t ! i)"
    by (auto simp: atLeast0LessThan lessThan_def)
  have "sh ! i = cells kv ! i" if "i < 2000" for i
  proof (cases "bit rows (i div 80)")
    case False
    have "i div 80 < 25" using that by simp
    then have "\<not> full" using bits False by auto
    with valid False that shv [OF that] show ?thesis by auto
  qed (use shv [OF that] in simp)
  then have sh: "sh = cells kv" using lsh' lc by (intro nth_equalityI) auto
  define g2 where "g2 = feed b1 g1"
  have g2: "ground g2" "s_vis (view g2) = False" "s_style (view g2) = set (styles a)" using pr1 g1(2) by (auto simp: paints_def g2_def)
  have all: "shown (view g2) (cells kv) r" if "r < 25" for r
  proof (cases "bit rows r")
    case True
    with pr1 that show ?thesis by (auto simp: paints_def g2_def)
  next
    case False
    then have nf: "\<not> full" using bits that by auto
    have "s_cells (view g2) r j = cell_view (cells kv ! (r * 80 + j))" if j: "j < 80" for j
    proof -
      have "(r * 80 + j) div 80 = r" "r * 80 + j < 2000" using j \<open>r < 25\<close> by auto
      then have "shadow t ! (r * 80 + j) = cells kv ! (r * 80 + j)" using valid nf False by auto
      with pr1 False old [OF \<open>r < 25\<close> j] nf show ?thesis by (auto simp: paints_def g2_def)
    qed
    then show ?thesis by (simp add: shown_def)
  qed
  define g3 where "g3 = feed b2 g2"
  have g3: "ground g3" "view g3 = (view g2)\<lparr>s_style := {}\<rparr>"
    using paints_plain [OF g2(1)] g2 by (auto simp: g3_def b2_def paints_def feed_nil)
  have hk: "hud_ok (hud_text (t\<lparr>shadow := sh\<rparr>))" "term_rows (t\<lparr>shadow := sh\<rparr>) \<le> int height"
    using assms(2) by (simp_all add: in_sync_def)
  have "s_style (view g3) = {}" using g3(2) by simp
  note h = paints_hud [OF g3(1) this hk, of full, folded hp_def]
  define g4 where "g4 = feed (fst hp) g3"
  have g4: "ground g4" "\<not> s_vis (view g4)" "s_style (view g4) = {}" "\<And>i j. i < 25 \<Longrightarrow> s_cells (view g4) i j = s_cells (view g3) i j"
    using h(1) g3(2) g2(2) by (auto simp: paints_def g4_def)
  define g5 where "g5 = feed b4 g4"
  note g5 = end_paint [OF g4(1,2) assms(3) b4_def, folded g5_def]
  have fin: "feed bs g = g5" by (simp add: r(1) feed_append g5_def g4_def g3_def g2_def g1_def)
  have "shown (view g5) (cells kv) i" if "i < 25" for i
    using all [OF that] g5(2) g4(4) [OF that] g3(2) by (simp add: shown_def)
  then have pt: "painted kv' (view g5)"
    using g5(2) g4(3) by (simp add: painted_def r(3) kaypro_video_clear_dirty_def)
  have t': "shadow t' = cells kv" "term_rows t' = term_rows t" "hud_text t' = hud_text t" "tty_active t' = tty_active t" "shadow_valid t'"
    unfolding r(2) by (subst h(2), simp add: sh)+
  have "in_sync height t' kv' (view g5)"
    using pt assms(2) lc t' by (simp add: in_sync_def painted_def r(3) kaypro_video_clear_dirty_def)
  with pt g5(1) fin r(3) show ?thesis by simp
qed

end

end
