(* ===== verification/Kaypro_Terminal.thy ===== *)
theory Kaypro_Terminal
  imports Kaypro_Render_Props
begin

text \<open>
  The renderer and the screen together.  A concrete terminal reads the escape sequences byte by byte and satisfies the
  laws of \<open>ansi_terminal\<close>; a session is any sequence of guest output, flushes, size changes and HUD changes, and a flush
  after it leaves the terminal showing the Kaypro screen.
\<close>

section \<open>A terminal\<close>

text \<open>A terminal of 26 rows that reads the sequences byte by byte: \<open>vt_pend\<close> holds the bytes of an unfinished sequence.\<close>

record vt =
  vt_view :: screen
  vt_pend :: "u8 list"

fun vt_params :: "nat \<Rightarrow> u8 list \<Rightarrow> nat list" where
  "vt_params n [] = [n]"
| "vt_params n (b # bs) = (if b = 0x3B then n # vt_params 0 bs else vt_params (n * 10 + (unat b - 48)) bs)"

definition vt_put :: "u8 list \<Rightarrow> screen \<Rightarrow> screen" where
  "vt_put g v =
     (let (r, c) = s_pos v
      in v\<lparr>s_cells := (s_cells v)(r := (s_cells v r)(c := (g, s_style v))), s_pos := (if c < 79 then (r, c + 1) else (r, c))\<rparr>)"

definition vt_exec :: "u8 list \<Rightarrow> u8 \<Rightarrow> screen \<Rightarrow> screen" where
  "vt_exec ps fin v =
     (if fin = 0x48 then v\<lparr>s_pos := (case vt_params 0 ps of [r, c] \<Rightarrow> (r - 1, c - 1) | _ \<Rightarrow> (0, 0))\<rparr>
      else if fin = 0x6D then v\<lparr>s_style := fold (\<lambda>p st. if p = 0 then {} else insert p st) (vt_params 0 ps) (s_style v)\<rparr>
      else if fin = 0x4A \<and> ps = [0x32] then v\<lparr>s_cells := (\<lambda>_ _. ([0x20], s_style v))\<rparr>
      else if fin = 0x4B \<and> ps = [] then
        (let (r, c) = s_pos v in v\<lparr>s_cells := (s_cells v)(r := \<lambda>j. if c \<le> j then ([0x20], s_style v) else s_cells v r j)\<rparr>)
      else if ps = [0x3F, 0x32, 0x35] \<and> fin \<in> {0x68, 0x6C} then v\<lparr>s_vis := (fin = 0x68)\<rparr>
      else v)"

definition vt_byte :: "u8 \<Rightarrow> vt \<Rightarrow> vt" where
  "vt_byte b t =
     (case vt_pend t of
        [] \<Rightarrow> if b = 0x1B \<or> b = 0xE2 then t\<lparr>vt_pend := [b]\<rparr>
              else if 0x20 \<le> b \<and> b < 0x7F then t\<lparr>vt_view := vt_put [b] (vt_view t)\<rparr> else t
      | p # ps \<Rightarrow>
          if p = 0xE2 then
            (if length ps = 1 then t\<lparr>vt_view := vt_put (p # ps @ [b]) (vt_view t), vt_pend := []\<rparr> else t\<lparr>vt_pend := p # ps @ [b]\<rparr>)
          else if 0x40 \<le> b \<and> b \<le> 0x7E \<and> b \<noteq> 0x5B then t\<lparr>vt_view := vt_exec (tl ps) b (vt_view t), vt_pend := []\<rparr>
          else t\<lparr>vt_pend := p # ps @ [b]\<rparr>)"

definition vt_feed :: "u8 list \<Rightarrow> vt \<Rightarrow> vt" where
  "vt_feed bs t = fold vt_byte bs t"

definition vt_ground :: "vt \<Rightarrow> bool" where
  "vt_ground t \<longleftrightarrow> vt_pend t = []"

lemma vt_collect:
  assumes "vt_pend t = 0x1B # ps" "\<And>b. b \<in> set bs \<Longrightarrow> b < 0x40"
  shows "vt_feed bs t = t\<lparr>vt_pend := 0x1B # ps @ bs\<rparr>"
  using assms
proof (induction bs arbitrary: t ps)
  case Nil
  then show ?case by (simp add: vt_feed_def)
next
  case (Cons b bs)
  have "\<not> 0x40 \<le> b" using Cons.prems(2) by (simp add: not_le)
  then have "vt_byte b t = t\<lparr>vt_pend := 0x1B # ps @ [b]\<rparr>" using Cons.prems(1) by (simp add: vt_byte_def)
  moreover have "vt_feed bs (t\<lparr>vt_pend := 0x1B # ps @ [b]\<rparr>) = t\<lparr>vt_pend := 0x1B # (ps @ [b]) @ bs\<rparr>"
    using Cons.IH [of "t\<lparr>vt_pend := 0x1B # ps @ [b]\<rparr>" "ps @ [b]"] Cons.prems(2) by simp
  ultimately show ?case by (simp add: vt_feed_def)
qed

text \<open>A whole control sequence.\<close>

lemma vt_csi:
  assumes "vt_ground t" "\<And>b. b \<in> set ps \<Longrightarrow> b < 0x40" "0x40 \<le> fin" "fin \<le> 0x7E" "fin \<noteq> 0x5B"
  shows "vt_feed (esc_str ''['' @ ps @ [fin]) t = t\<lparr>vt_view := vt_exec ps fin (vt_view t)\<rparr>"
proof -
  have e: "vt_feed (esc_str ''['') t = t\<lparr>vt_pend := [0x1B, 0x5B]\<rparr>"
    using assms(1) by (simp add: vt_feed_def esc_str_def vt_byte_def vt_ground_def)
  have "vt_feed ps (t\<lparr>vt_pend := [0x1B, 0x5B]\<rparr>) = t\<lparr>vt_pend := 0x1B # 0x5B # ps\<rparr>"
    using vt_collect [of "t\<lparr>vt_pend := [0x1B, 0x5B]\<rparr>" "[0x5B]" ps] assms(2) by simp
  then have "vt_feed (esc_str ''['' @ ps) t = t\<lparr>vt_pend := 0x1B # 0x5B # ps\<rparr>" using e by (simp add: vt_feed_def)
  moreover have "vt_byte fin (t\<lparr>vt_pend := 0x1B # 0x5B # ps\<rparr>) = t\<lparr>vt_view := vt_exec ps fin (vt_view t), vt_pend := []\<rparr>"
    using assms(3-5) by (simp add: vt_byte_def)
  moreover have "t\<lparr>vt_view := x, vt_pend := []\<rparr> = t\<lparr>vt_view := x\<rparr>" for x using assms(1) by (simp add: vt_ground_def)
  ultimately show ?thesis by (simp add: vt_feed_def)
qed

lemma dec_digits: "set (dec n) \<subseteq> {0x30..0x39}"
proof (induction n rule: dec.induct)
  case (1 n)
  have d: "0x30 + of_nat m \<in> {0x30..0x39 :: u8}" if "m < 10" for m
  proof -
    have "unat (0x30 + of_nat m :: u8) = 48 + m" using that by (simp add: unat_word_ariths unat_of_nat)
    then show ?thesis using that by (simp add: word_le_nat_alt)
  qed
  show ?case using 1 d [of n] d [of "n mod 10"] by (subst dec.simps) auto
qed

lemma params_dec: "\<exists>k. k > 0 \<and> vt_params m (dec n @ bs) = vt_params (m * 10 ^ k + n) bs"
proof (induction n arbitrary: m bs rule: dec.induct)
  case (1 n)
  have d: "unat (0x30 + of_nat j :: u8) = 48 + j" "(0x30 + of_nat j :: u8) \<noteq> 0x3B" if "j < 10" for j
  proof -
    show u: "unat (0x30 + of_nat j :: u8) = 48 + j" using that by (simp add: unat_word_ariths unat_of_nat)
    show "(0x30 + of_nat j :: u8) \<noteq> 0x3B"
    proof
      assume "(0x30 + of_nat j :: u8) = 0x3B"
      then have "unat (0x30 + of_nat j :: u8) = 59" by simp
      with u that show False by simp
    qed
  qed
  show ?case
  proof (cases "n < 10")
    case True
    then show ?thesis using d [of n] by (intro exI [of _ 1]) (simp add: dec.simps [of n] mult.commute)
  next
    case False
    then obtain k where k: "k > 0" "vt_params m (dec (n div 10) @ [0x30 + of_nat (n mod 10)] @ bs) =
        vt_params (m * 10 ^ k + n div 10) ([0x30 + of_nat (n mod 10)] @ bs)"
      using 1 [of m "[0x30 + of_nat (n mod 10)] @ bs"] by blast
    have "(m * 10 ^ k + n div 10) * 10 + n mod 10 = m * 10 ^ Suc k + n" by (simp add: algebra_simps)
    with k d [of "n mod 10"] False show ?thesis
      by (intro exI [of _ "Suc k"]) (simp add: dec.simps [of n] algebra_simps)
  qed
qed

lemma params_dec0: "vt_params 0 (dec n @ bs) = vt_params n bs"
  using params_dec [of 0 n bs] by auto

lemma params_sgr: "vt_params n (concat (map (\<lambda>p. 0x3B # dec p) ps)) = n # ps"
  by (induction ps arbitrary: n) (simp_all add: params_dec0)

lemma style_fold: "0 \<notin> set ps \<Longrightarrow> fold (\<lambda>p st. if p = 0 then {} else insert p st) ps st = st \<union> set ps"
  by (induction ps arbitrary: st) auto

lemma dec_less: "b \<in> set (dec n) \<Longrightarrow> b < 0x40"
  using dec_digits [of n] le_less_trans [of b "0x39" "0x40"] by auto

lemma vt_glyph:
  assumes "vt_ground t" "glyph g"
  shows "vt_feed g t = t\<lparr>vt_view := vt_put g (vt_view t)\<rparr>"
  using assms unfolding glyph_def
proof (elim disjE exE conjE)
  fix c assume c: "g = [c]" "0x20 \<le> c" "c < 0x7F"
  then have "c \<noteq> 0x1B" "c \<noteq> 0xE2" by auto
  with c assms(1) show ?thesis by (simp add: vt_feed_def vt_byte_def vt_ground_def)
next
  fix b c assume "g = [0xE2, b, c]"
  with assms(1) show ?thesis by (simp add: vt_feed_def vt_byte_def vt_ground_def)
qed

interpretation vtt: ansi_terminal 26 vt_feed vt_ground vt_view
proof
  note [simp] = vt_ground_def
  fix t :: vt and xs ys :: "u8 list"
  show "(25 :: nat) \<le> 26" "vt_feed [] t = t" "vt_feed (xs @ ys) t = vt_feed ys (vt_feed xs t)" by (simp_all add: vt_feed_def)
  assume g: "vt_ground t"
  have csi: "vt_feed (esc_str (CHR 0x5B # s)) t = t\<lparr>vt_view := vt_exec (map of_char (butlast s)) (of_char (last s)) (vt_view t)\<rparr>"
    if "s \<noteq> []" "list_all (\<lambda>c. of_char c < (0x40 :: u8)) (butlast s)" "0x40 \<le> (of_char (last s) :: u8)" "(of_char (last s) :: u8) \<le> 0x7E"
      "(of_char (last s) :: u8) \<noteq> 0x5B" for s
  proof -
    have "map of_char s = (map of_char (butlast s @ [last s]) :: u8 list)" using that(1) by simp
    then have "esc_str (CHR 0x5B # s) = esc_str ''['' @ map of_char (butlast s) @ [of_char (last s)]"
      by (simp add: esc_str_def)
    then show ?thesis using vt_csi [OF g, of "map of_char (butlast s)" "of_char (last s)"] that by (auto simp: list_all_iff)
  qed
  show "vt_ground (vt_feed (esc_str ''[?1049h'') t)" using g csi [of "''?1049h''"] by simp
  show "vt_ground (vt_feed (esc_str ''[H'') t) \<and> vt_view (vt_feed (esc_str ''[H'') t) = (vt_view t)\<lparr>s_pos := (0, 0)\<rparr>"
    using g csi [of "''H''"] by (simp add: vt_exec_def)
  show "vt_ground (vt_feed (esc_str ''[?25l'') t) \<and> vt_view (vt_feed (esc_str ''[?25l'') t) = (vt_view t)\<lparr>s_vis := False\<rparr>"
    using g csi [of "''?25l''"] by (simp add: vt_exec_def)
  show "vt_ground (vt_feed (esc_str ''[?25h'') t) \<and> vt_view (vt_feed (esc_str ''[?25h'') t) = (vt_view t)\<lparr>s_vis := True\<rparr>"
    using g csi [of "''?25h''"] by (simp add: vt_exec_def)
  show "vt_ground (vt_feed (esc_str ''[2J'') t) \<and> vt_view (vt_feed (esc_str ''[2J'') t) = (vt_view t)\<lparr>s_cells := (\<lambda>_ _. blank_place)\<rparr>"
    if "s_style (vt_view t) = {}"
    using g csi [of "''2J''"] that by (simp add: vt_exec_def blank_place_def)
  show "vt_ground (vt_feed (esc_str ''[K'') t) \<and> vt_view (vt_feed (esc_str ''[K'') t) =
      (vt_view t)\<lparr>s_cells := (s_cells (vt_view t))(r := \<lambda>j. if c \<le> j then blank_place else s_cells (vt_view t) r j)\<rparr>"
    if "s_style (vt_view t) = {}" "s_pos (vt_view t) = (r, c)" for r c
    using g csi [of "''K''"] that by (simp add: vt_exec_def blank_place_def cong: if_cong)
  show "vt_ground (vt_feed gl t) \<and> (\<exists>p. (c < 79 \<longrightarrow> p = (r, c + 1)) \<and> vt_view (vt_feed gl t) =
      (vt_view t)\<lparr>s_cells := (s_cells (vt_view t))(r := (s_cells (vt_view t) r)(c := (gl, s_style (vt_view t)))), s_pos := p\<rparr>)"
    if "glyph gl" "s_pos (vt_view t) = (r, c)" for gl r c
    using g vt_glyph [OF g that(1)] that(2) by (auto simp: vt_put_def)
  show "vt_ground (vt_feed (esc_str ''['' @ dec (r + 1) @ [0x3B] @ dec (c + 1) @ [0x48]) t) \<and>
      vt_view (vt_feed (esc_str ''['' @ dec (r + 1) @ [0x3B] @ dec (c + 1) @ [0x48]) t) = (vt_view t)\<lparr>s_pos := (r, c)\<rparr>" for r c
  proof -
    have "vt_feed (esc_str ''['' @ (dec (r + 1) @ 0x3B # dec (c + 1)) @ [0x48]) t =
        t\<lparr>vt_view := vt_exec (dec (r + 1) @ 0x3B # dec (c + 1)) 0x48 (vt_view t)\<rparr>"
      by (rule vt_csi [OF g]) (auto dest: dec_less)
    moreover have "vt_params 0 (dec (r + 1) @ 0x3B # dec (c + 1)) = [r + 1, c + 1]"
      using params_dec0 [of "c + 1" "[]"] by (simp add: params_dec0)
    ultimately show ?thesis using g by (simp add: vt_exec_def)
  qed
  show "vt_ground (vt_feed (esc_str ''[0'' @ concat (map (\<lambda>p. 0x3B # dec p) ps) @ [0x6D]) t) \<and>
      vt_view (vt_feed (esc_str ''[0'' @ concat (map (\<lambda>p. 0x3B # dec p) ps) @ [0x6D]) t) = (vt_view t)\<lparr>s_style := set ps\<rparr>"
    if "set ps \<subseteq> {2, 4, 5, 7}" for ps
  proof -
    have e: "esc_str ''[0'' @ concat (map (\<lambda>p. 0x3B # dec p) ps) @ [0x6D] =
        esc_str ''['' @ (0x30 # concat (map (\<lambda>p. 0x3B # dec p) ps)) @ [0x6D]" by (simp add: esc_str_def)
    have "vt_feed (esc_str ''['' @ (0x30 # concat (map (\<lambda>p. 0x3B # dec p) ps)) @ [0x6D]) t =
        t\<lparr>vt_view := vt_exec (0x30 # concat (map (\<lambda>p. 0x3B # dec p) ps)) 0x6D (vt_view t)\<rparr>"
      by (rule vt_csi [OF g]) (auto dest: dec_less split: if_splits)
    moreover have "vt_params 0 (0x30 # concat (map (\<lambda>p. 0x3B # dec p) ps)) = 0 # ps" by (simp add: params_sgr)
    moreover have "0 \<notin> set ps" using that by auto
    ultimately show ?thesis unfolding e using g by (simp add: vt_exec_def style_fold)
  qed
qed

section \<open>Sessions\<close>

text \<open>What happens between the renderer and the screen: the guest writes, a flush is asked for or due, the host terminal
  changes its size, the HUD text changes.\<close>

datatype event =
    Guest "u8 list"
  | Flush bool int
  | Due int
  | Resize "(int \<times> int) option"
  | Hud "u8 list option"

definition event_ok :: "nat \<Rightarrow> event \<Rightarrow> bool" where
  "event_ok height ev \<longleftrightarrow>
     (case ev of
        Resize (Some (r, c)) \<Rightarrow> r \<le> int height
      | Hud (Some s) \<Rightarrow> (\<forall>c\<in>set s. 0x20 \<le> c \<and> c < 0x7F)
      | _ \<Rightarrow> True)"

fun happens :: "(u8 list \<Rightarrow> 't \<Rightarrow> 't) \<Rightarrow> event \<Rightarrow> 't \<times> tty \<times> kaypro_video \<Rightarrow> ('t \<times> tty \<times> kaypro_video) option" where
  "happens feed (Guest bs) (g, t, kv) = map_option (\<lambda>kv. (g, t, kv)) (kaypro_video_write bs kv)"
| "happens feed (Flush force now) (g, t, kv) = (let (bs, t, kv) = tty_flush force now t kv in Some (feed bs g, t, kv))"
| "happens feed (Due now) (g, t, kv) = (let (bs, t, kv) = tty_flush_if_due now t kv in Some (feed bs g, t, kv))"
| "happens feed (Resize ws) (g, t, kv) = Some (g, invalidate ws t, kv)"
| "happens feed (Hud text) (g, t, kv) = Some (g, set_hud text t, kv)"

fun session :: "(u8 list \<Rightarrow> 't \<Rightarrow> 't) \<Rightarrow> event list \<Rightarrow> 't \<times> tty \<times> kaypro_video \<Rightarrow> ('t \<times> tty \<times> kaypro_video) option" where
  "session feed [] s = Some s"
| "session feed (ev # evs) s = Option.bind (happens feed ev s) (session feed evs)"

lemma clear_dirty_ok: "screen_ok kv \<Longrightarrow> screen_ok (kaypro_video_clear_dirty kv)"
  using esc_lookup_cong [of "kaypro_video_clear_dirty kv" kv] by (simp add: screen_ok_def esc_ok_def kaypro_video_clear_dirty_def)

lemma in_sync_write:
  assumes "in_sync height t kv v" "tracked kv kv'" "flagged kv kv'"
  shows "in_sync height t kv' v"
proof -
  have "bit (dirty_rows kv') (i div 80) \<or> shadow t ! i = cells kv' ! i" if "shadow_valid t" "i < 2000" for i
  proof -
    have "i div 80 < 25" using that(2) by simp
    moreover have "bit (dirty_rows kv) (i div 80) \<or> shadow t ! i = cells kv ! i" using assms(1) that by (simp add: in_sync_def)
    moreover have "cells kv' ! i = cells kv ! i \<or> bit (dirty_rows kv') (i div 80)" using assms(2) that by (simp add: tracked_def)
    moreover have "bit (dirty_rows kv) (i div 80) \<Longrightarrow> bit (dirty_rows kv') (i div 80)"
      using assms(2) \<open>i div 80 < 25\<close> by (simp add: tracked_def)
    ultimately show ?thesis by auto
  qed
  moreover have "cursor_moved kv' = 0 \<Longrightarrow> cursor_moved kv = 0 \<and> cur_row kv' = cur_row kv \<and> cur_col kv' = cur_col kv \<and>
      cursor_visible kv' = cursor_visible kv" using assms(3) by (auto simp: flagged_def)
  ultimately show ?thesis using assms(1) by (simp add: in_sync_def)
qed

lemma in_sync_invalidate:
  assumes "in_sync height t kv v" "event_ok height (Resize ws)"
  shows "in_sync height (invalidate ws t) kv v"
  using assms by (auto simp: in_sync_def invalidate_def query_size_def event_ok_def Let_def split: option.splits)

lemma in_sync_hud:
  assumes "in_sync height t kv v" "event_ok height (Hud text)"
  shows "in_sync height (set_hud text t) kv v"
proof -
  have "hud_ok (take 80 s @ replicate (80 - length s) 0x20)" if "\<forall>c\<in>set s. 0x20 \<le> c \<and> c < 0x7F" for s
    using that by (auto simp: hud_ok_def dest: in_set_takeD)
  then have "hud_ok (case text of None \<Rightarrow> [] | Some s \<Rightarrow> if s = [] then [] else take 80 s @ replicate (80 - length s) 0x20)"
    using assms(2) by (cases "text") (simp_all add: event_ok_def hud_ok_def [of "[]"])
  then have "hud_ok (hud_text (set_hud text t))" using assms(1) by (simp add: set_hud_def Let_def in_sync_def)
  moreover have "tty_active (set_hud text t) = tty_active t" "shadow (set_hud text t) = shadow t" "term_rows (set_hud text t) = term_rows t"
    "shadow_valid (set_hud text t) = shadow_valid t" by (simp_all add: set_hud_def Let_def)
  ultimately show ?thesis using assms(1) by (simp add: in_sync_def)
qed

context ansi_terminal
begin

definition together :: "'t \<times> tty \<times> kaypro_video \<Rightarrow> bool" where
  "together = (\<lambda>(g, t, kv). ground g \<and> in_sync height t kv (view g) \<and> screen_ok kv)"

lemma together_flush:
  assumes "together (g, t, kv)" "tty_flush force now t kv = (bs, t', kv')"
  shows "together (feed bs g, t', kv')" "painted kv' (view (feed bs g))"
proof -
  have "video_wf kv" using assms(1) by (simp add: together_def screen_ok_def)
  from flush_shows [OF _ _ this assms(2), of g] assms(1) clear_dirty_ok
  show "together (feed bs g, t', kv')" "painted kv' (view (feed bs g))" by (auto simp: together_def)
qed

lemma together_happens:
  assumes "together s" "event_ok height ev"
  shows "\<exists>s'. happens feed ev s = Some s' \<and> together s'"
proof -
  obtain g t kv where s: "s = (g, t, kv)" by (cases s)
  show ?thesis
  proof (cases ev)
    case (Guest bs)
    have ok: "screen_ok kv" using assms(1) s by (simp add: together_def)
    obtain kv' where kv': "kaypro_video_write bs kv = Some kv'" "screen_ok kv'" "tracked kv kv'" using write_step [OF ok] by blast
    with in_sync_write [OF _ kv'(3) flagged_write [OF kv'(1)]] assms(1) s Guest show ?thesis by (auto simp: together_def)
  next
    case (Flush force now)
    obtain bs t' kv' where "tty_flush force now t kv = (bs, t', kv')" by (metis prod_cases3)
    with together_flush(1) assms(1) s Flush show ?thesis by auto
  next
    case (Due now)
    show ?thesis
    proof (cases "tty_active t \<and> \<not> nothing_new t kv \<and> now - last_paint t \<ge> 16000000")
      case True
      obtain bs t' kv' where f: "tty_flush False now t kv = (bs, t', kv')" by (metis prod_cases3)
      with True have "tty_flush_if_due now t kv = (bs, t', kv')" by (simp add: tty_flush_if_due_def)
      with together_flush(1) [OF _ f] assms(1) s Due show ?thesis by auto
    next
      case False
      then have "tty_flush_if_due now t kv = ([], t, kv)" by (auto simp: tty_flush_if_due_def)
      with assms(1) s Due show ?thesis by (simp add: feed_nil)
    qed
  next
    case (Resize ws)
    with in_sync_invalidate assms s show ?thesis by (auto simp: together_def)
  next
    case (Hud txt1)
    with in_sync_hud assms s show ?thesis by (auto simp: together_def)
  qed
qed

lemma together_session:
  assumes "together s" "list_all (event_ok height) evs"
  shows "\<exists>s'. session feed evs s = Some s' \<and> together s'"
  using assms
proof (induction evs arbitrary: s)
  case (Cons ev evs)
  from together_happens [of s ev] Cons.prems obtain s1 where "happens feed ev s = Some s1" "together s1" by auto
  with Cons.IH [of s1] Cons.prems show ?case by auto
qed simp

lemma together_init:
  assumes "ground g" "event_ok height (Resize ws)" "screen_ok kv"
  shows "together (feed (fst (tty_init ws now tty_start)) g, snd (tty_init ws now tty_start), kv)"
proof -
  define g1 where "g1 = feed (esc_str ''[?1049h'') g"
  define g2 where "g2 = feed (esc_str ''[0m'') g1"
  define g3 where "g3 = feed (esc_str ''[2J'') g2"
  define g4 where "g4 = feed (esc_str ''[H'') g3"
  have g1: "ground g1" using alternate [OF assms(1)] by (simp add: g1_def)
  have g2: "ground g2" "s_style (view g2) = {}" using paints_plain [OF g1] by (auto simp: paints_def g2_def)
  have g3: "ground g3" "s_style (view g3) = {}" using clear [OF g2] g2(2) by (auto simp: g3_def)
  have g4: "ground g4" "s_style (view g4) = {}" using home [OF g3(1)] g3(2) by (auto simp: g4_def)
  have g5: "ground (feed (esc_str ''[?25l'') g4)" "s_style (view (feed (esc_str ''[?25l'') g4)) = {}" using hide [OF g4(1)] g4(2) by auto
  have "feed (fst (tty_init ws now tty_start)) g = feed (esc_str ''[?25l'') g4"
    by (simp add: tty_init_def Let_def feed_append g1_def g2_def g3_def g4_def)
  then show ?thesis
    using g5 assms(2,3) height
    by (auto simp: together_def in_sync_def tty_init_def Let_def tty_start_def query_size_def event_ok_def hud_ok_def split: option.splits)
qed

end

section \<open>Properties\<close>

text \<open>C13: On every terminal that understands the escape sequences, after the start of the renderer and any sequence of
  guest output, flushes, timed flushes, changes of the terminal's size and of the HUD text, a flush leaves the terminal
  showing the Kaypro screen: each of the 25 x 80 cells as its character or braille block in its styles, the cursor where
  the Kaypro has it, visible or hidden as there.\<close>

theorem flush_shows_screen:
  assumes "ansi_terminal height feed ground view" "ground g" "list_all (event_ok height) (Resize ws # evs)"
  shows "\<exists>kv0 g1 t1 kv1. kaypro_video_init (of_bool m84) = Some kv0 \<and>
    session feed evs (feed (fst (tty_init ws now tty_start)) g, snd (tty_init ws now tty_start), kv0) = Some (g1, t1, kv1) \<and>
    (let (bs, t2, kv2) = tty_flush force later t1 kv1; v = view (feed bs g1)
     in (\<forall>r c. r < 25 \<and> c < 80 \<longrightarrow> s_cells v r c = cell_view (cells kv1 ! (r * 80 + c))) \<and>
        s_pos v = (nat (cur_row kv1), nat (cur_col kv1)) \<and> s_vis v = (cursor_visible kv1 \<noteq> 0))"
proof -
  obtain kv0 where kv0: "kaypro_video_init (of_bool m84) = Some kv0" "screen_ok kv0" using init_ok [of "of_bool m84"] by auto
  have i: "ansi_terminal.together height ground view (feed (fst (tty_init ws now tty_start)) g, snd (tty_init ws now tty_start), kv0)"
    using ansi_terminal.together_init [OF assms(1,2) _ kv0(2)] assms(3) by simp
  obtain g1 t1 kv1 where s: "session feed evs (feed (fst (tty_init ws now tty_start)) g, snd (tty_init ws now tty_start), kv0) = Some (g1, t1, kv1)"
    "ansi_terminal.together height ground view (g1, t1, kv1)"
    using ansi_terminal.together_session [OF assms(1) i, of evs] assms(3) by auto
  obtain bs t2 kv2 where f: "tty_flush force later t1 kv1 = (bs, t2, kv2)" by (metis prod_cases3)
  have "kv2 = kv1 \<or> kv2 = kaypro_video_clear_dirty kv1"
    using f by (auto simp: tty_flush_def Let_def split_def split: if_splits)
  then have e: "cells kv2 = cells kv1" "cur_row kv2 = cur_row kv1" "cur_col kv2 = cur_col kv1" "cursor_visible kv2 = cursor_visible kv1"
    by (auto simp: kaypro_video_clear_dirty_def)
  have "painted kv2 (view (feed bs g1))" by (rule ansi_terminal.together_flush(2) [OF assms(1) s(2) f])
  then have "(\<forall>r c. r < 25 \<and> c < 80 \<longrightarrow> s_cells (view (feed bs g1)) r c = cell_view (cells kv1 ! (r * 80 + c))) \<and>
      s_pos (view (feed bs g1)) = (nat (cur_row kv1), nat (cur_col kv1)) \<and> s_vis (view (feed bs g1)) = (cursor_visible kv1 \<noteq> 0)"
    using e by (simp add: painted_def shown_def)
  with kv0(1) s(1) f show ?thesis by (intro exI [of _ kv0] exI [of _ g1] exI [of _ t1] exI [of _ kv1]) (simp add: Let_def)
qed

text \<open>The terminal of 26 rows, blank.\<close>

definition vt_start :: vt where
  "vt_start = \<lparr>vt_view = \<lparr>s_cells = \<lambda>_ _. blank_place, s_pos = (0, 0), s_style = {}, s_vis = True\<rparr>, vt_pend = []\<rparr>"

theorem flush_shows_screen_witness:
  "\<exists>kv0 g1 t1 kv1. kaypro_video_init 1 = Some kv0 \<and>
    session vt_feed [Hud (Some [0x48]), Guest [0x41, 0x42], Due 20000000, Guest [0x43]]
      (vt_feed (fst (tty_init (Some (26, 80)) 0 tty_start)) vt_start, snd (tty_init (Some (26, 80)) 0 tty_start), kv0) = Some (g1, t1, kv1) \<and>
    (let (bs, t2, kv2) = tty_flush False 40000000 t1 kv1; v = vt_view (vt_feed bs g1)
     in (\<forall>r c. r < 25 \<and> c < 80 \<longrightarrow> s_cells v r c = cell_view (cells kv1 ! (r * 80 + c))) \<and>
        s_pos v = (nat (cur_row kv1), nat (cur_col kv1)) \<and> s_vis v = (cursor_visible kv1 \<noteq> 0))"
  using flush_shows_screen [OF vtt.ansi_terminal_axioms, of vt_start "Some (26, 80)"
      "[Hud (Some [0x48]), Guest [0x41, 0x42], Due 20000000, Guest [0x43]]" True 0 False 40000000]
  by (simp add: vt_ground_def vt_start_def event_ok_def)

end
