(* ===== verification/Kaypro_Script_Props.thy ===== *)
theory Kaypro_Script_Props
  imports Kaypro_Script Kaypro_Kbd_Props Kaypro_Terminal
begin

text \<open>
  A keyboard script from its file to the guest: what \<open>kaypro_kbd_script_load\<close> accepts never runs off its end, its text
  reaches the guest in order, and a script written out step by step loads as the steps it was written from.
\<close>

section \<open>The steps as a source of bytes\<close>

fun typed :: "step list \<Rightarrow> bytes" where
  "typed [] = []"
| "typed (s # ss) = (case s of ST_BYTES bs \<Rightarrow> bs @ typed ss | ST_END \<Rightarrow> [] | _ \<Rightarrow> typed ss)"

definition steps_ok :: "step list \<Rightarrow> bool" where
  "steps_ok ss \<longleftrightarrow> ST_BYTES [] \<notin> set ss"

text \<open>The current step is inside the script, which ends in \<open>ST_END\<close>; only a line that is being typed has an offset.\<close>

definition script_ok :: "kbd \<Rightarrow> bool" where
  "script_ok k \<longleftrightarrow> kbd_ok k \<and> scripted k \<and> steps_ok (steps k) \<and>
     cur_step k < length (steps k) \<and> last (steps k) = ST_END \<and>
     (case steps k ! cur_step k of ST_BYTES bs \<Rightarrow> step_off k < length bs | _ \<Rightarrow> step_off k = 0)"

definition script_rest :: "kbd \<Rightarrow> bytes" where
  "script_rest k = q_list k @ drop (step_off k) (typed (drop (cur_step k) (steps k)))"

definition same_script :: "kbd \<Rightarrow> kbd \<Rightarrow> bool" where
  "same_script k' k \<longleftrightarrow> queue k' = queue k \<and> q_head k' = q_head k \<and> q_tail k' = q_tail k \<and> scripted k' = scripted k \<and>
     keymap k' = keymap k \<and> steps k' = steps k \<and> cur_step k' = cur_step k \<and> step_off k' = step_off k"

lemma same_script_cong:
  "same_script k' k \<Longrightarrow> script_ok k' = script_ok k"
  "same_script k' k \<Longrightarrow> script_rest k' = script_rest k"
  by (simp_all add: same_script_def script_ok_def script_rest_def kbd_ok_def q_list_def q_len_def cong: step.case_cong)

lemma script_fields [simp]:
  "q_list (k\<lparr>step_off := n\<rparr>) = q_list k" "q_list (k\<lparr>cur_step := n\<rparr>) = q_list k"
  "kbd_ok (k\<lparr>step_off := n\<rparr>) = kbd_ok k" "kbd_ok (k\<lparr>cur_step := n\<rparr>) = kbd_ok k"
  by (simp_all add: q_list_def q_len_def kbd_ok_def)

lemma feed_shape:
  assumes "kbd_ok k" "step_off k \<le> length bs"
  shows "kbd_ok (feed bs k) \<and> step_off (feed bs k) \<le> length bs \<and> cur_step (feed bs k) = cur_step k \<and>
    steps (feed bs k) = steps k \<and> scripted (feed bs k) = scripted k \<and>
    q_list (feed bs k) @ drop (step_off (feed bs k)) bs = q_list k @ drop (step_off k) bs \<and>
    q_len k \<le> q_len (feed bs k) \<and> (q_len k = 0 \<and> step_off k < length bs \<longrightarrow> 0 < q_len (feed bs k))"
  using assms
proof (induction bs k rule: feed.induct)
  case (1 bs k)
  show ?case
  proof (cases "step_off k < length bs \<and> \<not> q_full k")
    case True
    define k' where "k' = (q_push (bs ! step_off k) k)\<lparr>step_off := step_off k + 1\<rparr>"
    have "q_len k < 255" using True q_full_iff [OF "1.prems"(1)] q_len_less [of k] by auto
    then have l: "q_list k' = q_list k @ [bs ! step_off k]" using q_push_list [OF "1.prems"(1)] by (simp add: k'_def)
    then have "q_len k' = Suc (q_len k)" by (metis length_append_singleton length_q_list)
    moreover have "kbd_ok k'" using q_push_ok [OF "1.prems"(1)] by (simp add: k'_def)
    moreover have "feed bs k = feed bs k'" using True by (simp add: feed.simps [of bs k] k'_def)
    moreover have "bs ! step_off k # drop (Suc (step_off k)) bs = drop (step_off k) bs" using True by (simp add: Cons_nth_drop_Suc)
    ultimately show ?thesis using True "1.IH" [OF True, folded k'_def] l by (simp add: k'_def)
  qed (use "1.prems" in \<open>auto simp: feed.simps [of bs k] q_full_iff\<close>)
qed

lemma typed_step:
  assumes "cur_step k < length (steps k)"
  shows "typed (drop (cur_step k) (steps k)) =
    (case steps k ! cur_step k of ST_BYTES bs \<Rightarrow> bs @ typed (drop (Suc (cur_step k)) (steps k)) | ST_END \<Rightarrow> []
     | _ \<Rightarrow> typed (drop (Suc (cur_step k)) (steps k)))"
  using assms by (simp add: Cons_nth_drop_Suc [symmetric])

text \<open>Going on to the next step.\<close>

lemma next_step:
  assumes "script_ok k" "steps k ! cur_step k \<noteq> ST_END"
    and "kbd_ok k'" "scripted k'" "steps k' = steps k" "cur_step k' = Suc (cur_step k)" "step_off k' = 0"
  shows "script_ok k'"
proof -
  have "Suc (cur_step k) < length (steps k)"
    using assms(1, 2) unfolding script_ok_def
    by (metis Suc_lessI diff_Suc_1 last_conv_nth list.size(3) not_less_zero)
  moreover have "steps k ! Suc (cur_step k) \<noteq> ST_BYTES []"
    using assms(1) calculation by (metis nth_mem script_ok_def steps_ok_def)
  ultimately show ?thesis using assms unfolding script_ok_def by (auto split: step.splits)
qed

text \<open>What a skipped step leaves: the script behind it.\<close>

lemma skip_step:
  assumes "script_ok k" "q_empty k" "\<And>bs. steps k ! cur_step k \<noteq> ST_BYTES bs" "steps k ! cur_step k \<noteq> ST_END"
    and "same_script k' (k\<lparr>cur_step := cur_step k + 1\<rparr>)"
  shows "script_ok k' \<and> script_rest k' = script_rest k"
proof -
  have z: "step_off k = 0" "cur_step k < length (steps k)"
    using assms(1, 3) by (auto simp: script_ok_def split: step.splits)
  have "script_ok (k\<lparr>cur_step := cur_step k + 1\<rparr>)"
    by (rule next_step [OF assms(1, 4)]) (use assms(1) z in \<open>simp_all add: script_ok_def\<close>)
  moreover have "typed (drop (cur_step k) (steps k)) = typed (drop (Suc (cur_step k)) (steps k))"
    using typed_step [OF z(2)] assms(3, 4) by (simp split: step.splits)
  ultimately show ?thesis using same_script_cong [OF assms(5)] z by (simp add: script_rest_def)
qed

lemma feed_step:
  assumes "script_ok k" "q_empty k" "steps k ! cur_step k = ST_BYTES bs"
    and "k' = (let k = feed bs k in if step_off k = length bs then k\<lparr>step_off := 0, cur_step := cur_step k + 1\<rparr> else k)"
  shows "script_ok k' \<and> script_rest k' = script_rest k \<and> q_list k' \<noteq> []"
proof -
  have ok: "kbd_ok k" "step_off k < length bs" "cur_step k < length (steps k)" and e: "q_list k = []"
    using assms q_empty_iff [of k] by (simp_all add: script_ok_def)
  note f = feed_shape [OF ok(1) less_imp_le [OF ok(2)]]
  have ne: "q_list (feed bs k) \<noteq> []" using f ok e by (metis length_0_conv length_q_list less_numeral_extra(3) list.size(3))
  note t = typed_step [OF ok(3)]
  show ?thesis
  proof (cases "step_off (feed bs k) = length bs")
    case True
    then have "script_ok k'" using assms(1, 3, 4) f by (intro next_step [OF assms(1)]) (simp_all add: script_ok_def Let_def)
    then show ?thesis using True assms(3, 4) f ne t ok e by (simp add: script_rest_def)
  next
    case False
    then show ?thesis using assms(1, 3, 4) f ne t ok e by (auto simp: script_rest_def script_ok_def)
  qed
qed

text \<open>Advancing ends in a byte for the guest, in a wait that a blocking read does not see, or at the end of the script.\<close>

definition advances :: "bool \<Rightarrow> kbd \<Rightarrow> bool" where
  "advances reading k \<longleftrightarrow> (\<exists>r k'. script_advance reading k = Some (r, k') \<and> script_ok k' \<and> script_rest k' = script_rest k \<and>
     (r = 1 \<and> q_list k' \<noteq> [] \<or> r = 0 \<and> \<not> reading \<or> r = - 1 \<and> script_rest k = []))"

lemma advances_skip:
  assumes "script_ok k" "q_empty k" "\<And>bs. steps k ! cur_step k \<noteq> ST_BYTES bs" "steps k ! cur_step k \<noteq> ST_END"
    and "script_advance reading k = script_advance reading k'" "same_script k' (k\<lparr>cur_step := cur_step k + 1\<rparr>)"
    and "script_ok k' \<Longrightarrow> advances reading k'"
  shows "advances reading k"
  using skip_step [OF assms(1-4, 6)] assms(5, 7) by (simp add: advances_def)

lemma advance_script: "script_ok k \<Longrightarrow> advances reading k"
proof (induction reading k rule: script_advance.induct)
  case (1 reading k)
  show ?case
  proof (cases "q_empty k")
    case False
    then show ?thesis
      using "1.prems" q_empty_iff [of k] by (simp add: advances_def script_advance.simps [of _ k] script_ok_def)
  next
    case True
    have c: "cur_step k < length (steps k)" "\<not> length (steps k) \<le> cur_step k" using "1.prems" by (simp_all add: script_ok_def)
    note adv = script_advance.simps [of reading k]
    note skip = advances_skip [OF "1.prems" True]
    show ?thesis
    proof (cases "steps k ! cur_step k")
      case (ST_BYTES bs)
      then show ?thesis using feed_step [OF "1.prems" True ST_BYTES refl] True c by (simp add: advances_def adv Let_def)
    next
      case (ST_WAIT_IDLE n)
      define k1 where "k1 = (if \<not> idle_armed k then k\<lparr>idle_armed := True, idle_wanted := n, idle_target := n\<rparr> else k)"
      have s: "same_script k1 k" by (simp add: k1_def same_script_def)
      show ?thesis
      proof (cases "reading \<or> idle_target k1 \<le> 0")
        case g: True
        show ?thesis
        proof (rule skip)
          show "script_advance reading k = script_advance reading (k1\<lparr>idle_armed := False, cur_step := cur_step k1 + 1\<rparr>)"
            using ST_WAIT_IDLE True c g by (simp add: adv k1_def [symmetric])
          show "same_script (k1\<lparr>idle_armed := False, cur_step := cur_step k1 + 1\<rparr>) (k\<lparr>cur_step := cur_step k + 1\<rparr>)"
            using s by (simp add: same_script_def)
        qed (use ST_WAIT_IDLE True c g "1.IH"(1) in \<open>simp_all add: k1_def\<close>)
      next
        case g: False
        then have "script_advance reading k = Some (0, k1)" using ST_WAIT_IDLE True c
          by (simp add: script_advance.simps [of _ k] k1_def [symmetric])
        then show ?thesis using same_script_cong [OF s] "1.prems" g by (simp add: advances_def)
      qed
    next
      case (ST_PACE n)
      show ?thesis by (rule skip [where k' = "k\<lparr>pace_polls := n, cur_step := cur_step k + 1\<rparr>"])
        (use ST_PACE True c "1.IH"(2-) in \<open>simp_all add: adv same_script_def\<close>)
    next
      case ST_END
      then have "script_rest k = []" using True c "1.prems" typed_step [of k] q_empty_iff [of k]
        by (simp add: script_rest_def script_ok_def)
      then show ?thesis using ST_END True c "1.prems" by (simp add: advances_def adv)
    qed (rule skip [where k' = "k\<lparr>cur_step := cur_step k + 1\<rparr>"], use True c "1.IH"(2-) in \<open>simp_all add: adv same_script_def\<close>)+
  qed
qed

section \<open>Polls and reads\<close>

lemma pop_script:
  assumes "script_ok k" "q_list k \<noteq> []" "script_rest k = d # ds"
  shows "\<exists>k'. q_pop k = (d, k') \<and> script_ok k' \<and> script_rest k' = ds"
proof -
  have ok: "kbd_ok k" using assms(1) by (simp add: script_ok_def)
  have "q_list k = fst (q_pop k) # q_list (snd (q_pop k))" using q_pop_list [OF ok] assms(2) by (cases "q_list k") auto
  moreover have "kbd_ok (snd (q_pop k))" using q_pop_ok [OF ok] .
  ultimately show ?thesis using assms(1, 3)
    by (cases "q_pop k") (auto simp: script_ok_def script_rest_def q_pop_def cong: step.case_cong)
qed

lemma paced_out_same: "same_script (snd (paced_out k)) k" "q_list (snd (paced_out k)) = q_list k"
  by (auto simp: paced_out_def same_script_def q_list_def q_len_def)

lemma read_script:
  assumes "script_ok k" "script_rest k = d # ds"
  shows "\<exists>k'. kaypro_kbd_read k = Ret (Byte d) k' \<and> script_ok k' \<and> script_rest k' = ds"
proof -
  define k0 where "k0 = k\<lparr>n_reads := n_reads k + 1, empty_polls := 0, polls_since_read := 0, gate_open := True\<rparr>"
  have s: "same_script k0 k" by (simp add: k0_def same_script_def)
  note ok = same_script_cong [OF s] assms
  show ?thesis
  proof (cases "q_empty k0")
    case False
    then have "q_list k0 \<noteq> []" using ok q_empty_iff [of k0] by (simp add: script_ok_def)
    with pop_script [of k0] ok obtain k' where k': "q_pop k0 = (d, k')" "script_ok k'" "script_rest k' = ds" by auto
    moreover have "script_ok (k'\<lparr>gate_open := False, gate_polls := 0\<rparr>)" "script_rest (k'\<lparr>gate_open := False, gate_polls := 0\<rparr>) = ds"
      using k' same_script_cong [of "k'\<lparr>gate_open := False, gate_polls := 0\<rparr>" k'] by (simp_all add: same_script_def)
    ultimately show ?thesis using False by (simp add: kaypro_kbd_read_def Let_def k0_def [symmetric] pop_key_def)
  next
    case True
    obtain r k1 where a: "script_advance True k0 = Some (r, k1)" "script_ok k1" "script_rest k1 = d # ds" "r = 1" "q_list k1 \<noteq> []"
      using advance_script [of k0 True] ok by (auto simp: advances_def)
    with pop_script obtain k' where "q_pop k1 = (d, k')" "script_ok k'" "script_rest k' = ds" by blast
    with a True ok show ?thesis by (simp add: kaypro_kbd_read_def Let_def k0_def [symmetric] script_ok_def)
  qed
qed

text \<open>A read at the end of the script.\<close>

lemma read_script_end:
  assumes "script_ok k" "script_rest k = []"
  shows "\<exists>k'. kaypro_kbd_read k = Ret KBD_END k' \<and> script_ok k' \<and> script_rest k' = []"
proof -
  define k0 where "k0 = k\<lparr>n_reads := n_reads k + 1, empty_polls := 0, polls_since_read := 0, gate_open := True\<rparr>"
  have s: "same_script k0 k" by (simp add: k0_def same_script_def)
  note ok = same_script_cong [OF s] assms
  have e: "q_empty k0" using ok q_empty_iff [of k0] by (simp add: script_ok_def script_rest_def)
  obtain r k1 where "script_advance True k0 = Some (r, k1)" "script_ok k1" "script_rest k1 = []" "r = - 1"
    using advance_script [of k0 True] ok by (auto simp: advances_def script_rest_def)
  with e ok show ?thesis by (simp add: kaypro_kbd_read_def Let_def k0_def [symmetric] script_ok_def)
qed

lemma count_quiet_same: "same_script (count_quiet k) k"
  by (simp add: count_quiet_def same_script_def Let_def)

lemma same_script_trans: "same_script k2 k1 \<Longrightarrow> same_script k1 k \<Longrightarrow> same_script k2 k"
  by (simp add: same_script_def)

lemma poll_script_same:
  assumes "poll_script k = Ret b k'" "script_advance False k = Some (r, k1)"
  shows "same_script k' k1"
proof (cases "r = 1")
  case True
  then show ?thesis using assms paced_out_same(1) [of k1]
    by (auto simp: poll_script_def same_script_def Let_def split: prod.splits if_splits)
next
  case False
  define k2 where "k2 = (if r = 0 \<and> idle_armed k1 then k1\<lparr>idle_target := idle_target k1 - 1\<rparr> else k1)"
  have "k' = count_quiet k2"
    using False assms by (simp add: poll_script_def Let_def k2_def [symmetric] split: if_splits)
  moreover have "same_script k2 k1" by (simp add: k2_def same_script_def)
  ultimately show ?thesis using count_quiet_same same_script_trans by blast
qed

lemma poll_script_keeps:
  assumes "script_ok k" "kaypro_kbd_poll k = Ret b k'"
  shows "script_ok k' \<and> script_rest k' = script_rest k"
proof -
  define k0 where "k0 = k\<lparr>n_polls := n_polls k + 1\<rparr>"
  have s: "same_script k0 k" by (simp add: k0_def same_script_def)
  note ok = same_script_cong [OF s] assms(1)
  then have sc: "scripted k0" by (simp add: script_ok_def)
  show ?thesis
  proof (cases "q_empty k0")
    case False
    then have "same_script k' k0" using assms(2) sc paced_out_same(1) [of k0]
      by (auto simp: kaypro_kbd_poll_def Let_def k0_def [symmetric] gated_def same_script_def split: prod.splits if_splits)
    then show ?thesis using same_script_cong ok by metis
  next
    case True
    obtain r k1 where a: "script_advance False k0 = Some (r, k1)" "script_ok k1" "script_rest k1 = script_rest k"
      using advance_script [of k0 False] ok by (auto simp: advances_def)
    have "poll_script k0 = Ret b k'" using assms(2) True sc by (simp add: kaypro_kbd_poll_def Let_def k0_def [symmetric])
    with poll_script_same a same_script_cong show ?thesis by metis
  qed
qed

text \<open>A script that still has text to type keeps the session going, however long the guest only polls.\<close>

lemma poll_script_goes_on:
  assumes "script_ok k" "script_rest k \<noteq> []"
  shows "kaypro_kbd_poll k \<noteq> Quit"
proof -
  define k0 where "k0 = k\<lparr>n_polls := n_polls k + 1\<rparr>"
  have s: "same_script k0 k" by (simp add: k0_def same_script_def)
  note ok = same_script_cong [OF s] assms
  then obtain r k1 where "script_advance False k0 = Some (r, k1)" "r = 0 \<or> r = 1"
    using advance_script [of k0 False] by (auto simp: advances_def)
  then have "poll_script k0 \<noteq> Quit" by (auto simp: poll_script_def Let_def split: prod.split)
  moreover have "scripted k0" using ok by (simp add: script_ok_def)
  ultimately show ?thesis by (simp add: kaypro_kbd_poll_def Let_def k0_def [symmetric] split: prod.split)
qed

interpretation script_text: byte_source script_ok script_rest
  by unfold_locales (rule poll_script_keeps poll_script_goes_on read_script; assumption)+

text \<open>Reading past the end of the script ends the session.\<close>

lemma script_session_ends: "script_ok k \<Longrightarrow> length (script_rest k) < n_read calls \<Longrightarrow> console calls k = None"
proof (induction calls arbitrary: k)
  case (Cons c cs)
  show ?case
  proof (cases c)
    case Poll
    then show ?thesis using Cons.IH Cons.prems poll_script_keeps [OF Cons.prems(1)]
      by (cases "kaypro_kbd_poll k") auto
  next
    case Read
    show ?thesis
    proof (cases "script_rest k")
      case Nil
      then show ?thesis using Read read_script_end [OF Cons.prems(1)] by auto
    next
      case (Cons d ds)
      then show ?thesis using Read read_script [OF Cons.prems(1) Cons] Cons.IH Cons.prems by auto
    qed
  qed
qed simp

section \<open>Loading\<close>

lemma flush_bytes_ok: "steps_ok ss \<Longrightarrow> steps_ok (flush_bytes buf ss)"
  by (simp add: steps_ok_def flush_bytes_def)

lemma parse_text_ok: "parse_text p buf ss = Some (Some ls) \<Longrightarrow> steps_ok ss \<Longrightarrow> steps_ok ls"
proof (induction p buf ss rule: parse_text.induct)
  case (1 p buf ss)
  have f: "steps_ok (flush_bytes b ss)" for b using flush_bytes_ok "1.prems"(2) .
  show ?case
  proof (cases p)
    case Nil
    then show ?thesis using f [of buf] "1.prems"(1) by (auto simp: parse_text.simps [of "[]"] steps_ok_def)
  next
    case (Cons c cs)
    note IH = "1.IH" [OF Cons]
    note eq = parse_text.simps [of "c # cs"]
    show ?thesis
    proof (cases "c = 0x5C")
      case True
      then have c: "c \<noteq> 0x7E" "\<not> c \<noteq> 0x5C" by simp_all
      show ?thesis
      proof (cases "escape_byte cs")
        case (Some bd)
        then show ?thesis using "1.prems" IH(3, 4) [OF c Some] f Cons c
          by (cases bd) (auto simp: eq split: if_splits)
      qed (use "1.prems"(1) Cons c in \<open>auto simp: eq split: if_splits\<close>)
    next
      case False
      then show ?thesis using "1.prems" IH(1, 2) f Cons by (auto simp: eq steps_ok_def split: if_splits)
    qed
  qed
qed

lemma directive_not_bytes: "directive cmd arg \<noteq> Some (ST_BYTES bs)"
  by (simp add: directive_def dump_step_def mem_step_def Let_def split: prod.split)

lemma load_lines_ok: "load_lines s ss = Steps ls \<Longrightarrow> steps_ok ss \<Longrightarrow> steps_ok ls"
proof (induction s ss rule: load_lines.induct)
  case (1 s ss)
  show ?case
  proof (cases "fgets 2048 s")
    case None
    then show ?thesis using "1.prems" by (simp add: load_lines.simps [of s])
  next
    case (Some lr)
    obtain l r where lr: "lr = (l, r)" by (cases lr)
    define line where "line = script_line l"
    obtain cmd arg where d: "scan_directive (tl line) = (cmd, arg)" by (cases "scan_directive (tl line)")
    note IH = "1.IH" [OF Some lr [symmetric] line_def]
    note eq = load_lines.simps [of s ss] Some lr line_def [symmetric] d
    consider (comment) "take 1 line = asc ''#''" | (dir) "take 1 line \<noteq> asc ''#''" "take 1 line = asc ''@''"
      | (words) "take 1 line \<noteq> asc ''#''" "take 1 line \<noteq> asc ''@''" by blast
    then show ?thesis
    proof cases
      case comment
      then show ?thesis using "1.prems" IH(1) by (simp add: eq Let_def)
    next
      case dir
      then show ?thesis using "1.prems" IH(2) [OF dir d [symmetric] refl] directive_not_bytes [of cmd arg "[]"]
        by (auto simp: eq Let_def steps_ok_def split: option.splits if_splits)
    next
      case words
      then show ?thesis using "1.prems" IH(3) [OF words] parse_text_ok [of line "[]" "[]"]
        by (auto simp: eq Let_def steps_ok_def split: option.splits)
    qed
  qed
qed

lemma loaded_script_ok:
  assumes "kaypro_kbd_script_load f k = Loaded k'" "kbd_ok k" "q_empty k" "steps k = []" "step_off k = 0"
  shows "script_ok k' \<and> script_rest k' = typed (steps k')"
proof -
  obtain s ss where s: "f = Some s" "load_lines s [] = Steps ss"
    and k': "k' = k\<lparr>steps := ss @ [ST_END], cur_step := 0, scripted := True\<rparr>"
    using assms(1, 4) by (auto simp: kaypro_kbd_script_load_def split: option.splits loaded.splits)
  have ok: "steps_ok (ss @ [ST_END])" using load_lines_ok [OF s(2)] by (simp add: steps_ok_def)
  then have "(ss @ [ST_END]) ! 0 \<noteq> ST_BYTES []" by (cases ss) (auto simp: steps_ok_def)
  moreover have "kbd_ok k'" "q_list k' = []" using assms(2, 3) q_empty_iff [OF assms(2)]
    by (simp_all add: k' kbd_ok_def q_list_def q_len_def)
  ultimately show ?thesis using ok assms(5) by (auto simp: script_ok_def script_rest_def k' split: step.splits)
qed

text \<open>C17: A script that loads types itself.  However a guest mixes polls and reads, it gets the bytes of the script's
  text lines complete and in order; as long as some are left the session does not end, and a guest that reads on behind the
  last one ends it.\<close>

theorem script_typed_in_order:
  assumes "kaypro_kbd_script_load f k = Loaded k'" "kbd_ok k" "q_empty k" "steps k = []" "step_off k = 0"
  shows "(n_read calls < length (typed (steps k')) \<longrightarrow> console calls k' = Some (take (n_read calls) (typed (steps k')))) \<and>
    (n_read calls = length (typed (steps k')) \<longrightarrow> console calls k' \<in> {None, Some (typed (steps k'))}) \<and>
    (n_read calls > length (typed (steps k')) \<longrightarrow> console calls k' = None)"
proof -
  from loaded_script_ok [OF assms] have ok: "script_ok k'" and r: "script_rest k' = typed (steps k')" by auto
  show ?thesis
    using script_text.delivers_in_order [OF ok, of calls] script_text.session_goes_on [OF ok, of calls]
      script_session_ends [OF ok, of calls] r
    by auto
qed

section \<open>Writing a script\<close>

text \<open>Text as it is, but for the characters that mean something to the parser; \<open>\x\<close> for the rest.\<close>

definition hex_digit :: "nat \<Rightarrow> u8" where
  "hex_digit n = (if n < 10 then 0x30 + of_nat n else 0x41 + of_nat (n - 10))"

definition print_byte :: "u8 \<Rightarrow> bytes" where
  "print_byte c =
     (if 0x20 \<le> c \<and> c < 0x7E \<and> c \<notin> {0x23, 0x40, 0x5C} then [c]
      else [0x5C, 0x78, hex_digit (unat c div 16), hex_digit (unat c mod 16)])"

definition hex4 :: "nat \<Rightarrow> bytes" where
  "hex4 n = [hex_digit (n div 4096 mod 16), hex_digit (n div 256 mod 16), hex_digit (n div 16 mod 16), hex_digit (n mod 16)]"

fun print_step :: "step \<Rightarrow> bytes" where
  "print_step (ST_BYTES bs) = concat (map print_byte bs)"
| "print_step (ST_WAIT_IDLE n) = asc ''@wait-idle '' @ dec_int n"
| "print_step (ST_SLEEP n) = asc ''@sleep '' @ dec_int n"
| "print_step (ST_PACE n) = asc ''@pace '' @ dec_int n"
| "print_step (ST_DUMP f a) = asc ''@dump '' @ f @ (if a then asc '' attrs'' else [])"
| "print_step (ST_MEM n) = asc ''@mem '' @ hex4 (nat n mod 65536) @ [0x20] @ hex4 (nat n div 65536)"
| "print_step ST_END = asc ''@end''"

definition print_script :: "step list \<Rightarrow> bytes" where
  "print_script ss = concat (map (\<lambda>s. print_step s @ [0x0A]) ss)"

text \<open>The steps a line can hold.\<close>

fun printable :: "step \<Rightarrow> bool" where
  "printable (ST_BYTES bs) = (0 < length bs \<and> length bs \<le> 511)"
| "printable (ST_WAIT_IDLE n) = (- (2 ^ 63) \<le> n \<and> n < 2 ^ 63)"
| "printable (ST_SLEEP n) = (- (2 ^ 63) \<le> n \<and> n < 2 ^ 63)"
| "printable (ST_PACE n) = (- (2 ^ 63) \<le> n \<and> n < 2 ^ 63)"
| "printable (ST_DUMP f a) = (0 < length f \<and> length f \<le> 1000 \<and> list_all (\<lambda>c. c \<noteq> 0 \<and> \<not> is_space c) f)"
| "printable (ST_MEM n) = (0 \<le> n \<and> n < 2 ^ 32)"
| "printable ST_END = False"

text \<open>A line as \<open>fgets\<close> and the loader take it.\<close>

definition line_ok :: "bytes \<Rightarrow> bool" where
  "line_ok l \<longleftrightarrow> length l \<le> 2046 \<and> 0 \<notin> set l \<and> 0x0A \<notin> set l \<and> 0x0D \<notin> set l"

lemma fgets_line:
  assumes "line_ok l"
  shows "fgets 2048 (l @ 0x0A # r) = Some (l @ [0x0A], r)"
proof -
  have "takeWhile (\<lambda>c. c \<noteq> 0x0A) (l @ 0x0A # r) = l"
    using assms by (subst takeWhile_append2) (auto simp: line_ok_def)
  then show ?thesis using assms by (simp add: fgets_def line_ok_def Let_def)
qed

lemma script_line_line: "line_ok l \<Longrightarrow> script_line (l @ [0x0A]) = l"
proof -
  assume l: "line_ok l"
  then have "takeWhile (\<lambda>c. c \<noteq> 0) (l @ [0x0A]) = l @ [0x0A]" by (auto simp: line_ok_def takeWhile_eq_all_conv)
  moreover have "dropWhile (\<lambda>c. c = 0x0A \<or> c = 0x0D) (rev l) = rev l"
    using l by (cases "rev l") (auto simp: line_ok_def set_rev [of l, symmetric] simp del: set_rev)
  ultimately show ?thesis by (simp add: script_line_def)
qed

lemma load_directive:
  assumes "line_ok (0x40 # l)" "scan_directive l = (cmd, arg)" "directive cmd arg = Some s" "s \<noteq> ST_END"
  shows "load_lines ((0x40 # l) @ 0x0A # r) ss = load_lines r (ss @ [s])"
  using fgets_line [OF assms(1), of r] script_line_line [OF assms(1)] assms(2-)
  by (simp add: load_lines.simps [of "64 # l @ 10 # r"] asc_def)

lemma load_text:
  assumes "line_ok l" "take 1 l \<noteq> asc ''#''" "take 1 l \<noteq> asc ''@''" "parse_text l [] [] = Some (Some ls)"
  shows "load_lines (l @ 0x0A # r) ss = load_lines r (ss @ ls)"
  using fgets_line [OF assms(1), of r] script_line_line [OF assms(1)] assms(2-)
  by (simp add: load_lines.simps [of "l @ 10 # r"])

lemma scan_directive_words:
  assumes "cmd \<noteq> []" "list_all (\<lambda>c. \<not> is_space c) cmd" "length cmd \<le> 31"
    and "arg \<noteq> []" "\<not> is_space (hd arg)" "0x0A \<notin> set arg" "length arg \<le> 1023"
  shows "scan_directive (cmd @ 0x20 # arg) = (cmd, arg)"
proof -
  have "is_space 0x20" by (simp add: is_space_def)
  moreover have "dropWhile is_space (cmd @ 0x20 # arg) = cmd @ 0x20 # arg"
    using assms(1, 2) by (cases cmd) auto
  moreover have "dropWhile is_space arg = arg" using assms(4, 5) by (cases arg) auto
  moreover have "takeWhile (\<lambda>c. \<not> is_space c) (cmd @ 0x20 # arg) = cmd"
    using assms(2) calculation(1) by (simp add: list_all_iff takeWhile_append2)
  moreover have "takeWhile (\<lambda>c. c \<noteq> 0x0A) arg = arg" using assms(6) by (auto simp: takeWhile_eq_all_conv)
  ultimately show ?thesis using assms(1, 3, 7) by (simp add: scan_directive_def scan_word_def Let_def del: takeWhile_eq_all_conv)
qed

section \<open>Numbers\<close>

lemma unat_digit: "m < 10 \<Longrightarrow> unat (0x30 + of_nat m :: u8) = 48 + m"
  by (simp add: unat_word_ariths unat_of_nat)

lemma dec_is_digit: "c \<in> set (dec n) \<Longrightarrow> is_digit c"
  using dec_digits [of n] by (auto simp: is_digit_def)

lemma digit_not_space: "is_digit c \<Longrightarrow> \<not> is_space c \<and> c \<noteq> 0 \<and> c \<noteq> 0x2D \<and> c \<noteq> 0x2B"
  unfolding is_digit_def is_space_def word_le_nat_alt word_unat_eq_iff by auto

lemma dec_not_Nil [simp]: "dec n \<noteq> []"
  by (subst dec.simps) simp

lemma hd_dec_digit: "is_digit (hd (dec n))"
  using dec_is_digit hd_in_set dec_not_Nil by metis

lemma foldl_dec: "foldl (\<lambda>n c. n * 10 + int (unat c - 48)) 0 (dec n) = int n"
proof (induction n rule: dec.induct)
  case (1 n)
  then show ?case
    using unat_digit [of n] unat_digit [of "n mod 10"] by (subst dec.simps) (auto simp: zmod_int zdiv_int)
qed

lemma takeWhile_dec: "takeWhile is_digit (dec n) = dec n"
  using dec_is_digit by auto

lemma atol_dec_int:
  assumes "- (2 ^ 63) \<le> n" "n < 2 ^ 63"
  shows "atol (dec_int n) = n"
proof -
  have sp: "\<not> is_space 0x2D" by (simp add: is_space_def)
  show ?thesis
  proof (cases "n < 0")
    case True
    then show ?thesis using assms sp foldl_dec takeWhile_dec
      by (simp add: atol_def dec_int_def Let_def del: takeWhile_eq_all_conv)
  next
    case False
    obtain c cs where d: "dec (nat n) = c # cs" "is_digit c" using hd_dec_digit [of "nat n"] by (cases "dec (nat n)") auto
    then show ?thesis using assms False digit_not_space [OF d(2)] foldl_dec [of "nat n"] takeWhile_dec [of "nat n"]
      by (simp add: atol_def dec_int_def Let_def del: takeWhile_eq_all_conv)
  qed
qed

lemma hexval_digit: "n < 16 \<Longrightarrow> hexval (hex_digit n) = Some (of_nat n)"
  by (auto simp: hexval_def hex_digit_def word_le_nat_alt unat_word_ariths unat_of_nat word_unat_eq_iff
    unat_sub_if' split: if_splits)

lemma hex_digit_range: "n < 16 \<Longrightarrow> hex_digit n \<in> {0x30..0x39} \<union> {0x41..0x46}"
  by (auto simp: hex_digit_def word_le_nat_alt unat_word_ariths unat_of_nat)

lemma hexval_space: "hexval 0x20 = None"
  by (simp add: hexval_def)

lemma hex_digit_plain:
  assumes "n < 16"
  shows "\<not> is_space (hex_digit n)" "hex_digit n \<notin> {0x2D, 0x2B, 0x78, 0x58, 0, 0x0A, 0x0D}"
proof -
  have "unat (hex_digit n) \<in> {48..57} \<union> {65..70}" using hex_digit_range [OF assms] by (auto simp: word_le_nat_alt)
  then show "\<not> is_space (hex_digit n)" "hex_digit n \<notin> {0x2D, 0x2B, 0x78, 0x58, 0, 0x0A, 0x0D}"
    by (auto simp: is_space_def word_le_nat_alt word_unat_eq_iff)
qed

lemma scan_hex_digits:
  assumes "\<not> is_space a" "a \<notin> {0x2D, 0x2B}" "b \<notin> {0x78, 0x58}" "list_all (\<lambda>c. hexval c \<noteq> None) (a # b # ds)"
    and "takeWhile (\<lambda>c. hexval c \<noteq> None) r = []" "foldl (\<lambda>n c. n * 16 + unat (the (hexval c))) 0 (a # b # ds) = v" "v < 2 ^ 64"
  shows "scan_hex ((a # b # ds) @ r) = Some (of_nat v, r)"
proof -
  have t: "takeWhile (\<lambda>c. hexval c \<noteq> None) ((a # b # ds) @ r) = a # b # ds"
    using assms(4, 5) by (subst takeWhile_append2) (auto simp: list_all_iff)
  have w: "dropWhile is_space ((a # b # ds) @ r) = a # b # ds @ r" using assms(1) by simp
  show ?thesis unfolding scan_hex_def Let_def w
    using assms(2, 3, 7) t assms(6) by (simp del: foldl_Cons takeWhile.simps)
qed

text \<open>Four digits are the number, whether the line ends behind them or goes on with a space.\<close>

lemma scan_hex4:
  assumes "n < 65536" "r = [] \<or> hd r = 0x20"
  shows "scan_hex (hex4 n @ r) = Some (of_nat n, r)"
proof -
  define a b c d where "a = n div 4096 mod 16" and "b = n div 256 mod 16" and "c = n div 16 mod 16" and "d = n mod 16"
  have lt: "a < 16" "b < 16" "c < 16" "d < 16" by (simp_all add: a_def b_def c_def d_def)
  have n: "((a * 16 + b) * 16 + c) * 16 + d = n" 
    using assms(1) div_mult_mod_eq [of n 16] div_mult_mod_eq [of "n div 16" 16] div_mult_mod_eq [of "n div 256" 16]
    by (simp add: a_def b_def c_def d_def div_mult2_eq [symmetric] del: div_mult_mod_eq mod_div_mult_eq)
  have h: "hex4 n = [hex_digit a, hex_digit b, hex_digit c, hex_digit d]" by (simp add: hex4_def a_def b_def c_def d_def)
  have u: "unat (of_nat m :: u8) = m" if "m < 16" for m using that by (simp add: unat_of_nat)
  have "takeWhile (\<lambda>c. hexval c \<noteq> None) r = []" using assms(2) by (cases r) (auto simp: hexval_space)
  moreover have "foldl (\<lambda>n c. n * 16 + unat (the (hexval c))) 0 [hex_digit a, hex_digit b, hex_digit c, hex_digit d] = n"
    using n by (simp add: lt hexval_digit u)
  ultimately show ?thesis unfolding h
    using assms(1) hex_digit_plain [OF lt(1)] hex_digit_plain(2) [OF lt(2)]
    by (intro scan_hex_digits) (simp_all add: lt hexval_digit)
qed

lemma pack_halves:
  assumes "a < 65536"
  shows "(of_nat a AND 0xFFFF) OR push_bit 16 (of_nat l) = (of_nat (l * 65536 + a) :: u32)"
proof -
  have t: "take_bit 16 (of_nat a :: u32) = of_nat a" using assms by (simp add: take_bit_of_nat take_bit_nat_eq_self)
  then have "of_nat a AND 0xFFFF = (of_nat a :: u32)"
    using take_bit_eq_mask [of 16 "of_nat a :: u32"] by (simp add: mask_eq_exp_minus_1)
  moreover have "push_bit 16 (of_nat l) AND of_nat a = (0 :: u32)"
    by (subst t [symmetric], rule bit_word_eqI) (auto simp: bit_and_iff bit_push_bit_iff bit_take_bit_iff)
  moreover have "of_nat (l * 65536 + a) = push_bit 16 (of_nat l) + (of_nat a :: u32)" by (simp add: push_bit_eq_mult)
  ultimately show ?thesis using disjunctive_add_eq_or by (metis or.commute)
qed

lemma mem_step_print:
  assumes "0 \<le> n" "n < 2 ^ 32"
  shows "mem_step (hex4 (nat n mod 65536) @ [0x20] @ hex4 (nat n div 65536)) = ST_MEM n"
proof -
  define a l where "a = nat n mod 65536" and "l = nat n div 65536"
  have lt: "a < 65536" "l < 65536" "l * 65536 + a = nat n" using assms by (auto simp: a_def l_def)
  have sp: "scan_hex (0x20 # hex4 l) = scan_hex (hex4 l)" by (simp add: scan_hex_def is_space_def)
  have "(of_nat a AND 0xFFFF) OR push_bit 16 (of_nat l) = (of_nat (nat n) :: u32)"
    by (rule pack_halves [OF lt(1), of l, unfolded lt(3)])
  moreover have "uint (of_nat (nat n) :: u32) = n" using assms by (simp add: uint_word_of_int_eq take_bit_int_eq_self)
  ultimately show ?thesis
    using scan_hex4 [OF lt(1), of "0x20 # hex4 l"] scan_hex4 [OF lt(2), of "[]"] sp
    by (simp add: mem_step_def a_def [symmetric] l_def [symmetric])
qed

section \<open>Text lines\<close>

lemma nibbles: "unat (c :: u8) div 16 < 16" "unat c mod 16 < 16"
  using unat_u8_less [of c] by (simp_all del: unat_u8_less)

lemma parse_print_byte:
  assumes "length buf < 1022"
  shows "parse_text (print_byte c @ p) buf ss = parse_text p (buf @ [c]) ss"
proof (cases "0x20 \<le> c \<and> c < 0x7E \<and> c \<notin> {0x23, 0x40, 0x5C}")
  case True
  then show ?thesis using assms by (auto simp: print_byte_def parse_text.simps [of "c # p"])
next
  case False
  have "of_nat (unat c div 16) * 16 + of_nat (unat c mod 16) = (of_nat (unat c div 16 * 16 + unat c mod 16) :: u8)"
    by (simp only: of_nat_add of_nat_mult of_nat_numeral)
  also have "\<dots> = of_nat (unat c)" by (simp only: div_mult_mod_eq)
  also have "\<dots> = c" by simp
  finally have "escape_byte (0x78 # hex_digit (unat c div 16) # hex_digit (unat c mod 16) # p) = Some (c, p)"
    by (simp add: escape_byte_def hex_byte_def hexval_digit nibbles)
  moreover have "print_byte c = [0x5C, 0x78, hex_digit (unat c div 16), hex_digit (unat c mod 16)]"
    using False by (auto simp: print_byte_def)
  ultimately show ?thesis using assms
    by (simp add: parse_text.simps [of "0x5C # 0x78 # hex_digit (unat c div 16) # hex_digit (unat c mod 16) # p"])
qed

lemma parse_print_bytes:
  "length buf + length bs < 1023 \<Longrightarrow>
    parse_text (concat (map print_byte bs)) buf ss = Some (Some (rev (flush_bytes (buf @ bs) ss)))"
proof (induction bs arbitrary: buf)
  case (Cons c bs)
  then show ?case using Cons.IH [of "buf @ [c]"] by (simp add: parse_print_byte)
qed (simp add: parse_text.simps [of "[]"])

lemma print_byte_chars: "length (print_byte c) \<le> 4" "x \<in> set (print_byte c) \<Longrightarrow> x \<notin> {0, 0x0A, 0x0D}"
  "hd (print_byte c) \<notin> {0x23, 0x40}" "print_byte c \<noteq> []"
proof -
  note h = nibbles [THEN hex_digit_plain(2), of c]
  show "x \<in> set (print_byte c) \<Longrightarrow> x \<notin> {0, 0x0A, 0x0D}"
    using h by (auto simp: print_byte_def word_le_nat_alt split: if_splits)
qed (auto simp: print_byte_def)

lemma print_bytes_line:
  assumes "length bs \<le> 511"
  shows "line_ok (concat (map print_byte bs))"
proof -
  have "length (concat (map print_byte bs)) \<le> 4 * length bs"
    using print_byte_chars(1) by (induction bs) (auto simp: le_Suc_eq intro: order_trans add_mono)
  then show ?thesis using assms print_byte_chars(2) by (fastforce simp: line_ok_def)
qed

section \<open>The round trip\<close>

lemma line_ok_append: "line_ok (l @ m) \<longleftrightarrow> length l + length m \<le> 2046 \<and> line_ok l \<and> line_ok m"
  by (auto simp: line_ok_def)

lemma line_ok_Cons: "line_ok (c # l) \<longleftrightarrow> length l \<le> 2045 \<and> c \<notin> {0, 0x0A, 0x0D} \<and> line_ok l"
  by (auto simp: line_ok_def)

lemma not_space_line: "\<not> is_space c \<Longrightarrow> c \<noteq> 0x20 \<and> c \<noteq> 0x0A \<and> c \<noteq> 0x0D"
  by (auto simp: is_space_def)

text \<open>A directive that is written as its name, a space and its argument.\<close>

lemma load_words:
  assumes "cmd \<noteq> []" "list_all (\<lambda>c. c \<noteq> 0 \<and> \<not> is_space c) cmd" "length cmd \<le> 31"
    and "arg \<noteq> []" "\<not> is_space (hd arg)" "line_ok arg" "length arg \<le> 1023"
    and "directive cmd arg = Some s" "s \<noteq> ST_END"
  shows "load_lines ((0x40 # cmd @ 0x20 # arg) @ 0x0A # r) ss = load_lines r (ss @ [s])"
proof (rule load_directive [OF _ _ assms(8, 9)])
  show "line_ok (0x40 # cmd @ 0x20 # arg)"
    using assms(2, 3, 6, 7) not_space_line by (fastforce simp: line_ok_def list_all_iff)
  show "scan_directive (cmd @ 0x20 # arg) = (cmd, arg)"
    using assms by (intro scan_directive_words) (auto simp: line_ok_def list_all_iff)
qed

lemma dec_length: "m < 10 ^ Suc j \<Longrightarrow> length (dec m) \<le> Suc j"
proof (induction j arbitrary: m)
  case (Suc j)
  then have "length (dec (m div 10)) \<le> Suc j" by simp
  then show ?case by (subst dec.simps) simp
qed (subst dec.simps, simp)

lemma dec_int_word:
  assumes "- (2 ^ 63) \<le> n" "n < 2 ^ 63"
  shows "dec_int n \<noteq> []" "\<not> is_space (hd (dec_int n))" "line_ok (dec_int n)" "length (dec_int n) \<le> 1023"
proof -
  show "dec_int n \<noteq> []" "\<not> is_space (hd (dec_int n))"
    using hd_dec_digit digit_not_space by (auto simp: dec_int_def is_space_def)
  have "length (dec (nat m)) \<le> 19" if "m \<le> 2 ^ 63" for m
    using that dec_length [of "nat m" 18] by (simp add: nat_less_iff)
  from this [of n] this [of "- n"] have l: "length (dec_int n) \<le> 20" using assms by (auto simp: dec_int_def)
  then show "length (dec_int n) \<le> 1023" by simp
  have "c \<notin> {0, 0x0A, 0x0D}" if "is_digit c" for c using digit_not_space [OF that] not_space_line by auto
  then show "line_ok (dec_int n)" using l dec_is_digit by (fastforce simp: line_ok_def dec_int_def split: if_splits)
qed

lemma hex4_word: "\<not> is_space (hd (hex4 n @ r))" "line_ok (hex4 n)" "length (hex4 n) = 4"
  using hex_digit_plain [of "n div 4096 mod 16"] hex_digit_plain [of "n div 256 mod 16"]
    hex_digit_plain [of "n div 16 mod 16"] hex_digit_plain [of "n mod 16"]
  by (auto simp: hex4_def line_ok_def)

lemma dump_step_print:
  assumes "f \<noteq> []" "list_all (\<lambda>c. c \<noteq> 0 \<and> \<not> is_space c) f"
  shows "dump_step (f @ (if a then asc '' attrs'' else [])) = ST_DUMP f a"
proof -
  have "c \<in> set f \<Longrightarrow> c \<noteq> 0x20" for c using assms(2) not_space_line by (auto simp: list_all_iff)
  then have "takeWhile (\<lambda>c. c \<noteq> 0x20) (f @ (if a then asc '' attrs'' else [])) = f"
    by (subst takeWhile_append2) (auto simp: asc_def)
  then show ?thesis using assms(1) by (simp add: dump_step_def Let_def) (simp add: asc_def)
qed

lemma directive_simps:
  "arg \<noteq> [] \<Longrightarrow> directive (asc ''wait-idle'') arg = Some (ST_WAIT_IDLE (atol arg))"
  "directive (asc ''sleep'') arg = Some (ST_SLEEP (atol arg))"
  "directive (asc ''pace'') arg = Some (ST_PACE (atol arg))"
  "directive (asc ''dump'') arg = Some (dump_step arg)"
  "directive (asc ''mem'') arg = Some (mem_step arg)"
  by (simp_all add: directive_def asc_def)

lemma load_number:
  assumes "- (2 ^ 63) \<le> n" "n < 2 ^ 63" "cmd \<in> {asc ''wait-idle'', asc ''sleep'', asc ''pace''}"
    and "directive cmd (dec_int n) = Some s" "s \<noteq> ST_END"
  shows "load_lines (0x40 # cmd @ 0x20 # dec_int n @ 0x0A # r) ss = load_lines r (ss @ [s])"
proof -
  have "cmd \<noteq> []" "list_all (\<lambda>c. c \<noteq> 0 \<and> \<not> is_space c) cmd" "length cmd \<le> 31"
    using assms(3) by (auto simp: asc_def is_space_def)
  from load_words [OF this dec_int_word [OF assms(1, 2)] assms(4, 5)] show ?thesis by simp
qed

lemma load_step:
  assumes "printable s"
  shows "load_lines (print_step s @ 0x0A # r) ss = load_lines r (ss @ [s])"
proof (cases s)
  case (ST_BYTES bs)
  define l where "l = concat (map print_byte bs)"
  have b: "0 < length bs" "length bs \<le> 511" using assms ST_BYTES by simp_all
  then obtain c cs where "bs = c # cs" by (cases bs) auto
  then have "take 1 l = [hd (print_byte c)]" using print_byte_chars(4) [of c] by (cases "print_byte c") (simp_all add: l_def)
  then have h: "take 1 l \<noteq> asc ''#''" "take 1 l \<noteq> asc ''@''" using print_byte_chars(3) [of c] by (auto simp: asc_def)
  have "parse_text l [] [] = Some (Some [ST_BYTES bs])"
    using b parse_print_bytes [of "[]" bs "[]"] by (auto simp: l_def flush_bytes_def)
  from load_text [OF _ h this] print_bytes_line [OF b(2)] show ?thesis by (simp add: ST_BYTES l_def)
next
  case (ST_WAIT_IDLE n)
  then show ?thesis using assms load_number [of n "asc ''wait-idle''" s] atol_dec_int [of n] dec_int_word(1) [of n]
    by (simp add: directive_simps) (simp add: asc_def)
next
  case (ST_SLEEP n)
  then show ?thesis using assms load_number [of n "asc ''sleep''" s] atol_dec_int [of n]
    by (simp add: directive_simps) (simp add: asc_def)
next
  case (ST_PACE n)
  then show ?thesis using assms load_number [of n "asc ''pace''" s] atol_dec_int [of n]
    by (simp add: directive_simps) (simp add: asc_def)
next
  case (ST_DUMP f a)
  define arg where "arg = f @ (if a then asc '' attrs'' else [])"
  have f: "f \<noteq> []" "length f \<le> 1000" "list_all (\<lambda>c. c \<noteq> 0 \<and> \<not> is_space c) f" using assms ST_DUMP by simp_all
  then have l: "line_ok f" using not_space_line by (fastforce simp: line_ok_def list_all_iff)
  have at: "line_ok (asc '' attrs'')" "length (asc '' attrs'') = 6" by (simp_all add: line_ok_def asc_def)
  have "hd f \<in> set f" using f(1) by simp
  then have "arg \<noteq> []" "\<not> is_space (hd arg)" using f(1, 3) by (auto simp: arg_def list_all_iff)
  moreover have "line_ok arg" "length arg \<le> 1023" using f(2) l at by (simp_all add: arg_def line_ok_append line_ok_def [of "[]"])
  ultimately have "load_lines ((0x40 # asc ''dump'' @ 0x20 # arg) @ 0x0A # r) ss = load_lines r (ss @ [s])"
    using dump_step_print [OF f(1, 3), of a] ST_DUMP
    by (intro load_words) (simp_all add: directive_simps arg_def, simp_all add: asc_def is_space_def)
  then show ?thesis by (simp add: ST_DUMP arg_def asc_def)
next
  case (ST_MEM n)
  define arg where "arg = hex4 (nat n mod 65536) @ [0x20] @ hex4 (nat n div 65536)"
  have "arg \<noteq> []" "\<not> is_space (hd arg)" "line_ok arg" "length arg \<le> 1023"
    using hex4_word by (auto simp: arg_def line_ok_append line_ok_Cons)
  then have "load_lines ((0x40 # asc ''mem'' @ 0x20 # arg) @ 0x0A # r) ss = load_lines r (ss @ [s])"
    using mem_step_print [of n] assms ST_MEM
    by (intro load_words) (simp_all add: directive_simps arg_def, simp_all add: asc_def is_space_def)
  then show ?thesis by (simp add: ST_MEM arg_def asc_def)
qed (use assms in simp)

lemma load_printed: "list_all printable ls \<Longrightarrow> load_lines (print_script ls) ss = Steps (ss @ ls)"
proof (induction ls arbitrary: ss)
  case Nil
  then show ?case by (simp add: print_script_def load_lines.simps [of "[]"] fgets_def)
next
  case (Cons s ls)
  then have "load_lines (print_step s @ 0x0A # print_script ls) ss = Steps ((ss @ [s]) @ ls)"
    by (simp add: load_step)
  then show ?case by (simp add: print_script_def)
qed

text \<open>C18: Scripts round-trip.  Written out as a file, one directive or escaped text line to a step, the steps of a script
  load as the same steps, with the end marker behind them: every directive, signed numbers, addresses and lengths in
  hexadecimal, dumps with and without attributes, and text of any bytes, within what a line holds (1 to 511 bytes of text to
  a step, 64-bit numbers, file names of at most 1000 characters without blanks).\<close>

theorem script_roundtrip:
  assumes "list_all printable ss"
  shows "kaypro_kbd_script_load (Some (print_script ss)) k =
    Loaded (k\<lparr>steps := steps k @ ss @ [ST_END], cur_step := 0, scripted := True\<rparr>)"
  using load_printed [OF assms] by (simp add: kaypro_kbd_script_load_def)

definition demo_script :: "step list" where
  "demo_script = [ST_PACE 3, ST_WAIT_IDLE (- 1), ST_BYTES [0x23, 0x64, 0x0D, 0xFF], ST_DUMP (asc ''out'') True, ST_MEM 0x00200100]"

lemma demo_script_printable: "list_all printable demo_script"
  by (simp add: demo_script_def asc_def is_space_def)

theorem script_roundtrip_witness:
  "kaypro_kbd_script_load (Some (print_script demo_script)) (demo_kbd\<lparr>steps := []\<rparr>) =
    Loaded (demo_kbd\<lparr>steps := demo_script @ [ST_END], cur_step := 0, scripted := True\<rparr>)"
  using script_roundtrip [OF demo_script_printable, of "demo_kbd\<lparr>steps := []\<rparr>"] by simp

lemma demo_script_loaded:
  "kaypro_kbd_script_load (Some (print_script demo_script)) (demo_kbd\<lparr>steps := []\<rparr>) =
    Loaded (demo_kbd\<lparr>steps := demo_script @ [ST_END], cur_step := 0, scripted := True\<rparr>)"
  using load_printed [OF demo_script_printable] by (simp add: kaypro_kbd_script_load_def)

theorem script_typed_in_order_witness:
  "console [Read, Poll, Read, Read]
     (demo_kbd\<lparr>steps := demo_script @ [ST_END], cur_step := 0, scripted := True\<rparr>) = Some [0x23, 0x64, 0x0D]"
proof -
  have "kbd_ok (demo_kbd\<lparr>steps := []\<rparr>)" "q_empty (demo_kbd\<lparr>steps := []\<rparr>)" "step_off (demo_kbd\<lparr>steps := []\<rparr>) = 0"
    using demo_kbd_ok by (simp_all add: host_ok_def kbd_ok_def q_empty_def) (simp add: demo_kbd_def kaypro_kbd_init_def)
  moreover have "typed (demo_script @ [ST_END]) = [0x23, 0x64, 0x0D, 0xFF]" by (simp add: demo_script_def)
  ultimately show ?thesis
    using script_typed_in_order [OF demo_script_loaded, of "[Read, Poll, Read, Read]"] by simp
qed

end
