(* ===== verification/Mkdsk.thy ===== *)
theory Mkdsk
  imports Cpm_Fs
begin

text \<open>
  The disk image tool (\<open>tools/mkdsk.c\<close>): load or create an image of one of two formats, add host files to its
  CP/M 2.2 directory, list it and extract files.  The image is the list of its bytes; \<open>d\<close> in the source, a pointer to a
  directory entry, is the entry's number here.  A call ends in \<open>Done\<close>, in \<open>Die\<close> (the message and \<open>exit(1)\<close>), or in
  \<open>Overread\<close> where the source would copy bytes from outside of the image.  Host files are shorter than 4 GB, so that
  the tool's \<open>unsigned\<close> counts do not wrap.  Printing is left out, except for the figures of the listing.
\<close>

section \<open>Formats and images\<close>

record fmt =
  fmt_size :: nat
  fmt_spt :: nat
  fmt_tracks :: nat
  fmt_off :: nat
  bsize :: nat
  dsm :: nat
  drm :: nat
  exm :: u32

definition FMT_FD :: fmt where
  "FMT_FD = \<lparr>fmt_size = 409600, fmt_spt = 40, fmt_tracks = 80, fmt_off = 2, bsize = 2048, dsm = 194, drm = 63, exm = 1\<rparr>"

definition FMT_HD :: fmt where
  "FMT_HD = \<lparr>fmt_size = 8388608, fmt_spt = 64, fmt_tracks = 1024, fmt_off = 2, bsize = 4096, dsm = 2043, drm = 1023, exm = 1\<rparr>"

definition fmt_for_size :: "nat \<Rightarrow> fmt option" where
  "fmt_for_size n = (if n = fmt_size FMT_FD then Some FMT_FD else if n = fmt_size FMT_HD then Some FMT_HD else None)"

record img =
  im_f :: fmt
  im_data :: bytes
  dir_blocks :: nat
  ptrs :: nat
  im_alloc :: "bool list"

datatype 'a outcome = Done 'a | Die | Overread

definition data_base :: "fmt \<Rightarrow> nat" where
  "data_base f = fmt_off f * fmt_spt f * 128"

definition block_ptr :: "img \<Rightarrow> nat \<Rightarrow> nat" where
  "block_ptr im b = data_base (im_f im) + b * bsize (im_f im)"

definition entry_ptr :: "img \<Rightarrow> nat \<Rightarrow> nat" where
  "entry_ptr im e = block_ptr im 0 + e * 32"

text \<open>Byte \<open>k\<close> of entry \<open>e\<close>, and stores into the image.\<close>

definition entry_byte :: "img \<Rightarrow> nat \<Rightarrow> nat \<Rightarrow> u8" where
  "entry_byte im e k = im_data im ! (entry_ptr im e + k)"

definition put_bytes :: "nat \<Rightarrow> bytes \<Rightarrow> img \<Rightarrow> img" where
  "put_bytes off bs im = im\<lparr>im_data := splice (im_data im) off bs\<rparr>"

text \<open>Block pointer \<open>i\<close> and the extent number of an entry.\<close>

definition entry_block :: "img \<Rightarrow> nat \<Rightarrow> nat \<Rightarrow> nat" where
  "entry_block im e i =
     (if ptrs im = 16 then unat (entry_byte im e (16 + i))
      else unat (ucast (entry_byte im e (16 + 2 * i)) OR push_bit 8 (ucast (entry_byte im e (17 + 2 * i))) :: u32))"

definition entry_ext :: "img \<Rightarrow> nat \<Rightarrow> u32" where
  "entry_ext im e = (ucast (entry_byte im e 12) AND 0x1F) OR push_bit 5 (ucast (entry_byte im e 14))"

definition mark_entry :: "img \<Rightarrow> nat \<Rightarrow> bool list \<Rightarrow> bool list" where
  "mark_entry im e a =
     (if entry_byte im e 0 = 0xE5 \<or> entry_byte im e 0 > 15 then a
      else fold (\<lambda>i a. let b = entry_block im e i in if b \<noteq> 0 \<and> b \<le> dsm (im_f im) then a [b := True] else a) [0..<ptrs im] a)"

text \<open>\<open>file\<close> holds the bytes of an existing image file.\<close>

definition img_load :: "bytes option \<Rightarrow> fmt option \<Rightarrow> img outcome" where
  "img_load file create_as =
     (case (case file of
              Some content \<Rightarrow> map_option (\<lambda>f. (f, content)) (fmt_for_size (length content))
            | None \<Rightarrow> map_option (\<lambda>f. (f, replicate (fmt_size f) 0xE5)) create_as) of
        None \<Rightarrow> Die
      | Some (f, d) \<Rightarrow>
          (let db = ((drm f + 1) * 32 + bsize f - 1) div bsize f;
               im = \<lparr>im_f = f, im_data = d, dir_blocks = db, ptrs = (if dsm f < 256 then 16 else 8),
                     im_alloc = fold (\<lambda>b a. a [b := True]) [0..<db] (replicate (dsm f + 1) False)\<rparr>
           in Done (im\<lparr>im_alloc := fold (mark_entry im) [0..<drm f + 1] (im_alloc im)\<rparr>)))"

text \<open>\<open>img_save\<close> writes exactly the bytes of the image.\<close>

definition img_save :: "img \<Rightarrow> bytes" where
  "img_save im = take (fmt_size (im_f im)) (im_data im)"

section \<open>Allocation\<close>

definition alloc_block :: "img \<Rightarrow> (nat \<times> img) outcome" where
  "alloc_block im =
     (case find (\<lambda>b. \<not> im_alloc im ! b) [dir_blocks im..<dsm (im_f im) + 1] of
        None \<Rightarrow> Die
      | Some b \<Rightarrow> Done (b, im\<lparr>im_alloc := (im_alloc im) [b := True]\<rparr>))"

definition free_entry :: "img \<Rightarrow> nat outcome" where
  "free_entry im =
     (case find (\<lambda>e. entry_byte im e 0 = 0xE5) [0..<drm (im_f im) + 1] of None \<Rightarrow> Die | Some e \<Rightarrow> Done e)"

section \<open>Names\<close>

text \<open>The characters before the dot (at most \<open>n\<close>) and the rest, and those of the extension.\<close>

fun base_chars :: "nat \<Rightarrow> bytes \<Rightarrow> bytes \<times> bytes" where
  "base_chars n [] = ([], [])"
| "base_chars 0 (c # p) = ([], c # p)"
| "base_chars (Suc n) (c # p) =
     (if c = 0x2E then ([], c # p)
      else if c = 0x20 then base_chars (Suc n) p
      else (let (cs, r) = base_chars n p in (toupper c # cs, r)))"

fun ext_chars :: "nat \<Rightarrow> bytes \<Rightarrow> bytes" where
  "ext_chars n [] = []"
| "ext_chars 0 (c # p) = []"
| "ext_chars (Suc n) (c # p) =
     (if c = 0x2E \<or> c = 0x20 then ext_chars (Suc n) p else toupper c # ext_chars n p)"

definition pad_blanks :: "nat \<Rightarrow> bytes \<Rightarrow> bytes" where
  "pad_blanks n cs = cs @ replicate (n - length cs) 0x20"

definition to_cpm_name :: "bytes \<Rightarrow> bytes" where
  "to_cpm_name h =
     (let base = (case split_last 0x2F h of None \<Rightarrow> h | Some (_, b) \<Rightarrow> b);
          (cs, p) = base_chars 8 base;
          p = dropWhile (\<lambda>c. c \<noteq> 0x2E) p
      in pad_blanks 8 cs @ pad_blanks 3 (if p = [] then [] else ext_chars 3 (tl p)))"

definition name_eq :: "img \<Rightarrow> nat \<Rightarrow> bytes \<Rightarrow> bool" where
  "name_eq im e name \<longleftrightarrow> list_all (\<lambda>i. entry_byte im e (1 + i) AND 0x7F = name ! i) [0..<11]"

section \<open>Adding and deleting files\<close>

definition delete_entry :: "bytes \<Rightarrow> nat \<Rightarrow> img \<Rightarrow> img" where
  "delete_entry name e im =
     (if entry_byte im e 0 \<noteq> 0 \<or> \<not> name_eq im e name then im
      else
        (let a = fold (\<lambda>i a. let b = entry_block im e i in if b \<noteq> 0 \<and> b \<le> dsm (im_f im) then a [b := False] else a)
                   [0..<ptrs im] (im_alloc im)
         in put_bytes (entry_ptr im e) [0xE5] (im\<lparr>im_alloc := a\<rparr>)))"

definition delete_file :: "img \<Rightarrow> bytes \<Rightarrow> img" where
  "delete_file im name = fold (delete_entry name) [0..<drm (im_f im) + 1] im"

text \<open>One block of an entry: \<open>n\<close> records from record \<open>rec\<close> on belong to the entry.\<close>

definition add_block :: "bytes \<Rightarrow> nat \<Rightarrow> nat \<Rightarrow> nat \<Rightarrow> nat \<Rightarrow> img \<Rightarrow> img outcome" where
  "add_block buf e rec n i im =
     (case alloc_block im of
        Done (b, im) \<Rightarrow>
          (let im = (if ptrs im = 16 then put_bytes (entry_ptr im e + (16 + i)) [of_nat b] im
                     else put_bytes (entry_ptr im e + (17 + 2 * i)) [of_nat (b div 256)]
                            (put_bytes (entry_ptr im e + (16 + 2 * i)) [of_nat b] im));
               per = bsize (im_f im) div 128;
               first = rec + i * per;
               cnt = (if first + per > rec + n then rec + n - first else per);
               im = put_bytes (block_ptr im b) (replicate (bsize (im_f im)) 0x1A) im
           in Done (put_bytes (block_ptr im b) (take (cnt * 128) (drop (first * 128) buf)) im))
      | Die \<Rightarrow> Die | Overread \<Rightarrow> Overread)"

fun add_blocks :: "bytes \<Rightarrow> nat \<Rightarrow> nat \<Rightarrow> nat \<Rightarrow> nat list \<Rightarrow> img \<Rightarrow> img outcome" where
  "add_blocks buf e rec n [] im = Done im"
| "add_blocks buf e rec n (i # is) im =
     (case add_block buf e rec n i im of Done im \<Rightarrow> add_blocks buf e rec n is im | Die \<Rightarrow> Die | Overread \<Rightarrow> Overread)"

text \<open>The entry for \<open>n\<close> records, the \<open>k\<close>-th of the file.\<close>

definition entry_head :: "bytes \<Rightarrow> nat \<Rightarrow> nat \<Rightarrow> bytes" where
  "entry_head name n k =
     (let ext = 2 * k + (if n > 128 then 1 else 0);
          rc = (if n > 128 then n - 128 else n)
      in [0] @ name @ [of_nat ext AND 0x1F, 0, of_nat (ext div 32), of_nat rc] @ replicate 16 0)"

definition add_entry :: "bytes \<Rightarrow> bytes \<Rightarrow> nat \<Rightarrow> nat \<Rightarrow> nat \<Rightarrow> img \<Rightarrow> img outcome" where
  "add_entry name buf rec n k im =
     (case free_entry im of
        Done e \<Rightarrow>
          (let im = put_bytes (entry_ptr im e) (entry_head name n k) im;
               blocks = (n * 128 + bsize (im_f im) - 1) div bsize (im_f im)
           in add_blocks buf e rec n [0..<blocks] im)
      | Die \<Rightarrow> Die | Overread \<Rightarrow> Overread)"

text \<open>The \<open>do ... while (rec < records)\<close> loop.\<close>

function add_entries :: "bytes \<Rightarrow> bytes \<Rightarrow> nat \<Rightarrow> nat \<Rightarrow> nat \<Rightarrow> img \<Rightarrow> img outcome" where
  "add_entries name buf records rec k im =
     (let n = (if records - rec > 256 then 256 else records - rec)
      in case add_entry name buf rec n k im of
           Done im \<Rightarrow> if 0 < n \<and> rec + n < records then add_entries name buf records (rec + n) (k + 1) im else Done im
         | Die \<Rightarrow> Die | Overread \<Rightarrow> Overread)"
  by pat_completeness auto
termination
  by (relation "measure (\<lambda>(name, buf, records, rec, k, im). records - rec)") (auto split: if_splits)

declare add_entries.simps [simp del]

definition add_file :: "img \<Rightarrow> bytes \<Rightarrow> bytes option \<Rightarrow> img outcome" where
  "add_file im h file =
     (case file of
        None \<Rightarrow> Die
      | Some content \<Rightarrow>
          (let records = (length content + 127) div 128;
               buf = content @ replicate (records * 128 - length content) 0x1A;
               name = to_cpm_name h
           in add_entries name buf records 0 0 (delete_file im name)))"

section \<open>Listing and extracting\<close>

record listing =
  l_entry :: nat
  l_user :: u8
  l_ext :: u32
  l_recs :: nat
  l_blocks :: nat

definition entry_recs :: "img \<Rightarrow> nat \<Rightarrow> nat" where
  "entry_recs im e = unat (entry_ext im e AND exm (im_f im)) * 128 + unat (entry_byte im e 15)"

text \<open>The lines of the listing, and the files, used and total blocks of its last line.\<close>

definition list_dir :: "img \<Rightarrow> listing list \<times> nat \<times> nat \<times> nat" where
  "list_dir im =
     (let ls = map (\<lambda>e. \<lparr>l_entry = e, l_user = entry_byte im e 0, l_ext = entry_ext im e, l_recs = entry_recs im e,
                          l_blocks = length (filter (\<lambda>i. entry_block im e i \<noteq> 0) [0..<ptrs im])\<rparr>)
                 (filter (\<lambda>e. \<not> (entry_byte im e 0 = 0xE5 \<or> entry_byte im e 0 > 15)) [0..<drm (im_f im) + 1])
      in (ls, length (filter (\<lambda>l. l_ext l AND NOT (exm (im_f im)) = 0) ls), sum_list (map l_blocks ls),
          dsm (im_f im) + 1 - dir_blocks im))"

text \<open>Record \<open>r\<close> of entry \<open>e\<close>: 128 bytes of the block its pointer names.\<close>

definition entry_record :: "img \<Rightarrow> nat \<Rightarrow> nat \<Rightarrow> bytes option" where
  "entry_record im e r =
     (let per = bsize (im_f im) div 128;
          off = block_ptr im (entry_block im e (r div per)) + (r mod per) * 128
      in if off + 128 \<le> length (im_data im) then Some (take 128 (drop off (im_data im))) else None)"

fun entry_records :: "img \<Rightarrow> nat \<Rightarrow> nat list \<Rightarrow> bytes outcome" where
  "entry_records im e [] = Done []"
| "entry_records im e (r # rs) =
     (case entry_record im e r of
        None \<Rightarrow> Overread
      | Some bs \<Rightarrow> (case entry_records im e rs of Done rest \<Rightarrow> Done (bs @ rest) | x \<Rightarrow> x))"

definition find_extent :: "img \<Rightarrow> bytes \<Rightarrow> nat \<Rightarrow> nat option" where
  "find_extent im name x =
     find (\<lambda>e. entry_byte im e 0 = 0 \<and> name_eq im e name \<and> entry_ext im e AND NOT (exm (im_f im)) = of_nat x)
       [0..<drm (im_f im) + 1]"

text \<open>The walk over the extents 0, 2, 4, ... of a file.  An extent number is at most 0x1FFF, so \<open>n = 4096\<close> steps reach the
  end (\<open>walk_ends\<close>).\<close>

fun extract_walk :: "nat \<Rightarrow> img \<Rightarrow> bytes \<Rightarrow> nat \<Rightarrow> bytes outcome" where
  "extract_walk 0 im name x = Done []"
| "extract_walk (Suc n) im name x =
     (case find_extent im name x of
        None \<Rightarrow> Done []
      | Some m \<Rightarrow>
          (case entry_records im m [0..<entry_recs im m] of
             Done bs \<Rightarrow>
               if entry_recs im m < 256 then Done bs
               else (case extract_walk n im name (x + 2) of Done rest \<Rightarrow> Done (bs @ rest) | r \<Rightarrow> r)
           | r \<Rightarrow> r))"

text \<open>The file name as \<open>fopen\<close> sees it: a string that ends at its first NUL.\<close>

definition host_of_name :: "bytes \<Rightarrow> bytes" where
  "host_of_name name =
     takeWhile (\<lambda>c. c \<noteq> 0)
       (takeWhile (\<lambda>c. c \<noteq> 0x20) (take 8 name) @
        (if name ! 8 \<noteq> 0x20 then 0x2E # takeWhile (\<lambda>c. c \<noteq> 0x20) (drop 8 name) else []))"

text \<open>The files that \<open>extract\<close> writes, in order: paths below \<open>outdir\<close> and contents; \<open>writable\<close> tells whether a path can
  be opened for writing.  Files written before a \<open>Die\<close> are not part of the outcome.\<close>

fun extract_from :: "(bytes \<Rightarrow> bool) \<Rightarrow> img \<Rightarrow> bytes option \<Rightarrow> bytes \<Rightarrow> nat list \<Rightarrow> (bytes \<times> bytes) list outcome" where
  "extract_from writable im want outdir [] = Done []"
| "extract_from writable im want outdir (e # es) =
     (if entry_byte im e 0 \<noteq> 0 \<or> entry_ext im e AND NOT (exm (im_f im)) \<noteq> 0 \<or>
         (case want of None \<Rightarrow> False | Some w \<Rightarrow> \<not> name_eq im e w)
      then extract_from writable im want outdir es
      else
        (let name = map (\<lambda>i. entry_byte im e (1 + i) AND 0x7F) [0..<11];
             path = take 1023 (outdir @ [0x2F] @ host_of_name name)
         in if \<not> writable path then Die
            else case extract_walk 4096 im name 0 of
                   Done bs \<Rightarrow> (case extract_from writable im want outdir es of Done fs1 \<Rightarrow> Done ((path, bs) # fs1) | r \<Rightarrow> r)
                 | Die \<Rightarrow> Die | Overread \<Rightarrow> Overread))"

definition extract_files :: "(bytes \<Rightarrow> bool) \<Rightarrow> img \<Rightarrow> bytes option \<Rightarrow> bytes \<Rightarrow> (bytes \<times> bytes) list outcome" where
  "extract_files writable im want outdir = extract_from writable im want outdir [0..<drm (im_f im) + 1]"

section \<open>The tool\<close>

datatype mode = Add | Lst | Extract

record opts =
  o_create :: fmt
  o_mode :: mode
  o_outdir :: bytes

definition arg_str :: "string \<Rightarrow> bytes" where
  "arg_str s = map of_char s"

text \<open>The leading options; the rest of the arguments starts with the image.  None is \<open>die\<close>.\<close>

fun parse_opts :: "opts \<Rightarrow> bytes list \<Rightarrow> (opts \<times> bytes list) option" where
  "parse_opts o1 [] = Some (o1, [])"
| "parse_opts o1 (a # as) =
     (if take 1 a \<noteq> arg_str ''-'' then Some (o1, a # as)
      else if a = arg_str ''-f'' \<and> as \<noteq> [] then
        (if hd as = arg_str ''fd'' then parse_opts (o1\<lparr>o_create := FMT_FD\<rparr>) (tl as)
         else if hd as = arg_str ''hd'' then parse_opts (o1\<lparr>o_create := FMT_HD\<rparr>) (tl as)
         else None)
      else if a = arg_str ''-l'' then parse_opts (o1\<lparr>o_mode := Lst\<rparr>) as
      else if a = arg_str ''-x'' then parse_opts (o1\<lparr>o_mode := Extract\<rparr>) as
      else if a = arg_str ''-o'' \<and> as \<noteq> [] then parse_opts (o1\<lparr>o_outdir := hd as\<rparr>) (tl as)
      else None)"

text \<open>The first scan of the extract mode: the last \<open>-o DIR\<close> wins.  It steps one argument at a time.\<close>

fun find_outdir :: "bytes \<Rightarrow> bytes list \<Rightarrow> bytes" where
  "find_outdir d [] = d"
| "find_outdir d (a # as) = find_outdir (if a = arg_str ''-o'' \<and> as \<noteq> [] then hd as else d) as"

text \<open>The second scan: the names, without \<open>-o\<close> and the argument after it.\<close>

fun wanted_names :: "bytes list \<Rightarrow> bytes list" where
  "wanted_names [] = []"
| "wanted_names (a # as) = (if a = arg_str ''-o'' then wanted_names (tl as) else a # wanted_names as)"

fun extract_names :: "(bytes \<Rightarrow> bool) \<Rightarrow> img \<Rightarrow> bytes \<Rightarrow> bytes list \<Rightarrow> (bytes \<times> bytes) list outcome" where
  "extract_names writable im outdir [] = Done []"
| "extract_names writable im outdir (a # as) =
     (case extract_files writable im (Some (to_cpm_name a)) outdir of
        Done fs1 \<Rightarrow> (case extract_names writable im outdir as of Done fs2 \<Rightarrow> Done (fs1 @ fs2) | r \<Rightarrow> r)
      | r \<Rightarrow> r)"

fun add_files :: "(bytes \<Rightarrow> bytes option) \<Rightarrow> img \<Rightarrow> bytes list \<Rightarrow> img outcome" where
  "add_files host_file im [] = Done im"
| "add_files host_file im (h # hs) =
     (case add_file im h (host_file h) of Done im1 \<Rightarrow> add_files host_file im1 hs | r \<Rightarrow> r)"

text \<open>What a run leaves: the printed listing, the files it wrote, or the new image.\<close>

datatype effect = Listing "listing list \<times> nat \<times> nat \<times> nat" | Files "(bytes \<times> bytes) list" | Image bytes bytes

text \<open>\<open>host_file\<close> gives the contents of the host's readable files.\<close>

definition mkdsk :: "(bytes \<Rightarrow> bytes option) \<Rightarrow> (bytes \<Rightarrow> bool) \<Rightarrow> bytes list \<Rightarrow> effect outcome" where
  "mkdsk host_file writable argv =
     (case parse_opts \<lparr>o_create = FMT_HD, o_mode = Add, o_outdir = arg_str ''.''\<rparr> argv of
        None \<Rightarrow> Die
      | Some (o1, []) \<Rightarrow> Die
      | Some (o1, path # args) \<Rightarrow>
          (case o_mode o1 of
             Lst \<Rightarrow>
               (case img_load (host_file path) None of
                  Done im \<Rightarrow> Done (Listing (list_dir im)) | Die \<Rightarrow> Die | Overread \<Rightarrow> Overread)
           | Extract \<Rightarrow>
               (case img_load (host_file path) None of
                  Done im \<Rightarrow>
                    (let dir = find_outdir (o_outdir o1) args; ns = wanted_names args
                     in case (if ns = [] then extract_files writable im None dir else extract_names writable im dir ns) of
                          Done fs1 \<Rightarrow> Done (Files fs1) | Die \<Rightarrow> Die | Overread \<Rightarrow> Overread)
                | Die \<Rightarrow> Die | Overread \<Rightarrow> Overread)
           | Add \<Rightarrow>
               (case img_load (host_file path) (Some (o_create o1)) of
                  Done im \<Rightarrow>
                    (case add_files host_file im args of
                       Done im1 \<Rightarrow> if writable path then Done (Image path (img_save im1)) else Die
                     | Die \<Rightarrow> Die | Overread \<Rightarrow> Overread)
                | Die \<Rightarrow> Die | Overread \<Rightarrow> Overread)))"

end
