(* ===== verification/Mkdsk_Props.thy ===== *)
theory Mkdsk_Props
  imports Mkdsk
begin

text \<open>
  The directory of a disk image: what the operations of the image tool do to its entries and blocks.  The locale
  \<open>cpm_format\<close> holds the arithmetic of a format, and every lemma is proved from it alone; both formats of the tool
  interpret it in \<open>Mkdsk_Runs\<close>.  \<open>grows\<close> is the frame of the operations that add: only given entries and free blocks
  change.  \<open>chunk\<close> says that an entry holds 32 KB of a file, \<open>sound\<close> is the invariant of an image.
\<close>

section \<open>The arithmetic of a format\<close>

definition per_block :: "fmt \<Rightarrow> nat" where
  "per_block f = bsize f div 128"

definition dir_n :: "fmt \<Rightarrow> nat" where
  "dir_n f = ((drm f + 1) * 32 + bsize f - 1) div bsize f"

definition ptr_n :: "fmt \<Rightarrow> nat" where
  "ptr_n f = (if dsm f < 256 then 16 else 8)"

definition img_fits :: "fmt \<Rightarrow> img \<Rightarrow> bool" where
  "img_fits f im \<longleftrightarrow> im_f im = f \<and> length (im_data im) = fmt_size f \<and> dir_blocks im = dir_n f \<and> ptrs im = ptr_n f \<and>
     length (im_alloc im) = dsm f + 1"

text \<open>Byte \<open>k\<close> of block \<open>b\<close>.\<close>

definition block_byte :: "img \<Rightarrow> nat \<Rightarrow> nat \<Rightarrow> u8" where
  "block_byte im b k = im_data im ! (block_ptr im b + k)"

text \<open>\<open>grows f E im im'\<close>: between the two images only entries in \<open>E\<close> and blocks that were free have changed, and no
  block was freed.\<close>

definition grows :: "fmt \<Rightarrow> nat set \<Rightarrow> img \<Rightarrow> img \<Rightarrow> bool" where
  "grows f E im im' \<longleftrightarrow> img_fits f im' \<and>
     (\<forall>b\<le>dsm f. im_alloc im ! b \<longrightarrow> im_alloc im' ! b) \<and>
     (\<forall>e\<le>drm f. e \<notin> E \<longrightarrow> (\<forall>k<32. entry_byte im' e k = entry_byte im e k)) \<and>
     (\<forall>b. dir_n f \<le> b \<and> b \<le> dsm f \<and> im_alloc im ! b \<longrightarrow>
        (\<forall>k<bsize f. block_byte im' b k = block_byte im b k))"

text \<open>The stores of a block pointer.\<close>

definition put_ptr :: "nat \<Rightarrow> nat \<Rightarrow> nat \<Rightarrow> img \<Rightarrow> img" where
  "put_ptr e i b im =
     (if ptrs im = 16 then put_bytes (entry_ptr im e + (16 + i)) [of_nat b] im
      else put_bytes (entry_ptr im e + (17 + 2 * i)) [of_nat (b div 256)] (put_bytes (entry_ptr im e + (16 + 2 * i)) [of_nat b] im))"

text \<open>Block \<open>b\<close> holds what block \<open>i\<close> of an entry has to hold.\<close>

definition block_holds :: "fmt \<Rightarrow> bytes \<Rightarrow> nat \<Rightarrow> nat \<Rightarrow> nat \<Rightarrow> img \<Rightarrow> nat \<Rightarrow> bool" where
  "block_holds f buf rec n i im b \<longleftrightarrow>
     (\<forall>k<bsize f. i * bsize f + k < n * 128 \<longrightarrow> block_byte im b k = buf ! (rec * 128 + i * bsize f + k))"

locale cpm_format =
  fixes f :: fmt
  assumes dir_area: "(drm f + 1) * 32 = dir_n f * bsize f"
    and data_area: "data_base f + (dsm f + 1) * bsize f = fmt_size f"
    and entry_span: "ptr_n f * per_block f = 256"
    and whole_records: "bsize f = per_block f * 128"
    and dir_fits: "dir_n f \<le> dsm f"
    and ptr_width: "dsm f < 65536"
    and two_extents: "exm f = 1"
    and extents_fit: "drm f < 4095"
begin

lemma per_pos [simp]: "0 < per_block f" "0 < bsize f" "0 < dir_n f"
  using entry_span whole_records dir_area by (auto intro: Nat.gr0I)

lemma entry_end:
  assumes "e \<le> drm f"
  shows "e * 32 + 32 \<le> dir_n f * bsize f"
  using assms by (simp flip: dir_area)

lemma block_end:
  assumes "b \<le> dsm f"
  shows "data_base f + b * bsize f + bsize f \<le> fmt_size f"
proof -
  have "(b + 1) * bsize f \<le> (dsm f + 1) * bsize f" using assms by (intro mult_right_mono) auto
  then show ?thesis by (simp flip: data_area)
qed

lemma dir_end:
  assumes "e \<le> drm f" "dir_n f \<le> b"
  shows "e * 32 + 32 \<le> b * bsize f"
  by (rule order_trans [OF entry_end [OF assms(1)] mult_right_mono [OF assms(2)]]) simp

lemma entry_in:
  assumes "e \<le> drm f"
  shows "data_base f + e * 32 + 32 \<le> fmt_size f"
  using dir_end [OF assms dir_fits] block_end [OF le_refl] by simp

lemma fits_put:
  assumes "img_fits f im" "off + length bs \<le> fmt_size f"
  shows "img_fits f (put_bytes off bs im)"
  using assms by (simp add: img_fits_def put_bytes_def length_splice)

lemma nth_put:
  assumes "img_fits f im" "off + length bs \<le> fmt_size f" "i < fmt_size f"
  shows "im_data (put_bytes off bs im) ! i = (if off \<le> i \<and> i < off + length bs then bs ! (i - off) else im_data im ! i)"
  using assms by (auto simp: put_bytes_def img_fits_def nth_splice length_splice)

lemma ptr_put [simp]:
  "block_ptr (put_bytes off bs im) b = block_ptr im b" "entry_ptr (put_bytes off bs im) e = entry_ptr im e"
  "im_f (put_bytes off bs im) = im_f im" "ptrs (put_bytes off bs im) = ptrs im"
  "dir_blocks (put_bytes off bs im) = dir_blocks im" "im_alloc (put_bytes off bs im) = im_alloc im"
  by (simp_all add: put_bytes_def block_ptr_def entry_ptr_def)

lemma ptrs_at:
  assumes "img_fits f im"
  shows "block_ptr im b = data_base f + b * bsize f" "entry_ptr im e = data_base f + e * 32"
  using assms by (simp_all add: img_fits_def block_ptr_def entry_ptr_def)

lemma blocks_apart:
  assumes "b \<noteq> b'" "k < bsize f" "k' < bsize f"
  shows "b * bsize f + k \<noteq> b' * bsize f + k'"
proof
  assume "b * bsize f + k = b' * bsize f + k'"
  then have "(b * bsize f + k) div bsize f = (b' * bsize f + k') div bsize f" by simp
  then show False using assms by simp
qed

text \<open>A store into an entry, and one into a block.\<close>

lemma entry_byte_put_entry:
  assumes "img_fits f im" "e \<le> drm f" "e' \<le> drm f" "k + length bs \<le> 32" "k' < 32"
  shows "entry_byte (put_bytes (entry_ptr im e + k) bs im) e' k' =
    (if e' = e \<and> k \<le> k' \<and> k' < k + length bs then bs ! (k' - k) else entry_byte im e' k')"
proof -
  have i: "data_base f + e' * 32 + k' < fmt_size f" using entry_in [OF assms(3)] assms(5) by simp
  have o1: "data_base f + e * 32 + k + length bs \<le> fmt_size f" using entry_in [OF assms(2)] assms(4) by simp
  have "e' \<noteq> e \<Longrightarrow> e' * 32 + k' < e * 32 + k \<or> e * 32 + k + length bs \<le> e' * 32 + k'" using assms(4,5) by arith
  then show ?thesis
    using nth_put [OF assms(1) o1 i] by (auto simp: entry_byte_def ptrs_at [OF assms(1)])
qed

lemma entry_byte_put_block:
  assumes "img_fits f im" "dir_n f \<le> b" "b \<le> dsm f" "e \<le> drm f" "k < 32" "length bs \<le> bsize f"
  shows "entry_byte (put_bytes (block_ptr im b) bs im) e k = entry_byte im e k"
proof -
  have i: "data_base f + e * 32 + k < fmt_size f" using entry_in [OF assms(4)] assms(5) by simp
  have o1: "data_base f + b * bsize f + length bs \<le> fmt_size f" using block_end [OF assms(3)] assms(6) by simp
  show ?thesis
    using nth_put [OF assms(1) o1 i] dir_end [OF assms(4,2)] assms(5)
    by (auto simp: entry_byte_def ptrs_at [OF assms(1)])
qed

lemma block_byte_put_entry:
  assumes "img_fits f im" "dir_n f \<le> b" "b \<le> dsm f" "e \<le> drm f" "k + length bs \<le> 32" "j < bsize f"
  shows "block_byte (put_bytes (entry_ptr im e + k) bs im) b j = block_byte im b j"
proof -
  have i: "data_base f + b * bsize f + j < fmt_size f" using block_end [OF assms(3)] assms(6) by simp
  have o1: "data_base f + e * 32 + k + length bs \<le> fmt_size f" using entry_in [OF assms(4)] assms(5) by simp
  show ?thesis
    using nth_put [OF assms(1) o1 i] dir_end [OF assms(4,2)] assms(5) by (auto simp: block_byte_def ptrs_at [OF assms(1)])
qed

lemma block_byte_put_block:
  assumes "img_fits f im" "b \<le> dsm f" "b' \<le> dsm f" "length bs \<le> bsize f" "j < bsize f"
  shows "block_byte (put_bytes (block_ptr im b) bs im) b' j = (if b' = b \<and> j < length bs then bs ! j else block_byte im b' j)"
proof -
  have i: "data_base f + b' * bsize f + j < fmt_size f" using block_end [OF assms(3)] assms(5) by simp
  have o1: "data_base f + b * bsize f + length bs \<le> fmt_size f" using block_end [OF assms(2)] assms(4) by simp
  have ne: "b' * bsize f + j \<noteq> b * bsize f + m" if "b' \<noteq> b" "m < bsize f" for m
    by (rule blocks_apart [OF that(1) assms(5) that(2)])
  have "b' = b" if "b * bsize f \<le> b' * bsize f + j" "b' * bsize f + j < b * bsize f + length bs"
  proof -
    have "b' * bsize f + j - b * bsize f < bsize f" using that assms(4) by arith
    then show ?thesis using ne [of "b' * bsize f + j - b * bsize f"] that(1) by auto
  qed
  then show ?thesis using nth_put [OF assms(1) o1 i] by (auto simp: block_byte_def ptrs_at [OF assms(1)])
qed

section \<open>Growing images\<close>

lemma grows_refl: "img_fits f im \<Longrightarrow> grows f E im im"
  by (simp add: grows_def)

lemma grows_trans:
  assumes "grows f E im im1" "grows f E1 im1 im2" "E \<subseteq> E2" "E1 \<subseteq> E2"
  shows "grows f E2 im im2"
  unfolding grows_def
proof (intro conjI allI impI; (elim conjE)?)
  fix e k :: nat assume "e \<le> drm f" "e \<notin> E2" "k < 32"
  moreover from this assms(3,4) have "e \<notin> E" "e \<notin> E1" by auto
  ultimately show "entry_byte im2 e k = entry_byte im e k" using assms(1,2) by (simp add: grows_def)
qed (use assms(1,2) in \<open>simp_all add: grows_def\<close>)

lemma grows_mono: "grows f E im im1 \<Longrightarrow> E \<subseteq> E2 \<Longrightarrow> grows f E2 im im1"
  unfolding grows_def by blast

lemma grows_byte: "grows f E im im' \<Longrightarrow> e \<le> drm f \<Longrightarrow> e \<notin> E \<Longrightarrow> k < 32 \<Longrightarrow> entry_byte im' e k = entry_byte im e k"
  by (simp add: grows_def)

lemma grows_fits: "grows f E im im' \<Longrightarrow> img_fits f im'"
  by (simp add: grows_def)

lemma grows_alloc: "grows f E im im' \<Longrightarrow> b \<le> dsm f \<Longrightarrow> im_alloc im ! b \<Longrightarrow> im_alloc im' ! b"
  by (simp add: grows_def)

text \<open>The pointers of an entry are its bytes 16 to 31.\<close>

lemma ptr_n_cases: "ptr_n f = 16 \<or> ptr_n f = 8"
  by (simp add: ptr_n_def)

lemma entry_block_cong:
  assumes "img_fits f im" "img_fits f im'" "i < ptr_n f" "\<And>k. 16 \<le> k \<Longrightarrow> k < 32 \<Longrightarrow> entry_byte im' e k = entry_byte im e k"
  shows "entry_block im' e i = entry_block im e i"
  using assms ptr_n_cases by (auto simp: entry_block_def img_fits_def)

lemma entry_ext_cong:
  assumes "\<And>k. k < 16 \<Longrightarrow> entry_byte im' e k = entry_byte im e k"
  shows "entry_ext im' e = entry_ext im e"
  using assms by (simp add: entry_ext_def)

lemma entry_recs_cong:
  assumes "img_fits f im" "img_fits f im'" "\<And>k. k < 16 \<Longrightarrow> entry_byte im' e k = entry_byte im e k"
  shows "entry_recs im' e = entry_recs im e"
  using assms by (simp add: entry_recs_def entry_ext_def img_fits_def)

lemma name_eq_cong:
  assumes "\<And>k. k < 16 \<Longrightarrow> entry_byte im' e k = entry_byte im e k"
  shows "name_eq im' e name = name_eq im e name"
  using assms by (simp add: name_eq_def list_all_iff)

section \<open>Allocation\<close>

lemma find_upt_SomeD:
  assumes "find P [i..<j] = Some b"
  shows "P b" "i \<le> b" "b < j"
  using assms by (auto simp: find_Some_iff)

lemma alloc_block_Done:
  assumes "img_fits f im" "alloc_block im = Done (b, im')"
  shows "dir_n f \<le> b" "b \<le> dsm f" "\<not> im_alloc im ! b" "im' = im\<lparr>im_alloc := (im_alloc im) [b := True]\<rparr>"
    "img_fits f im'" "grows f {} im im'"
proof -
  from assms(2) have fd: "find (\<lambda>b. \<not> im_alloc im ! b) [dir_blocks im..<dsm (im_f im) + 1] = Some b"
    and im': "im' = im\<lparr>im_alloc := (im_alloc im) [b := True]\<rparr>"
    by (auto simp: alloc_block_def simp del: upt_Suc split: option.splits)
  show "im' = im\<lparr>im_alloc := (im_alloc im) [b := True]\<rparr>" by (rule im')
  show b: "\<not> im_alloc im ! b" "dir_n f \<le> b" "b \<le> dsm f" using find_upt_SomeD [OF fd] assms(1) by (auto simp: img_fits_def)
  show "img_fits f im'" using assms(1) by (simp add: im' img_fits_def)
  then show "grows f {} im im'"
    using assms(1) b by (auto simp: grows_def im' nth_list_update img_fits_def entry_byte_def entry_ptr_def block_byte_def block_ptr_def)
qed

text \<open>The pointer that \<open>add_block\<close> stores is read back.\<close>

lemma entry_block_16:
  assumes "img_fits f im" "ptr_n f = 16"
  shows "entry_block im e i = unat (entry_byte im e (16 + i))"
  using assms by (simp add: entry_block_def img_fits_def)

lemma or_push_8: "(ucast (x::u8) OR push_bit 8 (ucast (y::u8)) :: u32) = ucast x + 256 * ucast y"
proof -
  have "(ucast x :: u32) AND push_bit 8 (ucast y) = 0"
    by (rule bit_word_eqI) (auto simp: bit_simps dest: bit_imp_le_length)
  then have "(ucast x OR push_bit 8 (ucast y) :: u32) = ucast x + push_bit 8 (ucast y)"
    by (rule disjunctive_add_eq_or [symmetric])
  then show ?thesis by (simp add: push_bit_eq_mult)
qed

lemma entry_block_8:
  assumes "img_fits f im" "ptr_n f = 8"
  shows "entry_block im e i = unat (entry_byte im e (16 + 2 * i)) + 256 * unat (entry_byte im e (17 + 2 * i))"
proof -
  define x y where "x = entry_byte im e (16 + 2 * i)" and "y = entry_byte im e (17 + 2 * i)"
  have "unat x + 256 * unat y < 2 ^ 32"
    using unat_u8_less [of x] unat_u8_less [of y] by (simp del: unat_u8_less)
  then have "unat (ucast x + 256 * ucast y :: u32) = unat x + 256 * unat y"
    by (simp add: unat_word_ariths unsigned_ucast_eq take_bit_nat_eq_self)
  then show ?thesis using assms by (simp add: entry_block_def img_fits_def or_push_8 x_def y_def)
qed

lemma put_entry_grows:
  assumes "img_fits f im" "e \<le> drm f" "k + length bs \<le> 32"
  shows "grows f {e} im (put_bytes (entry_ptr im e + k) bs im)"
proof -
  have "entry_ptr im e + k + length bs \<le> fmt_size f" using entry_in [OF assms(2)] assms(3) by (simp add: ptrs_at [OF assms(1)])
  then have "img_fits f (put_bytes (entry_ptr im e + k) bs im)" by (rule fits_put [OF assms(1)])
  then show ?thesis
    using assms by (simp add: grows_def entry_byte_put_entry block_byte_put_entry)
qed

lemma put_block_grows:
  assumes "grows f E im0 im" "\<not> im_alloc im0 ! b" "dir_n f \<le> b" "b \<le> dsm f" "length bs \<le> bsize f" "img_fits f im0"
  shows "grows f E im0 (put_bytes (block_ptr im b) bs im)"
proof -
  note ft = grows_fits [OF assms(1)]
  have "block_ptr im b + length bs \<le> fmt_size f" using block_end [OF assms(4)] assms(5) by (simp add: ptrs_at [OF ft])
  then have ft': "img_fits f (put_bytes (block_ptr im b) bs im)" by (rule fits_put [OF ft])
  have "c \<noteq> b" if "im_alloc im0 ! c" for c using that assms(2) by auto
  then show ?thesis
    using assms ft ft' by (simp add: entry_byte_put_block block_byte_put_block grows_def)
qed

lemma put_ptr_bytes:
  assumes "img_fits f im" "e \<le> drm f" "i < ptr_n f" "b \<le> dsm f"
  shows "img_fits f (put_ptr e i b im)" "im_alloc (put_ptr e i b im) = im_alloc im" "grows f {e} im (put_ptr e i b im)"
    "\<And>k. k < 16 \<Longrightarrow> entry_byte (put_ptr e i b im) e k = entry_byte im e k"
    "\<And>j. j < ptr_n f \<Longrightarrow> entry_block (put_ptr e i b im) e j = (if j = i then b else entry_block im e j)"
proof -
  have st: "img_fits f (put_bytes (entry_ptr im e + k) [v] im) \<and> grows f {e} im (put_bytes (entry_ptr im e + k) [v] im)"
    if "img_fits f im" "k < 32" for im k v
    using that put_entry_grows [of im e k "[v]"] assms(2) grows_fits by auto
  have "dsm f < 256" if "ptr_n f = 16" using that by (simp add: ptr_n_def split: if_splits)
  have p: "ptrs im = ptr_n f" using assms(1) by (simp add: img_fits_def)
  from ptr_n_cases show "img_fits f (put_ptr e i b im)" "grows f {e} im (put_ptr e i b im)"
    using assms st [OF assms(1), of "16 + i" "of_nat b"] st [OF assms(1), of "16 + 2 * i" "of_nat b"]
      st [of "put_bytes (entry_ptr im e + (16 + 2 * i)) [of_nat b] im" "17 + 2 * i"]
    by (auto simp: put_ptr_def p intro: grows_trans [OF _ _ subset_refl subset_refl])
  note ft = this(1)
  show "im_alloc (put_ptr e i b im) = im_alloc im" by (simp add: put_ptr_def)
  have by8: "entry_byte (put_ptr e i b im) e k = (if k = 16 + 2 * i then of_nat b else if k = 17 + 2 * i then of_nat (b div 256) else entry_byte im e k)"
    if "ptr_n f = 8" "k < 32" for k
    using that assms st [OF assms(1), of "16 + 2 * i" "of_nat b"]
    by (auto simp: put_ptr_def p entry_byte_put_entry entry_byte_put_entry [of "put_bytes (entry_ptr im e + (16 + 2 * i)) [of_nat b] im", simplified])
  have by16: "entry_byte (put_ptr e i b im) e k = (if k = 16 + i then of_nat b else entry_byte im e k)"
    if "ptr_n f = 16" "k < 32" for k
    using that assms by (auto simp: put_ptr_def p entry_byte_put_entry)
  show "entry_byte (put_ptr e i b im) e k = entry_byte im e k" if "k < 16" for k
    using ptr_n_cases by8 [of k] by16 [of k] that by auto
  show "entry_block (put_ptr e i b im) e j = (if j = i then b else entry_block im e j)" if "j < ptr_n f" for j
    using ptr_n_cases
  proof
    assume 16: "ptr_n f = 16"
    then have "b < 256" using assms(4) by (simp add: ptr_n_def split: if_splits)
    with 16 that show ?thesis by (simp add: entry_block_16 [OF ft] entry_block_16 [OF assms(1)] by16 unat_of_nat)
  next
    assume 8: "ptr_n f = 8"
    have "b mod 256 + 256 * (b div 256 mod 256) = b" using assms(4) ptr_width by simp
    with 8 that show ?thesis by (auto simp: entry_block_8 [OF ft] entry_block_8 [OF assms(1)] by8 unat_of_nat)
  qed
qed

lemma add_block_Done:
  assumes "img_fits f im" "e \<le> drm f" "i < ptr_n f" "(rec + n) * 128 \<le> length buf" "i * per_block f < n"
    and "add_block buf e rec n i im = Done im'"
  obtains b where "dir_n f \<le> b" "b \<le> dsm f" "\<not> im_alloc im ! b" "im_alloc im' = (im_alloc im) [b := True]"
    "grows f {e} im im'" "\<And>k. k < 16 \<Longrightarrow> entry_byte im' e k = entry_byte im e k"
    "\<And>j. j < ptr_n f \<Longrightarrow> entry_block im' e j = (if j = i then b else entry_block im e j)" "block_holds f buf rec n i im' b"
proof -
  from assms(6) obtain b im1 where al: "alloc_block im = Done (b, im1)"
    by (auto simp: add_block_def split: outcome.splits)
  note b = alloc_block_Done [OF assms(1) al]
  define im2 where "im2 = put_ptr e i b im1"
  note p = put_ptr_bytes [OF b(5) assms(2,3) b(2), folded im2_def]
  define im3 where "im3 = put_bytes (block_ptr im2 b) (replicate (bsize f) 0x1A) im2"
  define first cnt where "first = rec + i * per_block f"
    and "cnt = (if first + per_block f > rec + n then rec + n - first else per_block f)"
  define bs where "bs = take (cnt * 128) (drop (first * 128) buf)"
  have f2: "im_f im2 = f" "im_f im1 = f" using p(1) b(5) by (simp_all add: img_fits_def)
  have im': "im' = put_bytes (block_ptr im3 b) bs im3"
    using assms(6) f2
    by (simp add: add_block_def al im3_def im2_def put_ptr_def [symmetric] Let_def bs_def cnt_def first_def per_block_def
      split: if_splits)
  have g2: "grows f {e} im im2" by (rule grows_trans [OF b(6) p(3)]) auto
  have g3: "grows f {e} im im3" unfolding im3_def by (rule put_block_grows [OF g2 b(3,1,2) _ assms(1)]) simp
  have cnt: "cnt \<le> per_block f" "first + cnt \<le> rec + n" using assms(5) by (auto simp: cnt_def first_def)
  have lbs: "length bs = cnt * 128" using cnt(2) assms(4) by (simp add: bs_def)
  then have lb: "length bs \<le> bsize f" using cnt(1) whole_records by simp
  have g: "grows f {e} im im'" unfolding im' by (rule put_block_grows [OF g3 b(3,1,2) lb assms(1)])
  note ft = grows_fits [OF g2] grows_fits [OF g3] grows_fits [OF g]
  have eb: "entry_byte im' e k = entry_byte im2 e k" if "k < 32" for k
    unfolding im' entry_byte_put_block [OF ft(2) b(1,2) assms(2) that lb]
    unfolding im3_def by (rule entry_byte_put_block [OF ft(1) b(1,2) assms(2) that]) simp
  have st: "block_holds f buf rec n i im' b"
    unfolding block_holds_def
  proof (intro allI impI)
    fix k assume k: "k < bsize f" "i * bsize f + k < n * 128"
    have "k < cnt * 128" using k whole_records by (simp add: cnt_def first_def algebra_simps less_diff_conv)
    then show "block_byte im' b k = buf ! (rec * 128 + i * bsize f + k)"
      using k ft b(2) lb lbs assms(4) cnt(2)
      by (simp add: im' block_byte_put_block bs_def first_def whole_records algebra_simps)
  qed
  show ?thesis
  proof (rule that [OF b(1-3) _ g _ _ st])
    show "im_alloc im' = (im_alloc im) [b := True]" using p(2) b(4) by (simp add: im' im3_def)
    show "entry_byte im' e k = entry_byte im e k" if "k < 16" for k
      using eb [of k] p(4) [of k] that grows_byte [OF b(6) assms(2), of k] by simp
    show "entry_block im' e j = (if j = i then b else entry_block im e j)" if "j < ptr_n f" for j
      using entry_block_cong [OF ft(1,3) that] eb p(5) [OF that] entry_block_cong [OF assms(1) b(5) that]
        grows_byte [OF b(6) assms(2)] by simp
  qed
qed

lemma add_blocks_Done:
  assumes "img_fits f im" "e \<le> drm f" "(rec + n) * 128 \<le> length buf" "distinct is"
    "\<And>i. i \<in> set is \<Longrightarrow> i < ptr_n f \<and> i * per_block f < n" "add_blocks buf e rec n is im = Done im'"
  shows "grows f {e} im im' \<and> (\<forall>k<16. entry_byte im' e k = entry_byte im e k) \<and>
    (\<forall>i<ptr_n f. i \<notin> set is \<longrightarrow> entry_block im' e i = entry_block im e i) \<and>
    (\<forall>i\<in>set is. let b = entry_block im' e i in dir_n f \<le> b \<and> b \<le> dsm f \<and> \<not> im_alloc im ! b \<and> im_alloc im' ! b \<and>
       block_holds f buf rec n i im' b)"
  using assms
proof (induction "is" arbitrary: im)
  case Nil
  then show ?case by (simp add: grows_refl)
next
  case (Cons i "is")
  from Cons.prems(6) obtain im1 where ab: "add_block buf e rec n i im = Done im1"
    and rest: "add_blocks buf e rec n is im1 = Done im'"
    by (auto split: outcome.splits)
  have i: "i < ptr_n f" "i * per_block f < n" using Cons.prems(5) by auto
  obtain b where b: "dir_n f \<le> b" "b \<le> dsm f" "\<not> im_alloc im ! b" "im_alloc im1 = (im_alloc im) [b := True]"
    "grows f {e} im im1" "\<And>k. k < 16 \<Longrightarrow> entry_byte im1 e k = entry_byte im e k"
    "\<And>j. j < ptr_n f \<Longrightarrow> entry_block im1 e j = (if j = i then b else entry_block im e j)" "block_holds f buf rec n i im1 b"
    by (rule add_block_Done [OF Cons.prems(1,2) i(1) Cons.prems(3) i(2) ab]) (rule that; assumption)
  have IH: "grows f {e} im1 im'" "\<And>k. k < 16 \<Longrightarrow> entry_byte im' e k = entry_byte im1 e k"
    "\<And>j. j < ptr_n f \<Longrightarrow> j \<notin> set is \<Longrightarrow> entry_block im' e j = entry_block im1 e j"
    "\<And>j. j \<in> set is \<Longrightarrow> let b = entry_block im' e j in dir_n f \<le> b \<and> b \<le> dsm f \<and> \<not> im_alloc im1 ! b \<and> im_alloc im' ! b \<and>
       block_holds f buf rec n j im' b"
    using Cons.IH [OF grows_fits [OF b(5)] Cons.prems(2,3) _ _ rest] Cons.prems(4,5) by auto
  have ab1: "im_alloc im1 ! b" using b(2,4) Cons.prems(1) by (simp add: img_fits_def)
  have bi: "entry_block im' e i = b" using IH(3) [OF i(1)] b(7) [OF i(1)] Cons.prems(4) by simp
  have "block_holds f buf rec n i im' b" using b(8) IH(1) b(1,2) ab1 by (simp add: block_holds_def grows_def)
  then have new: "let b = entry_block im' e i in dir_n f \<le> b \<and> b \<le> dsm f \<and> \<not> im_alloc im ! b \<and> im_alloc im' ! b \<and>
       block_holds f buf rec n i im' b"
    using b(1-3) bi grows_alloc [OF IH(1) b(2) ab1] by simp
  have old: "let b = entry_block im' e j in dir_n f \<le> b \<and> b \<le> dsm f \<and> \<not> im_alloc im ! b \<and> im_alloc im' ! b \<and>
       block_holds f buf rec n j im' b" if "j \<in> set is" for j
    using IH(4) [OF that] grows_alloc [OF b(5)] by (auto simp: Let_def)
  have "grows f {e} im im'" by (rule grows_trans [OF b(5) IH(1)]) auto
  with new old IH(2,3) b(6,7) show ?case by auto
qed

end

section \<open>Entries\<close>

lemma extent_number:
  assumes "x < 8192"
  shows "(ucast (of_nat x AND 0x1F :: u8) AND 0x1F) OR push_bit 5 (ucast (of_nat (x div 32) :: u8)) = (of_nat x :: u32)"
proof -
  have lt: "n < 13" if "bit x n" for n
    using that assms bit_take_bit_iff [of 13 x n] by (simp add: take_bit_nat_eq_self)
  have m: "(0x1F :: u32) = mask 5" "(0x1F :: u8) = mask 5" "x div 32 = drop_bit 5 x"
    by (simp_all add: mask_eq_exp_minus_1 drop_bit_eq_div)
  show ?thesis
    unfolding m
  proof (rule bit_word_eqI)
    fix n assume "n < LENGTH(32)"
    moreover have "bit x n \<Longrightarrow> n - 5 < 8" using lt [of n] by linarith
    ultimately show "bit ((ucast (of_nat x AND mask 5 :: u8) AND mask 5) OR push_bit 5 (ucast (of_nat (drop_bit 5 x) :: u8)) :: u32) n =
        bit (of_nat x :: u32) n"
      by (cases "n < 5") (auto simp: bit_simps simp del: mask_numeral)
  qed
qed

lemma extent_parts:
  assumes "c \<le> 1"
  shows "(of_nat (2 * j + c) :: u32) AND NOT 1 = of_nat (2 * j)" "(of_nat (2 * j + c) :: u32) AND 1 = of_nat c"
proof -
  from assms consider "c = 0" | "c = 1" by linarith
  then have b: "bit (2 * j + c) (Suc n) = bit (2 * j) (Suc n)" "bit (2 * j + c) 0 = (c = 1)" for n by (cases; simp add: bit_Suc bit_0)+
  show "(of_nat (2 * j + c) :: u32) AND NOT 1 = of_nat (2 * j)"
  proof (rule bit_word_eqI)
    fix n assume "n < LENGTH(32)"
    then show "bit ((of_nat (2 * j + c) :: u32) AND NOT 1) n = bit (of_nat (2 * j) :: u32) n"
      using b by (cases n) (simp_all add: bit_and_iff bit_not_iff bit_1_iff bit_of_nat_iff del: of_nat_add of_nat_mult, simp_all add: bit_0)
  qed
  have "(of_nat (2 * j + c) :: u32) AND 1 = of_bool (bit (of_nat (2 * j + c) :: u32) 0)" unfolding and_one_eq bit_0 by (rule mod_2_eq_odd)
  also have "\<dots> = of_bool (c = 1)" unfolding bit_of_nat_iff b by simp
  also have "\<dots> = of_nat c" using assms by (auto simp: le_Suc_eq)
  finally show "(of_nat (2 * j + c) :: u32) AND 1 = of_nat c" .
qed

lemma length_entry_head: "length name = 11 \<Longrightarrow> length (entry_head name n k) = 32"
  by (simp add: entry_head_def Let_def)

lemma nth_entry_head:
  assumes "length name = 11"
  shows "entry_head name n k ! 0 = 0" "\<And>i. i < 11 \<Longrightarrow> entry_head name n k ! (1 + i) = name ! i"
    "entry_head name n k ! 12 = of_nat (2 * k + (if n > 128 then 1 else 0)) AND 0x1F"
    "entry_head name n k ! 14 = of_nat ((2 * k + (if n > 128 then 1 else 0)) div 32)"
    "entry_head name n k ! 15 = of_nat (if n > 128 then n - 128 else n)"
    "\<And>i. 16 \<le> i \<Longrightarrow> i < 32 \<Longrightarrow> entry_head name n k ! i = 0"
  using assms by (auto simp: entry_head_def Let_def nth_append nth_Cons')

text \<open>The blocks that an entry points to.\<close>

definition owned :: "fmt \<Rightarrow> img \<Rightarrow> nat \<Rightarrow> nat set" where
  "owned f im e = {b. b \<noteq> 0 \<and> (\<exists>i<ptr_n f. entry_block im e i = b)}"

text \<open>A sound image: an entry in use has all the blocks of its records, they lie in the data area and are marked, and no
  two entries share a block.\<close>

definition live :: "fmt \<Rightarrow> img \<Rightarrow> nat \<Rightarrow> bool" where
  "live f im e \<longleftrightarrow> e \<le> drm f \<and> entry_byte im e 0 \<le> 15"

definition sound_entry :: "fmt \<Rightarrow> img \<Rightarrow> nat \<Rightarrow> bool" where
  "sound_entry f im e \<longleftrightarrow> unat (entry_byte im e 15) \<le> 128 \<and>
     (\<forall>r<entry_recs im e. entry_block im e (r div per_block f) \<noteq> 0) \<and>
     (\<forall>b\<in>owned f im e. dir_n f \<le> b \<and> b \<le> dsm f)"

definition sound :: "fmt \<Rightarrow> img \<Rightarrow> bool" where
  "sound f im \<longleftrightarrow> img_fits f im \<and>
     (\<forall>e. live f im e \<longrightarrow> sound_entry f im e \<and> (\<forall>b\<in>owned f im e. im_alloc im ! b)) \<and>
     (\<forall>e e'. live f im e \<and> live f im e' \<and> e \<noteq> e' \<longrightarrow> owned f im e \<inter> owned f im e' = {})"

text \<open>Entry \<open>e\<close> describes the \<open>k\<close>-th 32 KB of a file: \<open>n\<close> records of \<open>buf\<close> from record \<open>rec\<close> on, in blocks of its own.\<close>

definition chunk :: "fmt \<Rightarrow> bytes \<Rightarrow> bytes \<Rightarrow> nat \<Rightarrow> nat \<Rightarrow> nat \<Rightarrow> img \<Rightarrow> nat \<Rightarrow> bool" where
  "chunk f name buf rec n k im e \<longleftrightarrow>
     entry_byte im e 0 = 0 \<and> (\<forall>i<11. entry_byte im e (1 + i) = name ! i) \<and>
     entry_ext im e = of_nat (2 * k + (if n > 128 then 1 else 0)) \<and>
     unat (entry_byte im e 15) = (if n > 128 then n - 128 else n) \<and>
     (\<forall>i<ptr_n f. let b = entry_block im e i in
        if i * per_block f < n then dir_n f \<le> b \<and> b \<le> dsm f \<and> im_alloc im ! b \<and> block_holds f buf rec n i im b else b = 0)"

context cpm_format
begin

lemma owned_cong:
  assumes "img_fits f im" "img_fits f im'" "\<And>k. 16 \<le> k \<Longrightarrow> k < 32 \<Longrightarrow> entry_byte im' e k = entry_byte im e k"
  shows "owned f im' e = owned f im e"
  using entry_block_cong [OF assms(1,2) _ assms(3)] by (auto simp: owned_def)

lemma chunk_grows:
  assumes "chunk f name buf rec n k im e" "grows f E im im'" "e \<notin> E" "e \<le> drm f" "img_fits f im"
  shows "chunk f name buf rec n k im' e"
proof -
  note ft = grows_fits [OF assms(2)]
  have eb: "entry_byte im' e k = entry_byte im e k" if "k < 32" for k by (rule grows_byte [OF assms(2,4,3) that])
  have bl: "entry_block im' e i = entry_block im e i" if "i < ptr_n f" for i
    by (rule entry_block_cong [OF assms(5) ft that]) (simp add: eb)
  have "entry_ext im' e = entry_ext im e" by (rule entry_ext_cong) (simp add: eb)
  with assms(1,2) eb bl show ?thesis by (auto simp: chunk_def grows_def block_holds_def Let_def)
qed

lemma free_entry_Done:
  assumes "img_fits f im" "free_entry im = Done e"
  shows "e \<le> drm f" "entry_byte im e 0 = 0xE5"
proof -
  have "find (\<lambda>e. entry_byte im e 0 = 0xE5) [0..<drm (im_f im) + 1] = Some e"
    using assms(2) by (simp add: free_entry_def del: upt_Suc split: option.splits)
  from find_upt_SomeD [OF this] show "e \<le> drm f" "entry_byte im e 0 = 0xE5" using assms(1) by (auto simp: img_fits_def)
qed

lemma needed_blocks: "i < (n * 128 + bsize f - 1) div bsize f \<longleftrightarrow> i * per_block f < n"
proof -
  have "i < (n * 128 + bsize f - 1) div bsize f \<longleftrightarrow> (i + 1) * bsize f \<le> n * 128 + bsize f - 1"
    by (simp only: Suc_le_eq [symmetric] Suc_eq_plus1 less_eq_div_iff_mult_less_eq [OF per_pos(2)])
  also have "\<dots> \<longleftrightarrow> i * bsize f < n * 128" using per_pos(2) by (simp only: add_mult_distrib) arith
  also have "\<dots> \<longleftrightarrow> i * per_block f < n" by (simp add: whole_records mult.assoc [symmetric])
  finally show ?thesis .
qed

lemma ptr_bound: "n \<le> 256 \<Longrightarrow> i * per_block f < n \<Longrightarrow> i < ptr_n f"
  using entry_span by (metis less_le_trans mult_less_cancel2)

lemma entry_block_zero:
  assumes "img_fits f im" "i < ptr_n f" "\<And>k. 16 \<le> k \<Longrightarrow> k < 32 \<Longrightarrow> entry_byte im e k = 0"
  shows "entry_block im e i = 0"
  using ptr_n_cases assms by (auto simp: entry_block_16 entry_block_8)

lemma add_entry_Done:
  assumes "img_fits f im" "(rec + n) * 128 \<le> length buf" "n \<le> 256" "length name = 11" "k < 4096"
    and "add_entry name buf rec n k im = Done im'"
  obtains e where "e \<le> drm f" "entry_byte im e 0 = 0xE5" "grows f {e} im im'" "chunk f name buf rec n k im' e"
    "\<And>i. i * per_block f < n \<Longrightarrow> \<not> im_alloc im ! entry_block im' e i"
proof -
  from assms(6) obtain e where fe: "free_entry im = Done e" by (auto simp: add_entry_def split: outcome.splits)
  note e = free_entry_Done [OF assms(1) fe]
  define im1 where "im1 = put_bytes (entry_ptr im e) (entry_head name n k) im"
  have g1: "grows f {e} im im1"
    using put_entry_grows [OF assms(1) e(1), of 0 "entry_head name n k"] assms(4) by (simp add: im1_def length_entry_head)
  note ft1 = grows_fits [OF g1]
  have b1: "entry_byte im1 e j = entry_head name n k ! j" if "j < 32" for j
    using entry_byte_put_entry [OF assms(1) e(1) e(1), of 0 "entry_head name n k" j] assms(4) that
    by (simp add: im1_def length_entry_head)
  have "im_f im1 = f" using ft1 by (simp add: img_fits_def)
  then have ab: "add_blocks buf e rec n [0..<(n * 128 + bsize f - 1) div bsize f] im1 = Done im'"
    using assms(6) by (simp add: add_entry_def fe im1_def Let_def)
  have "i < ptr_n f \<and> i * per_block f < n" if "i \<in> set [0..<(n * 128 + bsize f - 1) div bsize f]" for i
    using that ptr_bound [OF assms(3)] by (simp add: needed_blocks [unfolded One_nat_def])
  from add_blocks_Done [OF ft1 e(1) assms(2) distinct_upt this ab]
  have g2: "grows f {e} im1 im'" and hd: "\<And>k. k < 16 \<Longrightarrow> entry_byte im' e k = entry_byte im1 e k"
    and un: "\<And>i. i < ptr_n f \<Longrightarrow> \<not> i * per_block f < n \<Longrightarrow> entry_block im' e i = entry_block im1 e i"
    and st: "\<And>i. i * per_block f < n \<Longrightarrow> let b = entry_block im' e i in dir_n f \<le> b \<and> b \<le> dsm f \<and> \<not> im_alloc im1 ! b \<and>
       im_alloc im' ! b \<and> block_holds f buf rec n i im' b"
    by (simp_all add: needed_blocks [unfolded One_nat_def])
  have z: "entry_block im1 e i = 0" if "i < ptr_n f" for i
    by (rule entry_block_zero [OF ft1 that]) (simp add: b1 nth_entry_head [OF assms(4)])
  have x: "2 * k + (if n > 128 then 1 else 0) < 8192" using assms(5) by simp
  have ch: "chunk f name buf rec n k im' e"
    unfolding chunk_def
    using hd b1 nth_entry_head [OF assms(4), where n = n and k = k] st un z extent_number [OF x] assms(3)
    by (auto simp: entry_ext_def Let_def unat_of_nat)
  show ?thesis
  proof (rule that [OF e _ ch])
    show "grows f {e} im im'" by (rule grows_trans [OF g1 g2]) auto
    show "\<not> im_alloc im ! entry_block im' e i" if "i * per_block f < n" for i
      using st [OF that] by (simp add: im1_def Let_def)
  qed
qed

lemma chunk_recs:
  assumes "img_fits f im" "chunk f name buf rec n k im e" "n \<le> 256"
  shows "entry_recs im e = n" "entry_ext im e AND NOT (exm (im_f im)) = of_nat (2 * k)"
proof -
  have x: "exm (im_f im) = 1" using assms(1) two_extents by (simp add: img_fits_def)
  show "entry_ext im e AND NOT (exm (im_f im)) = of_nat (2 * k)"
    using assms(2) extent_parts(1) [of "if n > 128 then 1 else 0" k] unfolding x by (simp add: chunk_def)
  have "entry_ext im e AND exm (im_f im) = of_nat (if n > 128 then 1 else 0)"
    using assms(2) extent_parts(2) [of "if n > 128 then 1 else 0" k] unfolding x by (simp add: chunk_def)
  then show "entry_recs im e = n" using assms(2) by (auto simp: entry_recs_def chunk_def split: if_splits)
qed

lemma sound_ptr:
  assumes "img_fits f im" "sound_entry f im e" "r < entry_recs im e"
  shows "r div per_block f < ptr_n f"
proof -
  have "exm (im_f im) = 1" using assms(1) two_extents by (simp add: img_fits_def)
  then have "unat (entry_ext im e AND exm (im_f im)) \<le> 1" by (simp add: and_one_eq mod_2_eq_odd)
  then have "entry_recs im e \<le> 256" using assms(2) by (simp add: entry_recs_def sound_entry_def)
  then show ?thesis using assms(3) entry_span by (simp add: div_less_iff_less_mult)
qed

lemma sound_entry_cong:
  assumes "img_fits f im" "img_fits f im'" "\<And>k. 0 < k \<Longrightarrow> k < 32 \<Longrightarrow> entry_byte im' e k = entry_byte im e k"
    "sound_entry f im e"
  shows "sound_entry f im' e" "owned f im' e = owned f im e"
proof -
  have ow: "owned f im' e = owned f im e" by (rule owned_cong [OF assms(1,2)]) (simp add: assms(3))
  show "owned f im' e = owned f im e" by (rule ow)
  have rc: "entry_recs im' e = entry_recs im e" using assms(1-3) by (simp add: entry_recs_def entry_ext_def img_fits_def)
  have bl: "entry_block im' e i = entry_block im e i" if "i < ptr_n f" for i
    by (rule entry_block_cong [OF assms(1,2) that]) (simp add: assms(3))
  have le: "r div per_block f < ptr_n f" if "r < entry_recs im e" for r
    by (rule sound_ptr [OF assms(1,4) that])
  have "unat (entry_byte im' e 15) \<le> 128" using assms(3,4) by (simp add: sound_entry_def)
  then show "sound_entry f im' e" using assms(4) ow rc bl le by (auto simp: sound_entry_def)
qed

lemma chunk_sound:
  assumes "img_fits f im" "chunk f name buf rec n k im e" "n \<le> 256"
  shows "sound_entry f im e" "owned f im e \<subseteq> {entry_block im e i | i. i * per_block f < n}" "\<And>b. b \<in> owned f im e \<Longrightarrow> im_alloc im ! b"
proof -
  have i: "r div per_block f * per_block f < n" if "r < n" for r by (rule le_less_trans [OF _ that]) simp
  have b: "dir_n f \<le> entry_block im e i \<and> entry_block im e i \<le> dsm f \<and> im_alloc im ! entry_block im e i" if "i * per_block f < n" for i
    using assms(2) that ptr_bound [OF assms(3) that] by (auto simp: chunk_def Let_def)
  show ow: "owned f im e \<subseteq> {entry_block im e i | i. i * per_block f < n}"
    using assms(2) by (auto simp: owned_def chunk_def Let_def split: if_splits)
  then show "im_alloc im ! b" if "b \<in> owned f im e" for b using that b by auto
  have "0 < dir_n f" by simp
  then have nz: "entry_block im e i \<noteq> 0" if "i * per_block f < n" for i using b [OF that] by linarith
  have rc: "unat (entry_byte im e 15) \<le> 128" using assms(2,3) by (auto simp: chunk_def)
  show "sound_entry f im e"
    unfolding sound_entry_def chunk_recs(1) [OF assms] using rc nz i ow b by blast
qed

lemma sound_add_entry:
  assumes "sound f im" "e \<le> drm f" "entry_byte im e 0 = 0xE5" "grows f {e} im im'" "chunk f name buf rec n k im' e" "n \<le> 256"
    "\<And>i. i * per_block f < n \<Longrightarrow> \<not> im_alloc im ! entry_block im' e i"
  shows "sound f im'"
proof -
  note ft = grows_fits [OF assms(4)]
  have ft0: "img_fits f im" using assms(1) by (simp add: sound_def)
  note c = chunk_sound [OF ft assms(5,6)]
  have old: "live f im x \<and> sound_entry f im' x \<and> owned f im' x = owned f im x \<and> (\<forall>b\<in>owned f im x. im_alloc im ! b \<and> im_alloc im' ! b)"
    if "live f im' x" "x \<noteq> e" for x
  proof -
    have x: "x \<le> drm f" using that(1) by (simp add: live_def)
    have eb: "entry_byte im' x k = entry_byte im x k" if "k < 32" for k using grows_byte [OF assms(4) x _ that] \<open>x \<noteq> e\<close> by simp
    then have l: "live f im x" using that(1) by (simp add: live_def)
    then have s: "sound_entry f im x" "\<forall>b\<in>owned f im x. im_alloc im ! b" using assms(1) by (auto simp: sound_def)
    then have "\<forall>b\<in>owned f im x. im_alloc im' ! b" using grows_alloc [OF assms(4)] by (auto simp: sound_entry_def)
    with l s sound_entry_cong [OF ft0 ft eb s(1)] show ?thesis by auto
  qed
  have new: "owned f im' e \<inter> owned f im' x = {}" if "live f im' x" "x \<noteq> e" for x
    using old [OF that] c(2) assms(7) by auto
  have oo: "owned f im' x \<inter> owned f im' y = {}" if "live f im' x" "x \<noteq> e" "live f im' y" "y \<noteq> e" "x \<noteq> y" for x y
    using old [OF that(1,2)] old [OF that(3,4)] assms(1) that(5) by (simp add: sound_def)
  have "owned f im' x \<inter> owned f im' y = {}" if "live f im' x" "live f im' y" "x \<noteq> y" for x y
    using new [of x] new [of y] oo [of x y] that by (cases "x = e"; cases "y = e"; blast)
  moreover have "sound_entry f im' x \<and> (\<forall>b\<in>owned f im' x. im_alloc im' ! b)" if "live f im' x" for x
    using old [of x] c that by (cases "x = e") auto
  ultimately show ?thesis using ft by (simp add: sound_def)
qed

end

section \<open>The entries of a file\<close>

definition named :: "fmt \<Rightarrow> img \<Rightarrow> bytes \<Rightarrow> nat set" where
  "named f im name = {e. e \<le> drm f \<and> entry_byte im e 0 = 0 \<and> name_eq im e name}"

text \<open>The records of the \<open>j\<close>-th entry of a file.\<close>

definition nth_recs :: "nat \<Rightarrow> nat \<Rightarrow> nat" where
  "nth_recs records j = min 256 (records - 256 * j)"

context cpm_format
begin

lemma add_entries_Done:
  assumes "add_entries name buf records rec k im = Done im'" "img_fits f im" "length name = 11" "records * 128 \<le> length buf"
    "rec = 256 * k" "rec \<le> records" "length es = k" "distinct es" "set es \<subseteq> {..drm f}"
    "\<And>j. j < k \<Longrightarrow> chunk f name buf (256 * j) (nth_recs records j) j im (es ! j)"
  shows "\<exists>es'. es' \<noteq> [] \<and> distinct (es @ es') \<and> set es' \<subseteq> {..drm f} \<and> grows f (set es') im im' \<and>
    (sound f im \<longrightarrow> sound f im') \<and> (\<forall>e\<in>set es'. entry_byte im e 0 = 0xE5) \<and> records \<le> 256 * length (es @ es') \<and> 256 * (length (es @ es') - 1) \<le> records \<and>
    (\<forall>j<length (es @ es'). chunk f name buf (256 * j) (nth_recs records j) j im' ((es @ es') ! j))"
  using assms
proof (induction name buf records rec k im arbitrary: es rule: add_entries.induct)
  case (1 name buf records rec k im)
  note prems = "1.prems"
  have n: "(if records - rec > 256 then 256 else records - rec) = nth_recs records k" using prems(5) by (simp add: nth_recs_def)
  define n where "n = nth_recs records k"
  have r: "rec + n \<le> records" "n \<le> 256" using prems(5,6) by (auto simp: n_def nth_recs_def)
  from prems(1) obtain im1 where ae: "add_entry name buf rec n k im = Done im1"
    and tl: "(if 0 < n \<and> rec + n < records then add_entries name buf records (rec + n) (k + 1) im1 else Done im1) = Done im'"
    unfolding add_entries.simps [of name buf records rec k im] n n_def [symmetric] Let_def by (auto split: outcome.splits)
  have "k \<le> card {..drm f}" using prems(7-9) card_mono [of "{..drm f}" "set es"] by (simp add: distinct_card)
  then have k: "k < 4096" using extents_fit by simp
  have lb: "(rec + n) * 128 \<le> length buf" using r(1) prems(4) by (meson le_trans mult_le_mono1)
  obtain e where e: "e \<le> drm f" "entry_byte im e 0 = 0xE5" "grows f {e} im im1" "chunk f name buf rec n k im1 e"
    "\<And>i. i * per_block f < n \<Longrightarrow> \<not> im_alloc im ! entry_block im1 e i"
    by (rule add_entry_Done [OF prems(2) lb r(2) prems(3) k ae]) (rule that; assumption)
  have so: "sound f im \<Longrightarrow> sound f im1" by (rule sound_add_entry [OF _ e(1-4) r(2) e(5)])
  have ne: "e \<noteq> es ! j" if "j < k" for j using prems(10) [OF that] e(2) by (auto simp: chunk_def)
  have d: "distinct (es @ [e])" using prems(7,8) ne by (auto simp: in_set_conv_nth)
  have ch: "chunk f name buf (256 * j) (nth_recs records j) j im1 ((es @ [e]) ! j)" if "j < k + 1" for j
  proof (cases "j < k")
    case True
    have "es ! j \<in> {..drm f}" using True prems(7,9) by (auto dest: nth_mem)
    with True show ?thesis
      using chunk_grows [OF prems(10) [OF True] e(3) _ _ prems(2)] ne [OF True] prems(7) by (simp add: nth_append)
  next
    case False
    then have "j = k" using that by simp
    with e(4) prems(5,7) show ?thesis by (auto simp: n_def nth_append)
  qed
  show ?case
  proof (cases "0 < n \<and> rec + n < records")
    case True
    then have n256: "n = 256" using prems(5) by (auto simp: n_def nth_recs_def)
    have ds: "set (es @ [e]) \<subseteq> {..drm f}" using prems(9) e(1) by simp
    have rk: "rec + n = 256 * (k + 1)" using n256 prems(5) by simp
    have g: "add_entries name buf records (rec + n) (k + 1) im1 = Done im'" using tl True by simp
    have "\<exists>es'. es' \<noteq> [] \<and> distinct ((es @ [e]) @ es') \<and> set es' \<subseteq> {..drm f} \<and> grows f (set es') im1 im' \<and>
      (sound f im1 \<longrightarrow> sound f im') \<and> (\<forall>e\<in>set es'. entry_byte im1 e 0 = 0xE5) \<and> records \<le> 256 * length ((es @ [e]) @ es') \<and> 256 * (length ((es @ [e]) @ es') - 1) \<le> records \<and>
      (\<forall>j<length ((es @ [e]) @ es'). chunk f name buf (256 * j) (nth_recs records j) j im' (((es @ [e]) @ es') ! j))"
      by (rule "1.IH" [of n im1 "es @ [e]", OF _ ae _ g])
        (use n_def n True r rk grows_fits [OF e(3)] prems(3,4,7) d ds ch in simp_all)
    then obtain es' where es': "distinct ((es @ [e]) @ es')" "set es' \<subseteq> {..drm f}" "grows f (set es') im1 im'"
      "sound f im1 \<longrightarrow> sound f im'" "\<forall>e\<in>set es'. entry_byte im1 e 0 = 0xE5" "records \<le> 256 * length ((es @ [e]) @ es')" "256 * (length ((es @ [e]) @ es') - 1) \<le> records"
      "\<forall>j<length ((es @ [e]) @ es'). chunk f name buf (256 * j) (nth_recs records j) j im' (((es @ [e]) @ es') ! j)" by blast
    have "entry_byte im x 0 = 0xE5" if "x \<in> set es'" for x
      using es'(1,2,5) that grows_byte [OF e(3), of x 0] by auto
    moreover have "grows f (set (e # es')) im im'" by (rule grows_trans [OF e(3) es'(3)]) auto
    ultimately show ?thesis using es' e(1,2) so by (intro exI [of _ "e # es'"]) auto
  next
    case False
    then have im': "im' = im1" using tl by (auto split: if_splits)
    have "records \<le> 256 * (k + 1)" using False r prems(5,6) by (auto simp: n_def nth_recs_def)
    then show ?thesis using prems(5-7) e(1-4) d ch so by (intro exI [of _ "[e]"]) (auto simp: im')
  qed
qed

end

section \<open>Deleting\<close>

lemma nth_fold_marks:
  assumes "b < length a"
  shows "fold (\<lambda>i a. let c = g i in if c \<noteq> 0 \<and> c \<le> d then a [c := v] else a) is a ! b =
      (if b \<noteq> 0 \<and> b \<le> d \<and> (\<exists>i\<in>set is. g i = b) then v else a ! b)"
    and "length (fold (\<lambda>i a. let c = g i in if c \<noteq> 0 \<and> c \<le> d then a [c := v] else a) is a) = length a"
  using assms by (induction "is" arbitrary: a) (auto simp: Let_def nth_list_update)

context cpm_format
begin

lemma delete_entry_effect:
  assumes "img_fits f im" "e \<le> drm f" "im' = delete_entry name e im"
  shows "img_fits f im'"
    "\<And>e' k. e' \<le> drm f \<Longrightarrow> k < 32 \<Longrightarrow>
       entry_byte im' e' k = (if e' = e \<and> k = 0 \<and> e \<in> named f im name then 0xE5 else entry_byte im e' k)"
    "\<And>b k. dir_n f \<le> b \<Longrightarrow> b \<le> dsm f \<Longrightarrow> k < bsize f \<Longrightarrow> block_byte im' b k = block_byte im b k"
    "\<And>b. b \<le> dsm f \<Longrightarrow> im_alloc im' ! b = (im_alloc im ! b \<and> \<not> (e \<in> named f im name \<and> b \<in> owned f im e))"
proof -
  define a where "a = fold (\<lambda>i a. let b = entry_block im e i in if b \<noteq> 0 \<and> b \<le> dsm f then a [b := False] else a)
      [0..<ptr_n f] (im_alloc im)"
  define im1 where "im1 = im\<lparr>im_alloc := a\<rparr>"
  have la: "length a = dsm f + 1" using assms(1) nth_fold_marks(2) [of 0 "im_alloc im"] by (simp add: a_def img_fits_def)
  have f1: "img_fits f im1" using assms(1) la by (simp add: img_fits_def im1_def)
  have e1: "entry_byte im1 e' k = entry_byte im e' k" "entry_ptr im1 e' = entry_ptr im e'" "block_byte im1 b k = block_byte im b k" for e' k b
    by (simp_all add: im1_def entry_byte_def entry_ptr_def block_byte_def block_ptr_def)
  have a1: "a ! b = (im_alloc im ! b \<and> b \<notin> owned f im e)" if "b \<le> dsm f" for b
    using that nth_fold_marks(1) [of b "im_alloc im" "entry_block im e" "dsm f" False "[0..<ptr_n f]"] assms(1)
    by (auto simp: a_def img_fits_def owned_def)
  have im': "im' = (if e \<in> named f im name then put_bytes (entry_ptr im1 e + 0) [0xE5] im1 else im)"
    using assms(1,2) by (auto simp: assms(3) delete_entry_def named_def im1_def a_def img_fits_def Let_def entry_ptr_def block_ptr_def)
  show "img_fits f im'" using assms(1) put_entry_grows [OF f1 assms(2), of 0 "[0xE5]"] grows_fits by (auto simp: im')
  show "entry_byte im' e' k = (if e' = e \<and> k = 0 \<and> e \<in> named f im name then 0xE5 else entry_byte im e' k)"
    if "e' \<le> drm f" "k < 32" for e' k
    using that entry_byte_put_entry [OF f1 assms(2) that(1), of 0 "[0xE5]" k] by (auto simp: im' e1)
  show "block_byte im' b k = block_byte im b k" if "dir_n f \<le> b" "b \<le> dsm f" "k < bsize f" for b k
    using that block_byte_put_entry [OF f1 that(1,2) assms(2), of 0 "[0xE5]" k] by (auto simp: im' e1)
  show "im_alloc im' ! b = (im_alloc im ! b \<and> \<not> (e \<in> named f im name \<and> b \<in> owned f im e))" if "b \<le> dsm f" for b
    using a1 [OF that] by (simp add: im' im1_def)
qed

lemma delete_entries_effect:
  assumes "img_fits f im" "set es \<subseteq> {..drm f}" "im' = fold (delete_entry name) es im"
  shows "img_fits f im' \<and>
    (\<forall>e\<le>drm f. \<forall>k<32. entry_byte im' e k = (if e \<in> set es \<and> k = 0 \<and> e \<in> named f im name then 0xE5 else entry_byte im e k)) \<and>
    (\<forall>b. dir_n f \<le> b \<longrightarrow> b \<le> dsm f \<longrightarrow> (\<forall>k<bsize f. block_byte im' b k = block_byte im b k)) \<and>
    (\<forall>b\<le>dsm f. im_alloc im' ! b = (im_alloc im ! b \<and> (\<forall>e\<in>set es \<inter> named f im name. b \<notin> owned f im e)))"
  using assms(1,2) unfolding assms(3)
proof (induction es arbitrary: im)
  case (Cons e es)
  define im1 where "im1 = delete_entry name e im"
  have e: "e \<le> drm f" using Cons.prems(2) by simp
  note d = delete_entry_effect [OF Cons.prems(1) e im1_def]
  have nm: "named f im1 name = named f im name - {e}"
  proof -
    have "name_eq im1 x name = name_eq im x name" if "x \<le> drm f" for x
      using d(2) [OF that] by (simp add: name_eq_def list_all_iff)
    then show ?thesis using d(2) by (auto simp: named_def split: if_splits)
  qed
  have ow: "owned f im1 x = owned f im x" if "x \<le> drm f" for x
    by (rule owned_cong [OF Cons.prems(1) d(1)]) (use d(2) [OF that] in simp)
  have IH: "img_fits f (fold (delete_entry name) es im1)"
    "\<And>x k. x \<le> drm f \<Longrightarrow> k < 32 \<Longrightarrow> entry_byte (fold (delete_entry name) es im1) x k = (if x \<in> set es \<and> k = 0 \<and> x \<in> named f im1 name then 0xE5 else entry_byte im1 x k)"
    "\<And>b k. dir_n f \<le> b \<Longrightarrow> b \<le> dsm f \<Longrightarrow> k < bsize f \<Longrightarrow> block_byte (fold (delete_entry name) es im1) b k = block_byte im1 b k"
    "\<And>b. b \<le> dsm f \<Longrightarrow> im_alloc (fold (delete_entry name) es im1) ! b = (im_alloc im1 ! b \<and> (\<forall>e\<in>set es \<inter> named f im1 name. b \<notin> owned f im1 e))"
    using Cons.IH [OF d(1)] Cons.prems(2) by auto
  have al: "im_alloc (fold (delete_entry name) es im1) ! b = (im_alloc im ! b \<and> (\<forall>e\<in>set (e # es) \<inter> named f im name. b \<notin> owned f im e))"
    if "b \<le> dsm f" for b
  proof -
    have "(\<forall>x\<in>set es \<inter> named f im1 name. b \<notin> owned f im1 x) \<longleftrightarrow> (\<forall>x\<in>set es \<inter> (named f im name - {e}). b \<notin> owned f im x)"
      unfolding nm using ow Cons.prems(2) by (intro ball_cong) auto
    with IH(4) [OF that] d(4) [OF that] show ?thesis by auto
  qed
  have "fold (delete_entry name) (e # es) im = fold (delete_entry name) es im1" by (simp add: im1_def)
  then show ?case
  proof (simp only:, intro conjI allI impI)
    show "entry_byte (fold (delete_entry name) es im1) x k =
        (if x \<in> set (e # es) \<and> k = 0 \<and> x \<in> named f im name then 0xE5 else entry_byte im x k)" if "x \<le> drm f" "k < 32" for x k
      using IH(2) [OF that] d(2) [OF that] by (auto simp: nm split: if_splits)
  qed (use IH(1,3) d(3) al in simp_all)
qed simp

lemma delete_file_effect:
  assumes "img_fits f im" "im' = delete_file im name"
  shows "img_fits f im'"
    "\<And>e k. e \<le> drm f \<Longrightarrow> k < 32 \<Longrightarrow> entry_byte im' e k = (if k = 0 \<and> e \<in> named f im name then 0xE5 else entry_byte im e k)"
    "\<And>b k. dir_n f \<le> b \<Longrightarrow> b \<le> dsm f \<Longrightarrow> k < bsize f \<Longrightarrow> block_byte im' b k = block_byte im b k"
    "\<And>b. b \<le> dsm f \<Longrightarrow> im_alloc im' ! b = (im_alloc im ! b \<and> (\<forall>e\<in>named f im name. b \<notin> owned f im e))"
    "named f im' name = {}"
proof -
  have "im' = fold (delete_entry name) [0..<drm f + 1] im" using assms by (simp add: delete_file_def img_fits_def)
  note d = delete_entries_effect [OF assms(1) _ this]
  have u: "set [0..<drm f + 1] = {..drm f}" by auto
  show "img_fits f im'" using d u by auto
  show b: "entry_byte im' e k = (if k = 0 \<and> e \<in> named f im name then 0xE5 else entry_byte im e k)" if "e \<le> drm f" "k < 32" for e k
    using d that unfolding u by auto
  show "block_byte im' b k = block_byte im b k" if "dir_n f \<le> b" "b \<le> dsm f" "k < bsize f" for b k
    using d that unfolding u by auto
  have "{..drm f} \<inter> named f im name = named f im name" by (auto simp: named_def)
  then show "im_alloc im' ! b = (im_alloc im ! b \<and> (\<forall>e\<in>named f im name. b \<notin> owned f im e))" if "b \<le> dsm f" for b
    using d that unfolding u by auto
  have "name_eq im' e name = name_eq im e name" if "e \<le> drm f" for e using b [OF that] by (simp add: name_eq_def list_all_iff)
  then show "named f im' name = {}" using b by (auto simp: named_def split: if_splits)
qed

section \<open>Extracting what was added\<close>

lemma chunk_record:
  assumes "img_fits f im" "chunk f name buf rec n k im e" "n \<le> 256" "r < n" "(rec + n) * 128 \<le> length buf"
  shows "entry_record im e r = Some (take 128 (drop ((rec + r) * 128) buf))"
proof -
  define i o1 where "i = r div per_block f" and "o1 = r mod per_block f * 128"
  have r: "r = i * per_block f + r mod per_block f" by (simp add: i_def)
  have i: "i * per_block f < n" using assms(4) by (subst (asm) r) simp
  have ip: "i < ptr_n f" by (rule ptr_bound [OF assms(3) i])
  define b where "b = entry_block im e i"
  have b: "dir_n f \<le> b" "b \<le> dsm f" "block_holds f buf rec n i im b" using assms(2) i ip by (auto simp: chunk_def Let_def b_def)
  have "r mod per_block f < per_block f" by simp
  then have o1: "o1 + 128 \<le> bsize f" unfolding o1_def whole_records by (metis Suc_leI add.commute mult_Suc mult_le_mono1)
  have ro: "i * bsize f + o1 = r * 128" using arg_cong [OF r, of "\<lambda>x. x * 128"] by (simp add: o1_def whole_records algebra_simps)
  have le: "data_base f + b * bsize f + o1 + 128 \<le> fmt_size f" using block_end [OF b(2)] o1 by simp
  have len: "length (im_data im) = fmt_size f" "im_f im = f" using assms(1) by (simp_all add: img_fits_def)
  have by1: "im_data im ! (data_base f + b * bsize f + o1 + t) = buf ! ((rec + r) * 128 + t)" if "t < 128" for t
  proof -
    have "(r + 1) * 128 \<le> n * 128" using assms(4) by (intro mult_right_mono) auto
    then have "i * bsize f + (o1 + t) < n * 128" using ro that by simp
    then have "block_byte im b (o1 + t) = buf ! (rec * 128 + i * bsize f + (o1 + t))"
      using b(3) o1 that by (simp add: block_holds_def)
    moreover have "rec * 128 + i * bsize f + (o1 + t) = (rec + r) * 128 + t" using ro by (simp add: add_mult_distrib)
    ultimately have "block_byte im b (o1 + t) = buf ! ((rec + r) * 128 + t)" by (simp only:)
    then show ?thesis by (simp add: block_byte_def ptrs_at [OF assms(1)] add.assoc)
  qed
  have "(rec + (r + 1)) * 128 \<le> (rec + n) * 128" using assms(4) by (intro mult_right_mono) auto
  then have "(rec + r) * 128 + 128 \<le> length buf" using assms(5) by simp
  then have "take 128 (drop (data_base f + b * bsize f + o1) (im_data im)) = take 128 (drop ((rec + r) * 128) buf)"
    using le len(1) by1 by (intro nth_equalityI) simp_all
  then show ?thesis
    using le len by (simp add: entry_record_def Let_def ptrs_at [OF assms(1)] flip: per_block_def i_def o1_def b_def)
qed

lemma chunk_records:
  assumes "img_fits f im" "chunk f name buf rec n k im e" "n \<le> 256" "(rec + n) * 128 \<le> length buf" "r \<le> n"
  shows "entry_records im e [r..<n] = Done (take ((n - r) * 128) (drop ((rec + r) * 128) buf))"
  using assms(5)
proof (induction "n - r" arbitrary: r)
  case (Suc d)
  then have r: "r < n" by simp
  have "(n - r) * 128 = 128 + (n - Suc r) * 128" "(rec + Suc r) * 128 = 128 + (rec + r) * 128" using r by simp_all
  then have "take ((n - r) * 128) (drop ((rec + r) * 128) buf) =
      take 128 (drop ((rec + r) * 128) buf) @ take ((n - Suc r) * 128) (drop ((rec + Suc r) * 128) buf)"
    by (simp only: take_add drop_drop)
  moreover have "entry_records im e [Suc r..<n] = Done (take ((n - Suc r) * 128) (drop ((rec + Suc r) * 128) buf))"
    using Suc.hyps(1) [of "Suc r"] Suc.hyps(2) r by simp
  ultimately show ?case using r by (simp add: upt_conv_Cons chunk_record [OF assms(1-3) r assms(4)])
qed simp

end

end
