(* ===== verification/Mkdsk_Files.thy ===== *)
theory Mkdsk_Files
  imports Mkdsk_Props
begin

text \<open>
  Files on a disk image: \<open>add_file\<close> leaves the entries of the new file (\<open>file_at\<close>), extracting reads them back, and the
  files with other names stay what they were.
\<close>

lemma base_chars_length: "length (fst (base_chars n p)) \<le> n"
  by (induction n p rule: base_chars.induct) (auto simp: split_def Let_def)

lemma ext_chars_length: "length (ext_chars n p) \<le> n"
  by (induction n p rule: ext_chars.induct) auto

lemma pad_blanks_length: "length cs \<le> n \<Longrightarrow> length (pad_blanks n cs) = n"
  by (simp add: pad_blanks_def)

lemma to_cpm_name_length [simp]: "length (to_cpm_name h) = 11"
  by (simp add: to_cpm_name_def Let_def split_def pad_blanks_length base_chars_length ext_chars_length)

lemma find_unique:
  assumes "P e" "e \<in> set xs" "\<And>x. x \<in> set xs \<Longrightarrow> P x \<Longrightarrow> x = e"
  shows "find P xs = Some e"
  using assms
proof (induction xs)
  case (Cons x xs)
  show ?case
  proof (cases "P x")
    case True
    with Cons.prems(3) show ?thesis by simp
  next
    case False
    with Cons.prems(1,2) have "e \<in> set xs" by auto
    then have "find P xs = Some e" by (rule Cons.IH [OF Cons.prems(1)]) (rule Cons.prems(3), simp)
    with False show ?thesis by simp
  qed
qed simp

text \<open>A file: its entries \<open>es\<close> in order, all of those with its name, hold the first \<open>records\<close> records of \<open>buf\<close>.\<close>

definition file_at :: "fmt \<Rightarrow> bytes \<Rightarrow> bytes \<Rightarrow> nat \<Rightarrow> img \<Rightarrow> nat list \<Rightarrow> bool" where
  "file_at f name buf records im es \<longleftrightarrow>
     es \<noteq> [] \<and> distinct es \<and> set es = named f im name \<and> records \<le> 256 * length es \<and> 256 * (length es - 1) \<le> records \<and>
     (\<forall>j<length es. chunk f name buf (256 * j) (nth_recs records j) j im (es ! j))"

text \<open>What \<open>add_file\<close> stores: the contents, padded to whole records.\<close>

definition padded :: "bytes \<Rightarrow> bytes" where
  "padded content = content @ replicate ((length content + 127) div 128 * 128 - length content) 0x1A"

definition seven_bit :: "bytes \<Rightarrow> bool" where
  "seven_bit name \<longleftrightarrow> (\<forall>c\<in>set name. c AND 0x7F = c)"

lemma length_padded: "length (padded content) = (length content + 127) div 128 * 128"
  unfolding padded_def length_append length_replicate by presburger

context cpm_format
begin

lemma chunk_named:
  assumes "chunk f name buf rec n k im e" "e \<le> drm f" "seven_bit name" "length name = 11"
  shows "e \<in> named f im name" "map (\<lambda>i. entry_byte im e (1 + i) AND 0x7F) [0..<11] = name"
proof -
  have "entry_byte im e (1 + i) AND 0x7F = name ! i" if "i < 11" for i
    using assms(1,3,4) that by (simp add: chunk_def seven_bit_def)
  then show "e \<in> named f im name" "map (\<lambda>i. entry_byte im e (1 + i) AND 0x7F) [0..<11] = name"
    using assms(1,2,4) by (auto simp: named_def chunk_def name_eq_def list_all_iff intro!: nth_equalityI)
qed

lemma named_grows:
  assumes "grows f E im im'" "img_fits f im"
  shows "named f im' name - E = named f im name - E"
proof -
  have "name_eq im' e name = name_eq im e name" if "e \<le> drm f" "e \<notin> E" for e
    using grows_byte [OF assms(1) that] by (simp add: name_eq_def list_all_iff)
  then show ?thesis using grows_byte [OF assms(1)] by (auto simp: named_def)
qed

lemma add_file_Done:
  assumes "img_fits f im" "add_file im h (Some content) = Done im'" "seven_bit (to_cpm_name h)"
  obtains es where "file_at f (to_cpm_name h) (padded content) ((length content + 127) div 128) im' es"
    "grows f (set es) (delete_file im (to_cpm_name h)) im'"
    "\<And>e. e \<in> set es \<Longrightarrow> entry_byte (delete_file im (to_cpm_name h)) e 0 = 0xE5"
    "sound f (delete_file im (to_cpm_name h)) \<Longrightarrow> sound f im'"
proof -
  define name im1 where "name = to_cpm_name h" and "im1 = delete_file im name"
  note d = delete_file_effect [OF assms(1) im1_def]
  have ae: "add_entries name (padded content) ((length content + 127) div 128) 0 0 im1 = Done im'"
    using assms(2) by (simp add: add_file_def Let_def name_def im1_def padded_def)
  obtain es where es: "es \<noteq> []" "distinct es" "set es \<subseteq> {..drm f}" "grows f (set es) im1 im'"
    "sound f im1 \<longrightarrow> sound f im'" "\<forall>e\<in>set es. entry_byte im1 e 0 = 0xE5" "(length content + 127) div 128 \<le> 256 * length es"
    "256 * (length es - 1) \<le> (length content + 127) div 128"
    "\<forall>j<length es. chunk f name (padded content) (256 * j) (nth_recs ((length content + 127) div 128) j) j im' (es ! j)"
    using add_entries_Done [OF ae d(1), of "[]"] by (auto simp: name_def length_padded)
  have "e \<in> named f im' name" if "e \<in> set es" for e
  proof -
    from that obtain j where "j < length es" "e = es ! j" by (auto simp: in_set_conv_nth)
    moreover have "e \<le> drm f" using es(3) that by auto
    ultimately show ?thesis using es(9) assms(3) by (auto intro!: chunk_named(1) simp: name_def)
  qed
  moreover have "named f im' name - set es = {}" using named_grows [OF es(4) d(1), of name] d(5) by simp
  ultimately have "set es = named f im' name" by auto
  with es have "file_at f name (padded content) ((length content + 127) div 128) im' es" by (simp add: file_at_def)
  with es(4-6) show ?thesis by (intro that [of es]) (simp_all add: name_def im1_def)
qed

lemma file_at_extent:
  assumes "img_fits f im" "file_at f name buf records im es" "j \<le> length es"
  shows "find_extent im name (2 * j) = (if j < length es then Some (es ! j) else None)"
proof -
  define P where "P = (\<lambda>e. entry_byte im e 0 = 0 \<and> name_eq im e name \<and> entry_ext im e AND NOT (exm (im_f im)) = of_nat (2 * j))"
  have ff: "im_f im = f" using assms(1) by (simp add: img_fits_def)
  have fe: "find_extent im name (2 * j) = find P [0..<drm f + 1]" unfolding find_extent_def P_def ff by (rule refl)
  have nm: "set es = named f im name" using assms(2) by (simp add: file_at_def)
  have "set es \<subseteq> {..drm f}" "distinct es" using nm assms(2) by (auto simp: named_def file_at_def)
  then have "length es \<le> card {..drm f}" using card_mono [of "{..drm f}" "set es"] by (simp add: distinct_card)
  then have le: "length es < 4096" using extents_fit by simp
  have ext: "entry_ext im (es ! i) AND NOT (exm (im_f im)) = of_nat (2 * i)" if "i < length es" for i
  proof (rule chunk_recs(2) [OF assms(1)])
    show "chunk f name buf (256 * i) (nth_recs records i) i im (es ! i)" using assms(2) that by (simp add: file_at_def)
    show "nth_recs records i \<le> 256" by (simp add: nth_recs_def)
  qed
  have P: "x = es ! j \<and> j < length es" if "x \<in> set [0..<drm f + 1]" "P x" for x
  proof -
    have "x \<in> set es" unfolding nm using that by (auto simp: P_def named_def)
    then obtain i where i: "i < length es" "x = es ! i" by (auto simp: in_set_conv_nth)
    then have "(of_nat (2 * i) :: u32) = of_nat (2 * j)" using that(2) ext by (simp add: P_def)
    then have "unat (of_nat (2 * i) :: u32) = unat (of_nat (2 * j) :: u32)" by (rule arg_cong)
    then have "i = j" using i le assms(3) by (simp add: unat_of_nat del: of_nat_mult)
    with i show ?thesis by simp
  qed
  show ?thesis
  proof (cases "j < length es")
    case True
    have "es ! j \<in> named f im name" using True nm nth_mem by blast
    then have "P (es ! j)" "es ! j \<in> set [0..<drm f + 1]" using ext [OF True] by (auto simp: P_def named_def)
    then have "find P [0..<drm f + 1] = Some (es ! j)" by (rule find_unique) (use P in blast)
    with True fe show ?thesis by simp
  next
    case False
    then have "find P [0..<drm f + 1] = None" using P by (auto simp: find_None_iff)
    with False fe show ?thesis by simp
  qed
qed

lemma file_at_walk:
  assumes "img_fits f im" "file_at f name buf records im es" "length buf = records * 128" "j \<le> length es" "length es - j < m"
  shows "extract_walk m im name (2 * j) = Done (drop (256 * j * 128) buf)"
  using assms(4,5)
proof (induction "length es - j" arbitrary: j m)
  case 0
  then have j: "j = length es" by simp
  then have "length buf \<le> 256 * j * 128" using assms(2,3) by (simp add: file_at_def)
  with 0 j show ?case by (cases m) (simp_all add: file_at_extent [OF assms(1,2)])
next
  case (Suc d)
  then have j: "j < length es" by simp
  obtain m' where m: "m = Suc m'" using Suc.prems by (cases m) auto
  define n where "n = nth_recs records j"
  have n: "n \<le> 256" by (simp add: n_def nth_recs_def)
  have ch: "chunk f name buf (256 * j) n j im (es ! j)" using assms(2) j by (simp add: file_at_def n_def)
  have "256 * j \<le> 256 * (length es - 1)" using j by simp
  then have jr: "256 * j \<le> records" using assms(2) by (auto simp: file_at_def)
  have nr: "256 * j + n \<le> records" using jr by (auto simp: n_def nth_recs_def)
  then have lb: "(256 * j + n) * 128 \<le> length buf" using assms(3) by simp
  have rs: "entry_records im (es ! j) [0..<n] = Done (take (n * 128) (drop (256 * j * 128) buf))"
    using chunk_records [OF assms(1) ch n lb, of 0] by simp
  have rc: "entry_recs im (es ! j) = n" by (rule chunk_recs(1) [OF assms(1) ch n])
  have fe: "find_extent im name (2 * j) = Some (es ! j)" using file_at_extent [OF assms(1,2), of j] j by simp
  show ?case
  proof (cases "n < 256")
    case True
    then have "256 * j + n = records" using jr by (auto simp: n_def nth_recs_def)
    then have "length (drop (256 * j * 128) buf) = n * 128" using assms(3) by simp
    with True show ?thesis by (simp add: m fe rc rs)
  next
    case False
    then have n256: "n = 256" using n by simp
    have "extract_walk m' im name (2 * (j + 1)) = Done (drop (256 * (j + 1) * 128) buf)"
      by (rule Suc.hyps(1)) (use Suc.hyps(2) Suc.prems m in auto)
    then have w: "extract_walk m' im name (2 * j + 2) = Done (drop (256 * 128) (drop (256 * j * 128) buf))" by (simp add: add.commute)
    show ?thesis unfolding m extract_walk.simps fe option.case rc [unfolded n256] rs [unfolded n256] outcome.case w
      by (simp only: append_take_drop_id less_irrefl if_False outcome.case)
  qed
qed

end

text \<open>A name with a character above 0x7F matches no entry, since \<open>name_eq\<close> masks the entry's side only: such a file is added
  again beside the old one, and it is not extracted by its name.\<close>

lemma high_bit_name_unmatched:
  assumes "length name = 11" "\<not> seven_bit name"
  shows "\<not> name_eq im e name"
proof
  assume "name_eq im e name"
  then have h: "name ! i = entry_byte im e (1 + i) AND 0x7F" if "i < 11" for i using that by (simp add: name_eq_def list_all_iff)
  have "name ! i AND 0x7F = name ! i" if "i < 11" for i unfolding h [OF that] by (simp only: and.assoc and.idem)
  with assms show False by (auto simp: seven_bit_def in_set_conv_nth)
qed

text \<open>The entry at which \<open>extract\<close> starts a wanted file.\<close>

definition starts :: "img \<Rightarrow> bytes \<Rightarrow> nat \<Rightarrow> bool" where
  "starts im name e \<longleftrightarrow> entry_byte im e 0 = 0 \<and> entry_ext im e AND NOT (exm (im_f im)) = 0 \<and> name_eq im e name"

lemma name_eq_name:
  assumes "name_eq im e name" "length name = 11"
  shows "map (\<lambda>i. entry_byte im e (1 + i) AND 0x7F) [0..<11] = name"
  using assms by (intro nth_equalityI) (auto simp: name_eq_def list_all_iff)

lemma extract_from_step:
  assumes "length name = 11"
  shows "extract_from writable im (Some name) outdir (e # es) =
    (if starts im name e then
       (if \<not> writable (take 1023 (outdir @ [0x2F] @ host_of_name name)) then Die
        else case extract_walk 4096 im name 0 of
            Done bs \<Rightarrow> (case extract_from writable im (Some name) outdir es of
               Done fs1 \<Rightarrow> Done ((take 1023 (outdir @ [0x2F] @ host_of_name name), bs) # fs1) | r \<Rightarrow> r)
          | Die \<Rightarrow> Die | Overread \<Rightarrow> Overread)
     else extract_from writable im (Some name) outdir es)"
proof (cases "starts im name e")
  case True
  then have "map (\<lambda>i. entry_byte im e (1 + i) AND 0x7F) [0..<11] = name" using name_eq_name [OF _ assms] by (simp only: starts_def)
  with True show ?thesis by (simp only: extract_from.simps starts_def Let_def option.case simp_thms if_True if_False)
qed (auto simp: starts_def)

lemma extract_from_cong:
  assumes "\<And>e. e \<in> set es \<Longrightarrow> starts im' name e = starts im name e" "extract_walk 4096 im' name 0 = extract_walk 4096 im name 0"
    "length name = 11"
  shows "extract_from writable im' (Some name) outdir es = extract_from writable im (Some name) outdir es"
  using assms(1)
proof (induction es)
  case (Cons e es)
  then show ?case by (simp only: extract_from_step [OF assms(3)] assms(2) list.set_intros)
qed simp

lemma extract_from_none:
  assumes "\<And>e. e \<in> set es \<Longrightarrow> \<not> starts im name e" "length name = 11"
  shows "extract_from writable im (Some name) outdir es = Done []"
  using assms(1)
proof (induction es)
  case (Cons e es)
  from Cons.IH Cons.prems have "extract_from writable im (Some name) outdir es = Done []" by simp
  moreover have "\<not> starts im name e" using Cons.prems by simp
  ultimately show ?case by (simp only: extract_from_step [OF assms(2)] if_False)
qed simp

lemma extract_from_one:
  assumes "\<And>e. e \<in> set es \<Longrightarrow> starts im name e \<Longrightarrow> e = start" "start \<in> set es" "distinct es" "starts im name start"
    "extract_walk 4096 im name 0 = Done bs" "length name = 11" "writable (take 1023 (outdir @ [0x2F] @ host_of_name name))"
  shows "extract_from writable im (Some name) outdir es = Done [(take 1023 (outdir @ [0x2F] @ host_of_name name), bs)]"
  using assms(1-3)
proof (induction es)
  case (Cons e es)
  show ?case
  proof (cases "e = start")
    case True
    have "extract_from writable im (Some name) outdir es = Done []"
      by (rule extract_from_none [OF _ assms(6)]) (use Cons.prems True in auto)
    then show ?thesis unfolding extract_from_step [OF assms(6)] using True assms(4,5,7) by simp
  next
    case False
    then have "\<not> starts im name e" using Cons.prems(1) [of e] by auto
    moreover have "extract_from writable im (Some name) outdir es =
        Done [(take 1023 (outdir @ [0x2F] @ host_of_name name), bs)]"
      by (rule Cons.IH) (use Cons.prems False in auto)
    ultimately show ?thesis by (simp only: extract_from_step [OF assms(6)] if_False)
  qed
qed simp

context cpm_format
begin

lemma file_at_length: "file_at f name buf records im es \<Longrightarrow> length es < 4096"
proof -
  assume "file_at f name buf records im es"
  then have "set es \<subseteq> {..drm f}" "distinct es" by (auto simp: named_def file_at_def)
  then have "length es \<le> card {..drm f}" using card_mono [of "{..drm f}" "set es"] by (simp add: distinct_card)
  then show ?thesis using extents_fit by simp
qed

lemma file_at_extract:
  assumes "img_fits f im" "file_at f name buf records im es" "length buf = records * 128" "length name = 11"
    "writable (take 1023 (outdir @ [0x2F] @ host_of_name name))"
  shows "extract_files writable im (Some name) outdir = Done [(take 1023 (outdir @ [0x2F] @ host_of_name name), buf)]"
proof -
  have ff: "im_f im = f" using assms(1) by (simp add: img_fits_def)
  have w: "extract_walk 4096 im name 0 = Done buf"
    using file_at_walk [OF assms(1-3), of 0 4096] file_at_length [OF assms(2)] by simp
  have ne: "0 < length es" using assms(2) by (simp add: file_at_def)
  have fe: "find_extent im name 0 = Some (es ! 0)" using file_at_extent [OF assms(1,2), of 0] ne by simp
  have u: "e = es ! 0" if "e \<in> set [0..<drm f + 1]" "starts im name e" for e
  proof -
    have "e \<in> named f im name" using that by (auto simp: starts_def named_def)
    then have "e \<in> set es" using assms(2) by (simp add: file_at_def)
    then obtain i where i: "i < length es" "e = es ! i" by (auto simp: in_set_conv_nth)
    then have "entry_ext im e AND NOT (exm (im_f im)) = of_nat (2 * i)"
      using assms(2) by (intro chunk_recs(2) [OF assms(1)]) (auto simp: file_at_def nth_recs_def)
    then have "unat (of_nat (2 * i) :: u32) = 0" using that(2) by (simp add: starts_def del: of_nat_mult)
    then have "i = 0" using i(1) file_at_length [OF assms(2)] by (simp add: unat_of_nat del: of_nat_mult)
    with i show ?thesis by simp
  qed
  have "es ! 0 \<in> set [0..<drm f + 1]" "starts im name (es ! 0)"
    using find_upt_SomeD [OF fe [unfolded find_extent_def ff]] by (auto simp: starts_def ff)
  then show ?thesis
    unfolding extract_files_def ff
    by (intro extract_from_one [where start = "es ! 0"]) (rule u distinct_upt w assms(4,5) | assumption)+
qed

text \<open>A block pointer past the last block sends \<open>extract\<close> out of the image: the pointers of an image are not checked.\<close>

lemma wild_pointer_overreads:
  assumes "img_fits f im" "dsm f < entry_block im e (r div per_block f)"
  shows "entry_record im e r = None"
proof -
  have "(dsm f + 1) * bsize f \<le> entry_block im e (r div per_block f) * bsize f" using assms(2) by (intro mult_right_mono) auto
  then have "fmt_size f \<le> data_base f + entry_block im e (r div per_block f) * bsize f" using data_area by simp
  moreover have "length (im_data im) = fmt_size f" "im_f im = f" using assms(1) by (simp_all add: img_fits_def)
  ultimately show ?thesis by (simp add: entry_record_def Let_def ptrs_at [OF assms(1)] flip: per_block_def)
qed

section \<open>The other files\<close>

lemma sound_delete:
  assumes "sound f im" "im' = delete_file im name"
  shows "sound f im'"
proof -
  have ft: "img_fits f im" using assms(1) by (simp add: sound_def)
  note d = delete_file_effect [OF ft assms(2)]
  have nl: "live f im e" if "e \<in> named f im name" for e using that by (simp add: named_def live_def)
  have old: "live f im x \<and> x \<notin> named f im name \<and> sound_entry f im' x \<and> owned f im' x = owned f im x" if "live f im' x" for x
  proof -
    have x: "x \<le> drm f" using that by (simp add: live_def)
    have nx: "x \<notin> named f im name"
    proof
      assume "x \<in> named f im name"
      then have "entry_byte im' x 0 = 0xE5" using d(2) [OF x, of 0] by simp
      with that show False by (simp add: live_def)
    qed
    then have eb: "entry_byte im' x k = entry_byte im x k" if "k < 32" for k using d(2) [OF x that] by simp
    then have l: "live f im x" using that by (simp add: live_def)
    then have "sound_entry f im x" using assms(1) by (simp add: sound_def)
    with l nx sound_entry_cong [OF ft d(1) eb] show ?thesis by auto
  qed
  have "im_alloc im' ! b" if "live f im' x" "b \<in> owned f im' x" for x b
  proof -
    note o = old [OF that(1)]
    have b: "im_alloc im ! b" "b \<le> dsm f" using o that(2) assms(1) by (auto simp: sound_def sound_entry_def)
    have "b \<notin> owned f im e" if "e \<in> named f im name" for e
      using o nl [OF that] that \<open>b \<in> owned f im' x\<close> assms(1) unfolding sound_def by blast
    with b show ?thesis using d(4) [OF b(2)] by simp
  qed
  moreover have "owned f im' x \<inter> owned f im' y = {}" if "live f im' x" "live f im' y" "x \<noteq> y" for x y
    using old [OF that(1)] old [OF that(2)] assms(1) that(3) by (simp add: sound_def)
  ultimately show ?thesis using d(1) old by (simp add: sound_def)
qed

text \<open>An entry whose bytes and blocks are the same in both images.\<close>

lemma same_records:
  assumes "img_fits f im" "img_fits f im'" "sound_entry f im e" "\<And>k. k < 32 \<Longrightarrow> entry_byte im' e k = entry_byte im e k"
    "\<And>b k. b \<in> owned f im e \<Longrightarrow> k < bsize f \<Longrightarrow> block_byte im' b k = block_byte im b k" "set rs \<subseteq> {..<entry_recs im e}"
  shows "entry_records im' e rs = entry_records im e rs"
proof -
  have "entry_record im' e r = entry_record im e r" if "r < entry_recs im e" for r
  proof -
    define i o1 where "i = r div per_block f" and "o1 = r mod per_block f * 128"
    have i: "i < ptr_n f" using sound_ptr [OF assms(1,3) that] by (simp add: i_def)
    have bl: "entry_block im' e i = entry_block im e i" by (rule entry_block_cong [OF assms(1,2) i]) (simp add: assms(4))
    define b where "b = entry_block im e i"
    have "b \<noteq> 0" using assms(3) that by (simp add: sound_entry_def b_def i_def)
    then have b: "b \<in> owned f im e" using i by (auto simp: owned_def b_def)
    then have "b \<le> dsm f" using assms(3) by (simp add: sound_entry_def)
    note le = block_end [OF this]
    have "r mod per_block f < per_block f" by simp
    then have o1: "o1 + 128 \<le> bsize f" unfolding o1_def whole_records by (metis Suc_leI add.commute mult_Suc mult_le_mono1)
    have len: "length (im_data im) = fmt_size f" "im_f im = f" "length (im_data im') = fmt_size f" "im_f im' = f"
      using assms(1,2) by (simp_all add: img_fits_def)
    have "im_data im' ! (data_base f + b * bsize f + o1 + t) = im_data im ! (data_base f + b * bsize f + o1 + t)" if "t < 128" for t
      using assms(5) [OF b, of "o1 + t"] that o1 by (simp add: block_byte_def ptrs_at [OF assms(1)] ptrs_at [OF assms(2)] add.assoc)
    then have "take 128 (drop (data_base f + b * bsize f + o1) (im_data im')) = take 128 (drop (data_base f + b * bsize f + o1) (im_data im))"
      using le o1 len by (intro nth_equalityI) simp_all
    then show ?thesis
      using bl len by (simp add: entry_record_def Let_def ptrs_at [OF assms(1)] ptrs_at [OF assms(2)] b_def flip: per_block_def i_def o1_def)
  qed
  with assms(6) show ?thesis by (induction rs) (auto split: option.splits)
qed

lemma same_walk:
  assumes "img_fits f im" "img_fits f im'" "named f im' name = named f im name"
    "\<And>e. e \<in> named f im name \<Longrightarrow> sound_entry f im e"
    "\<And>e k. e \<in> named f im name \<Longrightarrow> k < 32 \<Longrightarrow> entry_byte im' e k = entry_byte im e k"
    "\<And>e b k. e \<in> named f im name \<Longrightarrow> b \<in> owned f im e \<Longrightarrow> k < bsize f \<Longrightarrow> block_byte im' b k = block_byte im b k"
  shows "extract_walk m im' name x = extract_walk m im name x"
    and "e \<le> drm f \<Longrightarrow> starts im' name e = starts im name e"
proof -
  have ff: "im_f im = f" "im_f im' = f" using assms(1,2) by (simp_all add: img_fits_def)
  have ext: "entry_ext im' e = entry_ext im e" if "e \<in> named f im name" for e
    by (rule entry_ext_cong) (simp add: assms(5) [OF that])
  have nm: "(entry_byte im' e 0 = 0 \<and> name_eq im' e name) \<longleftrightarrow> (entry_byte im e 0 = 0 \<and> name_eq im e name)" if "e \<le> drm f" for e
    using assms(3) that by (auto simp: named_def)
  have st: "entry_byte im' e 0 = 0 \<and> name_eq im' e name \<and> entry_ext im' e AND NOT (exm (im_f im')) = v \<longleftrightarrow>
      entry_byte im e 0 = 0 \<and> name_eq im e name \<and> entry_ext im e AND NOT (exm (im_f im)) = v" if "e \<le> drm f" for e v
    using nm [OF that] ext [of e] that by (auto simp: named_def ff)
  show "e \<le> drm f \<Longrightarrow> starts im' name e = starts im name e" using st [of e 0] by (auto simp: starts_def)
  have fe: "find_extent im' name x = find_extent im name x" for x
    unfolding find_extent_def
  proof (rule find_cong)
    fix e assume "e \<in> set [0..<drm (im_f im) + 1]"
    then have "e \<le> drm f" by (auto simp: ff)
    from st [OF this] show "(entry_byte im' e 0 = 0 \<and> name_eq im' e name \<and> entry_ext im' e AND NOT (exm (im_f im')) = of_nat x) =
        (entry_byte im e 0 = 0 \<and> name_eq im e name \<and> entry_ext im e AND NOT (exm (im_f im)) = of_nat x)" .
  qed (simp add: ff)
  have rs: "entry_recs im' e = entry_recs im e \<and> entry_records im' e [0..<entry_recs im e] = entry_records im e [0..<entry_recs im e]"
    if "e \<in> named f im name" for e
  proof
    show "entry_recs im' e = entry_recs im e" by (rule entry_recs_cong [OF assms(1,2)]) (simp add: assms(5) [OF that])
    show "entry_records im' e [0..<entry_recs im e] = entry_records im e [0..<entry_recs im e]"
      by (rule same_records [OF assms(1,2) assms(4) [OF that] assms(5) [OF that] assms(6) [OF that]]) auto
  qed
  have in_named: "e \<in> named f im name" if "find_extent im name x = Some e" for e x
    using find_upt_SomeD [OF that [unfolded find_extent_def]] by (auto simp: named_def ff)
  show "extract_walk m im' name x = extract_walk m im name x"
  proof (induction m arbitrary: x)
    case (Suc m)
    show ?case
    proof (cases "find_extent im name x")
      case (Some e)
      note r = rs [OF in_named [OF Some]]
      show ?thesis unfolding extract_walk.simps fe Some option.case using r by (simp only: Suc.IH)
    qed (simp add: fe)
  qed simp
qed

lemma add_file_others:
  assumes "sound f im" "add_file im h (Some content) = Done im'" "seven_bit (to_cpm_name h)" "name \<noteq> to_cpm_name h"
    "length name = 11"
  shows "extract_files writable im' (Some name) outdir = extract_files writable im (Some name) outdir"
proof -
  define im1 where "im1 = delete_file im (to_cpm_name h)"
  have ft: "img_fits f im" using assms(1) by (simp add: sound_def)
  obtain es where es: "file_at f (to_cpm_name h) (padded content) ((length content + 127) div 128) im' es"
    "grows f (set es) im1 im'" "\<And>e. e \<in> set es \<Longrightarrow> entry_byte im1 e 0 = 0xE5"
    by (rule add_file_Done [OF ft assms(2,3), folded im1_def]) (rule that; assumption)
  note d = delete_file_effect [OF ft im1_def]
  note ft' = grows_fits [OF es(2)]
  have other: "e \<notin> named f i (to_cpm_name h)" if "e \<in> named f i name" for e i
  proof
    assume "e \<in> named f i (to_cpm_name h)"
    with that have "name_eq i e name" "name_eq i e (to_cpm_name h)" by (simp_all add: named_def)
    then have "name = to_cpm_name h" using name_eq_name [OF _ assms(5)] name_eq_name [OF _ to_cpm_name_length] by metis
    with assms(4) show False by simp
  qed
  have eb1: "entry_byte im1 e k = entry_byte im e k" if "e \<in> named f im name" "k < 32" for e k
    using d(2) [of e k] other [OF that(1)] that by (simp add: named_def)
  have ne: "e \<notin> set es" if "e \<in> named f im name" for e
    using es(3) [of e] eb1 [OF that, of 0] that by (auto simp: named_def)
  have eb: "entry_byte im' e k = entry_byte im e k" if "e \<in> named f im name" "k < 32" for e k
    using grows_byte [OF es(2) _ ne [OF that(1)] that(2)] eb1 [OF that] that(1) by (simp add: named_def)
  have nm: "named f im' name = named f im name"
  proof (intro equalityI subsetI)
    fix e assume e: "e \<in> named f im name"
    have "name_eq im' e name = name_eq im e name" by (rule name_eq_cong) (simp add: eb [OF e])
    with e eb [OF e, of 0] show "e \<in> named f im' name" by (simp add: named_def)
  next
    fix e assume e: "e \<in> named f im' name"
    then have le: "e \<le> drm f" and "e \<notin> set es" using other [OF e] es(1) by (simp_all add: named_def file_at_def)
    then have b1: "entry_byte im' e k = entry_byte im1 e k" if "k < 32" for k using grows_byte [OF es(2)] that by simp
    then have b: "entry_byte im' e k = entry_byte im e k" if "k < 32" for k
      using d(2) [OF le that] b1 [of 0] b1 [OF that] e by (auto simp: named_def split: if_splits)
    have "name_eq im' e name = name_eq im e name" by (rule name_eq_cong) (simp add: b)
    with e b [of 0] show "e \<in> named f im name" by (simp add: named_def)
  qed
  have so: "live f im e \<and> sound_entry f im e \<and> (\<forall>b\<in>owned f im e. im_alloc im ! b)" if "e \<in> named f im name" for e
    using that assms(1) by (auto simp: sound_def named_def live_def)
  have bb: "block_byte im' b k = block_byte im b k" if "e \<in> named f im name" "b \<in> owned f im e" "k < bsize f" for e b k
  proof -
    have b: "dir_n f \<le> b" "b \<le> dsm f" "im_alloc im ! b" using so [OF that(1)] that(2) by (auto simp: sound_entry_def)
    have "b \<notin> owned f im e'" if "e' \<in> named f im (to_cpm_name h)" for e'
    proof -
      have "live f im e'" "e' \<noteq> e" using that other [OF \<open>e \<in> named f im name\<close>] by (auto simp: named_def live_def)
      then show ?thesis using so [OF \<open>e \<in> named f im name\<close>] assms(1) \<open>b \<in> owned f im e\<close> unfolding sound_def by blast
    qed
    then have "im_alloc im1 ! b" using d(4) [OF b(2)] b(3) by simp
    then have "block_byte im' b k = block_byte im1 b k" using es(2) b that(3) by (simp add: grows_def)
    with d(3) [OF b(1,2) that(3)] show ?thesis by simp
  qed
  note sw = same_walk [OF ft ft' nm conjunct1 [OF conjunct2 [OF so]] eb bb]
  have "im_f im = f" "im_f im' = f" using ft ft' by (simp_all add: img_fits_def)
  then show ?thesis
    unfolding extract_files_def using sw by (auto intro!: extract_from_cong assms(5) simp del: upt_Suc)
qed

end

end
