(* ===== verification/Mkdsk_Runs.thy ===== *)
theory Mkdsk_Runs
  imports Mkdsk_Files
begin

text \<open>
  The image tool as a whole: how much room \<open>add_file\<close> takes, what \<open>img_load\<close> makes of a new image and of a saved one,
  the two formats as instances of \<open>cpm_format\<close>, and the theorems about runs of the tool.
\<close>

section \<open>Room\<close>

definition free_blocks :: "fmt \<Rightarrow> img \<Rightarrow> nat" where
  "free_blocks f im = card {b. dir_n f \<le> b \<and> b \<le> dsm f \<and> \<not> im_alloc im ! b}"

definition free_entries :: "fmt \<Rightarrow> img \<Rightarrow> nat" where
  "free_entries f im = card {e. e \<le> drm f \<and> entry_byte im e 0 = 0xE5}"

text \<open>The blocks and entries that \<open>m\<close> records need.\<close>

definition blocks_for :: "fmt \<Rightarrow> nat \<Rightarrow> nat" where
  "blocks_for f m = (m * 128 + bsize f - 1) div bsize f"

definition entries_for :: "nat \<Rightarrow> nat" where
  "entries_for m = max 1 ((m + 255) div 256)"

text \<open>A step that takes \<open>b\<close> free blocks and \<open>e\<close> free entries where there are as many, and dies where there are not.\<close>

definition takes :: "fmt \<Rightarrow> nat \<Rightarrow> nat \<Rightarrow> img \<Rightarrow> img outcome \<Rightarrow> bool" where
  "takes f b e im r \<longleftrightarrow>
     (if b \<le> free_blocks f im \<and> e \<le> free_entries f im
      then \<exists>im'. r = Done im' \<and> img_fits f im' \<and> free_blocks f im' + b = free_blocks f im \<and> free_entries f im' + e = free_entries f im
      else r = Die)"

context cpm_format
begin

lemma free_blocks_finite: "finite {b. dir_n f \<le> b \<and> b \<le> dsm f \<and> \<not> im_alloc im ! b}"
  by (rule finite_subset [of _ "{..dsm f}"]) auto

lemma free_entries_finite: "finite {e. e \<le> drm f \<and> entry_byte im e 0 = 0xE5}"
  by (rule finite_subset [of _ "{..drm f}"]) auto

lemma alloc_block_takes:
  assumes "img_fits f im"
  shows "if free_blocks f im = 0 then alloc_block im = Die else \<exists>b im'. alloc_block im = Done (b, im')"
proof -
  have "find (\<lambda>b. \<not> im_alloc im ! b) [dir_blocks im..<dsm (im_f im) + 1] = None \<longleftrightarrow>
      {b. dir_n f \<le> b \<and> b \<le> dsm f \<and> \<not> im_alloc im ! b} = {}"
    using assms by (auto simp: find_None_iff img_fits_def)
  then show ?thesis
    using free_blocks_finite [of im] by (auto simp: alloc_block_def free_blocks_def simp del: upt_Suc split: option.splits)
qed

lemma add_block_takes:
  assumes "img_fits f im" "e \<le> drm f" "i < ptr_n f" "(rec + n) * 128 \<le> length buf" "i * per_block f < n"
  shows "takes f 1 0 im (add_block buf e rec n i im)"
proof (cases "free_blocks f im = 0")
  case True
  then have "alloc_block im = Die" using alloc_block_takes [OF assms(1)] by simp
  then show ?thesis using True by (simp add: takes_def add_block_def)
next
  case False
  then obtain b1 im1 where "alloc_block im = Done (b1, im1)" using alloc_block_takes [OF assms(1)] by auto
  then obtain im' where ab: "add_block buf e rec n i im = Done im'" by (simp add: add_block_def Let_def)
  obtain b where b: "dir_n f \<le> b" "b \<le> dsm f" "\<not> im_alloc im ! b" "im_alloc im' = (im_alloc im) [b := True]"
    "grows f {e} im im'" "\<And>k. k < 16 \<Longrightarrow> entry_byte im' e k = entry_byte im e k"
    by (rule add_block_Done [OF assms ab]) (rule that; assumption)
  have "{b. dir_n f \<le> b \<and> b \<le> dsm f \<and> \<not> im_alloc im' ! b} = {b. dir_n f \<le> b \<and> b \<le> dsm f \<and> \<not> im_alloc im ! b} - {b}"
    using b(1-4) assms(1) by (auto simp: nth_list_update img_fits_def)
  then have "free_blocks f im' = free_blocks f im - 1"
    using b(1-3) free_blocks_finite [of im] by (simp add: free_blocks_def)
  moreover have "entry_byte im' x 0 = entry_byte im x 0" if "x \<le> drm f" for x
    using grows_byte [OF b(5) that, of 0] b(6) [of 0] by (cases "x = e") auto
  then have "free_entries f im' = free_entries f im" unfolding free_entries_def by (intro arg_cong [where f = card] Collect_cong) auto
  ultimately show ?thesis using False ab grows_fits [OF b(5)] by (simp add: takes_def)
qed

lemma takes_seq:
  assumes "takes f b e im r" "\<And>im'. r = Done im' \<Longrightarrow> img_fits f im' \<Longrightarrow> takes f b' e' im' (g im')"
    "r' = (case r of Done im' \<Rightarrow> g im' | Die \<Rightarrow> Die | Overread \<Rightarrow> Overread)"
  shows "takes f (b + b') (e + e') im r'"
proof (cases "b \<le> free_blocks f im \<and> e \<le> free_entries f im")
  case True
  then obtain im' where im': "r = Done im'" "img_fits f im'" "free_blocks f im' + b = free_blocks f im" "free_entries f im' + e = free_entries f im"
    using assms(1) by (auto simp: takes_def)
  have "takes f b' e' im' r'" using assms(2) [OF im'(1,2)] im'(1) assms(3) by simp
  then show ?thesis using im'(3,4) by (auto simp: takes_def split: if_splits)
next
  case False
  then have "r = Die" using assms(1) by (simp only: takes_def if_False)
  then show ?thesis using False assms(3) by (auto simp: takes_def)
qed

lemma add_blocks_takes:
  assumes "img_fits f im" "e \<le> drm f" "(rec + n) * 128 \<le> length buf" "\<And>i. i \<in> set is \<Longrightarrow> i < ptr_n f \<and> i * per_block f < n"
  shows "takes f (length is) 0 im (add_blocks buf e rec n is im)"
  using assms(1,4)
proof (induction "is" arbitrary: im)
  case (Cons i "is")
  have i: "i < ptr_n f" "i * per_block f < n" using Cons.prems(2) by auto
  have "takes f (1 + length is) (0 + 0) im (add_blocks buf e rec n (i # is) im)"
    by (rule takes_seq [OF add_block_takes [OF Cons.prems(1) assms(2) i(1) assms(3) i(2)]])
      (use Cons in \<open>auto split: outcome.splits\<close>)
  then show ?case by simp
qed (simp add: takes_def)

lemma free_entry_takes:
  "if free_entries f im = 0 then free_entry im = Die else \<exists>e. free_entry im = Done e" if "img_fits f im"
proof -
  have "find (\<lambda>e. entry_byte im e 0 = 0xE5) [0..<drm (im_f im) + 1] = None \<longleftrightarrow> {e. e \<le> drm f \<and> entry_byte im e 0 = 0xE5} = {}"
    using that by (auto simp: find_None_iff img_fits_def less_Suc_eq_le simp del: upt_Suc)
  then show ?thesis
    using free_entries_finite [of im] by (auto simp: free_entry_def free_entries_def simp del: upt_Suc split: option.splits)
qed

lemma add_entry_takes:
  assumes "img_fits f im" "(rec + n) * 128 \<le> length buf" "n \<le> 256" "length name = 11"
  shows "takes f (blocks_for f n) 1 im (add_entry name buf rec n k im)"
proof (cases "free_entries f im = 0")
  case True
  then have "free_entry im = Die" using free_entry_takes [OF assms(1)] by simp
  then show ?thesis using True by (simp add: takes_def add_entry_def)
next
  case False
  then obtain e where fe: "free_entry im = Done e" using free_entry_takes [OF assms(1)] by auto
  note e = free_entry_Done [OF assms(1) fe]
  define im1 where "im1 = put_bytes (entry_ptr im e + 0) (entry_head name n k) im"
  have g1: "grows f {e} im im1"
    using put_entry_grows [OF assms(1) e(1), of 0 "entry_head name n k"] assms(4) by (simp add: im1_def length_entry_head)
  have b1: "entry_byte im1 x 0 = (if x = e then 0 else entry_byte im x 0)" if "x \<le> drm f" for x
    using entry_byte_put_entry [OF assms(1) e(1) that, of 0 "entry_head name n k" 0] assms(4)
    by (simp add: im1_def length_entry_head nth_entry_head)
  have "{x. x \<le> drm f \<and> entry_byte im1 x 0 = 0xE5} = {x. x \<le> drm f \<and> entry_byte im x 0 = 0xE5} - {e}" using b1 by (auto split: if_splits)
  then have fe1: "free_entries f im1 = free_entries f im - 1"
    using e free_entries_finite [of im] by (simp add: free_entries_def)
  then have t1: "takes f 0 1 im (Done im1)"
    using False grows_fits [OF g1] by (simp add: takes_def) (simp add: free_blocks_def im1_def)
  have ff: "im_f im1 = f" using grows_fits [OF g1] by (simp add: img_fits_def)
  have "takes f (0 + blocks_for f n) (1 + 0) im (add_entry name buf rec n k im)"
  proof (rule takes_seq [OF t1, where g = "add_blocks buf e rec n [0..<blocks_for f n]"])
    show "takes f (blocks_for f n) 0 im' (add_blocks buf e rec n [0..<blocks_for f n] im')" if "img_fits f im'" for im'
      using add_blocks_takes [OF that e(1) assms(2), of "[0..<blocks_for f n]"] ptr_bound [OF assms(3)]
      by (simp add: blocks_for_def needed_blocks [unfolded One_nat_def])
    show "add_entry name buf rec n k im = (case Done im1 of Done im' \<Rightarrow> add_blocks buf e rec n [0..<blocks_for f n] im' | Die \<Rightarrow> Die | Overread \<Rightarrow> Overread)"
      using ff by (simp add: add_entry_def fe Let_def im1_def blocks_for_def)
  qed
  then show ?thesis by simp
qed

lemma blocks_for_more: "blocks_for f (256 + m) = blocks_for f 256 + blocks_for f m"
proof -
  have "256 * 128 = ptr_n f * bsize f" by (simp add: whole_records mult.assoc [symmetric] entry_span)
  then have b: "(256 + m) * 128 + bsize f - 1 = ptr_n f * bsize f + (m * 128 + bsize f - 1)" for m
    using per_pos(2) by (simp add: add_mult_distrib del: per_pos)
  have s: "blocks_for f (256 + m) = ptr_n f + blocks_for f m" for m unfolding blocks_for_def b by simp
  have "blocks_for f 0 = 0" using per_pos(2) by (simp add: blocks_for_def del: per_pos)
  with s [of 0] s [of m] show ?thesis by simp
qed

lemma add_entries_takes:
  assumes "img_fits f im" "records * 128 \<le> length buf" "length name = 11" "rec \<le> records"
  shows "takes f (blocks_for f (records - rec)) (entries_for (records - rec)) im (add_entries name buf records rec k im)"
  using assms
proof (induction name buf records rec k im rule: add_entries.induct)
  case (1 name buf records rec k im)
  define n where "n = (if records - rec > 256 then 256 else records - rec)"
  have n: "n \<le> 256" "rec + n \<le> records" using "1.prems"(4) by (auto simp: n_def)
  have lb: "(rec + n) * 128 \<le> length buf" using n(2) "1.prems"(2) by (meson le_trans mult_le_mono1)
  note t = add_entry_takes [OF "1.prems"(1) lb n(1) "1.prems"(3), of k]
  have u: "add_entries name buf records rec k im =
      (case add_entry name buf rec n k im of
         Done im \<Rightarrow> if 0 < n \<and> rec + n < records then add_entries name buf records (rec + n) (k + 1) im else Done im
       | Die \<Rightarrow> Die | Overread \<Rightarrow> Overread)"
    unfolding add_entries.simps [of name buf records rec k im] Let_def n_def [symmetric] by (rule refl)
  show ?case
  proof (cases "0 < n \<and> rec + n < records")
    case True
    define m where "m = records - (rec + n)"
    have n256: "n = 256" using True by (auto simp: n_def split: if_splits)
    then have mr: "records - rec = 256 + m" "0 < m" using True by (auto simp: m_def)
    have b: "blocks_for f (records - rec) = blocks_for f n + blocks_for f (records - (rec + n))"
      using blocks_for_more [of m] unfolding m_def [symmetric] mr(1) by (simp only: n256)
    have e: "entries_for (records - rec) = 1 + entries_for (records - (rec + n))"
    proof -
      have "(256 + m + 255) div 256 = 1 + (m + 255) div 256" "1 \<le> (m + 255) div 256" using mr(2) by simp_all
      then show ?thesis unfolding m_def [symmetric] mr(1) entries_for_def by simp
    qed
    show ?thesis
      unfolding b e
    proof (rule takes_seq [OF t, where g = "add_entries name buf records (rec + n) (k + 1)"])
      show "takes f (blocks_for f (records - (rec + n))) (entries_for (records - (rec + n))) im'
          (add_entries name buf records (rec + n) (k + 1) im')"
        if "add_entry name buf rec n k im = Done im'" "img_fits f im'" for im'
        by (rule "1.IH" [OF n_def that(1) True that(2) "1.prems"(2,3) n(2)])
    qed (use True in \<open>simp add: u split: outcome.splits\<close>)
  next
    case False
    then have nr: "n = records - rec" by (auto simp: n_def split: if_splits)
    then have e: "entries_for (records - rec) = 1" using n(1) by (simp add: entries_for_def)
    have "add_entries name buf records rec k im = add_entry name buf rec n k im"
      unfolding u using False by (auto split: outcome.splits)
    then show ?thesis using t e nr by simp
  qed
qed

lemma add_file_takes:
  assumes "img_fits f im"
  shows "takes f (blocks_for f ((length content + 127) div 128)) (entries_for ((length content + 127) div 128))
    (delete_file im (to_cpm_name h)) (add_file im h (Some content))"
  using add_entries_takes [OF delete_file_effect(1) [OF assms refl, of "to_cpm_name h"], of "(length content + 127) div 128" "padded content" "to_cpm_name h" 0 0]
  by (simp add: add_file_def Let_def padded_def [symmetric] length_padded)

end

section \<open>Loading\<close>

lemma nth_fold_upt:
  assumes "b < length a"
  shows "fold (\<lambda>b a. a [b := True]) [0..<n] a ! b = (b < n \<or> a ! b)"
    and "length (fold (\<lambda>b a. a [b := True]) [0..<n] a) = length a"
proof -
  have u: "xs [n := True] ! b = (n = b \<or> xs ! b)" if "b < length xs" for n and xs :: "bool list"
    using that by (cases "n = b") simp_all
  have l: "length (fold (\<lambda>b a. a [b := True]) [0..<n] a) = length a" for n by (induction n) simp_all
  show "length (fold (\<lambda>b a. a [b := True]) [0..<n] a) = length a" by (rule l)
  show "fold (\<lambda>b a. a [b := True]) [0..<n] a ! b = (b < n \<or> a ! b)"
    using assms by (induction n) (auto simp: u l less_Suc_eq)
qed

context cpm_format
begin

text \<open>The image that \<open>img_load\<close> makes of the bytes \<open>d\<close>.\<close>

lemma img_load_image:
  assumes "length d = fmt_size f"
  obtains im where
    "(case file of
        Some content \<Rightarrow> map_option (\<lambda>f. (f, content)) (fmt_for_size (length content))
      | None \<Rightarrow> map_option (\<lambda>f. (f, replicate (fmt_size f) 0xE5)) create_as) = Some (f, d) \<Longrightarrow> img_load file create_as = Done im"
    "img_fits f im" "im_data im = d"
    "\<And>b. b \<le> dsm f \<Longrightarrow> im_alloc im ! b = (b < dir_n f \<or> (\<exists>e. live f im e \<and> b \<in> owned f im e))"
proof -
  define a where "a = fold (\<lambda>b a. a [b := True]) [0..<dir_n f] (replicate (dsm f + 1) False)"
  define im0 where "im0 = \<lparr>im_f = f, im_data = d, dir_blocks = dir_n f, ptrs = ptr_n f, im_alloc = a\<rparr>"
  define im where "im = im0\<lparr>im_alloc := fold (mark_entry im0) [0..<drm f + 1] a\<rparr>"
  have la: "length a = dsm f + 1" unfolding a_def by (subst nth_fold_upt(2) [of 0]) simp_all
  have a: "a ! b = (b < dir_n f)" if "b \<le> dsm f" for b
    unfolding a_def using nth_fold_upt(1) [of b "replicate (dsm f + 1) False" "dir_n f"] that by (simp add: nth_replicate del: replicate_Suc)
  have f0: "img_fits f im0" using assms la by (simp add: im0_def img_fits_def)
  have e0: "entry_byte im e k = entry_byte im0 e k" "entry_block im e i = entry_block im0 e i" for e k i
    by (simp_all add: im_def entry_byte_def entry_ptr_def block_ptr_def entry_block_def)
  then have l0: "live f im e = live f im0 e" "owned f im e = owned f im0 e" for e by (simp_all add: live_def owned_def)
  have E5: "\<not> (0xE5 :: u8) \<le> 15" by simp
  have mk: "length (mark_entry im0 e c) = length c \<and> (\<forall>b\<le>dsm f. mark_entry im0 e c ! b = (c ! b \<or> (live f im0 e \<and> b \<in> owned f im0 e)))"
    if "e \<le> drm f" "length c = dsm f + 1" for e c
  proof -
    have lv: "(entry_byte im0 e 0 = 0xE5 \<or> entry_byte im0 e 0 > 15) \<longleftrightarrow> \<not> live f im0 e" using that(1) E5 by (auto simp: live_def)
    have "im_f im0 = f" "ptrs im0 = ptr_n f" using f0 by (simp_all add: img_fits_def)
    then show ?thesis
      using that(2) nth_fold_marks [of _ c "entry_block im0 e" "dsm f" True "[0..<ptr_n f]"]
      unfolding mark_entry_def lv by (auto simp: owned_def)
  qed
  have fm: "length (fold (mark_entry im0) es c) = length c \<and>
      (\<forall>b\<le>dsm f. fold (mark_entry im0) es c ! b = (c ! b \<or> (\<exists>e\<in>set es. live f im0 e \<and> b \<in> owned f im0 e)))"
    if "set es \<subseteq> {..drm f}" "length c = dsm f + 1" for es c
    using that by (induction es arbitrary: c) (auto simp: mk)
  have s: "set [0..<drm f + 1] = {..drm f}" by auto
  have ia: "im_alloc im = fold (mark_entry im0) [0..<drm f + 1] a" by (simp add: im_def del: upt_Suc)
  have al: "length (im_alloc im) = dsm f + 1" "\<And>b. b \<le> dsm f \<Longrightarrow> im_alloc im ! b = (b < dir_n f \<or> (\<exists>e. live f im e \<and> b \<in> owned f im e))"
    using fm [of "[0..<drm f + 1]" a] la a unfolding s ia l0 by (auto simp: live_def simp del: upt_Suc)
  have ft: "img_fits f im" using f0 al(1) by (simp add: img_fits_def im_def im0_def)
  show ?thesis
  proof (rule that [OF _ ft _ al(2)])
    assume "(case file of
        Some content \<Rightarrow> map_option (\<lambda>f. (f, content)) (fmt_for_size (length content))
      | None \<Rightarrow> map_option (\<lambda>f. (f, replicate (fmt_size f) 0xE5)) create_as) = Some (f, d)"
    then show "img_load file create_as = Done im"
      unfolding img_load_def option.case prod.case Let_def im_def im0_def a_def dir_n_def ptr_n_def by simp
  qed (simp add: im_def im0_def)
qed

text \<open>A new image is sound and empty.\<close>

lemma blank_image:
  obtains im where "img_load None (Some f) = Done im" "sound f im" "free_entries f im = drm f + 1" "free_blocks f im = dsm f + 1 - dir_n f"
proof -
  obtain im where im: "img_load None (Some f) = Done im" "img_fits f im" "im_data im = replicate (fmt_size f) 0xE5"
    "\<And>b. b \<le> dsm f \<Longrightarrow> im_alloc im ! b = (b < dir_n f \<or> (\<exists>e. live f im e \<and> b \<in> owned f im e))"
    by (rule img_load_image [of "replicate (fmt_size f) 0xE5" "Some f" None]) (auto intro: that)
  have eb: "entry_byte im e 0 = 0xE5" if "e \<le> drm f" for e
    using entry_in [OF that] by (simp add: entry_byte_def ptrs_at [OF im(2)] im(3))
  then have nl: "\<not> live f im e" for e by (auto simp: live_def)
  have "{e. e \<le> drm f \<and> entry_byte im e 0 = 0xE5} = {..drm f}" using eb by auto
  then have fe: "free_entries f im = drm f + 1" by (simp add: free_entries_def)
  have "{b. dir_n f \<le> b \<and> b \<le> dsm f \<and> \<not> im_alloc im ! b} = {dir_n f..dsm f}" using im(4) nl by auto
  then have "free_blocks f im = dsm f + 1 - dir_n f" by (simp add: free_blocks_def)
  with im nl fe show ?thesis by (intro that [of im]) (simp_all add: sound_def)
qed

text \<open>A sound image that was saved is loaded as a sound image with the same bytes.\<close>

lemma saved_bytes: "img_fits f im \<Longrightarrow> img_save im = im_data im"
  by (simp add: img_save_def img_fits_def)

lemma reload_image:
  assumes "sound f im" "fmt_for_size (fmt_size f) = Some f"
  obtains im' where "img_load (Some (img_save im)) create_as = Done im'" "sound f im'" "im_data im' = im_data im"
proof -
  have ft: "img_fits f im" using assms(1) by (simp add: sound_def)
  obtain im' where im': "img_load (Some (img_save im)) create_as = Done im'" "img_fits f im'" "im_data im' = im_data im"
    "\<And>b. b \<le> dsm f \<Longrightarrow> im_alloc im' ! b = (b < dir_n f \<or> (\<exists>e. live f im' e \<and> b \<in> owned f im' e))"
    by (rule img_load_image [of "im_data im" create_as "Some (img_save im)"])
      (use ft assms(2) in \<open>auto intro: that simp: saved_bytes img_fits_def\<close>)
  have e: "entry_byte im' e k = entry_byte im e k" for e k
    using im'(3) by (simp add: entry_byte_def ptrs_at [OF ft] ptrs_at [OF im'(2)])
  have l: "live f im' e = live f im e" for e by (simp add: live_def e)
  have so: "sound_entry f im' e \<and> owned f im' e = owned f im e" if "live f im e" for e
    using sound_entry_cong [OF ft im'(2) e] assms(1) that by (auto simp: sound_def)
  have "im_alloc im' ! b" if "live f im' e" "b \<in> owned f im' e" for e b
    using so [of e] that im'(4) [of b] by (auto simp: l sound_entry_def)
  then have "sound f im'" using assms(1) im'(2) so by (simp add: sound_def l)
  with im' show ?thesis by (intro that)
qed

end

text \<open>Both formats of the tool.\<close>

interpretation fd: cpm_format FMT_FD
  by unfold_locales (simp_all add: FMT_FD_def dir_n_def ptr_n_def per_block_def data_base_def)

interpretation hd: cpm_format FMT_HD
  by unfold_locales (simp_all add: FMT_HD_def dir_n_def ptr_n_def per_block_def data_base_def)

lemma tool_format:
  assumes "f \<in> {FMT_FD, FMT_HD}"
  shows "cpm_format f" "fmt_for_size (fmt_size f) = Some f"
  using assms fd.cpm_format_axioms hd.cpm_format_axioms by (auto simp: fmt_for_size_def FMT_FD_def FMT_HD_def)

section \<open>Runs of the tool\<close>

lemma host_of_name_short:
  assumes "length name = 11"
  shows "length (host_of_name name) \<le> 12"
proof -
  have "length (takeWhile (\<lambda>c. c \<noteq> 0x20) (take 8 name)) \<le> 8" by (rule order_trans [OF length_takeWhile_le]) simp
  moreover have "length (takeWhile (\<lambda>c. c \<noteq> 0x20) (drop 8 name)) \<le> 3"
    by (rule order_trans [OF length_takeWhile_le]) (simp add: assms)
  ultimately show ?thesis unfolding host_of_name_def by (intro order_trans [OF length_takeWhile_le]) simp
qed

context cpm_format
begin

lemma delete_file_room:
  assumes "img_fits f im"
  shows "free_blocks f im \<le> free_blocks f (delete_file im name)" "free_entries f im \<le> free_entries f (delete_file im name)"
  using delete_file_effect(2,4) [OF assms refl, where name = name] free_blocks_finite free_entries_finite
  unfolding free_blocks_def free_entries_def by (auto intro!: card_mono)

lemma add_file_sound:
  assumes "sound f im" "add_file im h (Some content) = Done im'" "seven_bit (to_cpm_name h)"
  shows "sound f im'"
proof -
  have ft: "img_fits f im" using assms(1) by (simp add: sound_def)
  show ?thesis by (rule add_file_Done [OF ft assms(2,3)]) (use sound_delete [OF assms(1) refl] in blast)
qed

lemma add_file_extract:
  assumes "img_fits f im" "add_file im h (Some content) = Done im'" "seven_bit (to_cpm_name h)"
    "writable (take 1023 (outdir @ [0x2F] @ host_of_name (to_cpm_name h)))"
  shows "extract_files writable im' (Some (to_cpm_name h)) outdir =
    Done [(take 1023 (outdir @ [0x2F] @ host_of_name (to_cpm_name h)), padded content)]"
proof -
  obtain es where "file_at f (to_cpm_name h) (padded content) ((length content + 127) div 128) im' es"
    "grows f (set es) (delete_file im (to_cpm_name h)) im'"
    by (rule add_file_Done [OF assms(1-3)]) (rule that; assumption)
  then show ?thesis by (intro file_at_extract assms(4)) (auto simp: length_padded dest: grows_fits)
qed

lemma add_files_sound:
  assumes "sound f im" "add_files host_file im hs = Done im'" "\<And>h. h \<in> set hs \<Longrightarrow> seven_bit (to_cpm_name h)"
  shows "sound f im'"
  using assms
proof (induction hs arbitrary: im)
  case (Cons h hs)
  from Cons.prems(2) obtain im1 where a: "add_file im h (host_file h) = Done im1" and r: "add_files host_file im1 hs = Done im'"
    by (auto split: outcome.splits)
  from a obtain content where c: "host_file h = Some content" by (cases "host_file h") (auto simp: add_file_def)
  have "sound f im1" using Cons.prems(3) by (intro add_file_sound [OF Cons.prems(1) a [unfolded c]]) simp
  with Cons.IH [OF _ r] Cons.prems(3) show ?case by simp
qed simp

lemma add_files_others:
  assumes "sound f im" "add_files host_file im hs = Done im'" "\<And>h. h \<in> set hs \<Longrightarrow> seven_bit (to_cpm_name h)"
    "name \<notin> to_cpm_name ` set hs" "length name = 11"
  shows "extract_files writable im' (Some name) outdir = extract_files writable im (Some name) outdir"
  using assms
proof (induction hs arbitrary: im)
  case (Cons h hs)
  from Cons.prems(2) obtain im1 where a: "add_file im h (host_file h) = Done im1" and r: "add_files host_file im1 hs = Done im'"
    by (auto split: outcome.splits)
  from a obtain content where c: "host_file h = Some content" by (cases "host_file h") (auto simp: add_file_def)
  have 7: "seven_bit (to_cpm_name h)" using Cons.prems(3) by simp
  have s: "sound f im1" by (rule add_file_sound [OF Cons.prems(1) a [unfolded c] 7])
  have "extract_files writable im1 (Some name) outdir = extract_files writable im (Some name) outdir"
    by (rule add_file_others [OF Cons.prems(1) a [unfolded c] 7]) (use Cons.prems(4,5) in auto)
  with Cons.IH [OF s r] Cons.prems(3-5) show ?case by simp
qed simp

lemma add_files_extract:
  assumes "sound f im" "add_files host_file im hs = Done im'" "\<And>h. h \<in> set hs \<Longrightarrow> seven_bit (to_cpm_name h)"
    "distinct (map to_cpm_name hs)" "h \<in> set hs" "writable (take 1023 (outdir @ [0x2F] @ host_of_name (to_cpm_name h)))"
  shows "\<exists>content. host_file h = Some content \<and> extract_files writable im' (Some (to_cpm_name h)) outdir =
    Done [(take 1023 (outdir @ [0x2F] @ host_of_name (to_cpm_name h)), padded content)]"
  using assms(1-5)
proof (induction hs arbitrary: im)
  case (Cons g hs)
  from Cons.prems(2) obtain im1 where a: "add_file im g (host_file g) = Done im1" and r: "add_files host_file im1 hs = Done im'"
    by (auto split: outcome.splits)
  from a obtain content where c: "host_file g = Some content" by (cases "host_file g") (auto simp: add_file_def)
  have 7: "seven_bit (to_cpm_name g)" using Cons.prems(3) by simp
  have s: "sound f im1" by (rule add_file_sound [OF Cons.prems(1) a [unfolded c] 7])
  show ?case
  proof (cases "h = g")
    case True
    have "img_fits f im" using Cons.prems(1) by (simp add: sound_def)
    from add_file_extract [OF this a [unfolded c] 7] assms(6) True
    have "extract_files writable im1 (Some (to_cpm_name h)) outdir =
      Done [(take 1023 (outdir @ [0x2F] @ host_of_name (to_cpm_name h)), padded content)]" by simp
    moreover have "extract_files writable im' (Some (to_cpm_name h)) outdir = extract_files writable im1 (Some (to_cpm_name h)) outdir"
      using add_files_others [OF s r, of "to_cpm_name h"] Cons.prems(3,4) True by simp
    ultimately show ?thesis using c True by simp
  next
    case False
    with Cons.IH [OF s r] Cons.prems(3-5) show ?thesis by simp
  qed
qed simp

lemma extract_same_bytes:
  assumes "sound f im" "img_fits f im'" "im_data im' = im_data im" "length name = 11"
  shows "extract_files writable im' (Some name) outdir = extract_files writable im (Some name) outdir"
proof -
  have ft: "img_fits f im" using assms(1) by (simp add: sound_def)
  have e: "entry_byte im' e k = entry_byte im e k" "block_byte im' b k = block_byte im b k" for e k b
    using assms(3) by (simp_all add: entry_byte_def block_byte_def ptrs_at [OF ft] ptrs_at [OF assms(2)])
  have nm: "named f im' name = named f im name" by (simp add: named_def name_eq_def e)
  have so: "e \<in> named f im name \<Longrightarrow> sound_entry f im e" for e using assms(1) by (auto simp: sound_def named_def live_def)
  note sw = same_walk [OF ft assms(2) nm so e]
  have "im_f im = f" "im_f im' = f" using ft assms(2) by (simp_all add: img_fits_def)
  then show ?thesis
    unfolding extract_files_def using sw by (auto intro!: extract_from_cong assms(4) simp del: upt_Suc)
qed

end

text \<open>The bytes of a sound image file.\<close>

definition sound_file :: "bytes \<Rightarrow> bool" where
  "sound_file d \<longleftrightarrow> (\<exists>f\<in>{FMT_FD, FMT_HD}. \<exists>im. im_data im = d \<and> sound f im)"

lemma load_sound:
  assumes "pred_option sound_file file" "img_load file (Some c) = Done im" "c \<in> {FMT_FD, FMT_HD}"
  shows "\<exists>f\<in>{FMT_FD, FMT_HD}. sound f im"
proof (cases "file")
  case None
  note fmt = tool_format(1) [OF assms(3)]
  show ?thesis by (rule cpm_format.blank_image [OF fmt]) (use assms(2,3) None in auto)
next
  case (Some d)
  with assms(1) obtain f im0 where f: "f \<in> {FMT_FD, FMT_HD}" and im0: "im_data im0 = d" "sound f im0" by (auto simp: sound_file_def)
  note fmt = tool_format [OF f]
  have "img_save im0 = d" using im0 by (simp add: cpm_format.saved_bytes [OF fmt(1)] sound_def)
  with Some assms(2) have ld: "img_load (Some (img_save im0)) (Some c) = Done im" by simp
  show ?thesis by (rule cpm_format.reload_image [OF fmt(1) im0(2) fmt(2), of "Some c"]) (use f ld in auto)
qed

text \<open>The options of the two runs below.\<close>

lemma run_args:
  assumes "take 1 path \<noteq> arg_str ''-''"
  shows "parse_opts o1 (path # hs) = Some (o1, path # hs)"
    "parse_opts o1 (arg_str ''-x'' # path # hs) = Some (o1\<lparr>o_mode := Extract\<rparr>, path # hs)"
  using assms by (simp_all add: arg_str_def)

text \<open>C12: a run of the tool that adds files to a new image, or to a sound one, leaves a sound image, and a second run
  extracts each of them: one file with its CP/M name and its contents, padded with 0x1A to whole records.  The files have
  distinct CP/M names of 7-bit characters.\<close>

theorem mkdsk_roundtrip:
  assumes "pred_option sound_file (host_file path)" "take 1 path \<noteq> arg_str ''-''"
    "mkdsk host_file writable (path # hs) = Done (Image path d)"
    "list_all (\<lambda>h. seven_bit (to_cpm_name h)) hs" "distinct (map to_cpm_name hs)"
    "h \<in> set hs" "h \<noteq> arg_str ''-o''" "writable (arg_str ''./'' @ host_of_name (to_cpm_name h))"
  shows "sound_file d \<and>
    (\<exists>content. host_file h = Some content \<and>
       mkdsk (host_file(path \<mapsto> d)) writable [arg_str ''-x'', path, h] =
         Done (Files [(arg_str ''./'' @ host_of_name (to_cpm_name h), padded content)]))"
proof -
  from assms(3) obtain im im' where im: "img_load (host_file path) (Some FMT_HD) = Done im"
    "add_files host_file im hs = Done im'" "d = img_save im'"
    unfolding mkdsk_def run_args(1) [OF assms(2)] by (auto split: outcome.splits if_splits)
  from load_sound [OF assms(1) im(1)] obtain f where f: "f \<in> {FMT_FD, FMT_HD}" and s: "sound f im" by auto
  note fmt = tool_format [OF f]
  have 7: "\<And>h. h \<in> set hs \<Longrightarrow> seven_bit (to_cpm_name h)" using assms(4) by (simp add: list_all_iff)
  define dest where "dest = arg_str ''./'' @ host_of_name (to_cpm_name h)"
  have dest: "take 1023 (arg_str ''.'' @ [0x2F] @ host_of_name (to_cpm_name h)) = dest"
    using host_of_name_short [of "to_cpm_name h"] by (simp add: dest_def arg_str_def)
  obtain content where c: "host_file h = Some content"
    "extract_files writable im' (Some (to_cpm_name h)) (arg_str ''.'') = Done [(dest, padded content)]"
    using cpm_format.add_files_extract [OF fmt(1) s im(2) 7 assms(5,6), of writable "arg_str ''.''"] assms(8)
    unfolding dest by (auto simp: dest_def)
  have s': "sound f im'" by (rule cpm_format.add_files_sound [OF fmt(1) s im(2) 7])
  obtain im2 where im2: "img_load (Some d) None = Done im2" "sound f im2" "im_data im2 = im_data im'"
    unfolding im(3) by (rule cpm_format.reload_image [OF fmt(1) s' fmt(2)])
  have "extract_files writable im2 (Some (to_cpm_name h)) (arg_str ''.'') = Done [(dest, padded content)]"
    using cpm_format.extract_same_bytes [OF fmt(1) s' _ im2(3), of "to_cpm_name h"] im2(2) c(2) by (simp add: sound_def)
  moreover have "find_outdir (arg_str ''.'') [h] = arg_str ''.''" "wanted_names [h] = [h]" using assms(7) by simp_all
  ultimately have "mkdsk (host_file(path \<mapsto> d)) writable [arg_str ''-x'', path, h] = Done (Files [(dest, padded content)])"
    unfolding mkdsk_def run_args(2) [OF assms(2)] by (simp add: im2(1) Let_def)
  moreover have "sound_file d"
    using f s' im(3) cpm_format.saved_bytes [OF fmt(1)] by (auto simp: sound_file_def sound_def)
  ultimately show ?thesis using c(1) by (simp add: dest_def)
qed

text \<open>A small file fits on a new image.\<close>

lemma blank_add:
  obtains im im' where "img_load None (Some FMT_HD) = Done im" "sound FMT_HD im" "add_file im h (Some [1, 2, 3]) = Done im'"
proof -
  obtain im where im: "img_load None (Some FMT_HD) = Done im" "sound FMT_HD im" "free_entries FMT_HD im = drm FMT_HD + 1"
    "free_blocks FMT_HD im = dsm FMT_HD + 1 - dir_n FMT_HD" by (rule hd.blank_image)
  have ft: "img_fits FMT_HD im" using im(2) by (simp add: sound_def)
  have "blocks_for FMT_HD 1 = 1" "entries_for 1 = 1" "1 \<le> free_blocks FMT_HD im" "1 \<le> free_entries FMT_HD im"
    unfolding im(3,4) by (simp_all add: blocks_for_def entries_for_def FMT_HD_def dir_n_def)
  note n = this
  have m: "(length [1 :: u8, 2, 3] + 127) div 128 = 1" by simp
  have "takes FMT_HD 1 1 (delete_file im (to_cpm_name h)) (add_file im h (Some [1, 2, 3]))"
    using hd.add_file_takes [OF ft, of "[1, 2, 3]" h] unfolding m n(1,2) .
  moreover have "1 \<le> free_blocks FMT_HD (delete_file im (to_cpm_name h))" "1 \<le> free_entries FMT_HD (delete_file im (to_cpm_name h))"
    by (rule order_trans [OF n(3) hd.delete_file_room(1) [OF ft]], rule order_trans [OF n(4) hd.delete_file_room(2) [OF ft]])
  ultimately obtain im' where "add_file im h (Some [1, 2, 3]) = Done im'" by (auto simp: takes_def)
  then show ?thesis using that im(1,2) by blast
qed

lemma small_names:
  "to_cpm_name (arg_str ''a.b'') = [0x41, 0x20, 0x20, 0x20, 0x20, 0x20, 0x20, 0x20, 0x42, 0x20, 0x20]"
  "to_cpm_name (arg_str ''c'') = [0x43, 0x20, 0x20, 0x20, 0x20, 0x20, 0x20, 0x20, 0x20, 0x20, 0x20]"
  by code_simp+

lemma small_name:
  "seven_bit (to_cpm_name (arg_str ''a.b''))" "host_of_name (to_cpm_name (arg_str ''a.b'')) = arg_str ''A.B''"
  "to_cpm_name (arg_str ''c'') \<noteq> to_cpm_name (arg_str ''a.b'')"
  unfolding small_names by (simp_all add: seven_bit_def host_of_name_def arg_str_def)

theorem mkdsk_roundtrip_witness:
  "\<exists>d. mkdsk [arg_str ''a.b'' \<mapsto> [1, 2, 3]] (\<lambda>_. True) [arg_str ''d'', arg_str ''a.b''] = Done (Image (arg_str ''d'') d) \<and>
     sound_file d \<and>
     mkdsk [arg_str ''a.b'' \<mapsto> [1, 2, 3], arg_str ''d'' \<mapsto> d] (\<lambda>_. True) [arg_str ''-x'', arg_str ''d'', arg_str ''a.b''] =
       Done (Files [(arg_str ''./A.B'', [1, 2, 3] @ replicate 125 0x1A)])"
proof -
  obtain im im' where im: "img_load None (Some FMT_HD) = Done im" "add_file im (arg_str ''a.b'') (Some [1, 2, 3]) = Done im'"
    by (rule blank_add)
  have ne: "arg_str ''d'' \<noteq> arg_str ''a.b''" "take 1 (arg_str ''d'') \<noteq> arg_str ''-''" "arg_str ''a.b'' \<noteq> arg_str ''-o''"
    by (simp_all add: arg_str_def)
  have run: "mkdsk [arg_str ''a.b'' \<mapsto> [1, 2, 3]] (\<lambda>_. True) [arg_str ''d'', arg_str ''a.b''] = Done (Image (arg_str ''d'') (img_save im'))"
    unfolding mkdsk_def run_args(1) [OF ne(2)] using im ne(1) by simp
  have "padded [1, 2, 3] = [1, 2, 3] @ replicate 125 0x1A" by (simp add: padded_def)
  moreover have "arg_str ''./'' @ arg_str ''A.B'' = arg_str ''./A.B''" by (simp add: arg_str_def)
  ultimately show ?thesis
    using mkdsk_roundtrip [OF _ ne(2) run, of "arg_str ''a.b''"] small_name ne run by auto
qed

text \<open>C14: adding a file keeps a sound image sound (entries in use have blocks of their own, in the data area and marked
  as allocated), and every file with another name is extracted as before, if the new name has 7-bit characters only.\<close>

theorem add_keeps_files:
  assumes "f \<in> {FMT_FD, FMT_HD}" "sound f im" "add_file im h (Some content) = Done im'" "seven_bit (to_cpm_name h)"
    "length name = 11" "name \<noteq> to_cpm_name h"
  shows "sound f im' \<and> extract_files writable im' (Some name) outdir = extract_files writable im (Some name) outdir"
  using cpm_format.add_file_sound [OF tool_format(1) [OF assms(1)] assms(2-4)]
    cpm_format.add_file_others [OF tool_format(1) [OF assms(1)] assms(2-4,6,5)] by simp

theorem add_keeps_files_witness:
  "\<exists>im im'. img_load None (Some FMT_HD) = Done im \<and> add_file im (arg_str ''a.b'') (Some [1, 2, 3]) = Done im' \<and>
     sound FMT_HD im' \<and> extract_files (\<lambda>_. True) im' (Some (to_cpm_name (arg_str ''c''))) [] =
       extract_files (\<lambda>_. True) im (Some (to_cpm_name (arg_str ''c''))) []"
proof -
  obtain im im' where im: "img_load None (Some FMT_HD) = Done im" "sound FMT_HD im"
    "add_file im (arg_str ''a.b'') (Some [1, 2, 3]) = Done im'" by (rule blank_add)
  then show ?thesis using add_keeps_files [OF _ im(2,3) small_name(1) _ small_name(3)] by auto
qed

text \<open>C32: adding a file works exactly when the image, without the old file of that name, has room: a free entry for each
  32 KB (one at least) and the blocks of the records.  It then takes that much and no more; otherwise the tool ends with
  its message, and the image file is not touched.\<close>

theorem add_file_room:
  assumes "f \<in> {FMT_FD, FMT_HD}" "img_fits f im"
  shows "let im1 = delete_file im (to_cpm_name h); m = (length content + 127) div 128
    in if blocks_for f m \<le> free_blocks f im1 \<and> entries_for m \<le> free_entries f im1
       then \<exists>im'. add_file im h (Some content) = Done im' \<and> free_blocks f im' + blocks_for f m = free_blocks f im1 \<and>
              free_entries f im' + entries_for m = free_entries f im1
       else add_file im h (Some content) = Die"
  using cpm_format.add_file_takes [OF tool_format(1) [OF assms(1)] assms(2), of content h]
  unfolding takes_def Let_def by (auto split: if_splits)

theorem add_file_room_witness:
  "\<exists>im. img_load None (Some FMT_HD) = Done im \<and>
     (let im1 = delete_file im (to_cpm_name []); m = (length [1 :: u8, 2, 3] + 127) div 128
      in if blocks_for FMT_HD m \<le> free_blocks FMT_HD im1 \<and> entries_for m \<le> free_entries FMT_HD im1
         then \<exists>im'. add_file im [] (Some [1, 2, 3]) = Done im' \<and> free_blocks FMT_HD im' + blocks_for FMT_HD m = free_blocks FMT_HD im1 \<and>
                free_entries FMT_HD im' + entries_for m = free_entries FMT_HD im1
         else add_file im [] (Some [1, 2, 3]) = Die)"
proof -
  obtain im where im: "img_load None (Some FMT_HD) = Done im" "sound FMT_HD im" by (rule hd.blank_image)
  then have "img_fits FMT_HD im" by (simp add: sound_def)
  from add_file_room [OF _ this, of "[]" "[1, 2, 3]"] im(1) show ?thesis by blast
qed

text \<open>C33: the walk of \<open>extract\<close> over the extents of a file ends after at most 4096 entries, whatever the image
  holds: more steps change nothing.\<close>

theorem extract_walk_ends: "extract_walk (4096 + n) im name 0 = extract_walk 4096 im name 0"
proof -
  have nb: "\<not> bit (entry_ext im e AND NOT (exm (im_f im))) 13" for e
    by (simp add: entry_ext_def bit_and_iff bit_or_iff bit_push_bit_iff bit_ucast_iff)
  have "bit (of_nat 8192 :: u32) 13" by simp
  then have "entry_ext im e AND NOT (exm (im_f im)) \<noteq> of_nat 8192" for e using nb by metis
  then have stop: "find_extent im name 8192 = None" by (simp add: find_extent_def find_None_iff)
  have "extract_walk (4096 - j + n) im name (2 * j) = extract_walk (4096 - j) im name (2 * j)" if "j \<le> 4096" for j
    using that
  proof (induction "4096 - j" arbitrary: j)
    case 0
    then have "j = 4096" by simp
    then show ?case using stop by (cases n) simp_all
  next
    case (Suc d)
    then have j: "4096 - j = Suc (4096 - (j + 1))" by simp
    have "extract_walk (4096 - (j + 1) + n) im name (2 * (j + 1)) = extract_walk (4096 - (j + 1)) im name (2 * (j + 1))"
      using Suc by (intro Suc.hyps(1)) simp_all
    then have w: "extract_walk (4096 - (j + 1) + n) im name (2 * j + 2) = extract_walk (4096 - (j + 1)) im name (2 * j + 2)"
      by (simp only: add_mult_distrib2 mult_1_right)
    show ?case unfolding j add_Suc extract_walk.simps w by (rule refl)
  qed
  from this [of 0] show ?thesis by simp
qed

end
