(* ===== verification/Spec2Isabelle.thy ===== *)
theory Spec2Isabelle
  imports Z80_Decode_Props Z80_Interp_Inv Z80_Alu_Props Dbt_Ldir_Props Dbt_Scan_Props Dbt_Loops Dbt_Run_Props Cpm_Host_Props
    Kaypro_Script_Props Mkdsk_Runs
begin

text \<open>
  A Z80 machine emulator for CP/M: a decoder, a reference interpreter, a dynamic binary translator
  whose translated blocks must stay consistent with guest memory, a CP/M 2.2 environment (a shim that answers BDOS and
  BIOS calls, or ports for a real BDOS and BIOS), a Kaypro console painted on the host terminal, and a tool that makes
  CP/M disk images.

  \<^bold>\<open>How the parts interact.\<close>  \<open>main\<close> (not modelled) loads a program, installs the shim or the ports and runs
  \<open>z80_step\<close> or \<open>dbt_run\<close>.  \<open>dbt_run\<close> looks a block up by PC, asks the back end to translate it on a miss, and enters
  it, or steps the interpreter.  Every store of the interpreter goes through \<open>z80_mem_w\<close>, which tells the block
  cache; host writes are reported by \<open>z80_mem_host_wrote\<close>, bulk stores of translated code by a range
  sweep.  The interpreter calls the shim at PC 5 and in the BIOS area, and the port hooks on IN and OUT;
  these read keys from the keyboard, write the screen and transfer 128-byte records between guest memory and host files.

  \<^bold>\<open>Theories.\<close>

  \<^item> \<open>Z80_Prelude\<close>: machine integers as words, flag bits, lemmas on bytes.
  \<^item> \<open>Z80_Types\<close>: \<open>z80_op_type\<close> and \<open>z80_decoded\<close> of \<open>core/z80.h\<close>.
  \<^item> \<open>Z80_Decode\<close>, \<open>Z80_Decode_Props\<close>: \<open>z80_decode_one\<close> (\<open>core/z80_decode.c\<close>), stage by stage; agreement with
    the x/y/z fields of the opcode, locality, lengths, the rejected inputs.
  \<^item> \<open>Block_Cache\<close>, \<open>Block_Cache_Props\<close>: the cache of translated blocks, the code bitmap, the
    registry of direct links and the invalidation by stores (\<open>dbt/block_cache.c\<close>), and the patchable jumps and
    calls the x86-64 back end emits; \<open>dbt_reach\<close> is the transition relation of the translator's state, with coherence and link
    invariants by rule induction; locale \<open>link_backend\<close>, interpreted on the patchable branches.  Blocks that run to the top of
    memory or past it are part of the model; the code does not mark their bytes, so the theorems on stale blocks speak of
    the blocks that end below it (\<open>fits\<close>), and \<open>wrapping_block_stale\<close> shows the exception.
  \<^item> \<open>Z80_State\<close>: \<open>z80_cpu_t\<close>, \<open>z80_mem_w\<close>; the record \<open>z80_env\<close> holds the hooks, the field \<open>host\<close> their state.
  \<^item> \<open>Z80_Interp\<close>, \<open>Z80_Interp_Inv\<close>, \<open>Z80_Alu_Props\<close>: \<open>z80_step\<close> (\<open>core/z80_interp.c\<close>), one definition per group of
    cases; locales for properties every store or step keeps; arithmetic, flags and DAA against numbers.
  \<^item> \<open>Dbt_Flags\<close>, \<open>Dbt_Flags_Props\<close>, \<open>Dbt_Ldir_Props\<close>: the helpers and tables that translated code calls
    (\<open>dbt/dbt_flags.c\<close>), equal to the interpreter's operations.
  \<^item> \<open>Dbt_Translate\<close>, \<open>Dbt_Scan_Props\<close>, \<open>Dbt_Liveness\<close>, \<open>Dbt_Elision\<close>, \<open>Dbt_Loops\<close>: what the x86-64 back end
    (\<open>dbt/dbt_x64.c\<close>) decides before it emits code: which instructions form a block, which flag and MEMPTR stores are dead, which
    loops are folded; and that these decisions preserve the interpreter's results.
  \<^item> \<open>Dbt_Run\<close>, \<open>Dbt_Run_Props\<close>: \<open>dbt_init\<close> and \<open>dbt_run\<close> with shadow verification (\<open>dbt/dbt_common.c\<close>).
  \<^item> \<open>Kaypro_Video\<close>, \<open>Kaypro_Video_Props\<close>: the screen (\<open>kaypro/kaypro_video.c\<close>).
  \<^item> \<open>Kaypro_Kbd\<close>, \<open>Kaypro_Kbd_Props\<close>, \<open>Kaypro_Script\<close>, \<open>Kaypro_Script_Props\<close>: the keyboard
    (\<open>kaypro/kaypro_kbd.c\<close>) and its script files; locale \<open>fifo\<close>, interpreted on the ring buffer; locale \<open>byte_source\<close>, interpreted
    on the host terminal and on scripts.
  \<^item> \<open>Kaypro_Render\<close>, \<open>Kaypro_Render_Props\<close>, \<open>Kaypro_Terminal\<close>: the terminal renderer
    (\<open>kaypro/kaypro_render_tty.c\<close>) with the bytes it writes; the locale \<open>ansi_terminal\<close> says what a terminal does with them,
    interpreted on a terminal that parses the stream; sessions of screen, renderer and terminal.
  \<^item> \<open>Cpm_Fs\<close>: the C library calls and the host file system the CP/M layer uses.
  \<^item> \<open>Cpm_Disk\<close>, \<open>Cpm_Disk_Props\<close>: the shim's disk (\<open>cpm/cpm_disk.c\<close>); locale \<open>record_device\<close>, interpreted on files here and
    on disk images in \<open>Cpm_Host_Props\<close>.
  \<^item> \<open>Cpm_Bdos\<close>, \<open>Cpm_Bdos_Props\<close>: the BDOS and BIOS dispatchers, the console, line input, the loader (\<open>cpm/cpm_bdos.c\<close>,
    \<open>cpm/cpm_bios.c\<close>, \<open>cpm/cpm_loader.c\<close>).
  \<^item> \<open>Cpm_Host\<close>, \<open>Cpm_Host_Props\<close>: the ports of a native CP/M system and the default port device (\<open>cpm/cpm_host.c\<close>,
    \<open>cpm/cpm_ports.c\<close>).
  \<^item> \<open>Mkdsk\<close>, \<open>Mkdsk_Props\<close>, \<open>Mkdsk_Files\<close>, \<open>Mkdsk_Runs\<close>: the disk image tool (\<open>tools/mkdsk.c\<close>): entries and blocks, files,
    whole runs; the locale \<open>cpm_format\<close> holds the arithmetic of a format, interpreted on both formats.

  \<^bold>\<open>What the theorems show.\<close>  No store of the interpreter, of a bulk helper, of a folded loop or of the native ports leaves a
  translated block below the top of memory whose bytes have changed, given that other hooks report their stores (the shim does
  not report its FCB updates); jumps and calls between blocks never lead to a dead block; what translated code may
  leave out, and copy and fill loops that do not store into themselves when they are folded, give the interpreter's results; under \<open>-V\<close> the run loop follows the interpreter
  whatever the native code does.  The arithmetic is that of numbers.  Disk files and images are arrays of records;
  directory entries name the files they came from; plain text typed or piped arrives complete and in order; line input is a line
  editor; a script round-trips through its file and types its text complete and in order; the calls keep the file slots, the keyboard and the screen well formed; the screen never leaves its cell array,
  and after a flush the terminal shows it.  A file added to a disk image is extracted again, and the other files stay.

  \<^bold>\<open>Bounds and fuel.\<close>  \<open>repatch_walk\<close> and \<open>unlink_walk\<close> are bounded by the link pool, which a chain cannot exceed
  (\<open>repatch_reaches_end\<close>); \<open>io_block_loop\<close> by 256 passes, since B is a byte; blocks by 64 instructions, as in the source; \<open>print_string\<close> by
  one tour of memory, after which the bytes repeat; \<open>fetch_loop\<close> by the input that is left (\<open>kbd_fetch_returns\<close>); \<open>extract_walk\<close> by 4096 extents (\<open>extract_walk_ends\<close>).  The line editor and \<open>dbt_run\<close> are
  partial functions: \<open>None\<close> is a call that never returns.

  \<^bold>\<open>Errors.\<close>  A C function that exits the process, runs past a buffer or never returns has a value for that in
  the model (\<open>Quit\<close>, \<open>Exited\<close>, \<open>Overrun\<close>, \<open>Looping\<close>, \<open>None\<close>).

  \<^bold>\<open>Not modelled.\<close>  The machine code the back ends emit (the run loop takes it as a parameter), and all of the
  AArch64 back end; the command line, signals, clocks, traces and other printing;
  stdio buffering and a full host disk; failing allocations; the generators of guest test programs.
\<close>

section \<open>Decoding and self-modifying code\<close>

text \<open>C22: An instruction that lies wholly inside a cached block decodes now exactly as it did when
  the block was translated, if the block ends below the top of memory.\<close>

theorem cached_instruction_unchanged:
  assumes "dbt_reach mem dbt snap"
    and "translation dbt pc \<noteq> None" "fits dbt pc"
    and "off + unat (dbytes (z80_decode_one (snap pc) (pc + of_nat off))) \<le> unat (span (cache dbt pc))"
  shows "z80_decode_one mem (pc + of_nat off) = z80_decode_one (snap pc) (pc + of_nat off)"
proof (rule decode_local_aux, unfold agree_upto_def, intro allI impI)
  fix k assume k: "k < unat (dbytes (z80_decode_one (snap pc) (pc + of_nat off)))"
  have "unat (span (cache dbt pc)) \<le> 65535"
    using reach_wf [OF assms(1)] assms(2)
    by (auto simp: cache_wf_def entry_ok_def translation_def Let_def word_le_nat_alt split: if_splits
        dest!: spec [of _ pc])
  then have "unat (of_nat (off + k) :: u16) = off + k"
    using k assms(4) by (intro unat_of_nat_u16) linarith
  then have "covers dbt pc (pc + of_nat (off + k))"
    using k assms(2,4) by (simp add: covers_def)
  then have "mem (pc + of_nat (off + k)) = snap pc (pc + of_nat (off + k))"
    using coherentD [OF reach_coherent [OF assms(1)] _ assms(3)] by blast
  then show "mem (pc + of_nat off + of_nat k) = snap pc (pc + of_nat off + of_nat k)"
    by (simp add: add.assoc)
qed

theorem cached_instruction_unchanged_witness:
  "z80_decode_one (\<lambda>_. 0) (0x100 + of_nat 1) = z80_decode_one (demo_snap 0x100) (0x100 + of_nat 1)"
proof (rule cached_instruction_unchanged [OF demo_reach])
  have c: "covers demo_block 0x100 0x102" by (simp add: demo_covers)
  then show "translation demo_block 0x100 \<noteq> None" by (simp add: covers_def)
  show "fits demo_block 0x100" by (rule demo_fits)
  have "unat (dbytes (z80_decode_one (\<lambda>_. 0) a)) = 1" for a
    by (simp add: z80_decode_one_eq prefix_count_none is_prefix_def decode_tail_def
        after_prefixes_def decode_plain_def decode_main_def decode_00_3F_def
        remap_half_regs_def zero_decoded_def)
  moreover have "2 < unat (span (cache demo_block 0x100))" using c by (simp add: covers_def)
  ultimately show "1 + unat (dbytes (z80_decode_one (demo_snap 0x100) (0x100 + of_nat 1)))
      \<le> unat (span (cache demo_block 0x100))"
    by (simp add: demo_snap_def)
qed

end
